(* ===== verification/Prelude.thy ===== *)
theory Prelude
  imports Main "HOL-Library.Char_ord" "HOL-Library.List_Lexorder"
    "HOL-Library.Product_Lexorder"
begin

text \<open>
  Shared vocabulary of the development: results of fallible operations, the three SQL verbs
  on a table kept as a list of rows (\<open>SELECT ... ORDER BY\<close>, \<open>UPDATE ... WHERE\<close>, the row
  count), the contract of a guarded status update, and the collections that carry the
  component proofs.
\<close>

named_theorems res_simps \<open>inversion of sequenced fallible steps\<close>
named_theorems frame_simps \<open>tables an operation leaves unchanged\<close>

subsection \<open>Results\<close>

text \<open>A fallible step returns \<open>Inl\<close> the raised exception or \<open>Inr\<close> its value.\<close>

definition bindr :: "'e + 'a \<Rightarrow> ('a \<Rightarrow> 'e + 'b) \<Rightarrow> 'e + 'b" where
  "bindr m f = (case m of Inl e \<Rightarrow> Inl e | Inr x \<Rightarrow> f x)"

lemma bindr_simps [simp]: "bindr (Inl e) f = Inl e" "bindr (Inr x) f = f x"
  by (simp_all add: bindr_def)

lemma bindr_Inr_iff [res_simps]: "bindr m f = Inr y \<longleftrightarrow> (\<exists>x. m = Inr x \<and> f x = Inr y)"
  by (cases m) simp_all

lemma bindr_Inl_iff: "bindr m f = Inl e \<longleftrightarrow> m = Inl e \<or> (\<exists>x. m = Inr x \<and> f x = Inl e)"
  by (cases m) simp_all

lemma bindrE:
  assumes "bindr m f = Inr y"
  obtains x where "m = Inr x" "f x = Inr y"
  using assms by (auto simp: bindr_Inr_iff)

text \<open>A step that returns normally, with a value of which \<open>P\<close> holds.\<close>

definition returns :: "'e + 'a \<Rightarrow> ('a \<Rightarrow> bool) \<Rightarrow> bool" where
  "returns m P = (case m of Inl _ \<Rightarrow> False | Inr y \<Rightarrow> P y)"

lemma returns_simps [simp]: "returns (Inl e) P = False" "returns (Inr y) P = P y"
  by (simp_all add: returns_def)

lemma returns_iff: "returns m P \<longleftrightarrow> (\<exists>y. m = Inr y \<and> P y)"
  by (cases m) simp_all

lemma returnsE:
  assumes "returns m P"
  obtains y where "m = Inr y" "P y"
  using assms by (auto simp: returns_iff)

text \<open>A loop over rows whose body may raise: it stops at the first exception.\<close>

fun foldr_res :: "('a \<Rightarrow> 's \<Rightarrow> 'e + 's) \<Rightarrow> 'a list \<Rightarrow> 's \<Rightarrow> 'e + 's" where
  "foldr_res f [] s = Inr s"
| "foldr_res f (x # xs) s = bindr (f x s) (foldr_res f xs)"

lemma foldr_res_invariant:
  assumes "foldr_res f xs s = Inr s'" "I s"
    and "\<And>x t t'. x \<in> set xs \<Longrightarrow> I t \<Longrightarrow> f x t = Inr t' \<Longrightarrow> I t'"
  shows "I s'"
  using assms
proof (induction xs arbitrary: s)
  case Nil
  then show ?case by simp
next
  case (Cons x xs)
  from Cons.prems(1) obtain t where t: "f x s = Inr t" "foldr_res f xs t = Inr s'"
    by (auto simp: bindr_Inr_iff)
  have "I t" using Cons.prems(2,3) t(1) by auto
  then show ?case using Cons.IH [OF t(2)] Cons.prems(3) by auto
qed

text \<open>A loop that keeps a projection of the state fixed.\<close>

lemma foldr_res_frame:
  assumes "foldr_res f xs s = Inr s'"
    and "\<And>x t t'. x \<in> set xs \<Longrightarrow> f x t = Inr t' \<Longrightarrow> g t' = g t"
  shows "g s' = g s"
  by (rule foldr_res_invariant [where I = "\<lambda>t. g t = g s", OF assms(1)]) (auto simp: assms(2))

text \<open>A loop whose body establishes \<open>P\<close> at one element and keeps it at the others.\<close>

lemma foldr_res_establishes:
  assumes "foldr_res f xs s = Inr s'" "x \<in> set xs" "I s"
    and "\<And>y t t'. y \<in> set xs \<Longrightarrow> I t \<Longrightarrow> f y t = Inr t' \<Longrightarrow> I t' \<and> (P t \<longrightarrow> P t')"
    and "\<And>t t'. I t \<Longrightarrow> f x t = Inr t' \<Longrightarrow> P t'"
  shows "P s'"
  using assms
proof (induction xs arbitrary: s)
  case Nil
  then show ?case by simp
next
  case (Cons y ys)
  obtain t where t: "f y s = Inr t" "foldr_res f ys t = Inr s'"
    using Cons.prems(1) by (auto simp: bindr_Inr_iff)
  have I: "I t" using Cons.prems(3) Cons.prems(4) [of y s t] t(1) by simp
  show ?case
  proof (cases "x = y")
    case True
    have "I s' \<and> P s'"
      by (rule foldr_res_invariant [where I = "\<lambda>s. I s \<and> P s", OF t(2)])
        (use I Cons.prems(3-5) t(1) True in auto)
    then show ?thesis by simp
  next
    case False
    then have "x \<in> set ys" using Cons.prems(2) by simp
    then show ?thesis
      by (rule Cons.IH [OF t(2) _ I]) (use Cons.prems(4,5) list.set_intros(2) in metis)+
  qed
qed

subsection \<open>Tables\<close>

text \<open>\<open>UPDATE t SET f WHERE p\<close>, its row count, and \<open>SELECT * FROM t WHERE p ORDER BY k\<close>.\<close>

definition update_where :: "('a \<Rightarrow> bool) \<Rightarrow> ('a \<Rightarrow> 'a) \<Rightarrow> 'a list \<Rightarrow> 'a list" where
  "update_where p f t = map (\<lambda>r. if p r then f r else r) t"

definition count_where :: "('a \<Rightarrow> bool) \<Rightarrow> 'a list \<Rightarrow> nat" where
  "count_where p t = length (filter p t)"

definition select_by :: "('a \<Rightarrow> 'k::linorder) \<Rightarrow> ('a \<Rightarrow> bool) \<Rightarrow> 'a list \<Rightarrow> 'a list" where
  "select_by k p t = sort_key k (filter p t)"

lemma set_select_by [simp]: "set (select_by k p t) = {r \<in> set t. p r}"
  by (auto simp: select_by_def)

lemma select_by_Nil_iff: "select_by k p t = [] \<longleftrightarrow> (\<forall>r\<in>set t. \<not> p r)"
proof -
  have "select_by k p t = [] \<longleftrightarrow> length (filter p t) = 0"
    by (metis select_by_def length_0_conv length_sort)
  then show ?thesis by (simp add: filter_empty_conv)
qed

lemma sorted_select_by: "sorted (map k (select_by k p t))"
  by (simp add: select_by_def)

lemma length_update_where [simp]: "length (update_where p f t) = length t"
  by (simp add: update_where_def)

lemma map_update_where_key:
  "(\<And>r. p r \<Longrightarrow> k (f r) = k r) \<Longrightarrow> map k (update_where p f t) = map k t"
  by (simp add: update_where_def)

lemma set_update_where: "set (update_where p f t) = {if p r then f r else r | r. r \<in> set t}"
  by (auto simp: update_where_def)

lemma in_update_whereE:
  assumes "x \<in> set (update_where p f t)"
  obtains r where "r \<in> set t" "x = (if p r then f r else r)"
  using assms by (auto simp: update_where_def)

lemma ball_update_where [simp]:
  "(\<forall>x\<in>set (update_where p f t). Q x) \<longleftrightarrow> (\<forall>r\<in>set t. Q (if p r then f r else r))"
  by (auto simp: update_where_def)

lemma filter_update_where_other:
  "(\<And>r. p r \<Longrightarrow> q (f r) = q r) \<Longrightarrow>
    filter q (update_where p f t) = update_where p f (filter q t)"
  by (induction t) (auto simp: update_where_def)

lemma count_update_where_le:
  assumes "\<And>r. r \<in> set t \<Longrightarrow> p r \<Longrightarrow> q (f r) \<Longrightarrow> q r"
  shows "count_where q (update_where p f t) \<le> count_where q t"
  using assms
proof (induction t)
  case Nil
  then show ?case by (simp add: count_where_def update_where_def)
next
  case (Cons a t)
  then have "count_where q (update_where p f t) \<le> count_where q t" by simp
  then show ?case using Cons.prems [of a] by (auto simp: count_where_def update_where_def)
qed

lemma count_where_Cons [simp]:
  "count_where p [] = 0"
  "count_where p (x # xs) = (if p x then Suc (count_where p xs) else count_where p xs)"
  by (simp_all add: count_where_def)

lemma count_where_append [simp]: "count_where p (xs @ ys) = count_where p xs + count_where p ys"
  by (simp add: count_where_def)

lemma count_where_zero: "count_where p t = 0 \<longleftrightarrow> (\<forall>r\<in>set t. \<not> p r)"
  by (simp add: count_where_def filter_empty_conv)

lemma count_where_one:
  assumes "distinct t" "x \<in> set t" "p x" "\<forall>y\<in>set t. p y \<longrightarrow> y = x"
  shows "count_where p t = 1"
proof -
  have "set (filter p t) = {x}" using assms(2-4) by (subst set_filter) blast
  then have "card (set (filter p t)) = 1" by simp
  then show ?thesis using assms(1) by (simp add: count_where_def distinct_card del: set_filter)
qed

lemma count_where_pos: "0 < count_where p t \<longleftrightarrow> (\<exists>r\<in>set t. p r)"
  using count_where_zero [of p t] by auto

lemma find_SomeD: "find p t = Some r \<Longrightarrow> p r \<and> r \<in> set t"
  by (auto simp: find_Some_iff)

lemma find_NoneD: "find p t = None \<Longrightarrow> r \<in> set t \<Longrightarrow> \<not> p r"
  by (auto simp: find_None_iff)

lemma find_by_key:
  assumes "inj_on k (set t)" "x \<in> set t" "k x = i"
  shows "find (\<lambda>y. k y = i) t = Some x"
proof -
  obtain y where y: "find (\<lambda>y. k y = i) t = Some y"
    using assms(2,3) find_NoneD [of "\<lambda>y. k y = i" t x] by (cases "find (\<lambda>y. k y = i) t") auto
  have "y = x" using find_SomeD [OF y] assms by (auto dest: inj_onD)
  with y show ?thesis by simp
qed

lemma find_append: "find p (xs @ ys) = (case find p xs of None \<Rightarrow> find p ys | Some r \<Rightarrow> Some r)"
  by (induction xs) auto

lemma find_update_where_other:
  assumes "\<And>r. r \<in> set t \<Longrightarrow> q r \<Longrightarrow> \<not> p r"
    and "\<And>r. r \<in> set t \<Longrightarrow> p r \<Longrightarrow> \<not> q (f r)"
  shows "find q (update_where p f t) = find q t"
  using assms by (induction t) (auto simp: update_where_def)

lemma find_update_where_same:
  assumes "\<And>r. q (if p r then f r else r) = q r"
  shows "find q (update_where p f t) = map_option (\<lambda>r. if p r then f r else r) (find q t)"
  using assms by (induction t) (auto simp: update_where_def)

lemma update_where_idle: "(\<And>r. r \<in> set t \<Longrightarrow> \<not> p r) \<Longrightarrow> update_where p f t = t"
  by (induction t) (auto simp: update_where_def)

lemma update_where_keeps: "r \<in> set t \<Longrightarrow> \<not> p r \<Longrightarrow> r \<in> set (update_where p f t)"
  by (force simp: update_where_def)

lemma count_where_update_none:
  assumes "\<And>r. r \<in> set t \<Longrightarrow> p r \<Longrightarrow> \<not> p (f r)"
  shows "count_where p (update_where p f t) = 0"
  using assms by (simp add: count_where_zero)

lemma filter_map_update_where:
  assumes "\<And>r. r \<in> set t \<Longrightarrow> p r \<Longrightarrow> q (f r) = q r \<and> k (f r) = k r"
  shows "map k (filter q (update_where p f t)) = map k (filter q t)"
  using assms by (induction t) (auto simp: update_where_def)

text \<open>The largest value of a column, with \<open>COALESCE(MAX(...), 0)\<close> on an empty table.\<close>

definition max_of :: "nat list \<Rightarrow> nat" where
  "max_of xs = foldr max xs 0"

lemma max_of_simps [simp]: "max_of [] = 0" "max_of (x # xs) = max x (max_of xs)"
  by (simp_all add: max_of_def)

lemma max_of_ge: "x \<in> set xs \<Longrightarrow> x \<le> max_of xs"
  by (induction xs) auto

lemma max_of_append [simp]: "max_of (xs @ ys) = max (max_of xs) (max_of ys)"
  by (induction xs) auto

lemma max_of_upt: "max_of [1..<Suc n] = n"
  by (induction n) auto

subsection \<open>Status machines\<close>

text \<open>
  The contract the tables of the store share: the status of a row moves by \<open>step\<close>, and a
  settled status never moves again. Every table with a lifecycle interprets it.
\<close>

locale status_machine =
  fixes step :: "'s \<Rightarrow> 's \<Rightarrow> bool"
    and settled :: "'s \<Rightarrow> bool"
  assumes settled_stuck: "settled s \<Longrightarrow> \<not> step s t"
    and open_moves: "\<not> settled s \<Longrightarrow> \<exists>t. step s t \<and> t \<noteq> s"
begin

lemma settled_iff_stuck: "settled s \<longleftrightarrow> (\<forall>t. \<not> step s t)"
  using settled_stuck open_moves by blast

lemma settled_only_self: "step\<^sup>*\<^sup>* s t \<Longrightarrow> settled s \<Longrightarrow> t = s"
  by (induction rule: converse_rtranclp_induct) (auto dest: settled_stuck)

lemma not_settled_before: "step\<^sup>*\<^sup>* s t \<Longrightarrow> s \<noteq> t \<Longrightarrow> \<not> settled s"
  using settled_only_self by blast

end

text \<open>
  A table whose rows carry a lifecycle: each row of the new table is the old row at the same
  place moved by zero or more steps, or a row appended behind them.
\<close>

definition rows_evolve :: "('s \<Rightarrow> 's \<Rightarrow> bool) \<Rightarrow> ('r \<Rightarrow> 's) \<Rightarrow> ('r \<Rightarrow> 'k) \<Rightarrow> 'r list \<Rightarrow> 'r list \<Rightarrow> bool" where
  "rows_evolve step st key t t' \<longleftrightarrow>
    (length t \<le> length t' \<and>
     (\<forall>i<length t. key (t' ! i) = key (t ! i) \<and> step\<^sup>*\<^sup>* (st (t ! i)) (st (t' ! i))))"

lemma rows_evolve_refl [simp, intro]: "rows_evolve step st key t t"
  by (simp add: rows_evolve_def)

lemma rows_evolve_trans:
  assumes "rows_evolve step st key a b" "rows_evolve step st key b c"
  shows "rows_evolve step st key a c"
  using assms unfolding rows_evolve_def
  by (metis (no_types, opaque_lifting) order_less_le_trans order_trans rtranclp_trans)

lemma rows_evolve_append [simp, intro]: "rows_evolve step st key t (t @ new)"
  by (simp add: rows_evolve_def nth_append)

lemma rows_evolve_update:
  assumes "\<And>r. r \<in> set t \<Longrightarrow> p r \<Longrightarrow> step\<^sup>*\<^sup>* (st r) (st (f r)) \<and> key (f r) = key r"
  shows "rows_evolve step st key t (update_where p f t)"
  using assms by (auto simp: rows_evolve_def update_where_def)

text \<open>A table of a database whose rows follow a status machine, and what a later database owes it.\<close>

locale lifecycle_table = status_machine step settled
  for step :: "'s \<Rightarrow> 's \<Rightarrow> bool" and settled :: "'s \<Rightarrow> bool" +
  fixes rows :: "'d \<Rightarrow> 'r list"
    and status :: "'r \<Rightarrow> 's"
    and key :: "'r \<Rightarrow> 'k"
    and evolves :: "'d \<Rightarrow> 'd \<Rightarrow> bool"
  assumes evolves_iff: "evolves d d' \<longleftrightarrow> rows_evolve step status key (rows d) (rows d')"
begin

lemma evolves_refl: "evolves d d"
  by (simp add: evolves_iff)

lemma evolves_trans: "evolves a b \<Longrightarrow> evolves b c \<Longrightarrow> evolves a c"
  using rows_evolve_trans by (metis evolves_iff)

lemma evolves_same: "rows d' = rows d \<Longrightarrow> evolves d d'"
  by (simp add: evolves_iff)

lemma evolves_update:
  assumes "rows d' = update_where p f (rows d)"
    and "\<And>r. r \<in> set (rows d) \<Longrightarrow> p r \<Longrightarrow> step\<^sup>*\<^sup>* (status r) (status (f r)) \<and> key (f r) = key r"
  shows "evolves d d'"
  using assms by (simp add: evolves_iff rows_evolve_update)

lemma evolves_append: "rows d' = rows d @ new \<Longrightarrow> evolves d d'"
  by (simp add: evolves_iff)

text \<open>A settled row is found again, with the same status.\<close>

lemma settled_kept:
  assumes "evolves d d'" "r \<in> set (rows d)" "settled (status r)"
  shows "\<exists>r'\<in>set (rows d'). key r' = key r \<and> status r' = status r"
proof -
  obtain i where i: "i < length (rows d)" "rows d ! i = r"
    using assms(2) by (auto simp: in_set_conv_nth)
  have "key (rows d' ! i) = key r" "step\<^sup>*\<^sup>* (status r) (status (rows d' ! i))"
    "i < length (rows d')"
    using assms(1) i by (auto simp: evolves_iff rows_evolve_def)
  then show ?thesis using settled_only_self [OF _ assms(3)] nth_mem by blast
qed

text \<open>With unique keys the row found under a settled row's key has that row's status.\<close>

lemma settled_forever:
  assumes "evolves d d'" "distinct (map key (rows d'))"
    and "r \<in> set (rows d)" "settled (status r)" "r' \<in> set (rows d')" "key r' = key r"
  shows "status r' = status r"
proof -
  obtain s where s: "s \<in> set (rows d')" "key s = key r" "status s = status r"
    using settled_kept [OF assms(1,3,4)] by blast
  have "s = r'" using assms(2,5,6) s(1,2) by (metis distinct_map inj_onD)
  then show ?thesis using s(3) by simp
qed

end

end
