(* ===== verification/Python_Values.thy ===== *)
theory Python_Values
  imports Prelude
begin

text \<open>
  The part of Python's values and string methods the runtime uses. A \<open>json\<close> value is what
  \<open>json.loads\<close> returns; a float is kept as the text \<open>repr\<close> prints for it (two floats are
  equal when their texts are), a dict as its list of items in insertion order. Strings are
  lists of code points below 256: \<open>str.lower\<close>, \<open>str.strip\<close>, \<open>str.split\<close>, slicing and
  \<open>repr\<close> are exact there. Text stored by \<open>encode_payload\<close> (store/codec.py) is represented by
  the value it encodes with its keys sorted, so equal texts are equal canonical values.
\<close>

datatype json =
    JNull
  | JBool bool
  | JInt int
  | JFloat string
  | JStr string
  | JList "json list"
  | JObj "(string \<times> json) list"

type_synonym dict = "(string \<times> json) list"

subsection \<open>Dictionaries\<close>

definition dget :: "dict \<Rightarrow> string \<Rightarrow> json" where
  "dget d k = (case map_of d k of None \<Rightarrow> JNull | Some v \<Rightarrow> v)"

definition has_key :: "dict \<Rightarrow> string \<Rightarrow> bool" where
  "has_key d k = (map_of d k \<noteq> None)"

text \<open>\<open>d[k] = v\<close>: an existing key keeps its place.\<close>

fun dset :: "'k \<Rightarrow> 'v \<Rightarrow> ('k \<times> 'v) list \<Rightarrow> ('k \<times> 'v) list" where
  "dset k v [] = [(k, v)]"
| "dset k v ((k', v') # d) = (if k' = k then (k, v) # d else (k', v') # dset k v d)"

text \<open>A dict comprehension \<open>{key(x): value(x) for x in xs}\<close>: a later item replaces an earlier one.\<close>

definition dict_of :: "('a \<Rightarrow> 'k) \<Rightarrow> ('a \<Rightarrow> 'v) \<Rightarrow> 'a list \<Rightarrow> ('k \<times> 'v) list" where
  "dict_of k v xs = foldl (\<lambda>d x. dset (k x) (v x) d) [] xs"

text \<open>\<open>{**d, **e}\<close>\<close>

fun dmerge :: "dict \<Rightarrow> dict \<Rightarrow> dict" where
  "dmerge d [] = d"
| "dmerge d ((k, v) # e) = dmerge (dset k v d) e"

lemma map_of_dset [simp]: "map_of (dset k v d) = (map_of d)(k \<mapsto> v)"
  by (induction d) auto

lemma set_dset: "distinct (map fst d) \<Longrightarrow> set (dset k v d) = insert (k, v) {x \<in> set d. fst x \<noteq> k}"
  by (induction d) force+

lemma fst_set_dset [simp]: "fst ` set (dset k v d) = insert k (fst ` set d)"
  by (induction k v d rule: dset.induct) (simp_all add: insert_commute)

lemma distinct_dset [simp]: "distinct (map fst d) \<Longrightarrow> distinct (map fst (dset k v d))"
  by (induction d) force+

lemma dset_new: "k \<notin> fst ` set d \<Longrightarrow> dset k v d = d @ [(k, v)]"
  by (induction d) auto

lemma dict_of_append: "dict_of k v (xs @ [x]) = dset (k x) (v x) (dict_of k v xs)"
  by (simp add: dict_of_def)

lemma distinct_dict_of [simp]: "distinct (map fst (dict_of k v xs))"
  by (induction xs rule: rev_induct) (simp_all add: dict_of_append, simp add: dict_of_def)

lemma keys_dict_of [simp]: "fst ` set (dict_of k v xs) = k ` set xs"
  by (induction xs rule: rev_induct) (simp_all add: dict_of_append, simp add: dict_of_def)

text \<open>With unique keys nothing is replaced.\<close>

lemma dict_of_distinct: "distinct (map k xs) \<Longrightarrow> dict_of k v xs = map (\<lambda>x. (k x, v x)) xs"
proof (induction xs rule: rev_induct)
  case Nil
  then show ?case by (simp add: dict_of_def)
next
  case (snoc x xs)
  then have "dict_of k v xs = map (\<lambda>x. (k x, v x)) xs" "k x \<notin> fst ` set (dict_of k v xs)" by auto
  then show ?case by (simp add: dict_of_append dset_new)
qed

lemma dget_dset [simp]: "dget (dset k v d) k' = (if k' = k then v else dget d k')"
  by (simp add: dget_def)

lemma dget_Cons [simp]:
  "dget [] k = JNull" "dget ((k', v) # d) k = (if k' = k then v else dget d k)"
  by (simp_all add: dget_def)

lemma has_key_Cons [simp]:
  "has_key [] k = False" "has_key ((k', v) # d) k = (k' = k \<or> has_key d k)"
  by (auto simp: has_key_def)

lemma has_key_dset [simp]: "has_key (dset k v d) k' \<longleftrightarrow> k' = k \<or> has_key d k'"
  by (induction d) (auto split: if_splits)

lemma dget_dmerge: "distinct (map fst e) \<Longrightarrow> dget (dmerge d e) k = (if has_key e k then dget e k else dget d k)"
  by (induction d e rule: dmerge.induct) (force simp: has_key_def)+

lemma dset_idle: "map_of d k = Some v \<Longrightarrow> dset k v d = d"
  by (induction d) (auto split: if_splits)

fun is_str :: "json \<Rightarrow> bool" where
  "is_str (JStr s) = True"
| "is_str _ = False"

fun is_obj :: "json \<Rightarrow> bool" where
  "is_obj (JObj d) = True"
| "is_obj _ = False"

text \<open>\<open>isinstance(v, int)\<close> holds of a bool too.\<close>

fun is_int :: "json \<Rightarrow> bool" where
  "is_int (JInt i) = True"
| "is_int (JBool b) = True"
| "is_int _ = False"

fun int_of :: "json \<Rightarrow> int" where
  "int_of (JInt i) = i"
| "int_of (JBool b) = (if b then 1 else 0)"
| "int_of _ = 0"

fun obj_of :: "json \<Rightarrow> dict" where
  "obj_of (JObj d) = d"
| "obj_of _ = []"

fun str_of :: "json \<Rightarrow> string" where
  "str_of (JStr s) = s"
| "str_of _ = []"

subsection \<open>Truth and \<open>or\<close>\<close>

fun truthy :: "json \<Rightarrow> bool" where
  "truthy JNull = False"
| "truthy (JBool b) = b"
| "truthy (JInt i) = (i \<noteq> 0)"
| "truthy (JFloat s) = (s \<noteq> ''0.0'' \<and> s \<noteq> ''-0.0'')"
| "truthy (JStr s) = (s \<noteq> [])"
| "truthy (JList xs) = (xs \<noteq> [])"
| "truthy (JObj d) = (d \<noteq> [])"

definition py_or :: "json \<Rightarrow> json \<Rightarrow> json" where
  "py_or a b = (if truthy a then a else b)"

text \<open>A nullable column as a value, and \<open>x or d\<close> on it.\<close>

fun json_opt :: "string option \<Rightarrow> json" where
  "json_opt None = JNull"
| "json_opt (Some s) = JStr s"

definition opt_or :: "string option \<Rightarrow> string \<Rightarrow> string" where
  "opt_or x d = (case x of None \<Rightarrow> d | Some s \<Rightarrow> if s = [] then d else s)"

subsection \<open>Strings\<close>

definition is_space :: "char \<Rightarrow> bool" where
  "is_space c = (let n = (of_char c :: nat) in
     (9 \<le> n \<and> n \<le> 13) \<or> (28 \<le> n \<and> n \<le> 32) \<or> n = 133 \<or> n = 160)"

definition lower_char :: "char \<Rightarrow> char" where
  "lower_char c = (let n = (of_char c :: nat) in
     if (65 \<le> n \<and> n \<le> 90) \<or> (192 \<le> n \<and> n \<le> 222 \<and> n \<noteq> 215) then char_of (n + 32) else c)"

definition py_lower :: "string \<Rightarrow> string" where
  "py_lower s = map lower_char s"

definition py_strip :: "string \<Rightarrow> string" where
  "py_strip s = rev (dropWhile is_space (rev (dropWhile is_space s)))"

fun split_words :: "string \<Rightarrow> string \<Rightarrow> string list" where
  "split_words w [] = (if w = [] then [] else [rev w])"
| "split_words w (c # cs) =
     (if is_space c then (if w = [] then split_words [] cs else rev w # split_words [] cs)
      else split_words (c # w) cs)"

definition py_split :: "string \<Rightarrow> string list" where
  "py_split s = split_words [] s"

fun join_with :: "string \<Rightarrow> string list \<Rightarrow> string" where
  "join_with sep [] = []"
| "join_with sep [s] = s"
| "join_with sep (s # ss) = s @ sep @ join_with sep ss"

text \<open>\<open>needle in hay\<close>\<close>

fun contains :: "string \<Rightarrow> string \<Rightarrow> bool" where
  "contains n [] = (n = [])"
| "contains n (c # cs) = (take (length n) (c # cs) = n \<or> contains n cs)"

lemma contains_iff: "contains n h \<longleftrightarrow> (\<exists>a b. h = a @ n @ b)"
proof (induction h)
  case Nil
  then show ?case by simp
next
  case hyp: (Cons c cs)
  have 1: "take (length n) (c # cs) = n \<longleftrightarrow> (\<exists>b. c # cs = n @ b)"
    by (metis append_eq_conv_conj append_take_drop_id)
  show ?case (is "?l = ?r")
  proof
    assume ?l
    then show ?r using 1 hyp.IH by (metis append_Cons append_Nil contains.simps(2))
  next
    assume ?r
    then obtain a b where ab: "c # cs = a @ n @ b" by blast
    show ?l
    proof (cases a)
      case Nil
      then show ?thesis using ab 1 by (metis append_Nil contains.simps(2))
    next
      case (Cons x a')
      then have "\<exists>a b. cs = a @ n @ b" using ab by auto
      then show ?thesis using hyp.IH by simp
    qed
  qed
qed

definition starts_with :: "string \<Rightarrow> string \<Rightarrow> bool" where
  "starts_with p s = (take (length p) s = p)"

definition digit_char :: "nat \<Rightarrow> char" where
  "digit_char n = char_of (48 + n)"

fun nat_str :: "nat \<Rightarrow> string" where
  "nat_str n = (if n < 10 then [digit_char n] else nat_str (n div 10) @ [digit_char (n mod 10)])"

declare nat_str.simps [simp del]

definition int_str :: "int \<Rightarrow> string" where
  "int_str i = (if i < 0 then ''-'' @ nat_str (nat (- i)) else nat_str (nat i))"

definition hex_digit :: "nat \<Rightarrow> char" where
  "hex_digit n = (if n < 10 then char_of (48 + n) else char_of (87 + n))"

text \<open>\<open>repr\<close> of one character inside quotes \<open>q\<close>.\<close>

definition repr_char :: "char \<Rightarrow> char \<Rightarrow> string" where
  "repr_char q c = (let n = (of_char c :: nat) in
     if c = q \<or> n = 92 then [CHR 0x5C, c]
     else if n = 9 then [CHR 0x5C, CHR ''t'']
     else if n = 10 then [CHR 0x5C, CHR ''n'']
     else if n = 13 then [CHR 0x5C, CHR ''r'']
     else if n < 32 \<or> (127 \<le> n \<and> n \<le> 160) \<or> n = 173
       then [CHR 0x5C, CHR ''x'', hex_digit (n div 16), hex_digit (n mod 16)]
     else [c])"

definition repr_string :: "string \<Rightarrow> string" where
  "repr_string s = (let q = (if CHR 0x27 \<in> set s \<and> CHR 0x22 \<notin> set s then CHR 0x22 else CHR 0x27)
     in q # concat (map (repr_char q) s) @ [q])"

text \<open>\<open>repr\<close> and \<open>str\<close> of a value.\<close>

fun py_repr :: "json \<Rightarrow> string" where
  "py_repr JNull = ''None''"
| "py_repr (JBool b) = (if b then ''True'' else ''False'')"
| "py_repr (JInt i) = int_str i"
| "py_repr (JFloat s) = s"
| "py_repr (JStr s) = repr_string s"
| "py_repr (JList xs) = ''['' @ join_with '', '' (map py_repr xs) @ '']''"
| "py_repr (JObj d) =
     ''{'' @ join_with '', '' (map (\<lambda>(k, v). repr_string k @ '': '' @ py_repr v) d) @ ''}''"

definition py_str :: "json \<Rightarrow> string" where
  "py_str v = (case v of JStr s \<Rightarrow> s | _ \<Rightarrow> py_repr v)"

lemma py_str_simps [simp]:
  "py_str (JStr s) = s" "py_str JNull = ''None''" "py_str (JInt i) = int_str i"
  "py_str (JBool b) = (if b then ''True'' else ''False'')"
  by (simp_all add: py_str_def)

text \<open>\<open>str(v or d)\<close>, the idiom for an optional text field.\<close>

definition text_or :: "json \<Rightarrow> string \<Rightarrow> string" where
  "text_or v d = py_str (py_or v (JStr d))"

lemma text_or_simps [simp]:
  "text_or JNull d = d" "text_or (JStr s) d = (if s = [] then d else s)"
  by (simp_all add: text_or_def py_or_def)

text \<open>
  \<open>json.dumps(v, ensure_ascii=False)\<close> with the item and key separators; \<open>sort_keys\<close> is
  \<open>encode_payload\<close> below, applied first.
\<close>

definition json_char :: "char \<Rightarrow> string" where
  "json_char c = (let n = (of_char c :: nat) in
     if n = 34 \<or> n = 92 then [CHR 0x5C, c]
     else if n = 8 then [CHR 0x5C, CHR ''b'']
     else if n = 9 then [CHR 0x5C, CHR ''t'']
     else if n = 10 then [CHR 0x5C, CHR ''n'']
     else if n = 12 then [CHR 0x5C, CHR ''f'']
     else if n = 13 then [CHR 0x5C, CHR ''r'']
     else if n < 32 then [CHR 0x5C, CHR ''u'', CHR ''0'', CHR ''0'', hex_digit (n div 16), hex_digit (n mod 16)]
     else [c])"

definition json_string :: "string \<Rightarrow> string" where
  "json_string s = CHR 0x22 # concat (map json_char s) @ [CHR 0x22]"

fun json_dumps :: "string \<Rightarrow> string \<Rightarrow> json \<Rightarrow> string" where
  "json_dumps sep colon JNull = ''null''"
| "json_dumps sep colon (JBool b) = (if b then ''true'' else ''false'')"
| "json_dumps sep colon (JInt i) = int_str i"
| "json_dumps sep colon (JFloat s) = s"
| "json_dumps sep colon (JStr s) = json_string s"
| "json_dumps sep colon (JList xs) = ''['' @ join_with sep (map (json_dumps sep colon) xs) @ '']''"
| "json_dumps sep colon (JObj d) =
     ''{'' @ join_with sep (map (\<lambda>(k, v). json_string k @ colon @ json_dumps sep colon v) d) @ ''}''"

text \<open>\<open>encode_payload\<close> (store/codec.py): keys sorted at every level.\<close>

fun encode_payload :: "json \<Rightarrow> json" where
  "encode_payload (JList xs) = JList (map encode_payload xs)"
| "encode_payload (JObj d) = JObj (sort_key fst (map (\<lambda>(k, v). (k, encode_payload v)) d))"
| "encode_payload v = v"

text \<open>
  \<open>==\<close> on values: dicts compare without their order, a bool equals the int it stands for. (A
  float compares with a float only.)
\<close>

fun int_bools :: "json \<Rightarrow> json" where
  "int_bools (JBool b) = JInt (if b then 1 else 0)"
| "int_bools (JList xs) = JList (map int_bools xs)"
| "int_bools (JObj d) = JObj (map (\<lambda>(k, v). (k, int_bools v)) d)"
| "int_bools v = v"

definition py_eq :: "json \<Rightarrow> json \<Rightarrow> bool" where
  "py_eq a b \<longleftrightarrow> encode_payload (int_bools a) = encode_payload (int_bools b)"

lemma py_eq_refl [simp]: "py_eq a a"
  by (simp add: py_eq_def)

text \<open>\<open>json_payload\<close>: the decoded object, or the empty one where the text is something else.\<close>

definition json_payload :: "json option \<Rightarrow> dict" where
  "json_payload v = (case v of Some (JObj d) \<Rightarrow> d | _ \<Rightarrow> [])"

lemma sort_key_map_snd:
  "sort_key fst (map (\<lambda>(k, v). (k, f v)) d) = map (\<lambda>(k, v). (k, f v)) (sort_key fst d)"
proof (induction d)
  case Nil
  then show ?case by simp
next
  case (Cons a d)
  have "insort_key fst (case a of (k, v) \<Rightarrow> (k, f v)) (map (\<lambda>(k, v). (k, f v)) xs) =
        map (\<lambda>(k, v). (k, f v)) (insort_key fst a xs)" for xs
    by (induction xs) (auto split: prod.splits)
  then show ?case using Cons.IH by simp
qed

text \<open>Encoding what was decoded gives the same text: the canonical form is a fixed point.\<close>

lemma encode_payload_idem: "encode_payload (encode_payload v) = encode_payload v"
proof (induction v rule: encode_payload.induct)
  case (1 xs)
  then show ?case by (simp add: comp_def)
next
  case (2 d)
  have "map (\<lambda>(k, v). (k, encode_payload v)) (map (\<lambda>(k, v). (k, encode_payload v)) d) =
        map (\<lambda>(k, v). (k, encode_payload v)) d"
    using "2.IH" by (auto split: prod.splits)
  then have "sort_key fst (map (\<lambda>(k, v). (k, encode_payload v))
        (sort_key fst (map (\<lambda>(k, v). (k, encode_payload v)) d))) =
      sort_key fst (sort_key fst (map (\<lambda>(k, v). (k, encode_payload v)) d))"
    by (simp only: sort_key_map_snd [symmetric])
  then show ?case by (simp add: sort_key_id_if_sorted)
qed auto

text \<open>Encoding keeps the value of every key of a dict without duplicate keys.\<close>

lemma map_of_sort_key:
  assumes "distinct (map fst d)"
  shows "map_of (sort_key fst d) = map_of d"
proof -
  have "set (sort_key fst d) = set d" by simp
  moreover have "distinct (map fst (sort_key fst d))"
    using assms by (metis distinct_map distinct_sort inj_on_cong set_sort)
  ultimately show ?thesis using assms by (intro map_of_eqI) auto
qed

end
