(* ===== verification/Team_Plan.thy ===== *)
theory Team_Plan
  imports Python_Values
begin

text \<open>
  The topology check of a team request (agent/team_plan.py): members, assignment ids,
  dependencies, hand-offs, and the peeling loop that finds dependency cycles. Shown: the check
  accepts exactly the plans of a declarative specification, in which the dependency relation is
  acyclic, and what it raises otherwise.
\<close>

subsection \<open>Plans\<close>

record team_member =
  tm_name :: string
  tm_description :: string
  tm_tools :: "string list"
  tm_handoffs :: "string list"

datatype output_kind = OutFinding | OutClaim | OutReview

record team_assignment =
  ta_id :: string
  ta_member :: string
  ta_task :: string
  ta_kind :: output_kind
  ta_depends :: "string list"
  ta_handoff :: "string option"

record team_request =
  tq_objective :: string
  tq_assignments :: "team_assignment list"

text \<open>The field constraints of the two request models (\<open>MAX_TEAM_ASSIGNMENTS\<close> is 5).\<close>

definition max_team_assignments :: nat where
  "max_team_assignments = 5"

definition between :: "nat \<Rightarrow> nat \<Rightarrow> nat \<Rightarrow> bool" where
  "between lo hi n \<longleftrightarrow> lo \<le> n \<and> n \<le> hi"

definition assignment_fields_ok :: "team_assignment \<Rightarrow> bool" where
  "assignment_fields_ok a \<longleftrightarrow>
     between 1 64 (length (ta_id a)) \<and> between 1 64 (length (ta_member a)) \<and>
     between 1 16000 (length (ta_task a)) \<and> length (ta_depends a) \<le> max_team_assignments \<and>
     (case ta_handoff a of None \<Rightarrow> True | Some h \<Rightarrow> length h \<le> 64)"

definition request_fields_ok :: "team_request \<Rightarrow> bool" where
  "request_fields_ok q \<longleftrightarrow>
     between 1 16000 (length (tq_objective q)) \<and>
     between 1 max_team_assignments (length (tq_assignments q)) \<and>
     list_all assignment_fields_ok (tq_assignments q)"

subsection \<open>The check\<close>

text \<open>
  \<open>RosterKeyError\<close> is the \<open>KeyError\<close> of \<open>members[source_member]\<close>: the source of a hand-off may
  stand later in the plan, before its member was looked at.
\<close>

datatype team_error =
    DuplicateMembers
  | EmptyRoster
  | DuplicateAssignments
  | InvalidAssignmentId string
  | UnknownMember string
  | DuplicateDependencies string
  | UnknownDependency string string
  | SelfDependency string
  | HandoffNotDependency string string
  | HandoffNotAllowed string string
  | RosterKeyError string
  | AssignmentKeyError string
  | DependencyCycle

definition id_char :: "char \<Rightarrow> bool" where
  "id_char c = (let n = (of_char c :: nat) in
     (48 \<le> n \<and> n \<le> 57) \<or> (65 \<le> n \<and> n \<le> 90) \<or> (97 \<le> n \<and> n \<le> 122) \<or> n = 95 \<or> n = 45)"

text \<open>\<open>TEAM_ASSIGNMENT_ID_RE\<close>\<close>

definition assignment_id_ok :: "string \<Rightarrow> bool" where
  "assignment_id_ok s = (case s of [] \<Rightarrow> False
     | c # cs \<Rightarrow> id_char c \<and> c \<noteq> CHR ''_'' \<and> c \<noteq> CHR ''-'' \<and> list_all id_char cs \<and> length cs \<le> 63)"

definition find_member :: "team_member list \<Rightarrow> string \<Rightarrow> team_member option" where
  "find_member roster n = find (\<lambda>m. tm_name m = n) roster"

definition find_assignment :: "team_assignment list \<Rightarrow> string \<Rightarrow> team_assignment option" where
  "find_assignment plan i = find (\<lambda>a. ta_id a = i) plan"

fun check_dependencies :: "team_assignment list \<Rightarrow> string \<Rightarrow> string list \<Rightarrow> team_error + unit" where
  "check_dependencies plan i [] = Inr ()"
| "check_dependencies plan i (x # xs) =
     (if find_assignment plan x = None then Inl (UnknownDependency i x)
      else if x = i then Inl (SelfDependency i)
      else check_dependencies plan i xs)"

definition check_handoff ::
    "team_member list \<Rightarrow> team_assignment list \<Rightarrow> team_assignment \<Rightarrow> team_error + unit" where
  "check_handoff roster plan a =
    (case ta_handoff a of
       None \<Rightarrow> Inr ()
     | Some source \<Rightarrow>
        if source \<notin> set (ta_depends a) then Inl (HandoffNotDependency source (ta_id a))
        else (case find_assignment plan source of
                None \<Rightarrow> Inl (AssignmentKeyError source)
              | Some b \<Rightarrow>
                 (case find_member roster (ta_member b) of
                    None \<Rightarrow> Inl (RosterKeyError (ta_member b))
                  | Some m \<Rightarrow> if ta_member a \<notin> set (tm_handoffs m)
                              then Inl (HandoffNotAllowed (ta_member b) (ta_member a)) else Inr ())))"

definition check_assignment ::
    "team_member list \<Rightarrow> team_assignment list \<Rightarrow> team_assignment \<Rightarrow> team_error + unit" where
  "check_assignment roster plan a =
    (if \<not> assignment_id_ok (ta_id a) then Inl (InvalidAssignmentId (ta_id a))
     else if find_member roster (ta_member a) = None then Inl (UnknownMember (ta_member a))
     else if \<not> distinct (ta_depends a) then Inl (DuplicateDependencies (ta_id a))
     else bindr (check_dependencies plan (ta_id a) (ta_depends a)) (\<lambda>_. check_handoff roster plan a))"

text \<open>The loop that peels off the assignments without open dependencies.\<close>

type_synonym open_plan = "(string \<times> string list) list"

definition ready_ids :: "open_plan \<Rightarrow> string list" where
  "ready_ids rem = map fst (filter (\<lambda>(i, deps). deps = []) rem)"

definition peel :: "open_plan \<Rightarrow> open_plan" where
  "peel rem = map (\<lambda>(i, deps). (i, filter (\<lambda>x. x \<notin> set (ready_ids rem)) deps))
     (filter (\<lambda>(i, deps). deps \<noteq> []) rem)"

lemma length_peel: "length (peel rem) = length (filter (\<lambda>(i, deps). deps \<noteq> []) rem)"
  by (simp add: peel_def)

lemma peel_shrinks: "ready_ids rem \<noteq> [] \<Longrightarrow> length (peel rem) < length rem"
proof -
  assume "ready_ids rem \<noteq> []"
  then obtain x where "x \<in> set rem" "\<not> (\<lambda>(i, deps). deps \<noteq> []) x"
    by (auto simp: ready_ids_def filter_empty_conv)
  then show ?thesis unfolding length_peel by (rule length_filter_less)
qed

function peel_all :: "open_plan \<Rightarrow> team_error + unit" where
  "peel_all rem =
     (if rem = [] then Inr ()
      else if ready_ids rem = [] then Inl DependencyCycle
      else peel_all (peel rem))"
  by auto

termination by (relation "measure length") (simp_all add: peel_shrinks)

declare peel_all.simps [simp del]

definition validate_team_request :: "team_request \<Rightarrow> team_member list \<Rightarrow> team_error + unit" where
  "validate_team_request q roster =
    (let plan = tq_assignments q
     in if \<not> distinct (map tm_name roster) then Inl DuplicateMembers
        else if roster = [] then Inl EmptyRoster
        else if \<not> distinct (map ta_id plan) then Inl DuplicateAssignments
        else bindr (foldr_res (\<lambda>a _. check_assignment roster plan a) plan ())
               (\<lambda>_. peel_all (map (\<lambda>a. (ta_id a, ta_depends a)) plan)))"

subsection \<open>Peeling decides acyclicity\<close>

definition edges :: "open_plan \<Rightarrow> (string \<times> string) set" where
  "edges rem = {(x, i) | x i deps. (i, deps) \<in> set rem \<and> x \<in> set deps}"

definition closed_plan :: "open_plan \<Rightarrow> bool" where
  "closed_plan rem \<longleftrightarrow> distinct (map fst rem) \<and> (\<forall>(i, deps)\<in>set rem. set deps \<subseteq> fst ` set rem)"

lemma set_ready_ids: "i \<in> set (ready_ids rem) \<longleftrightarrow> (i, []) \<in> set rem"
  by (force simp: ready_ids_def)

lemma in_peel: "(i, deps') \<in> set (peel rem) \<longleftrightarrow>
    (\<exists>deps. (i, deps) \<in> set rem \<and> deps \<noteq> [] \<and> deps' = filter (\<lambda>x. x \<notin> set (ready_ids rem)) deps)"
  by (force simp: peel_def)

lemma fst_peel:
  assumes "distinct (map fst rem)"
  shows "fst ` set (peel rem) = fst ` set rem - set (ready_ids rem)"
proof (intro set_eqI iffI)
  fix i assume "i \<in> fst ` set (peel rem)"
  then obtain deps where d: "(i, deps) \<in> set rem" "deps \<noteq> []" by (auto simp: in_peel)
  have "(i, []) \<notin> set rem" using eq_key_imp_eq_value [OF assms d(1)] d(2) by blast
  then show "i \<in> fst ` set rem - set (ready_ids rem)" using d(1) by (force simp: set_ready_ids)
next
  fix i assume "i \<in> fst ` set rem - set (ready_ids rem)"
  then obtain deps where d: "(i, deps) \<in> set rem" "(i, []) \<notin> set rem" by (auto simp: set_ready_ids)
  then have "deps \<noteq> []" by auto
  then have "(i, filter (\<lambda>x. x \<notin> set (ready_ids rem)) deps) \<in> set (peel rem)" using d by (auto simp: in_peel)
  then show "i \<in> fst ` set (peel rem)" by force
qed

lemma closed_peel: "closed_plan rem \<Longrightarrow> closed_plan (peel rem)"
proof -
  assume c: "closed_plan rem"
  have "map fst (peel rem) = map fst (filter (\<lambda>(i, deps). deps \<noteq> []) rem)"
    by (simp add: peel_def split_def)
  then have "distinct (map fst (peel rem))" using c by (simp add: closed_plan_def distinct_map_filter)
  moreover have "set deps' \<subseteq> fst ` set (peel rem)" if "(i, deps') \<in> set (peel rem)" for i deps'
    using that c unfolding fst_peel [OF c [unfolded closed_plan_def, THEN conjunct1]]
    by (fastforce simp: in_peel closed_plan_def)
  ultimately show ?thesis by (auto simp: closed_plan_def)
qed

lemma edges_peel: "edges (peel rem) \<subseteq> edges rem"
  by (auto simp: edges_def in_peel)

lemma edges_split: "edges rem \<subseteq> edges (peel rem) \<union> set (ready_ids rem) \<times> UNIV"
proof
  fix e assume "e \<in> edges rem"
  then obtain x i deps where e: "e = (x, i)" "(i, deps) \<in> set rem" "x \<in> set deps" by (auto simp: edges_def)
  show "e \<in> edges (peel rem) \<union> set (ready_ids rem) \<times> UNIV"
  proof (cases "x \<in> set (ready_ids rem)")
    case False
    then have "(i, filter (\<lambda>x. x \<notin> set (ready_ids rem)) deps) \<in> set (peel rem)"
      using e by (auto simp: in_peel)
    then show ?thesis using e False by (force simp: edges_def)
  qed (use e in simp)
qed

lemma ready_no_incoming: "distinct (map fst rem) \<Longrightarrow> i \<in> set (ready_ids rem) \<Longrightarrow> (x, i) \<notin> edges rem"
  using eq_key_imp_eq_value [of rem i "[]"] by (force simp: edges_def set_ready_ids)

text \<open>Nodes without incoming edges are on no cycle.\<close>

lemma acyclic_sources:
  assumes "acyclic s" "r \<subseteq> s \<union> S \<times> UNIV" "\<And>x i. i \<in> S \<Longrightarrow> (x, i) \<notin> r"
  shows "acyclic r"
  unfolding acyclic_def
proof (intro allI notI)
  fix a assume cyc: "(a, a) \<in> r\<^sup>+"
  then have a: "a \<notin> S" using assms(3) by (meson tranclE)
  have "(a, y) \<in> s\<^sup>+" if "(a, y) \<in> r\<^sup>+" for y
    using that
  proof (induction rule: trancl_induct)
    case (base y)
    then show ?case using a assms(2) by auto
  next
    case (step y z)
    have "y \<notin> S" using step.hyps(1) assms(3) by (meson tranclE)
    then have "(y, z) \<in> s" using step.hyps(2) assms(2) by auto
    with step.IH show ?case by (rule trancl_into_trancl)
  qed
  then show False using cyc assms(1) by (auto simp: acyclic_def)
qed

lemma finite_edges: "finite (edges rem)"
proof (rule finite_subset)
  show "edges rem \<subseteq> (\<Union>(i, deps)\<in>set rem. set deps) \<times> fst ` set rem" by (force simp: edges_def)
qed auto

lemma acyclic_has_ready:
  assumes "acyclic (edges rem)" "closed_plan rem" "rem \<noteq> []"
  shows "ready_ids rem \<noteq> []"
proof -
  have "wf (edges rem)" by (rule finite_acyclic_wf [OF finite_edges assms(1)])
  moreover obtain z0 where "z0 \<in> fst ` set rem" using assms(3) by (cases rem) auto
  ultimately obtain z where z: "z \<in> fst ` set rem" "\<forall>y. (y, z) \<in> edges rem \<longrightarrow> y \<notin> fst ` set rem"
    by (metis wf_eq_minimal)
  obtain deps where d: "(z, deps) \<in> set rem" using z(1) by auto
  have "set deps \<subseteq> fst ` set rem" using assms(2) d by (auto simp: closed_plan_def)
  moreover have "(y, z) \<in> edges rem" if "y \<in> set deps" for y using d that by (auto simp: edges_def)
  ultimately have "deps = []" using z(2) by (cases deps) auto
  then show ?thesis using d set_ready_ids [of z rem] by auto
qed

theorem peel_all_acyclic: "closed_plan rem \<Longrightarrow> peel_all rem = Inr () \<longleftrightarrow> acyclic (edges rem)"
proof (induction rem rule: peel_all.induct)
  case (1 rem)
  show ?case
  proof (cases "rem = [] \<or> ready_ids rem = []")
    case True
    then show ?thesis
      using acyclic_has_ready [OF _ 1(2)] by (auto simp: peel_all.simps [of rem] edges_def acyclic_def)
  next
    case False
    have eq: "peel_all rem = peel_all (peel rem)" using False by (simp add: peel_all.simps [of rem])
    have "acyclic (edges rem) \<longleftrightarrow> acyclic (edges (peel rem))"
    proof
      show "acyclic (edges (peel rem))" if "acyclic (edges rem)" by (rule acyclic_subset [OF that edges_peel])
      show "acyclic (edges rem)" if "acyclic (edges (peel rem))"
        by (rule acyclic_sources [OF that edges_split ready_no_incoming])
          (use 1(2) in \<open>simp_all add: closed_plan_def\<close>)
    qed
    then show ?thesis using 1(1) False closed_peel [OF 1(2)] by (simp add: eq)
  qed
qed

subsection \<open>The specification of a plan\<close>

definition assignment_ok :: "team_member list \<Rightarrow> team_assignment list \<Rightarrow> team_assignment \<Rightarrow> bool" where
  "assignment_ok roster plan a \<longleftrightarrow>
     assignment_id_ok (ta_id a) \<and> ta_member a \<in> tm_name ` set roster \<and> distinct (ta_depends a) \<and>
     set (ta_depends a) \<subseteq> ta_id ` set plan - {ta_id a} \<and>
     (\<forall>source. ta_handoff a = Some source \<longrightarrow> source \<in> set (ta_depends a) \<and>
        (\<forall>b\<in>set plan. \<forall>m\<in>set roster. ta_id b = source \<and> tm_name m = ta_member b \<longrightarrow>
           ta_member a \<in> set (tm_handoffs m)))"

definition depends_on :: "team_assignment list \<Rightarrow> (string \<times> string) set" where
  "depends_on plan = {(x, ta_id a) | x a. a \<in> set plan \<and> x \<in> set (ta_depends a)}"

definition team_plan_ok :: "team_request \<Rightarrow> team_member list \<Rightarrow> bool" where
  "team_plan_ok q roster \<longleftrightarrow>
     distinct (map tm_name roster) \<and> roster \<noteq> [] \<and> distinct (map ta_id (tq_assignments q)) \<and>
     (\<forall>a\<in>set (tq_assignments q). assignment_ok roster (tq_assignments q) a) \<and>
     acyclic (depends_on (tq_assignments q))"

lemma foldr_res_unit: "foldr_res (\<lambda>a _. f a) xs () = Inr () \<longleftrightarrow> (\<forall>a\<in>set xs. f a = Inr ())"
  by (induction xs) (auto simp: bindr_Inr_iff)

lemma find_member_None: "find_member roster n = None \<longleftrightarrow> n \<notin> tm_name ` set roster"
  by (auto simp: find_member_def find_None_iff)

lemma find_assignment_None: "find_assignment plan i = None \<longleftrightarrow> i \<notin> ta_id ` set plan"
  by (auto simp: find_assignment_def find_None_iff)

lemma find_member_iff:
  assumes "distinct (map tm_name roster)"
  shows "find_member roster n = Some m \<longleftrightarrow> m \<in> set roster \<and> tm_name m = n"
proof
  show "m \<in> set roster \<and> tm_name m = n" if "find_member roster n = Some m"
    using find_SomeD [OF that [unfolded find_member_def]] by simp
  assume m: "m \<in> set roster \<and> tm_name m = n"
  then obtain m' where m': "find_member roster n = Some m'" using find_member_None [of roster n] by auto
  have "m' = m" using find_SomeD [OF m' [unfolded find_member_def]] m assms by (metis distinct_map inj_onD)
  then show "find_member roster n = Some m" using m' by simp
qed

lemma find_assignment_iff:
  assumes "distinct (map ta_id plan)"
  shows "find_assignment plan i = Some a \<longleftrightarrow> a \<in> set plan \<and> ta_id a = i"
proof
  show "a \<in> set plan \<and> ta_id a = i" if "find_assignment plan i = Some a"
    using find_SomeD [OF that [unfolded find_assignment_def]] by simp
  assume a: "a \<in> set plan \<and> ta_id a = i"
  then obtain a' where a': "find_assignment plan i = Some a'" using find_assignment_None [of plan i] by auto
  have "a' = a" using find_SomeD [OF a' [unfolded find_assignment_def]] a assms by (metis distinct_map inj_onD)
  then show "find_assignment plan i = Some a" using a' by simp
qed

lemma check_dependencies_ok:
  "check_dependencies plan i xs = Inr () \<longleftrightarrow> set xs \<subseteq> ta_id ` set plan - {i}"
  by (induction xs) (auto simp: find_assignment_None)

lemma check_handoff_ok:
  assumes "distinct (map tm_name roster)" "distinct (map ta_id plan)"
    and "set (ta_depends a) \<subseteq> ta_id ` set plan" "\<forall>b\<in>set plan. ta_member b \<in> tm_name ` set roster"
  shows "check_handoff roster plan a = Inr () \<longleftrightarrow>
    (\<forall>source. ta_handoff a = Some source \<longrightarrow> source \<in> set (ta_depends a) \<and>
       (\<forall>b\<in>set plan. \<forall>m\<in>set roster. ta_id b = source \<and> tm_name m = ta_member b \<longrightarrow>
          ta_member a \<in> set (tm_handoffs m)))"
proof (cases "\<exists>source. ta_handoff a = Some source \<and> source \<in> set (ta_depends a)")
  case False
  then show ?thesis by (cases "ta_handoff a") (auto simp: check_handoff_def)
next
  case True
  then obtain source where s: "ta_handoff a = Some source" "source \<in> set (ta_depends a)" by blast
  obtain b where b: "b \<in> set plan" "ta_id b = source" using s(2) assms(3) by auto
  obtain m where m: "m \<in> set roster" "tm_name m = ta_member b" using assms(4) b(1) by force
  have f: "find_assignment plan source = Some b" "find_member roster (ta_member b) = Some m"
    using b m find_assignment_iff [OF assms(2)] find_member_iff [OF assms(1)] by auto
  have only_b: "b' = b" if "b' \<in> set plan" "ta_id b' = source" for b'
    using f(1) that find_assignment_iff [OF assms(2), of source b'] by simp
  have only_m: "m' = m" if "m' \<in> set roster" "tm_name m' = ta_member b" for m'
    using f(2) that find_member_iff [OF assms(1), of "ta_member b" m'] by simp
  have "check_handoff roster plan a = Inr () \<longleftrightarrow> ta_member a \<in> set (tm_handoffs m)"
    using s f by (simp add: check_handoff_def)
  then show ?thesis using s b m only_b only_m by (metis option.inject)
qed

lemma check_assignment_ok:
  "check_assignment roster plan a = Inr () \<longleftrightarrow>
    assignment_id_ok (ta_id a) \<and> ta_member a \<in> tm_name ` set roster \<and> distinct (ta_depends a) \<and>
    set (ta_depends a) \<subseteq> ta_id ` set plan - {ta_id a} \<and> check_handoff roster plan a = Inr ()"
proof -
  have "bindr (check_dependencies plan (ta_id a) (ta_depends a)) (\<lambda>_. check_handoff roster plan a) = Inr () \<longleftrightarrow>
      check_dependencies plan (ta_id a) (ta_depends a) = Inr () \<and> check_handoff roster plan a = Inr ()"
    by (auto simp: bindr_Inr_iff)
  then show ?thesis
    using find_member_None [of roster "ta_member a"] check_dependencies_ok [of plan "ta_id a" "ta_depends a"]
    by (auto simp: check_assignment_def)
qed

lemma all_assignments_ok:
  assumes "distinct (map tm_name roster)" "distinct (map ta_id plan)"
  shows "(\<forall>a\<in>set plan. check_assignment roster plan a = Inr ()) \<longleftrightarrow> (\<forall>a\<in>set plan. assignment_ok roster plan a)"
proof
  assume all: "\<forall>a\<in>set plan. check_assignment roster plan a = Inr ()"
  then have known: "\<forall>b\<in>set plan. ta_member b \<in> tm_name ` set roster" by (simp add: check_assignment_ok)
  show "\<forall>a\<in>set plan. assignment_ok roster plan a"
  proof
    fix a assume "a \<in> set plan"
    then have c: "check_assignment roster plan a = Inr ()" using all by blast
    then have "set (ta_depends a) \<subseteq> ta_id ` set plan" by (auto simp: check_assignment_ok)
    from check_handoff_ok [OF assms this known] c show "assignment_ok roster plan a"
      unfolding assignment_ok_def check_assignment_ok by blast
  qed
next
  assume all: "\<forall>a\<in>set plan. assignment_ok roster plan a"
  then have known: "\<forall>b\<in>set plan. ta_member b \<in> tm_name ` set roster" by (simp add: assignment_ok_def)
  show "\<forall>a\<in>set plan. check_assignment roster plan a = Inr ()"
  proof
    fix a assume "a \<in> set plan"
    then have c: "assignment_ok roster plan a" using all by blast
    then have "set (ta_depends a) \<subseteq> ta_id ` set plan" by (auto simp: assignment_ok_def)
    from check_handoff_ok [OF assms this known] c show "check_assignment roster plan a = Inr ()"
      unfolding assignment_ok_def check_assignment_ok by blast
  qed
qed

lemma plan_edges: "edges (map (\<lambda>a. (ta_id a, ta_depends a)) plan) = depends_on plan"
  by (force simp: edges_def depends_on_def)

lemma plan_closed:
  assumes "distinct (map ta_id plan)" "\<forall>a\<in>set plan. set (ta_depends a) \<subseteq> ta_id ` set plan"
  shows "closed_plan (map (\<lambda>a. (ta_id a, ta_depends a)) plan)"
proof -
  have "map fst (map (\<lambda>a. (ta_id a, ta_depends a)) plan) = map ta_id plan" by simp
  moreover have "fst ` set (map (\<lambda>a. (ta_id a, ta_depends a)) plan) = ta_id ` set plan" by force
  ultimately show ?thesis unfolding closed_plan_def using assms by (simp only:) auto
qed

lemma validate_iff:
  "validate_team_request q roster = Inr () \<longleftrightarrow>
    distinct (map tm_name roster) \<and> roster \<noteq> [] \<and> distinct (map ta_id (tq_assignments q)) \<and>
    (\<forall>a\<in>set (tq_assignments q). check_assignment roster (tq_assignments q) a = Inr ()) \<and>
    peel_all (map (\<lambda>a. (ta_id a, ta_depends a)) (tq_assignments q)) = Inr ()"
proof -
  have "bindr (foldr_res (\<lambda>a _. check_assignment roster (tq_assignments q) a) (tq_assignments q) ())
      (\<lambda>_. peel_all (map (\<lambda>a. (ta_id a, ta_depends a)) (tq_assignments q))) = Inr () \<longleftrightarrow>
    (\<forall>a\<in>set (tq_assignments q). check_assignment roster (tq_assignments q) a = Inr ()) \<and>
    peel_all (map (\<lambda>a. (ta_id a, ta_depends a)) (tq_assignments q)) = Inr ()"
    using foldr_res_unit [of "check_assignment roster (tq_assignments q)" "tq_assignments q"]
    by (auto simp: bindr_Inr_iff)
  then show ?thesis by (auto simp: validate_team_request_def Let_def)
qed

subsection \<open>Properties\<close>

text \<open>C13: the topology check is complete and sound. \<open>validate_team_request\<close> accepts a request exactly
  when the roster's names are unique and there are some, the assignment ids are unique and well
  formed, every member exists, every dependency is another assignment named once, every hand-off
  comes from a dependency whose member may hand over to this one, and the dependency relation has
  no cycle (of any length).\<close>

theorem team_check_is_exact: "validate_team_request q roster = Inr () \<longleftrightarrow> team_plan_ok q roster"
proof (cases "distinct (map tm_name roster) \<and> roster \<noteq> [] \<and> distinct (map ta_id (tq_assignments q)) \<and>
    (\<forall>a\<in>set (tq_assignments q). assignment_ok roster (tq_assignments q) a)")
  case True
  then have "\<forall>a\<in>set (tq_assignments q). set (ta_depends a) \<subseteq> ta_id ` set (tq_assignments q)"
    by (auto simp: assignment_ok_def)
  from peel_all_acyclic [OF plan_closed [OF _ this]] True show ?thesis
    using all_assignments_ok [of roster "tq_assignments q"] by (simp add: validate_iff team_plan_ok_def plan_edges)
next
  case False
  then show ?thesis
    using all_assignments_ok [of roster "tq_assignments q"] by (auto simp: validate_iff team_plan_ok_def)
qed

text \<open>
  A hand-off from a later assignment with an unknown member escapes as a \<open>KeyError\<close>, not as the
  error of the plan.
\<close>

definition demo_member :: "string \<Rightarrow> string list \<Rightarrow> team_member" where
  "demo_member n hs = \<lparr>tm_name = n, tm_description = [], tm_tools = [], tm_handoffs = hs\<rparr>"

definition demo_task :: "string \<Rightarrow> string \<Rightarrow> string list \<Rightarrow> string option \<Rightarrow> team_assignment" where
  "demo_task i m deps h = \<lparr>ta_id = i, ta_member = m, ta_task = ''t'', ta_kind = OutFinding,
     ta_depends = deps, ta_handoff = h\<rparr>"

lemma handoff_source_key_error:
  "validate_team_request \<lparr>tq_objective = ''o'',
     tq_assignments = [demo_task ''a'' ''m'' [''b''] (Some ''b''), demo_task ''b'' ''nobody'' [] None]\<rparr>
     [demo_member ''m'' []] = Inl (RosterKeyError ''nobody'')"
  by code_simp

end
