(* ===== verification/Store_Schema.thy ===== *)
theory Store_Schema
  imports Python_Values
begin

text \<open>
  The Runtime database of store/schema.py: one record per table (a row), one field per
  column, and the record \<open>db\<close> of all tables in the order of insertion. A nullable column is
  an option, a \<open>..._json\<close> column the value it encodes, a timestamp (\<open>utc_now\<close>, an ISO text
  in UTC, whose texts order as the instants do) a natural number of microseconds. \<open>uuid\<close> is
  the supply \<open>new_id\<close> (store/ids.py) draws from. Migrated columns, indexes and the tables no
  modelled operation reads are left out.
\<close>

type_synonym time = nat
type_synonym id = string

subsection \<open>Statuses\<close>

datatype run_status =
    RunQueued | RunRunning | RunWaitingPermission | RunWaitingInput | RunCleanupRequired
  | RunCompleted | RunFailed | RunCanceled

datatype job_status = JobPending | JobLeased | JobCompleted | JobDead | JobCanceled

datatype receipt_status =
    ToolPrepared | ToolRunning | ToolPaused | ToolCompleted | ToolFailed | ToolOutcomeUnknown
  | ToolRejected | ToolCanceled

datatype call_status =
    CallReserved | CallStreaming | CallCompleted | CallUnmetered | CallFailed | CallOutcomeUnknown

datatype sandbox_status = SandboxRunning | SandboxOrphaned | SandboxReaped | SandboxGone | SandboxStale

datatype run_kind = KindTurn | KindFork | KindChild

datatype completion_mode = ModeRequired | ModeBestEffort | ModeQuorum

text \<open>The text of a run status, as rows and payloads hold it.\<close>

fun run_status_text :: "run_status \<Rightarrow> string" where
  "run_status_text RunQueued = ''queued''"
| "run_status_text RunRunning = ''running''"
| "run_status_text RunWaitingPermission = ''waiting_permission''"
| "run_status_text RunWaitingInput = ''waiting_input''"
| "run_status_text RunCleanupRequired = ''cleanup_required''"
| "run_status_text RunCompleted = ''completed''"
| "run_status_text RunFailed = ''failed''"
| "run_status_text RunCanceled = ''canceled''"

definition terminal_run :: "run_status \<Rightarrow> bool" where
  "terminal_run s \<longleftrightarrow> s = RunCompleted \<or> s = RunFailed \<or> s = RunCanceled"

subsection \<open>Rows\<close>

record run_row =
  r_id :: id
  r_principal :: string
  r_kind :: run_kind
  r_root :: "id option"
  r_agent_id :: string
  r_agent_version :: string
  r_depth :: int
  r_policy :: json
  r_spawn_op :: "id option"
  r_graph_thread :: id
  r_checkpoint :: "id option"
  r_definition :: "id option"
  r_input_kind :: string
  r_thread :: "id option"
  r_item :: "id option"
  r_user_input :: "string option"
  r_goal :: string
  r_workspace :: "string option"
  r_status :: run_status
  r_history :: json
  r_parent :: "id option"
  r_settings :: json
  r_metadata :: json
  r_mode :: string
  r_created :: time
  r_updated :: time
  r_completed :: "time option"

record job_row =
  j_id :: id
  j_run :: id
  j_kind :: string
  j_status :: job_status
  j_input :: json
  j_resume :: "json option"
  j_owner :: "string option"
  j_gen :: nat
  j_expires :: "time option"
  j_attempt :: nat
  j_cancel :: "time option"
  j_quarantined :: "time option"
  j_reason :: "string option"
  j_created :: time
  j_updated :: time
  j_finished :: "time option"

record event_row =
  e_id :: id
  e_run :: id
  e_seq :: nat
  e_type :: string
  e_payload :: json
  e_created :: time

record thread_row =
  th_id :: id
  th_principal :: string
  th_title :: string
  th_metadata :: json
  th_version :: nat
  th_created :: time
  th_updated :: time
  th_archived :: "time option"
  th_deleted :: "time option"

record item_row =
  it_id :: id
  it_thread :: id
  it_run :: "id option"
  it_client :: "string option"
  it_type :: string
  it_status :: string
  it_content :: string
  it_metadata :: json
  it_position :: nat
  it_high :: nat
  it_version :: nat
  it_created :: time
  it_updated :: time
  it_completed :: "time option"
  it_superseded :: "time option"
  it_superseded_by :: "id option"

record change_row =
  tc_cursor :: nat
  tc_principal :: string
  tc_thread :: id
  tc_version :: nat
  tc_type :: string
  tc_run :: "id option"
  tc_created :: time

record command_row =
  cm_principal :: string
  cm_id :: id
  cm_type :: string
  cm_client :: string
  cm_payload :: json
  cm_response :: json
  cm_run :: "id option"
  cm_created :: time

record receipt_row =
  t_op :: id
  t_run :: id
  t_attempt :: string
  t_namespace :: string
  t_parent :: "id option"
  t_call :: string
  t_name :: string
  t_version :: string
  t_args_hash :: string
  t_args :: json
  t_risk :: string
  t_status :: receipt_status
  t_attempts :: nat
  t_result :: "json option"
  t_result_hash :: "string option"
  t_error :: "string option"
  t_decision :: "string option"
  t_source :: "string option"
  t_reason :: "string option"
  t_model :: "string option"
  t_reviewed :: "time option"
  t_created :: time
  t_started :: "time option"
  t_completed :: "time option"
  t_updated :: time

record call_row =
  c_id :: id
  c_run :: id
  c_attempt :: string
  c_index :: nat
  c_model :: string
  c_purpose :: string
  c_parent_op :: "id option"
  c_logical :: id
  c_retry :: nat
  c_status :: call_status
  c_output_started :: bool
  c_request_id :: "string option"
  c_in :: "nat option"
  c_out :: "nat option"
  c_usage :: json
  c_phase :: string
  c_phase_started :: time
  c_request_started :: time
  c_headers_at :: "time option"
  c_first_raw :: "time option"
  c_reasoning_started :: "time option"
  c_first_visible :: "time option"
  c_reasoning :: "nat option"
  c_error :: "string option"
  c_created :: time
  c_first_output :: "time option"
  c_completed :: "time option"

record draft_row =
  d_run :: id
  d_revision :: nat
  d_key :: string
  d_content :: string
  d_calls :: json
  d_created :: time
  d_updated :: time

record sandbox_row =
  s_id :: id
  s_run :: id
  s_attempt :: string
  s_pid :: int
  s_started :: string
  s_settings :: string
  s_status :: sandbox_status
  s_created :: time
  s_updated :: time

record steering_row =
  st_id :: id
  st_run :: id
  st_content :: string
  st_status :: string
  st_created :: time
  st_injected :: "time option"

record dependency_row =
  dp_child :: id
  dp_on :: id
  dp_created :: time

record coordination_row =
  co_child :: id
  co_root :: id
  co_parent :: id
  co_mode :: completion_mode
  co_group :: "string option"
  co_required :: "int option"
  co_created :: time

record claim_row =
  cl_root :: id
  cl_key :: string
  cl_owner :: id
  cl_created :: time

record wait_row =
  w_id :: id
  w_run :: id
  w_kind :: string
  w_cycle :: id
  w_interrupt :: id
  w_position :: int
  w_status :: string
  w_payload :: json
  w_decision :: "json option"
  w_created :: time
  w_resolved :: "time option"

record permission_row =
  p_id :: id
  p_run :: id
  p_call :: "string option"
  p_cycle :: "id option"
  p_interrupt :: "id option"
  p_index :: int
  p_op :: "id option"
  p_tool :: string
  p_version :: string
  p_args_hash :: "string option"
  p_args :: json
  p_risk :: "string option"
  p_decision :: "json option"
  p_status :: string
  p_scope :: string
  p_max_uses :: int
  p_uses :: nat
  p_created :: time
  p_resolved :: "time option"

record question_row =
  q_id :: id
  q_run :: id
  q_call :: "string option"
  q_cycle :: "id option"
  q_interrupt :: "id option"
  q_questions :: json
  q_status :: string
  q_answers :: "json option"
  q_created :: time
  q_answered :: "time option"

record plan_row =
  pl_id :: id
  pl_run :: id
  pl_call :: string
  pl_cycle :: "id option"
  pl_interrupt :: "id option"
  pl_todos :: json
  pl_summary :: string
  pl_status :: string
  pl_instructions :: "string option"
  pl_created :: time
  pl_resolved :: "time option"

record grant_use_row =
  g_permission :: id
  g_run :: id
  g_op :: id
  g_created :: time

record message_row =
  m_id :: id
  m_root :: id
  m_sender :: id
  m_recipient :: id
  m_op :: id
  m_kind :: string
  m_text :: string
  m_data :: json
  m_refs :: "string list"
  m_correlation :: id
  m_reply_to :: "id option"
  m_sequence :: nat
  m_hops :: nat
  m_status :: string
  m_ttl :: nat
  m_deadline :: time
  m_created :: time
  m_delivered :: "time option"
  m_acknowledged :: "time option"

record artifact_row =
  a_id :: id
  a_run :: id
  a_kind :: string
  a_title :: string
  a_content :: string
  a_content_type :: string
  a_bytes :: nat
  a_storage :: string
  a_blob :: "string option"
  a_sha :: string
  a_call :: "string option"
  a_tool :: "string option"
  a_metadata :: json
  a_created :: time

record input_row =
  in_run :: id
  in_id :: id
  in_path :: string
  in_name :: string
  in_media :: string
  in_bytes :: nat
  in_sha :: string
  in_blob :: string
  in_created :: time

record binding_row =
  b_run :: id
  b_plugin :: string
  b_version :: string
  b_digest :: string
  b_source :: string
  b_required :: bool
  b_command :: "string option"
  b_catalog :: string
  b_model :: "json option"

record workspace_row =
  ws_id :: id
  ws_principal :: string
  ws_path :: string
  ws_label :: string
  ws_created :: time
  ws_used :: time

record schedule_row =
  sr_id :: id
  sr_principal :: string
  sr_goal :: string
  sr_workspace :: "string option"
  sr_model :: string
  sr_history :: json
  sr_settings :: json
  sr_metadata :: json
  sr_run_at :: time
  sr_status :: string
  sr_run :: "id option"
  sr_result :: "string option"
  sr_error :: "string option"
  sr_created :: time
  sr_updated :: time
  sr_completed :: "time option"
  sr_notified :: "time option"

record db =
  db_runs :: "run_row list"
  db_jobs :: "job_row list"
  db_events :: "event_row list"
  db_threads :: "thread_row list"
  db_items :: "item_row list"
  db_changes :: "change_row list"
  db_commands :: "command_row list"
  db_receipts :: "receipt_row list"
  db_calls :: "call_row list"
  db_drafts :: "draft_row list"
  db_sandboxes :: "sandbox_row list"
  db_steering :: "steering_row list"
  db_deps :: "dependency_row list"
  db_coords :: "coordination_row list"
  db_claims :: "claim_row list"
  db_waits :: "wait_row list"
  db_perms :: "permission_row list"
  db_questions :: "question_row list"
  db_plans :: "plan_row list"
  db_grant_uses :: "grant_use_row list"
  db_messages :: "message_row list"
  db_artifacts :: "artifact_row list"
  db_inputs :: "input_row list"
  db_bindings :: "binding_row list"
  db_workspaces :: "workspace_row list"
  db_schedules :: "schedule_row list"
  db_cursor :: nat
  db_uuid :: "nat \<Rightarrow> string"
  db_uuid_next :: nat

end
