(* ===== verification/Database.thy ===== *)
theory Database
  imports Store_Schema
begin

text \<open>
  store/database.py, store/errors.py and store/ids.py: the exceptions of the store, the
  execution lease a worker holds, the context an operation runs in (the lease bound to the
  task and the successive readings of \<open>utc_now()\<close>), and the write transaction that checks the
  lease before anything is written. An operation takes the database and returns the new one;
  an exception returns no database, which is the rollback.
\<close>

datatype store_error =
    LeaseFenceError
  | RunResultConflictError
  | CommandConflictError
  | RunAdmissionError string
  | WorkspaceAdmissionError
  | ParentRunAdmissionError
  | ThreadAdmissionError
  | RunInputSnapshotError
  | RunInputQuotaError
  | ArtifactQuotaError
  | ArtifactConflictError
  | GraphHeadConflictError
  | GraphDefinitionMismatchError
  | ModelCallBudgetExceeded
  | ToolReceiptConflictError
  | ToolReceiptStateError
  | ToolOutcomeUnknownError
  | PermissionDecisionConflictError
  | PermissionScopeNotAllowedError
  | WaitDecisionConflictError
  | PyKeyError
  | PyValueError
  | PyRuntimeError
  | PyAssertionError
  | PyOverflowError
  | SqlIntegrityError

type_synonym 'a res = "store_error + 'a"

record exec_lease =
  l_job :: id
  l_run :: id
  l_owner :: string
  l_gen :: nat

text \<open>
  The readings of \<open>utc_now()\<close> in one operation: \<open>x_clock c 0\<close> is the one the lease fence makes,
  \<open>x_clock c 1\<close>, \<open>x_clock c 2\<close>, ... the operation's own, in program order. Nothing is assumed
  about how they compare.
\<close>

record ctx =
  x_lease :: "exec_lease option"
  x_clock :: "nat \<Rightarrow> time"

definition new_id :: "string \<Rightarrow> db \<Rightarrow> id \<times> db" where
  "new_id kind d =
    (kind @ ''_'' @ db_uuid d (db_uuid_next d), d\<lparr>db_uuid_next := Suc (db_uuid_next d)\<rparr>)"

definition get_run_row :: "db \<Rightarrow> id \<Rightarrow> run_row option" where
  "get_run_row d i = find (\<lambda>r. r_id r = i) (db_runs d)"

definition get_receipt_row :: "db \<Rightarrow> id \<Rightarrow> receipt_row option" where
  "get_receipt_row d i = find (\<lambda>t. t_op t = i) (db_receipts d)"

definition receipt_in_run :: "db \<Rightarrow> id \<Rightarrow> id \<Rightarrow> receipt_row option" where
  "receipt_in_run d oper run = find (\<lambda>t. t_op t = oper \<and> t_run t = run) (db_receipts d)"

text \<open>The attempt a job's lease generation names: \<open>f"{job_id}:{generation}"\<close>.\<close>

definition attempt_id :: "id \<Rightarrow> nat \<Rightarrow> string" where
  "attempt_id job gen = job @ '':'' @ nat_str gen"

subsection \<open>The lease fence\<close>

definition after :: "time option \<Rightarrow> time \<Rightarrow> bool" where
  "after e now = (case e of None \<Rightarrow> False | Some t \<Rightarrow> now < t)"

lemma after_simps [simp]: "after None n = False" "after (Some t) n = (n < t)"
  by (simp_all add: after_def)

definition lease_holds :: "exec_lease \<Rightarrow> time \<Rightarrow> job_row \<Rightarrow> bool" where
  "lease_holds l now j \<longleftrightarrow>
     j_id j = l_job l \<and> j_run j = l_run l \<and> j_status j = JobLeased \<and>
     j_owner j = Some (l_owner l) \<and> j_gen j = l_gen l \<and> j_quarantined j = None \<and>
     after (j_expires j) now"

definition fence_open :: "exec_lease \<Rightarrow> time \<Rightarrow> db \<Rightarrow> bool" where
  "fence_open l now d = list_ex (lease_holds l now) (db_jobs d)"

lemma fence_open_iff: "fence_open l now d \<longleftrightarrow> (\<exists>j\<in>set (db_jobs d). lease_holds l now j)"
  by (simp add: fence_open_def list_ex_iff)

definition active_lease :: "ctx \<Rightarrow> exec_lease option \<Rightarrow> exec_lease option" where
  "active_lease c l = (case l of None \<Rightarrow> x_lease c | Some x \<Rightarrow> Some x)"

definition run_write_transaction ::
    "ctx \<Rightarrow> exec_lease option \<Rightarrow> id \<Rightarrow> db \<Rightarrow> (db \<Rightarrow> 'a res) \<Rightarrow> 'a res" where
  "run_write_transaction c lease run d body =
    (case active_lease c lease of
       None \<Rightarrow> body d
     | Some l \<Rightarrow>
         if l_run l \<noteq> run then Inl LeaseFenceError
         else if \<not> fence_open l (x_clock c 0) d then Inl LeaseFenceError
         else body d)"

text \<open>What passes the fence: no lease at all, or one whose job row still carries it.\<close>

definition admitted :: "ctx \<Rightarrow> exec_lease option \<Rightarrow> id \<Rightarrow> db \<Rightarrow> bool" where
  "admitted c lease run d \<longleftrightarrow>
    (case active_lease c lease of None \<Rightarrow> True
     | Some l \<Rightarrow> l_run l = run \<and> fence_open l (x_clock c 0) d)"

lemma run_write_transaction_eq:
  "run_write_transaction c lease run d body =
     (if admitted c lease run d then body d else Inl LeaseFenceError)"
  by (auto simp: run_write_transaction_def admitted_def split: option.splits)

lemma run_write_transaction_Inr [res_simps]:
  "run_write_transaction c lease run d body = Inr y \<longleftrightarrow> admitted c lease run d \<and> body d = Inr y"
  by (simp add: run_write_transaction_eq)

text \<open>
  The contract of a fence, as the operations rely on it: it opens only for a live row that
  carries the lease, and at a later reading of the clock it can only close.
\<close>

locale lease_fence =
  fixes opens :: "exec_lease \<Rightarrow> time \<Rightarrow> 'd \<Rightarrow> bool"
    and rows :: "'d \<Rightarrow> job_row list"
  assumes opens_iff: "opens l now d \<longleftrightarrow> (\<exists>j\<in>set (rows d). lease_holds l now j)"
begin

lemma opens_antimono: "opens l now d \<Longrightarrow> earlier \<le> now \<Longrightarrow> opens l earlier d"
proof -
  assume a: "opens l now d" "earlier \<le> now"
  then obtain j where j: "j \<in> set (rows d)" "lease_holds l now j" by (auto simp: opens_iff)
  then obtain t where "j_expires j = Some t" "now < t"
    by (cases "j_expires j") (auto simp: lease_holds_def)
  with a(2) j(2) have "lease_holds l earlier j" by (simp add: lease_holds_def)
  with j(1) show ?thesis by (auto simp: opens_iff)
qed

lemma closed_by_generation:
  assumes "\<And>j. j \<in> set (rows d) \<Longrightarrow> j_id j = l_job l \<Longrightarrow> j_gen j \<noteq> l_gen l"
  shows "\<not> opens l now d"
  using assms by (auto simp: opens_iff lease_holds_def)

lemma closed_by_status:
  assumes "\<And>j. j \<in> set (rows d) \<Longrightarrow> j_id j = l_job l \<Longrightarrow>
      j_status j \<noteq> JobLeased \<or> j_quarantined j \<noteq> None \<or> j_expires j = None"
  shows "\<not> opens l now d"
  using assms by (force simp: opens_iff lease_holds_def)

lemma opens_depends_on_rows: "rows d = rows d' \<Longrightarrow> opens l now d = opens l now d'"
  by (simp add: opens_iff)

end

interpretation fence: lease_fence fence_open db_jobs
  by unfold_locales (rule fence_open_iff)

text \<open>Two unexpired owners of one job and run agree on owner and generation.\<close>

lemma fence_owner_unique:
  assumes "distinct (map j_id (db_jobs d))"
    and "fence_open l now d" "fence_open l' now' d" "l_job l = l_job l'"
  shows "l = l'"
proof -
  obtain j where j: "j \<in> set (db_jobs d)" "lease_holds l now j"
    using assms(2) by (auto simp: fence_open_iff)
  obtain j' where j': "j' \<in> set (db_jobs d)" "lease_holds l' now' j'"
    using assms(3) by (auto simp: fence_open_iff)
  have "j_id j = j_id j'" using j(2) j'(2) assms(4) by (simp add: lease_holds_def)
  then have "j = j'" using assms(1) j(1) j'(1)
    by (metis distinct_map inj_onD)
  then show ?thesis using j(2) j'(2) assms(4)
    by (cases l, cases l') (simp add: lease_holds_def)
qed

subsection \<open>What the log writes\<close>

text \<open>
  Appending an event and projecting it on its thread touch the event log, the thread tables
  and the id supply only. \<open>without_log\<close> blanks those; an operation that keeps it keeps every
  other table.
\<close>

definition without_log :: "db \<Rightarrow> db" where
  "without_log d = d\<lparr>db_events := [], db_threads := [], db_items := [], db_changes := [],
     db_cursor := 0, db_uuid_next := 0\<rparr>"

definition without_receipts :: "db \<Rightarrow> db" where
  "without_receipts d = (without_log d)\<lparr>db_receipts := []\<rparr>"

lemma without_log_frame [frame_simps]:
  assumes "without_log d' = without_log d"
  shows "db_runs d' = db_runs d" "db_jobs d' = db_jobs d" "db_commands d' = db_commands d"
    "db_receipts d' = db_receipts d" "db_calls d' = db_calls d" "db_drafts d' = db_drafts d"
    "db_sandboxes d' = db_sandboxes d" "db_steering d' = db_steering d" "db_deps d' = db_deps d"
    "db_coords d' = db_coords d" "db_claims d' = db_claims d" "db_waits d' = db_waits d"
    "db_perms d' = db_perms d" "db_questions d' = db_questions d" "db_plans d' = db_plans d"
    "db_grant_uses d' = db_grant_uses d" "db_messages d' = db_messages d"
    "db_artifacts d' = db_artifacts d" "db_workspaces d' = db_workspaces d"
    "db_inputs d' = db_inputs d" "db_bindings d' = db_bindings d"
    "db_schedules d' = db_schedules d" "db_uuid d' = db_uuid d"
  using assms by (cases d; cases d'; simp add: without_log_def)+

lemma without_receipts_frame:
  assumes "without_receipts d' = without_receipts d"
  shows "db_runs d' = db_runs d" "db_jobs d' = db_jobs d" "db_commands d' = db_commands d"
    "db_calls d' = db_calls d" "db_drafts d' = db_drafts d" "db_messages d' = db_messages d"
    "db_sandboxes d' = db_sandboxes d" "db_steering d' = db_steering d" "db_deps d' = db_deps d"
    "db_coords d' = db_coords d" "db_claims d' = db_claims d" "db_waits d' = db_waits d"
    "db_perms d' = db_perms d" "db_questions d' = db_questions d" "db_plans d' = db_plans d"
    "db_uuid d' = db_uuid d"
  using assms by (cases d; cases d'; simp add: without_receipts_def without_log_def)+

lemma without_log_receipts: "without_log d' = without_log d \<Longrightarrow> without_receipts d' = without_receipts d"
  by (simp add: without_receipts_def)

lemma without_receipts_update [simp]:
  "without_receipts (d\<lparr>db_receipts := x\<rparr>) = without_receipts d"
  by (simp add: without_receipts_def without_log_def)

lemma without_log_updates [simp]:
  "without_log (d\<lparr>db_events := ev\<rparr>) = without_log d"
  "without_log (d\<lparr>db_threads := th\<rparr>) = without_log d"
  "without_log (d\<lparr>db_items := it\<rparr>) = without_log d"
  "without_log (d\<lparr>db_changes := tc\<rparr>) = without_log d"
  "without_log (d\<lparr>db_cursor := n\<rparr>) = without_log d"
  "without_log (d\<lparr>db_uuid_next := n\<rparr>) = without_log d"
  by (simp_all add: without_log_def)

lemma new_id_without_log [simp]: "without_log (snd (new_id p d)) = without_log d"
  by (simp add: new_id_def)

end
