(* ===== verification/Fixtures.thy ===== *)
theory Fixtures
  imports Database
begin

text \<open>
  Concrete rows and a small database for evaluating the operations: one turn \<open>run_1\<close> leased
  by worker \<open>w\<close> as generation 1 of \<open>job_1\<close> until instant 100, in a thread of its own. The
  witnesses of the properties build their inputs from these by record update.
\<close>

definition blank_run :: "id \<Rightarrow> run_status \<Rightarrow> run_row" where
  "blank_run i s =
     \<lparr>r_id = i, r_principal = ''local'', r_kind = KindTurn, r_root = Some i, r_agent_id = ''main'',
      r_agent_version = ''1'', r_depth = 0, r_policy = JObj [], r_spawn_op = None,
      r_graph_thread = i, r_checkpoint = None, r_definition = None, r_input_kind = ''text'',
      r_thread = None, r_item = None, r_user_input = None, r_goal = ''goal'', r_workspace = None,
      r_status = s, r_history = JList [], r_parent = None, r_settings = JObj [],
      r_metadata = JObj [], r_mode = ''agent'', r_created = 1, r_updated = 1, r_completed = None\<rparr>"

definition blank_job :: "id \<Rightarrow> id \<Rightarrow> job_status \<Rightarrow> job_row" where
  "blank_job i run s =
     \<lparr>j_id = i, j_run = run, j_kind = ''start'', j_status = s, j_input = JObj [], j_resume = None,
      j_owner = None, j_gen = 0, j_expires = None, j_attempt = 0, j_cancel = None,
      j_quarantined = None, j_reason = None, j_created = 1, j_updated = 1, j_finished = None\<rparr>"

definition leased_job :: "id \<Rightarrow> id \<Rightarrow> job_row" where
  "leased_job i run = (blank_job i run JobLeased)
     \<lparr>j_owner := Some ''w'', j_gen := 1, j_expires := Some 100, j_attempt := 1\<rparr>"

definition blank_receipt :: "id \<Rightarrow> id \<Rightarrow> string \<Rightarrow> receipt_status \<Rightarrow> receipt_row" where
  "blank_receipt i run tool s =
     \<lparr>t_op = i, t_run = run, t_attempt = ''job_1:1'', t_namespace = ''root'', t_parent = None,
      t_call = i, t_name = tool, t_version = ''1'', t_args_hash = ''h'', t_args = JObj [],
      t_risk = ''low'', t_status = s, t_attempts = 0, t_result = None, t_result_hash = None,
      t_error = None, t_decision = None, t_source = None, t_reason = None, t_model = None,
      t_reviewed = None, t_created = 1, t_started = None, t_completed = None, t_updated = 1\<rparr>"

definition empty_db :: db where
  "empty_db = \<lparr>db_runs = [], db_jobs = [], db_events = [], db_threads = [], db_items = [],
     db_changes = [], db_commands = [], db_receipts = [], db_calls = [], db_drafts = [],
     db_sandboxes = [], db_steering = [], db_deps = [], db_coords = [], db_claims = [],
     db_waits = [], db_perms = [], db_questions = [], db_plans = [], db_grant_uses = [],
     db_messages = [], db_artifacts = [], db_inputs = [], db_bindings = [],
     db_workspaces = [], db_schedules = [], db_cursor = 0, db_uuid = nat_str, db_uuid_next = 0\<rparr>"

definition demo_db :: db where
  "demo_db = empty_db
     \<lparr>db_runs := [(blank_run ''run_1'' RunRunning)\<lparr>r_thread := Some ''thread_1'', r_item := Some ''item_1''\<rparr>],
      db_jobs := [leased_job ''job_1'' ''run_1''],
      db_threads := [\<lparr>th_id = ''thread_1'', th_principal = ''local'', th_title = ''title'',
                      th_metadata = JObj [], th_version = 1, th_created = 1, th_updated = 1,
                      th_archived = None, th_deleted = None\<rparr>],
      db_items := [\<lparr>it_id = ''item_1'', it_thread = ''thread_1'', it_run = Some ''run_1'',
                    it_client = None, it_type = ''assistant_message'', it_status = ''in_progress'',
                    it_content = [], it_metadata = JObj [], it_position = 2, it_high = 0,
                    it_version = 1, it_created = 1, it_updated = 1, it_completed = None,
                    it_superseded = None, it_superseded_by = None\<rparr>]\<rparr>"

definition demo_lease :: exec_lease where
  "demo_lease = \<lparr>l_job = ''job_1'', l_run = ''run_1'', l_owner = ''w'', l_gen = 1\<rparr>"

text \<open>The worker's context at instants 10, 11, 12, ...; and one without a lease.\<close>

definition demo_ctx :: ctx where
  "demo_ctx = \<lparr>x_lease = Some demo_lease, x_clock = (\<lambda>k. 10 + k)\<rparr>"

definition free_ctx :: ctx where
  "free_ctx = \<lparr>x_lease = None, x_clock = (\<lambda>k. 10 + k)\<rparr>"

end
