(* ===== verification/Artifacts.thy ===== *)
theory Artifacts
  imports Fixtures
begin

text \<open>
  Artifact records (store/artifacts.py): creation from text or from a promoted file, under the
  byte limits of one item, of a run, of its owner and of the whole store, and with replay by
  id. The files behind blob artifacts are outside the model: what promoting one returns is an
  argument. Shown: the limits hold of every reachable store, and a replay returns the artifact
  that was kept.
\<close>

subsection \<open>Limits\<close>

definition max_artifact_bytes :: int where
  "max_artifact_bytes = 32 * 1024 * 1024"

definition max_run_artifact_bytes :: int where
  "max_run_artifact_bytes = 4 * 1024 * 1024 * 1024"

definition max_principal_artifact_bytes :: int where
  "max_principal_artifact_bytes = 16 * 1024 * 1024 * 1024"

definition max_total_artifact_bytes :: int where
  "max_total_artifact_bytes = 64 * 1024 * 1024 * 1024"

text \<open>\<open>len(s.encode("utf-8"))\<close> of code points below 256.\<close>

definition utf8_length :: "string \<Rightarrow> nat" where
  "utf8_length s = sum_list (map (\<lambda>c. if (of_char c :: nat) < 128 then 1 else 2) s)"

definition bytes_where :: "(artifact_row \<Rightarrow> bool) \<Rightarrow> db \<Rightarrow> int" where
  "bytes_where p d = sum_list (map (\<lambda>a. int (a_bytes a)) (filter p (db_artifacts d)))"

definition owned_artifact :: "db \<Rightarrow> string \<Rightarrow> artifact_row \<Rightarrow> bool" where
  "owned_artifact d owner a = (case get_run_row d (a_run a) of None \<Rightarrow> False | Some r \<Rightarrow> r_principal r = owner)"

subsection \<open>Creation\<close>

definition get_artifact :: "id \<Rightarrow> db \<Rightarrow> artifact_row option" where
  "get_artifact i d = find (\<lambda>a. a_id a = i) (db_artifacts d)"

definition list_artifacts_for_run :: "id \<Rightarrow> db \<Rightarrow> artifact_row list" where
  "list_artifacts_for_run run d = select_by a_created (\<lambda>a. a_run a = run) (db_artifacts d)"

text \<open>\<open>reconcile_replay\<close>: every immutable field must be the one that was kept.\<close>

definition same_artifact :: "artifact_row \<Rightarrow> artifact_row \<Rightarrow> bool" where
  "same_artifact x a \<longleftrightarrow> x\<lparr>a_id := a_id a, a_created := a_created a\<rparr> = a"

lemma same_artifact_created: "same_artifact x (a\<lparr>a_created := t\<rparr>) = same_artifact x a"
  by (cases x; cases a) (auto simp: same_artifact_def)

lemma same_artifact_content: "same_artifact x a \<Longrightarrow> a_content x = a_content a"
  by (cases x; cases a) (auto simp: same_artifact_def)

definition reconcile_replay :: "artifact_row \<Rightarrow> artifact_row \<Rightarrow> db \<Rightarrow> (artifact_row \<times> db) res" where
  "reconcile_replay x a d = (if same_artifact x a then Inr (x, d) else Inl ArtifactConflictError)"

definition insert_artifact :: "artifact_row \<Rightarrow> bool \<Rightarrow> db \<Rightarrow> (artifact_row \<times> db) res" where
  "insert_artifact a replayable d =
    (case get_artifact (a_id a) d of
       None \<Rightarrow> Inr (a, d\<lparr>db_artifacts := db_artifacts d @ [a]\<rparr>)
     | Some x \<Rightarrow> if replayable then reconcile_replay x a d else Inl SqlIntegrityError)"

definition create_artifact_record ::
    "ctx \<Rightarrow> artifact_row \<Rightarrow> bool \<Rightarrow> db \<Rightarrow> (artifact_row \<times> db) res" where
  "create_artifact_record c a replayable d =
    run_write_transaction c None (a_run a) d (\<lambda>d.
     (case (if replayable then get_artifact (a_id a) d else None) of
        Some x \<Rightarrow> reconcile_replay x a d
      | None \<Rightarrow>
         (case get_run_row d (a_run a) of
            None \<Rightarrow> Inl PyKeyError
          | Some r \<Rightarrow>
             if bytes_where (\<lambda>x. a_run x = a_run a) d + int (a_bytes a) > max_run_artifact_bytes
               then Inl ArtifactQuotaError
             else if bytes_where (owned_artifact d (r_principal r)) d + int (a_bytes a) > max_principal_artifact_bytes
               then Inl ArtifactQuotaError
             else if bytes_where (\<lambda>_. True) d + int (a_bytes a) > max_total_artifact_bytes
               then Inl ArtifactQuotaError
             else insert_artifact a replayable d)))"

record artifact_spec =
  ap_id :: "id option"
  ap_run :: id
  ap_kind :: string
  ap_title :: string
  ap_content_type :: string
  ap_call :: "string option"
  ap_tool :: "string option"
  ap_metadata :: dict

text \<open>\<open>artifact_id or _new_id("art")\<close>\<close>

definition artifact_identity :: "id option \<Rightarrow> db \<Rightarrow> id \<times> db" where
  "artifact_identity i d = (case i of None \<Rightarrow> new_id ''art'' d | Some x \<Rightarrow> if x = [] then new_id ''art'' d else (x, d))"

definition artifact_of :: "artifact_spec \<Rightarrow> id \<Rightarrow> string \<Rightarrow> nat \<Rightarrow> string \<Rightarrow> string option \<Rightarrow> string \<Rightarrow> time \<Rightarrow> artifact_row" where
  "artifact_of p i content bytes storage blob sha now =
     \<lparr>a_id = i, a_run = ap_run p, a_kind = ap_kind p, a_title = ap_title p, a_content = content,
      a_content_type = ap_content_type p, a_bytes = bytes, a_storage = storage, a_blob = blob,
      a_sha = sha, a_call = ap_call p, a_tool = ap_tool p,
      a_metadata = encode_payload (JObj (ap_metadata p)), a_created = now\<rparr>"

definition create_artifact ::
    "ctx \<Rightarrow> (string \<Rightarrow> string) \<Rightarrow> artifact_spec \<Rightarrow> string \<Rightarrow> db \<Rightarrow> (artifact_row \<times> db) res" where
  "create_artifact c sha256 p content d =
    (let (i, d1) = artifact_identity (ap_id p) d;
         a = artifact_of p i content (utf8_length content) ''inline_text'' None (sha256 content) (x_clock c 1)
     in if int (a_bytes a) > max_artifact_bytes then Inl ArtifactQuotaError
        else create_artifact_record c a (ap_id p \<noteq> None) d1)"

text \<open>
  \<open>_promote_blob_body\<close>: the source file is read in chunks (their contents are a parameter, the
  host's file system) and moved to the place its digest names. The blob root is a map from keys to
  entries; a temporary file leaves no trace in it on any path.
\<close>

record blob_entry =
  be_regular :: bool
  be_body :: string

type_synonym blob_root = "string \<Rightarrow> blob_entry option"

definition max_blob_artifact_bytes :: int where
  "max_blob_artifact_bytes = 2 * 1024 * 1024 * 1024"

definition max_run_input_bytes :: int where
  "max_run_input_bytes = 200 * 1024 * 1024"

fun copy_chunks :: "int \<Rightarrow> store_error \<Rightarrow> string \<Rightarrow> string list \<Rightarrow> string res" where
  "copy_chunks limit quota body [] = Inr body"
| "copy_chunks limit quota body (chunk # chunks) =
     (if int (length body) + int (length chunk) > limit then Inl quota
      else copy_chunks limit quota (body @ chunk) chunks)"

definition blob_key :: "string \<Rightarrow> string" where
  "blob_key digest = ''sha256/'' @ take 2 digest @ ''/'' @ digest"

definition promote_blob_body ::
    "(string \<Rightarrow> string) \<Rightarrow> int \<Rightarrow> store_error \<Rightarrow> store_error \<Rightarrow> bool \<Rightarrow> string list \<Rightarrow> string option \<Rightarrow>
     blob_root \<Rightarrow> ((nat \<times> string \<times> string) \<times> blob_root) res" where
  "promote_blob_body sha256 limit conflict quota regular chunks expected root =
    (if \<not> regular then Inl conflict
     else bindr (copy_chunks limit quota [] chunks) (\<lambda>body.
       (let digest = sha256 body; key = blob_key digest
        in if expected \<noteq> None \<and> expected \<noteq> Some digest then Inl conflict
           else (case root key of
                   Some e \<Rightarrow>
                     if \<not> be_regular e then Inl conflict
                     else if length (be_body e) \<noteq> length body \<or> sha256 (be_body e) \<noteq> digest then Inl conflict
                     else Inr ((length body, digest, key), root)
                 | None \<Rightarrow> Inr ((length body, digest, key), root(key \<mapsto> \<lparr>be_regular = True, be_body = body\<rparr>))))))"

definition promote_artifact_body ::
    "(string \<Rightarrow> string) \<Rightarrow> bool \<Rightarrow> string list \<Rightarrow> string option \<Rightarrow> blob_root \<Rightarrow> ((nat \<times> string \<times> string) \<times> blob_root) res" where
  "promote_artifact_body sha256 = promote_blob_body sha256 max_blob_artifact_bytes ArtifactConflictError ArtifactQuotaError"

definition prepare_run_input_body ::
    "(string \<Rightarrow> string) \<Rightarrow> bool \<Rightarrow> string list \<Rightarrow> blob_root \<Rightarrow> ((nat \<times> string \<times> string) \<times> blob_root) res" where
  "prepare_run_input_body sha256 regular chunks =
     promote_blob_body sha256 max_run_input_bytes RunInputSnapshotError RunInputQuotaError regular chunks None"

text \<open>\<open>promoted\<close> is what the promotion of the source file returned.\<close>

definition create_file_artifact ::
    "ctx \<Rightarrow> (nat \<times> string \<times> string) res \<Rightarrow> artifact_spec \<Rightarrow> db \<Rightarrow> (artifact_row \<times> db) res" where
  "create_file_artifact c promoted p d =
    bindr promoted (\<lambda>(bytes, digest, blob).
      (let (i, d1) = artifact_identity (ap_id p) d;
           a = artifact_of p i [] bytes ''blob'' (Some blob) digest (x_clock c 1)
       in create_artifact_record c a (ap_id p \<noteq> None) d1))"

text \<open>\<open>_stored_blob_path\<close>: the body a row's key names, checked against the row's size.\<close>

fun split_path :: "string \<Rightarrow> string \<Rightarrow> string list" where
  "split_path w [] = [rev w]"
| "split_path w (c # cs) = (if c = CHR ''/'' then rev w # split_path [] cs else split_path (c # w) cs)"

text \<open>The parts of a \<open>PurePosixPath\<close>: empty and \<open>.\<close> segments vanish, \<open>..\<close> stays.\<close>

definition path_parts :: "string \<Rightarrow> string list" where
  "path_parts s = filter (\<lambda>x. x \<noteq> [] \<and> x \<noteq> ''.'') (split_path [] s)"

definition stored_blob :: "store_error \<Rightarrow> string option \<Rightarrow> nat \<Rightarrow> blob_root \<Rightarrow> string res" where
  "stored_blob err key bytes root =
    (case key of
       None \<Rightarrow> Inl err
     | Some k \<Rightarrow>
        if starts_with ''/'' k \<or> ''..'' \<in> set (path_parts k) then Inl err
        else (case root (join_with ''/'' (path_parts k)) of
                None \<Rightarrow> Inl err
              | Some e \<Rightarrow> if \<not> be_regular e \<or> length (be_body e) \<noteq> bytes then Inl err else Inr (be_body e)))"

definition artifact_body :: "artifact_row \<Rightarrow> blob_root \<Rightarrow> string res" where
  "artifact_body a root =
    (if a_storage a \<noteq> ''blob'' \<or> a_blob a = None then Inl ArtifactConflictError
     else stored_blob ArtifactConflictError (a_blob a) (a_bytes a) root)"

definition run_input_body :: "input_row \<Rightarrow> blob_root \<Rightarrow> string res" where
  "run_input_body i root = stored_blob RunInputSnapshotError (Some (in_blob i)) (in_bytes i) root"

definition list_run_inputs :: "id \<Rightarrow> db \<Rightarrow> input_row list" where
  "list_run_inputs run d = filter (\<lambda>i. in_run i = run) (db_inputs d)"

text \<open>A promotion adds at most its own entry, and the entry has the digest its key names.\<close>

definition content_addressed :: "(string \<Rightarrow> string) \<Rightarrow> blob_root \<Rightarrow> bool" where
  "content_addressed sha256 root \<longleftrightarrow> (\<forall>k e. root k = Some e \<longrightarrow> k = blob_key (sha256 (be_body e)))"

lemma copy_chunks_body:
  assumes "copy_chunks limit quota body chunks = Inr b"
  shows "b = body @ concat chunks" "int (length body) \<le> limit \<Longrightarrow> int (length b) \<le> limit"
  using assms by (induction limit quota body chunks rule: copy_chunks.induct) (auto split: if_splits)

lemma promote_blob_body_inv:
  assumes "promote_blob_body h limit conflict quota regular chunks expected root = Inr ((n, digest, key), root')"
  shows "copy_chunks limit quota [] chunks = Inr (concat chunks)"
    "digest = h (concat chunks)" "key = blob_key digest" "n = length (concat chunks)"
    "expected \<noteq> None \<Longrightarrow> expected = Some digest"
    "root' = root \<or> root key = None \<and> root' = root(key \<mapsto> \<lparr>be_regular = True, be_body = concat chunks\<rparr>)"
    "\<exists>e. root' key = Some e \<and> be_regular e \<and> length (be_body e) = n \<and> h (be_body e) = digest"
  using assms by (auto simp: promote_blob_body_def Let_def bindr_Inr_iff
      dest: copy_chunks_body(1) split: if_splits option.splits)

lemma promote_limit:
  assumes "promote_blob_body h limit conflict quota regular chunks expected root = Inr ((n, digest, key), root')" "0 \<le> limit"
  shows "int n \<le> limit"
  using promote_blob_body_inv [OF assms(1)] copy_chunks_body(2) [of limit quota "[]" chunks] assms(2) by simp

lemma promote_content_addressed:
  assumes "promote_blob_body h limit conflict quota regular chunks expected root = Inr ((n, digest, key), root')"
    and "content_addressed h root"
  shows "content_addressed h root'"
  using promote_blob_body_inv(2,3,6) [OF assms(1)] assms(2)
  by (auto simp: content_addressed_def split: if_splits)

text \<open>The key of a digest without separators is a path of three parts.\<close>

definition hex_digest :: "string \<Rightarrow> bool" where
  "hex_digest s \<longleftrightarrow> 2 \<le> length s \<and> list_all (\<lambda>c. c \<noteq> CHR ''/'' \<and> c \<noteq> CHR ''.'') s"

lemma split_path_segment:
  "CHR ''/'' \<notin> set a \<Longrightarrow> split_path w (a @ CHR ''/'' # b) = (rev w @ a) # split_path [] b"
  "CHR ''/'' \<notin> set a \<Longrightarrow> split_path w a = [rev w @ a]"
  by (induction a arbitrary: w) auto

lemma blob_key_path:
  assumes "hex_digest s"
  shows "path_parts (blob_key s) = [''sha256'', take 2 s, s]" "join_with ''/'' (path_parts (blob_key s)) = blob_key s"
    "\<not> starts_with ''/'' (blob_key s)" "''..'' \<notin> set (path_parts (blob_key s))"
proof -
  have chars: "CHR ''/'' \<notin> set s" "CHR ''.'' \<notin> set s" "CHR ''/'' \<notin> set (take 2 s)" "CHR ''.'' \<notin> set (take 2 s)"
    using assms by (auto simp: hex_digest_def list_all_iff dest: in_set_takeD)
  have ne: "s \<noteq> []" "take 2 s \<noteq> []" using assms by (auto simp: hex_digest_def)
  have dots: "s \<noteq> ''.''" "take 2 s \<noteq> ''.''" "s \<noteq> ''..''" "take 2 s \<noteq> ''..''" using chars by auto
  have "split_path [] (blob_key s) = [''sha256'', take 2 s, s]"
    using split_path_segment(1) [of "''sha256''" "[]"] split_path_segment(1) [of "take 2 s" "[]" s]
      split_path_segment(2) [of s "[]"] chars by (simp add: blob_key_def)
  then show parts: "path_parts (blob_key s) = [''sha256'', take 2 s, s]" using ne dots by (simp add: path_parts_def)
  show "join_with ''/'' (path_parts (blob_key s)) = blob_key s" unfolding parts by (simp add: blob_key_def)
  show "\<not> starts_with ''/'' (blob_key s)" by (simp add: starts_with_def blob_key_def)
  show "''..'' \<notin> set (path_parts (blob_key s))" unfolding parts using dots by auto
qed

subsection \<open>The limits are kept\<close>

definition artifact_quota_ok :: "db \<Rightarrow> bool" where
  "artifact_quota_ok d \<longleftrightarrow>
     (\<forall>run. bytes_where (\<lambda>a. a_run a = run) d \<le> max_run_artifact_bytes) \<and>
     (\<forall>owner. bytes_where (owned_artifact d owner) d \<le> max_principal_artifact_bytes) \<and>
     bytes_where (\<lambda>_. True) d \<le> max_total_artifact_bytes"

lemma artifact_identity_frame [simp]:
  "db_artifacts (snd (artifact_identity i d)) = db_artifacts d"
  "db_runs (snd (artifact_identity i d)) = db_runs d"
  by (auto simp: artifact_identity_def new_id_def split: option.splits)

lemma quota_cong:
  "db_artifacts d' = db_artifacts d \<Longrightarrow> db_runs d' = db_runs d \<Longrightarrow> artifact_quota_ok d' = artifact_quota_ok d"
  by (simp add: artifact_quota_ok_def bytes_where_def owned_artifact_def [abs_def] get_run_row_def)

lemma bytes_where_insert:
  assumes "db_artifacts d' = db_artifacts d @ [a]"
  shows "bytes_where p d' = bytes_where p d + (if p a then int (a_bytes a) else 0)"
  by (simp add: bytes_where_def assms)

text \<open>A creation returns the kept artifact, or appends one that passes the three limits.\<close>

lemma create_artifact_record_cases:
  assumes "create_artifact_record c a replayable d = Inr (x, d')"
  obtains (kept) "replayable" "get_artifact (a_id a) d = Some x" "same_artifact x a" "d' = d"
  | (created) r where "get_run_row d (a_run a) = Some r" "x = a" "get_artifact (a_id a) d = None"
      "bytes_where (\<lambda>x. a_run x = a_run a) d + int (a_bytes a) \<le> max_run_artifact_bytes"
      "bytes_where (owned_artifact d (r_principal r)) d + int (a_bytes a) \<le> max_principal_artifact_bytes"
      "bytes_where (\<lambda>_. True) d + int (a_bytes a) \<le> max_total_artifact_bytes"
      "d' = d\<lparr>db_artifacts := db_artifacts d @ [a]\<rparr>"
proof (cases "get_artifact (a_id a) d")
  case None
  then show thesis
    using assms created
    by (auto simp: create_artifact_record_def run_write_transaction_Inr insert_artifact_def
        split: option.splits if_splits)
next
  case (Some y)
  then show thesis
    using assms kept
    by (auto simp: create_artifact_record_def run_write_transaction_Inr insert_artifact_def
        reconcile_replay_def split: option.splits if_splits)
qed

lemma create_artifact_record_quota:
  assumes "create_artifact_record c a replayable d = Inr (x, d')" "artifact_quota_ok d"
  shows "artifact_quota_ok d'"
  using assms(1)
proof (cases rule: create_artifact_record_cases)
  case kept
  then show ?thesis using assms(2) by simp
next
  case (created r)
  have b: "bytes_where p d' = bytes_where p d + (if p a then int (a_bytes a) else 0)" for p
    by (rule bytes_where_insert) (simp add: created)
  have o: "owned_artifact d' owner = owned_artifact d owner" for owner
    by (simp add: fun_eq_iff owned_artifact_def get_run_row_def created)
  have mine: "owned_artifact d owner a \<longleftrightarrow> owner = r_principal r" for owner
    using created(1) by (auto simp: owned_artifact_def)
  show ?thesis
    using assms(2) created(4-6) unfolding artifact_quota_ok_def b o mine by auto
qed

lemma create_artifact_inv:
  assumes "create_artifact c h p content d = Inr (x, d')"
  shows "create_artifact_record c
    (artifact_of p (fst (artifact_identity (ap_id p) d)) content (utf8_length content) ''inline_text'' None (h content) (x_clock c 1))
    (ap_id p \<noteq> None) (snd (artifact_identity (ap_id p) d)) = Inr (x, d')" "int (utf8_length content) \<le> max_artifact_bytes"
  using assms by (auto simp: create_artifact_def Let_def case_prod_beta artifact_of_def split: if_splits)

lemma create_file_artifact_inv:
  assumes "create_file_artifact c promoted p d = Inr (x, d')"
  obtains a where "create_artifact_record c a (ap_id p \<noteq> None) (snd (artifact_identity (ap_id p) d)) = Inr (x, d')"
  using assms that by (auto simp: create_file_artifact_def Let_def case_prod_beta bindr_Inr_iff)

inductive artifact_op :: "db \<Rightarrow> db \<Rightarrow> bool" where
  of_text: "create_artifact c h p content d = Inr (x, d') \<Longrightarrow> artifact_op d d'"
| of_file: "create_file_artifact c promoted p d = Inr (x, d') \<Longrightarrow> artifact_op d d'"

lemma artifact_op_record:
  assumes "artifact_op d d'"
  obtains c a b d1 x where "create_artifact_record c a b d1 = Inr (x, d')"
    "db_artifacts d1 = db_artifacts d" "db_runs d1 = db_runs d"
  using assms
proof cases
  case (of_text c h p content x)
  show thesis by (rule that [OF create_artifact_inv(1) [OF of_text]]) simp_all
next
  case (of_file c promoted p x)
  then obtain a where "create_artifact_record c a (ap_id p \<noteq> None) (snd (artifact_identity (ap_id p) d)) = Inr (x, d')"
    by (rule create_file_artifact_inv)
  then show thesis by (rule that) simp_all
qed

subsection \<open>Properties\<close>

text \<open>C16: the byte limits hold. Whatever artifacts are created, from text or from files, by whom and in
  which order, no run, no owner and not the store as a whole ever keep more bytes than their
  limit.\<close>

theorem artifact_limits_hold:
  assumes "artifact_op\<^sup>*\<^sup>* d d'" "artifact_quota_ok d"
  shows "artifact_quota_ok d'"
  using assms
proof (induction rule: rtranclp_induct)
  case base
  then show ?case .
next
  case (step y z)
  from step.hyps(2) show ?case
  proof (rule artifact_op_record)
    fix c a b d1 x assume r: "create_artifact_record c a b d1 = Inr (x, z)"
      "db_artifacts d1 = db_artifacts y" "db_runs d1 = db_runs y"
    have "artifact_quota_ok d1" using step.IH [OF step.prems] quota_cong [OF r(2,3)] by simp
    then show ?thesis by (rule create_artifact_record_quota [OF r(1)])
  qed
qed

definition note_spec :: artifact_spec where
  "note_spec = \<lparr>ap_id = Some ''art_1'', ap_run = ''run_1'', ap_kind = ''note'', ap_title = ''t'',
     ap_content_type = ''text/plain'', ap_call = None, ap_tool = None, ap_metadata = []\<rparr>"

theorem artifact_limits_hold_witness:
  "returns (create_artifact demo_ctx id note_spec ''hello'' demo_db) (\<lambda>(_, d). artifact_quota_ok d \<and> db_artifacts d \<noteq> [])"
proof -
  have "returns (create_artifact demo_ctx id note_spec ''hello'' demo_db) (\<lambda>(_, d). db_artifacts d \<noteq> [])"
    by code_simp
  then obtain x d where d: "create_artifact demo_ctx id note_spec ''hello'' demo_db = Inr (x, d)" "db_artifacts d \<noteq> []"
    by (auto simp: returns_iff)
  have "artifact_quota_ok demo_db"
    by (simp add: artifact_quota_ok_def bytes_where_def demo_db_def empty_db_def max_run_artifact_bytes_def
        max_principal_artifact_bytes_def max_total_artifact_bytes_def)
  moreover have "artifact_op\<^sup>*\<^sup>* demo_db d"
    using artifact_op.of_text [OF d(1)] by (rule r_into_rtranclp [where r = artifact_op])
  ultimately have "artifact_quota_ok d" using artifact_limits_hold by blast
  then show ?thesis using d by simp
qed

text \<open>an artifact with an id is created once. Repeating a creation under the same id returns the
  artifact that was kept and changes nothing; other content under that id is refused.\<close>

theorem artifact_is_created_once:
  assumes "create_artifact c h p content d = Inr (x, d')" "ap_id p = Some i" "i \<noteq> []"
    and "admitted c' None (ap_run p) d'"
  shows "create_artifact c' h p content d' = Inr (x, d') \<and> a_content x = content \<and> get_artifact i d' = Some x \<and>
    (\<forall>other. other \<noteq> content \<longrightarrow> create_artifact c' h p other d' \<in> {Inl ArtifactConflictError, Inl ArtifactQuotaError})"
proof -
  have ident: "artifact_identity (ap_id p) e = (i, e)" for e using assms(2,3) by (simp add: artifact_identity_def)
  let ?a = "\<lambda>now. artifact_of p i content (utf8_length content) ''inline_text'' None (h content) now"
  note r = create_artifact_inv [OF assms(1), unfolded ident fst_conv snd_conv]
  have kept: "get_artifact i d' = Some x \<and> same_artifact x (?a (x_clock c 1))"
    using r(1)
  proof (cases rule: create_artifact_record_cases)
    case kept
    then show ?thesis by (simp add: artifact_of_def)
  next
    case (created r)
    then show ?thesis by (simp add: get_artifact_def artifact_of_def same_artifact_def find_append)
  qed
  have same: "same_artifact x (?a now)" for now
    using kept same_artifact_created [of x now "?a (x_clock c 1)"] by (simp add: artifact_of_def del: encode_payload.simps)
  have content: "a_content x = content"
    using kept same_artifact_content by (fastforce simp: artifact_of_def simp del: encode_payload.simps)
  have differs: "\<not> same_artifact x (artifact_of p i other (utf8_length other) ''inline_text'' None (h other) now)"
    if "other \<noteq> content" for other now
    using that content same_artifact_content by (fastforce simp: artifact_of_def simp del: encode_payload.simps)
  show ?thesis
    using kept same content differs r(2) assms(2,4)
    by (auto simp: create_artifact_def ident [unfolded assms(2)] Let_def create_artifact_record_def run_write_transaction_eq
        reconcile_replay_def artifact_of_def simp del: encode_payload.simps)
qed

theorem artifact_is_created_once_witness:
  "returns (create_artifact demo_ctx id note_spec ''hello'' demo_db)
     (\<lambda>(x, d). create_artifact free_ctx id note_spec ''hello'' d = Inr (x, d))"
proof -
  have "returns (create_artifact demo_ctx id note_spec ''hello'' demo_db) (\<lambda>_. True)" by code_simp
  then obtain x d where d: "create_artifact demo_ctx id note_spec ''hello'' demo_db = Inr (x, d)"
    by (auto simp: returns_iff)
  have "admitted free_ctx None (ap_run note_spec) d" by (simp add: admitted_def active_lease_def free_ctx_def)
  with artifact_is_created_once [OF d, of "''art_1''"] d show ?thesis by (simp add: note_spec_def)
qed

lemma create_file_artifact_fields:
  assumes "create_file_artifact c (Inr (n, digest, key)) p d = Inr (x, d')"
  shows "a_storage x = ''blob'' \<and> a_blob x = Some key \<and> a_bytes x = n \<and> a_sha x = digest"
proof -
  let ?a = "artifact_of p (fst (artifact_identity (ap_id p) d)) [] n ''blob'' (Some key) digest (x_clock c 1)"
  have "create_artifact_record c ?a (ap_id p \<noteq> None) (snd (artifact_identity (ap_id p) d)) = Inr (x, d')"
    using assms by (simp add: create_file_artifact_def Let_def case_prod_beta)
  then have "same_artifact x ?a"
    by (cases rule: create_artifact_record_cases) (simp_all add: same_artifact_def artifact_of_def)
  then have "x\<lparr>a_id := a_id ?a, a_created := a_created ?a\<rparr> = ?a" by (simp add: same_artifact_def)
  then have "a_storage x = a_storage ?a" "a_blob x = a_blob ?a" "a_bytes x = a_bytes ?a" "a_sha x = a_sha ?a"
    by (cases x; simp add: artifact_of_def del: encode_payload.simps)+
  then show ?thesis by (simp add: artifact_of_def)
qed

text \<open>C17: a stored file is read back. The body that \<open>artifact_body_path\<close> finds for an artifact recorded from
  a promoted file has the digest and the size of the file, and is the file's content when the blob
  was not in the store before; a later reader never gets a path error.\<close>

theorem stored_file_is_read_back:
  assumes "promote_artifact_body h regular chunks expected root = Inr (promoted, root')"
    and "create_file_artifact c (Inr promoted) p d = Inr (x, d')"
    and "hex_digest (h (concat chunks))"
  shows "\<exists>body. artifact_body x root' = Inr body \<and> h body = h (concat chunks) \<and> a_sha x = h body \<and>
    length body = length (concat chunks) \<and> a_bytes x = length body \<and> (root = root' \<or> body = concat chunks)"
proof -
  obtain n digest key where m: "promoted = (n, digest, key)" by (cases promoted)
  note inv = promote_blob_body_inv [OF assms(1) [unfolded promote_artifact_body_def m]]
  note f = create_file_artifact_fields [OF assms(2) [unfolded m]]
  obtain e where e: "root' key = Some e" "be_regular e" "length (be_body e) = n" "h (be_body e) = digest"
    using inv(7) by blast
  have "artifact_body x root' = Inr (be_body e)"
    using f e inv(2,3) blob_key_path [OF assms(3)] by (simp add: artifact_body_def stored_blob_def)
  moreover have "root = root' \<or> be_body e = concat chunks" using inv(6) e(1) by auto
  ultimately show ?thesis using f e inv(2,4) by auto
qed

theorem stored_file_is_read_back_witness:
  "returns (bindr (promote_artifact_body (\<lambda>s. ''ab12'') True [''some '', ''bytes''] None Map.empty) (\<lambda>(m, root).
      bindr (create_file_artifact demo_ctx (Inr m) note_spec demo_db) (\<lambda>(x, d). artifact_body x root)))
    (\<lambda>body. body = ''some bytes'')"
proof -
  let ?h = "\<lambda>s :: string. ''ab12''"
  have "promote_artifact_body ?h True [''some '', ''bytes''] None Map.empty =
      Inr ((10, ''ab12'', blob_key ''ab12''), [blob_key ''ab12'' \<mapsto> \<lparr>be_regular = True, be_body = ''some bytes''\<rparr>])"
    by (simp add: promote_artifact_body_def promote_blob_body_def max_blob_artifact_bytes_def Let_def eval_nat_numeral)
  note p = this
  have "returns (create_file_artifact demo_ctx (Inr (10, ''ab12'', blob_key ''ab12'')) note_spec demo_db) (\<lambda>_. True)"
    by code_simp
  then obtain x d where x: "create_file_artifact demo_ctx (Inr (10, ''ab12'', blob_key ''ab12'')) note_spec demo_db = Inr (x, d)"
    by (auto simp: returns_iff)
  have "hex_digest (?h (concat [''some '', ''bytes'']))" by (simp add: hex_digest_def)
  moreover have "Map.empty \<noteq> [blob_key ''ab12'' \<mapsto> \<lparr>be_regular = True, be_body = ''some bytes''\<rparr>]"
    by (metis fun_upd_same option.distinct(1))
  ultimately show ?thesis using stored_file_is_read_back [where h = ?h, OF p x] by (auto simp: p x)
qed

end
