(* ===== verification/Team_Graph.thy ===== *)
theory Team_Graph
  imports Team_Plan Artifacts
begin

text \<open>
  The team workflow of agent/team_graph.py: the rounds of a team run (route the assignments whose
  dependencies have findings, run their members, merge the findings), the projection of a member's
  answer to a finding, the roster, and the \<open>team.run\<close> tool with its checkpoint. LangGraph runs the
  nodes the source connects: the members of one round start from the same findings, their updates
  go through the reducer one by one, and \<open>limit\<close> bounds the rounds (its recursion limit). A member's
  invocation is a parameter; its effect on the database is threaded through the round in the order
  of dispatch.
\<close>

subsection \<open>Findings\<close>

record team_finding =
  tf_id :: string
  tf_member :: string
  tf_kind :: string
  tf_summary :: string
  tf_artifact :: "string option"

datatype graph_error =
    PlanInvalid team_error
  | NoProgress
  | ConflictingReplay string
  | FindingTooLarge string
  | ArtifactIdentity string
  | MissingContext
  | StoreFailed store_error
  | MemberFailed string
  | UnknownAssignment string
  | RecursionLimit
  | PlanMismatch

definition map_error :: "('e \<Rightarrow> 'f) \<Rightarrow> 'e + 'a \<Rightarrow> 'f + 'a" where
  "map_error f m = (case m of Inl e \<Rightarrow> Inl (f e) | Inr x \<Rightarrow> Inr x)"

lemma map_error_simps [simp]: "map_error f (Inl e) = Inl (f e)" "map_error f (Inr x) = Inr x"
  by (simp_all add: map_error_def)

lemma map_error_Inr [simp]: "map_error f m = Inr x \<longleftrightarrow> m = Inr x"
  by (cases m) simp_all

text \<open>\<open>_merge_findings\<close>, the reducer of the findings channel.\<close>

definition merge_update :: "team_finding \<Rightarrow> (string \<times> team_finding) list \<Rightarrow> graph_error + (string \<times> team_finding) list" where
  "merge_update f merged =
    (case map_of merged (tf_id f) of
       None \<Rightarrow> Inr (dset (tf_id f) f merged)
     | Some prior \<Rightarrow> if prior \<noteq> f then Inl (ConflictingReplay (tf_id f)) else Inr (dset (tf_id f) f merged))"

definition merge_findings :: "team_finding list \<Rightarrow> team_finding list \<Rightarrow> graph_error + team_finding list" where
  "merge_findings existing updates =
    bindr (foldr_res merge_update updates (dict_of tf_id (\<lambda>f. f) existing))
      (\<lambda>merged. Inr (map snd (sort_key fst merged)))"

subsection \<open>A member's prompt and its finding\<close>

fun output_kind_text :: "output_kind \<Rightarrow> string" where
  "output_kind_text OutFinding = ''finding''"
| "output_kind_text OutClaim = ''claim''"
| "output_kind_text OutReview = ''review''"

definition finding_json :: "team_finding \<Rightarrow> json" where
  "finding_json f = JObj [(''assignment_id'', JStr (tf_id f)), (''member'', JStr (tf_member f)),
     (''kind'', JStr (tf_kind f)), (''summary'', JStr (tf_summary f)),
     (''artifact_id'', json_opt (tf_artifact f))]"

definition newline :: string where
  "newline = [CHR 0x0A]"

definition member_prompt :: "string \<Rightarrow> team_assignment \<Rightarrow> team_finding list \<Rightarrow> string" where
  "member_prompt objective a deps = join_with (newline @ newline)
     ([''Team objective:'' @ newline @ objective,
       ''Your assignment ('' @ output_kind_text (ta_kind a) @ ''):'' @ newline @ ta_task a] @
      (if deps = [] then [] else
        [''Dependency findings (summaries and Artifact references only):'' @ newline @
         json_dumps '', '' '': '' (encode_payload (JList (map finding_json deps)))]) @
      [''Return one self-contained final summary. Do not include hidden reasoning or raw scratch work.''])"

text \<open>What a team run works with: its operation, the run and lease, SHA-256, and the member task.\<close>

record team_env =
  te_ctx :: ctx
  te_run :: id
  te_namespace :: string
  te_sha :: "string \<Rightarrow> string"
  te_invoke :: "team_assignment \<Rightarrow> string \<Rightarrow> db \<Rightarrow> graph_error + string \<times> db"

definition max_inline_finding_bytes :: int where
  "max_inline_finding_bytes = 64 * 1024"

definition max_finding_preview_chars :: nat where
  "max_finding_preview_chars = 8000"

definition py_rstrip :: "string \<Rightarrow> string" where
  "py_rstrip s = rev (dropWhile is_space (rev s))"

definition finding_artifact_id :: "team_env \<Rightarrow> team_assignment \<Rightarrow> id" where
  "finding_artifact_id v a = ''art_team_'' @ take 32 (te_sha v (te_namespace v @ CHR 0x00 # ta_id a))"

definition finding_artifact_spec :: "team_env \<Rightarrow> team_assignment \<Rightarrow> artifact_spec" where
  "finding_artifact_spec v a =
     \<lparr>ap_id = Some (finding_artifact_id v a), ap_run = te_run v, ap_kind = ''team_finding'',
      ap_title = ta_member a @ '': '' @ ta_id a, ap_content_type = ''text/plain'', ap_call = None,
      ap_tool = Some ''team.run'',
      ap_metadata = [(''team_namespace'', JStr (te_namespace v)), (''assignment_id'', JStr (ta_id a)),
        (''member'', JStr (ta_member a)), (''output_kind'', JStr (output_kind_text (ta_kind a)))]\<rparr>"

definition finding_of :: "team_assignment \<Rightarrow> string \<Rightarrow> string option \<Rightarrow> team_finding" where
  "finding_of a summary artifact = \<lparr>tf_id = ta_id a, tf_member = ta_member a,
     tf_kind = output_kind_text (ta_kind a), tf_summary = summary, tf_artifact = artifact\<rparr>"

definition artifact_finding :: "team_assignment \<Rightarrow> string \<Rightarrow> id \<Rightarrow> team_finding" where
  "artifact_finding a summary i = finding_of a
     (py_rstrip (take max_finding_preview_chars summary) @ newline @ newline @
      ''[Full finding: Artifact '' @ i @ '']'') (Some i)"

definition stored_finding :: "team_env \<Rightarrow> team_assignment \<Rightarrow> string \<Rightarrow> db \<Rightarrow> graph_error + (artifact_row \<times> string) \<times> db" where
  "stored_finding v a summary d =
    (case get_artifact (finding_artifact_id v a) d of
       None \<Rightarrow> bindr (map_error StoreFailed (create_artifact (te_ctx v) (te_sha v) (finding_artifact_spec v a) summary d))
                (\<lambda>(x, d1). Inr ((x, summary), d1))
     | Some x \<Rightarrow> if a_run x \<noteq> te_run v \<or> a_kind x \<noteq> ''team_finding'' then Inl (ArtifactIdentity (ta_id a))
                 else Inr ((x, a_content x), d))"

definition project_finding :: "team_env \<Rightarrow> team_assignment \<Rightarrow> string \<Rightarrow> db \<Rightarrow> graph_error + team_finding \<times> db" where
  "project_finding v a summary d =
    (if int (utf8_length summary) \<le> max_inline_finding_bytes then Inr (finding_of a summary None, d)
     else if int (utf8_length summary) > max_artifact_bytes then Inl (FindingTooLarge (ta_id a))
     else if te_run v = [] then Inl MissingContext
     else bindr (stored_finding v a summary d)
            (\<lambda>((x, kept), d1). Inr (artifact_finding a kept (a_id x), d1)))"

definition run_member :: "team_env \<Rightarrow> string \<Rightarrow> team_assignment \<Rightarrow> team_finding list \<Rightarrow> db \<Rightarrow> graph_error + team_finding \<times> db" where
  "run_member v objective a deps d =
    bindr (te_invoke v a (member_prompt objective a deps) d) (\<lambda>(summary, d1). project_finding v a summary d1)"

subsection \<open>Rounds\<close>

datatype team_route = RouteFinish | RouteStuck | RouteSends "(team_assignment \<times> team_finding list) list"

definition ready_assignments :: "team_assignment list \<Rightarrow> team_finding list \<Rightarrow> team_assignment list" where
  "ready_assignments plan fs = filter (\<lambda>a. ta_id a \<notin> tf_id ` set fs \<and> set (ta_depends a) \<subseteq> tf_id ` set fs) plan"

definition dependency_findings :: "team_finding list \<Rightarrow> team_assignment \<Rightarrow> team_finding list" where
  "dependency_findings fs a = List.map_filter (map_of (dict_of tf_id (\<lambda>f. f) fs)) (ta_depends a)"

definition route_dispatch :: "team_assignment list \<Rightarrow> team_finding list \<Rightarrow> team_route" where
  "route_dispatch plan fs =
    (if length (remdups (map tf_id fs)) = length plan then RouteFinish
     else if ready_assignments plan fs = [] then RouteStuck
     else RouteSends (map (\<lambda>a. (a, dependency_findings fs a)) (ready_assignments plan fs)))"

fun run_members ::
    "(team_assignment \<Rightarrow> team_finding list \<Rightarrow> db \<Rightarrow> graph_error + team_finding \<times> db) \<Rightarrow>
     (team_assignment \<times> team_finding list) list \<Rightarrow> db \<Rightarrow> graph_error + team_finding list \<times> db" where
  "run_members member [] d = Inr ([], d)"
| "run_members member ((a, deps) # sends) d =
     bindr (member a deps d) (\<lambda>(f, d1). bindr (run_members member sends d1) (\<lambda>(fs, d2). Inr (f # fs, d2)))"

text \<open>Each member's \<open>Command(update={"findings": [finding]})\<close> goes through the reducer.\<close>

definition apply_findings :: "team_finding list \<Rightarrow> team_finding list \<Rightarrow> graph_error + team_finding list" where
  "apply_findings new fs = foldr_res (\<lambda>f acc. merge_findings acc [f]) new fs"

fun team_loop ::
    "(team_assignment \<Rightarrow> team_finding list \<Rightarrow> db \<Rightarrow> graph_error + team_finding \<times> db) \<Rightarrow>
     team_assignment list \<Rightarrow> nat \<Rightarrow> team_finding list \<Rightarrow> db \<Rightarrow> graph_error + team_finding list \<times> db" where
  "team_loop member plan 0 fs d = Inl RecursionLimit"
| "team_loop member plan (Suc n) fs d =
     (case route_dispatch plan fs of
        RouteFinish \<Rightarrow> Inr (fs, d)
      | RouteStuck \<Rightarrow> Inl NoProgress
      | RouteSends sends \<Rightarrow>
          bindr (run_members member sends d) (\<lambda>(new, d1).
          bindr (apply_findings new fs) (\<lambda>fs1. team_loop member plan n fs1 d1)))"

subsection \<open>The result\<close>

record team_handoff =
  ho_from :: string
  ho_from_member :: string
  ho_to :: string
  ho_to_member :: string

record team_result =
  tr_objective :: string
  tr_findings :: "team_finding list"
  tr_handoffs :: "team_handoff list"

fun collect_handoffs :: "(string \<times> team_assignment) list \<Rightarrow> (string \<times> team_assignment) list \<Rightarrow> graph_error + team_handoff list" where
  "collect_handoffs known [] = Inr []"
| "collect_handoffs known ((i, t) # xs) =
     (case ta_handoff t of
        None \<Rightarrow> collect_handoffs known xs
      | Some s \<Rightarrow>
          (case map_of known s of
             None \<Rightarrow> Inl (UnknownAssignment s)
           | Some b \<Rightarrow> bindr (collect_handoffs known xs) (\<lambda>hs.
               Inr (\<lparr>ho_from = ta_id b, ho_from_member = ta_member b, ho_to = ta_id t, ho_to_member = ta_member t\<rparr> # hs))))"

definition finish_team :: "team_request \<Rightarrow> team_finding list \<Rightarrow> graph_error + team_result" where
  "finish_team q fs =
    (let known = dict_of ta_id (\<lambda>a. a) (tq_assignments q)
     in bindr (collect_handoffs known known) (\<lambda>hs.
          Inr \<lparr>tr_objective = tq_objective q, tr_findings = sort_key tf_id fs, tr_handoffs = hs\<rparr>))"

subsection \<open>The \<open>team.run\<close> tool\<close>

definition assignment_json :: "team_assignment \<Rightarrow> json" where
  "assignment_json a = JObj [(''id'', JStr (ta_id a)), (''member'', JStr (ta_member a)),
     (''task'', JStr (ta_task a)), (''output_kind'', JStr (output_kind_text (ta_kind a))),
     (''depends_on'', JList (map JStr (ta_depends a))), (''handoff_from'', json_opt (ta_handoff a))]"

definition plan_hash :: "(string \<Rightarrow> string) \<Rightarrow> team_request \<Rightarrow> string" where
  "plan_hash sha256 q = sha256 (json_dumps '','' '':'' (encode_payload
     (JObj [(''objective'', JStr (tq_objective q)), (''assignments'', JList (map assignment_json (tq_assignments q)))])))"

record team_checkpoint =
  tc_plan :: string
  tc_findings :: "team_finding list"
  tc_result :: "team_result option"

definition team_namespace :: "(string \<Rightarrow> string) \<Rightarrow> id \<Rightarrow> string" where
  "team_namespace sha256 operation = ''team_'' @ take 24 (sha256 operation)"

definition team_graph ::
    "team_env \<Rightarrow> team_member list \<Rightarrow> nat \<Rightarrow> team_request \<Rightarrow> team_finding list \<Rightarrow> db \<Rightarrow> graph_error + team_result \<times> db" where
  "team_graph v roster limit q fs d =
    bindr (map_error PlanInvalid (validate_team_request q roster)) (\<lambda>_.
    bindr (team_loop (run_member v (tq_objective q)) (tq_assignments q) limit fs d) (\<lambda>(fs1, d1).
    bindr (finish_team q fs1) (\<lambda>r. Inr (r, d1))))"

text \<open>\<open>arun_team\<close>: \<open>operation\<close> is the tool operation of the call, \<open>saved\<close> the checkpoint of its thread.\<close>

definition run_team ::
    "team_env \<Rightarrow> team_member list \<Rightarrow> nat \<Rightarrow> id option \<Rightarrow> team_checkpoint option \<Rightarrow> team_request \<Rightarrow> db \<Rightarrow>
     graph_error + team_result \<times> db" where
  "run_team v roster limit operation saved q d =
    bindr (map_error PlanInvalid (validate_team_request q roster)) (\<lambda>_.
     if te_run v = [] then Inl MissingContext
     else (case operation of
        None \<Rightarrow> Inl MissingContext
      | Some oper \<Rightarrow>
         (let w = v\<lparr>te_namespace := team_namespace (te_sha v) oper\<rparr>
          in case saved of
               None \<Rightarrow> team_graph w roster limit q [] d
             | Some cp \<Rightarrow>
                 if tc_plan cp \<noteq> plan_hash (te_sha v) q then Inl PlanMismatch
                 else (case tc_result cp of
                         Some r \<Rightarrow> Inr (r, d)
                       | None \<Rightarrow> team_graph w roster limit q (tc_findings cp) d))))"

subsection \<open>The roster\<close>

record subagent =
  su_name :: string
  su_description :: string
  su_tools :: "string list"
  su_blocked :: "string list"

definition subagent_base_tools :: "string list" where
  "subagent_base_tools = [''write_todos'', ''ls'', ''read_file'', ''write_file'', ''edit_file'', ''glob'', ''grep'', ''execute'']"

definition effective_member_tools :: "subagent \<Rightarrow> string list" where
  "effective_member_tools s =
     sort (remdups (filter (\<lambda>t. t \<notin> set (su_blocked s)) (subagent_base_tools @ filter (\<lambda>t. t \<noteq> []) (su_tools s))))"

definition build_team_roster :: "subagent list \<Rightarrow> team_member list" where
  "build_team_roster subs = map (\<lambda>s. \<lparr>tm_name = su_name s, tm_description = su_description s,
     tm_tools = effective_member_tools s,
     tm_handoffs = sort (filter (\<lambda>other. other \<noteq> su_name s) (map su_name subs))\<rparr>) subs"

subsection \<open>The reducer keeps one finding per assignment, in order\<close>

definition findings_ok :: "team_assignment list \<Rightarrow> team_finding list \<Rightarrow> bool" where
  "findings_ok plan fs \<longleftrightarrow> sorted (map tf_id fs) \<and> distinct (map tf_id fs) \<and> tf_id ` set fs \<subseteq> ta_id ` set plan"

lemma map_snd_sorted_pairs:
  assumes "distinct (map k xs)"
  shows "set (map snd (sort_key fst (map (\<lambda>x. (k x, x)) xs))) = set xs"
    "map k (map snd (sort_key fst (map (\<lambda>x. (k x, x)) xs))) = sort (map k xs)"
proof -
  let ?s = "sort_key fst (map (\<lambda>x. (k x, x)) xs)"
  show "set (map snd ?s) = set xs" by force
  have fst: "map k (map snd ?s) = map fst ?s" by (auto intro!: map_cong)
  have "distinct (map fst ?s)" using assms by (auto simp: distinct_map inj_on_def)
  moreover have "sorted (map fst ?s)" by (rule sorted_sort_key)
  moreover have "set (map fst ?s) = set (sort (map k xs))" by force
  ultimately show "map k (map snd ?s) = sort (map k xs)"
    using assms unfolding fst by (intro sorted_distinct_set_unique) simp_all
qed

lemma merge_new_finding:
  assumes "findings_ok plan fs" "tf_id f \<notin> tf_id ` set fs" "tf_id f \<in> ta_id ` set plan"
  shows "\<exists>fs'. merge_findings fs [f] = Inr fs' \<and> set fs' = insert f (set fs) \<and> findings_ok plan fs'"
proof -
  let ?m = "map (\<lambda>x. (tf_id x, x)) (fs @ [f])"
  have d: "distinct (map tf_id fs)" using assms(1) by (simp add: findings_ok_def)
  have dict: "dict_of tf_id (\<lambda>f. f) fs = map (\<lambda>x. (tf_id x, x)) fs" using dict_of_distinct [OF d, of "\<lambda>f. f"] .
  have new: "map_of (map (\<lambda>x. (tf_id x, x)) fs) (tf_id f) = None" "tf_id f \<notin> fst ` set (map (\<lambda>x. (tf_id x, x)) fs)"
    using assms(2) by (auto simp: map_of_eq_None_iff)
  have m: "merge_findings fs [f] = Inr (map snd (sort_key fst ?m))"
    using new by (simp add: merge_findings_def dict merge_update_def dset_new del: set_map)
  have "distinct (map tf_id (fs @ [f]))" using assms(2) d by auto
  note s = map_snd_sorted_pairs [OF this]
  have "findings_ok plan (map snd (sort_key fst ?m))"
    unfolding findings_ok_def s using assms d by (auto simp: findings_ok_def simp del: sort_key_simps)
  then show ?thesis using m s(1) by auto
qed

lemma apply_new_findings:
  assumes "findings_ok plan fs" "distinct (map tf_id new)" "tf_id ` set new \<inter> tf_id ` set fs = {}"
    and "tf_id ` set new \<subseteq> ta_id ` set plan"
  shows "\<exists>fs'. apply_findings new fs = Inr fs' \<and> set fs' = set fs \<union> set new \<and> findings_ok plan fs'"
  using assms
proof (induction new arbitrary: fs)
  case Nil
  then show ?case by (simp add: apply_findings_def)
next
  case (Cons f new)
  obtain fs1 where fs1: "merge_findings fs [f] = Inr fs1" "set fs1 = insert f (set fs)" "findings_ok plan fs1"
    using merge_new_finding [of plan fs f] Cons.prems by auto
  have "tf_id ` set new \<inter> tf_id ` set fs1 = {}" using Cons.prems fs1(2) by auto
  with Cons.IH [OF fs1(3)] Cons.prems obtain fs' where
    "apply_findings new fs1 = Inr fs'" "set fs' = set fs1 \<union> set new" "findings_ok plan fs'" by auto
  then show ?case using fs1 by (auto simp: apply_findings_def)
qed

text \<open>A replayed finding changes nothing; a different one under the same id is refused.\<close>

lemma merge_replay:
  assumes "findings_ok plan fs" "f \<in> set fs"
  shows "merge_findings fs [f] = Inr fs" "g \<noteq> f \<Longrightarrow> tf_id g = tf_id f \<Longrightarrow> merge_findings fs [g] = Inl (ConflictingReplay (tf_id g))"
proof -
  have d: "distinct (map tf_id fs)" "sorted (map tf_id fs)" using assms(1) by (simp_all add: findings_ok_def)
  let ?m = "map (\<lambda>x. (tf_id x, x)) fs"
  have dict: "dict_of tf_id (\<lambda>f. f) fs = ?m" by (rule dict_of_distinct [OF d(1)])
  have found: "map_of ?m (tf_id f) = Some f" using assms(2) d(1) by (force intro!: map_of_is_SomeI simp: comp_def)
  have "dset (tf_id f) f ?m = ?m" using assms(2) d(1)
    by (induction fs) (auto simp: image_iff)
  moreover have "sort_key fst ?m = ?m" using d(2) by (intro sort_key_id_if_sorted) (simp add: comp_def)
  ultimately show "merge_findings fs [f] = Inr fs"
    using found by (simp add: merge_findings_def dict merge_update_def comp_def)
  show "merge_findings fs [g] = Inl (ConflictingReplay (tf_id g))" if "g \<noteq> f" "tf_id g = tf_id f"
    using found that by (simp add: merge_findings_def dict merge_update_def)
qed

subsection \<open>Progress of the rounds\<close>

lemma completed_all:
  assumes "findings_ok plan fs" "distinct (map ta_id plan)"
  shows "length (remdups (map tf_id fs)) = length plan \<longleftrightarrow> tf_id ` set fs = ta_id ` set plan"
proof -
  have "length (remdups (map tf_id fs)) = card (tf_id ` set fs)" by (simp add: length_remdups_card_conv)
  moreover have "length plan = card (ta_id ` set plan)" using assms(2) distinct_card by fastforce
  moreover have "tf_id ` set fs \<subseteq> ta_id ` set plan" using assms(1) by (simp add: findings_ok_def)
  ultimately show ?thesis using card_subset_eq [of "ta_id ` set plan" "tf_id ` set fs"] by auto
qed

text \<open>With an acyclic plan some open assignment has all its findings.\<close>

lemma some_assignment_ready:
  assumes "acyclic (depends_on plan)" "\<forall>a\<in>set plan. set (ta_depends a) \<subseteq> ta_id ` set plan"
    and "\<not> ta_id ` set plan \<subseteq> tf_id ` set fs"
  shows "ready_assignments plan fs \<noteq> []"
proof -
  let ?open = "ta_id ` set plan - tf_id ` set fs"
  have "depends_on plan = edges (map (\<lambda>a. (ta_id a, ta_depends a)) plan)" by (simp add: plan_edges)
  then have "wf (depends_on plan)" using finite_acyclic_wf [OF _ assms(1)] finite_edges by simp
  moreover obtain i0 where "i0 \<in> ?open" using assms(3) by auto
  ultimately obtain i where i: "i \<in> ?open" "\<forall>y. (y, i) \<in> depends_on plan \<longrightarrow> y \<notin> ?open"
    by (metis wf_eq_minimal)
  obtain a where a: "a \<in> set plan" "ta_id a = i" using i(1) by auto
  have "x \<in> tf_id ` set fs" if "x \<in> set (ta_depends a)" for x
  proof -
    have "(x, i) \<in> depends_on plan" using that a by (auto simp: depends_on_def)
    moreover have "x \<in> ta_id ` set plan" using that a(1) assms(2) by blast
    ultimately show ?thesis using i(2) by blast
  qed
  then have "a \<in> set (ready_assignments plan fs)" using a i(1) by (auto simp: ready_assignments_def)
  then show ?thesis by auto
qed

lemma project_finding_id: "project_finding v a s d = Inr (f, d') \<Longrightarrow> tf_id f = ta_id a"
  by (auto simp: project_finding_def finding_of_def artifact_finding_def bindr_Inr_iff split: if_splits)

lemma run_member_id: "run_member v obj a deps d = Inr (f, d') \<Longrightarrow> tf_id f = ta_id a"
  by (auto simp: run_member_def bindr_Inr_iff dest: project_finding_id)

definition member_answers :: "(team_assignment \<Rightarrow> team_finding list \<Rightarrow> db \<Rightarrow> graph_error + team_finding \<times> db) \<Rightarrow> team_assignment \<Rightarrow> bool" where
  "member_answers member a \<longleftrightarrow> (\<forall>deps d. returns (member a deps d) (\<lambda>(f, _). tf_id f = ta_id a))"

lemma run_members_answer:
  assumes "\<forall>(a, deps)\<in>set sends. member_answers member a"
  shows "\<exists>new d'. run_members member sends d = Inr (new, d') \<and> map tf_id new = map (ta_id \<circ> fst) sends"
  using assms
proof (induction sends arbitrary: d)
  case Nil
  then show ?case by simp
next
  case (Cons s sends)
  obtain a deps where s: "s = (a, deps)" by (cases s)
  with Cons.prems have "returns (member a deps d) (\<lambda>(f, _). tf_id f = ta_id a)" by (auto simp: member_answers_def)
  then obtain f d1 where f: "member a deps d = Inr (f, d1)" "tf_id f = ta_id a" by (auto simp: returns_iff)
  obtain new d' where "run_members member sends d1 = Inr (new, d')" "map tf_id new = map (ta_id \<circ> fst) sends"
    using Cons.IH [of d1] Cons.prems by auto
  then show ?case using s f by simp
qed

lemma ready_distinct:
  assumes "distinct (map ta_id plan)"
  shows "distinct (map ta_id (ready_assignments plan fs))"
  using assms by (simp add: ready_assignments_def distinct_map_filter)

text \<open>One round: every ready assignment gets its finding, no other one does.\<close>

lemma round_progress:
  assumes "findings_ok plan fs" "distinct (map ta_id plan)" "\<forall>a\<in>set plan. member_answers member a"
  shows "\<exists>new d1 fs1. run_members member (map (\<lambda>a. (a, dependency_findings fs a)) (ready_assignments plan fs)) d = Inr (new, d1) \<and>
    apply_findings new fs = Inr fs1 \<and> findings_ok plan fs1 \<and>
    tf_id ` set fs1 = tf_id ` set fs \<union> ta_id ` set (ready_assignments plan fs)"
proof -
  let ?ready = "ready_assignments plan fs"
  have "\<forall>(a, deps)\<in>set (map (\<lambda>a. (a, dependency_findings fs a)) ?ready). member_answers member a"
    using assms(3) by (auto simp: ready_assignments_def)
  from run_members_answer [OF this, of d] obtain new d1 where
    new: "run_members member (map (\<lambda>a. (a, dependency_findings fs a)) ?ready) d = Inr (new, d1)"
      "map tf_id new = map ta_id ?ready" by (auto simp: comp_def)
  have ids: "tf_id ` set new = ta_id ` set ?ready" using arg_cong [OF new(2), of set] by simp
  have "distinct (map tf_id new)" unfolding new(2) by (rule ready_distinct [OF assms(2)])
  moreover have "tf_id ` set new \<inter> tf_id ` set fs = {}" unfolding ids by (auto simp: ready_assignments_def)
  moreover have "tf_id ` set new \<subseteq> ta_id ` set plan" unfolding ids by (auto simp: ready_assignments_def)
  ultimately obtain fs1 where "apply_findings new fs = Inr fs1" "set fs1 = set fs \<union> set new" "findings_ok plan fs1"
    using apply_new_findings [OF assms(1)] by blast
  then show ?thesis using new(1) ids by (auto simp: image_Un)
qed

lemma team_loop_finishes:
  assumes "findings_ok plan fs" "distinct (map ta_id plan)" "acyclic (depends_on plan)"
    and "\<forall>a\<in>set plan. set (ta_depends a) \<subseteq> ta_id ` set plan" "\<forall>a\<in>set plan. member_answers member a"
    and "card (ta_id ` set plan - tf_id ` set fs) < n"
  shows "\<exists>fs' d'. team_loop member plan n fs d = Inr (fs', d') \<and> findings_ok plan fs' \<and> tf_id ` set fs' = ta_id ` set plan"
  using assms(1,6)
proof (induction n arbitrary: fs d)
  case 0
  then show ?case by simp
next
  case (Suc n)
  show ?case
  proof (cases "tf_id ` set fs = ta_id ` set plan")
    case True
    then show ?thesis using completed_all [OF Suc.prems(1) assms(2)] Suc.prems(1) by (simp add: route_dispatch_def)
  next
    case False
    let ?ready = "ready_assignments plan fs"
    have "\<not> ta_id ` set plan \<subseteq> tf_id ` set fs" using False Suc.prems(1) by (auto simp: findings_ok_def)
    then have ready: "?ready \<noteq> []" by (rule some_assignment_ready [OF assms(3,4)])
    obtain new d1 fs1 where step: "run_members member (map (\<lambda>a. (a, dependency_findings fs a)) ?ready) d = Inr (new, d1)"
        "apply_findings new fs = Inr fs1" "findings_ok plan fs1"
        "tf_id ` set fs1 = tf_id ` set fs \<union> ta_id ` set ?ready"
      using round_progress [OF Suc.prems(1) assms(2,5)] by blast
    obtain a where a: "a \<in> set ?ready" using ready by (cases ?ready) auto
    have "ta_id a \<in> ta_id ` set plan - tf_id ` set fs" using a by (auto simp: ready_assignments_def)
    moreover have "ta_id a \<in> tf_id ` set fs1" using a step(4) by auto
    ultimately have "ta_id ` set plan - tf_id ` set fs1 \<subset> ta_id ` set plan - tf_id ` set fs"
      using step(4) by auto
    then have "card (ta_id ` set plan - tf_id ` set fs1) < card (ta_id ` set plan - tf_id ` set fs)"
      by (intro psubset_card_mono) auto
    then have "card (ta_id ` set plan - tf_id ` set fs1) < n" using Suc.prems(2) by simp
    from Suc.IH [OF step(3) this] show ?thesis
      using False ready step(1,2) completed_all [OF Suc.prems(1) assms(2)] by (simp add: route_dispatch_def)
  qed
qed

lemma collect_handoffs_known:
  assumes "\<forall>(i, t)\<in>set xs. \<forall>s. ta_handoff t = Some s \<longrightarrow> map_of known s \<noteq> None"
  shows "\<exists>hs. collect_handoffs known xs = Inr hs \<and>
    map ho_to hs = map ta_id (filter (\<lambda>t. ta_handoff t \<noteq> None) (map snd xs))"
  using assms
proof (induction xs)
  case Nil
  then show ?case by simp
next
  case (Cons x xs)
  obtain i t where x: "x = (i, t)" by (cases x)
  obtain hs where "collect_handoffs known xs = Inr hs"
      "map ho_to hs = map ta_id (filter (\<lambda>t. ta_handoff t \<noteq> None) (map snd xs))"
    using Cons by auto
  then show ?case using Cons.prems x by (cases "ta_handoff t") auto
qed

lemma finish_team_ok:
  assumes "team_plan_ok q roster"
  shows "\<exists>r. finish_team q fs = Inr r \<and> tr_objective r = tq_objective q \<and> tr_findings r = sort_key tf_id fs \<and>
    map ho_to (tr_handoffs r) = map ta_id (filter (\<lambda>t. ta_handoff t \<noteq> None) (tq_assignments q))"
proof -
  let ?known = "dict_of ta_id (\<lambda>a. a) (tq_assignments q)"
  have known: "?known = map (\<lambda>a. (ta_id a, a)) (tq_assignments q)"
    using assms dict_of_distinct [of ta_id "tq_assignments q" "\<lambda>a. a"] by (simp add: team_plan_ok_def)
  have "map_of ?known s \<noteq> None" if t: "(i, t) \<in> set ?known" "ta_handoff t = Some s" for i t s
  proof -
    have "t \<in> set (tq_assignments q)" using t(1) unfolding known by auto
    then have "assignment_ok roster (tq_assignments q) t" using assms by (simp add: team_plan_ok_def)
    then have "s \<in> ta_id ` set (tq_assignments q)" using t(2) by (auto simp: assignment_ok_def)
    then have "s \<in> fst ` set ?known" by simp
    then show ?thesis by (simp only: map_of_eq_None_iff) simp
  qed
  then have "\<forall>(i, t)\<in>set ?known. \<forall>s. ta_handoff t = Some s \<longrightarrow> map_of ?known s \<noteq> None" by blast
  from collect_handoffs_known [OF this] show ?thesis
    unfolding finish_team_def Let_def by (auto simp: known comp_def)
qed

lemma plan_facts:
  assumes "team_plan_ok q roster"
  shows "distinct (map ta_id (tq_assignments q))" "acyclic (depends_on (tq_assignments q))"
    "\<forall>a\<in>set (tq_assignments q). set (ta_depends a) \<subseteq> ta_id ` set (tq_assignments q)"
    "validate_team_request q roster = Inr ()"
proof -
  let ?plan = "tq_assignments q"
  show d: "distinct (map ta_id ?plan)" and ac: "acyclic (depends_on ?plan)"
    using assms by (simp_all add: team_plan_ok_def)
  show closed: "\<forall>a\<in>set ?plan. set (ta_depends a) \<subseteq> ta_id ` set ?plan"
    using assms by (auto simp: team_plan_ok_def assignment_ok_def)
  have "peel_all (map (\<lambda>a. (ta_id a, ta_depends a)) ?plan) = Inr ()"
    using peel_all_acyclic [OF plan_closed [OF d closed]] ac by (simp add: plan_edges)
  moreover have roster: "distinct (map tm_name roster)" "roster \<noteq> []" "\<forall>a\<in>set ?plan. assignment_ok roster ?plan a"
    using assms by (simp_all add: team_plan_ok_def)
  ultimately show "validate_team_request q roster = Inr ()"
    using all_assignments_ok [OF roster(1) d] d unfolding validate_iff by blast
qed

definition resumable :: "(string \<Rightarrow> string) \<Rightarrow> team_request \<Rightarrow> team_checkpoint option \<Rightarrow> bool" where
  "resumable sha256 q saved = (case saved of None \<Rightarrow> True
     | Some cp \<Rightarrow> tc_plan cp = plan_hash sha256 q \<and> tc_result cp = None \<and> findings_ok (tq_assignments q) (tc_findings cp))"

lemma member_answers_returns:
  assumes "\<And>deps d. returns (run_member v obj a deps d) (\<lambda>_. True)"
  shows "member_answers (run_member v obj) a"
  using assms unfolding member_answers_def by (fastforce simp: returns_iff dest: run_member_id)

lemma team_graph_finishes:
  assumes "team_plan_ok q roster" "findings_ok (tq_assignments q) fs"
    and "\<forall>a\<in>set (tq_assignments q). member_answers (run_member v (tq_objective q)) a"
    and "length (tq_assignments q) < limit"
  shows "\<exists>r d'. team_graph v roster limit q fs d = Inr (r, d') \<and> tr_objective r = tq_objective q \<and>
    map tf_id (tr_findings r) = sort (map ta_id (tq_assignments q)) \<and>
    map ho_to (tr_handoffs r) = map ta_id (filter (\<lambda>t. ta_handoff t \<noteq> None) (tq_assignments q))"
proof -
  let ?plan = "tq_assignments q"
  note p = plan_facts [OF assms(1)]
  have "card (ta_id ` set ?plan - tf_id ` set fs) \<le> card (ta_id ` set ?plan)" by (intro card_mono) auto
  also have "\<dots> \<le> length ?plan" using card_length [of "map ta_id ?plan"] by simp
  finally have "card (ta_id ` set ?plan - tf_id ` set fs) < limit" using assms(4) by simp
  from team_loop_finishes [OF assms(2) p(1-3) assms(3) this, of d] obtain fs' d' where
    fs': "team_loop (run_member v (tq_objective q)) ?plan limit fs d = Inr (fs', d')" "findings_ok ?plan fs'"
      "tf_id ` set fs' = ta_id ` set ?plan" by blast
  have ids: "map tf_id fs' = sort (map ta_id ?plan)"
    using fs'(2,3) p(1) by (intro sorted_distinct_set_unique) (auto simp: findings_ok_def)
  have "sort_key tf_id fs' = fs'" using fs'(2) by (intro sort_key_id_if_sorted) (simp add: findings_ok_def)
  moreover obtain r where "finish_team q fs' = Inr r" "tr_objective r = tq_objective q"
      "tr_findings r = sort_key tf_id fs'"
      "map ho_to (tr_handoffs r) = map ta_id (filter (\<lambda>t. ta_handoff t \<noteq> None) ?plan)"
    using finish_team_ok [OF assms(1)] by blast
  ultimately show ?thesis using fs'(1) ids p(4) by (auto simp: team_graph_def)
qed

text \<open>The projection of one answer, kept inline or in the artifact store.\<close>

lemma stored_finding_kept:
  assumes "stored_finding v a summary d = Inr ((x, kept), d')"
  shows "get_artifact (finding_artifact_id v a) d' = Some x \<and> a_id x = finding_artifact_id v a \<and>
    a_run x = te_run v \<and> a_kind x = ''team_finding'' \<and> a_content x = kept \<and>
    (get_artifact (finding_artifact_id v a) d = None \<and> kept = summary \<or>
     get_artifact (finding_artifact_id v a) d = Some x \<and> d' = d)"
proof (cases "get_artifact (finding_artifact_id v a) d")
  case (Some y)
  then have "a_id y = finding_artifact_id v a" using find_SomeD [of _ "db_artifacts d"] by (auto simp: get_artifact_def)
  then show ?thesis using assms Some by (auto simp: stored_finding_def split: if_splits)
next
  case None
  have "finding_artifact_id v a \<noteq> []" by (simp add: finding_artifact_id_def)
  then have ident: "artifact_identity (ap_id (finding_artifact_spec v a)) e = (finding_artifact_id v a, e)" for e
    by (simp add: artifact_identity_def finding_artifact_spec_def)
  have c: "create_artifact (te_ctx v) (te_sha v) (finding_artifact_spec v a) summary d = Inr (x, d')" "kept = summary"
    using assms None by (auto simp: stored_finding_def bindr_Inr_iff)
  note r = create_artifact_inv(1) [OF c(1), unfolded ident fst_conv snd_conv]
  from r show ?thesis
  proof (cases rule: create_artifact_record_cases)
    case kept
    then show ?thesis using None by (simp add: artifact_of_def)
  next
    case (created row)
    then show ?thesis
      using c(2) by (simp add: get_artifact_def artifact_of_def finding_artifact_spec_def find_append del: encode_payload.simps)
  qed
qed

subsection \<open>Properties\<close>

text \<open>C14: a valid team run finishes. For a plan the check accepts and members that answer, \<open>team.run\<close> ends
  with a result, from the start or resumed from any checkpoint of that plan, as soon as the round
  limit exceeds the number of assignments: exactly one finding per assignment, in the order of their
  ids, and one hand-off per assignment that names a source.\<close>

theorem team_run_finishes:
  assumes "team_plan_ok q roster" "te_run v \<noteq> []" "resumable (te_sha v) q saved"
    and "\<And>a deps d w. a \<in> set (tq_assignments q) \<Longrightarrow> w = v\<lparr>te_namespace := team_namespace (te_sha v) oper\<rparr> \<Longrightarrow>
      returns (run_member w (tq_objective q) a deps d) (\<lambda>_. True)"
    and "length (tq_assignments q) < limit"
  shows "\<exists>r d'. run_team v roster limit (Some oper) saved q d = Inr (r, d') \<and>
    map tf_id (tr_findings r) = sort (map ta_id (tq_assignments q)) \<and>
    map ho_to (tr_handoffs r) = map ta_id (filter (\<lambda>t. ta_handoff t \<noteq> None) (tq_assignments q))"
proof -
  define w where "w = v\<lparr>te_namespace := team_namespace (te_sha v) oper\<rparr>"
  define fs where "fs = (case saved of None \<Rightarrow> [] | Some cp \<Rightarrow> tc_findings cp)"
  have ok: "findings_ok (tq_assignments q) fs"
    using assms(3) by (auto simp: fs_def resumable_def findings_ok_def split: option.splits)
  have ans: "\<forall>a\<in>set (tq_assignments q). member_answers (run_member w (tq_objective q)) a"
    using assms(4) [OF _ w_def] member_answers_returns by blast
  have run: "run_team v roster limit (Some oper) saved q d = team_graph w roster limit q fs d"
    using plan_facts(4) [OF assms(1)] assms(2,3)
    by (auto simp: run_team_def w_def fs_def resumable_def Let_def split: option.splits)
  show ?thesis using team_graph_finishes [OF assms(1) ok ans assms(5), of d] unfolding run by blast
qed

definition demo_env :: team_env where
  "demo_env = \<lparr>te_ctx = free_ctx, te_run = ''run_1'', te_namespace = [], te_sha = (\<lambda>s. s),
     te_invoke = (\<lambda>a prompt d. Inr (''done'', d))\<rparr>"

definition demo_request :: team_request where
  "demo_request = \<lparr>tq_objective = ''o'',
     tq_assignments = [demo_task ''b'' ''m'' [''a''] (Some ''a''), demo_task ''a'' ''n'' [] None]\<rparr>"

definition demo_roster :: "team_member list" where
  "demo_roster = [demo_member ''m'' [''n''], demo_member ''n'' [''m'']]"

theorem team_run_finishes_witness:
  "\<exists>r d'. run_team demo_env demo_roster 3 (Some ''op'') None demo_request demo_db = Inr (r, d') \<and>
    map tf_id (tr_findings r) = [''a'', ''b''] \<and> map ho_to (tr_handoffs r) = [''b'']"
proof -
  have "validate_team_request demo_request demo_roster = Inr ()" by code_simp
  then have ok: "team_plan_ok demo_request demo_roster" by (simp only: team_check_is_exact)
  have run: "returns (run_member w (tq_objective demo_request) a deps d) (\<lambda>_. True)"
    if "w = demo_env\<lparr>te_namespace := team_namespace (te_sha demo_env) ''op''\<rparr>" for a deps d w
    using that by (simp add: run_member_def demo_env_def project_finding_def utf8_length_def max_inline_finding_bytes_def)
  have "sort (map ta_id (tq_assignments demo_request)) = [''a'', ''b'']"
    "map ta_id (filter (\<lambda>t. ta_handoff t \<noteq> None) (tq_assignments demo_request)) = [''b'']" by code_simp+
  with team_run_finishes [OF ok, of demo_env None "''op''" 3 demo_db] run show ?thesis
    by (simp add: demo_env_def resumable_def demo_request_def)
qed

text \<open>C15: a finding survives a restart and is never cut without a copy. A finding either carries the
  member's whole answer and nothing is stored, or names an artifact of this run, there afterwards,
  whose content the summary shows the first 8000 characters of. Where the assignment had no
  artifact before, the content is the member's whole answer, not a character less; where it had
  one (an earlier attempt stored it), that artifact is used as it is and nothing is written.
  Projecting any long answer of the same assignment again gives the same finding and writes
  nothing.\<close>

theorem team_finding_is_durable:
  assumes "project_finding v a summary d = Inr (f, d')"
  shows "(tf_artifact f = None \<and> tf_summary f = summary \<and> d' = d) \<or>
    (\<exists>x. tf_artifact f = Some (a_id x) \<and> get_artifact (a_id x) d' = Some x \<and> a_run x = te_run v \<and>
      f = artifact_finding a (a_content x) (a_id x) \<and>
      (get_artifact (a_id x) d = None \<and> a_content x = summary \<or> get_artifact (a_id x) d = Some x \<and> d' = d) \<and>
      (\<forall>again. max_inline_finding_bytes < int (utf8_length again) \<longrightarrow> int (utf8_length again) \<le> max_artifact_bytes \<longrightarrow>
         project_finding v a again d' = Inr (f, d')))"
proof (cases "int (utf8_length summary) \<le> max_inline_finding_bytes")
  case True
  then show ?thesis using assms by (auto simp: project_finding_def finding_of_def)
next
  case False
  then obtain x kept where x: "stored_finding v a summary d = Inr ((x, kept), d')" "te_run v \<noteq> []"
      "f = artifact_finding a kept (a_id x)"
    using assms by (auto simp: project_finding_def bindr_Inr_iff split: if_splits)
  note k = stored_finding_kept [OF x(1)]
  have "stored_finding v a again d' = Inr ((x, kept), d')" for again using k by (simp add: stored_finding_def)
  then have "project_finding v a again d' = Inr (f, d')"
    if "max_inline_finding_bytes < int (utf8_length again)" "int (utf8_length again) \<le> max_artifact_bytes" for again
    using that x by (simp add: project_finding_def)
  moreover have "tf_artifact f = Some (a_id x)" using x(3) by (simp add: artifact_finding_def finding_of_def)
  ultimately show ?thesis using x k by (intro disjI2 exI [of _ x]) simp
qed

definition long_answer :: string where
  "long_answer = replicate 65537 CHR ''x''"

definition kept_finding :: artifact_row where
  "kept_finding = artifact_of (finding_artifact_spec demo_env (demo_task ''a'' ''n'' [] None))
     (finding_artifact_id demo_env (demo_task ''a'' ''n'' [] None)) ''full answer'' 11 ''inline_text'' None ''h'' 1"

theorem team_finding_is_durable_witness:
  "\<exists>f (x :: artifact_row). project_finding demo_env (demo_task ''a'' ''n'' [] None) long_answer (demo_db\<lparr>db_artifacts := [kept_finding]\<rparr>) =
      Inr (f, demo_db\<lparr>db_artifacts := [kept_finding]\<rparr>) \<and>
    tf_artifact f = Some (a_id x) \<and> f = artifact_finding (demo_task ''a'' ''n'' [] None) (a_content x) (a_id x)"
proof -
  let ?d = "demo_db\<lparr>db_artifacts := [kept_finding]\<rparr>" and ?a = "demo_task ''a'' ''n'' [] None"
  let ?f = "artifact_finding ?a (a_content kept_finding) (a_id kept_finding)"
  have long: "int (utf8_length long_answer) = 65537"
    by (simp add: long_answer_def utf8_length_def sum_list_replicate map_replicate)
  have "get_artifact (finding_artifact_id demo_env ?a) ?d = Some kept_finding"
    "a_run kept_finding = te_run demo_env" "a_kind kept_finding = ''team_finding''" "te_run demo_env \<noteq> []"
    by (simp_all add: get_artifact_def kept_finding_def artifact_of_def finding_artifact_spec_def demo_env_def
        del: encode_payload.simps)
  then have f: "project_finding demo_env ?a long_answer ?d = Inr (?f, ?d)"
    by (simp add: project_finding_def stored_finding_def long max_inline_finding_bytes_def max_artifact_bytes_def)
  have ne: "tf_artifact ?f \<noteq> None" by (simp add: artifact_finding_def finding_of_def)
  from team_finding_is_durable [OF f] obtain x :: artifact_row
    where "tf_artifact ?f = Some (a_id x)" "?f = artifact_finding ?a (a_content x) (a_id x)"
    using ne by blast
  then show ?thesis using f by (intro exI [of _ ?f] exI [of _ x] conjI)
qed

end
