(* ===== verification/Event_Log.thy ===== *)
theory Event_Log
  imports Database
begin

text \<open>
  The event log of a run (store/run_state/__init__.py, store/tool_receipts/subagents.py):
  appending an event with the next sequence number, reporting a child's lifecycle events to
  its parent, and projecting an event on the thread the run belongs to. Shown: the sequence
  numbers of a run stay \<open>1..n\<close> without gaps, older events never change, and the projections
  advance versions and high watermarks only forwards.
\<close>

definition json_time :: "time \<Rightarrow> json" where
  "json_time t = JInt (int t)"

definition json_time_opt :: "time option \<Rightarrow> json" where
  "json_time_opt t = (case t of None \<Rightarrow> JNull | Some x \<Rightarrow> json_time x)"

subsection \<open>Appending\<close>

definition next_seq :: "db \<Rightarrow> id \<Rightarrow> nat" where
  "next_seq d run = max_of (map e_seq (filter (\<lambda>e. e_run e = run) (db_events d))) + 1"

text \<open>The insert of \<open>_append_event_uncommitted\<close>; the foreign key rejects an unknown run.\<close>

definition append_event_row ::
    "id \<Rightarrow> string \<Rightarrow> json \<Rightarrow> time \<Rightarrow> db \<Rightarrow> (event_row \<times> db) res" where
  "append_event_row run ty payload created d =
    (case get_run_row d run of
       None \<Rightarrow> Inl SqlIntegrityError
     | Some _ \<Rightarrow>
        (let (eid, d1) = new_id ''evt'' d;
             e = \<lparr>e_id = eid, e_run = run, e_seq = next_seq d run, e_type = ty,
                  e_payload = payload, e_created = created\<rparr>
         in Inr (e, d1\<lparr>db_events := db_events d1 @ [e]\<rparr>)))"

subsection \<open>Publishing a run event on its thread\<close>

definition bump_thread :: "string \<Rightarrow> thread_row \<Rightarrow> string \<Rightarrow> id \<Rightarrow> time \<Rightarrow> db \<Rightarrow> db" where
  "bump_thread title th ty run ts d =
    (let v = th_version th + 1 in
     d\<lparr>db_threads := update_where (\<lambda>t. th_id t = th_id th)
          (\<lambda>t. t\<lparr>th_version := v, th_title := title, th_updated := ts\<rparr>) (db_threads d),
       db_cursor := db_cursor d + 1,
       db_changes := db_changes d @
         [\<lparr>tc_cursor = db_cursor d + 1, tc_principal = th_principal th, tc_thread = th_id th,
           tc_version = v, tc_type = ty, tc_run = Some run, tc_created = ts\<rparr>]\<rparr>)"

text \<open>The thread and item of a run, when it has both (\<open>NULL\<close> and the empty text do not count).\<close>

definition run_projection :: "db \<Rightarrow> id \<Rightarrow> (run_row \<times> id \<times> id) option" where
  "run_projection d run =
    (case get_run_row d run of
       None \<Rightarrow> None
     | Some r \<Rightarrow>
        (case (r_thread r, r_item r) of
           (Some th, Some it) \<Rightarrow> if th = [] \<or> it = [] then None else Some (r, th, it)
         | _ \<Rightarrow> None))"

definition find_thread :: "db \<Rightarrow> id \<Rightarrow> string \<Rightarrow> thread_row option" where
  "find_thread d th owner =
    find (\<lambda>t. th_id t = th \<and> th_principal t = owner) (db_threads d)"

definition touch_thread_for_run_event ::
    "id \<Rightarrow> string \<Rightarrow> nat \<Rightarrow> time \<Rightarrow> db \<Rightarrow> db res" where
  "touch_thread_for_run_event run ty high ts d =
    (case run_projection d run of
       None \<Rightarrow> Inr d
     | Some (r, th, it) \<Rightarrow>
        (let mine = (\<lambda>i. it_id i = it \<and> it_run i = Some run);
             d1 = d\<lparr>db_items := update_where mine
                    (\<lambda>i. i\<lparr>it_high := max (it_high i) high, it_version := it_version i + 1,
                           it_updated := ts\<rparr>) (db_items d)\<rparr>
         in if count_where mine (db_items d) \<noteq> 1 then Inl RunResultConflictError
            else (case find_thread d1 th (r_principal r) of
                    None \<Rightarrow> Inl RunResultConflictError
                  | Some t \<Rightarrow> Inr (bump_thread (th_title t) t ty run ts d1))))"

subsection \<open>A child's lifecycle on its parent's log\<close>

definition child_event_of :: "string \<Rightarrow> (string \<times> run_status option) option" where
  "child_event_of ty =
    (if ty = ''run.started'' then Some (''child.started'', Some RunRunning)
     else if ty = ''run.resumed'' then Some (''child.started'', Some RunRunning)
     else if ty = ''run.waiting'' then Some (''child.waiting'', None)
     else if ty = ''run.completed'' then Some (''child.completed'', Some RunCompleted)
     else if ty = ''run.failed'' then Some (''child.failed'', Some RunFailed)
     else if ty = ''run.canceled'' then Some (''child.canceled'', Some RunCanceled)
     else if ty = ''run.cleanup_required''
       then Some (''child.cleanup_required'', Some RunCleanupRequired)
     else None)"

definition lifecycle_keys :: "string list" where
  "lifecycle_keys = [''error'', ''type'', ''category'', ''retryable'', ''input_tokens'',
     ''output_tokens'', ''model_calls'', ''final_answer_ref'']"

definition copy_keys :: "string list \<Rightarrow> dict \<Rightarrow> dict \<Rightarrow> dict" where
  "copy_keys ks src dst = foldl (\<lambda>d k. if has_key src k then dset k (dget src k) d else d) dst ks"

definition lifecycle_payload :: "run_row \<Rightarrow> event_row \<Rightarrow> dict \<Rightarrow> run_status \<Rightarrow> dict" where
  "lifecycle_payload child src src_payload status =
    (let final_text = text_or (dget src_payload ''final_text'') [];
         base = [(''child_run_id'', JStr (r_id child)),
                 (''parent_run_id'', JStr (py_str (json_opt (r_parent child)))),
                 (''root_run_id'', JStr (py_str (json_opt (r_root child)))),
                 (''agent_definition_id'', JStr (r_agent_id child)),
                 (''agent_definition_version'', JStr (r_agent_version child)),
                 (''collaboration_depth'', JInt (r_depth child)),
                 (''goal'', JStr (r_goal child)),
                 (''status'', JStr (run_status_text status)),
                 (''source_event_id'', JStr (e_id src)),
                 (''source_event_seq'', JInt (int (e_seq src))),
                 (''updated_at'', json_time (r_updated child))];
         shown = (if final_text = [] then base
                  else dset ''result_truncated'' (JBool (4096 < length final_text))
                        (dset ''result_preview'' (JStr (take 4096 final_text)) base))
     in copy_keys lifecycle_keys src_payload shown)"

definition append_child_parent_lifecycle ::
    "id \<Rightarrow> event_row \<Rightarrow> dict \<Rightarrow> db \<Rightarrow> (event_row option \<times> db) res" where
  "append_child_parent_lifecycle child_run src src_payload d =
    (case find (\<lambda>r. r_id r = child_run \<and> r_kind r = KindChild) (db_runs d) of
       None \<Rightarrow> Inr (None, d)
     | Some child \<Rightarrow>
        (case r_parent child of
           None \<Rightarrow> Inr (None, d)
         | Some parent \<Rightarrow>
            if parent = [] then Inr (None, d)
            else (case child_event_of (e_type src) of
                    None \<Rightarrow> Inl PyKeyError
                  | Some (parent_type, fixed) \<Rightarrow>
                     (let status = (case fixed of Some s \<Rightarrow> s | None \<Rightarrow> r_status child)
                      in bindr (append_event_row parent parent_type
                                 (encode_payload (JObj (lifecycle_payload child src src_payload status)))
                                 (e_created src) d)
                         (\<lambda>(pe, d1). bindr (touch_thread_for_run_event parent parent_type
                                               (e_seq pe) (e_created src) d1)
                         (\<lambda>d2. Inr (Some pe, d2)))))))"

text \<open>\<open>_append_event_uncommitted\<close>: the event, with the parent's event it caused.\<close>

definition append_event_uncommitted ::
    "id \<Rightarrow> string \<Rightarrow> json \<Rightarrow> time \<Rightarrow> db \<Rightarrow> (event_row \<times> event_row option \<times> db) res" where
  "append_event_uncommitted run ty payload created d =
    bindr (append_event_row run ty payload created d)
      (\<lambda>(e, d1). if child_event_of ty = None then Inr (e, None, d1)
         else bindr (append_child_parent_lifecycle run e (json_payload (Some payload)) d1)
           (\<lambda>(pe, d2). Inr (e, pe, d2)))"

text \<open>The public \<open>append_event\<close>.\<close>

definition append_event :: "ctx \<Rightarrow> id \<Rightarrow> string \<Rightarrow> dict \<Rightarrow> db \<Rightarrow> (event_row \<times> db) res" where
  "append_event c run ty payload d =
    run_write_transaction c None run d (\<lambda>d.
      bindr (append_event_uncommitted run ty (encode_payload (JObj payload)) (x_clock c 1) d)
        (\<lambda>(e, _, d1). Inr (e, d1)))"

definition events_since :: "id \<Rightarrow> nat \<Rightarrow> nat option \<Rightarrow> db \<Rightarrow> event_row list" where
  "events_since run after_seq limit d =
    (let rows = select_by e_seq (\<lambda>e. e_run e = run \<and> after_seq < e_seq e) (db_events d)
     in case limit of None \<Rightarrow> rows | Some n \<Rightarrow> take n rows)"

definition event_sequence_window :: "id \<Rightarrow> db \<Rightarrow> nat option \<times> nat" where
  "event_sequence_window run d =
    (let seqs = map e_seq (filter (\<lambda>e. e_run e = run) (db_events d))
     in (if seqs = [] then None else Some (foldr min seqs (max_of seqs)), max_of seqs))"

subsection \<open>The thread projection of a run result\<close>

definition item_status_of :: "run_status \<Rightarrow> string option" where
  "item_status_of s = (case s of
      RunCompleted \<Rightarrow> Some ''completed'' | RunFailed \<Rightarrow> Some ''failed''
    | RunCanceled \<Rightarrow> Some ''canceled'' | RunWaitingPermission \<Rightarrow> Some ''in_progress''
    | RunWaitingInput \<Rightarrow> Some ''in_progress'' | RunCleanupRequired \<Rightarrow> Some ''cleanup_required''
    | _ \<Rightarrow> None)"

definition title_text :: "json \<Rightarrow> string" where
  "title_text v = take 80 (join_with '' '' (py_split (text_or v [])))"

definition projected_content :: "db \<Rightarrow> id \<Rightarrow> run_status \<Rightarrow> dict \<Rightarrow> string" where
  "projected_content d run status payload =
    (let content = (if status = RunCompleted then text_or (dget payload ''final_text'') [] else [])
     in if content = []
        then (case find (\<lambda>x. d_run x = run) (db_drafts d) of
                None \<Rightarrow> content | Some x \<Rightarrow> d_content x)
        else content)"

definition next_title :: "dict \<Rightarrow> string \<Rightarrow> string" where
  "next_title payload title =
    (let generated = title_text (dget payload ''thread_title'');
         seed = title_text (dget payload ''thread_title_seed'')
     in if generated \<noteq> [] \<and> seed \<noteq> [] \<and> title = seed then generated else title)"

definition update_thread_projection ::
    "id \<Rightarrow> run_status \<Rightarrow> string \<Rightarrow> dict \<Rightarrow> nat \<Rightarrow> time \<Rightarrow> db \<Rightarrow> db res" where
  "update_thread_projection run status ty payload high ts d =
    (case run_projection d run of
       None \<Rightarrow> Inr d
     | Some (r, th, it) \<Rightarrow>
        (case item_status_of status of
           None \<Rightarrow> Inl PyKeyError
         | Some st \<Rightarrow>
            (let mine = (\<lambda>i. it_id i = it \<and> it_run i = Some run);
                 content = projected_content d run status payload;
                 d1 = d\<lparr>db_items := update_where mine
                        (\<lambda>i. i\<lparr>it_status := st, it_content := content, it_high := high,
                               it_version := it_version i + 1, it_updated := ts,
                               it_completed := (if terminal_run status then Some ts else None)\<rparr>)
                        (db_items d)\<rparr>
             in if count_where mine (db_items d) \<noteq> 1 then Inl RunResultConflictError
                else (case find_thread d1 th (r_principal r) of
                        None \<Rightarrow> Inl RunResultConflictError
                      | Some t \<Rightarrow>
                          Inr (bump_thread (next_title payload (th_title t)) t ty run ts d1)))))"

subsection \<open>Frames\<close>

lemma append_event_rowE:
  assumes "append_event_row run ty p c d = Inr (e, d')"
  obtains r where "get_run_row d run = Some r" "e_run e = run" "e_seq e = next_seq d run"
    "e_type e = ty" "e_payload e = p" "e_created e = c"
    "db_events d' = db_events d @ [e]" "db_threads d' = db_threads d" "db_items d' = db_items d"
    "db_changes d' = db_changes d" "db_cursor d' = db_cursor d" "without_log d' = without_log d"
  using assms by (auto simp: append_event_row_def new_id_def Let_def split: option.splits)

lemma bump_thread_frame [simp]:
  "without_log (bump_thread t th ty run ts d) = without_log d"
  "db_events (bump_thread t th ty run ts d) = db_events d"
  "db_uuid_next (bump_thread t th ty run ts d) = db_uuid_next d"
  by (simp_all add: bump_thread_def Let_def without_log_def)

lemma touch_thread_frame:
  assumes "touch_thread_for_run_event run ty h ts d = Inr d'"
  shows "without_log d' = without_log d" "db_events d' = db_events d"
  using assms
  by (auto simp: touch_thread_for_run_event_def Let_def split: option.splits prod.splits if_splits)

lemma update_thread_projection_frame:
  assumes "update_thread_projection run st ty p h ts d = Inr d'"
  shows "without_log d' = without_log d" "db_events d' = db_events d"
  using assms
  by (auto simp: update_thread_projection_def Let_def split: option.splits prod.splits if_splits)

subsection \<open>Sequence numbers\<close>

definition seqs :: "id \<Rightarrow> db \<Rightarrow> nat list" where
  "seqs run d = map e_seq (filter (\<lambda>e. e_run e = run) (db_events d))"

definition contiguous :: "nat list \<Rightarrow> bool" where
  "contiguous xs \<longleftrightarrow> xs = [1..<Suc (length xs)]"

lemma contiguous_Nil [simp]: "contiguous []"
  by (simp add: contiguous_def)

lemma contiguous_max: "contiguous xs \<Longrightarrow> max_of xs = length xs"
  unfolding contiguous_def by (metis max_of_upt)

lemma contiguous_snoc: "contiguous xs \<Longrightarrow> contiguous (xs @ [Suc (max_of xs)])"
  using contiguous_max [of xs] by (simp add: contiguous_def)

text \<open>The contract of an append-only log keyed by owner: what one append does to each owner.\<close>

locale append_log =
  fixes numbers :: "'k \<Rightarrow> 'd \<Rightarrow> nat list"
    and appends :: "'k \<Rightarrow> 'd \<Rightarrow> 'd \<Rightarrow> bool"
  assumes appends_own: "appends k d d' \<Longrightarrow> numbers k d' = numbers k d @ [Suc (max_of (numbers k d))]"
    and appends_other: "appends k d d' \<Longrightarrow> k' \<noteq> k \<Longrightarrow> numbers k' d' = numbers k' d"
begin

lemma appends_contiguous:
  assumes "appends k d d'" "\<forall>j. contiguous (numbers j d)"
  shows "\<forall>j. contiguous (numbers j d')"
proof
  fix j
  show "contiguous (numbers j d')"
    using assms appends_own [OF assms(1)] appends_other [OF assms(1), of j]
      contiguous_snoc [of "numbers j d"] by (cases "j = k") auto
qed

lemma appends_fresh: "appends k d d' \<Longrightarrow> last (numbers k d') = Suc (max_of (numbers k d))"
  by (simp add: appends_own)

lemma appends_largest:
  assumes "appends k d d'" "n \<in> set (numbers k d)"
  shows "n < last (numbers k d')"
  using appends_fresh [OF assms(1)] max_of_ge [OF assms(2)] by simp

end

definition event_appended :: "id \<Rightarrow> db \<Rightarrow> db \<Rightarrow> bool" where
  "event_appended run d d' \<longleftrightarrow>
     (\<exists>e. db_events d' = db_events d @ [e] \<and> e_run e = run \<and> e_seq e = next_seq d run)"

interpretation run_log: append_log seqs event_appended
  by unfold_locales (auto simp: event_appended_def seqs_def next_seq_def)

lemma append_event_row_appends:
  "append_event_row run ty p c d = Inr (e, d') \<Longrightarrow> event_appended run d d'"
  by (erule append_event_rowE) (auto simp: event_appended_def)

subsection \<open>Thread versions and the change feed\<close>

definition change_feed_ok :: "db \<Rightarrow> bool" where
  "change_feed_ok d \<longleftrightarrow>
     distinct (map th_id (db_threads d)) \<and>
     (\<forall>c\<in>set (db_changes d). tc_cursor c \<le> db_cursor d) \<and>
     sorted_wrt (\<lambda>a b. tc_cursor a < tc_cursor b) (db_changes d) \<and>
     (\<forall>t\<in>set (db_threads d). \<forall>c\<in>set (db_changes d). tc_thread c = th_id t \<longrightarrow> tc_version c \<le> th_version t) \<and>
     sorted_wrt (\<lambda>a b. tc_thread a = tc_thread b \<longrightarrow> tc_version a < tc_version b) (db_changes d)"

lemma change_feed_ok_cong:
  "db_threads d' = db_threads d \<Longrightarrow> db_changes d' = db_changes d \<Longrightarrow> db_cursor d' = db_cursor d \<Longrightarrow>
    change_feed_ok d' = change_feed_ok d"
  by (simp add: change_feed_ok_def)

lemma bump_thread_change_feed:
  assumes "change_feed_ok d" "th \<in> set (db_threads d)"
  shows "change_feed_ok (bump_thread title th ty run ts d)"
proof -
  let ?f = "\<lambda>t. t\<lparr>th_version := th_version th + 1, th_title := title, th_updated := ts\<rparr>"
  let ?T = "update_where (\<lambda>t. th_id t = th_id th) ?f (db_threads d)"
  have ids: "map th_id ?T = map th_id (db_threads d)"
    by (rule map_update_where_key) simp
  have below: "tc_version c \<le> th_version th"
    if "c \<in> set (db_changes d)" "tc_thread c = th_id th" for c
    using assms that by (auto simp: change_feed_ok_def)
  have bound: "tc_version c \<le> th_version t"
    if t: "t \<in> set ?T" and c: "c \<in> set (db_changes d)" "tc_thread c = th_id t" for t c
  proof -
    obtain u where u: "u \<in> set (db_threads d)" "t = (if th_id u = th_id th then ?f u else u)"
      using t by (rule in_update_whereE)
    show ?thesis
    proof (cases "th_id u = th_id th")
      case True
      then show ?thesis using u c below [of c] by simp
    next
      case False
      then show ?thesis using u c assms(1) by (auto simp: change_feed_ok_def)
    qed
  qed
  have new: "tc_version c < Suc (th_version th)"
    if "c \<in> set (db_changes d)" "tc_thread c = th_id th" for c
    using below [OF that] by simp
  have top: "Suc (th_version th) \<le> th_version t" if "t \<in> set ?T" "th_id t = th_id th" for t
    using that by (auto elim!: in_update_whereE split: if_splits)
  have cur: "tc_cursor c < Suc (db_cursor d)" if "c \<in> set (db_changes d)" for c
    using assms(1) that by (auto simp: change_feed_ok_def le_imp_less_Suc)
  show ?thesis
    using assms(1) ids bound new top cur
    by (simp add: change_feed_ok_def bump_thread_def Let_def sorted_wrt_append less_imp_le)
qed

lemma change_feed_items [simp]: "change_feed_ok (d\<lparr>db_items := x\<rparr>) = change_feed_ok d"
  by (simp add: change_feed_ok_def)

lemma find_thread_SomeD: "find_thread d th p = Some t \<Longrightarrow> t \<in> set (db_threads d)"
  by (auto simp: find_thread_def dest: find_SomeD)

subsection \<open>Growth of the log\<close>

text \<open>
  What every operation of the store does to the log: the events and changes already there
  stay as they are, new ones go behind them, and the two orders are kept.
\<close>

definition log_ok :: "db \<Rightarrow> bool" where
  "log_ok d \<longleftrightarrow> (\<forall>run. contiguous (seqs run d)) \<and> change_feed_ok d"

definition log_grows :: "db \<Rightarrow> db \<Rightarrow> bool" where
  "log_grows d d' \<longleftrightarrow>
     (\<exists>es. db_events d' = db_events d @ es) \<and> (\<exists>cs. db_changes d' = db_changes d @ cs) \<and>
     (log_ok d \<longrightarrow> log_ok d')"

lemma log_grows_refl [simp, intro]: "log_grows d d"
  by (simp add: log_grows_def)

lemma log_grows_trans [trans]: "log_grows a b \<Longrightarrow> log_grows b c \<Longrightarrow> log_grows a c"
  unfolding log_grows_def by auto

lemma log_grows_same:
  "db_events d' = db_events d \<Longrightarrow> db_threads d' = db_threads d \<Longrightarrow> db_changes d' = db_changes d \<Longrightarrow>
    db_cursor d' = db_cursor d \<Longrightarrow> log_grows d d'"
  by (simp add: log_grows_def log_ok_def seqs_def change_feed_ok_def)

lemma append_event_row_grows:
  assumes "append_event_row run ty p c d = Inr (e, d')"
  shows "log_grows d d'"
proof -
  have "event_appended run d d'" by (rule append_event_row_appends [OF assms])
  then have "log_ok d \<Longrightarrow> \<forall>j. contiguous (seqs j d')"
    using run_log.appends_contiguous by (auto simp: log_ok_def)
  then show ?thesis
    using assms by (elim append_event_rowE) (auto simp: log_grows_def log_ok_def change_feed_ok_def)
qed

lemma bump_thread_grows:
  assumes "th \<in> set (db_threads d)"
  shows "log_grows d (bump_thread title th ty run ts d)"
  using bump_thread_change_feed [OF _ assms]
  by (auto simp: log_grows_def log_ok_def seqs_def bump_thread_def Let_def)

lemma touch_thread_grows:
  assumes "touch_thread_for_run_event run ty h ts d = Inr d'"
  shows "log_grows d d'"
  using assms
  by (auto simp: touch_thread_for_run_event_def Let_def split: option.splits prod.splits if_splits
      intro: log_grows_trans [OF log_grows_same bump_thread_grows] dest!: find_thread_SomeD)

lemma update_thread_projection_grows:
  assumes "update_thread_projection run st ty p h ts d = Inr d'"
  shows "log_grows d d'"
  using assms
  by (auto simp: update_thread_projection_def Let_def split: option.splits prod.splits if_splits
      intro: log_grows_trans [OF log_grows_same bump_thread_grows] dest!: find_thread_SomeD)

lemma append_child_parent_lifecycle_grows:
  assumes "append_child_parent_lifecycle child src sp d = Inr (pe, d')"
  shows "log_grows d d' \<and> without_log d' = without_log d"
proof -
  have step: "log_grows d d' \<and> without_log d' = without_log d"
    if "append_event_row r ty p c d = Inr (e, d1)" "touch_thread_for_run_event r ty' h ts d1 = Inr d'"
    for r ty p c e d1 ty' h ts
  proof -
    have "without_log d1 = without_log d" using that(1) by (rule append_event_rowE)
    then show ?thesis
      using append_event_row_grows [OF that(1)] touch_thread_grows [OF that(2)]
        touch_thread_frame [OF that(2)] by (auto intro: log_grows_trans)
  qed
  show ?thesis
    using assms
    by (auto simp: append_child_parent_lifecycle_def Let_def bindr_Inr_iff
        simp del: encode_payload.simps split: option.splits if_splits dest!: step)
qed

lemma append_event_uncommitted_grows:
  assumes "append_event_uncommitted run ty p c d = Inr (e, pe, d')"
  shows "log_grows d d'" "without_log d' = without_log d"
proof -
  obtain d1 where d1: "append_event_row run ty p c d = Inr (e, d1)"
    and rest: "(child_event_of ty = None \<and> d' = d1) \<or>
      append_child_parent_lifecycle run e (json_payload (Some p)) d1 = Inr (pe, d')"
    using assms by (cases "child_event_of ty") (auto simp: append_event_uncommitted_def bindr_Inr_iff)
  have "log_grows d d1" "without_log d1 = without_log d"
    using d1 by (auto intro: append_event_row_grows elim: append_event_rowE)
  then show "log_grows d d'" "without_log d' = without_log d"
    using rest append_child_parent_lifecycle_grows by (auto intro: log_grows_trans)
qed

lemma append_event_uncommitted_event:
  assumes "append_event_uncommitted run ty p c d = Inr (e, pe, d')"
  shows "e_run e = run" "e_type e = ty" "e_payload e = p" "e_created e = c"
    "e_seq e = next_seq d run" "e \<in> set (db_events d')"
proof -
  obtain d1 where d1: "append_event_row run ty p c d = Inr (e, d1)"
    and g: "log_grows d1 d'"
    using assms append_child_parent_lifecycle_grows
    by (cases "child_event_of ty") (fastforce simp: append_event_uncommitted_def bindr_Inr_iff)+
  show "e_run e = run" "e_type e = ty" "e_payload e = p" "e_created e = c"
    "e_seq e = next_seq d run"
    using d1 by (auto elim: append_event_rowE)
  have "e \<in> set (db_events d1)" using d1 by (auto elim: append_event_rowE)
  then show "e \<in> set (db_events d')" using g by (auto simp: log_grows_def)
qed

text \<open>Both facts in one, for the components' proofs: a change of the log and nothing else.\<close>

definition log_effect :: "db \<Rightarrow> db \<Rightarrow> bool" where
  "log_effect d d' \<longleftrightarrow> log_grows d d' \<and> without_log d' = without_log d"

lemma log_effect_refl [simp, intro]: "log_effect d d"
  by (simp add: log_effect_def)

lemma log_effect_trans [trans]: "log_effect a b \<Longrightarrow> log_effect b e \<Longrightarrow> log_effect a e"
  by (auto simp: log_effect_def intro: log_grows_trans)

lemma append_event_effect:
  "append_event_uncommitted run ty p c d = Inr (e, pe, d') \<Longrightarrow> log_effect d d'"
  by (simp add: log_effect_def append_event_uncommitted_grows)

lemma touch_thread_effect:
  "touch_thread_for_run_event run ty h ts d = Inr d' \<Longrightarrow> log_effect d d'"
  by (simp add: log_effect_def touch_thread_grows touch_thread_frame)

lemma update_thread_projection_effect:
  "update_thread_projection run st ty p h ts d = Inr d' \<Longrightarrow> log_effect d d'"
  by (simp add: log_effect_def update_thread_projection_grows update_thread_projection_frame)

lemmas log_effects = append_event_effect touch_thread_effect update_thread_projection_effect

end
