(* ===== verification/Tool_Receipts.thy ===== *)
theory Tool_Receipts
  imports Event_Log Fixtures
begin

text \<open>
  Tool-execution receipts (store/tool_receipts): one row per side-effecting tool call, from
  \<open>prepared\<close> through \<open>running\<close> to a settled status, with the \<open>outcome_unknown\<close> state in which
  only an explicit reconciliation can decide. A \<open>task\<close> receipt is a subagent: each of its
  transitions is projected as an event on the run. Shown: the status machine every operation
  obeys, that a settled receipt never changes and is never executed again, and that fencing a
  lost attempt leaves nothing running.
\<close>

subsection \<open>Subagent projections (subagents.py)\<close>

definition subagent_event_of :: "receipt_status \<Rightarrow> string \<times> string" where
  "subagent_event_of s = (case s of
      ToolPrepared \<Rightarrow> (''subagent.spawned'', ''queued'')
    | ToolRunning \<Rightarrow> (''subagent.started'', ''running'')
    | ToolPaused \<Rightarrow> (''subagent.waiting'', ''waiting'')
    | ToolCompleted \<Rightarrow> (''subagent.completed'', ''completed'')
    | ToolFailed \<Rightarrow> (''subagent.failed'', ''failed'')
    | ToolRejected \<Rightarrow> (''subagent.failed'', ''failed'')
    | ToolCanceled \<Rightarrow> (''subagent.canceled'', ''canceled'')
    | ToolOutcomeUnknown \<Rightarrow> (''subagent.outcome_unknown'', ''unknown''))"

fun receipt_status_text :: "receipt_status \<Rightarrow> string" where
  "receipt_status_text ToolPrepared = ''prepared''"
| "receipt_status_text ToolRunning = ''running''"
| "receipt_status_text ToolPaused = ''paused''"
| "receipt_status_text ToolCompleted = ''completed''"
| "receipt_status_text ToolFailed = ''failed''"
| "receipt_status_text ToolOutcomeUnknown = ''outcome_unknown''"
| "receipt_status_text ToolRejected = ''rejected''"
| "receipt_status_text ToolCanceled = ''canceled''"

record usage =
  u_calls :: nat
  u_in :: nat
  u_out :: nat
  u_unmetered :: nat
  u_unknown :: nat

text \<open>\<open>COALESCE(SUM(col), 0)\<close> over a nullable column.\<close>

definition sum_opt :: "nat option list \<Rightarrow> nat" where
  "sum_opt xs = sum_list (map (\<lambda>x. case x of None \<Rightarrow> 0 | Some n \<Rightarrow> n) xs)"

definition usage_of_calls :: "call_row list \<Rightarrow> usage" where
  "usage_of_calls cs =
     \<lparr>u_calls = length cs, u_in = sum_opt (map c_in cs), u_out = sum_opt (map c_out cs),
      u_unmetered = count_where (\<lambda>c. c_status c = CallUnmetered) cs,
      u_unknown = count_where (\<lambda>c. c_status c = CallOutcomeUnknown) cs\<rparr>"

definition calls_under :: "db \<Rightarrow> id \<Rightarrow> call_row list" where
  "calls_under d oper = filter (\<lambda>c. c_parent_op c = Some oper) (db_calls d)"

definition subagent_invocation_projection :: "receipt_row \<Rightarrow> usage \<Rightarrow> dict" where
  "subagent_invocation_projection t u =
    (let arguments = json_payload (Some (t_args t))
     in [(''operation_id'', JStr (t_op t)),
         (''parent_run_id'', JStr (t_run t)),
         (''parent_operation_id'', json_opt (t_parent t)),
         (''tool_call_id'', JStr (t_call t)),
         (''subagent_type'', JStr (text_or (dget arguments ''subagent_type'') [])),
         (''description'', JStr (text_or (dget arguments ''description'') [])),
         (''status'', JStr (snd (subagent_event_of (t_status t)))),
         (''receipt_status'', JStr (receipt_status_text (t_status t))),
         (''attempt_count'', JInt (int (t_attempts t))),
         (''usage'', JObj [(''model_calls'', JInt (int (u_calls u))),
                           (''input_tokens'', JInt (int (u_in u))),
                           (''output_tokens'', JInt (int (u_out u))),
                           (''unmetered_calls'', JInt (int (u_unmetered u))),
                           (''outcome_unknown_calls'', JInt (int (u_unknown u)))]),
         (''error_type'', json_opt (t_error t)),
         (''created_at'', json_time (t_created t)),
         (''started_at'', json_time_opt (t_started t)),
         (''completed_at'', json_time_opt (t_completed t)),
         (''updated_at'', json_time (t_updated t))])"

text \<open>The subagent snapshots of a batch of runs, in the order of their receipts.\<close>

definition list_subagent_invocations_for_runs :: "id list \<Rightarrow> db \<Rightarrow> dict list" where
  "list_subagent_invocations_for_runs run_ids d =
    (let wanted = remdups (filter (\<lambda>i. i \<noteq> []) run_ids)
     in map (\<lambda>t. subagent_invocation_projection t (usage_of_calls (calls_under d (t_op t))))
          (select_by (\<lambda>t. (t_created t, t_op t))
            (\<lambda>t. t_name t = ''task'' \<and> t_run t \<in> set wanted) (db_receipts d)))"

definition append_subagent_receipt_event :: "receipt_row \<Rightarrow> db \<Rightarrow> db res" where
  "append_subagent_receipt_event t d =
    (if t_name t \<noteq> ''task'' then Inr d
     else
      (let projected = subagent_invocation_projection t (usage_of_calls (calls_under d (t_op t)));
           ty = fst (subagent_event_of (t_status t))
       in bindr (append_event_uncommitted (t_run t) ty (encode_payload (JObj projected)) (t_updated t) d)
            (\<lambda>(e, _, d1). touch_thread_for_run_event (t_run t) ty (e_seq e) (t_updated t) d1)))"

definition by_creation :: "receipt_row \<Rightarrow> time \<times> id" where
  "by_creation t = (t_created t, t_op t)"

text \<open>\<open>_mark_running_tool_receipts_outcome_unknown_uncommitted\<close>\<close>

definition as_outcome_unknown :: "string \<Rightarrow> time \<Rightarrow> receipt_row \<Rightarrow> receipt_row" where
  "as_outcome_unknown error now t =
     t\<lparr>t_status := ToolOutcomeUnknown, t_error := Some error, t_updated := now, t_completed := Some now\<rparr>"

definition mark_running_tool_receipts_outcome_unknown ::
    "id \<Rightarrow> string \<Rightarrow> string \<Rightarrow> time \<Rightarrow> db \<Rightarrow> db res" where
  "mark_running_tool_receipts_outcome_unknown run attempt error now d =
    (let lost = (\<lambda>t. t_run t = run \<and> t_attempt t = attempt \<and> t_status t = ToolRunning);
         running = select_by by_creation lost (db_receipts d)
     in if running = [] then Inr d
        else foldr_res (\<lambda>t. append_subagent_receipt_event (as_outcome_unknown error now t)) running
               (d\<lparr>db_receipts := update_where lost (as_outcome_unknown error now) (db_receipts d)\<rparr>))"

text \<open>\<open>_cancel_unstarted_tool_receipts_uncommitted\<close>\<close>

definition unstarted :: "receipt_row \<Rightarrow> bool" where
  "unstarted t \<longleftrightarrow> t_status t = ToolPrepared \<or> t_status t = ToolPaused"

definition as_canceled :: "string \<Rightarrow> time \<Rightarrow> receipt_row \<Rightarrow> receipt_row" where
  "as_canceled error now t =
     t\<lparr>t_status := ToolCanceled, t_error := Some error, t_completed := Some now, t_updated := now\<rparr>"

definition cancel_unstarted_tool_receipts :: "id \<Rightarrow> string \<Rightarrow> time \<Rightarrow> db \<Rightarrow> db res" where
  "cancel_unstarted_tool_receipts run error now d =
    (let open_row = (\<lambda>t. t_run t = run \<and> unstarted t);
         open_receipts = select_by by_creation open_row (db_receipts d)
     in if open_receipts = [] then Inr d
        else foldr_res (\<lambda>t. append_subagent_receipt_event (as_canceled error now t)) open_receipts
               (d\<lparr>db_receipts := update_where open_row (as_canceled error now) (db_receipts d)\<rparr>))"

text \<open>
  \<open>_settle_task_descendants_uncommitted\<close>: the recursive query gives, for each depth up to 64,
  the receipts reached from the task through \<open>parent_operation_id\<close>; the deepest come first.
\<close>

definition child_operations :: "db \<Rightarrow> id \<Rightarrow> id list \<Rightarrow> id list" where
  "child_operations d run ops =
     map t_op (filter (\<lambda>t. t_run t = run \<and> (\<exists>p\<in>set ops. t_parent t = Some p)) (db_receipts d))"

fun operations_at :: "db \<Rightarrow> id \<Rightarrow> nat \<Rightarrow> nat \<Rightarrow> id list \<Rightarrow> (id \<times> nat) list" where
  "operations_at d run 0 depth ops = []"
| "operations_at d run (Suc n) depth ops =
     map (\<lambda>i. (i, depth)) ops @ operations_at d run n (Suc depth) (child_operations d run ops)"

definition max_descendant_depth :: nat where
  "max_descendant_depth = 64"

definition task_descendants :: "db \<Rightarrow> id \<Rightarrow> id \<Rightarrow> receipt_row list" where
  "task_descendants d run oper =
    (let found = operations_at d run max_descendant_depth 1 (child_operations d run [oper]);
         joined = concat (map (\<lambda>(i, depth).
                    map (\<lambda>t. (t, depth)) (filter (\<lambda>t. t_op t = i) (db_receipts d))) found)
     in map fst (sort_key (\<lambda>(t, depth). (max_descendant_depth - depth, t_created t, t_op t)) joined))"

definition descendant_error :: "receipt_status \<Rightarrow> string" where
  "descendant_error s = (case s of
      ToolCompleted \<Rightarrow> ''ParentSubagentCompleted''
    | ToolFailed \<Rightarrow> ''ParentSubagentFailed''
    | _ \<Rightarrow> ''ParentSubagentCanceled'')"

definition settle_descendant ::
    "id \<Rightarrow> receipt_status \<Rightarrow> time \<Rightarrow> receipt_row \<Rightarrow> db \<Rightarrow> db res" where
  "settle_descendant run parent_status now child d =
    (let settled = (if unstarted child then Some ToolCanceled
                    else if t_status child = ToolRunning then Some ToolOutcomeUnknown else None)
     in case settled of
          None \<Rightarrow> Inr d
        | Some s \<Rightarrow>
           (let f = (\<lambda>t. t\<lparr>t_status := s, t_error := Some (descendant_error parent_status),
                           t_completed := Some now, t_updated := now\<rparr>)
            in append_subagent_receipt_event (f child)
                 (d\<lparr>db_receipts := update_where (\<lambda>t. t_op t = t_op child \<and> t_run t = run) f
                      (db_receipts d)\<rparr>)))"

definition settle_task_descendants ::
    "id \<Rightarrow> id \<Rightarrow> receipt_status \<Rightarrow> time \<Rightarrow> db \<Rightarrow> db res" where
  "settle_task_descendants run oper parent_status now d =
     foldr_res (settle_descendant run parent_status now) (task_descendants d run oper) d"

definition settle_task_receipt ::
    "ctx \<Rightarrow> id \<Rightarrow> id \<Rightarrow> receipt_status \<Rightarrow> json option \<Rightarrow> string option \<Rightarrow> string option \<Rightarrow> db \<Rightarrow>
     (receipt_row \<times> db) res" where
  "settle_task_receipt c oper run status result result_hash error d =
    (if status \<notin> {ToolCompleted, ToolFailed, ToolCanceled} then Inl PyValueError
     else run_write_transaction c None run d (\<lambda>d.
       (case receipt_in_run d oper run of
          None \<Rightarrow> Inl ToolReceiptStateError
        | Some parent \<Rightarrow>
           if t_name parent \<noteq> ''task'' then Inl ToolReceiptStateError
           else
            (let now = x_clock c 1;
                 open_row = (\<lambda>t. t_op t = oper \<and> t_run t = run \<and>
                   (t_status t = ToolRunning \<or> (status = ToolCanceled \<and> unstarted t)));
                 f = (\<lambda>t. t\<lparr>t_status := status, t_result := result, t_result_hash := result_hash,
                            t_error := error, t_updated := now, t_completed := Some now\<rparr>)
             in bindr (settle_task_descendants run oper status now d)
                 (\<lambda>d1.
                   if count_where open_row (db_receipts d1) \<noteq> 1 then Inl ToolReceiptStateError
                   else
                    (let d2 = d1\<lparr>db_receipts := update_where open_row f (db_receipts d1)\<rparr>
                     in case get_receipt_row d2 oper of
                          None \<Rightarrow> Inl PyAssertionError
                        | Some t \<Rightarrow> bindr (append_subagent_receipt_event t d2) (\<lambda>d3. Inr (t, d3))))))))"

subsection \<open>Receipts (\_\_init\_\_.py)\<close>

definition require_tool_receipt_in_run :: "id \<Rightarrow> id \<Rightarrow> db \<Rightarrow> unit res" where
  "require_tool_receipt_in_run oper run d =
    (case get_receipt_row d oper of
       None \<Rightarrow> Inl ToolReceiptStateError
     | Some t \<Rightarrow> if t_run t \<noteq> run then Inl ToolReceiptStateError else Inr ())"

record receipt_request =
  rq_op :: id
  rq_run :: id
  rq_attempt :: string
  rq_call :: string
  rq_name :: string
  rq_args_hash :: string
  rq_args :: json
  rq_risk :: string
  rq_version :: string
  rq_namespace :: string
  rq_parent :: "id option"

definition same_operation :: "receipt_request \<Rightarrow> receipt_row \<Rightarrow> bool" where
  "same_operation q t \<longleftrightarrow>
     t_op t = rq_op q \<and> t_namespace t = rq_namespace q \<and>
     (rq_parent q = None \<or> t_parent t = None \<or> t_parent t = rq_parent q) \<and>
     t_name t = rq_name q \<and> t_version t = rq_version q \<and> t_args_hash t = rq_args_hash q"

definition new_receipt :: "receipt_request \<Rightarrow> time \<Rightarrow> receipt_row" where
  "new_receipt q now =
     \<lparr>t_op = rq_op q, t_run = rq_run q, t_attempt = rq_attempt q, t_namespace = rq_namespace q,
      t_parent = rq_parent q, t_call = rq_call q, t_name = rq_name q, t_version = rq_version q,
      t_args_hash = rq_args_hash q, t_args = rq_args q, t_risk = rq_risk q,
      t_status = ToolPrepared, t_attempts = 0, t_result = None, t_result_hash = None,
      t_error = None, t_decision = None, t_source = None, t_reason = None, t_model = None,
      t_reviewed = None, t_created = now, t_started = None, t_completed = None, t_updated = now\<rparr>"

definition prepare_tool_receipt ::
    "ctx \<Rightarrow> receipt_request \<Rightarrow> db \<Rightarrow> (receipt_row \<times> db) res" where
  "prepare_tool_receipt c q d =
    run_write_transaction c None (rq_run q) d (\<lambda>d.
     bindr (case rq_parent q of
              None \<Rightarrow> Inr ()
            | Some p \<Rightarrow> if p = rq_op q then Inl ToolReceiptStateError
                       else require_tool_receipt_in_run p (rq_run q) d)
      (\<lambda>_. case find (\<lambda>t. t_run t = rq_run q \<and> t_namespace t = rq_namespace q \<and>
                          t_call t = rq_call q) (db_receipts d) of
         Some t \<Rightarrow>
           if \<not> same_operation q t then Inl ToolReceiptConflictError
           else if rq_parent q \<noteq> None \<and> t_parent t = None
             then Inr (t\<lparr>t_parent := rq_parent q\<rparr>,
                   d\<lparr>db_receipts := update_where (\<lambda>r. t_op r = rq_op q \<and> t_parent r = None)
                        (\<lambda>r. r\<lparr>t_parent := rq_parent q\<rparr>) (db_receipts d)\<rparr>)
           else Inr (t, d)
       | None \<Rightarrow>
           if get_run_row d (rq_run q) = None \<or> get_receipt_row d (rq_op q) \<noteq> None
           then Inl SqlIntegrityError
           else
            (let t = new_receipt q (x_clock c 1)
             in bindr (append_subagent_receipt_event t (d\<lparr>db_receipts := db_receipts d @ [t]\<rparr>))
                  (\<lambda>d1. Inr (t, d1)))))"

definition record_tool_review ::
    "ctx \<Rightarrow> id \<Rightarrow> id \<Rightarrow> string \<Rightarrow> string \<Rightarrow> string \<Rightarrow> string option \<Rightarrow> db \<Rightarrow> (receipt_row \<times> db) res" where
  "record_tool_review c oper run decision source reason model d =
    (if decision \<notin> {''allow'', ''ask'', ''deny''} then Inl PyValueError
     else if source \<notin> {''rule'', ''llm'', ''fallback'', ''user'', ''run_grant''} then Inl PyValueError
     else run_write_transaction c None run d (\<lambda>d.
       (case receipt_in_run d oper run of
          None \<Rightarrow> Inl PyKeyError
        | Some t \<Rightarrow>
           if t_decision t \<noteq> None
           then if t_decision t \<noteq> Some decision \<or> t_source t \<noteq> Some source \<or>
                   opt_or (t_reason t) [] \<noteq> reason \<or> t_model t \<noteq> model
                then Inl ToolReceiptStateError else Inr (t, d)
           else
            (let now = x_clock c 1;
                 f = (\<lambda>t. t\<lparr>t_decision := Some decision, t_source := Some source,
                            t_reason := Some reason, t_model := model,
                            t_reviewed := Some now, t_updated := now\<rparr>);
                 d1 = d\<lparr>db_receipts := update_where
                        (\<lambda>t. t_op t = oper \<and> t_run t = run \<and> t_decision t = None) f (db_receipts d)\<rparr>
             in case receipt_in_run d1 oper run of
                  None \<Rightarrow> Inl PyAssertionError
                | Some t' \<Rightarrow> Inr (t', d1)))))"

text \<open>\<open>begin_tool_receipt\<close>: the only way into \<open>running\<close>.\<close>

definition settled_receipt :: "receipt_status \<Rightarrow> bool" where
  "settled_receipt s \<longleftrightarrow> s \<in> {ToolCompleted, ToolFailed, ToolRejected, ToolCanceled}"

definition lease_job_row :: "exec_lease \<Rightarrow> id \<Rightarrow> db \<Rightarrow> job_row option" where
  "lease_job_row l run d =
     find (\<lambda>j. j_id j = l_job l \<and> j_run j = run \<and> j_status j = JobLeased \<and>
               j_owner j = Some (l_owner l) \<and> j_gen j = l_gen l) (db_jobs d)"

definition start_receipt :: "id \<Rightarrow> id \<Rightarrow> string \<Rightarrow> time \<Rightarrow> db \<Rightarrow> (receipt_row \<times> db) res" where
  "start_receipt oper run attempt now d =
    (let f = (\<lambda>t. t\<lparr>t_status := ToolRunning, t_attempt := attempt, t_attempts := t_attempts t + 1,
                    t_started := (case t_started t of None \<Rightarrow> Some now | Some s \<Rightarrow> Some s),
                    t_updated := now\<rparr>);
         d1 = d\<lparr>db_receipts := update_where (\<lambda>t. t_op t = oper \<and> t_run t = run) f (db_receipts d)\<rparr>
     in case get_receipt_row d1 oper of
          None \<Rightarrow> Inl PyAssertionError
        | Some t \<Rightarrow> bindr (append_subagent_receipt_event t d1) (\<lambda>d2. Inr (t, d2)))"

definition cancel_before_start :: "id \<Rightarrow> id \<Rightarrow> receipt_row \<Rightarrow> time \<Rightarrow> db \<Rightarrow> (receipt_row \<times> db) res" where
  "cancel_before_start oper run t now d =
    bindr (if t_name t = ''task'' then settle_task_descendants run oper ToolCanceled now d else Inr d)
     (\<lambda>d1.
       (let d2 = d1\<lparr>db_receipts := update_where (\<lambda>t. t_op t = oper \<and> t_run t = run \<and> unstarted t)
                     (as_canceled ''RunCanceledBeforeToolStart'' now) (db_receipts d1)\<rparr>
        in case get_receipt_row d2 oper of
             None \<Rightarrow> Inl PyAssertionError
           | Some t' \<Rightarrow> bindr (append_subagent_receipt_event t' d2) (\<lambda>d3. Inr (t', d3))))"

definition begin_tool_receipt ::
    "ctx \<Rightarrow> id \<Rightarrow> id \<Rightarrow> string \<Rightarrow> db \<Rightarrow> (receipt_row \<times> db) res" where
  "begin_tool_receipt c oper run attempt d =
    run_write_transaction c None run d (\<lambda>d.
     (case receipt_in_run d oper run of
        None \<Rightarrow> Inl ToolReceiptStateError
      | Some t \<Rightarrow>
         if settled_receipt (t_status t) then Inr (t, d)
         else if t_status t = ToolRunning \<or> t_status t = ToolOutcomeUnknown
           then Inl ToolOutcomeUnknownError
         else if \<not> unstarted t then Inl ToolReceiptStateError
         else
          (case x_lease c of
             None \<Rightarrow> start_receipt oper run attempt (x_clock c 1) d
           | Some l \<Rightarrow>
              (case lease_job_row l run d of
                 None \<Rightarrow> Inl LeaseFenceError
               | Some j \<Rightarrow>
                   if j_cancel j \<noteq> None then cancel_before_start oper run t (x_clock c 1) d
                   else start_receipt oper run attempt (x_clock c 1) d))))"

definition settle_tool_receipt ::
    "ctx \<Rightarrow> id \<Rightarrow> id \<Rightarrow> receipt_status \<Rightarrow> json option \<Rightarrow> string option \<Rightarrow> string option \<Rightarrow> db \<Rightarrow>
     (receipt_row \<times> db) res" where
  "settle_tool_receipt c oper run status result result_hash error d =
    (if status \<in> {ToolPrepared, ToolRunning} then Inl PyValueError
     else run_write_transaction c None run d (\<lambda>d.
       (let now = x_clock c 1;
            open_row = (\<lambda>t. t_op t = oper \<and> t_run t = run \<and>
              (t_status t = ToolRunning \<or>
               (status \<in> {ToolRejected, ToolFailed} \<and> t_status t = ToolPrepared) \<or>
               (status = ToolCanceled \<and> unstarted t)));
            f = (\<lambda>t. t\<lparr>t_status := status, t_result := result, t_result_hash := result_hash,
                       t_error := error, t_updated := now,
                       t_completed := (if status = ToolPaused then t_completed t else Some now)\<rparr>);
            d1 = d\<lparr>db_receipts := update_where open_row f (db_receipts d)\<rparr>
        in if count_where open_row (db_receipts d) \<noteq> 1 then Inl ToolReceiptStateError
           else (case get_receipt_row d1 oper of
                   None \<Rightarrow> Inl PyAssertionError
                 | Some t \<Rightarrow> bindr (append_subagent_receipt_event t d1) (\<lambda>d2. Inr (t, d2))))))"

text \<open>\<open>reconcile_tool_receipt\<close>: out of \<open>outcome_unknown\<close>, by the user's word.\<close>

definition reconciled_status :: "string \<Rightarrow> receipt_status option" where
  "reconciled_status decision =
    (if decision = ''confirmed_completed'' then Some ToolCompleted
     else if decision = ''retry_not_executed'' then Some ToolPrepared
     else if decision = ''abort'' then Some ToolFailed else None)"

definition reconcile_tool_receipt ::
    "ctx \<Rightarrow> id \<Rightarrow> id \<Rightarrow> string \<Rightarrow> json option \<Rightarrow> string option \<Rightarrow> db \<Rightarrow> (receipt_row \<times> db) res" where
  "reconcile_tool_receipt c oper run decision result result_hash d =
    (case reconciled_status decision of
       None \<Rightarrow> Inl PyValueError
     | Some status \<Rightarrow>
        run_write_transaction c None run d (\<lambda>d.
         (let now = x_clock c 1;
              retry = (decision = ''retry_not_executed'');
              open_row = (\<lambda>t. t_op t = oper \<and> t_run t = run \<and> t_status t = ToolOutcomeUnknown);
              f = (\<lambda>t. t\<lparr>t_status := status,
                         t_result := (if retry then None else result),
                         t_result_hash := (if retry then None else result_hash),
                         t_error := (if decision = ''abort'' then Some ''ReconciledByUser'' else None),
                         t_updated := now,
                         t_completed := (if status = ToolPrepared then None else Some now)\<rparr>);
              d1 = d\<lparr>db_receipts := update_where open_row f (db_receipts d)\<rparr>
          in if count_where open_row (db_receipts d) \<noteq> 1 then Inl ToolReceiptStateError
             else (case get_receipt_row d1 oper of
                     None \<Rightarrow> Inl PyAssertionError
                   | Some t \<Rightarrow> bindr (append_subagent_receipt_event t d1) (\<lambda>d2. Inr (t, d2))))))"

definition tool_execution_cancel_requested :: "ctx \<Rightarrow> id \<Rightarrow> db \<Rightarrow> bool res" where
  "tool_execution_cancel_requested c run d =
    (case x_lease c of
       None \<Rightarrow> Inr False
     | Some l \<Rightarrow>
        if l_run l \<noteq> run then Inl LeaseFenceError
        else (case find (\<lambda>j. j_id j = l_job l \<and> j_run j = run) (db_jobs d) of
                None \<Rightarrow> Inl LeaseFenceError
              | Some j \<Rightarrow>
                  if j_status j \<noteq> JobLeased \<or> j_owner j \<noteq> Some (l_owner l) \<or>
                     j_gen j \<noteq> l_gen l \<or> \<not> after (j_expires j) (x_clock c 0)
                  then Inl LeaseFenceError
                  else Inr (j_cancel j \<noteq> None)))"

definition list_tool_receipts_for_run :: "id \<Rightarrow> db \<Rightarrow> receipt_row list" where
  "list_tool_receipts_for_run run d = select_by by_creation (\<lambda>t. t_run t = run) (db_receipts d)"

subsection \<open>The lifecycle of a receipt\<close>

text \<open>
  \<open>adopt\<close> is the one way to complete without running: the reconciliation of an earlier run's call
  settles the call that stands for it (store/waits/reconciliation.py).
\<close>

inductive receipt_step :: "receipt_status \<Rightarrow> receipt_status \<Rightarrow> bool" where
  start: "s = ToolPrepared \<or> s = ToolPaused \<Longrightarrow> receipt_step s ToolRunning"
| cancel: "s = ToolPrepared \<or> s = ToolPaused \<Longrightarrow> receipt_step s ToolCanceled"
| refuse: "t = ToolRejected \<or> t = ToolFailed \<Longrightarrow> receipt_step ToolPrepared t"
| adopt: "receipt_step ToolPrepared ToolCompleted"
| finish: "t \<noteq> ToolPrepared \<Longrightarrow> t \<noteq> ToolRunning \<Longrightarrow> receipt_step ToolRunning t"
| reconcile: "t = ToolCompleted \<or> t = ToolFailed \<or> t = ToolPrepared \<Longrightarrow>
    receipt_step ToolOutcomeUnknown t"

inductive_cases receipt_stepE: "receipt_step s t"

inductive_simps receipt_step_simps [simp]:
  "receipt_step ToolPrepared t" "receipt_step ToolPaused t" "receipt_step ToolRunning t"
  "receipt_step ToolOutcomeUnknown t" "receipt_step ToolCompleted t" "receipt_step ToolFailed t"
  "receipt_step ToolRejected t" "receipt_step ToolCanceled t"

definition receipts_evolve :: "db \<Rightarrow> db \<Rightarrow> bool" where
  "receipts_evolve d d' = rows_evolve receipt_step t_status t_op (db_receipts d) (db_receipts d')"

interpretation receipts: lifecycle_table receipt_step settled_receipt db_receipts t_status t_op receipts_evolve
proof unfold_locales
  fix s t
  show "settled_receipt s \<Longrightarrow> \<not> receipt_step s t" by (auto simp: settled_receipt_def)
next
  fix s
  show "\<not> settled_receipt s \<Longrightarrow> \<exists>t. receipt_step s t \<and> t \<noteq> s"
    by (cases s) (auto simp: settled_receipt_def)
qed (simp add: receipts_evolve_def)

text \<open>\<open>operation_id\<close> is the primary key.\<close>

definition op_distinct :: "db \<Rightarrow> bool" where
  "op_distinct d \<longleftrightarrow> distinct (map t_op (db_receipts d))"

lemma op_distinct_same_row:
  "op_distinct d \<Longrightarrow> r \<in> set (db_receipts d) \<Longrightarrow> r' \<in> set (db_receipts d) \<Longrightarrow> t_op r = t_op r' \<Longrightarrow> r = r'"
  unfolding op_distinct_def by (metis distinct_map inj_onD)

text \<open>What a replay of a settled call is answered with: it never changes.\<close>

definition t_outcome :: "receipt_row \<Rightarrow>
    json option \<times> string option \<times> string option \<times> time option \<times> nat" where
  "t_outcome t = (t_result t, t_result_hash t, t_error t, t_completed t, t_attempts t)"

definition outcomes_kept :: "db \<Rightarrow> db \<Rightarrow> bool" where
  "outcomes_kept d d' \<longleftrightarrow> (\<forall>i<length (db_receipts d). settled_receipt (t_status (db_receipts d ! i)) \<longrightarrow>
     t_outcome (db_receipts d' ! i) = t_outcome (db_receipts d ! i))"

lemma outcomes_kept_same: "db_receipts d' = db_receipts d \<Longrightarrow> outcomes_kept d d'"
  by (simp add: outcomes_kept_def)

lemma outcomes_kept_trans:
  assumes "receipts_evolve a b" "outcomes_kept a b" "outcomes_kept b e"
  shows "outcomes_kept a e"
  unfolding outcomes_kept_def
proof (intro allI impI)
  fix i assume i: "i < length (db_receipts a)" "settled_receipt (t_status (db_receipts a ! i))"
  have "i < length (db_receipts b)" "t_status (db_receipts b ! i) = t_status (db_receipts a ! i)"
    using assms(1) i receipts.settled_only_self by (auto simp: receipts_evolve_def rows_evolve_def)
  then show "t_outcome (db_receipts e ! i) = t_outcome (db_receipts a ! i)"
    using assms(2,3) i by (auto simp: outcomes_kept_def)
qed

text \<open>What a receipt operation may do to the database.\<close>

definition receipt_effect :: "db \<Rightarrow> db \<Rightarrow> bool" where
  "receipt_effect d d' \<longleftrightarrow>
     receipts_evolve d d' \<and> outcomes_kept d d' \<and> log_grows d d' \<and>
     without_receipts d' = without_receipts d \<and> (op_distinct d \<longrightarrow> op_distinct d')"

lemma receipt_effect_refl [simp, intro]: "receipt_effect d d"
  by (simp add: receipt_effect_def receipts.evolves_refl outcomes_kept_same)

lemma receipt_effect_trans [trans]:
  "receipt_effect a b \<Longrightarrow> receipt_effect b e \<Longrightarrow> receipt_effect a e"
  using outcomes_kept_trans log_grows_trans receipts.evolves_trans
  unfolding receipt_effect_def by metis

lemma receipt_effect_log: "log_effect d d' \<Longrightarrow> receipt_effect d d'"
  using without_log_frame(4) [of d' d]
  by (auto simp: receipt_effect_def log_effect_def op_distinct_def
      intro: receipts.evolves_same without_log_receipts outcomes_kept_same)

lemma receipt_effect_update:
  assumes "\<And>r. r \<in> set (db_receipts d) \<Longrightarrow> p r \<Longrightarrow>
      receipt_step\<^sup>*\<^sup>* (t_status r) (t_status (f r)) \<and> t_op (f r) = t_op r"
    and "\<And>r. r \<in> set (db_receipts d) \<Longrightarrow> p r \<Longrightarrow> settled_receipt (t_status r) \<Longrightarrow>
      t_outcome (f r) = t_outcome r"
  shows "receipt_effect d (d\<lparr>db_receipts := update_where p f (db_receipts d)\<rparr>)"
proof -
  have "receipts_evolve d (d\<lparr>db_receipts := update_where p f (db_receipts d)\<rparr>)"
    by (rule receipts.evolves_update [where p = p and f = f]) (auto simp: assms)
  moreover have "map t_op (update_where p f (db_receipts d)) = map t_op (db_receipts d)"
    using assms by (auto simp: update_where_def)
  moreover have "outcomes_kept d (d\<lparr>db_receipts := update_where p f (db_receipts d)\<rparr>)"
    using assms(2) by (simp add: outcomes_kept_def update_where_def)
  ultimately show ?thesis
    by (auto simp: receipt_effect_def op_distinct_def intro: log_grows_same)
qed

lemma receipt_effect_insert:
  "t_op t \<notin> t_op ` set (db_receipts d) \<Longrightarrow> receipt_effect d (d\<lparr>db_receipts := db_receipts d @ [t]\<rparr>)"
  by (auto simp: receipt_effect_def op_distinct_def outcomes_kept_def nth_append
      intro: log_grows_same receipts.evolves_append)

lemma append_subagent_receipt_event_effect:
  assumes "append_subagent_receipt_event t d = Inr d'"
  shows "log_effect d d'"
proof (cases "t_name t = ''task''")
  case False
  then show ?thesis using assms by (simp add: append_subagent_receipt_event_def)
next
  case True
  then obtain ty p c e pe d1 h where
      "append_event_uncommitted (t_run t) ty p c d = Inr (e, pe, d1)"
      "touch_thread_for_run_event (t_run t) ty h c d1 = Inr d'"
    using assms by (auto simp: append_subagent_receipt_event_def Let_def bindr_Inr_iff
        simp del: encode_payload.simps)
  then show ?thesis by (blast intro: log_effect_trans log_effects)
qed

lemma append_subagent_receipt_event_receipts:
  "append_subagent_receipt_event t d = Inr d' \<Longrightarrow> db_receipts d' = db_receipts d"
  using append_subagent_receipt_event_effect without_log_frame(4) log_effect_def by blast

lemma subagent_event_effect:
  "append_subagent_receipt_event t d = Inr d' \<Longrightarrow> receipt_effect d d'"
  by (rule receipt_effect_log) (rule append_subagent_receipt_event_effect)

lemma subagent_events_loop:
  assumes "foldr_res (\<lambda>t. append_subagent_receipt_event (g t)) xs d = Inr d'"
  shows "receipt_effect d d'" "db_receipts d' = db_receipts d"
proof -
  show "receipt_effect d d'"
    by (rule foldr_res_invariant [where I = "receipt_effect d", OF assms])
      (auto intro: receipt_effect_trans subagent_event_effect)
  show "db_receipts d' = db_receipts d"
    by (rule foldr_res_frame [where g = db_receipts, OF assms])
      (simp add: append_subagent_receipt_event_receipts)
qed

text \<open>
  Selecting rows, updating them and projecting each of them is one pattern: fencing a lost
  attempt and closing what never started are two instances.
\<close>

lemma update_and_project:
  assumes "(if select_by by_creation p (db_receipts d) = [] then Inr d
      else foldr_res (\<lambda>t. append_subagent_receipt_event (f t)) (select_by by_creation p (db_receipts d))
             (d\<lparr>db_receipts := update_where p f (db_receipts d)\<rparr>)) = Inr d'"
    and "\<And>r. p r \<Longrightarrow> receipt_step\<^sup>*\<^sup>* (t_status r) (t_status (f r)) \<and> t_op (f r) = t_op r \<and>
      \<not> settled_receipt (t_status r)"
  shows "receipt_effect d d' \<and> db_receipts d' = update_where p f (db_receipts d)"
proof (cases "select_by by_creation p (db_receipts d) = []")
  case True
  then have "{r \<in> set (db_receipts d). p r} = {}" by (metis set_select_by set_empty)
  then have "update_where p f (db_receipts d) = db_receipts d" by (intro update_where_idle) auto
  then show ?thesis using assms(1) True by simp
next
  case False
  let ?d1 = "d\<lparr>db_receipts := update_where p f (db_receipts d)\<rparr>"
  have loop: "foldr_res (\<lambda>t. append_subagent_receipt_event (f t))
      (select_by by_creation p (db_receipts d)) ?d1 = Inr d'"
    using assms(1) False by simp
  have "receipt_effect d ?d1" by (rule receipt_effect_update) (use assms(2) in auto)
  then show ?thesis using subagent_events_loop [OF loop] receipt_effect_trans by auto
qed

lemma as_outcome_unknown_step:
  "t_status t = ToolRunning \<Longrightarrow>
     receipt_step\<^sup>*\<^sup>* (t_status t) (t_status (as_outcome_unknown err now t)) \<and>
     t_op (as_outcome_unknown err now t) = t_op t \<and> \<not> settled_receipt (t_status t)"
  by (auto simp: as_outcome_unknown_def settled_receipt_def)

lemma as_canceled_step:
  "unstarted t \<Longrightarrow>
     receipt_step\<^sup>*\<^sup>* (t_status t) (t_status (as_canceled err now t)) \<and>
     t_op (as_canceled err now t) = t_op t \<and> \<not> settled_receipt (t_status t)"
  by (auto simp: as_canceled_def unstarted_def settled_receipt_def)

lemma mark_running_effect:
  assumes "mark_running_tool_receipts_outcome_unknown run att err now d = Inr d'"
  shows "receipt_effect d d' \<and>
    db_receipts d' = update_where (\<lambda>t. t_run t = run \<and> t_attempt t = att \<and> t_status t = ToolRunning)
      (as_outcome_unknown err now) (db_receipts d)"
  by (rule update_and_project
      [OF assms [unfolded mark_running_tool_receipts_outcome_unknown_def Let_def]])
    (rule as_outcome_unknown_step, simp)

lemma cancel_unstarted_effect:
  assumes "cancel_unstarted_tool_receipts run err now d = Inr d'"
  shows "receipt_effect d d' \<and>
    db_receipts d' = update_where (\<lambda>t. t_run t = run \<and> unstarted t) (as_canceled err now) (db_receipts d)"
  by (rule update_and_project [OF assms [unfolded cancel_unstarted_tool_receipts_def Let_def]])
    (rule as_canceled_step, simp)

subsection \<open>Settling the descendants of a task\<close>

text \<open>The status a descendant must end in, by the status it was found with.\<close>

definition fenced_status :: "receipt_status \<Rightarrow> receipt_status" where
  "fenced_status s = (case s of
      ToolPrepared \<Rightarrow> ToolCanceled | ToolPaused \<Rightarrow> ToolCanceled
    | ToolRunning \<Rightarrow> ToolOutcomeUnknown | _ \<Rightarrow> s)"

lemma fenced_status_step: "receipt_step\<^sup>*\<^sup>* s (fenced_status s)"
  by (cases s) (auto simp: fenced_status_def)

lemma fenced_status_idem [simp]: "fenced_status (fenced_status s) = fenced_status s"
  by (cases s) (auto simp: fenced_status_def)

text \<open>
  The loop over the descendants of a task: a database is \<open>part_fenced\<close> when every row is as it
  was found or in its fenced status, and then one more iteration keeps it so and has the
  visited row fenced.
\<close>

definition part_fenced :: "db \<Rightarrow> db \<Rightarrow> bool" where
  "part_fenced d d' \<longleftrightarrow> length (db_receipts d') = length (db_receipts d) \<and>
     (\<forall>i<length (db_receipts d). t_op (db_receipts d' ! i) = t_op (db_receipts d ! i) \<and>
        t_run (db_receipts d' ! i) = t_run (db_receipts d ! i) \<and>
        (settled_receipt (t_status (db_receipts d ! i)) \<longrightarrow>
           t_outcome (db_receipts d' ! i) = t_outcome (db_receipts d ! i)) \<and>
        (t_status (db_receipts d' ! i) = t_status (db_receipts d ! i) \<or>
         t_status (db_receipts d' ! i) = fenced_status (t_status (db_receipts d ! i))))"

lemma part_fenced_refl [simp]: "part_fenced d d"
  by (simp add: part_fenced_def)

lemma part_fenced_effect: "part_fenced d d' \<Longrightarrow> receipts_evolve d d'"
  by (auto simp: part_fenced_def receipts_evolve_def rows_evolve_def)
    (metis fenced_status_step rtranclp.rtrancl_refl)

lemma part_fenced_outcomes: "part_fenced d d' \<Longrightarrow> outcomes_kept d d'"
  by (simp add: part_fenced_def outcomes_kept_def)

lemma settle_descendant_effect:
  assumes step: "settle_descendant run ps now child x = Inr y"
    and od: "op_distinct d" "child \<in> set (db_receipts d)"
    and inv: "part_fenced d x"
  shows "part_fenced d y \<and> log_grows x y \<and> without_receipts y = without_receipts x \<and>
    (\<forall>i<length (db_receipts d). t_run child = run \<longrightarrow> t_op (db_receipts d ! i) = t_op child \<longrightarrow>
       t_status (db_receipts y ! i) = fenced_status (t_status (db_receipts d ! i))) \<and>
    (\<forall>i<length (db_receipts d). t_status (db_receipts x ! i) = fenced_status (t_status (db_receipts d ! i)) \<longrightarrow>
       t_status (db_receipts y ! i) = fenced_status (t_status (db_receipts d ! i)))"
proof -
  let ?s = "fenced_status (t_status child)"
  let ?f = "\<lambda>t. t\<lparr>t_status := ?s, t_error := Some (descendant_error ps), t_completed := Some now, t_updated := now\<rparr>"
  let ?p = "\<lambda>t. t_op t = t_op child \<and> t_run t = run"
  let ?x1 = "x\<lparr>db_receipts := update_where ?p ?f (db_receipts x)\<rparr>"
  have found: "db_receipts d ! i = child"
    if "i < length (db_receipts d)" "t_op (db_receipts d ! i) = t_op child" for i
    using op_distinct_same_row [OF od(1) _ od(2)] that nth_mem by blast
  consider "unstarted child \<or> t_status child = ToolRunning"
      "append_subagent_receipt_event (?f child) ?x1 = Inr y"
    | "\<not> unstarted child" "t_status child \<noteq> ToolRunning" "y = x"
    using step by (auto simp: settle_descendant_def unstarted_def fenced_status_def Let_def split: if_splits)
  then show ?thesis
  proof cases
    case 1
    have "without_receipts ?x1 = without_receipts x" "log_grows x ?x1"
      by (auto intro: log_grows_same)
    moreover have "log_effect ?x1 y" by (rule append_subagent_receipt_event_effect [OF 1(2)])
    moreover have rows: "db_receipts y = update_where ?p ?f (db_receipts x)"
      using append_subagent_receipt_event_receipts [OF 1(2)] by simp
    moreover have open_child: "\<not> settled_receipt (t_status (db_receipts d ! i))"
      if "i < length (db_receipts d)" "t_op (db_receipts d ! i) = t_op child" for i
      using found [OF that] 1(1) by (auto simp: settled_receipt_def unstarted_def)
    ultimately show ?thesis
      using inv found
      by (auto simp: part_fenced_def update_where_def log_effect_def
          intro: log_grows_trans dest: without_log_receipts)
  next
    case 2
    then have "?s = t_status child"
      by (cases "t_status child") (auto simp: fenced_status_def unstarted_def)
    then show ?thesis using 2(3) inv found by (auto simp: part_fenced_def) metis
  qed
qed

lemma settle_descendants_loop:
  assumes "foldr_res (settle_descendant run ps now) cs x = Inr y"
    and "op_distinct d" "set cs \<subseteq> set (db_receipts d)" "part_fenced d x"
  shows "part_fenced d y \<and> log_grows x y \<and> without_receipts y = without_receipts x \<and>
    (\<forall>i<length (db_receipts d).
       t_status (db_receipts x ! i) = fenced_status (t_status (db_receipts d ! i)) \<or>
       (db_receipts d ! i \<in> set cs \<and> t_run (db_receipts d ! i) = run) \<longrightarrow>
       t_status (db_receipts y ! i) = fenced_status (t_status (db_receipts d ! i)))"
  using assms(1,3,4)
proof (induction cs arbitrary: x)
  case Nil
  then show ?case by auto
next
  case (Cons c cs)
  obtain z where z: "settle_descendant run ps now c x = Inr z"
    and rest: "foldr_res (settle_descendant run ps now) cs z = Inr y"
    using Cons.prems(1) by (auto simp: bindr_Inr_iff)
  have head: "part_fenced d z \<and> log_grows x z \<and> without_receipts z = without_receipts x \<and>
    (\<forall>i<length (db_receipts d). t_run c = run \<longrightarrow> t_op (db_receipts d ! i) = t_op c \<longrightarrow>
       t_status (db_receipts z ! i) = fenced_status (t_status (db_receipts d ! i))) \<and>
    (\<forall>i<length (db_receipts d). t_status (db_receipts x ! i) = fenced_status (t_status (db_receipts d ! i)) \<longrightarrow>
       t_status (db_receipts z ! i) = fenced_status (t_status (db_receipts d ! i)))"
    using settle_descendant_effect [OF z assms(2) _ Cons.prems(3)] Cons.prems(2) by auto
  have tail: "part_fenced d y \<and> log_grows z y \<and> without_receipts y = without_receipts z \<and>
    (\<forall>i<length (db_receipts d).
       t_status (db_receipts z ! i) = fenced_status (t_status (db_receipts d ! i)) \<or>
       (db_receipts d ! i \<in> set cs \<and> t_run (db_receipts d ! i) = run) \<longrightarrow>
       t_status (db_receipts y ! i) = fenced_status (t_status (db_receipts d ! i)))"
    using Cons.IH [OF rest _ conjunct1 [OF head]] Cons.prems(2) by simp
  show ?case using head tail by (auto intro: log_grows_trans)
qed

lemma part_fenced_distinct: "part_fenced d d' \<Longrightarrow> op_distinct d \<Longrightarrow> op_distinct d'"
proof -
  assume f: "part_fenced d d'" and od: "op_distinct d"
  have "map t_op (db_receipts d') = map t_op (db_receipts d)"
    by (rule nth_equalityI) (use f in \<open>simp_all add: part_fenced_def\<close>)
  then show ?thesis using od by (simp add: op_distinct_def)
qed

lemma settle_task_descendants_fences:
  assumes "settle_task_descendants run oper ps now d = Inr d'" "op_distinct d"
    and "set (task_descendants d run oper) \<subseteq> set (db_receipts d)"
  shows "part_fenced d d'" "receipt_effect d d'"
    and "\<And>i. i < length (db_receipts d) \<Longrightarrow> db_receipts d ! i \<in> set (task_descendants d run oper) \<Longrightarrow>
      t_run (db_receipts d ! i) = run \<Longrightarrow>
      t_status (db_receipts d' ! i) = fenced_status (t_status (db_receipts d ! i))"
  using settle_descendants_loop [OF assms(1) [unfolded settle_task_descendants_def] assms(2,3)]
    part_fenced_effect part_fenced_outcomes part_fenced_distinct assms(2) by (auto simp: receipt_effect_def)

text \<open>The descendants the query finds: those reached in at most 64 steps.\<close>

inductive descends :: "db \<Rightarrow> id \<Rightarrow> id \<Rightarrow> nat \<Rightarrow> receipt_row \<Rightarrow> bool" for d run oper where
  direct: "t \<in> set (db_receipts d) \<Longrightarrow> t_run t = run \<Longrightarrow> t_parent t = Some oper \<Longrightarrow>
    descends d run oper 0 t"
| deeper: "descends d run oper k p \<Longrightarrow> t \<in> set (db_receipts d) \<Longrightarrow> t_run t = run \<Longrightarrow>
    t_parent t = Some (t_op p) \<Longrightarrow> descends d run oper (Suc k) t"

lemma set_operations_at:
  "set (operations_at d run n depth ops) =
     {(i, depth + j) | i j. j < n \<and> i \<in> set ((child_operations d run ^^ j) ops)}"
proof (induction n arbitrary: depth ops)
  case 0
  then show ?case by simp
next
  case (Suc n)
  have shift: "(child_operations d run ^^ j) (child_operations d run ops) =
      (child_operations d run ^^ Suc j) ops" for j
    by (simp add: funpow_swap1)
  show ?case
    by (auto simp: Suc.IH shift less_Suc_eq_0_disj image_iff simp del: funpow.simps(2))
qed

lemma descends_level:
  "descends d run oper k t \<Longrightarrow>
     t \<in> set (db_receipts d) \<and> t_op t \<in> set ((child_operations d run ^^ k) (child_operations d run [oper]))"
  by (induction rule: descends.induct) (auto simp: child_operations_def)

lemma task_descendants_in: "set (task_descendants d run oper) \<subseteq> set (db_receipts d)"
  by (auto simp: task_descendants_def Let_def)

lemma descends_found:
  assumes "descends d run oper k t" "k < max_descendant_depth"
  shows "t \<in> set (task_descendants d run oper)"
proof -
  have "(t_op t, 1 + k) \<in> set (operations_at d run max_descendant_depth 1 (child_operations d run [oper]))"
    using descends_level [OF assms(1)] assms(2) by (auto simp: set_operations_at)
  moreover have "t \<in> set (db_receipts d)" using descends_level [OF assms(1)] by simp
  ultimately show ?thesis by (force simp: task_descendants_def Let_def)
qed

text \<open>After a task is settled, no receipt below it is waiting to start, paused or running.\<close>

lemma settle_task_descendants_quiet:
  assumes "settle_task_descendants run oper ps now d = Inr d'" "op_distinct d"
    and "descends d run oper k t" "k < max_descendant_depth"
    and "t' \<in> set (db_receipts d')" "t_op t' = t_op t"
  shows "t_status t' = fenced_status (t_status t)"
proof -
  note f = settle_task_descendants_fences [OF assms(1,2) task_descendants_in]
  obtain i where i: "i < length (db_receipts d')" "db_receipts d' ! i = t'"
    using assms(5) by (auto simp: in_set_conv_nth)
  then have i': "i < length (db_receipts d)" "t_op (db_receipts d ! i) = t_op t"
    using f(1) assms(6) by (auto simp: part_fenced_def)
  have mem: "t \<in> set (task_descendants d run oper)" "t \<in> set (db_receipts d)" "t_run t = run"
    using descends_found [OF assms(3,4)] descends_level [OF assms(3)] assms(3)
    by (auto elim: descends.cases)
  then have "db_receipts d ! i = t"
    using op_distinct_same_row [OF assms(2)] i' nth_mem by blast
  then show ?thesis using f(3) [of i] i i' mem by auto
qed

subsection \<open>The effect of every operation\<close>

lemma receipt_in_runD:
  "receipt_in_run d oper run = Some t \<Longrightarrow> t \<in> set (db_receipts d) \<and> t_op t = oper \<and> t_run t = run"
  by (auto simp: receipt_in_run_def dest: find_SomeD)

lemma get_receipt_rowD:
  "get_receipt_row d oper = Some t \<Longrightarrow> t \<in> set (db_receipts d) \<and> t_op t = oper"
  by (auto simp: get_receipt_row_def dest: find_SomeD)

lemma get_receipt_row_None: "get_receipt_row d oper = None \<longleftrightarrow> oper \<notin> t_op ` set (db_receipts d)"
  by (auto simp: get_receipt_row_def find_None_iff)

lemma start_receipt_effect:
  assumes "start_receipt oper run att now d = Inr (t', d')"
    and "op_distinct d" "receipt_in_run d oper run = Some t" "unstarted t"
  shows "receipt_effect d d'" "t_status t' = ToolRunning" "t_attempts t' = t_attempts t + 1"
    "t_attempt t' = att" "t' \<in> set (db_receipts d')" "t_op t' = oper"
proof -
  let ?f = "\<lambda>t. t\<lparr>t_status := ToolRunning, t_attempt := att, t_attempts := t_attempts t + 1,
      t_started := (case t_started t of None \<Rightarrow> Some now | Some s \<Rightarrow> Some s), t_updated := now\<rparr>"
  let ?p = "\<lambda>t. t_op t = oper \<and> t_run t = run"
  let ?d1 = "d\<lparr>db_receipts := update_where ?p ?f (db_receipts d)\<rparr>"
  have t: "t \<in> set (db_receipts d)" "t_op t = oper" "t_run t = run"
    using receipt_in_runD [OF assms(3)] by auto
  have only: "r = t" if "r \<in> set (db_receipts d)" "t_op r = oper" for r
    using op_distinct_same_row [OF assms(2) that(1) t(1)] that(2) t(2) by simp
  have row: "get_receipt_row ?d1 oper = Some t'" and ev: "append_subagent_receipt_event t' ?d1 = Inr d'"
    using assms(1) by (auto simp: start_receipt_def Let_def bindr_Inr_iff split: option.splits)
  have "receipt_effect d ?d1"
    by (rule receipt_effect_update) (use only assms(4) in \<open>auto simp: unstarted_def settled_receipt_def\<close>)
  then show "receipt_effect d d'"
    using subagent_event_effect [OF ev] receipt_effect_trans by blast
  have t': "t' \<in> set (db_receipts ?d1)" "t_op t' = oper"
    using get_receipt_rowD [OF row] by auto
  obtain r where r: "r \<in> set (db_receipts d)" "t' = (if ?p r then ?f r else r)"
    using t'(1) in_update_whereE [of t' ?p ?f "db_receipts d" thesis] by simp
  moreover have "t_op r = oper" using r(2) t'(2) by (cases "?p r") simp_all
  ultimately have "t' = ?f t" using only [OF r(1)] t by simp
  then show "t_status t' = ToolRunning" "t_attempts t' = t_attempts t + 1" "t_attempt t' = att"
    by simp_all
  show "t' \<in> set (db_receipts d')" "t_op t' = oper"
    using t' append_subagent_receipt_event_receipts [OF ev] by auto
qed

lemma update_canceled_effect:
  "receipt_effect d (d\<lparr>db_receipts := update_where
     (\<lambda>t. t_op t = oper \<and> t_run t = run \<and> unstarted t) (as_canceled err now) (db_receipts d)\<rparr>)"
  by (rule receipt_effect_update) (use as_canceled_step in auto)

lemma cancel_before_start_effect:
  assumes "cancel_before_start oper run t now d = Inr (t', d')" "op_distinct d"
  shows "receipt_effect d d'"
proof -
  obtain d1 where d1: "(if t_name t = ''task'' then settle_task_descendants run oper ToolCanceled now d else Inr d) = Inr d1"
    and rest: "append_subagent_receipt_event t' (d1\<lparr>db_receipts := update_where
        (\<lambda>t. t_op t = oper \<and> t_run t = run \<and> unstarted t)
        (as_canceled ''RunCanceledBeforeToolStart'' now) (db_receipts d1)\<rparr>) = Inr d'"
    using assms(1) by (auto simp: cancel_before_start_def Let_def bindr_Inr_iff split: option.splits)
  have "receipt_effect d d1"
    using d1 settle_task_descendants_fences(2) [OF _ assms(2) task_descendants_in]
    by (auto split: if_splits)
  also have "receipt_effect d1 d'"
    using update_canceled_effect subagent_event_effect [OF rest] by (rule receipt_effect_trans)
  finally show ?thesis .
qed

lemma begin_tool_receipt_effect:
  assumes "begin_tool_receipt c oper run att d = Inr (t', d')" "op_distinct d"
  shows "receipt_effect d d'"
  using assms
  by (auto simp: begin_tool_receipt_def run_write_transaction_Inr
      split: option.splits if_splits dest: start_receipt_effect(1) cancel_before_start_effect)

lemma settle_tool_receipt_effect:
  assumes "settle_tool_receipt c oper run st res rh err d = Inr (t', d')"
  shows "receipt_effect d d'"
proof -
  let ?p = "\<lambda>t. t_op t = oper \<and> t_run t = run \<and> (t_status t = ToolRunning \<or>
      (st \<in> {ToolRejected, ToolFailed} \<and> t_status t = ToolPrepared) \<or> (st = ToolCanceled \<and> unstarted t))"
  have st: "st \<noteq> ToolPrepared" "st \<noteq> ToolRunning"
    using assms by (auto simp: settle_tool_receipt_def split: if_splits)
  define f :: "receipt_row \<Rightarrow> receipt_row" where
    "f = (\<lambda>t. t\<lparr>t_status := st, t_result := res, t_result_hash := rh, t_error := err,
      t_updated := x_clock c 1,
      t_completed := (if st = ToolPaused then t_completed t else Some (x_clock c 1))\<rparr>)"
  define d1 where "d1 = d\<lparr>db_receipts := update_where ?p f (db_receipts d)\<rparr>"
  have ev: "append_subagent_receipt_event t' d1 = Inr d'"
    using assms st
    unfolding settle_tool_receipt_def Let_def run_write_transaction_eq f_def [symmetric] d1_def [symmetric]
    by (cases "get_receipt_row d1 oper") (auto simp: bindr_Inr_iff split: if_splits)
  have "receipt_effect d d1"
    unfolding d1_def
    by (rule receipt_effect_update) (use st in \<open>auto simp: unstarted_def f_def settled_receipt_def\<close>)
  then show ?thesis using subagent_event_effect [OF ev] receipt_effect_trans by blast
qed

lemma reconcile_tool_receipt_effect:
  assumes "reconcile_tool_receipt c oper run dec res rh d = Inr (t', d')"
  shows "receipt_effect d d'"
proof -
  obtain st where st: "reconciled_status dec = Some st"
    using assms by (auto simp: reconcile_tool_receipt_def split: option.splits)
  then have kinds: "st = ToolCompleted \<or> st = ToolFailed \<or> st = ToolPrepared"
    by (auto simp: reconciled_status_def split: if_splits)
  obtain f where f: "append_subagent_receipt_event t' (d\<lparr>db_receipts := update_where
      (\<lambda>t. t_op t = oper \<and> t_run t = run \<and> t_status t = ToolOutcomeUnknown) f (db_receipts d)\<rparr>) = Inr d'"
    and fs: "\<And>t. t_status (f t) = st \<and> t_op (f t) = t_op t"
    using assms st by (auto simp: reconcile_tool_receipt_def Let_def bindr_Inr_iff run_write_transaction_Inr
        split: option.splits if_splits)
  have "receipt_effect d (d\<lparr>db_receipts := update_where
      (\<lambda>t. t_op t = oper \<and> t_run t = run \<and> t_status t = ToolOutcomeUnknown) f (db_receipts d)\<rparr>)"
    by (rule receipt_effect_update) (use fs kinds in \<open>auto simp: settled_receipt_def\<close>)
  then show ?thesis using subagent_event_effect [OF f] receipt_effect_trans by blast
qed

lemma settle_task_receipt_effect:
  assumes "settle_task_receipt c oper run st res rh err d = Inr (t', d')" "op_distinct d"
  shows "receipt_effect d d'"
proof -
  have st: "st \<in> {ToolCompleted, ToolFailed, ToolCanceled}"
    using assms(1) by (auto simp: settle_task_receipt_def split: if_splits)
  obtain d1 f where d1: "settle_task_descendants run oper st (x_clock c 1) d = Inr d1"
    and ev: "append_subagent_receipt_event t' (d1\<lparr>db_receipts := update_where
      (\<lambda>t. t_op t = oper \<and> t_run t = run \<and> (t_status t = ToolRunning \<or> (st = ToolCanceled \<and> unstarted t)))
      f (db_receipts d1)\<rparr>) = Inr d'"
    and fs: "\<And>t. t_status (f t) = st \<and> t_op (f t) = t_op t"
    using assms(1) by (auto simp: settle_task_receipt_def Let_def bindr_Inr_iff run_write_transaction_Inr
        split: option.splits if_splits)
  have "receipt_effect d d1"
    using settle_task_descendants_fences(2) [OF d1 assms(2) task_descendants_in] .
  also have "receipt_effect d1 (d1\<lparr>db_receipts := update_where
      (\<lambda>t. t_op t = oper \<and> t_run t = run \<and> (t_status t = ToolRunning \<or> (st = ToolCanceled \<and> unstarted t)))
      f (db_receipts d1)\<rparr>)"
    by (rule receipt_effect_update) (use fs st in \<open>auto simp: unstarted_def settled_receipt_def\<close>)
  also note subagent_event_effect [OF ev]
  finally show ?thesis .
qed

lemma prepare_tool_receipt_effect:
  assumes "prepare_tool_receipt c q d = Inr (t', d')"
  shows "receipt_effect d d'"
proof -
  have upd: "receipt_effect d (d\<lparr>db_receipts := update_where p (t_parent_update (\<lambda>_. v)) (db_receipts d)\<rparr>)"
    for v p
    by (rule receipt_effect_update) (simp_all add: t_outcome_def)
  have ins: "receipt_effect d d2"
    if "get_receipt_row d (rq_op q) = None"
      "append_subagent_receipt_event (new_receipt q n) (d\<lparr>db_receipts := db_receipts d @ [new_receipt q n]\<rparr>) = Inr d2"
    for n d2
    by (rule receipt_effect_trans [OF receipt_effect_insert subagent_event_effect [OF that(2)]])
      (use that(1) in \<open>simp add: get_receipt_row_None new_receipt_def\<close>)
  show ?thesis
  proof (cases "find (\<lambda>t. t_run t = rq_run q \<and> t_namespace t = rq_namespace q \<and>
      t_call t = rq_call q) (db_receipts d)")
    case None
    then show ?thesis
      using assms ins
      by (auto simp: prepare_tool_receipt_def Let_def bindr_Inr_iff run_write_transaction_Inr
          split: if_splits)
  next
    case (Some t)
    then show ?thesis
      using assms upd
      by (auto simp: prepare_tool_receipt_def Let_def bindr_Inr_iff run_write_transaction_Inr
          split: if_splits)
  qed
qed

lemma record_tool_review_effect:
  assumes "record_tool_review c oper run dec src rea mdl d = Inr (t', d')"
  shows "receipt_effect d d'"
proof -
  let ?f = "\<lambda>t. t\<lparr>t_decision := Some dec, t_source := Some src, t_reason := Some rea,
      t_model := mdl, t_reviewed := Some (x_clock c 1), t_updated := x_clock c 1\<rparr>"
  have "d' = d \<or> d' = d\<lparr>db_receipts := update_where
      (\<lambda>t. t_op t = oper \<and> t_run t = run \<and> t_decision t = None) ?f (db_receipts d)\<rparr>"
    using assms by (auto simp: record_tool_review_def Let_def run_write_transaction_Inr
        split: option.splits if_splits)
  moreover have "receipt_effect d (d\<lparr>db_receipts := update_where
      (\<lambda>t. t_op t = oper \<and> t_run t = run \<and> t_decision t = None) ?f (db_receipts d)\<rparr>)"
    by (rule receipt_effect_update) (simp_all add: t_outcome_def)
  ultimately show ?thesis by auto
qed

text \<open>One step of the receipt table: a successful call of any of its operations.\<close>

inductive receipt_op :: "ctx \<Rightarrow> db \<Rightarrow> db \<Rightarrow> bool" for c where
  op_prepare: "prepare_tool_receipt c q d = Inr (t, d') \<Longrightarrow> receipt_op c d d'"
| op_review: "record_tool_review c oper run dec src rea mdl d = Inr (t, d') \<Longrightarrow> receipt_op c d d'"
| op_begin: "begin_tool_receipt c oper run att d = Inr (t, d') \<Longrightarrow> receipt_op c d d'"
| op_settle: "settle_tool_receipt c oper run st res rh err d = Inr (t, d') \<Longrightarrow> receipt_op c d d'"
| op_settle_task: "settle_task_receipt c oper run st res rh err d = Inr (t, d') \<Longrightarrow> receipt_op c d d'"
| op_reconcile: "reconcile_tool_receipt c oper run dec res rh d = Inr (t, d') \<Longrightarrow> receipt_op c d d'"

lemma receipt_op_effect: "receipt_op c d d' \<Longrightarrow> op_distinct d \<Longrightarrow> receipt_effect d d'"
  by (induction rule: receipt_op.induct)
    (auto intro: prepare_tool_receipt_effect record_tool_review_effect begin_tool_receipt_effect
      settle_tool_receipt_effect settle_task_receipt_effect reconcile_tool_receipt_effect)

definition receipt_history :: "db \<Rightarrow> db \<Rightarrow> bool" where
  "receipt_history = (\<lambda>d d'. \<exists>c. receipt_op c d d')\<^sup>*\<^sup>*"

lemma cancel_before_start_status:
  assumes "cancel_before_start oper run t now d = Inr (t', d')" "op_distinct d"
    and "receipt_in_run d oper run = Some t" "unstarted t"
  shows "t_status t' = ToolCanceled"
proof -
  let ?p = "\<lambda>t. t_op t = oper \<and> t_run t = run \<and> unstarted t"
  let ?f = "as_canceled ''RunCanceledBeforeToolStart'' now"
  note t = receipt_in_runD [OF assms(3)]
  obtain d1 where d1: "(if t_name t = ''task'' then settle_task_descendants run oper ToolCanceled now d else Inr d) = Inr d1"
    and row: "get_receipt_row (d1\<lparr>db_receipts := update_where ?p ?f (db_receipts d1)\<rparr>) oper = Some t'"
    using assms(1) by (auto simp: cancel_before_start_def Let_def bindr_Inr_iff split: option.splits)
  have pf: "part_fenced d d1"
    using d1 settle_task_descendants_fences(1) [OF _ assms(2) task_descendants_in]
    by (cases "t_name t = ''task''") auto
  have "t' \<in> set (update_where ?p ?f (db_receipts d1))" "t_op t' = oper"
    using get_receipt_rowD [OF row] by auto
  then obtain r where r: "r \<in> set (db_receipts d1)" "t' = (if ?p r then ?f r else r)"
    by (elim in_update_whereE)
  then have "t_op r = oper" using \<open>t_op t' = oper\<close> by (cases "?p r") (simp_all add: as_canceled_def)
  obtain i where i: "i < length (db_receipts d1)" "db_receipts d1 ! i = r"
    using r(1) by (auto simp: in_set_conv_nth)
  then have "i < length (db_receipts d)" "t_op (db_receipts d ! i) = oper"
    using pf \<open>t_op r = oper\<close> by (auto simp: part_fenced_def)
  then have "db_receipts d ! i = t"
    using op_distinct_same_row [OF assms(2)] t nth_mem by metis
  then have "t_run r = run" "t_status r = t_status t \<or> t_status r = fenced_status (t_status t)"
    using pf i t \<open>i < length (db_receipts d)\<close> by (auto simp: part_fenced_def)
  then show ?thesis
    using r(2) \<open>t_op r = oper\<close> assms(4)
    by (cases "unstarted r") (auto simp: as_canceled_def unstarted_def fenced_status_def)
qed

text \<open>After a successful preparation the call is found, for the same operation.\<close>

definition call_of :: "receipt_request \<Rightarrow> receipt_row \<Rightarrow> bool" where
  "call_of q t \<longleftrightarrow> t_run t = rq_run q \<and> t_namespace t = rq_namespace q \<and> t_call t = rq_call q"

lemma prepare_tool_receipt_found:
  assumes "prepare_tool_receipt c q d = Inr (t, d1)"
  shows "find (call_of q) (db_receipts d1) = Some t" "same_operation q t"
    "rq_parent q = None \<or> t_parent t \<noteq> None"
    "\<And>p. rq_parent q = Some p \<Longrightarrow> p \<noteq> rq_op q \<and> require_tool_receipt_in_run p (rq_run q) d1 = Inr ()"
proof -
  have k: "(\<lambda>t. t_run t = rq_run q \<and> t_namespace t = rq_namespace q \<and> t_call t = rq_call q) = call_of q"
    by (simp add: fun_eq_iff call_of_def)
  note body = assms [unfolded prepare_tool_receipt_def run_write_transaction_eq k]
  have parent: "p \<noteq> rq_op q \<and> require_tool_receipt_in_run p (rq_run q) d = Inr ()" if "rq_parent q = Some p" for p
    using body that by (auto simp: bindr_Inr_iff split: if_splits)
  have keep: "require_tool_receipt_in_run p (rq_run q) d1 = Inr ()"
    if "require_tool_receipt_in_run p (rq_run q) d = Inr ()"
      "\<And>r. get_receipt_row d p = Some r \<Longrightarrow> \<exists>r'. get_receipt_row d1 p = Some r' \<and> t_run r' = t_run r" for p
    using that by (fastforce simp: require_tool_receipt_in_run_def split: option.splits if_splits)
  have "find (call_of q) (db_receipts d1) = Some t \<and> same_operation q t \<and>
    (rq_parent q = None \<or> t_parent t \<noteq> None) \<and>
    (\<forall>p r. get_receipt_row d p = Some r \<longrightarrow> (\<exists>r'. get_receipt_row d1 p = Some r' \<and> t_run r' = t_run r))"
  proof (cases "find (call_of q) (db_receipts d)")
    case None
    let ?t = "new_receipt q (x_clock c 1)"
    have ev: "append_subagent_receipt_event ?t (d\<lparr>db_receipts := db_receipts d @ [?t]\<rparr>) = Inr d1" and t: "t = ?t"
      using body None by (auto simp: Let_def bindr_Inr_iff split: if_splits)
    have "db_receipts d1 = db_receipts d @ [?t]"
      using append_subagent_receipt_event_receipts [OF ev] by simp
    then show ?thesis
      using None t by (auto simp: find_append call_of_def same_operation_def new_receipt_def get_receipt_row_def)
  next
    case (Some s)
    let ?p = "\<lambda>r. t_op r = rq_op q \<and> t_parent r = None"
    let ?f = "t_parent_update (\<lambda>_. rq_parent q)"
    have so: "same_operation q s" and
      res: "(if rq_parent q \<noteq> None \<and> t_parent s = None
        then t = ?f s \<and> d1 = d\<lparr>db_receipts := update_where ?p ?f (db_receipts d)\<rparr> else t = s \<and> d1 = d)"
      using body Some by (auto simp: bindr_Inr_iff split: if_splits)
    have f: "find (call_of q) (update_where ?p ?f (db_receipts d)) = Some (if ?p s then ?f s else s)"
      by (subst find_update_where_same) (auto simp: call_of_def Some)
    have g: "\<exists>r'. find (\<lambda>t. t_op t = p) (update_where ?p ?f (db_receipts d)) = Some r' \<and> t_run r' = t_run r"
      if "find (\<lambda>t. t_op t = p) (db_receipts d) = Some r" for p r
      by (subst find_update_where_same) (auto simp: that)
    show ?thesis
      using res so f g Some by (auto simp: same_operation_def get_receipt_row_def split: if_splits)
  qed
  then show "find (call_of q) (db_receipts d1) = Some t" "same_operation q t"
    "rq_parent q = None \<or> t_parent t \<noteq> None"
    "\<And>p. rq_parent q = Some p \<Longrightarrow> p \<noteq> rq_op q \<and> require_tool_receipt_in_run p (rq_run q) d1 = Inr ()"
    using parent keep by blast+
qed

lemma prepare_tool_receipt_again:
  assumes "find (call_of q) (db_receipts d) = Some t" "admitted c None (rq_run q) d"
    and "\<And>p. rq_parent q = Some p \<Longrightarrow> p \<noteq> rq_op q \<and> require_tool_receipt_in_run p (rq_run q) d = Inr ()"
  shows "\<not> same_operation q t \<Longrightarrow> prepare_tool_receipt c q d = Inl ToolReceiptConflictError"
    and "same_operation q t \<Longrightarrow> rq_parent q = None \<or> t_parent t \<noteq> None \<Longrightarrow>
      prepare_tool_receipt c q d = Inr (t, d)"
  using assms unfolding call_of_def
  by (cases "rq_parent q"; force simp: prepare_tool_receipt_def run_write_transaction_eq)+

lemma receipt_history_effect:
  assumes "receipt_history d d'" "op_distinct d"
  shows "receipt_effect d d'"
  using assms(1) unfolding receipt_history_def
proof (induction rule: rtranclp_induct)
  case base
  show ?case by simp
next
  case (step a b)
  then have "op_distinct a" using assms(2) by (auto simp: receipt_effect_def)
  then show ?case using step receipt_op_effect receipt_effect_trans by blast
qed

lemma begin_tool_receipt_cases:
  assumes "begin_tool_receipt c oper run att d = Inr (t', d')" "op_distinct d"
    and "receipt_in_run d oper run = Some t"
  shows "(settled_receipt (t_status t) \<and> t' = t \<and> d' = d) \<or>
    (unstarted t \<and> t_status t' = ToolRunning \<and> t_attempts t' = t_attempts t + 1 \<and> t_attempt t' = att \<and>
     (\<forall>l j. x_lease c = Some l \<and> lease_job_row l run d = Some j \<longrightarrow> j_cancel j = None)) \<or>
    (unstarted t \<and> t_status t' = ToolCanceled \<and>
     (\<exists>l j. x_lease c = Some l \<and> lease_job_row l run d = Some j \<and> j_cancel j \<noteq> None))"
proof (cases "settled_receipt (t_status t)")
  case True
  then show ?thesis
    using assms by (auto simp: begin_tool_receipt_def run_write_transaction_Inr)
next
  case open_row: False
  then have "unstarted t"
    using assms by (auto simp: begin_tool_receipt_def run_write_transaction_Inr split: if_splits)
  consider "start_receipt oper run att (x_clock c 1) d = Inr (t', d')"
      "\<forall>l j. x_lease c = Some l \<and> lease_job_row l run d = Some j \<longrightarrow> j_cancel j = None"
    | l j where "x_lease c = Some l" "lease_job_row l run d = Some j" "j_cancel j \<noteq> None"
      "cancel_before_start oper run t (x_clock c 1) d = Inr (t', d')"
    using assms(1,3) open_row \<open>unstarted t\<close>
    by (auto simp: begin_tool_receipt_def run_write_transaction_Inr
        split: option.splits if_splits)
  then show ?thesis
  proof cases
    case 1
    note start_receipt_effect [OF 1(1) assms(2,3) \<open>unstarted t\<close>]
    then show ?thesis using \<open>unstarted t\<close> 1(2) by blast
  next
    case 2
    note cancel_before_start_status [OF 2(4) assms(2,3) \<open>unstarted t\<close>]
    then show ?thesis using \<open>unstarted t\<close> 2(1-3) by blast
  qed
qed

lemma settled_receipt_kept:
  assumes "receipt_history d d'" "op_distinct d"
    and "t \<in> set (db_receipts d)" "settled_receipt (t_status t)"
    and "t' \<in> set (db_receipts d')" "t_op t' = t_op t"
  shows "t_status t' = t_status t \<and> t_outcome t' = t_outcome t"
proof -
  have e: "receipt_effect d d'" by (rule receipt_history_effect [OF assms(1,2)])
  obtain i where i: "i < length (db_receipts d)" "db_receipts d ! i = t"
    using assms(3) by (auto simp: in_set_conv_nth)
  have row: "i < length (db_receipts d')" "t_op (db_receipts d' ! i) = t_op t"
    "t_status (db_receipts d' ! i) = t_status t" "t_outcome (db_receipts d' ! i) = t_outcome t"
    using e i assms(4) receipts.settled_only_self [of "t_status t"]
    by (auto simp: receipt_effect_def receipts_evolve_def rows_evolve_def outcomes_kept_def)
  have "op_distinct d'" using e assms(2) by (simp add: receipt_effect_def)
  then have "db_receipts d' ! i = t'"
    using op_distinct_same_row assms(5,6) row(1,2) nth_mem by metis
  then show ?thesis using row(3,4) by simp
qed

text \<open>A run with a settled call, a task with a running call below it, and a call not yet begun.\<close>

definition receipts_demo :: db where
  "receipts_demo = demo_db\<lparr>db_receipts :=
     [blank_receipt ''op_1'' ''run_1'' ''write'' ToolCompleted,
      blank_receipt ''op_2'' ''run_1'' ''task'' ToolRunning,
      (blank_receipt ''op_3'' ''run_1'' ''write'' ToolRunning)\<lparr>t_parent := Some ''op_2''\<rparr>,
      blank_receipt ''op_4'' ''run_1'' ''write'' ToolPrepared]\<rparr>"

lemma receipts_demo_distinct: "op_distinct receipts_demo"
  unfolding op_distinct_def by code_simp

lemma receipts_demo_begin:
  "returns (begin_tool_receipt demo_ctx ''op_4'' ''run_1'' ''job_1:1'' receipts_demo)
     (\<lambda>(t, d). t_status t = ToolRunning)"
  by code_simp

subsection \<open>Properties\<close>

text \<open>C1: a settled receipt is final. Over any sequence of receipt operations, by any callers, the
  receipt with its operation id keeps its status, its result, its error, its completion time and
  its number of attempts: a recorded side effect is neither rewritten nor executed again.\<close>

theorem settled_receipt_is_final:
  assumes "receipt_history d d'" "op_distinct d"
    and "t \<in> set (db_receipts d)" "settled_receipt (t_status t)"
    and "t' \<in> set (db_receipts d')" "t_op t' = t_op t"
  shows "t_status t' = t_status t \<and> t_outcome t' = t_outcome t"
  using assms by (rule settled_receipt_kept)

theorem settled_receipt_is_final_witness:
  "returns (begin_tool_receipt demo_ctx ''op_4'' ''run_1'' ''job_1:1'' receipts_demo)
     (\<lambda>(t, d). \<forall>t'\<in>set (db_receipts d). t_op t' = ''op_1'' \<longrightarrow> t_status t' = ToolCompleted)"
proof -
  obtain t d where b: "begin_tool_receipt demo_ctx ''op_4'' ''run_1'' ''job_1:1'' receipts_demo = Inr (t, d)"
    using receipts_demo_begin by (auto simp: returns_iff)
  have h: "receipt_history receipts_demo d"
    unfolding receipt_history_def using op_begin [OF b] by blast
  have "t_status t' = ToolCompleted" if "t' \<in> set (db_receipts d)" "t_op t' = ''op_1''" for t'
    using settled_receipt_is_final [OF h receipts_demo_distinct, of "blank_receipt ''op_1'' ''run_1'' ''write'' ToolCompleted" t']
      that by (simp add: receipts_demo_def blank_receipt_def settled_receipt_def)
  then show ?thesis using b by simp
qed

text \<open>C2: what \<open>begin_tool_receipt\<close> returns. Either the receipt was settled and is returned with
  nothing written; or it was prepared or paused and is now running, under the caller's attempt,
  counted once more, and the lease's job carries no cancel request; or the job does carry one and
  the receipt comes back canceled, never running.\<close>

theorem begin_tool_receipt_outcome:
  assumes "begin_tool_receipt c oper run att d = Inr (t', d')" "op_distinct d"
    and "receipt_in_run d oper run = Some t"
  shows "(settled_receipt (t_status t) \<and> t' = t \<and> d' = d) \<or>
    (unstarted t \<and> t_status t' = ToolRunning \<and> t_attempts t' = t_attempts t + 1 \<and> t_attempt t' = att \<and>
     (\<forall>l j. x_lease c = Some l \<and> lease_job_row l run d = Some j \<longrightarrow> j_cancel j = None)) \<or>
    (unstarted t \<and> t_status t' = ToolCanceled \<and>
     (\<exists>l j. x_lease c = Some l \<and> lease_job_row l run d = Some j \<and> j_cancel j \<noteq> None))"
  using assms by (rule begin_tool_receipt_cases)

theorem begin_tool_receipt_outcome_witness:
  "returns (begin_tool_receipt demo_ctx ''op_4'' ''run_1'' ''job_1:1'' receipts_demo)
     (\<lambda>(t, d). t_status t = ToolRunning \<and> t_attempts t = 1)"
proof -
  obtain t d where b: "begin_tool_receipt demo_ctx ''op_4'' ''run_1'' ''job_1:1'' receipts_demo = Inr (t, d)"
    and r: "t_status t = ToolRunning"
    using receipts_demo_begin by (auto simp: returns_iff)
  have f: "receipt_in_run receipts_demo ''op_4'' ''run_1'' = Some (blank_receipt ''op_4'' ''run_1'' ''write'' ToolPrepared)"
    by code_simp
  show ?thesis
    using begin_tool_receipt_outcome [OF b receipts_demo_distinct f] b r
    by (simp add: blank_receipt_def settled_receipt_def)
qed

text \<open>an operation whose outcome is unresolved (still marked running, or unknown after its
  attempt was lost) cannot be started again: \<open>begin_tool_receipt\<close> refuses it for every caller
  the lease fence admits.\<close>

theorem begin_refuses_unresolved:
  assumes "receipt_in_run d oper run = Some t" "t_status t \<in> {ToolRunning, ToolOutcomeUnknown}"
    and "admitted c None run d"
  shows "begin_tool_receipt c oper run att d = Inl ToolOutcomeUnknownError"
  using assms
  by (auto simp: begin_tool_receipt_def run_write_transaction_eq settled_receipt_def)

theorem begin_refuses_unresolved_witness:
  "begin_tool_receipt demo_ctx ''op_3'' ''run_1'' ''job_1:1'' receipts_demo = Inl ToolOutcomeUnknownError"
  by (rule begin_refuses_unresolved
      [where t = "(blank_receipt ''op_3'' ''run_1'' ''write'' ToolRunning)\<lparr>t_parent := Some ''op_2''\<rparr>"]) code_simp+

text \<open>fencing a lost attempt. After its running receipts are marked, no receipt of that run
  and attempt is running, each that was is \<open>outcome_unknown\<close>, and every other receipt is the
  row it was.\<close>

theorem fenced_attempt_has_nothing_running:
  assumes "mark_running_tool_receipts_outcome_unknown run att err now d = Inr d'"
  shows "length (db_receipts d') = length (db_receipts d) \<and>
    (\<forall>i<length (db_receipts d).
       (if t_run (db_receipts d ! i) = run \<and> t_attempt (db_receipts d ! i) = att \<and>
           t_status (db_receipts d ! i) = ToolRunning
        then t_status (db_receipts d' ! i) = ToolOutcomeUnknown
        else db_receipts d' ! i = db_receipts d ! i)) \<and>
    (\<forall>t\<in>set (db_receipts d'). t_run t = run \<and> t_attempt t = att \<longrightarrow> t_status t \<noteq> ToolRunning)"
proof -
  have rows: "db_receipts d' = update_where (\<lambda>t. t_run t = run \<and> t_attempt t = att \<and> t_status t = ToolRunning)
      (as_outcome_unknown err now) (db_receipts d)"
    using mark_running_effect [OF assms] by blast
  show ?thesis
    unfolding rows ball_update_where by (auto simp: update_where_def as_outcome_unknown_def)
qed

theorem fenced_attempt_has_nothing_running_witness:
  "returns (mark_running_tool_receipts_outcome_unknown ''run_1'' ''job_1:1'' ''LeaseExpired'' 9 receipts_demo)
     (\<lambda>d. t_status (db_receipts d ! 2) = ToolOutcomeUnknown)"
proof -
  have "returns (mark_running_tool_receipts_outcome_unknown ''run_1'' ''job_1:1'' ''LeaseExpired'' 9 receipts_demo)
     (\<lambda>d. True)"
    by code_simp
  then obtain d where d:
    "mark_running_tool_receipts_outcome_unknown ''run_1'' ''job_1:1'' ''LeaseExpired'' 9 receipts_demo = Inr d"
    by (auto simp: returns_iff)
  show ?thesis
    using fenced_attempt_has_nothing_running [OF d] d
    by (simp add: receipts_demo_def blank_receipt_def)
qed

text \<open>settling a task quiets everything below it. Whatever receipt descends from the task
  through at most 64 parent links ends canceled where it had not started, outcome unknown where
  it was running, and unchanged where it had settled.\<close>

theorem settled_task_is_quiet:
  assumes "settle_task_descendants run oper ps now d = Inr d'" "op_distinct d"
    and "descends d run oper k t" "k < max_descendant_depth"
    and "t' \<in> set (db_receipts d')" "t_op t' = t_op t"
  shows "t_status t' = fenced_status (t_status t) \<and> \<not> unstarted t' \<and> t_status t' \<noteq> ToolRunning"
proof -
  have "t_status t' = fenced_status (t_status t)"
    by (rule settle_task_descendants_quiet [OF assms])
  then show ?thesis
    by (cases "t_status t") (auto simp: fenced_status_def unstarted_def)
qed

theorem settled_task_is_quiet_witness:
  "returns (settle_task_descendants ''run_1'' ''op_2'' ToolCompleted 9 receipts_demo)
     (\<lambda>d. \<forall>t\<in>set (db_receipts d). t_op t = ''op_3'' \<longrightarrow> t_status t = ToolOutcomeUnknown)"
proof -
  let ?t = "(blank_receipt ''op_3'' ''run_1'' ''write'' ToolRunning)\<lparr>t_parent := Some ''op_2''\<rparr>"
  have "returns (settle_task_descendants ''run_1'' ''op_2'' ToolCompleted 9 receipts_demo) (\<lambda>d. True)"
    by code_simp
  then obtain d where d: "settle_task_descendants ''run_1'' ''op_2'' ToolCompleted 9 receipts_demo = Inr d"
    by (auto simp: returns_iff)
  have below: "descends receipts_demo ''run_1'' ''op_2'' 0 ?t"
    by (rule descends.direct) (simp_all add: receipts_demo_def blank_receipt_def)
  have depth: "0 < max_descendant_depth" by (simp add: max_descendant_depth_def)
  have "t_status t = ToolOutcomeUnknown" if "t \<in> set (db_receipts d)" "t_op t = ''op_3''" for t
    using settled_task_is_quiet [OF d receipts_demo_distinct below depth that(1)] that(2)
    by (simp add: blank_receipt_def fenced_status_def)
  then show ?thesis using d by simp
qed

text \<open>preparing is idempotent. Once a call has its receipt, the same request, from any
  caller the fence admits, returns a receipt of the same operation and writes nothing; a request
  that differs in tool, version or arguments for the same call is refused as a conflict.\<close>

theorem prepare_tool_receipt_idempotent:
  assumes "prepare_tool_receipt c q d = Inr (t, d1)" "admitted c' None (rq_run q) d1"
  shows "t_op t = rq_op q \<and> prepare_tool_receipt c' q d1 = Inr (t, d1) \<and>
    (\<forall>h. h \<noteq> rq_args_hash q \<longrightarrow>
       prepare_tool_receipt c' (q\<lparr>rq_args_hash := h\<rparr>) d1 = Inl ToolReceiptConflictError)"
proof -
  note f = prepare_tool_receipt_found [OF assms(1)]
  have "prepare_tool_receipt c' (q\<lparr>rq_args_hash := h\<rparr>) d1 = Inl ToolReceiptConflictError"
    if "h \<noteq> rq_args_hash q" for h
    using that f assms(2)
    by (intro prepare_tool_receipt_again(1) [of _ _ t]) (auto simp: call_of_def [abs_def] same_operation_def)
  then show ?thesis
    using f prepare_tool_receipt_again(2) [OF f(1) assms(2) f(4)] by (auto simp: same_operation_def)
qed

definition demo_request :: receipt_request where
  "demo_request = \<lparr>rq_op = ''op_5'', rq_run = ''run_1'', rq_attempt = ''job_1:1'', rq_call = ''call_5'',
     rq_name = ''write'', rq_args_hash = ''h'', rq_args = JObj [], rq_risk = ''low'', rq_version = ''1'',
     rq_namespace = ''root'', rq_parent = Some ''op_2''\<rparr>"

theorem prepare_tool_receipt_idempotent_witness:
  "returns (prepare_tool_receipt demo_ctx demo_request receipts_demo)
     (\<lambda>(t, d). t_op t = ''op_5'' \<and> prepare_tool_receipt free_ctx demo_request d = Inr (t, d))"
proof -
  have "returns (prepare_tool_receipt demo_ctx demo_request receipts_demo) (\<lambda>_. True)"
    by code_simp
  then obtain t d where d: "prepare_tool_receipt demo_ctx demo_request receipts_demo = Inr (t, d)"
    by (auto simp: returns_iff)
  have "admitted free_ctx None (rq_run demo_request) d"
    by (simp add: admitted_def active_lease_def free_ctx_def)
  then show ?thesis
    using prepare_tool_receipt_idempotent [OF d, of free_ctx] d by (simp add: demo_request_def)
qed

end
