(* ===== verification/Model_Calls.thy ===== *)
theory Model_Calls
  imports Tool_Receipts
begin

text \<open>
  The model-call ledger, the records of sandbox launchers and the assistant draft
  (store/model_calls.py). A model call is reserved against a budget before the provider is
  asked, and settled once. Shown: the budget bounds the calls of every purpose, the calls of a
  run are numbered without gaps, a settled call never changes, and a model round is committed
  to the log exactly once.
\<close>

definition model_purposes :: "string set" where
  "model_purposes = {''agent'', ''approval_review'', ''clarification_review'',
     ''completion_review'', ''title_generation'', ''summarization''}"

definition call_open :: "call_status \<Rightarrow> bool" where
  "call_open s \<longleftrightarrow> s = CallReserved \<or> s = CallStreaming"

fun call_status_text :: "call_status \<Rightarrow> string" where
  "call_status_text CallReserved = ''reserved''"
| "call_status_text CallStreaming = ''streaming''"
| "call_status_text CallCompleted = ''completed''"
| "call_status_text CallUnmetered = ''completed_unmetered''"
| "call_status_text CallFailed = ''failed''"
| "call_status_text CallOutcomeUnknown = ''outcome_unknown''"

definition run_calls :: "id \<Rightarrow> db \<Rightarrow> call_row list" where
  "run_calls run d = filter (\<lambda>c. c_run c = run) (db_calls d)"

definition purpose_calls :: "id \<Rightarrow> string \<Rightarrow> db \<Rightarrow> call_row list" where
  "purpose_calls run purpose d = filter (\<lambda>c. c_purpose c = purpose) (run_calls run d)"

subsection \<open>Reservation\<close>

record call_request =
  mq_run :: id
  mq_attempt :: string
  mq_model :: string
  mq_max :: int
  mq_purpose :: string
  mq_parent :: "id option"
  mq_logical :: "id option"
  mq_retry :: int

definition new_call :: "call_request \<Rightarrow> id \<Rightarrow> nat \<Rightarrow> time \<Rightarrow> call_row" where
  "new_call q i index now =
     \<lparr>c_id = i, c_run = mq_run q, c_attempt = mq_attempt q, c_index = index, c_model = mq_model q,
      c_purpose = mq_purpose q, c_parent_op = mq_parent q, c_logical = opt_or (mq_logical q) i,
      c_retry = nat (max 0 (mq_retry q)), c_status = CallReserved, c_output_started = False,
      c_request_id = None, c_in = None, c_out = None, c_usage = JObj [],
      c_phase = ''waiting_provider'', c_phase_started = now, c_request_started = now,
      c_headers_at = None, c_first_raw = None, c_reasoning_started = None, c_first_visible = None,
      c_reasoning = None, c_error = None, c_created = now, c_first_output = None,
      c_completed = None\<rparr>"

text \<open>The unique index on run, attempt and call index, and the key on \<open>id\<close>.\<close>

definition call_clash :: "call_row \<Rightarrow> db \<Rightarrow> bool" where
  "call_clash c d \<longleftrightarrow> list_ex (\<lambda>x. c_id x = c_id c \<or>
     (c_run x = c_run c \<and> c_attempt x = c_attempt c \<and> c_index x = c_index c)) (db_calls d)"

definition reserve_model_call :: "ctx \<Rightarrow> call_request \<Rightarrow> db \<Rightarrow> (call_row \<times> db) res" where
  "reserve_model_call c q d =
    (if mq_purpose q \<notin> model_purposes then Inl PyValueError
     else run_write_transaction c None (mq_run q) d (\<lambda>d.
      bindr (case mq_parent q of None \<Rightarrow> Inr () | Some p \<Rightarrow> require_tool_receipt_in_run p (mq_run q) d)
       (\<lambda>_.
        (let call_index = length (run_calls (mq_run q) d) + 1;
             purpose_index = length (purpose_calls (mq_run q) (mq_purpose q) d) + 1
         in if int purpose_index > max 1 (mq_max q) then Inl ModelCallBudgetExceeded
            else
             (let (i, d1) = new_id ''model_call'' d;
                  call = new_call q i call_index (x_clock c 1)
              in if get_run_row d (mq_run q) = None \<or> call_clash call d then Inl SqlIntegrityError
                 else Inr (call, d1\<lparr>db_calls := db_calls d1 @ [call]\<rparr>))))))"

subsection \<open>Progress and settlement of a call\<close>

definition open_call :: "id \<Rightarrow> id \<Rightarrow> call_row \<Rightarrow> bool" where
  "open_call run i x \<longleftrightarrow> c_id x = i \<and> c_run x = run \<and> call_open (c_status x)"

text \<open>Each of the four updates must hit exactly one open call of the run.\<close>

definition update_open_call ::
    "ctx \<Rightarrow> id \<Rightarrow> id \<Rightarrow> (call_row \<Rightarrow> call_row) \<Rightarrow> db \<Rightarrow> db res" where
  "update_open_call c run i f d =
    run_write_transaction c None run d (\<lambda>d.
      if count_where (open_call run i) (db_calls d) \<noteq> 1 then Inl PyRuntimeError
      else Inr (d\<lparr>db_calls := update_where (open_call run i) f (db_calls d)\<rparr>))"

definition or_now :: "bool \<Rightarrow> time option \<Rightarrow> time \<Rightarrow> time option" where
  "or_now flag old now = (if flag then (case old of None \<Rightarrow> Some now | Some t \<Rightarrow> Some t) else old)"

definition phase_write :: "string \<Rightarrow> bool \<Rightarrow> bool \<Rightarrow> time \<Rightarrow> call_row \<Rightarrow> call_row" where
  "phase_write phase raw_chunk response_headers now x =
     x\<lparr>c_phase := phase,
       c_phase_started := (if c_phase x = phase then c_phase_started x else now),
       c_first_raw := or_now raw_chunk (c_first_raw x) now,
       c_headers_at := or_now response_headers (c_headers_at x) now,
       c_reasoning_started := or_now (phase = ''reasoning'') (c_reasoning_started x) now\<rparr>"

definition mark_model_call_phase ::
    "ctx \<Rightarrow> id \<Rightarrow> id \<Rightarrow> string \<Rightarrow> bool \<Rightarrow> bool \<Rightarrow> db \<Rightarrow> db res" where
  "mark_model_call_phase c run i phase raw_chunk response_headers d =
    (if phase \<notin> {''waiting_provider'', ''reasoning'', ''answering'', ''tool_calling'', ''completed''}
     then Inl PyValueError
     else update_open_call c run i (phase_write phase raw_chunk response_headers (x_clock c 1)) d)"

definition mark_model_call_output :: "ctx \<Rightarrow> id \<Rightarrow> id \<Rightarrow> bool \<Rightarrow> db \<Rightarrow> db res" where
  "mark_model_call_output c run i visible =
    update_open_call c run i
      (\<lambda>x. x\<lparr>c_status := CallStreaming, c_output_started := True,
             c_first_output := or_now True (c_first_output x) (x_clock c 1),
             c_first_visible := or_now visible (c_first_visible x) (x_clock c 1)\<rparr>)"

definition settled_call_status :: "nat option \<Rightarrow> nat option \<Rightarrow> call_status" where
  "settled_call_status input output =
    (if input = None \<and> output = None then CallUnmetered else CallCompleted)"

definition settle_model_call ::
    "ctx \<Rightarrow> id \<Rightarrow> id \<Rightarrow> string option \<Rightarrow> nat option \<Rightarrow> nat option \<Rightarrow> nat option \<Rightarrow> dict option \<Rightarrow> db \<Rightarrow> db res" where
  "settle_model_call c run i request input output reasoning usage =
    update_open_call c run i
      (\<lambda>x. x\<lparr>c_status := settled_call_status input output, c_request_id := request,
             c_in := input, c_out := output, c_reasoning := reasoning,
             c_usage := encode_payload (JObj (case usage of None \<Rightarrow> [] | Some u \<Rightarrow> u)),
             c_phase := ''completed'', c_phase_started := x_clock c 1,
             c_completed := Some (x_clock c 1)\<rparr>)"

definition fail_model_call ::
    "ctx \<Rightarrow> id \<Rightarrow> id \<Rightarrow> bool \<Rightarrow> string option \<Rightarrow> string option \<Rightarrow> nat option \<Rightarrow> nat option \<Rightarrow> nat option \<Rightarrow>
     dict option \<Rightarrow> db \<Rightarrow> db res" where
  "fail_model_call c run i outcome_unknown error request input output reasoning usage =
    update_open_call c run i
      (\<lambda>x. x\<lparr>c_status := (if outcome_unknown then CallOutcomeUnknown else CallFailed),
             c_error := error, c_request_id := request, c_in := input, c_out := output,
             c_reasoning := reasoning,
             c_usage := encode_payload (JObj (case usage of None \<Rightarrow> [] | Some u \<Rightarrow> u)),
             c_completed := Some (x_clock c 1)\<rparr>)"

subsection \<open>Queries\<close>

definition list_model_calls_for_run :: "id \<Rightarrow> db \<Rightarrow> call_row list" where
  "list_model_calls_for_run run d = select_by c_index (\<lambda>x. c_run x = run) (db_calls d)"

definition top_level_agent_call :: "id \<Rightarrow> call_row \<Rightarrow> bool" where
  "top_level_agent_call run x \<longleftrightarrow> c_run x = run \<and> c_purpose x = ''agent'' \<and> c_parent_op x = None"

definition latest_call_index :: "db \<Rightarrow> id \<Rightarrow> nat option" where
  "latest_call_index d run =
    (let xs = map c_index (filter (top_level_agent_call run) (db_calls d))
     in if xs = [] then None else Some (max_of xs))"

text \<open>The calls at the largest top-level agent index of each run (any call with that index).\<close>

definition latest_model_calls_for_runs :: "id list \<Rightarrow> db \<Rightarrow> call_row list" where
  "latest_model_calls_for_runs run_ids d =
    filter (\<lambda>x. c_run x \<in> set run_ids \<and> latest_call_index d (c_run x) = Some (c_index x)) (db_calls d)"

definition model_usage_summary :: "id \<Rightarrow> db \<Rightarrow> usage" where
  "model_usage_summary run d = usage_of_calls (run_calls run d)"

definition model_call_budget_status :: "id \<Rightarrow> string \<Rightarrow> db \<Rightarrow> nat \<times> nat \<times> nat" where
  "model_call_budget_status run purpose d =
    (let xs = purpose_calls run purpose d
     in (length xs, sum_opt (map c_in xs), sum_opt (map c_out xs)))"

text \<open>\<open>SELECT status, COUNT(*) ... GROUP BY status ORDER BY status\<close>\<close>

definition count_by :: "('a \<Rightarrow> string) \<Rightarrow> 'a list \<Rightarrow> (string \<times> nat) list" where
  "count_by k xs = map (\<lambda>s. (s, count_where (\<lambda>x. k x = s) xs)) (sort (remdups (map k xs)))"

definition max_settlement_artifact_refs :: nat where
  "max_settlement_artifact_refs = 256"

record settlement_snapshot =
  ss_assistant :: "draft_row option"
  ss_usage :: usage
  ss_models :: "(string \<times> nat) list"
  ss_tools :: "(string \<times> nat) list"
  ss_artifact_count :: nat
  ss_artifacts :: "(id \<times> string \<times> string \<times> nat) list"
  ss_truncated :: bool
  ss_verification :: "(id \<times> receipt_status \<times> string option) option"

definition get_assistant_draft :: "id \<Rightarrow> db \<Rightarrow> draft_row option" where
  "get_assistant_draft run d = find (\<lambda>x. d_run x = run) (db_drafts d)"

definition execution_settlement_snapshot :: "id \<Rightarrow> db \<Rightarrow> settlement_snapshot" where
  "execution_settlement_snapshot run d =
    (let arts = select_by (\<lambda>a. (a_created a, a_id a)) (\<lambda>a. a_run a = run) (db_artifacts d);
         items = take max_settlement_artifact_refs arts;
         checks = rev (select_by by_creation (\<lambda>t. t_run t = run \<and> t_name t = ''task.verify'') (db_receipts d))
     in \<lparr>ss_assistant = get_assistant_draft run d,
         ss_usage = model_usage_summary run d,
         ss_models = count_by (call_status_text \<circ> c_status) (run_calls run d),
         ss_tools = count_by (receipt_status_text \<circ> t_status) (filter (\<lambda>t. t_run t = run) (db_receipts d)),
         ss_artifact_count = length arts,
         ss_artifacts = map (\<lambda>a. (a_id a, a_kind a, a_content_type a, a_bytes a)) items,
         ss_truncated = (length arts > length items),
         ss_verification = (case checks of [] \<Rightarrow> None
           | t # _ \<Rightarrow> Some (t_op t, t_status t, t_result_hash t))\<rparr>)"

subsection \<open>Sandbox launchers\<close>

definition record_sandbox_process ::
    "ctx \<Rightarrow> id \<Rightarrow> string \<Rightarrow> int \<Rightarrow> string \<Rightarrow> string \<Rightarrow> db \<Rightarrow> (id \<times> db) res" where
  "record_sandbox_process c run attempt pid started settings d =
    (let now = x_clock c 1; (i, d1) = new_id ''sbx'' d
     in if get_run_row d run = None \<or> list_ex (\<lambda>s. s_id s = i) (db_sandboxes d) then Inl SqlIntegrityError
        else Inr (i, d1\<lparr>db_sandboxes := db_sandboxes d1 @
          [\<lparr>s_id = i, s_run = run, s_attempt = attempt, s_pid = pid, s_started = started,
            s_settings = settings, s_status = SandboxRunning, s_created = now, s_updated = now\<rparr>]\<rparr>))"

definition forget_sandbox_process :: "id \<Rightarrow> db \<Rightarrow> db" where
  "forget_sandbox_process i d = d\<lparr>db_sandboxes := filter (\<lambda>s. s_id s \<noteq> i) (db_sandboxes d)\<rparr>"

definition list_reapable_sandbox_processes :: "bool \<Rightarrow> db \<Rightarrow> sandbox_row list" where
  "list_reapable_sandbox_processes include_running d =
    select_by (\<lambda>s. (s_created s, s_id s))
      (\<lambda>s. s_status s = SandboxOrphaned \<or> (include_running \<and> s_status s = SandboxRunning))
      (db_sandboxes d)"

definition settle_sandbox_process :: "ctx \<Rightarrow> id \<Rightarrow> sandbox_status \<Rightarrow> db \<Rightarrow> db res" where
  "settle_sandbox_process c i status d =
    (if status \<notin> {SandboxReaped, SandboxGone, SandboxStale} then Inl PyValueError
     else Inr (d\<lparr>db_sandboxes := update_where (\<lambda>s. s_id s = i)
       (\<lambda>s. s\<lparr>s_status := status, s_updated := x_clock c 1\<rparr>) (db_sandboxes d)\<rparr>))"

subsection \<open>Drafts and assistant rounds\<close>

definition update_assistant_draft ::
    "ctx \<Rightarrow> id \<Rightarrow> string \<Rightarrow> string \<Rightarrow> json list \<Rightarrow> db \<Rightarrow> (draft_row \<times> db) res" where
  "update_assistant_draft c run key content calls d =
    run_write_transaction c None run d (\<lambda>d.
      (case get_assistant_draft run d of
         Some x \<Rightarrow>
           if d_key x = key then Inr (x, d)
           else (let y = x\<lparr>d_revision := d_revision x + 1, d_key := key, d_content := content,
                           d_calls := JList calls, d_updated := x_clock c 1\<rparr>
                 in Inr (y, d\<lparr>db_drafts := update_where (\<lambda>z. d_run z = run) (\<lambda>_. y) (db_drafts d)\<rparr>))
       | None \<Rightarrow>
           if get_run_row d run = None then Inl SqlIntegrityError
           else (let y = \<lparr>d_run = run, d_revision = 1, d_key = key, d_content = content,
                          d_calls = JList calls, d_created = x_clock c 1, d_updated = x_clock c 1\<rparr>
                 in Inr (y, d\<lparr>db_drafts := db_drafts d @ [y]\<rparr>))))"

definition round_committed :: "id \<Rightarrow> string \<Rightarrow> event_row \<Rightarrow> bool" where
  "round_committed run round e \<longleftrightarrow>
     e_run e = run \<and> e_type e = ''assistant.round.committed'' \<and>
     dget (json_payload (Some (e_payload e))) ''round_id'' = JStr round"

definition commit_assistant_round ::
    "ctx \<Rightarrow> id \<Rightarrow> dict \<Rightarrow> db \<Rightarrow> ((event_row \<times> bool) \<times> db) res" where
  "commit_assistant_round c run payload d =
    (let round = text_or (dget payload ''round_id'') [];
         payload_json = encode_payload (JObj payload)
     in if round = [] then Inl PyValueError
        else run_write_transaction c None run d (\<lambda>d.
          (case find (round_committed run round) (db_events d) of
             Some e \<Rightarrow>
               if e_payload e \<noteq> payload_json \<and>
                  list_ex (\<lambda>k. \<not> py_eq (dget (json_payload (Some (e_payload e))) k) (dget payload k))
                    [''text'', ''reasoning_summary'']
               then Inl RunResultConflictError else Inr ((e, False), d)
           | None \<Rightarrow>
               bindr (append_event_uncommitted run ''assistant.round.committed'' payload_json (x_clock c 1) d)
                (\<lambda>(e, _, d1). bindr (touch_thread_for_run_event run ''assistant.round.committed''
                                       (e_seq e) (x_clock c 1) d1)
                (\<lambda>d2. Inr ((e, True), d2))))))"

subsection \<open>The lifecycle of a call\<close>

definition settled_call :: "call_status \<Rightarrow> bool" where
  "settled_call s \<longleftrightarrow> \<not> call_open s"

inductive call_step :: "call_status \<Rightarrow> call_status \<Rightarrow> bool" where
  stream: "call_open s \<Longrightarrow> call_step s CallStreaming"
| settle: "call_open s \<Longrightarrow> settled_call t \<Longrightarrow> call_step s t"

definition calls_evolve :: "db \<Rightarrow> db \<Rightarrow> bool" where
  "calls_evolve d d' = rows_evolve call_step c_status c_id (db_calls d) (db_calls d')"

interpretation calls: lifecycle_table call_step settled_call db_calls c_status c_id calls_evolve
proof unfold_locales
  fix s t
  show "settled_call s \<Longrightarrow> \<not> call_step s t"
    by (auto simp: settled_call_def elim: call_step.cases)
next
  fix s
  have "call_step s CallFailed" if "call_open s"
    using that by (auto intro: call_step.settle simp: settled_call_def call_open_def)
  then show "\<not> settled_call s \<Longrightarrow> \<exists>t. call_step s t \<and> t \<noteq> s"
    by (auto simp: settled_call_def call_open_def)
qed (simp add: calls_evolve_def)

definition call_numbers :: "id \<Rightarrow> db \<Rightarrow> nat list" where
  "call_numbers run d = map c_index (run_calls run d)"

definition call_reserved :: "id \<Rightarrow> db \<Rightarrow> db \<Rightarrow> bool" where
  "call_reserved run d d' \<longleftrightarrow> (\<exists>x. db_calls d' = db_calls d @ [x] \<and> c_run x = run \<and>
     c_index x = Suc (max_of (call_numbers run d)))"

interpretation call_ledger: append_log call_numbers call_reserved
  by unfold_locales (auto simp: call_reserved_def call_numbers_def run_calls_def)

text \<open>What the operations on calls write: the ledger and the id supply.\<close>

definition without_calls :: "db \<Rightarrow> db" where
  "without_calls d = d\<lparr>db_calls := [], db_uuid_next := 0\<rparr>"

lemma without_calls_frame:
  assumes "without_calls d' = without_calls d"
  shows "db_runs d' = db_runs d" "db_jobs d' = db_jobs d" "db_events d' = db_events d"
    "db_threads d' = db_threads d" "db_changes d' = db_changes d" "db_cursor d' = db_cursor d"
    "db_receipts d' = db_receipts d" "db_messages d' = db_messages d"
  using assms by (cases d; cases d'; simp add: without_calls_def)+

lemma without_calls_updates [simp]:
  "without_calls (d\<lparr>db_calls := x\<rparr>) = without_calls d"
  "without_calls (d\<lparr>db_uuid_next := n\<rparr>) = without_calls d"
  by (simp_all add: without_calls_def)

lemma reserve_model_call_inv:
  assumes "reserve_model_call c q d = Inr (x, d')"
  shows "db_calls d' = db_calls d @ [x]" "without_calls d' = without_calls d"
    "x = new_call q (c_id x) (length (run_calls (mq_run q) d) + 1) (x_clock c 1)"
    "int (length (purpose_calls (mq_run q) (mq_purpose q) d)) < max 1 (mq_max q)"
    "c_id x \<notin> c_id ` set (db_calls d)"
  using assms
  by (auto simp: reserve_model_call_def run_write_transaction_Inr bindr_Inr_iff Let_def new_id_def
      call_clash_def list_ex_iff new_call_def split: if_splits)

lemma update_open_call_inv:
  assumes "update_open_call c run i f d = Inr d'"
  shows "db_calls d' = update_where (open_call run i) f (db_calls d)"
    "without_calls d' = without_calls d" "count_where (open_call run i) (db_calls d) = 1"
  using assms
  by (auto simp: update_open_call_def run_write_transaction_Inr split: if_splits)

text \<open>The four updates of an open call differ in the row they write, never in its identity.\<close>

definition call_write :: "(call_row \<Rightarrow> call_row) \<Rightarrow> bool" where
  "call_write f \<longleftrightarrow> (\<forall>x. c_id (f x) = c_id x \<and> c_run (f x) = c_run x \<and> c_index (f x) = c_index x \<and>
     c_purpose (f x) = c_purpose x \<and> (call_open (c_status x) \<longrightarrow> call_step\<^sup>*\<^sup>* (c_status x) (c_status (f x))))"

lemma call_write_to:
  assumes "\<And>x :: call_row. c_id (f x) = c_id x \<and> c_run (f x) = c_run x \<and> c_index (f x) = c_index x \<and>
      c_purpose (f x) = c_purpose x"
    and "\<And>x. c_status (f x) = c_status x \<or> c_status (f x) = CallStreaming \<or> settled_call (c_status (f x))"
  shows "call_write f"
  unfolding call_write_def
proof (intro allI conjI impI)
  fix x :: call_row assume "call_open (c_status x)"
  then show "call_step\<^sup>*\<^sup>* (c_status x) (c_status (f x))"
    using assms(2) [of x] call_step.intros by (metis r_into_rtranclp rtranclp.rtrancl_refl)
qed (use assms(1) in auto)

text \<open>An operation of the ledger, under the budget \<open>b\<close> the run's settings give each purpose.\<close>

inductive ledger_op :: "(id \<Rightarrow> string \<Rightarrow> int) \<Rightarrow> db \<Rightarrow> db \<Rightarrow> bool" for b where
  op_reserve: "reserve_model_call c q d = Inr (x, d') \<Longrightarrow> mq_max q \<le> b (mq_run q) (mq_purpose q) \<Longrightarrow>
    ledger_op b d d'"
| op_phase: "mark_model_call_phase c run i ph raw hdr d = Inr d' \<Longrightarrow> ledger_op b d d'"
| op_output: "mark_model_call_output c run i vis d = Inr d' \<Longrightarrow> ledger_op b d d'"
| op_settle: "settle_model_call c run i rid inp out rea us d = Inr d' \<Longrightarrow> ledger_op b d d'"
| op_fail: "fail_model_call c run i unk err rid inp out rea us d = Inr d' \<Longrightarrow> ledger_op b d d'"

text \<open>Every such operation appends a reserved call within budget or rewrites one open call.\<close>

lemma ledger_op_cases:
  assumes "ledger_op b d d'"
  obtains (reserved) c q x where "reserve_model_call c q d = Inr (x, d')"
      "mq_max q \<le> b (mq_run q) (mq_purpose q)"
  | (updated) run i f where "call_write f"
      "db_calls d' = update_where (open_call run i) f (db_calls d)" "without_calls d' = without_calls d"
  using assms
proof cases
  case (op_reserve c q x)
  then show ?thesis by (rule reserved)
next
  case (op_phase c run i ph raw hdr)
  then have eq: "update_open_call c run i (phase_write ph raw hdr (x_clock c 1)) d = Inr d'"
    unfolding mark_model_call_phase_def by (metis sum.distinct(1))
  show ?thesis
    by (rule updated [OF _ update_open_call_inv(1,2) [OF eq]])
      (rule call_write_to; simp add: phase_write_def)
next
  case (op_output c run i vis)
  show ?thesis
    by (rule updated [OF _ update_open_call_inv(1,2) [OF op_output [unfolded mark_model_call_output_def]]])
      (rule call_write_to; simp)
next
  case (op_settle c run i rid inp out rea us)
  show ?thesis
    by (rule updated [OF _ update_open_call_inv(1,2) [OF op_settle [unfolded settle_model_call_def]]])
      (rule call_write_to; simp add: settled_call_status_def settled_call_def call_open_def
        del: encode_payload.simps)
next
  case (op_fail c run i unk err rid inp out rea us)
  show ?thesis
    by (rule updated [OF _ update_open_call_inv(1,2) [OF op_fail [unfolded fail_model_call_def]]])
      (rule call_write_to; simp add: settled_call_def call_open_def del: encode_payload.simps)
qed

definition calls_numbered :: "db \<Rightarrow> bool" where
  "calls_numbered d \<longleftrightarrow> (\<forall>run. contiguous (call_numbers run d))"

definition within_budget :: "(id \<Rightarrow> string \<Rightarrow> int) \<Rightarrow> db \<Rightarrow> bool" where
  "within_budget b d \<longleftrightarrow> (\<forall>run purpose. int (length (purpose_calls run purpose d)) \<le> max 1 (b run purpose))"

lemma purpose_calls_alt:
  "purpose_calls run purpose d = filter (\<lambda>x. c_run x = run \<and> c_purpose x = purpose) (db_calls d)"
  by (simp add: purpose_calls_def run_calls_def conj_commute)

lemma update_same_numbers:
  assumes "call_write f" "db_calls d' = update_where (open_call run i) f (db_calls d)"
  shows "call_numbers r d' = call_numbers r d"
    "length (purpose_calls r p d') = length (purpose_calls r p d)"
proof -
  show "call_numbers r d' = call_numbers r d"
    unfolding call_numbers_def run_calls_def assms(2)
    by (rule filter_map_update_where) (use assms(1) in \<open>simp add: call_write_def\<close>)
  have "map c_index (purpose_calls r p d') = map c_index (purpose_calls r p d)"
    unfolding purpose_calls_alt assms(2)
    by (rule filter_map_update_where) (use assms(1) in \<open>simp add: call_write_def\<close>)
  then show "length (purpose_calls r p d') = length (purpose_calls r p d)"
    by (metis length_map)
qed

lemma ledger_op_numbered:
  assumes "ledger_op b d d'" "calls_numbered d"
  shows "calls_numbered d'"
  using assms(1)
proof (cases rule: ledger_op_cases)
  case (reserved c q x)
  note r = reserve_model_call_inv [OF reserved(1)]
  have "contiguous (call_numbers (mq_run q) d)" using assms(2) by (simp add: calls_numbered_def)
  then have "max_of (call_numbers (mq_run q) d) = length (run_calls (mq_run q) d)"
    by (simp add: contiguous_max call_numbers_def)
  moreover have "c_run x = mq_run q" "c_index x = Suc (length (run_calls (mq_run q) d))"
    by (subst r(3), simp add: new_call_def)+
  ultimately have "call_reserved (mq_run q) d d'"
    using r(1) by (auto simp: call_reserved_def)
  then show ?thesis
    using call_ledger.appends_contiguous assms(2) by (auto simp: calls_numbered_def)
next
  case (updated run i f)
  then show ?thesis using assms(2) update_same_numbers by (simp add: calls_numbered_def)
qed

lemma ledger_op_budget:
  assumes "ledger_op b d d'" "within_budget b d"
  shows "within_budget b d'"
  using assms(1)
proof (cases rule: ledger_op_cases)
  case (reserved c q x)
  note r = reserve_model_call_inv [OF reserved(1)]
  have "c_run x = mq_run q" "c_purpose x = mq_purpose q"
    by (subst r(3), simp add: new_call_def)+
  then show ?thesis
    using assms(2) r(1,4) reserved(2) by (force simp: within_budget_def purpose_calls_alt)
next
  case (updated run i f)
  then show ?thesis using assms(2) update_same_numbers by (simp add: within_budget_def)
qed

lemma ledger_op_evolves:
  assumes "ledger_op b d d'"
  shows "calls_evolve d d'"
    and "\<And>x. x \<in> set (db_calls d) \<Longrightarrow> settled_call (c_status x) \<Longrightarrow> x \<in> set (db_calls d')"
  using assms
  by (cases rule: ledger_op_cases;
      auto simp: reserve_model_call_inv(1) call_write_def open_call_def settled_call_def
        intro: calls.evolves_append calls.evolves_update update_where_keeps)+

subsection \<open>Properties\<close>

text \<open>C3: the model-call budget holds. From a ledger within its budgets, whatever reservations and
  settlements follow, in any order and from any attempt, no run ever holds more calls of a purpose
  than the larger of one and the budget its settings give that purpose.\<close>

theorem model_budget_holds:
  assumes "(ledger_op b)\<^sup>*\<^sup>* d d'" "within_budget b d"
  shows "int (length (purpose_calls run purpose d')) \<le> max 1 (b run purpose)"
proof -
  have "within_budget b d'"
    using assms by (induction rule: rtranclp_induct) (auto intro: ledger_op_budget)
  then show ?thesis by (simp add: within_budget_def)
qed

text \<open>One run, budget two: two reservations pass.\<close>

definition demo_call :: call_request where
  "demo_call = \<lparr>mq_run = ''run_1'', mq_attempt = ''job_1:1'', mq_model = ''m'', mq_max = 2,
     mq_purpose = ''agent'', mq_parent = None, mq_logical = None, mq_retry = 0\<rparr>"

definition reserved_db :: db where
  "reserved_db = demo_db\<lparr>db_calls := [new_call demo_call ''model_call_0'' 1 9], db_uuid_next := 1\<rparr>"

lemma reserve_demo:
  "returns (reserve_model_call demo_ctx demo_call reserved_db) (\<lambda>(x, d). c_index x = 2)"
  by code_simp

theorem model_budget_holds_witness:
  "returns (reserve_model_call demo_ctx demo_call reserved_db)
     (\<lambda>(x, d). length (purpose_calls ''run_1'' ''agent'' d) \<le> 2)"
proof -
  obtain x d where r: "reserve_model_call demo_ctx demo_call reserved_db = Inr (x, d)"
    using reserve_demo by (auto simp: returns_iff)
  have "(ledger_op (\<lambda>_ _. 2))\<^sup>*\<^sup>* reserved_db d"
    using op_reserve [OF r] by (auto simp: demo_call_def)
  moreover have "within_budget (\<lambda>_ _. 2) reserved_db"
    by (auto simp: within_budget_def purpose_calls_alt reserved_db_def)
  ultimately show ?thesis
    using model_budget_holds [of "\<lambda>_ _. 2" reserved_db d "''run_1''" "''agent''"] r by simp
qed

text \<open>C4: the ledger is an ordered account. Along any sequence of its operations the calls of
  every run stay numbered 1, 2, ..., n in the order of reservation, and a call that has settled
  remains in the ledger exactly as it was settled.\<close>

theorem model_ledger_is_an_account:
  assumes "(ledger_op b)\<^sup>*\<^sup>* d d'" "calls_numbered d"
  shows "call_numbers run d' = [1..<Suc (length (run_calls run d'))] \<and>
    {x \<in> set (db_calls d). settled_call (c_status x)} \<subseteq> set (db_calls d')"
proof -
  have "calls_numbered d' \<and> {x \<in> set (db_calls d). settled_call (c_status x)} \<subseteq> set (db_calls d')"
    using assms
    by (induction rule: rtranclp_induct) (auto intro: ledger_op_numbered ledger_op_evolves(2))
  then show ?thesis by (auto simp: calls_numbered_def contiguous_def call_numbers_def)
qed

theorem model_ledger_is_an_account_witness:
  "returns (reserve_model_call demo_ctx demo_call reserved_db)
     (\<lambda>(x, d). call_numbers ''run_1'' d = [1..<Suc (length (run_calls ''run_1'' d))])"
proof -
  obtain x d where r: "reserve_model_call demo_ctx demo_call reserved_db = Inr (x, d)"
    using reserve_demo by (auto simp: returns_iff)
  have "(ledger_op (\<lambda>_ _. 2))\<^sup>*\<^sup>* reserved_db d"
    using op_reserve [OF r] by (auto simp: demo_call_def)
  moreover have "calls_numbered reserved_db"
    by (auto simp: calls_numbered_def call_numbers_def run_calls_def reserved_db_def contiguous_def new_call_def)
  ultimately show ?thesis
    using model_ledger_is_an_account [of "\<lambda>_ _. 2" reserved_db d "''run_1''"] r by simp
qed

text \<open>a call is settled at most once. After \<open>settle_model_call\<close> returns, settling it again or
  failing it, by any caller the fence admits, raises and writes nothing.\<close>

theorem model_call_settles_once:
  assumes "settle_model_call c run i rid inp out rea us d = Inr d'" "admitted c' None run d'"
  shows "settle_model_call c' run i rid2 inp2 out2 rea2 us2 d' = Inl PyRuntimeError \<and>
    fail_model_call c' run i unk err rid2 inp2 out2 rea2 us2 d' = Inl PyRuntimeError"
proof -
  have "count_where (open_call run i) (db_calls d') = 0"
    unfolding update_open_call_inv(1) [OF assms(1) [unfolded settle_model_call_def]]
    by (rule count_where_update_none)
      (simp add: open_call_def settled_call_status_def call_open_def)
  then show ?thesis
    using assms(2)
    by (simp add: settle_model_call_def fail_model_call_def update_open_call_def run_write_transaction_eq)
qed

theorem model_call_settles_once_witness:
  "returns (settle_model_call demo_ctx ''run_1'' ''model_call_0'' None (Some 5) None None None reserved_db)
     (\<lambda>d. settle_model_call free_ctx ''run_1'' ''model_call_0'' None None None None None d = Inl PyRuntimeError)"
proof -
  have "returns (settle_model_call demo_ctx ''run_1'' ''model_call_0'' None (Some 5) None None None reserved_db) (\<lambda>_. True)"
    by code_simp
  then obtain d where d:
    "settle_model_call demo_ctx ''run_1'' ''model_call_0'' None (Some 5) None None None reserved_db = Inr d"
    by (auto simp: returns_iff)
  have "admitted free_ctx None ''run_1'' d"
    by (simp add: admitted_def active_lease_def free_ctx_def)
  then show ?thesis using model_call_settles_once [OF d] d by simp
qed

text \<open>a model round is committed exactly once. When \<open>commit_assistant_round\<close> has returned,
  committing the same payload again (an execution replaying the round) returns the event of the
  first commit, reports that nothing was appended, and leaves the database as it is.\<close>

theorem assistant_round_commits_once:
  assumes "commit_assistant_round c run payload d = Inr ((e, fresh), d')"
    and "dget payload ''round_id'' = JStr round" "distinct (map fst payload)"
    and "admitted c' None run d'"
    and "\<And>x. x \<in> set (db_events d) \<Longrightarrow> round_committed run round x \<Longrightarrow>
      e_payload x = encode_payload (JObj payload)"
  shows "commit_assistant_round c' run payload d' = Inr ((e, False), d') \<and> e \<in> set (db_events d')"
proof -
  have round: "text_or (dget payload ''round_id'') [] = round" "round \<noteq> []"
    using assms(1,2) by (auto simp: commit_assistant_round_def)
  note body = assms(1) [unfolded commit_assistant_round_def Let_def run_write_transaction_eq round(1)]
  have key: "map_of (sort_key fst (map (\<lambda>(k, v). (k, encode_payload v)) payload)) ''round_id'' =
      map_option encode_payload (map_of payload ''round_id'')"
  proof (subst map_of_sort_key)
    show "distinct (map fst (map (\<lambda>(k, v). (k, encode_payload v)) payload))"
      using assms(3) by (simp add: comp_def case_prod_beta)
  qed (simp add: map_of_map)
  have found: "dget (json_payload (Some (encode_payload (JObj payload)))) ''round_id'' = JStr round"
    using assms(2) key by (auto simp: json_payload_def dget_def split: option.splits)
  have "find (round_committed run round) (db_events d') = Some e \<and> e_payload e = encode_payload (JObj payload)"
  proof (cases "find (round_committed run round) (db_events d)")
    case (Some x)
    then have "d' = d" "x = e"
      using body round by (auto simp del: encode_payload.simps split: if_splits)
    then show ?thesis using Some assms(5) [of x] find_SomeD [OF Some] by simp
  next
    case None
    then obtain pe d1 where d1: "append_event_uncommitted run ''assistant.round.committed''
        (encode_payload (JObj payload)) (x_clock c 1) d = Inr (e, pe, d1)"
      and d2: "touch_thread_for_run_event run ''assistant.round.committed'' (e_seq e) (x_clock c 1) d1 = Inr d'"
      using body round by (auto simp del: encode_payload.simps simp: bindr_Inr_iff split: if_splits)
    have "child_event_of ''assistant.round.committed'' = None" by code_simp
    then obtain "append_event_row run ''assistant.round.committed'' (encode_payload (JObj payload))
        (x_clock c 1) d = Inr (e, d1)"
      using d1 by (auto simp: append_event_uncommitted_def bindr_Inr_iff simp del: encode_payload.simps)
    then have e: "db_events d1 = db_events d @ [e]" "e_run e = run" "e_type e = ''assistant.round.committed''"
      "e_payload e = encode_payload (JObj payload)"
      by (auto elim!: append_event_rowE simp del: encode_payload.simps)
    have "round_committed run round e" using e(2-4) found by (simp add: round_committed_def)
    then show ?thesis
      using None e touch_thread_frame(2) [OF d2] by (simp add: find_append del: encode_payload.simps)
  qed
  then show ?thesis
    using assms(4) round find_SomeD
    by (fastforce simp: commit_assistant_round_def Let_def run_write_transaction_eq simp del: encode_payload.simps)
qed

definition demo_round :: dict where
  "demo_round = [(''round_id'', JStr ''r1''), (''text'', JStr ''hello'')]"

theorem assistant_round_commits_once_witness:
  "returns (commit_assistant_round demo_ctx ''run_1'' demo_round demo_db)
     (\<lambda>((e, _), d). commit_assistant_round free_ctx ''run_1'' demo_round d = Inr ((e, False), d))"
proof -
  have "returns (commit_assistant_round demo_ctx ''run_1'' demo_round demo_db) (\<lambda>_. True)"
    by code_simp
  then obtain e b d where d: "commit_assistant_round demo_ctx ''run_1'' demo_round demo_db = Inr ((e, b), d)"
    by (auto simp: returns_iff)
  have "admitted free_ctx None ''run_1'' d"
    by (simp add: admitted_def active_lease_def free_ctx_def)
  moreover have "dget demo_round ''round_id'' = JStr ''r1''" "distinct (map fst demo_round)"
    by (simp_all add: demo_round_def)
  ultimately show ?thesis
    using assistant_round_commits_once [OF d, of "''r1''" free_ctx] d
    by (simp add: demo_db_def empty_db_def)
qed

end
