(* ===== verification/Run_State.thy ===== *)
theory Run_State
  imports Model_Calls
begin

text \<open>
  Run records, their graph branch head, committed results and steering instructions
  (store/run_state). \<open>commit_run_result\<close> is the one place a run's execution ends: run row, event,
  thread projection, receipts and job are settled in one transaction under the job's lease.
  Shown: a result is committed once and never replaced, what one commit writes, and that the
  branch head moves by compare-and-swap.
\<close>

subsection \<open>Run records (records.py)\<close>

record run_request =
  nr_principal :: string
  nr_goal :: string
  nr_workspace :: "string option"
  nr_parent :: "id option"
  nr_settings :: dict
  nr_metadata :: dict
  nr_mode :: string
  nr_history :: "json list"
  nr_graph_thread :: "id option"
  nr_checkpoint :: "id option"
  nr_definition :: "id option"
  nr_input_kind :: string
  nr_thread :: "id option"
  nr_item :: "id option"
  nr_user_input :: "string option"
  nr_kind :: "string option"
  nr_root :: "id option"
  nr_agent_id :: string
  nr_agent_version :: string
  nr_depth :: int
  nr_policy :: dict
  nr_spawn_op :: "id option"

definition run_kind_of :: "string \<Rightarrow> run_kind option" where
  "run_kind_of s = (if s = ''turn'' then Some KindTurn else if s = ''fork'' then Some KindFork
     else if s = ''child'' then Some KindChild else None)"

definition fresh_unless :: "string option \<Rightarrow> string \<Rightarrow> db \<Rightarrow> id \<times> db" where
  "fresh_unless given kind d = (if opt_or given [] = [] then new_id kind d else (opt_or given [], d))"

text \<open>The two readings of the clock are the record's \<open>created_at\<close> and \<open>updated_at\<close>.\<close>

definition new_run_record :: "time \<Rightarrow> time \<Rightarrow> run_request \<Rightarrow> db \<Rightarrow> (run_row \<times> db) res" where
  "new_run_record created updated q d =
    (if nr_input_kind q \<notin> {''new'', ''fork''} then Inl PyValueError
     else case run_kind_of (opt_or (nr_kind q) (if nr_input_kind q = ''fork'' then ''fork'' else ''turn'')) of
       None \<Rightarrow> Inl PyValueError
     | Some kind \<Rightarrow>
        if nr_depth q < 0 then Inl PyValueError
        else
         (let (i, d1) = new_id ''run'' d; (g, d2) = fresh_unless (nr_graph_thread q) ''thread'' d1
          in Inr (\<lparr>r_id = i, r_principal = nr_principal q, r_kind = kind,
                   r_root = Some (opt_or (nr_root q) i), r_agent_id = nr_agent_id q,
                   r_agent_version = nr_agent_version q, r_depth = nr_depth q,
                   r_policy = encode_payload (JObj (nr_policy q)), r_spawn_op = nr_spawn_op q,
                   r_graph_thread = g, r_checkpoint = nr_checkpoint q, r_definition = nr_definition q,
                   r_input_kind = nr_input_kind q, r_thread = nr_thread q, r_item = nr_item q,
                   r_user_input = Some (opt_or (nr_user_input q) (nr_goal q)), r_goal = nr_goal q,
                   r_workspace = nr_workspace q, r_status = RunQueued,
                   r_history = JList (nr_history q), r_parent = nr_parent q,
                   r_settings = JObj (nr_settings q), r_metadata = JObj (nr_metadata q),
                   r_mode = nr_mode q, r_created = created, r_updated = updated,
                   r_completed = None\<rparr>, d2)))"

definition insert_run :: "run_row \<Rightarrow> db \<Rightarrow> db res" where
  "insert_run r d =
    (if list_ex (\<lambda>x. r_id x = r_id r \<or> (r_spawn_op r \<noteq> None \<and> r_spawn_op x = r_spawn_op r)) (db_runs d)
     then Inl SqlIntegrityError else Inr (d\<lparr>db_runs := db_runs d @ [r]\<rparr>))"

definition get_owned_run :: "string \<Rightarrow> id \<Rightarrow> db \<Rightarrow> run_row option" where
  "get_owned_run owner i d = find (\<lambda>r. r_principal r = owner \<and> r_id r = i) (db_runs d)"

definition create_run :: "ctx \<Rightarrow> run_request \<Rightarrow> db \<Rightarrow> (run_row \<times> db) res" where
  "create_run c q d =
    (let root = (case (nr_parent q, nr_root q) of
         (Some p, None) \<Rightarrow>
           (case get_owned_run (nr_principal q) p d of
              None \<Rightarrow> None | Some parent \<Rightarrow> Some (opt_or (r_root parent) p))
       | _ \<Rightarrow> nr_root q)
     in bindr (new_run_record (x_clock c 1) (x_clock c 2) (q\<lparr>nr_root := root\<rparr>) d)
          (\<lambda>(r, d1). bindr (insert_run r d1) (\<lambda>d2. Inr (r, d2))))"

definition set_run :: "id \<Rightarrow> (run_row \<Rightarrow> run_row) \<Rightarrow> db \<Rightarrow> db" where
  "set_run i f d = d\<lparr>db_runs := update_where (\<lambda>r. r_id r = i) f (db_runs d)\<rparr>"

definition bind_graph_definition :: "ctx \<Rightarrow> id \<Rightarrow> id \<Rightarrow> db \<Rightarrow> db res" where
  "bind_graph_definition c run definition_id d =
    run_write_transaction c None run d (\<lambda>d.
      (case get_run_row d run of
         None \<Rightarrow> Inl PyKeyError
       | Some r \<Rightarrow>
          (case r_definition r of
             None \<Rightarrow> Inr (set_run run (\<lambda>r. r\<lparr>r_definition := Some definition_id,
                                             r_updated := x_clock c 1\<rparr>) d)
           | Some current \<Rightarrow> if current \<noteq> definition_id then Inl GraphDefinitionMismatchError else Inr d)))"

definition advance_graph_checkpoint ::
    "ctx \<Rightarrow> id \<Rightarrow> id \<Rightarrow> id option \<Rightarrow> id \<Rightarrow> db \<Rightarrow> db res" where
  "advance_graph_checkpoint c run graph_thread expected checkpoint d =
    run_write_transaction c None run d (\<lambda>d.
      (case get_run_row d run of
         None \<Rightarrow> Inl PyKeyError
       | Some r \<Rightarrow>
          if r_graph_thread r \<noteq> graph_thread then Inl GraphHeadConflictError
          else if r_checkpoint r = Some checkpoint then Inr d
          else if r_checkpoint r \<noteq> expected then Inl GraphHeadConflictError
          else if Some checkpoint \<noteq> expected
            then Inr (set_run run (\<lambda>r. r\<lparr>r_checkpoint := Some checkpoint, r_updated := x_clock c 1\<rparr>) d)
          else Inr d))"

definition list_active_runs :: "db \<Rightarrow> run_row list" where
  "list_active_runs d =
    filter (\<lambda>r. r_status r \<in> {RunQueued, RunRunning, RunWaitingPermission, RunWaitingInput}) (db_runs d)"

text \<open>A run with the command that started it, when a command did.\<close>

definition starting_command :: "run_row \<Rightarrow> command_row \<Rightarrow> bool" where
  "starting_command r x \<longleftrightarrow> cm_run x = Some (r_id r) \<and> cm_principal x = r_principal r \<and>
     (cm_type x = ''run.start'' \<or> cm_type x = ''run.fork'')"

definition with_command :: "db \<Rightarrow> run_row \<Rightarrow> run_row \<times> (id \<times> string) option" where
  "with_command d r = (r, map_option (\<lambda>x. (cm_id x, cm_client x)) (find (starting_command r) (db_commands d)))"

definition get_run :: "id \<Rightarrow> db \<Rightarrow> (run_row \<times> (id \<times> string) option) option" where
  "get_run i d = map_option (with_command d) (get_run_row d i)"

definition get_run_for_principal :: "string \<Rightarrow> id \<Rightarrow> db \<Rightarrow> (run_row \<times> (id \<times> string) option) option" where
  "get_run_for_principal owner i d = map_option (with_command d) (get_owned_run owner i d)"

text \<open>\<open>datetime(t)\<close> drops the fraction of the second.\<close>

definition seconds :: "time \<Rightarrow> nat" where
  "seconds t = t div 1000000"

definition list_runs :: "string \<Rightarrow> nat \<Rightarrow> db \<Rightarrow> ((run_row \<times> (id \<times> string) option) \<times> nat) list" where
  "list_runs owner limit d =
    map (\<lambda>r. (with_command d r, count_where (\<lambda>e. e_run e = r_id r) (db_events d)))
      (take limit (rev (select_by (\<lambda>r. (seconds (r_updated r), r_id r))
        (\<lambda>r. r_principal r = owner \<and> r_kind r \<noteq> KindChild) (db_runs d))))"

definition update_run_status :: "ctx \<Rightarrow> id \<Rightarrow> run_status \<Rightarrow> time option \<Rightarrow> db \<Rightarrow> db res" where
  "update_run_status c run status completed d =
    run_write_transaction c None run d (\<lambda>d.
      Inr (set_run run (\<lambda>r. r\<lparr>r_status := status, r_updated := x_clock c 1, r_completed := completed\<rparr>) d))"

subsection \<open>Steering (\_\_init\_\_.py)\<close>

definition insert_steering :: "id \<Rightarrow> id \<Rightarrow> string \<Rightarrow> time \<Rightarrow> db \<Rightarrow> db res" where
  "insert_steering i run content now d =
    (if get_run_row d run = None \<or> list_ex (\<lambda>s. st_id s = i) (db_steering d) then Inl SqlIntegrityError
     else Inr (d\<lparr>db_steering := db_steering d @
       [\<lparr>st_id = i, st_run = run, st_content = content, st_status = ''pending'',
         st_created = now, st_injected = None\<rparr>]\<rparr>))"

definition create_steering_instruction :: "ctx \<Rightarrow> id \<Rightarrow> string \<Rightarrow> db \<Rightarrow> (id \<times> db) res" where
  "create_steering_instruction c run content d =
    (let (i, d1) = new_id ''steer'' d
     in bindr (insert_steering i run content (x_clock c 1) d1) (\<lambda>d2. Inr (i, d2)))"

definition claim_pending_steering :: "ctx \<Rightarrow> id \<Rightarrow> db \<Rightarrow> (steering_row list \<times> db) res" where
  "claim_pending_steering c run d =
    run_write_transaction c None run d (\<lambda>d.
      (let rows = select_by (\<lambda>s. (st_created s, st_id s)) (\<lambda>s. st_run s = run \<and> st_status s = ''pending'')
                    (db_steering d);
           inject = (\<lambda>s. s\<lparr>st_status := ''injected'', st_injected := Some (x_clock c 1)\<rparr>)
       in if rows = [] then Inr ([], d)
          else Inr (map inject rows,
                 d\<lparr>db_steering := update_where (\<lambda>s. st_id s \<in> st_id ` set rows \<and> st_status s = ''pending'')
                    inject (db_steering d)\<rparr>)))"

subsection \<open>Committing a result (\_\_init\_\_.py)\<close>

definition run_result_event :: "run_status \<Rightarrow> string option" where
  "run_result_event s = (case s of
      RunCompleted \<Rightarrow> Some ''run.completed'' | RunFailed \<Rightarrow> Some ''run.failed''
    | RunCanceled \<Rightarrow> Some ''run.canceled'' | RunWaitingPermission \<Rightarrow> Some ''run.waiting''
    | RunWaitingInput \<Rightarrow> Some ''run.waiting'' | _ \<Rightarrow> None)"

definition settled_job_status :: "run_status \<Rightarrow> job_status option" where
  "settled_job_status s = (case s of
      RunCompleted \<Rightarrow> Some JobCompleted | RunFailed \<Rightarrow> Some JobDead | RunCanceled \<Rightarrow> Some JobCanceled
    | RunWaitingPermission \<Rightarrow> Some JobCompleted | RunWaitingInput \<Rightarrow> Some JobCompleted
    | _ \<Rightarrow> None)"

definition ending_error :: "run_status \<Rightarrow> string" where
  "ending_error s = (case s of RunCompleted \<Rightarrow> ''ParentRunCompleted'' | RunFailed \<Rightarrow> ''ParentRunFailed''
    | _ \<Rightarrow> ''RunCanceled'')"

definition active_job :: "job_row \<Rightarrow> bool" where
  "active_job j \<longleftrightarrow> j_status j = JobPending \<or> j_status j = JobLeased"

definition settle_execution_job :: "exec_lease \<Rightarrow> run_status \<Rightarrow> time \<Rightarrow> time \<Rightarrow> db \<Rightarrow> db res" where
  "settle_execution_job l status settled_at fence_at d =
    (case settled_job_status status of
       None \<Rightarrow> Inl PyKeyError
     | Some js \<Rightarrow>
        if count_where (lease_holds l fence_at) (db_jobs d) \<noteq> 1 then Inl LeaseFenceError
        else Inr (d\<lparr>db_jobs := update_where (lease_holds l fence_at)
               (\<lambda>j. j\<lparr>j_status := js, j_updated := settled_at, j_finished := Some settled_at,
                      j_expires := None\<rparr>) (db_jobs d)\<rparr>))"

definition settle_leased_job :: "ctx \<Rightarrow> run_status \<Rightarrow> db \<Rightarrow> db res" where
  "settle_leased_job c status d =
    (case x_lease c of None \<Rightarrow> Inr d
     | Some l \<Rightarrow> settle_execution_job l status (x_clock c 1) (x_clock c 2) d)"

definition latest_event :: "id \<Rightarrow> string \<Rightarrow> db \<Rightarrow> event_row option" where
  "latest_event run ty d =
    (case rev (select_by e_seq (\<lambda>e. e_run e = run \<and> e_type e = ty) (db_events d)) of
       [] \<Rightarrow> None | e # _ \<Rightarrow> Some e)"

definition persist_run_result ::
    "ctx \<Rightarrow> id \<Rightarrow> run_status \<Rightarrow> string \<Rightarrow> dict \<Rightarrow> db \<Rightarrow> ((event_row \<times> bool) \<times> db) res" where
  "persist_run_result c run status ty payload d =
    (let now = x_clock c 1
     in bindr (if terminal_run status then cancel_unstarted_tool_receipts run (ending_error status) now d
               else Inr d)
      (\<lambda>d1. bindr (append_event_uncommitted run ty (encode_payload (JObj payload)) now
               (set_run run (\<lambda>r. r\<lparr>r_status := status, r_updated := now,
                                  r_completed := (if terminal_run status then Some now else None)\<rparr>) d1))
      (\<lambda>(e, _, d2). bindr (update_thread_projection run status ty payload (e_seq e) now d2)
      (\<lambda>d3. bindr (settle_leased_job c status d3) (\<lambda>d4. Inr ((e, True), d4))))))"

definition commit_run_result ::
    "ctx \<Rightarrow> id \<Rightarrow> run_status \<Rightarrow> string \<Rightarrow> dict \<Rightarrow> bool \<Rightarrow> db \<Rightarrow> ((event_row \<times> bool) \<times> db) res" where
  "commit_run_result c run status ty payload orphan_recovery d =
    (if run_result_event status \<noteq> Some ty then Inl PyValueError
     else run_write_transaction c None run d (\<lambda>d.
      (case get_run_row d run of
         None \<Rightarrow> Inl PyKeyError
       | Some r \<Rightarrow>
          if x_lease c = None \<and> (\<not> orphan_recovery \<or>
               list_ex (\<lambda>j. j_run j = run \<and> active_job j) (db_jobs d)) then Inl LeaseFenceError
          else if r_status r = status
          then (case latest_event run ty d of
                  Some e \<Rightarrow>
                    if encode_payload (e_payload e) = encode_payload (JObj payload)
                    then bindr (settle_leased_job c status d) (\<lambda>d1. Inr ((e, False), d1))
                    else Inl RunResultConflictError
                | None \<Rightarrow> persist_run_result c run status ty payload d)
          else if terminal_run (r_status r) then Inl RunResultConflictError
          else persist_run_result c run status ty payload d)))"

subsection \<open>The lifecycle of a job\<close>

declare One_nat_def [simp del]

definition settled_job :: "job_status \<Rightarrow> bool" where
  "settled_job s \<longleftrightarrow> s = JobCompleted \<or> s = JobDead \<or> s = JobCanceled"

inductive job_step :: "job_status \<Rightarrow> job_status \<Rightarrow> bool" where
  claim: "job_step JobPending JobLeased"
| withdraw: "job_step JobPending JobCanceled"
| finish: "settled_job s \<Longrightarrow> job_step JobLeased s"

inductive_simps job_step_simps [simp]:
  "job_step JobPending s" "job_step JobLeased s" "job_step JobCompleted s" "job_step JobDead s"
  "job_step JobCanceled s"

definition jobs_evolve :: "db \<Rightarrow> db \<Rightarrow> bool" where
  "jobs_evolve d d' = rows_evolve job_step j_status j_id (db_jobs d) (db_jobs d')"

interpretation jobs: lifecycle_table job_step settled_job db_jobs j_status j_id jobs_evolve
proof unfold_locales
  fix s t
  show "settled_job s \<Longrightarrow> \<not> job_step s t" by (auto simp: settled_job_def)
next
  fix s
  show "\<not> settled_job s \<Longrightarrow> \<exists>t. job_step s t \<and> t \<noteq> s"
    by (cases s) (auto simp: settled_job_def)
qed (simp add: jobs_evolve_def)

text \<open>
  What a job row satisfies at any time: before its one lease nothing of a lease is on it, and
  its generation and attempt count that lease. With unique ids and at most one active job per
  run this is the invariant of the queue.
\<close>

definition job_ok :: "job_row \<Rightarrow> bool" where
  "job_ok j \<longleftrightarrow> j_attempt j = j_gen j \<and> j_gen j \<le> 1 \<and>
     (j_status j = JobPending \<longrightarrow> j_gen j = 0 \<and> j_owner j = None \<and> j_expires j = None \<and>
        j_cancel j = None \<and> j_quarantined j = None)"

definition one_active :: "db \<Rightarrow> bool" where
  "one_active d \<longleftrightarrow> (\<forall>run. count_where (\<lambda>j. j_run j = run \<and> active_job j) (db_jobs d) \<le> 1)"

definition jobs_ok :: "db \<Rightarrow> bool" where
  "jobs_ok d \<longleftrightarrow> distinct (map j_id (db_jobs d)) \<and> one_active d \<and> (\<forall>j\<in>set (db_jobs d). job_ok j)"

lemma job_same_row:
  assumes "distinct (map j_id (db_jobs d))" "x \<in> set (db_jobs d)" "y \<in> set (db_jobs d)" "j_id x = j_id y"
  shows "x = y"
  using assms by (auto simp: distinct_map dest: inj_onD)

definition job_effect :: "db \<Rightarrow> db \<Rightarrow> bool" where
  "job_effect d d' \<longleftrightarrow> (jobs_ok d \<longrightarrow> jobs_ok d' \<and> jobs_evolve d d')"

lemma job_effect_refl [simp, intro]: "job_effect d d"
  by (simp add: job_effect_def jobs.evolves_refl)

lemma job_effect_trans [trans]: "job_effect a b \<Longrightarrow> job_effect b e \<Longrightarrow> job_effect a e"
  unfolding job_effect_def by (metis jobs.evolves_trans)

lemma job_effect_same: "db_jobs d' = db_jobs d \<Longrightarrow> job_effect d d'"
  by (simp add: job_effect_def jobs.evolves_same jobs_ok_def one_active_def)

lemma job_effect_update:
  assumes rows: "db_jobs d' = update_where p f (db_jobs d)"
    and step: "\<And>j. jobs_ok d \<Longrightarrow> j \<in> set (db_jobs d) \<Longrightarrow> p j \<Longrightarrow>
      job_step\<^sup>*\<^sup>* (j_status j) (j_status (f j)) \<and> j_id (f j) = j_id j \<and> j_run (f j) = j_run j"
    and ok: "\<And>j. jobs_ok d \<Longrightarrow> j \<in> set (db_jobs d) \<Longrightarrow> p j \<Longrightarrow> job_ok j \<Longrightarrow> job_ok (f j)"
  shows "job_effect d d'"
  unfolding job_effect_def
proof (intro impI conjI)
  assume d: "jobs_ok d"
  note step = step [OF d] and ok = ok [OF d]
  have act: "active_job j" if "j \<in> set (db_jobs d)" "p j" "active_job (f j)" for j
    using step [OF that(1,2)] that(3) jobs.settled_only_self [of "j_status j" "j_status (f j)"]
    by (cases "j_status j") (auto simp: active_job_def settled_job_def)
  show "jobs_evolve d d'" by (rule jobs.evolves_update [OF rows]) (use step in auto)
  have "one_active d'"
    unfolding one_active_def rows
  proof
    fix run
    have "count_where (\<lambda>j. j_run j = run \<and> active_job j) (update_where p f (db_jobs d)) \<le>
        count_where (\<lambda>j. j_run j = run \<and> active_job j) (db_jobs d)"
      by (rule count_update_where_le) (use step act in auto)
    also have "\<dots> \<le> 1" using d by (simp add: one_active_def jobs_ok_def)
    finally show "count_where (\<lambda>j. j_run j = run \<and> active_job j) (update_where p f (db_jobs d)) \<le> 1" .
  qed
  moreover have "map j_id (db_jobs d') = map j_id (db_jobs d)"
    using step by (auto simp: rows update_where_def)
  ultimately show "jobs_ok d'"
    using ok d by (auto simp: jobs_ok_def rows)
qed

subsection \<open>What an operation may do to the store\<close>

text \<open>
  The tables with a lifecycle move along it, settled receipts keep their outcome, the log and
  the change feed grow in order, and the unique keys stay unique. Every operation of the store
  has this effect.
\<close>

definition store_effect :: "db \<Rightarrow> db \<Rightarrow> bool" where
  "store_effect d d' \<longleftrightarrow> job_effect d d' \<and> receipts_evolve d d' \<and> outcomes_kept d d' \<and>
     (op_distinct d \<longrightarrow> op_distinct d') \<and> log_grows d d' \<and> calls_evolve d d'"

lemma store_effect_refl [simp, intro]: "store_effect d d"
  by (simp add: store_effect_def receipts.evolves_refl calls.evolves_refl outcomes_kept_same)

lemma store_effect_trans [trans]: "store_effect a b \<Longrightarrow> store_effect b e \<Longrightarrow> store_effect a e"
  using job_effect_trans receipts.evolves_trans outcomes_kept_trans log_grows_trans calls.evolves_trans
  unfolding store_effect_def by metis

lemma store_effect_receipts: "receipt_effect d d' \<Longrightarrow> store_effect d d'"
  using without_receipts_frame(2,4) [of d' d]
  by (auto simp: store_effect_def receipt_effect_def intro: job_effect_same calls.evolves_same)

lemma store_effect_log: "log_effect d d' \<Longrightarrow> store_effect d d'"
  by (intro store_effect_receipts receipt_effect_log)

text \<open>A change of other tables only, and one of the jobs or of the calls only.\<close>

definition same_log :: "db \<Rightarrow> db \<Rightarrow> bool" where
  "same_log d d' \<longleftrightarrow> db_events d' = db_events d \<and> db_threads d' = db_threads d \<and>
     db_changes d' = db_changes d \<and> db_cursor d' = db_cursor d \<and> db_receipts d' = db_receipts d"

lemma same_log_parts:
  assumes "same_log d d'"
  shows "log_grows d d'" "receipts_evolve d d'" "outcomes_kept d d'" "op_distinct d' = op_distinct d"
  using assms
  by (auto simp: same_log_def op_distinct_def intro: log_grows_same receipts.evolves_same outcomes_kept_same)

lemma store_effect_jobs: "job_effect d d' \<Longrightarrow> same_log d d' \<Longrightarrow> db_calls d' = db_calls d \<Longrightarrow> store_effect d d'"
  by (simp add: store_effect_def same_log_parts calls.evolves_same)

lemma store_effect_calls: "calls_evolve d d' \<Longrightarrow> same_log d d' \<Longrightarrow> db_jobs d' = db_jobs d \<Longrightarrow> store_effect d d'"
  by (simp add: store_effect_def same_log_parts job_effect_same)

lemma store_effect_other:
  "same_log d d' \<Longrightarrow> db_jobs d' = db_jobs d \<Longrightarrow> db_calls d' = db_calls d \<Longrightarrow> store_effect d d'"
  by (simp add: store_effect_jobs job_effect_same)

subsection \<open>What a commit writes\<close>

lemma set_run_simps [simp]:
  "db_runs (set_run i f d) = update_where (\<lambda>r. r_id r = i) f (db_runs d)"
  "db_jobs (set_run i f d) = db_jobs d" "db_events (set_run i f d) = db_events d"
  "db_receipts (set_run i f d) = db_receipts d" "db_calls (set_run i f d) = db_calls d"
  "db_threads (set_run i f d) = db_threads d" "db_changes (set_run i f d) = db_changes d"
  "db_cursor (set_run i f d) = db_cursor d" "db_uuid (set_run i f d) = db_uuid d"
  "db_deps (set_run i f d) = db_deps d" "db_messages (set_run i f d) = db_messages d"
  by (simp_all add: set_run_def)

lemma get_run_row_set_run:
  assumes "get_run_row d i = Some r" "\<And>r. r_id (f r) = r_id r"
    "db_runs d' = update_where (\<lambda>r. r_id r = i) f (db_runs d)"
  shows "get_run_row d' i = Some (f r)"
proof -
  have "find (\<lambda>r. r_id r = i) (update_where (\<lambda>r. r_id r = i) f (db_runs d)) =
      map_option (\<lambda>r. if r_id r = i then f r else r) (find (\<lambda>r. r_id r = i) (db_runs d))"
    by (rule find_update_where_same) (simp add: assms(2))
  then show ?thesis using assms(1,3) find_SomeD by (fastforce simp: get_run_row_def)
qed

lemma settle_leased_job_inv:
  assumes "settle_leased_job c status d = Inr d'"
  shows "db_runs d' = db_runs d" "db_events d' = db_events d" "db_receipts d' = db_receipts d"
    "store_effect d d'"
proof -
  have js: "settled_job js" if "settled_job_status status = Some js" for js
    using that by (auto simp: settled_job_status_def settled_job_def split: run_status.splits)
  show "db_runs d' = db_runs d" "db_events d' = db_events d" "db_receipts d' = db_receipts d"
    using assms
    by (auto simp: settle_leased_job_def settle_execution_job_def
        split: option.splits if_splits)
  have "same_log d d'" "db_calls d' = db_calls d"
    using assms
    by (auto simp: settle_leased_job_def settle_execution_job_def same_log_def
        split: option.splits if_splits)
  moreover have "job_effect d d'"
    using assms js
    by (auto simp: settle_leased_job_def settle_execution_job_def lease_holds_def
        split: option.splits if_splits intro!: job_effect_update)
      (auto simp: job_ok_def settled_job_def)
  ultimately show "store_effect d d'" by (simp add: store_effect_jobs)
qed

text \<open>The parent's report of a result has a type of its own.\<close>

lemma child_event_of_other:
  "run_result_event s = Some ty \<Longrightarrow> child_event_of ty = Some (pt, fx) \<Longrightarrow> pt \<noteq> ty"
  by (cases s) (auto simp: run_result_event_def child_event_of_def split: if_splits)

lemma append_child_parent_lifecycle_events:
  assumes "append_child_parent_lifecycle run src sp d = Inr (pe, d')" "child_event_of (e_type src) = Some (pt, fx)"
  shows "\<exists>ps. db_events d' = db_events d @ ps \<and> (\<forall>p\<in>set ps. e_type p = pt)"
  using assms
  by (auto simp: append_child_parent_lifecycle_def Let_def bindr_Inr_iff simp del: encode_payload.simps
      split: option.splits if_splits elim!: append_event_rowE dest!: touch_thread_frame(2))

lemma append_event_uncommitted_events:
  assumes "append_event_uncommitted run ty p c d = Inr (e, pe, d')" "run_result_event s = Some ty"
  shows "\<exists>ps. db_events d' = db_events d @ e # ps \<and> (\<forall>p\<in>set ps. e_type p \<noteq> ty)"
proof -
  obtain d1 where d1: "append_event_row run ty p c d = Inr (e, d1)"
    and rest: "(child_event_of ty = None \<and> d' = d1) \<or>
      append_child_parent_lifecycle run e (json_payload (Some p)) d1 = Inr (pe, d')"
    using assms(1) by (cases "child_event_of ty") (auto simp: append_event_uncommitted_def bindr_Inr_iff)
  have e: "db_events d1 = db_events d @ [e]" "e_type e = ty"
    using d1 by (auto elim: append_event_rowE)
  show ?thesis
  proof (cases "child_event_of ty")
    case None
    then show ?thesis using assms(1) d1 e by (auto simp: append_event_uncommitted_def bindr_Inr_iff)
  next
    case (Some x)
    obtain pt fx where x: "x = (pt, fx)" by (cases x)
    obtain ps where "db_events d' = db_events d1 @ ps" "\<forall>p\<in>set ps. e_type p = pt"
      using append_child_parent_lifecycle_events [of run e _ d1 pe d' pt fx] rest Some x e(2) by auto
    then show ?thesis using e(1) child_event_of_other [OF assms(2)] Some x by auto
  qed
qed

lemma insort_key_last: "\<lbrakk>\<And>y. y \<in> set ys \<Longrightarrow> k y \<le> k x; k a \<le> k x\<rbrakk> \<Longrightarrow>
    insort_key k a (ys @ [x]) = insort_key k a ys @ [x]"
  by (induction ys) auto

lemma sort_key_snoc: "(\<And>y. y \<in> set ys \<Longrightarrow> k y \<le> k x) \<Longrightarrow> sort_key k (ys @ [x]) = sort_key k ys @ [x]"
  by (induction ys) (auto intro!: insort_key_last)

lemma latest_event_appended:
  assumes "append_event_uncommitted run ty p c d = Inr (e, pe, d')" "run_result_event s = Some ty"
  shows "latest_event run ty d' = Some e"
proof -
  let ?P = "\<lambda>e. e_run e = run \<and> e_type e = ty"
  obtain ps where ps: "db_events d' = db_events d @ e # ps" "\<forall>p\<in>set ps. e_type p \<noteq> ty"
    using append_event_uncommitted_events [OF assms] by blast
  note e = append_event_uncommitted_event [OF assms(1)]
  have eq: "filter ?P (db_events d') = filter ?P (db_events d) @ [e]"
    using ps e(1,2) by (auto simp: filter_empty_conv)
  have le: "e_seq y \<le> e_seq e" if "y \<in> set (filter ?P (db_events d))" for y
    unfolding e(5) next_seq_def
    using that max_of_ge [of "e_seq y" "map e_seq (filter (\<lambda>e. e_run e = run) (db_events d))"] by auto
  have "select_by e_seq ?P (db_events d') = select_by e_seq ?P (db_events d) @ [e]"
    unfolding select_by_def eq by (rule sort_key_snoc) (rule le)
  then show ?thesis by (simp add: latest_event_def)
qed

lemma cancel_on_ending_inv:
  assumes "(if t then cancel_unstarted_tool_receipts run err now d else Inr d) = Inr d'"
  shows "receipt_effect d d' \<and> db_receipts d' =
    (if t then update_where (\<lambda>t. t_run t = run \<and> unstarted t) (as_canceled err now) (db_receipts d)
     else db_receipts d)"
  using assms cancel_unstarted_effect [of run err now d d'] by (cases t) auto

lemma persist_run_result_inv:
  assumes "persist_run_result c run status ty payload d = Inr ((e, b), d')" "run_result_event status = Some ty"
  shows "b" "e_payload e = encode_payload (JObj payload)" "e_run e = run" "latest_event run ty d' = Some e"
    "db_runs d' = update_where (\<lambda>r. r_id r = run)
       (\<lambda>r. r\<lparr>r_status := status, r_updated := x_clock c 1,
              r_completed := (if terminal_run status then Some (x_clock c 1) else None)\<rparr>) (db_runs d)"
    "db_receipts d' = (if terminal_run status
       then update_where (\<lambda>t. t_run t = run \<and> unstarted t) (as_canceled (ending_error status) (x_clock c 1)) (db_receipts d)
       else db_receipts d)"
    "store_effect d d'" "\<exists>d3. db_jobs d3 = db_jobs d \<and> settle_leased_job c status d3 = Inr d'"
proof -
  obtain d1 pe d2 d3 where
    h1: "(if terminal_run status then cancel_unstarted_tool_receipts run (ending_error status) (x_clock c 1) d
          else Inr d) = Inr d1"
    and h2: "append_event_uncommitted run ty (encode_payload (JObj payload)) (x_clock c 1)
        (set_run run (\<lambda>r. r\<lparr>r_status := status, r_updated := x_clock c 1,
            r_completed := (if terminal_run status then Some (x_clock c 1) else None)\<rparr>) d1) = Inr (e, pe, d2)"
    and h3: "update_thread_projection run status ty payload (e_seq e) (x_clock c 1) d2 = Inr d3"
    and h4: "settle_leased_job c status d3 = Inr d'" and b: "b"
    using assms(1) by (auto simp: persist_run_result_def Let_def bindr_Inr_iff simp del: encode_payload.simps)
  let ?s = "\<lambda>d. set_run run (\<lambda>r. r\<lparr>r_status := status, r_updated := x_clock c 1,
            r_completed := (if terminal_run status then Some (x_clock c 1) else None)\<rparr>) d"
  note r1 = cancel_on_ending_inv [OF h1]
  have w1: "without_receipts d1 = without_receipts d" using r1 by (simp add: receipt_effect_def)
  have w2: "without_log d2 = without_log (?s d1)" by (rule append_event_uncommitted_grows(2) [OF h2])
  have w3: "without_log d3 = without_log d2" by (rule update_thread_projection_frame [OF h3])
  note s = settle_leased_job_inv [OF h4]
  show "b" by (rule b)
  show "e_payload e = encode_payload (JObj payload)" "e_run e = run"
    using append_event_uncommitted_event [OF h2] by auto
  have "latest_event run ty d2 = Some e" by (rule latest_event_appended [OF h2 assms(2)])
  then show "latest_event run ty d' = Some e"
    using s(2) update_thread_projection_frame [OF h3] by (simp add: latest_event_def)
  show "db_runs d' = update_where (\<lambda>r. r_id r = run)
       (\<lambda>r. r\<lparr>r_status := status, r_updated := x_clock c 1,
              r_completed := (if terminal_run status then Some (x_clock c 1) else None)\<rparr>) (db_runs d)"
    using s(1) without_log_frame(1) [OF w3] without_log_frame(1) [OF w2] without_receipts_frame(1) [OF w1] by simp
  have "db_receipts d' = db_receipts d1"
    using s(3) without_log_frame(4) [OF w3] without_log_frame(4) [OF w2] by simp
  then show "db_receipts d' = (if terminal_run status
       then update_where (\<lambda>t. t_run t = run \<and> unstarted t) (as_canceled (ending_error status) (x_clock c 1)) (db_receipts d)
       else db_receipts d)"
    using r1 by auto
  have "store_effect d d1" using r1 by (simp add: store_effect_receipts)
  also have "store_effect d1 (?s d1)" by (rule store_effect_other) (simp_all add: same_log_def)
  also have "store_effect (?s d1) d2" by (rule store_effect_log [OF append_event_effect [OF h2]])
  also have "store_effect d2 d3" by (rule store_effect_log [OF update_thread_projection_effect [OF h3]])
  also have "store_effect d3 d'" by (rule s(4))
  finally show "store_effect d d'" .
  show "\<exists>d3. db_jobs d3 = db_jobs d \<and> settle_leased_job c status d3 = Inr d'"
    using h4 without_log_frame(2) [OF w3] without_log_frame(2) [OF w2] without_receipts_frame(2) [OF w1]
    by (intro exI [of _ d3]) simp
qed

text \<open>A commit either found its result or persists it.\<close>

lemma commit_run_result_cases:
  assumes "commit_run_result c run status ty payload orphan d = Inr ((e, b), d')"
  obtains r where "run_result_event status = Some ty" "admitted c None run d" "get_run_row d run = Some r"
      "r_status r = status" "latest_event run ty d = Some e" "\<not> b"
      "encode_payload (e_payload e) = encode_payload (JObj payload)" "settle_leased_job c status d = Inr d'"
  | r where "run_result_event status = Some ty" "admitted c None run d" "get_run_row d run = Some r"
      "r_status r = status \<or> \<not> terminal_run (r_status r)"
      "persist_run_result c run status ty payload d = Inr ((e, b), d')"
proof -
  obtain r where r: "run_result_event status = Some ty" "admitted c None run d" "get_run_row d run = Some r"
    using assms by (auto simp: commit_run_result_def run_write_transaction_Inr split: if_splits option.splits)
  note body = assms [unfolded commit_run_result_def run_write_transaction_eq]
  show thesis
  proof (cases "r_status r = status")
    case True
    then show thesis
    proof (cases "latest_event run ty d")
      case None
      then show thesis using that(2) [OF r] True r body by (auto split: if_splits)
    next
      case (Some x)
      then show thesis
        using that(1) [OF r] True r body by (auto simp: bindr_Inr_iff simp del: encode_payload.simps split: if_splits)
    qed
  next
    case False
    then show thesis using that(2) [OF r] r body by (auto split: if_splits)
  qed
qed

lemma commit_run_result_committed:
  assumes "commit_run_result c run status ty payload orphan d = Inr ((e, b), d')"
  shows "run_result_event status = Some ty \<and> latest_event run ty d' = Some e \<and>
    encode_payload (e_payload e) = encode_payload (JObj payload) \<and>
    (\<exists>r. get_run_row d' run = Some r \<and> r_status r = status)"
  using assms
proof (cases rule: commit_run_result_cases)
  case (1 r)
  then show ?thesis
    using settle_leased_job_inv(1,2) [OF 1(8)] by (simp add: latest_event_def get_run_row_def del: encode_payload.simps)
next
  case (2 r)
  note p = persist_run_result_inv [OF 2(5,1)]
  have "\<exists>r. get_run_row d' run = Some r \<and> r_status r = status"
    using get_run_row_set_run [OF 2(3) _ p(5)] by simp
  then show ?thesis
    using 2(1) p(2,4) encode_payload_idem by (simp del: encode_payload.simps)
qed

lemma commit_run_result_effect:
  assumes "commit_run_result c run status ty payload orphan d = Inr ((e, b), d')"
  shows "store_effect d d'"
  using assms
  by (cases rule: commit_run_result_cases) (auto intro: settle_leased_job_inv(4) persist_run_result_inv(7))

subsection \<open>A committed result under later writes\<close>

text \<open>
  What the other writers of a run do to its results: they append events that are no result of
  it and leave its status alone.
\<close>

definition result_type :: "string \<Rightarrow> bool" where
  "result_type ty \<longleftrightarrow> ty \<in> {''run.completed'', ''run.failed'', ''run.canceled'', ''run.waiting''}"

lemma run_result_event_type: "run_result_event s = Some ty \<Longrightarrow> result_type ty"
  by (cases s) (auto simp: run_result_event_def result_type_def)

lemma child_event_no_result: "child_event_of ty = Some (pt, fx) \<Longrightarrow> \<not> result_type pt"
  by (auto simp: child_event_of_def result_type_def split: if_splits)

definition no_result_of :: "id \<Rightarrow> db \<Rightarrow> db \<Rightarrow> bool" where
  "no_result_of run d d' \<longleftrightarrow> (\<exists>es. db_events d' = db_events d @ es \<and>
     (\<forall>x\<in>set es. e_run x = run \<longrightarrow> \<not> result_type (e_type x)))"

lemma no_result_of_same: "db_events d' = db_events d \<Longrightarrow> no_result_of run d d'"
  by (simp add: no_result_of_def)

lemma append_event_no_result:
  assumes "append_event_uncommitted other ty p c d = Inr (e, pe, d')"
    and "other = run \<Longrightarrow> \<not> result_type ty"
  shows "no_result_of run d d'"
proof -
  obtain d1 where d1: "append_event_row other ty p c d = Inr (e, d1)"
    and rest: "(child_event_of ty = None \<and> d' = d1) \<or> child_event_of ty \<noteq> None \<and>
      append_child_parent_lifecycle other e (json_payload (Some p)) d1 = Inr (pe, d')"
    using assms(1) by (cases "child_event_of ty") (auto simp: append_event_uncommitted_def bindr_Inr_iff)
  have e: "db_events d1 = db_events d @ [e]" "e_type e = ty" "e_run e = other"
    using d1 by (auto elim: append_event_rowE)
  show ?thesis
  proof (cases "child_event_of ty")
    case None
    then show ?thesis using rest e assms(2) by (auto simp: no_result_of_def)
  next
    case (Some x)
    obtain pt fx where x: "x = (pt, fx)" by (cases x)
    obtain ps where "db_events d' = db_events d1 @ ps" "\<forall>p\<in>set ps. e_type p = pt"
      using append_child_parent_lifecycle_events [of other e _ d1 pe d' pt fx] rest Some x e(2) by auto
    then show ?thesis
      using e assms(2) child_event_no_result [of ty pt fx] Some x by (auto simp: no_result_of_def)
  qed
qed

lemma no_result_of_refl [simp, intro]: "no_result_of run d d"
  by (simp add: no_result_of_def)

lemma no_result_of_trans [trans]: "no_result_of run a b \<Longrightarrow> no_result_of run b e \<Longrightarrow> no_result_of run a e"
  unfolding no_result_of_def by (elim exE conjE) (simp, blast)

lemma subagent_event_no_result:
  assumes "append_subagent_receipt_event t d = Inr d'"
  shows "no_result_of run d d'"
proof (cases "t_name t = ''task''")
  case True
  obtain e pe d1 where d1: "append_event_uncommitted (t_run t) (fst (subagent_event_of (t_status t)))
        (encode_payload (JObj (subagent_invocation_projection t (usage_of_calls (calls_under d (t_op t)))))) (t_updated t) d
        = Inr (e, pe, d1)"
    and t: "touch_thread_for_run_event (t_run t) (fst (subagent_event_of (t_status t))) (e_seq e) (t_updated t) d1 = Inr d'"
    using assms True by (auto simp: append_subagent_receipt_event_def Let_def bindr_Inr_iff simp del: encode_payload.simps)
  have "\<not> result_type (fst (subagent_event_of (t_status t)))"
    by (cases "t_status t") (simp_all add: subagent_event_of_def result_type_def)
  then have "no_result_of run d d1" by (rule append_event_no_result [OF d1])
  also have "no_result_of run d1 d'" using touch_thread_frame(2) [OF t] by (rule no_result_of_same)
  finally show ?thesis .
qed (use assms in \<open>simp add: append_subagent_receipt_event_def\<close>)

lemma cancel_unstarted_no_result:
  assumes "cancel_unstarted_tool_receipts other err now d = Inr d'"
  shows "no_result_of run d d'"
proof (cases "select_by by_creation (\<lambda>t. t_run t = other \<and> unstarted t) (db_receipts d) = []")
  case False
  let ?d1 = "d\<lparr>db_receipts := update_where (\<lambda>t. t_run t = other \<and> unstarted t) (as_canceled err now) (db_receipts d)\<rparr>"
  have loop: "foldr_res (\<lambda>t. append_subagent_receipt_event (as_canceled err now t))
      (select_by by_creation (\<lambda>t. t_run t = other \<and> unstarted t) (db_receipts d)) ?d1 = Inr d'"
    using assms False by (simp add: cancel_unstarted_tool_receipts_def Let_def)
  have "no_result_of run d ?d1" by (simp add: no_result_of_same)
  then show ?thesis
    by (rule foldr_res_invariant [where I = "no_result_of run d", OF loop])
      (auto intro: no_result_of_trans subagent_event_no_result)
qed (use assms in \<open>simp add: cancel_unstarted_tool_receipts_def Let_def\<close>)

lemma latest_event_kept:
  assumes "no_result_of run d d'" "result_type ty"
  shows "latest_event run ty d' = latest_event run ty d"
proof -
  obtain es where es: "db_events d' = db_events d @ es" "\<forall>x\<in>set es. e_run x = run \<longrightarrow> \<not> result_type (e_type x)"
    using assms(1) by (auto simp: no_result_of_def)
  have "filter (\<lambda>e. e_run e = run \<and> e_type e = ty) es = []"
    using es(2) assms(2) by (auto simp: filter_empty_conv)
  then show ?thesis by (simp add: latest_event_def select_by_def es(1))
qed

lemma get_run_row_other:
  assumes "db_runs d' = update_where (\<lambda>r. r_id r = i) f (db_runs d)" "\<And>r. r_id (f r) = r_id r" "i \<noteq> run"
  shows "get_run_row d' run = get_run_row d run"
proof -
  have "find (\<lambda>r. r_id r = run) (update_where (\<lambda>r. r_id r = i) f (db_runs d)) =
      map_option (\<lambda>r. if r_id r = i then f r else r) (find (\<lambda>r. r_id r = run) (db_runs d))"
    by (rule find_update_where_same) (simp add: assms(2))
  then show ?thesis
    using assms(1,3) by (cases "find (\<lambda>r. r_id r = run) (db_runs d)") (auto simp: get_run_row_def dest: find_SomeD)
qed

lemma get_run_row_status:
  assumes "db_runs d' = update_where p f (db_runs d)" "\<And>r. r_id (f r) = r_id r" "\<And>r. r_status (f r) = r_status r"
  shows "map_option r_status (get_run_row d' run) = map_option r_status (get_run_row d run)"
proof -
  have "find (\<lambda>r. r_id r = run) (update_where p f (db_runs d)) =
      map_option (\<lambda>r. if p r then f r else r) (find (\<lambda>r. r_id r = run) (db_runs d))"
    by (rule find_update_where_same) (simp add: assms(2))
  then show ?thesis
    using assms(1,3) by (simp add: get_run_row_def option.map_comp comp_def if_distrib cong: if_cong)
qed

lemma persist_no_result:
  assumes "persist_run_result c other status ty payload d = Inr (x, d')" "other \<noteq> run"
  shows "no_result_of run d d'"
proof -
  obtain e b where x: "x = (e, b)" by (cases x)
  obtain d1 pe d2 d3 where
    h1: "(if terminal_run status then cancel_unstarted_tool_receipts other (ending_error status) (x_clock c 1) d
          else Inr d) = Inr d1"
    and h2: "append_event_uncommitted other ty (encode_payload (JObj payload)) (x_clock c 1)
        (set_run other (\<lambda>r. r\<lparr>r_status := status, r_updated := x_clock c 1,
            r_completed := (if terminal_run status then Some (x_clock c 1) else None)\<rparr>) d1) = Inr (e, pe, d2)"
    and h3: "update_thread_projection other status ty payload (e_seq e) (x_clock c 1) d2 = Inr d3"
    and h4: "settle_leased_job c status d3 = Inr d'"
    using assms(1) unfolding x
    by (auto simp: persist_run_result_def Let_def bindr_Inr_iff simp del: encode_payload.simps)
  let ?s = "set_run other (\<lambda>r. r\<lparr>r_status := status, r_updated := x_clock c 1,
            r_completed := (if terminal_run status then Some (x_clock c 1) else None)\<rparr>) d1"
  have "no_result_of run d d1"
    using h1 cancel_unstarted_no_result by (auto split: if_splits)
  also have "no_result_of run d1 ?s" by (simp add: no_result_of_same)
  also have "no_result_of run ?s d2" by (rule append_event_no_result [OF h2]) (use assms(2) in simp)
  also have "no_result_of run d2 d'"
    using settle_leased_job_inv(2) [OF h4] update_thread_projection_frame(2) [OF h3] by (simp add: no_result_of_same)
  finally show ?thesis .
qed

text \<open>
  The writers of a run's record and log: commits of any result for any run, under any lease or
  none; other events; the graph binding, the branch head and steering.
\<close>

inductive run_write :: "db \<Rightarrow> db \<Rightarrow> bool" where
  commit: "commit_run_result c run status ty payload orphan d = Inr (x, d') \<Longrightarrow> run_write d d'"
| event: "append_event c run ty payload d = Inr (e, d') \<Longrightarrow> \<not> result_type ty \<Longrightarrow> run_write d d'"
| bind: "bind_graph_definition c run g d = Inr d' \<Longrightarrow> run_write d d'"
| advance: "advance_graph_checkpoint c run g expected x d = Inr d' \<Longrightarrow> run_write d d'"
| steer: "create_steering_instruction c run content d = Inr (i, d') \<Longrightarrow> run_write d d'"
| inject: "claim_pending_steering c run d = Inr (rows, d') \<Longrightarrow> run_write d d'"

definition result_held :: "id \<Rightarrow> run_status \<Rightarrow> string \<Rightarrow> event_row \<Rightarrow> db \<Rightarrow> bool" where
  "result_held run status ty e d \<longleftrightarrow>
     map_option r_status (get_run_row d run) = Some status \<and> latest_event run ty d = Some e"

lemma result_held_kept:
  assumes "result_held run status ty e d" "result_type ty"
    and "map_option r_status (get_run_row d' run) = map_option r_status (get_run_row d run)"
    and "no_result_of run d d'"
  shows "result_held run status ty e d'"
  using assms latest_event_kept [OF assms(4,2)] by (simp add: result_held_def)

lemma commit_on_held:
  assumes held: "result_held run status ty e d" and ty: "run_result_event status = Some ty"
    and final: "s \<noteq> status \<Longrightarrow> terminal_run status"
    and com: "commit_run_result c run s ty' other orphan d = Inr ((e', b), d')"
  shows "s = status \<and> ty' = ty \<and> e' = e \<and> \<not> b \<and>
    encode_payload (JObj other) = encode_payload (e_payload e) \<and> settle_leased_job c status d = Inr d'"
proof -
  obtain r where r: "get_run_row d run = Some r" "r_status r = status" and l: "latest_event run ty d = Some e"
    using held by (auto simp: result_held_def)
  note body = com [unfolded commit_run_result_def run_write_transaction_eq]
  have s: "s = status" using body r final by (auto split: if_splits)
  then have t: "ty' = ty" using body ty by (auto split: if_splits)
  show ?thesis
    using body r l s t by (auto simp: bindr_Inr_iff simp del: encode_payload.simps split: if_splits)
qed

text \<open>Who may commit at all: the fence admits the writer, who has a lease or recovers an orphan.\<close>

definition may_commit :: "ctx \<Rightarrow> id \<Rightarrow> bool \<Rightarrow> db \<Rightarrow> bool" where
  "may_commit c run orphan d \<longleftrightarrow> admitted c None run d \<and>
     (x_lease c = None \<longrightarrow> orphan \<and> (\<forall>j\<in>set (db_jobs d). j_run j = run \<longrightarrow> \<not> active_job j))"

lemma commit_conflict:
  assumes held: "result_held run status ty e d" and ty: "run_result_event status = Some ty"
    and may: "may_commit c run orphan d" and t: "run_result_event s = Some ty'"
    and differs: "s = status \<and> encode_payload (JObj other) \<noteq> encode_payload (e_payload e) \<or>
      s \<noteq> status \<and> terminal_run status"
  shows "commit_run_result c run s ty' other orphan d = Inl RunResultConflictError"
proof -
  obtain r where r: "get_run_row d run = Some r" "r_status r = status" and l: "latest_event run ty d = Some e"
    using held by (auto simp: result_held_def)
  have adm: "admitted c None run d"
    "\<not> (x_lease c = None \<and> (\<not> orphan \<or> list_ex (\<lambda>j. j_run j = run \<and> active_job j) (db_jobs d)))"
    using may by (auto simp: may_commit_def list_ex_iff)
  from differs show ?thesis
  proof
    assume d: "s = status \<and> encode_payload (JObj other) \<noteq> encode_payload (e_payload e)"
    then have "ty' = ty" using t ty by simp
    then show ?thesis
      using adm r l ty d by (auto simp: commit_run_result_def run_write_transaction_eq simp del: encode_payload.simps)
  next
    assume "s \<noteq> status \<and> terminal_run status"
    then show ?thesis
      using adm r t by (auto simp: commit_run_result_def run_write_transaction_eq simp del: encode_payload.simps)
  qed
qed

lemma commit_again:
  assumes held: "result_held run status ty e d" and ty: "run_result_event status = Some ty"
    and p: "encode_payload (e_payload e) = encode_payload (JObj payload)"
    and may: "may_commit c run orphan d" and free: "x_lease c = None"
  shows "commit_run_result c run status ty payload orphan d = Inr ((e, False), d)"
proof -
  obtain r where r: "get_run_row d run = Some r" "r_status r = status" and l: "latest_event run ty d = Some e"
    using held by (auto simp: result_held_def)
  have "admitted c None run d" "orphan" "\<not> list_ex (\<lambda>j. j_run j = run \<and> active_job j) (db_jobs d)"
    using may free by (auto simp: may_commit_def list_ex_iff)
  then show ?thesis
    using r l ty p free
    by (simp add: commit_run_result_def run_write_transaction_eq settle_leased_job_def del: encode_payload.simps)
qed

lemma run_write_keeps_result:
  assumes "run_write d d'" "result_held run status ty e d" "run_result_event status = Some ty" "terminal_run status"
  shows "result_held run status ty e d'"
proof (rule result_held_kept [OF assms(2) run_result_event_type [OF assms(3)]])
  show "map_option r_status (get_run_row d' run) = map_option r_status (get_run_row d run)"
    using assms(1)
  proof cases
    case (commit c other s t payload orphan x)
    obtain e' b where x: "x = (e', b)" by (cases x)
    show ?thesis
    proof (cases "other = run")
      case True
      then show ?thesis
        using commit_on_held [OF assms(2,3,4), of c s t payload orphan e' b d'] commit x
        by (auto simp: get_run_row_def settle_leased_job_inv(1))
    next
      case False
      from commit [unfolded x] show ?thesis
      proof (cases rule: commit_run_result_cases)
        case (1 r)
        then show ?thesis by (simp add: get_run_row_def settle_leased_job_inv(1) [OF 1(8)])
      next
        case (2 r)
        then show ?thesis
          using get_run_row_other [OF persist_run_result_inv(5) [OF 2(5,1)]] False by simp
      qed
    qed
  next
    case (event c other t payload x)
    then show ?thesis
      using append_event_uncommitted_grows(2)
      by (fastforce simp: append_event_def run_write_transaction_Inr bindr_Inr_iff get_run_row_def
          dest: without_log_frame(1) simp del: encode_payload.simps)
  next
    case (bind c other g)
    then show ?thesis
      by (auto simp: bind_graph_definition_def run_write_transaction_Inr split: option.splits if_splits
          intro!: get_run_row_status)
  next
    case (advance c other g expected x)
    then show ?thesis
      by (auto simp: advance_graph_checkpoint_def run_write_transaction_Inr split: option.splits if_splits
          intro!: get_run_row_status)
  next
    case (steer c other content i)
    then show ?thesis
      by (auto simp: create_steering_instruction_def insert_steering_def new_id_def Let_def bindr_Inr_iff
          get_run_row_def split: if_splits)
  next
    case (inject c other rows)
    then show ?thesis
      by (auto simp: claim_pending_steering_def run_write_transaction_Inr Let_def get_run_row_def split: if_splits)
  qed
next
  show "no_result_of run d d'"
    using assms(1)
  proof cases
    case (commit c other s t payload orphan x)
    obtain e' b where x: "x = (e', b)" by (cases x)
    show ?thesis
    proof (cases "other = run")
      case True
      then show ?thesis
        using commit_on_held [OF assms(2,3,4), of c s t payload orphan e' b d'] commit x
        by (auto intro: no_result_of_same simp: settle_leased_job_inv(2))
    next
      case False
      from commit [unfolded x] show ?thesis
      proof (cases rule: commit_run_result_cases)
        case (1 r)
        then show ?thesis by (simp add: no_result_of_same settle_leased_job_inv(2) [OF 1(8)])
      next
        case (2 r)
        then show ?thesis using persist_no_result False by blast
      qed
    qed
  next
    case (event c other t payload x)
    then show ?thesis
      by (auto simp: append_event_def run_write_transaction_Inr bindr_Inr_iff simp del: encode_payload.simps
          intro: append_event_no_result)
  next
    case (bind c other g)
    then show ?thesis
      by (auto simp: bind_graph_definition_def run_write_transaction_Inr split: option.splits if_splits
          intro!: no_result_of_same)
  next
    case (advance c other g expected x)
    then show ?thesis
      by (auto simp: advance_graph_checkpoint_def run_write_transaction_Inr split: option.splits if_splits
          intro!: no_result_of_same)
  next
    case (steer c other content i)
    then show ?thesis
      by (auto simp: create_steering_instruction_def insert_steering_def new_id_def Let_def bindr_Inr_iff
          split: if_splits intro!: no_result_of_same)
  next
    case (inject c other rows)
    then show ?thesis
      by (auto simp: claim_pending_steering_def run_write_transaction_Inr Let_def split: if_splits
          intro!: no_result_of_same)
  qed
qed

lemma run_writes_keep_result:
  assumes "run_write\<^sup>*\<^sup>* d d'" "result_held run status ty e d" "run_result_event status = Some ty" "terminal_run status"
  shows "result_held run status ty e d'"
  using assms(1,2) by (induction rule: rtranclp_induct) (auto intro: run_write_keeps_result [OF _ _ assms(3,4)])

subsection \<open>Properties\<close>

text \<open>C5: a run's result is committed once. Let \<open>commit_run_result\<close> have returned an event, and
  let any number of writers follow when the result is terminal (commits of any result of any run,
  under any lease or as orphan recovery; other events; the graph binding, the branch head and
  steering), or none when the run only waits. Then the run still has the committed status and the
  event is the latest of its type. Whoever commits for the run then, leased or not: a commit that
  succeeds repeats the same result, gets the same event, and writes no run row and no event;
  another payload, or after a terminal result another status, is a conflict for every writer
  the fence admits; and a lease-less repetition succeeds and changes nothing at all.\<close>

theorem run_result_commits_once:
  assumes "commit_run_result c run status ty payload orphan d = Inr ((e, b), d')"
    and "run_write\<^sup>*\<^sup>* d' d''" "terminal_run status \<or> d'' = d'"
  shows "(\<exists>r. get_run_row d'' run = Some r \<and> r_status r = status) \<and> latest_event run ty d'' = Some e \<and>
    (\<forall>s ty' other orphan' e2 b2 d3. (s = status \<or> terminal_run status) \<longrightarrow>
       commit_run_result c' run s ty' other orphan' d'' = Inr ((e2, b2), d3) \<longrightarrow>
       s = status \<and> e2 = e \<and> \<not> b2 \<and> encode_payload (JObj other) = encode_payload (JObj payload) \<and>
       db_runs d3 = db_runs d'' \<and> db_events d3 = db_events d'') \<and>
    (\<forall>s ty' other orphan'. may_commit c' run orphan' d'' \<longrightarrow> run_result_event s = Some ty' \<longrightarrow>
       s = status \<and> encode_payload (JObj other) \<noteq> encode_payload (JObj payload) \<or>
       s \<noteq> status \<and> terminal_run status \<longrightarrow>
       commit_run_result c' run s ty' other orphan' d'' = Inl RunResultConflictError) \<and>
    (\<forall>orphan'. may_commit c' run orphan' d'' \<longrightarrow> x_lease c' = None \<longrightarrow>
       commit_run_result c' run status ty payload orphan' d'' = Inr ((e, False), d''))"
proof -
  note f = commit_run_result_committed [OF assms(1)]
  then have ty: "run_result_event status = Some ty"
    and p: "encode_payload (e_payload e) = encode_payload (JObj payload)" by blast+
  have "result_held run status ty e d'" using f by (auto simp: result_held_def)
  then have held: "result_held run status ty e d''"
    using assms(3) run_writes_keep_result [OF assms(2) _ ty] by blast
  have "s = status \<and> e2 = e \<and> \<not> b2 \<and> encode_payload (JObj other) = encode_payload (JObj payload) \<and>
       db_runs d3 = db_runs d'' \<and> db_events d3 = db_events d''"
    if "s = status \<or> terminal_run status"
      "commit_run_result c' run s ty' other orphan' d'' = Inr ((e2, b2), d3)" for s ty' other orphan' e2 b2 d3
    using commit_on_held [OF held ty _ that(2)] that(1) settle_leased_job_inv(1,2) p by metis
  moreover have "commit_run_result c' run s ty' other orphan' d'' = Inl RunResultConflictError"
    if "may_commit c' run orphan' d''" "run_result_event s = Some ty'"
      "s = status \<and> encode_payload (JObj other) \<noteq> encode_payload (JObj payload) \<or> s \<noteq> status \<and> terminal_run status"
    for s ty' other orphan'
    by (rule commit_conflict [OF held ty that(1,2)]) (use that(3) p in metis)
  moreover have "commit_run_result c' run status ty payload orphan' d'' = Inr ((e, False), d'')"
    if "may_commit c' run orphan' d''" "x_lease c' = None" for orphan'
    by (rule commit_again [OF held ty p that])
  ultimately show ?thesis using held unfolding result_held_def by blast
qed

definition tool_waiting :: db where
  "tool_waiting = demo_db\<lparr>db_receipts := [blank_receipt ''op_4'' ''run_1'' ''write'' ToolPrepared]\<rparr>"

theorem run_result_commits_once_witness:
  "returns (commit_run_result demo_ctx ''run_1'' RunCompleted ''run.completed'' [(''final_text'', JStr ''done'')] False tool_waiting)
     (\<lambda>((e, _), d). returns (append_event free_ctx ''run_1'' ''run.log'' [] d) (\<lambda>(_, d2).
        latest_event ''run_1'' ''run.completed'' d2 = Some e \<and>
        commit_run_result free_ctx ''run_1'' RunFailed ''run.failed'' [] True d2 = Inl RunResultConflictError))"
proof -
  have "returns (commit_run_result demo_ctx ''run_1'' RunCompleted ''run.completed'' [(''final_text'', JStr ''done'')] False tool_waiting)
     (\<lambda>((e, b), d). returns (append_event free_ctx ''run_1'' ''run.log'' [] d) (\<lambda>(_, d2). list_all (\<lambda>j. \<not> active_job j) (db_jobs d2)))"
    by code_simp
  then obtain e b d x d2 where d: "commit_run_result demo_ctx ''run_1'' RunCompleted ''run.completed''
      [(''final_text'', JStr ''done'')] False tool_waiting = Inr ((e, b), d)"
    and d2: "append_event free_ctx ''run_1'' ''run.log'' [] d = Inr (x, d2)" and j: "list_all (\<lambda>j. \<not> active_job j) (db_jobs d2)"
    by (auto simp: returns_iff)
  have w: "run_write\<^sup>*\<^sup>* d d2" using run_write.event [OF d2] by (simp add: result_type_def r_into_rtranclp)
  have t: "terminal_run RunCompleted \<or> d2 = d" by (simp add: terminal_run_def)
  have m: "may_commit free_ctx ''run_1'' True d2"
    using j by (auto simp: may_commit_def admitted_def active_lease_def free_ctx_def list_all_iff)
  show ?thesis
    using run_result_commits_once [OF d w t, of free_ctx] m d d2 by (simp add: run_result_event_def terminal_run_def)
qed

lemma commit_demo:
  "returns (commit_run_result demo_ctx ''run_1'' RunCompleted ''run.completed'' [(''final_text'', JStr ''done'')] False
      (demo_db\<lparr>db_receipts := [blank_receipt ''op_4'' ''run_1'' ''write'' ToolPrepared]\<rparr>))
     (\<lambda>((e, b), d). b \<and> list_all (\<lambda>j. \<not> active_job j) (db_jobs d))"
  by code_simp

text \<open>C6: what a fresh commit writes, in one step. The run has the status and its completion
  time exactly when the status is terminal; then no tool call of the run is left prepared or
  paused; and the lease it was committed under is used up: its job has the settled status and
  the fence never opens for that lease again.\<close>

theorem run_result_settles_execution:
  assumes "commit_run_result c run status ty payload orphan d = Inr ((e, True), d')"
    and "x_lease c = Some l" "jobs_ok d"
  shows "(\<forall>r\<in>set (db_runs d'). r_id r = run \<longrightarrow> r_status r = status \<and>
        (r_completed r \<noteq> None \<longleftrightarrow> terminal_run status)) \<and>
    (terminal_run status \<longrightarrow> (\<forall>t\<in>set (db_receipts d'). t_run t = run \<longrightarrow> \<not> unstarted t)) \<and>
    (\<exists>j\<in>set (db_jobs d'). j_id j = l_job l \<and> settled_job_status status = Some (j_status j)) \<and>
    (\<forall>now. \<not> fence_open l now d')"
proof -
  obtain r where ty: "run_result_event status = Some ty"
    and per: "persist_run_result c run status ty payload d = Inr ((e, True), d')"
    using assms(1) by (cases rule: commit_run_result_cases) auto
  note p = persist_run_result_inv [OF per ty]
  obtain d3 where d3: "db_jobs d3 = db_jobs d" "settle_leased_job c status d3 = Inr d'" using p(8) by blast
  let ?p = "lease_holds l (x_clock c 2)"
  obtain js where js: "settled_job_status status = Some js" "count_where ?p (db_jobs d) = 1"
    "db_jobs d' = update_where ?p (\<lambda>j. j\<lparr>j_status := js, j_updated := x_clock c 1,
        j_finished := Some (x_clock c 1), j_expires := None\<rparr>) (db_jobs d)"
    using d3 assms(2) by (auto simp: settle_leased_job_def settle_execution_job_def split: option.splits if_splits)
  then obtain j where j: "j \<in> set (db_jobs d)" "?p j" using count_where_pos [of ?p "db_jobs d"] by auto
  have same: "x = j" if "x \<in> set (db_jobs d)" "j_id x = l_job l" for x
    by (rule job_same_row) (use assms(3) that j in \<open>auto simp: jobs_ok_def lease_holds_def\<close>)
  have "\<not> lease_holds l now x" if "x \<in> set (db_jobs d')" for x now
    using that unfolding js(3)
    by (rule in_update_whereE) (use same j(2) js(1) in \<open>auto simp: lease_holds_def settled_job_status_def
        split: run_status.splits if_splits\<close>)
  then have "\<forall>now. \<not> fence_open l now d'" by (auto simp: fence_open_iff)
  moreover have "\<exists>x\<in>set (db_jobs d'). j_id x = l_job l \<and> settled_job_status status = Some (j_status x)"
    unfolding js(3) set_update_where using j js(1) by (force simp: lease_holds_def)
  moreover have "\<forall>r\<in>set (db_runs d'). r_id r = run \<longrightarrow> r_status r = status \<and> (r_completed r \<noteq> None \<longleftrightarrow> terminal_run status)"
    unfolding p(5) by simp
  moreover have "terminal_run status \<longrightarrow> (\<forall>t\<in>set (db_receipts d'). t_run t = run \<longrightarrow> \<not> unstarted t)"
    unfolding p(6) by (simp add: as_canceled_def unstarted_def)
  ultimately show ?thesis by blast
qed

lemma demo_jobs_ok: "jobs_ok (demo_db\<lparr>db_receipts := rs\<rparr>)"
  by (simp add: jobs_ok_def one_active_def demo_db_def empty_db_def job_ok_def leased_job_def blank_job_def)

theorem run_result_settles_execution_witness:
  "returns (commit_run_result demo_ctx ''run_1'' RunCompleted ''run.completed'' [(''final_text'', JStr ''done'')] False
      (demo_db\<lparr>db_receipts := [blank_receipt ''op_4'' ''run_1'' ''write'' ToolPrepared]\<rparr>))
     (\<lambda>((e, _), d). (\<forall>t\<in>set (db_receipts d). t_run t = ''run_1'' \<longrightarrow> \<not> unstarted t) \<and> \<not> fence_open demo_lease 12 d)"
proof -
  obtain e b d where d: "commit_run_result demo_ctx ''run_1'' RunCompleted ''run.completed''
      [(''final_text'', JStr ''done'')] False
      (demo_db\<lparr>db_receipts := [blank_receipt ''op_4'' ''run_1'' ''write'' ToolPrepared]\<rparr>) = Inr ((e, b), d)"
    and b: "b"
    using commit_demo by (auto simp: returns_iff)
  have l: "x_lease demo_ctx = Some demo_lease" by (simp add: demo_ctx_def)
  show ?thesis
    using run_result_settles_execution [OF d [unfolded b [THEN iffD2 [OF eq_True]]] l demo_jobs_ok] d
    by (simp add: terminal_run_def)
qed

text \<open>C7: the graph branch head is a compare-and-swap register. Once one writer has moved the
  head of a run away from the checkpoint both expected, a second writer that expected it and
  wants another checkpoint is refused; the winner's own retry is accepted and writes nothing.\<close>

theorem graph_head_has_one_winner:
  assumes "advance_graph_checkpoint c run g expected x d = Inr d'"
    and "get_run_row d run = Some r" "r_checkpoint r = expected" "expected \<noteq> Some x" "y \<noteq> x"
    and "admitted c' None run d'"
  shows "advance_graph_checkpoint c' run g expected y d' = Inl GraphHeadConflictError \<and>
    advance_graph_checkpoint c' run g expected x d' = Inr d'"
proof -
  let ?f = "\<lambda>r :: run_row. r\<lparr>r_checkpoint := Some x, r_updated := x_clock c 1\<rparr>"
  have g: "r_graph_thread r = g" and d': "d' = set_run run ?f d"
    using assms(1-4) by (auto simp: advance_graph_checkpoint_def run_write_transaction_Inr split: if_splits)
  have "get_run_row d' run = Some (?f r)"
    by (rule get_run_row_set_run [OF assms(2)]) (simp_all add: d')
  then show ?thesis
    using g assms(4-6) by (simp add: advance_graph_checkpoint_def run_write_transaction_eq)
qed

theorem graph_head_has_one_winner_witness:
  "returns (advance_graph_checkpoint demo_ctx ''run_1'' ''run_1'' None ''cp_1'' demo_db)
     (\<lambda>d. advance_graph_checkpoint free_ctx ''run_1'' ''run_1'' None ''cp_2'' d = Inl GraphHeadConflictError)"
proof -
  have "returns (advance_graph_checkpoint demo_ctx ''run_1'' ''run_1'' None ''cp_1'' demo_db) (\<lambda>_. True)"
    by code_simp
  then obtain d where d: "advance_graph_checkpoint demo_ctx ''run_1'' ''run_1'' None ''cp_1'' demo_db = Inr d"
    by (auto simp: returns_iff)
  have r: "get_run_row demo_db ''run_1'' = Some ((blank_run ''run_1'' RunRunning)
      \<lparr>r_thread := Some ''thread_1'', r_item := Some ''item_1''\<rparr>)"
    by (simp add: get_run_row_def demo_db_def blank_run_def)
  have "admitted free_ctx None ''run_1'' d"
    by (simp add: admitted_def active_lease_def free_ctx_def)
  then show ?thesis
    using graph_head_has_one_winner [OF d r, of "''cp_2''" free_ctx] d by (simp add: blank_run_def)
qed

text \<open>a steering instruction is handed over once. What \<open>claim_pending_steering\<close> returns was
  pending for that run, and when it has returned nothing of the run is pending any more, so the
  next claim, by whoever the fence admits, returns nothing.\<close>

theorem steering_is_claimed_once:
  assumes "claim_pending_steering c run d = Inr (rows, d')" "admitted c' None run d'"
  shows "claim_pending_steering c' run d' = Inr ([], d') \<and>
    map st_id rows = map st_id (select_by (\<lambda>s. (st_created s, st_id s))
       (\<lambda>s. st_run s = run \<and> st_status s = ''pending'') (db_steering d))"
proof -
  let ?p = "\<lambda>s. st_run s = run \<and> st_status s = ''pending''"
  let ?rows = "select_by (\<lambda>s. (st_created s, st_id s)) ?p (db_steering d)"
  let ?f = "\<lambda>s :: steering_row. s\<lparr>st_status := ''injected'', st_injected := Some (x_clock c 1)\<rparr>"
  have body: "(rows, d') = (if ?rows = [] then ([], d) else (map ?f ?rows,
      d\<lparr>db_steering := update_where (\<lambda>s. st_id s \<in> st_id ` set ?rows \<and> st_status s = ''pending'') ?f (db_steering d)\<rparr>))"
    using assms(1) by (auto simp: claim_pending_steering_def Let_def run_write_transaction_Inr split: if_splits)
  have "{s \<in> set (db_steering d'). ?p s} = {}"
  proof (cases "?rows = []")
    case True
    then show ?thesis using body by (auto simp: select_by_Nil_iff)
  next
    case False
    then have d': "db_steering d' = update_where (\<lambda>s. st_id s \<in> st_id ` set ?rows \<and> st_status s = ''pending'') ?f (db_steering d)"
      using body by simp
    have "\<not> ?p s" if s: "s \<in> set (db_steering d')" for s
    proof -
      obtain r where "r \<in> set (db_steering d)"
        "s = (if st_id r \<in> st_id ` set ?rows \<and> st_status r = ''pending'' then ?f r else r)"
        using s unfolding d' by (rule in_update_whereE)
      then show ?thesis by (cases "st_id r \<in> st_id ` set ?rows \<and> st_status r = ''pending''") auto
    qed
    then show ?thesis by blast
  qed
  then have "select_by (\<lambda>s. (st_created s, st_id s)) ?p (db_steering d') = []"
    unfolding select_by_Nil_iff by blast
  then have "claim_pending_steering c' run d' = Inr ([], d')"
    using assms(2) by (simp add: claim_pending_steering_def run_write_transaction_eq)
  moreover have "map st_id rows = map st_id ?rows"
    using body by (cases "?rows = []") (simp_all add: comp_def)
  ultimately show ?thesis by blast
qed

definition steering_demo :: db where
  "steering_demo = demo_db\<lparr>db_steering := [\<lparr>st_id = ''s1'', st_run = ''run_1'', st_content = ''stop'',
     st_status = ''pending'', st_created = 2, st_injected = None\<rparr>]\<rparr>"

theorem steering_is_claimed_once_witness:
  "returns (claim_pending_steering demo_ctx ''run_1'' steering_demo)
     (\<lambda>(rows, d). claim_pending_steering free_ctx ''run_1'' d = Inr ([], d))"
proof -
  have "returns (claim_pending_steering demo_ctx ''run_1'' steering_demo) (\<lambda>_. True)" by code_simp
  then obtain rows d where d: "claim_pending_steering demo_ctx ''run_1'' steering_demo = Inr (rows, d)"
    by (auto simp: returns_iff)
  have "admitted free_ctx None ''run_1'' d"
    by (simp add: admitted_def active_lease_def free_ctx_def)
  then show ?thesis using steering_is_claimed_once [OF d] d by simp
qed

end
