(* ===== verification/Run_Control.thy ===== *)
theory Run_Control
  imports Run_State
begin

text \<open>
  Command receipts, run cancellation and injected steering (store/run_commands/receipts.py and
  control.py). A client command is accepted once and its response kept; canceling a run cancels
  the tree of its child runs, deepest first: what has not started ends at once, what is leased
  is asked to stop. Shown: accepting a command is idempotent and never answers a different
  command, and what canceling does to each run of the tree.
\<close>

subsection \<open>Command receipts (receipts.py)\<close>

definition find_command :: "string \<Rightarrow> id \<Rightarrow> db \<Rightarrow> command_row option" where
  "find_command owner i d = find (\<lambda>x. cm_principal x = owner \<and> cm_id x = i) (db_commands d)"

definition accepted_command_receipt ::
    "string \<Rightarrow> id \<Rightarrow> string \<Rightarrow> json \<Rightarrow> db \<Rightarrow> json option res" where
  "accepted_command_receipt owner i ty payload d =
    (case find_command owner i d of
       None \<Rightarrow> Inr None
     | Some x \<Rightarrow> if cm_type x \<noteq> ty \<or> cm_payload x \<noteq> payload then Inl CommandConflictError
               else Inr (Some (cm_response x)))"

definition insert_command :: "command_row \<Rightarrow> db \<Rightarrow> db res" where
  "insert_command x d =
    (if find_command (cm_principal x) (cm_id x) d \<noteq> None \<or>
        (case cm_run x of None \<Rightarrow> False | Some r \<Rightarrow> get_run_row d r = None) then Inl SqlIntegrityError
     else Inr (d\<lparr>db_commands := db_commands d @ [x]\<rparr>))"

definition put_command_receipt ::
    "string \<Rightarrow> id \<Rightarrow> string \<Rightarrow> json \<Rightarrow> dict \<Rightarrow> time \<Rightarrow> id option \<Rightarrow> db \<Rightarrow> db res" where
  "put_command_receipt owner i ty payload receipt created run =
    insert_command \<lparr>cm_principal = owner, cm_id = i, cm_type = ty, cm_client = [],
      cm_payload = payload, cm_response = encode_payload (JObj receipt), cm_run = run,
      cm_created = created\<rparr>"

text \<open>
  A command transaction: an accepted command is answered with its recorded response (and
  nothing is written), a new one runs \<open>body\<close>, which returns its receipt.
\<close>

definition command_transaction ::
    "string \<Rightarrow> id \<Rightarrow> string \<Rightarrow> json \<Rightarrow> (db \<Rightarrow> (dict \<times> db) res) \<Rightarrow> db \<Rightarrow> ((json \<times> bool) \<times> db) res" where
  "command_transaction owner i ty payload body d =
    bindr (accepted_command_receipt owner i ty payload d)
      (\<lambda>existing. case existing of
         Some response \<Rightarrow> Inr ((response, False), d)
       | None \<Rightarrow> bindr (body d) (\<lambda>(receipt, d1). Inr ((JObj receipt, True), d1)))"

definition record_command_receipt ::
    "ctx \<Rightarrow> string \<Rightarrow> id \<Rightarrow> string \<Rightarrow> dict \<Rightarrow> dict \<Rightarrow> db \<Rightarrow> (json \<times> db) res" where
  "record_command_receipt c owner i ty payload receipt d =
    bindr (command_transaction owner i ty (encode_payload (JObj payload))
        (\<lambda>d. bindr (put_command_receipt owner i ty (encode_payload (JObj payload)) receipt (x_clock c 1) None d)
           (\<lambda>d1. Inr (receipt, d1))) d)
      (\<lambda>((response, _), d1). Inr (response, d1))"

definition accepted_run_for_command ::
    "string \<Rightarrow> id \<Rightarrow> json \<Rightarrow> db \<Rightarrow> (run_row \<times> id \<times> string) option res" where
  "accepted_run_for_command owner i payload d =
    (case find_command owner i d of
       None \<Rightarrow> Inr None
     | Some x \<Rightarrow>
        if cm_payload x \<noteq> payload then Inl CommandConflictError
        else (case cm_run x of
                None \<Rightarrow> Inl PyRuntimeError
              | Some run \<Rightarrow>
                 (case get_owned_run owner run d of
                    None \<Rightarrow> Inl PyRuntimeError
                  | Some r \<Rightarrow> Inr (Some (r, cm_id x, cm_client x)))))"

subsection \<open>Cancellation (control.py)\<close>

definition cancel_decision :: json where
  "cancel_decision = encode_payload (JObj [(''type'', JStr ''cancel''), (''reason'', JStr ''run_canceled'')])"

text \<open>Everything the run was waiting for is closed.\<close>

definition close_waits :: "id \<Rightarrow> time \<Rightarrow> db \<Rightarrow> db" where
  "close_waits run now d =
     d\<lparr>db_perms := update_where (\<lambda>p. p_run p = run \<and> p_status p = ''pending'')
          (\<lambda>p. p\<lparr>p_status := ''canceled'', p_decision := Some cancel_decision, p_resolved := Some now\<rparr>) (db_perms d),
       db_questions := update_where (\<lambda>q. q_run q = run \<and> q_status q = ''pending'')
          (\<lambda>q. q\<lparr>q_status := ''canceled''\<rparr>) (db_questions d),
       db_waits := update_where (\<lambda>w. w_run w = run \<and> w_status w = ''pending'')
          (\<lambda>w. w\<lparr>w_status := ''resolved'', w_decision := Some cancel_decision, w_resolved := Some now\<rparr>) (db_waits d),
       db_plans := update_where (\<lambda>p. pl_run p = run \<and> pl_status p = ''pending'')
          (\<lambda>p. p\<lparr>pl_status := ''canceled'', pl_resolved := Some now\<rparr>) (db_plans d)\<rparr>"

definition finish_run_cancel :: "id \<Rightarrow> time \<Rightarrow> db \<Rightarrow> db res" where
  "finish_run_cancel run now d =
    bindr (cancel_unstarted_tool_receipts run ''RunCanceled'' now (close_waits run now d))
     (\<lambda>d1. bindr (append_event_uncommitted run ''run.canceled'' (JObj []) now
          (set_run run (\<lambda>r. r\<lparr>r_status := RunCanceled, r_updated := now, r_completed := Some now\<rparr>) d1))
     (\<lambda>(e, _, d2). update_thread_projection run RunCanceled ''run.canceled'' [] (e_seq e) now d2))"

definition unquarantined_active :: "id \<Rightarrow> job_row \<Rightarrow> bool" where
  "unquarantined_active run j \<longleftrightarrow> j_run j = run \<and> active_job j \<and> j_quarantined j = None"

definition set_job :: "(job_row \<Rightarrow> bool) \<Rightarrow> (job_row \<Rightarrow> job_row) \<Rightarrow> db \<Rightarrow> db" where
  "set_job p f d = d\<lparr>db_jobs := update_where p f (db_jobs d)\<rparr>"

definition ask_to_stop :: "time \<Rightarrow> job_row \<Rightarrow> job_row" where
  "ask_to_stop now j = j\<lparr>j_cancel := Some now, j_updated := now\<rparr>"

definition withdraw_job :: "time \<Rightarrow> job_row \<Rightarrow> job_row" where
  "withdraw_job now j = j\<lparr>j_status := JobCanceled, j_cancel := Some now, j_updated := now, j_finished := Some now\<rparr>"

definition request_run_cancel_in :: "id \<Rightarrow> time \<Rightarrow> db \<Rightarrow> (string option \<times> db) res" where
  "request_run_cancel_in run now d =
    (case find (unquarantined_active run) (db_jobs d) of
       None \<Rightarrow>
         (case get_run_row d run of
            None \<Rightarrow> Inr (None, d)
          | Some r \<Rightarrow>
             if r_status r \<noteq> RunWaitingPermission \<and> r_status r \<noteq> RunWaitingInput then Inr (None, d)
             else bindr (finish_run_cancel run now d) (\<lambda>d1. Inr (Some ''waiting'', d1)))
     | Some j \<Rightarrow>
         if j_status j = JobLeased
         then Inr (Some ''leased'', set_job (\<lambda>x. j_id x = j_id j \<and> j_status x = JobLeased) (ask_to_stop now) d)
         else bindr (finish_run_cancel run now
                (set_job (\<lambda>x. j_id x = j_id j \<and> j_status x = JobPending) (withdraw_job now) d))
              (\<lambda>d1. Inr (Some ''pending'', d1)))"

text \<open>
  The tree below a run, level by level. A child is created after its parent, so parent links
  do not cycle and no level beyond the number of runs is inhabited.
\<close>

definition child_ids :: "db \<Rightarrow> id list \<Rightarrow> id list" where
  "child_ids d ids = concat (map (\<lambda>i. map r_id (filter (\<lambda>r. r_kind r = KindChild \<and> r_parent r = Some i) (db_runs d))) ids)"

fun run_levels :: "db \<Rightarrow> nat \<Rightarrow> nat \<Rightarrow> id list \<Rightarrow> (nat \<times> id) list" where
  "run_levels d 0 depth ids = []"
| "run_levels d (Suc n) depth ids =
     map (\<lambda>i. (depth, i)) ids @ run_levels d n (Suc depth) (child_ids d ids)"

definition run_tree :: "db \<Rightarrow> id \<Rightarrow> id list" where
  "run_tree d run =
    (let top = map r_id (filter (\<lambda>r. r_id r = run) (db_runs d));
         found = run_levels d (Suc (length (db_runs d))) 0 top
     in map snd (sort_key (\<lambda>(depth, i). (length (db_runs d) - depth, i)) found))"

text \<open>\<open>states[target] = state\<close>\<close>

fun put_state :: "id \<Rightarrow> string \<Rightarrow> (id \<times> string) list \<Rightarrow> (id \<times> string) list" where
  "put_state k v [] = [(k, v)]"
| "put_state k v ((k', v') # xs) = (if k' = k then (k, v) # xs else (k', v') # put_state k v xs)"

fun cancel_each :: "(nat \<Rightarrow> time) \<Rightarrow> nat \<Rightarrow> id list \<Rightarrow> (id \<times> string) list \<Rightarrow> db \<Rightarrow> ((id \<times> string) list \<times> db) res" where
  "cancel_each clock n [] states d = Inr (states, d)"
| "cancel_each clock n (i # is) states d =
     bindr (request_run_cancel_in i (clock n) d)
       (\<lambda>(s, d1). cancel_each clock (Suc n) is (case s of None \<Rightarrow> states | Some v \<Rightarrow> put_state i v states) d1)"

definition request_run_cancel_tree :: "ctx \<Rightarrow> id \<Rightarrow> db \<Rightarrow> ((id \<times> string) list \<times> db) res" where
  "request_run_cancel_tree c run d = cancel_each (x_clock c) 1 (run_tree d run) [] d"

definition request_run_cancel :: "ctx \<Rightarrow> id \<Rightarrow> db \<Rightarrow> (string option \<times> db) res" where
  "request_run_cancel c run d =
    bindr (request_run_cancel_tree c run d) (\<lambda>(states, d1). Inr (map_of states run, d1))"

definition cancel_payload :: "id \<Rightarrow> json" where
  "cancel_payload run = encode_payload (JObj [(''type'', JStr ''run.cancel''), (''run_id'', JStr run)])"

definition cancel_body :: "ctx \<Rightarrow> string \<Rightarrow> id \<Rightarrow> id \<Rightarrow> db \<Rightarrow> (dict \<times> db) res" where
  "cancel_body c owner i run d =
    (case get_owned_run owner run d of
       None \<Rightarrow> Inl PyKeyError
     | Some _ \<Rightarrow>
        bindr (request_run_cancel_tree c run d)
         (\<lambda>(states, d1).
           (let receipt = [(''type'', JStr ''run.cancel''), (''command_id'', JStr i), (''run_id'', JStr run),
                           (''canceled'', JBool (run \<in> fst ` set states))]
            in bindr (put_command_receipt owner i ''run.cancel'' (cancel_payload run) receipt
                        (x_clock c (Suc (length (run_tree d run)))) (Some run) d1)
                 (\<lambda>d2. Inr (receipt, d2)))))"

definition request_run_cancel_command ::
    "ctx \<Rightarrow> string \<Rightarrow> id \<Rightarrow> id \<Rightarrow> db \<Rightarrow> ((json \<times> bool) \<times> db) res" where
  "request_run_cancel_command c owner i run =
    command_transaction owner i ''run.cancel'' (cancel_payload run) (cancel_body c owner i run)"

subsection \<open>Injected steering\<close>

definition inject_payload :: "id \<Rightarrow> string \<Rightarrow> json" where
  "inject_payload run content = encode_payload (JObj [(''type'', JStr ''run.inject''),
     (''run_id'', JStr run), (''content'', JStr content)])"

definition inject_body :: "ctx \<Rightarrow> string \<Rightarrow> id \<Rightarrow> id \<Rightarrow> string \<Rightarrow> db \<Rightarrow> (dict \<times> db) res" where
  "inject_body c owner i run content d =
    (case get_owned_run owner run d of
       None \<Rightarrow> Inl PyKeyError
     | Some r \<Rightarrow>
        if terminal_run (r_status r) \<or> r_status r = RunCleanupRequired
        then Inl (RunAdmissionError ''run_not_active'')
        else
         (let (s, d1) = new_id ''steer'' d;
              receipt = [(''command_id'', JStr i), (''run_id'', JStr run),
                         (''instruction_id'', JStr s), (''queued'', JBool True)]
          in bindr (insert_steering s run content (x_clock c 1) d1)
               (\<lambda>d2. bindr (put_command_receipt owner i ''run.inject'' (inject_payload run content) receipt
                              (x_clock c 1) (Some run) d2)
               (\<lambda>d3. Inr (receipt, d3)))))"

definition request_run_inject_command ::
    "ctx \<Rightarrow> string \<Rightarrow> id \<Rightarrow> id \<Rightarrow> string \<Rightarrow> db \<Rightarrow> ((json \<times> bool) \<times> db) res" where
  "request_run_inject_command c owner i run content =
    command_transaction owner i ''run.inject'' (inject_payload run content) (inject_body c owner i run content)"

subsection \<open>Commands are accepted once\<close>

text \<open>
  What a command's body owes the transaction: it leaves the command recorded, under its type
  and payload, with the response it returns.
\<close>

locale recorded_command =
  fixes owner :: string and i :: id and ty :: string and payload :: json
    and body :: "db \<Rightarrow> (dict \<times> db) res"
  assumes body_records: "body d = Inr (receipt, d') \<Longrightarrow>
      \<exists>x. find_command owner i d' = Some x \<and> cm_type x = ty \<and> cm_payload x = payload \<and>
        cm_response x = encode_payload (JObj receipt)"
begin

lemma accepted:
  assumes "command_transaction owner i ty payload body d = Inr ((response, b), d')"
  shows "\<exists>x. find_command owner i d' = Some x \<and> cm_type x = ty \<and> cm_payload x = payload \<and>
    (cm_response x = response \<or> cm_response x = encode_payload response)"
  using assms body_records
  by (fastforce simp: command_transaction_def accepted_command_receipt_def bindr_Inr_iff
      simp del: encode_payload.simps split: option.splits if_splits)

lemma again:
  assumes "command_transaction owner i ty payload body d = Inr ((response, b), d')"
  shows "\<exists>response'. command_transaction owner i ty payload body' d' = Inr ((response', False), d') \<and>
    encode_payload response' = encode_payload response"
  using accepted [OF assms] encode_payload_idem
  by (auto simp: command_transaction_def accepted_command_receipt_def simp del: encode_payload.simps)

lemma other_refused:
  assumes "command_transaction owner i ty payload body d = Inr ((response, b), d')" "payload' \<noteq> payload"
  shows "command_transaction owner i ty' payload' body' d' = Inl CommandConflictError"
  using accepted [OF assms(1)] assms(2)
  by (auto simp: command_transaction_def accepted_command_receipt_def)

end

lemma put_command_receipt_records:
  assumes "put_command_receipt owner i ty payload receipt now run d = Inr d'"
  shows "\<exists>x. find_command owner i d' = Some x \<and> cm_type x = ty \<and> cm_payload x = payload \<and>
    cm_response x = encode_payload (JObj receipt)"
    "same_log d d'" "db_jobs d' = db_jobs d" "db_calls d' = db_calls d" "db_runs d' = db_runs d"
  using assms
  by (auto simp: put_command_receipt_def insert_command_def find_command_def same_log_def find_append
      simp del: encode_payload.simps split: if_splits option.splits)

interpretation cancel_command: recorded_command owner i "''run.cancel''" "cancel_payload run"
    "cancel_body c owner i run" for c owner i run
  by unfold_locales
    (auto simp: cancel_body_def Let_def bindr_Inr_iff simp del: encode_payload.simps
      split: option.splits dest: put_command_receipt_records(1))

interpretation inject_command: recorded_command owner i "''run.inject''" "inject_payload run content"
    "inject_body c owner i run content" for c owner i run content
  by unfold_locales
    (auto simp: inject_body_def Let_def bindr_Inr_iff new_id_def simp del: encode_payload.simps
      split: option.splits if_splits dest: put_command_receipt_records(1))

subsection \<open>The effect of canceling\<close>

lemma close_waits_simps [simp]:
  "db_jobs (close_waits run now d) = db_jobs d" "db_receipts (close_waits run now d) = db_receipts d"
  "db_calls (close_waits run now d) = db_calls d" "db_runs (close_waits run now d) = db_runs d"
  "same_log d (close_waits run now d)" "db_deps (close_waits run now d) = db_deps d"
  by (simp_all add: close_waits_def same_log_def)

lemma finish_run_cancel_inv:
  assumes "finish_run_cancel run now d = Inr d'"
  shows "store_effect d d'" "db_jobs d' = db_jobs d"
    "db_receipts d' = update_where (\<lambda>t. t_run t = run \<and> unstarted t) (as_canceled ''RunCanceled'' now) (db_receipts d)"
    "db_runs d' = update_where (\<lambda>r. r_id r = run)
       (\<lambda>r. r\<lparr>r_status := RunCanceled, r_updated := now, r_completed := Some now\<rparr>) (db_runs d)"
    "db_perms d' = db_perms (close_waits run now d)" "db_waits d' = db_waits (close_waits run now d)"
    "db_questions d' = db_questions (close_waits run now d)" "db_plans d' = db_plans (close_waits run now d)"
    "db_calls d' = db_calls d" "db_deps d' = db_deps d"
proof -
  let ?s = "set_run run (\<lambda>r. r\<lparr>r_status := RunCanceled, r_updated := now, r_completed := Some now\<rparr>)"
  obtain d1 e pe d2 where
    h1: "cancel_unstarted_tool_receipts run ''RunCanceled'' now (close_waits run now d) = Inr d1"
    and h2: "append_event_uncommitted run ''run.canceled'' (JObj []) now (?s d1) = Inr (e, pe, d2)"
    and h3: "update_thread_projection run RunCanceled ''run.canceled'' [] (e_seq e) now d2 = Inr d'"
    using assms by (auto simp: finish_run_cancel_def bindr_Inr_iff)
  note r1 = cancel_unstarted_effect [OF h1]
  have w1: "without_receipts d1 = without_receipts (close_waits run now d)" using r1 by (simp add: receipt_effect_def)
  have w2: "without_log d2 = without_log (?s d1)" by (rule append_event_uncommitted_grows(2) [OF h2])
  have w3: "without_log d' = without_log d2" by (rule update_thread_projection_frame [OF h3])
  note f = without_log_frame [OF w3] without_log_frame [OF w2] without_receipts_frame [OF w1]
  have "store_effect d (close_waits run now d)" by (rule store_effect_other) simp_all
  also have "store_effect (close_waits run now d) d1" using r1 by (simp add: store_effect_receipts)
  also have "store_effect d1 (?s d1)" by (rule store_effect_other) (simp_all add: same_log_def)
  also have "store_effect (?s d1) d2" by (rule store_effect_log [OF append_event_effect [OF h2]])
  also have "store_effect d2 d'" by (rule store_effect_log [OF update_thread_projection_effect [OF h3]])
  finally show "store_effect d d'" .
  show "db_jobs d' = db_jobs d" using f by simp
  show "db_receipts d' = update_where (\<lambda>t. t_run t = run \<and> unstarted t) (as_canceled ''RunCanceled'' now) (db_receipts d)"
    using f r1 by simp
  show "db_runs d' = update_where (\<lambda>r. r_id r = run)
       (\<lambda>r. r\<lparr>r_status := RunCanceled, r_updated := now, r_completed := Some now\<rparr>) (db_runs d)"
    using f by simp
  show "db_perms d' = db_perms (close_waits run now d)" "db_waits d' = db_waits (close_waits run now d)"
    "db_questions d' = db_questions (close_waits run now d)" "db_plans d' = db_plans (close_waits run now d)"
    using f by (simp_all add: set_run_def)
  show "db_calls d' = db_calls d" "db_deps d' = db_deps d" using f by simp_all
qed

lemma set_job_simps [simp]:
  "db_jobs (set_job p f d) = update_where p f (db_jobs d)" "db_receipts (set_job p f d) = db_receipts d"
  "db_runs (set_job p f d) = db_runs d" "db_calls (set_job p f d) = db_calls d"
  "same_log d (set_job p f d)" "db_deps (set_job p f d) = db_deps d"
  by (simp_all add: set_job_def same_log_def)

lemma set_job_effect:
  assumes "\<And>j. jobs_ok d \<Longrightarrow> j \<in> set (db_jobs d) \<Longrightarrow> p j \<Longrightarrow>
      job_step\<^sup>*\<^sup>* (j_status j) (j_status (f j)) \<and> j_id (f j) = j_id j \<and> j_run (f j) = j_run j"
    and "\<And>j. jobs_ok d \<Longrightarrow> j \<in> set (db_jobs d) \<Longrightarrow> p j \<Longrightarrow> job_ok j \<Longrightarrow> job_ok (f j)"
  shows "store_effect d (set_job p f d)"
  by (rule store_effect_jobs [OF job_effect_update [OF _ assms]]) simp_all

lemma ask_to_stop_effect:
  "store_effect d (set_job (\<lambda>x. j_id x = i \<and> j_status x = JobLeased) (ask_to_stop now) d)"
  by (rule set_job_effect) (auto simp: ask_to_stop_def job_ok_def)

lemma withdraw_job_effect:
  "store_effect d (set_job (\<lambda>x. j_id x = i \<and> j_status x = JobPending) (withdraw_job now) d)"
  by (rule set_job_effect) (auto simp: withdraw_job_def job_ok_def)

text \<open>The four ways a cancel request ends for one run.\<close>

lemma request_run_cancel_in_cases:
  assumes "request_run_cancel_in run now d = Inr (s, d')"
  obtains (idle) "find (unquarantined_active run) (db_jobs d) = None" "s = None" "d' = d"
  | (waiting) r where "find (unquarantined_active run) (db_jobs d) = None" "get_run_row d run = Some r"
      "r_status r = RunWaitingPermission \<or> r_status r = RunWaitingInput" "s = Some ''waiting''"
      "finish_run_cancel run now d = Inr d'"
  | (leased) j where "find (unquarantined_active run) (db_jobs d) = Some j" "j_status j = JobLeased"
      "s = Some ''leased''"
      "d' = set_job (\<lambda>x. j_id x = j_id j \<and> j_status x = JobLeased) (ask_to_stop now) d"
  | (pending) j where "find (unquarantined_active run) (db_jobs d) = Some j" "j_status j = JobPending"
      "s = Some ''pending''"
      "finish_run_cancel run now
         (set_job (\<lambda>x. j_id x = j_id j \<and> j_status x = JobPending) (withdraw_job now) d) = Inr d'"
proof (cases "find (unquarantined_active run) (db_jobs d)")
  case None
  then show thesis
    using assms idle waiting
    by (auto simp: request_run_cancel_in_def bindr_Inr_iff split: option.splits if_splits)
next
  case (Some j)
  have "j_status j = JobLeased \<or> j_status j = JobPending"
    using find_SomeD [OF Some] by (auto simp: unquarantined_active_def active_job_def)
  then show thesis
    using assms Some leased pending
    by (auto simp: request_run_cancel_in_def bindr_Inr_iff split: if_splits)
qed

lemma request_run_cancel_in_effect:
  assumes "request_run_cancel_in run now d = Inr (s, d')"
  shows "store_effect d d'"
  using assms
proof (cases rule: request_run_cancel_in_cases)
  case (pending j)
  show ?thesis
    by (rule store_effect_trans [OF withdraw_job_effect finish_run_cancel_inv(1) [OF pending(4)]])
qed (auto intro: finish_run_cancel_inv(1) ask_to_stop_effect)

lemma cancel_each_invariant:
  assumes "cancel_each clock n is states d = Inr (states', d')" "I d"
    and "\<And>i now s x y. i \<in> set is \<Longrightarrow> I x \<Longrightarrow> request_run_cancel_in i now x = Inr (s, y) \<Longrightarrow> I y"
  shows "I d'"
  using assms
proof (induction "is" arbitrary: n states d)
  case Nil
  then show ?case by simp
next
  case (Cons i "is")
  obtain s d1 where d1: "request_run_cancel_in i (clock n) d = Inr (s, d1)"
    and rest: "cancel_each clock (Suc n) is (case s of None \<Rightarrow> states | Some v \<Rightarrow> put_state i v states) d1 = Inr (states', d')"
    using Cons.prems(1) by (auto simp: bindr_Inr_iff)
  have "I d1" by (rule Cons.prems(3) [OF _ Cons.prems(2) d1]) simp
  then show ?case using Cons.IH [OF rest] by (meson Cons.prems(3) list.set_intros(2))
qed

lemma cancel_each_effect:
  assumes "cancel_each clock n is states d = Inr (states', d')"
  shows "store_effect d d'"
  by (rule cancel_each_invariant [where I = "store_effect d", OF assms])
    (auto intro: store_effect_trans request_run_cancel_in_effect)

lemma request_run_cancel_tree_effect:
  "request_run_cancel_tree c run d = Inr (states, d') \<Longrightarrow> store_effect d d'"
  by (auto simp: request_run_cancel_tree_def intro: cancel_each_effect)

lemma put_command_receipt_effect:
  "put_command_receipt owner i ty payload receipt now run d = Inr d' \<Longrightarrow> store_effect d d'"
  using put_command_receipt_records by (intro store_effect_other) blast+

lemma request_run_cancel_command_effect:
  assumes "request_run_cancel_command c owner i run d = Inr (res, d')"
  shows "store_effect d d'"
  using assms
  by (auto simp: request_run_cancel_command_def command_transaction_def cancel_body_def Let_def
      bindr_Inr_iff simp del: encode_payload.simps split: option.splits
      intro: store_effect_trans request_run_cancel_tree_effect put_command_receipt_effect)

lemma insert_steering_effect: "insert_steering s run content now d = Inr d' \<Longrightarrow> store_effect d d'"
  by (rule store_effect_other) (auto simp: insert_steering_def same_log_def split: if_splits)

lemma new_id_effect: "store_effect d (snd (new_id p d))"
  by (rule store_effect_other) (simp_all add: new_id_def same_log_def)

lemma request_run_inject_command_effect:
  assumes "request_run_inject_command c owner i run content d = Inr (res, d')"
  shows "store_effect d d'"
proof -
  have "store_effect d d'" if "insert_steering s run content now (snd (new_id p d)) = Inr d2"
      "put_command_receipt owner i ty pl rc now' rn d2 = Inr d'" for s now p d2 ty pl rc now' rn
    using new_id_effect insert_steering_effect [OF that(1)] put_command_receipt_effect [OF that(2)]
    by (blast intro: store_effect_trans)
  then show ?thesis
    using assms
    by (auto simp: request_run_inject_command_def command_transaction_def inject_body_def Let_def
        bindr_Inr_iff case_prod_beta simp del: encode_payload.simps split: option.splits if_splits)
qed

subsection \<open>The tree is stopped\<close>

text \<open>The runs below a run, by the number of parent links to it.\<close>

inductive below :: "db \<Rightarrow> id \<Rightarrow> nat \<Rightarrow> id \<Rightarrow> bool" for d run where
  root: "r \<in> set (db_runs d) \<Longrightarrow> r_id r = run \<Longrightarrow> below d run 0 run"
| child: "below d run k p \<Longrightarrow> r \<in> set (db_runs d) \<Longrightarrow> r_kind r = KindChild \<Longrightarrow> r_parent r = Some p \<Longrightarrow>
    below d run (Suc k) (r_id r)"

lemma set_run_levels:
  "set (run_levels d n depth ids) = {(depth + j, i) | i j. j < n \<and> i \<in> set ((child_ids d ^^ j) ids)}"
proof (induction n arbitrary: depth ids)
  case 0
  then show ?case by simp
next
  case (Suc n)
  have shift: "(child_ids d ^^ j) (child_ids d ids) = (child_ids d ^^ Suc j) ids" for j
    by (simp add: funpow_swap1)
  show ?case
    by (auto simp: Suc.IH shift less_Suc_eq_0_disj image_iff simp del: funpow.simps(2))
qed

lemma below_level:
  "below d run k i \<Longrightarrow> i \<in> set ((child_ids d ^^ k) (map r_id (filter (\<lambda>r. r_id r = run) (db_runs d))))"
  by (induction rule: below.induct) (auto simp: child_ids_def)

lemma below_in_tree:
  assumes "below d run k i" "k \<le> length (db_runs d)"
  shows "i \<in> set (run_tree d run)"
proof -
  have "(k, i) \<in> set (run_levels d (Suc (length (db_runs d))) 0 (map r_id (filter (\<lambda>r. r_id r = run) (db_runs d))))"
    using below_level [OF assms(1)] assms(2) unfolding set_run_levels by auto
  then show ?thesis by (force simp: run_tree_def Let_def simp del: run_levels.simps)
qed

definition stopped :: "id \<Rightarrow> db \<Rightarrow> bool" where
  "stopped run d \<longleftrightarrow> (\<forall>j\<in>set (db_jobs d). j_run j = run \<longrightarrow> j_status j \<noteq> JobPending \<and>
     (j_status j = JobLeased \<and> j_quarantined j = None \<longrightarrow> j_cancel j \<noteq> None))"

lemma stopped_update:
  assumes "stopped run d" "db_jobs d' = update_where p f (db_jobs d)"
    and "\<And>j. j_run (f j) = j_run j \<and> (j_status (f j) = j_status j \<or> settled_job (j_status (f j))) \<and>
      j_quarantined (f j) = j_quarantined j \<and> j_cancel (f j) \<noteq> None"
  shows "stopped run d'"
  using assms(1,3) unfolding stopped_def assms(2) ball_update_where
  by (auto simp: settled_job_def) (metis job_status.distinct settled_job_def assms(3))+

lemma stopped_kept:
  assumes "stopped run d" "request_run_cancel_in i now d = Inr (s, d')"
  shows "stopped run d'"
  using assms(2)
proof (cases rule: request_run_cancel_in_cases)
  case idle
  then show ?thesis using assms(1) by simp
next
  case (waiting r)
  then show ?thesis using assms(1) finish_run_cancel_inv(2) by (simp add: stopped_def)
next
  case (leased j)
  show ?thesis
    by (rule stopped_update [OF assms(1)]) (use leased in \<open>auto simp: ask_to_stop_def\<close>)
next
  case (pending j)
  have "stopped run (set_job (\<lambda>x. j_id x = j_id j \<and> j_status x = JobPending) (withdraw_job now) d)"
    by (rule stopped_update [OF assms(1)]) (auto simp: withdraw_job_def settled_job_def)
  then show ?thesis using finish_run_cancel_inv(2) [OF pending(4)] by (simp add: stopped_def)
qed

lemma one_active_unique:
  assumes "one_active d" "x \<in> set (db_jobs d)" "y \<in> set (db_jobs d)"
    and "active_job x" "active_job y" "j_run x = j_run y" "distinct (map j_id (db_jobs d))"
  shows "x = y"
proof (rule ccontr)
  assume "x \<noteq> y"
  let ?p = "\<lambda>j. j_run j = j_run y \<and> active_job j"
  have d: "distinct (db_jobs d)" using assms(7) by (simp add: distinct_map)
  have "{x, y} \<subseteq> set (filter ?p (db_jobs d))" using assms by auto
  then have "card {x, y} \<le> card (set (filter ?p (db_jobs d)))" by (intro card_mono) auto
  also have "\<dots> = count_where ?p (db_jobs d)" using d by (simp add: count_where_def distinct_card del: set_filter)
  also have "\<dots> \<le> 1" using assms(1) by (simp add: one_active_def)
  finally show False using \<open>x \<noteq> y\<close> by simp
qed

lemma no_active_stopped:
  assumes "find (unquarantined_active run) (db_jobs d) = None" "jobs_ok d"
  shows "stopped run d"
  unfolding stopped_def
proof (intro ballI impI)
  fix j assume j: "j \<in> set (db_jobs d)" "j_run j = run"
  have "\<not> unquarantined_active run j" using assms(1) j(1) by (auto simp: find_None_iff)
  moreover have "job_ok j" using assms(2) j(1) by (simp add: jobs_ok_def)
  ultimately show "j_status j \<noteq> JobPending \<and> (j_status j = JobLeased \<and> j_quarantined j = None \<longrightarrow> j_cancel j \<noteq> None)"
    using j(2) by (auto simp: unquarantined_active_def active_job_def job_ok_def)
qed

lemma request_run_cancel_in_stops:
  assumes "request_run_cancel_in run now d = Inr (s, d')" "jobs_ok d"
  shows "stopped run d'"
  using assms(1)
proof (cases rule: request_run_cancel_in_cases)
  case idle
  then show ?thesis using no_active_stopped [OF _ assms(2)] by simp
next
  case (waiting r)
  then show ?thesis
    using no_active_stopped [OF waiting(1) assms(2)] finish_run_cancel_inv(2) [OF waiting(5)]
    by (simp add: stopped_def)
next
  case (leased j)
  have j: "j \<in> set (db_jobs d)" "j_run j = run" "active_job j"
    using find_SomeD [OF leased(1)] by (auto simp: unquarantined_active_def)
  have "x = j" if "x \<in> set (db_jobs d)" "j_run x = run" "active_job x" for x
    using one_active_unique [of d x j] assms(2) that j by (auto simp: jobs_ok_def)
  then show ?thesis
    using leased unfolding stopped_def leased(4) set_job_simps ball_update_where
    by (auto simp: ask_to_stop_def active_job_def)
next
  case (pending j)
  have j: "j \<in> set (db_jobs d)" "j_run j = run" "active_job j"
    using find_SomeD [OF pending(1)] by (auto simp: unquarantined_active_def)
  have "x = j" if "x \<in> set (db_jobs d)" "j_run x = run" "active_job x" for x
    using one_active_unique [of d x j] assms(2) that j by (auto simp: jobs_ok_def)
  then show ?thesis
    using pending unfolding stopped_def finish_run_cancel_inv(2) [OF pending(4)] set_job_simps ball_update_where
    by (auto simp: withdraw_job_def active_job_def)
qed

lemma cancel_each_stops:
  assumes "cancel_each clock n is states d = Inr (states', d')" "jobs_ok d" "i \<in> set is"
  shows "stopped i d'"
  using assms
proof (induction "is" arbitrary: n states d)
  case Nil
  then show ?case by simp
next
  case (Cons a "is")
  obtain s d1 where d1: "request_run_cancel_in a (clock n) d = Inr (s, d1)"
    and rest: "cancel_each clock (Suc n) is (case s of None \<Rightarrow> states | Some v \<Rightarrow> put_state a v states) d1 = Inr (states', d')"
    using Cons.prems(1) by (auto simp: bindr_Inr_iff)
  have ok: "jobs_ok d1"
    using request_run_cancel_in_effect [OF d1] Cons.prems(2) by (simp add: store_effect_def job_effect_def)
  show ?case
  proof (cases "i = a")
    case True
    have "stopped i d1" unfolding True by (rule request_run_cancel_in_stops [OF d1 Cons.prems(2)])
    show ?thesis
      by (rule cancel_each_invariant [where I = "stopped i", OF rest \<open>stopped i d1\<close>]) (rule stopped_kept)
  next
    case False
    then show ?thesis using Cons.IH [OF rest ok] Cons.prems(3) by simp
  qed
qed

text \<open>A quarantined job under a lease waits for the cleanup of its owner; canceling passes it over.\<close>

definition held_in_quarantine :: "job_row \<Rightarrow> bool" where
  "held_in_quarantine j \<longleftrightarrow> j_status j = JobLeased \<and> j_quarantined j \<noteq> None"

lemma filter_update_where:
  "(\<And>x. x \<in> set xs \<Longrightarrow> p x \<Longrightarrow> \<not> q x \<and> \<not> q (f x)) \<Longrightarrow> filter q (update_where p f xs) = filter q xs"
  by (induction xs) (auto simp: update_where_def)

lemma quarantine_kept:
  assumes "request_run_cancel_in i now d = Inr (s, d')" "jobs_ok d"
  shows "filter held_in_quarantine (db_jobs d') = filter held_in_quarantine (db_jobs d)"
  using assms(1)
proof (cases rule: request_run_cancel_in_cases)
  case (leased j)
  have j: "j \<in> set (db_jobs d)" "\<not> held_in_quarantine j"
    using find_SomeD [OF leased(1)] by (auto simp: unquarantined_active_def held_in_quarantine_def)
  have "x = j" if "x \<in> set (db_jobs d)" "j_id x = j_id j" for x
    by (rule job_same_row) (use assms(2) that j in \<open>auto simp: jobs_ok_def\<close>)
  then show ?thesis
    unfolding leased(4) set_job_simps
    by (intro filter_update_where) (use j(2) in \<open>auto simp: ask_to_stop_def held_in_quarantine_def\<close>)
next
  case (pending j)
  then show ?thesis
    unfolding finish_run_cancel_inv(2) [OF pending(4)] set_job_simps
    by (intro filter_update_where) (auto simp: withdraw_job_def held_in_quarantine_def)
qed (simp_all add: finish_run_cancel_inv(2))

lemma cancel_each_quarantine:
  assumes "cancel_each clock n is states d = Inr (states', d')" "jobs_ok d"
  shows "filter held_in_quarantine (db_jobs d') = filter held_in_quarantine (db_jobs d)"
proof -
  let ?I = "\<lambda>x. jobs_ok x \<and> filter held_in_quarantine (db_jobs x) = filter held_in_quarantine (db_jobs d)"
  have "?I d'"
  proof (rule cancel_each_invariant [where I = ?I, OF assms(1)])
    fix i now a s b
    assume c: "request_run_cancel_in i now a = Inr (s, b)" and "?I a"
    then show "?I b"
      using request_run_cancel_in_effect [OF c] quarantine_kept [OF c] by (simp add: store_effect_def job_effect_def)
  qed (use assms(2) in simp)
  then show ?thesis by simp
qed

subsection \<open>Properties\<close>

text \<open>a command is accepted once. When a steering or a cancel command has returned, the same
  command (same owner, id and content), whoever sends it and at whatever time, is answered with
  the recorded response and changes nothing; and the same id with other content is refused.\<close>

theorem command_is_accepted_once:
  assumes "request_run_inject_command c owner i run content d = Inr ((response, b), d')"
    and "request_run_cancel_command c owner k run' d2 = Inr ((response2, b2), d2')"
  shows "(\<exists>r. request_run_inject_command c' owner i run content d' = Inr ((r, False), d') \<and>
      encode_payload r = encode_payload response) \<and>
    (\<forall>other. other \<noteq> content \<longrightarrow> request_run_inject_command c' owner i run other d' = Inl CommandConflictError) \<and>
    (\<exists>r. request_run_cancel_command c' owner k run' d2' = Inr ((r, False), d2') \<and>
      encode_payload r = encode_payload response2) \<and>
    (\<forall>other. other \<noteq> run' \<longrightarrow> request_run_cancel_command c' owner k other d2' = Inl CommandConflictError)"
proof (intro conjI allI impI)
  note inj = assms(1) [unfolded request_run_inject_command_def]
  note can = assms(2) [unfolded request_run_cancel_command_def]
  show "\<exists>r. request_run_inject_command c' owner i run content d' = Inr ((r, False), d') \<and>
      encode_payload r = encode_payload response"
    unfolding request_run_inject_command_def by (rule inject_command.again [OF inj])
  show "\<exists>r. request_run_cancel_command c' owner k run' d2' = Inr ((r, False), d2') \<and>
      encode_payload r = encode_payload response2"
    unfolding request_run_cancel_command_def by (rule cancel_command.again [OF can])
  fix other
  show "request_run_inject_command c' owner i run other d' = Inl CommandConflictError" if "other \<noteq> content"
    unfolding request_run_inject_command_def
    by (rule inject_command.other_refused [OF inj]) (use that in \<open>simp add: inject_payload_def\<close>)
  show "request_run_cancel_command c' owner k other d2' = Inl CommandConflictError" if "other \<noteq> run'"
    unfolding request_run_cancel_command_def
    by (rule cancel_command.other_refused [OF can]) (use that in \<open>simp add: cancel_payload_def\<close>)
qed

theorem command_is_accepted_once_witness:
  "returns (request_run_inject_command free_ctx ''local'' ''c1'' ''run_1'' ''stop'' demo_db)
     (\<lambda>(_, d). request_run_inject_command demo_ctx ''local'' ''c1'' ''run_1'' ''go'' d = Inl CommandConflictError)"
proof -
  have "returns (request_run_inject_command free_ctx ''local'' ''c1'' ''run_1'' ''stop'' demo_db) (\<lambda>_. True)"
    "returns (request_run_cancel_command free_ctx ''local'' ''c2'' ''run_1'' demo_db) (\<lambda>_. True)"
    by code_simp+
  then obtain r b d r2 b2 d2 where
    d: "request_run_inject_command free_ctx ''local'' ''c1'' ''run_1'' ''stop'' demo_db = Inr ((r, b), d)"
    and d2: "request_run_cancel_command free_ctx ''local'' ''c2'' ''run_1'' demo_db = Inr ((r2, b2), d2)"
    by (auto simp: returns_iff)
  show ?thesis using command_is_accepted_once [OF d d2, of demo_ctx] d by simp
qed

text \<open>C8: canceling stops the whole tree. After \<open>request_run_cancel_tree\<close>, for the run and every
  run reached from it through child links, no job is waiting to be claimed, and a job still
  leased and not quarantined carries a cancel request; a leased job in quarantine, which waits for
  its owner to confirm the cleanup, is passed over and stays exactly as it was.\<close>

theorem cancel_stops_the_tree:
  assumes "request_run_cancel_tree c run d = Inr (states, d')" "jobs_ok d"
    and "below d run k i" "k \<le> length (db_runs d)" "j \<in> set (db_jobs d')" "j_run j = i"
  shows "j_status j \<noteq> JobPending \<and>
    (j_status j = JobLeased \<and> j_quarantined j = None \<longrightarrow> j_cancel j \<noteq> None) \<and>
    (j_status j = JobLeased \<and> j_quarantined j \<noteq> None \<longrightarrow> j \<in> set (db_jobs d))"
proof -
  have "i \<in> set (run_tree d run)" by (rule below_in_tree [OF assms(3,4)])
  then have "stopped i d'"
    using cancel_each_stops [OF assms(1) [unfolded request_run_cancel_tree_def] assms(2)] by blast
  moreover have "j \<in> set (db_jobs d)" if "held_in_quarantine j"
  proof -
    have "j \<in> set (filter held_in_quarantine (db_jobs d'))" using that assms(5) by simp
    then show ?thesis
      unfolding cancel_each_quarantine [OF assms(1) [unfolded request_run_cancel_tree_def] assms(2)] by simp
  qed
  ultimately show ?thesis using assms(5,6) by (simp add: stopped_def held_in_quarantine_def)
qed

text \<open>The run with a child waiting for a worker.\<close>

definition family_db :: db where
  "family_db = demo_db\<lparr>db_runs := db_runs demo_db @
      [(blank_run ''run_2'' RunQueued)\<lparr>r_kind := KindChild, r_parent := Some ''run_1''\<rparr>],
     db_jobs := db_jobs demo_db @ [blank_job ''job_2'' ''run_2'' JobPending]\<rparr>"

lemma family_jobs_ok: "jobs_ok family_db"
  by (simp add: jobs_ok_def one_active_def family_db_def demo_db_def empty_db_def job_ok_def
      leased_job_def blank_job_def)

theorem cancel_stops_the_tree_witness:
  "returns (request_run_cancel_tree free_ctx ''run_1'' family_db)
     (\<lambda>(_, d). \<forall>j\<in>set (db_jobs d). j_run j = ''run_2'' \<longrightarrow> j_status j \<noteq> JobPending)"
proof -
  have "returns (request_run_cancel_tree free_ctx ''run_1'' family_db) (\<lambda>_. True)" by code_simp
  then obtain s d where d: "request_run_cancel_tree free_ctx ''run_1'' family_db = Inr (s, d)"
    by (auto simp: returns_iff)
  have r: "below family_db ''run_1'' 0 ''run_1''"
    by (rule below.root [of "hd (db_runs demo_db)"]) (simp_all add: family_db_def demo_db_def blank_run_def)
  have "below family_db ''run_1'' (Suc 0) (r_id ((blank_run ''run_2'' RunQueued)\<lparr>r_kind := KindChild, r_parent := Some ''run_1''\<rparr>))"
    by (rule below.child [OF r]) (simp_all add: family_db_def blank_run_def)
  then have b: "below family_db ''run_1'' 1 ''run_2''" by (simp add: blank_run_def One_nat_def)
  have "1 \<le> length (db_runs family_db)" by (simp add: family_db_def)
  then show ?thesis using cancel_stops_the_tree [OF d family_jobs_ok b] d by auto
qed

text \<open>what is canceled before it runs is closed at once. When a cancel request finds the run
  not started or waiting, the run ends canceled with a completion time, no tool call of it can
  start any more, and nothing it was waiting for (permissions, questions, plans, wait candidates)
  is pending.\<close>

theorem cancel_closes_what_waits:
  assumes "request_run_cancel_in run now d = Inr (Some s, d')" "s \<noteq> ''leased''"
  shows "(\<forall>r\<in>set (db_runs d'). r_id r = run \<longrightarrow> r_status r = RunCanceled \<and> r_completed r = Some now) \<and>
    (\<forall>t\<in>set (db_receipts d'). t_run t = run \<longrightarrow> \<not> unstarted t) \<and>
    (\<forall>p\<in>set (db_perms d'). p_run p = run \<longrightarrow> p_status p \<noteq> ''pending'') \<and>
    (\<forall>q\<in>set (db_questions d'). q_run q = run \<longrightarrow> q_status q \<noteq> ''pending'') \<and>
    (\<forall>p\<in>set (db_plans d'). pl_run p = run \<longrightarrow> pl_status p \<noteq> ''pending'') \<and>
    (\<forall>w\<in>set (db_waits d'). w_run w = run \<longrightarrow> w_status w \<noteq> ''pending'')"
proof -
  obtain x where f: "finish_run_cancel run now x = Inr d'"
    using assms by (cases rule: request_run_cancel_in_cases) auto
  note i = finish_run_cancel_inv [OF f]
  show ?thesis
    unfolding i(3-8) close_waits_def
    by (simp add: as_canceled_def unstarted_def)
qed

theorem cancel_closes_what_waits_witness:
  "returns (request_run_cancel_in ''run_2'' 9 family_db)
     (\<lambda>(_, d). \<forall>r\<in>set (db_runs d). r_id r = ''run_2'' \<longrightarrow> r_status r = RunCanceled)"
proof -
  have "returns (request_run_cancel_in ''run_2'' 9 family_db) (\<lambda>(s, _). s = Some ''pending'')"
    by code_simp
  then obtain d where d: "request_run_cancel_in ''run_2'' 9 family_db = Inr (Some ''pending'', d)"
    by (auto simp: returns_iff)
  show ?thesis using cancel_closes_what_waits [OF d] d by simp
qed

end
