(* ===== verification/Run_Jobs.thy ===== *)
theory Run_Jobs
  imports Run_Control
begin

text \<open>
  The durable job queue: enqueueing, claiming under a lease, renewal, finishing, and the
  quarantine of an attempt whose lease was lost (store/run_jobs). A job is leased to one worker
  under a generation; an expired lease is never handed to another worker but quarantined until
  its own owner confirms cleanup. Shown: exclusive leases, at most one lease per job, dependency
  order, and that a lost attempt leaves nothing open.
\<close>

subsection \<open>Fencing an attempt (quarantine.py)\<close>

definition sandbox_cleanup_report :: "id \<Rightarrow> string \<Rightarrow> db \<Rightarrow> dict" where
  "sandbox_cleanup_report run attempt d =
    (let rows = filter (\<lambda>s. s_run s = run \<and> s_attempt s = attempt) (db_sandboxes d);
         stopped = count_where (\<lambda>s. s_status s = SandboxReaped) rows + count_where (\<lambda>s. s_status s = SandboxGone) rows
     in if rows = [] then [(''status'', JStr ''unconfirmed'')]
        else if stopped = length rows
          then [(''status'', JStr ''completed''), (''sandboxes_stopped'', JInt (int stopped))]
        else [(''status'', JStr ''unconfirmed''), (''sandboxes_stopped'', JInt (int stopped)),
              (''sandboxes_unaccounted'', JInt (int (length rows) - int stopped))])"

definition lease_expiry_error :: "dict \<Rightarrow> string" where
  "lease_expiry_error report =
    (if dget report ''status'' = JStr ''completed''
     then ''The execution lease expired. Every sandboxed command this attempt started has '' @
          ''been stopped, but the run is quarantined and cannot be retried automatically.''
     else ''The execution lease expired before the Runtime could prove that external work '' @
          ''stopped. This run is quarantined and cannot be retried automatically.'')"

definition lease_expired_payload :: "dict \<Rightarrow> dict" where
  "lease_expired_payload report =
     [(''error'', JStr (lease_expiry_error report)), (''type'', JStr ''ExecutionLeaseExpiredError''),
      (''retryable'', JBool False), (''category'', JStr ''execution_lease_expired''),
      (''cleanup'', JObj report)]"

definition mark_calls_unknown :: "id \<Rightarrow> string \<Rightarrow> time \<Rightarrow> db \<Rightarrow> db" where
  "mark_calls_unknown run attempt now d =
     d\<lparr>db_calls := update_where (\<lambda>x. c_run x = run \<and> c_attempt x = attempt \<and> call_open (c_status x))
         (\<lambda>x. x\<lparr>c_status := CallOutcomeUnknown, c_completed := Some now\<rparr>) (db_calls d)\<rparr>"

definition orphan_sandboxes :: "id \<Rightarrow> string \<Rightarrow> time \<Rightarrow> db \<Rightarrow> db" where
  "orphan_sandboxes run attempt now d =
     d\<lparr>db_sandboxes := update_where (\<lambda>s. s_run s = run \<and> s_attempt s = attempt \<and> s_status s = SandboxRunning)
         (\<lambda>s. s\<lparr>s_status := SandboxOrphaned, s_updated := now\<rparr>) (db_sandboxes d)\<rparr>"

text \<open>The two ledgers of an attempt that may have had effects nobody saw.\<close>

definition fence_attempt :: "id \<Rightarrow> string \<Rightarrow> string \<Rightarrow> time \<Rightarrow> db \<Rightarrow> db res" where
  "fence_attempt run attempt error now d =
     mark_running_tool_receipts_outcome_unknown run attempt error now (mark_calls_unknown run attempt now d)"

definition mark_run_unclean :: "id \<Rightarrow> time \<Rightarrow> db \<Rightarrow> db" where
  "mark_run_unclean run now =
     set_run run (\<lambda>r. r\<lparr>r_status := RunCleanupRequired, r_updated := now, r_completed := None\<rparr>)"

definition publish_run_event ::
    "id \<Rightarrow> run_status \<Rightarrow> string \<Rightarrow> dict \<Rightarrow> time \<Rightarrow> db \<Rightarrow> (event_row \<times> db) res" where
  "publish_run_event run status ty payload now d =
    bindr (append_event_uncommitted run ty (encode_payload (JObj payload)) now d)
     (\<lambda>(e, _, d1). bindr (update_thread_projection run status ty payload (e_seq e) now d1)
     (\<lambda>d2. Inr (e, d2)))"

definition owned_by :: "id \<Rightarrow> id \<Rightarrow> string \<Rightarrow> nat \<Rightarrow> job_row \<Rightarrow> bool" where
  "owned_by job run owner gen j \<longleftrightarrow>
     j_id j = job \<and> j_run j = run \<and> j_status j = JobLeased \<and> j_owner j = Some owner \<and> j_gen j = gen"

definition quarantine_job :: "string \<Rightarrow> time \<Rightarrow> job_row \<Rightarrow> job_row" where
  "quarantine_job reason now j =
     j\<lparr>j_quarantined := Some now, j_reason := Some reason, j_expires := None, j_updated := now\<rparr>"

definition quarantine_execution_attempt ::
    "ctx \<Rightarrow> id \<Rightarrow> string \<Rightarrow> dict \<Rightarrow> db \<Rightarrow> (event_row \<times> db) res" where
  "quarantine_execution_attempt c run reason payload d =
    (case x_lease c of
       None \<Rightarrow> Inl LeaseFenceError
     | Some l \<Rightarrow>
        if l_run l \<noteq> run then Inl LeaseFenceError
        else run_write_transaction c (Some l) run d (\<lambda>d.
         (let now = x_clock c 1; mine = owned_by (l_job l) run (l_owner l) (l_gen l)
          in bindr (fence_attempt run (attempt_id (l_job l) (l_gen l)) reason now d)
           (\<lambda>d1. bindr (cancel_unstarted_tool_receipts run ''ParentRunCleanupRequired'' now d1)
           (\<lambda>d2. bindr (publish_run_event run RunCleanupRequired ''run.cleanup_required'' payload now
                          (mark_run_unclean run now d2))
           (\<lambda>(e, d3). if count_where mine (db_jobs d3) \<noteq> 1 then Inl LeaseFenceError
                      else Inr (e, set_job mine (quarantine_job reason now) d3)))))))"

definition finish_quarantined :: "time \<Rightarrow> job_row \<Rightarrow> job_row" where
  "finish_quarantined now j =
     j\<lparr>j_status := JobDead, j_updated := now, j_finished := Some now, j_expires := None\<rparr>"

definition confirm_quarantined_cleanup ::
    "ctx \<Rightarrow> id \<Rightarrow> id \<Rightarrow> string \<Rightarrow> nat \<Rightarrow> dict \<Rightarrow> db \<Rightarrow> (event_row option \<times> db) res" where
  "confirm_quarantined_cleanup c run job owner gen payload d =
    (let now = x_clock c 1
     in if \<not> list_ex (\<lambda>j. owned_by job run owner gen j \<and> j_quarantined j \<noteq> None) (db_jobs d) then Inr (None, d)
        else bindr (cancel_unstarted_tool_receipts run ''ParentRunCleanupRequired'' now d)
         (\<lambda>d1. bindr (publish_run_event run RunFailed ''run.failed'' payload now
              (d1\<lparr>db_runs := update_where (\<lambda>r. r_id r = run \<and> r_status r = RunCleanupRequired)
                 (\<lambda>r. r\<lparr>r_status := RunFailed, r_updated := now, r_completed := Some now\<rparr>) (db_runs d1)\<rparr>))
         (\<lambda>(e, d2). Inr (Some e, set_job (\<lambda>j. j_id j = job) (finish_quarantined now) d2))))"

definition ensure_lost_execution_quarantined ::
    "ctx \<Rightarrow> id \<Rightarrow> id \<Rightarrow> string \<Rightarrow> nat \<Rightarrow> db \<Rightarrow> ((bool \<times> event_row option) \<times> db) res" where
  "ensure_lost_execution_quarantined c run job owner gen d =
    (let now = x_clock c 1; attempt = attempt_id job gen
     in case find (owned_by job run owner gen) (db_jobs d) of
          None \<Rightarrow> Inr ((False, None), d)
        | Some j \<Rightarrow>
           if j_quarantined j = None \<and> after (j_expires j) now then Inr ((False, None), d)
           else bindr (fence_attempt run attempt ''execution_lease_expired'' now d)
            (\<lambda>d1. bindr (cancel_unstarted_tool_receipts run ''ParentRunCleanupRequired'' now d1)
            (\<lambda>d2. (let d3 = orphan_sandboxes run attempt now d2;
                       report = sandbox_cleanup_report run attempt d3
                   in if j_quarantined j \<noteq> None then Inr ((True, None), d3)
                      else bindr (publish_run_event run RunCleanupRequired ''run.cleanup_required''
                              (lease_expired_payload report) now
                              (mark_run_unclean run now
                                (set_job (\<lambda>x. j_id x = job) (quarantine_job ''execution_lease_expired'' now) d3)))
                       (\<lambda>(e, d4). Inr ((True, Some e), d4))))))"

subsection \<open>Jobs (\_\_init\_\_.py)\<close>

fun run_kind_text :: "run_kind \<Rightarrow> string" where
  "run_kind_text KindTurn = ''turn''"
| "run_kind_text KindFork = ''fork''"
| "run_kind_text KindChild = ''child''"

definition run_job_input :: "run_row \<Rightarrow> dict" where
  "run_job_input r =
     [(''principal_id'', JStr (r_principal r)), (''goal'', JStr (r_goal r)),
      (''user_input'', JStr (opt_or (r_user_input r) (r_goal r))),
      (''workspace_path'', json_opt (r_workspace r)), (''mode'', JStr (r_mode r)),
      (''history'', r_history r), (''settings'', r_settings r), (''metadata'', r_metadata r),
      (''run_kind'', JStr (run_kind_text (r_kind r))),
      (''root_run_id'', JStr (opt_or (r_root r) (r_id r))),
      (''agent_definition_id'', JStr (opt_or (Some (r_agent_id r)) ''shejane.default'')),
      (''agent_definition_version'', JStr (opt_or (Some (r_agent_version r)) ''1'')),
      (''collaboration_depth'', JInt (r_depth r)), (''collaboration_policy'', r_policy r)]"

definition new_run_job_record ::
    "id \<Rightarrow> string \<Rightarrow> dict \<Rightarrow> dict option \<Rightarrow> time \<Rightarrow> db \<Rightarrow> job_row \<times> db" where
  "new_run_job_record run kind input resume created d =
    (let (i, d1) = new_id ''job'' d
     in (\<lparr>j_id = i, j_run = run, j_kind = kind, j_status = JobPending,
          j_input = encode_payload (JObj input),
          j_resume = map_option (\<lambda>p. encode_payload (JObj p)) resume,
          j_owner = None, j_gen = 0, j_expires = None, j_attempt = 0, j_cancel = None,
          j_quarantined = None, j_reason = None, j_created = created, j_updated = created,
          j_finished = None\<rparr>, d1))"

text \<open>The keys and the \<open>CHECK\<close> on \<open>kind\<close>, and the unique index on active jobs.\<close>

definition insert_run_job :: "job_row \<Rightarrow> db \<Rightarrow> db res" where
  "insert_run_job j d =
    (if j_kind j \<notin> {''start'', ''resume''} \<or> get_run_row d (j_run j) = None \<or>
        list_ex (\<lambda>x. j_id x = j_id j \<or> (active_job j \<and> active_job x \<and> j_run x = j_run j)) (db_jobs d)
     then Inl SqlIntegrityError else Inr (d\<lparr>db_jobs := db_jobs d @ [j]\<rparr>))"

definition active_run_job :: "id \<Rightarrow> db \<Rightarrow> job_row option" where
  "active_run_job run d = find (\<lambda>j. j_run j = run \<and> active_job j) (db_jobs d)"

definition workspace_unauthorized :: "string \<Rightarrow> string option \<Rightarrow> db \<Rightarrow> bool" where
  "workspace_unauthorized owner path d =
    (case path of None \<Rightarrow> False
     | Some p \<Rightarrow> \<not> list_ex (\<lambda>w. ws_principal w = owner \<and> ws_path w = p) (db_workspaces d))"

text \<open>
  \<open>path_gone\<close> is the check of the file system (\<open>_workspace_path_error_sync\<close>): the path is no
  longer the real directory it named.
\<close>

definition workspace_path_error :: "(string \<Rightarrow> bool) \<Rightarrow> string option \<Rightarrow> bool" where
  "workspace_path_error path_gone path = (case path of None \<Rightarrow> False | Some p \<Rightarrow> path_gone p)"

definition enqueue_run_job ::
    "ctx \<Rightarrow> (string \<Rightarrow> bool) \<Rightarrow> id \<Rightarrow> string \<Rightarrow> dict option \<Rightarrow> db \<Rightarrow> (job_row option \<times> db) res" where
  "enqueue_run_job c path_gone run kind resume d =
    (case get_run_row d run of
       None \<Rightarrow> Inr (None, d)
     | Some r \<Rightarrow>
        if workspace_path_error path_gone (r_workspace r) then Inl WorkspaceAdmissionError
        else if workspace_unauthorized (r_principal r) (r_workspace r) d then Inl WorkspaceAdmissionError
        else (case active_run_job run d of
                Some j \<Rightarrow> Inr (Some j, d)
              | None \<Rightarrow>
                 (let (j, d1) = new_run_job_record run kind (run_job_input r) resume (x_clock c 1) d
                  in bindr (insert_run_job j d1) (\<lambda>d2. Inr (Some j, d2)))))"

definition get_active_run_job :: "id \<Rightarrow> db \<Rightarrow> job_row option" where
  "get_active_run_job run d = find (unquarantined_active run) (db_jobs d)"

definition get_run_job :: "id \<Rightarrow> db \<Rightarrow> job_row option" where
  "get_run_job i d = find (\<lambda>j. j_id j = i) (db_jobs d)"

definition run_initial_thread_title_seed :: "id \<Rightarrow> db \<Rightarrow> string option" where
  "run_initial_thread_title_seed run d =
    (case get_run_row d run of
       None \<Rightarrow> None
     | Some r \<Rightarrow>
        (let cmds = select_by cm_created (\<lambda>x. cm_run x = Some run \<and>
               (cm_type x = ''run.start'' \<or> cm_type x = ''run.fork'')) (db_commands d);
             envelope = (case cmds of [] \<Rightarrow> [] | x # _ \<Rightarrow> json_payload (Some (cm_payload x)));
             payload = json_payload (Some (dget envelope ''payload''));
             requested = dget payload ''thread_title''
         in Some (title_text (py_or (py_or requested (json_opt (r_user_input r))) (JStr (r_goal r))))))"

subsection \<open>Expired leases\<close>

text \<open>One iteration of \<open>_requeue_expired_jobs_uncommitted\<close>, on the rows as they were selected.\<close>

definition close_finished :: "run_status \<Rightarrow> job_status \<Rightarrow> time \<Rightarrow> job_row \<Rightarrow> db \<Rightarrow> db res" where
  "close_finished status js now j d =
    bindr (if terminal_run status
           then cancel_unstarted_tool_receipts (j_run j) (ending_error status) now d else Inr d)
     (\<lambda>d1. Inr (set_job (\<lambda>x. j_id x = j_id j \<and> j_status x = JobLeased)
        (\<lambda>x. x\<lparr>j_status := js, j_updated := now, j_finished := Some now, j_owner := None,
               j_expires := None\<rparr>) d1))"

definition quarantine_expired :: "string \<Rightarrow> time \<Rightarrow> job_row \<Rightarrow> db \<Rightarrow> db res" where
  "quarantine_expired attempt now j d =
    bindr (cancel_unstarted_tool_receipts (j_run j) ''ParentRunCleanupRequired'' now d)
     (\<lambda>d1.
       (let d2 = mark_run_unclean (j_run j) now
              (set_job (\<lambda>x. j_id x = j_id j \<and> j_status x = JobLeased) (quarantine_job ''execution_lease_expired'' now) d1);
            report = sandbox_cleanup_report (j_run j) attempt d2
        in bindr (publish_run_event (j_run j) RunCleanupRequired ''run.cleanup_required''
                    (lease_expired_payload report) now d2)
             (\<lambda>(_, d3). Inr d3)))"

definition requeue_expired_job :: "time \<Rightarrow> job_row \<times> run_status \<Rightarrow> db \<Rightarrow> db res" where
  "requeue_expired_job now = (\<lambda>(j, status) d.
    (let attempt = attempt_id (j_id j) (j_gen j)
     in bindr (fence_attempt (j_run j) attempt ''execution_lease_expired'' now d)
      (\<lambda>d1. (let d2 = orphan_sandboxes (j_run j) attempt now d1
             in case settled_job_status status of
                  Some js \<Rightarrow> close_finished status js now j d2
                | None \<Rightarrow> quarantine_expired attempt now j d2))))"

definition lease_expired :: "time \<Rightarrow> job_row \<Rightarrow> bool" where
  "lease_expired now j \<longleftrightarrow> j_status j = JobLeased \<and> (case j_expires j of None \<Rightarrow> False | Some t \<Rightarrow> t \<le> now)"

definition expiry_key :: "job_row \<Rightarrow> time \<times> id" where
  "expiry_key j = ((case j_expires j of None \<Rightarrow> 0 | Some t \<Rightarrow> t), j_id j)"

definition expired_jobs :: "time \<Rightarrow> db \<Rightarrow> (job_row \<times> run_status) list" where
  "expired_jobs now d =
    concat (map (\<lambda>j. case get_run_row d (j_run j) of None \<Rightarrow> [] | Some r \<Rightarrow> [(j, r_status r)])
      (select_by expiry_key (lease_expired now) (db_jobs d)))"

definition requeue_expired_jobs :: "time \<Rightarrow> db \<Rightarrow> db res" where
  "requeue_expired_jobs now d = foldr_res (requeue_expired_job now) (expired_jobs now d) d"

subsection \<open>Claiming, renewing and finishing\<close>

definition dependency_states :: "db \<Rightarrow> id \<Rightarrow> run_status list" where
  "dependency_states d run =
    concat (map (\<lambda>x. case get_run_row d (dp_on x) of None \<Rightarrow> [] | Some r \<Rightarrow> [r_status r])
      (filter (\<lambda>x. dp_child x = run) (db_deps d)))"

definition lost_dependency :: "db \<Rightarrow> id \<Rightarrow> bool" where
  "lost_dependency d run \<longleftrightarrow>
     list_ex (\<lambda>s. s \<in> {RunFailed, RunCanceled, RunCleanupRequired}) (dependency_states d run)"

fun distinct_runs :: "id list \<Rightarrow> id list" where
  "distinct_runs [] = []"
| "distinct_runs (x # xs) = x # filter (\<lambda>y. y \<noteq> x) (distinct_runs xs)"

definition by_job_creation :: "job_row \<Rightarrow> time \<times> id" where
  "by_job_creation j = (j_created j, j_id j)"

definition blocked_runs :: "db \<Rightarrow> id list" where
  "blocked_runs d =
    distinct_runs (map j_run (select_by by_job_creation
      (\<lambda>j. j_status j = JobPending \<and> lost_dependency d (j_run j)) (db_jobs d)))"

definition claimable :: "db \<Rightarrow> job_row \<Rightarrow> bool" where
  "claimable d j \<longleftrightarrow> j_status j = JobPending \<and>
    (case get_run_row d (j_run j) of
       None \<Rightarrow> False
     | Some r \<Rightarrow> r_kind r \<noteq> KindChild \<or> list_all (\<lambda>s. s = RunCompleted) (dependency_states d (j_run j)))"

definition lease_job :: "string \<Rightarrow> time \<Rightarrow> time \<Rightarrow> job_row \<Rightarrow> job_row" where
  "lease_job worker expires now j =
     j\<lparr>j_status := JobLeased, j_owner := Some worker, j_gen := j_gen j + 1, j_expires := Some expires,
       j_attempt := j_attempt j + 1, j_updated := now\<rparr>"

definition claim_run_job :: "ctx \<Rightarrow> string \<Rightarrow> time \<Rightarrow> db \<Rightarrow> (job_row option \<times> db) res" where
  "claim_run_job c worker lease d =
    (let now = x_clock c 1
     in bindr (requeue_expired_jobs now d)
      (\<lambda>d1. bindr (cancel_each (x_clock c) 2 (blocked_runs d1) [] d1)
      (\<lambda>(_, d2). case select_by by_job_creation (claimable d2) (db_jobs d2) of
           [] \<Rightarrow> Inr (None, d2)
         | j # _ \<Rightarrow>
            (let expires = x_clock c (2 + length (blocked_runs d1)) + lease;
                 d3 = set_job (\<lambda>x. j_id x = j_id j \<and> j_status x = JobPending) (lease_job worker expires now) d2;
                 d4 = set_run (j_run j) (\<lambda>r. r\<lparr>r_status := RunRunning, r_updated := now, r_completed := None\<rparr>) d3
             in Inr (get_run_job (j_id j) d4, d4)))))"

definition held_by :: "id \<Rightarrow> string \<Rightarrow> nat \<Rightarrow> time \<Rightarrow> job_row \<Rightarrow> bool" where
  "held_by job owner gen now j \<longleftrightarrow>
     j_id j = job \<and> j_status j = JobLeased \<and> j_owner j = Some owner \<and> j_gen j = gen \<and> after (j_expires j) now"

definition renew_run_job ::
    "ctx \<Rightarrow> id \<Rightarrow> string \<Rightarrow> nat \<Rightarrow> time \<Rightarrow> db \<Rightarrow> (bool \<times> bool) \<times> db" where
  "renew_run_job c job owner gen lease d =
    (let now = x_clock c 1; mine = (\<lambda>j. held_by job owner gen now j \<and> j_quarantined j = None)
     in if count_where mine (db_jobs d) \<noteq> 1 then ((False, False), d)
        else (let d1 = set_job mine (\<lambda>j. j\<lparr>j_expires := Some (x_clock c 2 + lease), j_updated := now\<rparr>) d
              in ((True, case get_run_job job d1 of None \<Rightarrow> False | Some j \<Rightarrow> j_cancel j \<noteq> None), d1)))"

definition finish_run_job ::
    "ctx \<Rightarrow> id \<Rightarrow> string \<Rightarrow> nat \<Rightarrow> job_status \<Rightarrow> db \<Rightarrow> (bool \<times> db) res" where
  "finish_run_job c job owner gen status d =
    (let now = x_clock c 1; mine = held_by job owner gen now
     in if status \<notin> {JobCompleted, JobCanceled, JobDead} then Inl PyValueError
        else Inr (count_where mine (db_jobs d) = 1,
          set_job mine (\<lambda>j. j\<lparr>j_status := status, j_updated := now, j_finished := Some now,
                             j_expires := None\<rparr>) d))"

subsection \<open>Effects\<close>

lemma mark_calls_unknown_effect: "store_effect d (mark_calls_unknown run attempt now d)"
proof (rule store_effect_calls)
  show "calls_evolve d (mark_calls_unknown run attempt now d)"
    by (rule calls.evolves_update
        [where p = "\<lambda>x. c_run x = run \<and> c_attempt x = attempt \<and> call_open (c_status x)"
          and f = "\<lambda>x. x\<lparr>c_status := CallOutcomeUnknown, c_completed := Some now\<rparr>"])
      (auto simp: mark_calls_unknown_def settled_call_def call_open_def
        intro!: r_into_rtranclp call_step.settle)
qed (simp_all add: mark_calls_unknown_def same_log_def)

lemma mark_calls_unknown_simps [simp]:
  "db_jobs (mark_calls_unknown run attempt now d) = db_jobs d"
  "db_runs (mark_calls_unknown run attempt now d) = db_runs d"
  "db_deps (mark_calls_unknown run attempt now d) = db_deps d"
  "db_receipts (mark_calls_unknown run attempt now d) = db_receipts d"
  by (simp_all add: mark_calls_unknown_def)

lemma orphan_sandboxes_simps [simp]:
  "db_jobs (orphan_sandboxes run attempt now d) = db_jobs d"
  "db_runs (orphan_sandboxes run attempt now d) = db_runs d"
  "db_deps (orphan_sandboxes run attempt now d) = db_deps d"
  "db_receipts (orphan_sandboxes run attempt now d) = db_receipts d"
  "db_calls (orphan_sandboxes run attempt now d) = db_calls d"
  "store_effect d (orphan_sandboxes run attempt now d)"
proof -
  show "store_effect d (orphan_sandboxes run attempt now d)"
    by (rule store_effect_other) (simp_all add: orphan_sandboxes_def same_log_def)
qed (simp_all add: orphan_sandboxes_def)

lemma mark_run_unclean_simps [simp]:
  "db_jobs (mark_run_unclean run now d) = db_jobs d"
  "db_receipts (mark_run_unclean run now d) = db_receipts d"
  "db_calls (mark_run_unclean run now d) = db_calls d"
  "store_effect d (mark_run_unclean run now d)"
proof -
  show "store_effect d (mark_run_unclean run now d)"
    by (rule store_effect_other) (simp_all add: mark_run_unclean_def same_log_def)
qed (simp_all add: mark_run_unclean_def)

lemma fence_attempt_inv:
  assumes "fence_attempt run attempt error now d = Inr d'"
  shows "store_effect d d'" "db_jobs d' = db_jobs d" "db_runs d' = db_runs d" "db_deps d' = db_deps d"
    "db_calls d' = db_calls (mark_calls_unknown run attempt now d)"
    "db_receipts d' = update_where (\<lambda>t. t_run t = run \<and> t_attempt t = attempt \<and> t_status t = ToolRunning)
       (as_outcome_unknown error now) (db_receipts d)"
proof -
  note m = mark_running_effect [OF assms [unfolded fence_attempt_def]]
  have w: "without_receipts d' = without_receipts (mark_calls_unknown run attempt now d)"
    using m by (simp add: receipt_effect_def)
  show "store_effect d d'"
    using mark_calls_unknown_effect store_effect_receipts m by (blast intro: store_effect_trans)
  show "db_jobs d' = db_jobs d" "db_runs d' = db_runs d" "db_deps d' = db_deps d"
    "db_calls d' = db_calls (mark_calls_unknown run attempt now d)"
    using without_receipts_frame [OF w] by simp_all
  show "db_receipts d' = update_where (\<lambda>t. t_run t = run \<and> t_attempt t = attempt \<and> t_status t = ToolRunning)
       (as_outcome_unknown error now) (db_receipts d)"
    using m by simp
qed

lemma cancel_unstarted_inv:
  assumes "cancel_unstarted_tool_receipts run err now d = Inr d'"
  shows "store_effect d d'" "db_jobs d' = db_jobs d" "db_runs d' = db_runs d" "db_deps d' = db_deps d"
    "db_calls d' = db_calls d"
    "db_receipts d' = update_where (\<lambda>t. t_run t = run \<and> unstarted t) (as_canceled err now) (db_receipts d)"
proof -
  note m = cancel_unstarted_effect [OF assms]
  have w: "without_receipts d' = without_receipts d" using m by (simp add: receipt_effect_def)
  show "store_effect d d'" using m by (simp add: store_effect_receipts)
  show "db_jobs d' = db_jobs d" "db_runs d' = db_runs d" "db_deps d' = db_deps d" "db_calls d' = db_calls d"
    using without_receipts_frame [OF w] by simp_all
  show "db_receipts d' = update_where (\<lambda>t. t_run t = run \<and> unstarted t) (as_canceled err now) (db_receipts d)"
    using m by simp
qed

lemma publish_run_event_inv:
  assumes "publish_run_event run status ty payload now d = Inr (e, d')"
  shows "store_effect d d'" "without_log d' = without_log d"
proof -
  obtain pe d1 where d1: "append_event_uncommitted run ty (encode_payload (JObj payload)) now d = Inr (e, pe, d1)"
    and d2: "update_thread_projection run status ty payload (e_seq e) now d1 = Inr d'"
    using assms by (auto simp: publish_run_event_def bindr_Inr_iff simp del: encode_payload.simps)
  have "log_effect d d'"
    using append_event_effect [OF d1] update_thread_projection_effect [OF d2] by (rule log_effect_trans)
  then show "store_effect d d'" "without_log d' = without_log d"
    by (auto simp: store_effect_log log_effect_def)
qed

lemmas publish_run_event_frame = publish_run_event_inv(2) [THEN without_log_frame(1)]
  publish_run_event_inv(2) [THEN without_log_frame(2)] publish_run_event_inv(2) [THEN without_log_frame(4)]
  publish_run_event_inv(2) [THEN without_log_frame(5)] publish_run_event_inv(2) [THEN without_log_frame(9)]

lemma quarantine_job_effect:
  assumes "\<And>j. jobs_ok d \<Longrightarrow> j \<in> set (db_jobs d) \<Longrightarrow> p j \<Longrightarrow> j_status j = JobLeased"
  shows "store_effect d (set_job p (quarantine_job reason now) d)"
  by (rule set_job_effect) (use assms in \<open>auto simp: quarantine_job_def job_ok_def\<close>)

lemma finish_job_effect:
  assumes "\<And>j. jobs_ok d \<Longrightarrow> j \<in> set (db_jobs d) \<Longrightarrow> p j \<Longrightarrow> j_status j = JobLeased"
    and "\<And>j. j_id (f j) = j_id j \<and> j_run (f j) = j_run j \<and> settled_job (j_status (f j)) \<and>
      j_gen (f j) = j_gen j \<and> j_attempt (f j) = j_attempt j"
  shows "store_effect d (set_job p f d)"
proof (rule set_job_effect)
  fix j assume j: "jobs_ok d" "j \<in> set (db_jobs d)" "p j"
  then show "job_step\<^sup>*\<^sup>* (j_status j) (j_status (f j)) \<and> j_id (f j) = j_id j \<and> j_run (f j) = j_run j"
    using assms(1) [OF j] assms(2) [of j] by auto
  assume "job_ok j"
  then show "job_ok (f j)" using assms(2) [of j] by (auto simp: job_ok_def settled_job_def)
qed

lemma quarantine_execution_attempt_effect:
  assumes "quarantine_execution_attempt c run reason payload d = Inr (e, d')"
  shows "store_effect d d'"
proof -
  obtain l d1 d2 d3 where l: "x_lease c = Some l"
    and h1: "fence_attempt run (attempt_id (l_job l) (l_gen l)) reason (x_clock c 1) d = Inr d1"
    and h2: "cancel_unstarted_tool_receipts run ''ParentRunCleanupRequired'' (x_clock c 1) d1 = Inr d2"
    and h3: "publish_run_event run RunCleanupRequired ''run.cleanup_required'' payload (x_clock c 1)
        (mark_run_unclean run (x_clock c 1) d2) = Inr (e, d3)"
    and d': "d' = set_job (owned_by (l_job l) run (l_owner l) (l_gen l)) (quarantine_job reason (x_clock c 1)) d3"
    using assms
    by (auto simp: quarantine_execution_attempt_def run_write_transaction_Inr Let_def bindr_Inr_iff
        split: option.splits if_splits)
  note fence_attempt_inv(1) [OF h1]
  also note cancel_unstarted_inv(1) [OF h2]
  also note mark_run_unclean_simps(4)
  also note publish_run_event_inv(1) [OF h3]
  also have "store_effect d3 d'"
    unfolding d' by (rule quarantine_job_effect) (simp add: owned_by_def)
  finally show ?thesis .
qed

lemma confirm_quarantined_cleanup_cases:
  assumes "confirm_quarantined_cleanup c run job owner gen payload d = Inr (r, d')"
  obtains (refused) "\<forall>j\<in>set (db_jobs d). \<not> (owned_by job run owner gen j \<and> j_quarantined j \<noteq> None)"
      "r = None" "d' = d"
  | (closed) j e d1 d2 where "j \<in> set (db_jobs d)" "owned_by job run owner gen j" "j_quarantined j \<noteq> None"
      "r = Some e"
      "cancel_unstarted_tool_receipts run ''ParentRunCleanupRequired'' (x_clock c 1) d = Inr d1"
      "publish_run_event run RunFailed ''run.failed'' payload (x_clock c 1)
         (d1\<lparr>db_runs := update_where (\<lambda>r. r_id r = run \<and> r_status r = RunCleanupRequired)
            (\<lambda>r. r\<lparr>r_status := RunFailed, r_updated := x_clock c 1, r_completed := Some (x_clock c 1)\<rparr>)
            (db_runs d1)\<rparr>) = Inr (e, d2)"
      "d' = set_job (\<lambda>j. j_id j = job) (finish_quarantined (x_clock c 1)) d2"
proof (cases "list_ex (\<lambda>j. owned_by job run owner gen j \<and> j_quarantined j \<noteq> None) (db_jobs d)")
  case False
  have "(r, d') = (None, d)"
    using assms False unfolding confirm_quarantined_cleanup_def Let_def by simp
  moreover have "\<forall>j\<in>set (db_jobs d). \<not> (owned_by job run owner gen j \<and> j_quarantined j \<noteq> None)"
    using False unfolding list_ex_iff by blast
  ultimately show thesis by (intro refused) simp_all
next
  case True
  then obtain j where j: "j \<in> set (db_jobs d)" "owned_by job run owner gen j" "j_quarantined j \<noteq> None"
    unfolding list_ex_iff by blast
  note body = assms [unfolded confirm_quarantined_cleanup_def Let_def if_not_P [OF not_not [THEN iffD2, OF True]]]
  from body obtain d1 where h1: "cancel_unstarted_tool_receipts run ''ParentRunCleanupRequired'' (x_clock c 1) d = Inr d1"
    by (rule bindrE)
  with body show thesis by (auto simp: bindr_Inr_iff intro: closed [OF j _ h1])
qed

lemma owned_job_leased:
  assumes "jobs_ok d" "j \<in> set (db_jobs d)" "owned_by job run owner gen j" "x \<in> set (db_jobs d)" "j_id x = job"
  shows "x = j" "j_status x = JobLeased"
  using job_same_row [of d x j] assms by (auto simp: jobs_ok_def owned_by_def)

lemma confirm_quarantined_cleanup_effect:
  assumes "confirm_quarantined_cleanup c run job owner gen payload d = Inr (r, d')"
  shows "store_effect d d'"
  using assms
proof (cases rule: confirm_quarantined_cleanup_cases)
  case refused
  then show ?thesis by simp
next
  case (closed j e d1 d2)
  let ?s = "d1\<lparr>db_runs := update_where (\<lambda>r. r_id r = run \<and> r_status r = RunCleanupRequired)
      (\<lambda>r. r\<lparr>r_status := RunFailed, r_updated := x_clock c 1, r_completed := Some (x_clock c 1)\<rparr>) (db_runs d1)\<rparr>"
  have jobs: "db_jobs d2 = db_jobs d"
    using cancel_unstarted_inv(2) [OF closed(5)] publish_run_event_frame(2) [OF closed(6)] by simp
  note cancel_unstarted_inv(1) [OF closed(5)]
  also have "store_effect d1 ?s" by (rule store_effect_other) (simp_all add: same_log_def)
  also note publish_run_event_inv(1) [OF closed(6)]
  also have "store_effect d2 d'"
    unfolding closed(7)
  proof (rule finish_job_effect)
    fix x assume "jobs_ok d2" "x \<in> set (db_jobs d2)" "j_id x = job"
    then show "j_status x = JobLeased" using owned_job_leased(2) [of d2 j] closed(1,2) jobs by simp
  qed (simp add: finish_quarantined_def settled_job_def)
  finally show ?thesis .
qed

lemma ensure_lost_execution_quarantined_cases:
  assumes "ensure_lost_execution_quarantined c run job owner gen d = Inr (r, d')"
  obtains (refused) "r = (False, None)" "d' = d"
  | (fenced) j d1 d2 e where "find (owned_by job run owner gen) (db_jobs d) = Some j"
      "j_quarantined j \<noteq> None \<or> \<not> after (j_expires j) (x_clock c 1)" "r = (True, e)"
      "fence_attempt run (attempt_id job gen) ''execution_lease_expired'' (x_clock c 1) d = Inr d1"
      "cancel_unstarted_tool_receipts run ''ParentRunCleanupRequired'' (x_clock c 1) d1 = Inr d2"
      "(j_quarantined j \<noteq> None \<and> d' = orphan_sandboxes run (attempt_id job gen) (x_clock c 1) d2) \<or>
       (j_quarantined j = None \<and> (\<exists>e payload. publish_run_event run RunCleanupRequired ''run.cleanup_required'' payload (x_clock c 1)
          (mark_run_unclean run (x_clock c 1) (set_job (\<lambda>x. j_id x = job)
             (quarantine_job ''execution_lease_expired'' (x_clock c 1))
             (orphan_sandboxes run (attempt_id job gen) (x_clock c 1) d2))) = Inr (e, d')))"
proof (cases "find (owned_by job run owner gen) (db_jobs d)")
  case None
  then show thesis using assms refused by (simp add: ensure_lost_execution_quarantined_def)
next
  case (Some j)
  show thesis
  proof (cases "j_quarantined j = None \<and> after (j_expires j) (x_clock c 1)")
    case True
    then show thesis using assms refused Some by (simp add: ensure_lost_execution_quarantined_def Let_def)
  next
    case False
    note body = assms [unfolded ensure_lost_execution_quarantined_def Let_def Some option.case if_not_P [OF False]]
    from body obtain d1 where h1: "fence_attempt run (attempt_id job gen) ''execution_lease_expired'' (x_clock c 1) d = Inr d1"
      by (rule bindrE)
    with body obtain d2 where h2: "cancel_unstarted_tool_receipts run ''ParentRunCleanupRequired'' (x_clock c 1) d1 = Inr d2"
      by (auto simp: bindr_Inr_iff)
    have lost: "j_quarantined j \<noteq> None \<or> \<not> after (j_expires j) (x_clock c 1)" using False by simp
    show thesis
    proof (cases "j_quarantined j")
      case None
      then obtain e where "r = (True, Some e)" "publish_run_event run RunCleanupRequired ''run.cleanup_required''
          (lease_expired_payload (sandbox_cleanup_report run (attempt_id job gen)
             (orphan_sandboxes run (attempt_id job gen) (x_clock c 1) d2))) (x_clock c 1)
          (mark_run_unclean run (x_clock c 1) (set_job (\<lambda>x. j_id x = job)
             (quarantine_job ''execution_lease_expired'' (x_clock c 1))
             (orphan_sandboxes run (attempt_id job gen) (x_clock c 1) d2))) = Inr (e, d')"
        using body h1 h2 by (auto simp: bindr_Inr_iff)
      then show thesis using fenced [OF Some lost _ h1 h2] None by blast
    next
      case (Some q)
      then have "r = (True, None)" "d' = orphan_sandboxes run (attempt_id job gen) (x_clock c 1) d2"
        using body h1 h2 by auto
      then show thesis using fenced [OF \<open>find _ _ = Some j\<close> lost _ h1 h2] Some by simp
    qed
  qed
qed

lemma ensure_lost_execution_quarantined_effect:
  assumes "ensure_lost_execution_quarantined c run job owner gen d = Inr (r, d')"
  shows "store_effect d d'"
  using assms
proof (cases rule: ensure_lost_execution_quarantined_cases)
  case refused
  then show ?thesis by simp
next
  case (fenced j d1 d2 e)
  let ?o = "orphan_sandboxes run (attempt_id job gen) (x_clock c 1) d2"
  have jobs: "db_jobs ?o = db_jobs d"
    using fence_attempt_inv(2) [OF fenced(4)] cancel_unstarted_inv(2) [OF fenced(5)] by simp
  have j: "j \<in> set (db_jobs d)" "owned_by job run owner gen j" using find_SomeD [OF fenced(1)] by auto
  have q: "store_effect ?o (set_job (\<lambda>x. j_id x = job) (quarantine_job ''execution_lease_expired'' (x_clock c 1)) ?o)"
  proof (rule quarantine_job_effect)
    fix x assume "jobs_ok ?o" "x \<in> set (db_jobs ?o)" "j_id x = job"
    then show "j_status x = JobLeased" using owned_job_leased(2) [of ?o j] j jobs by simp
  qed
  note fence_attempt_inv(1) [OF fenced(4)]
  also note cancel_unstarted_inv(1) [OF fenced(5)]
  also note orphan_sandboxes_simps(6)
  also have "store_effect ?o d'"
    using fenced(6)
  proof (elim disjE conjE exE)
    fix e payload
    assume p: "publish_run_event run RunCleanupRequired ''run.cleanup_required'' payload (x_clock c 1)
        (mark_run_unclean run (x_clock c 1) (set_job (\<lambda>x. j_id x = job)
          (quarantine_job ''execution_lease_expired'' (x_clock c 1)) ?o)) = Inr (e, d')"
    note q
    also note mark_run_unclean_simps(4)
    also note publish_run_event_inv(1) [OF p]
    finally show ?thesis .
  qed simp
  finally show ?thesis .
qed

lemma new_run_job_record_simps [simp]:
  "db_jobs (snd (new_run_job_record run kind input resume created d)) = db_jobs d"
  "db_runs (snd (new_run_job_record run kind input resume created d)) = db_runs d"
  "store_effect d (snd (new_run_job_record run kind input resume created d))"
  "j_run (fst (new_run_job_record run kind input resume created d)) = run"
  "j_kind (fst (new_run_job_record run kind input resume created d)) = kind"
  "j_status (fst (new_run_job_record run kind input resume created d)) = JobPending"
  "job_ok (fst (new_run_job_record run kind input resume created d))"
proof -
  show "store_effect d (snd (new_run_job_record run kind input resume created d))"
    using new_id_effect [of d "''job''"] by (simp add: new_run_job_record_def case_prod_beta)
qed (simp_all add: new_run_job_record_def case_prod_beta new_id_def job_ok_def)

lemma insert_run_job_effect:
  assumes "insert_run_job j d = Inr d'" "job_ok j"
  shows "store_effect d d'"
proof (rule store_effect_jobs)
  have d': "d' = d\<lparr>db_jobs := db_jobs d @ [j]\<rparr>" and new: "j_id j \<notin> j_id ` set (db_jobs d)"
    and free: "active_job j \<Longrightarrow> count_where (\<lambda>x. j_run x = j_run j \<and> active_job x) (db_jobs d) = 0"
    using assms(1) by (auto simp: insert_run_job_def list_ex_iff count_where_zero split: if_splits)
  have "one_active d'" if "one_active d"
    unfolding one_active_def d'
  proof
    fix run
    show "count_where (\<lambda>x. j_run x = run \<and> active_job x) (db_jobs (d\<lparr>db_jobs := db_jobs d @ [j]\<rparr>)) \<le> 1"
      using that free by (cases "j_run j = run \<and> active_job j") (auto simp: one_active_def)
  qed
  then show "job_effect d d'"
    using new assms(2) by (auto simp: job_effect_def jobs_ok_def d' intro: jobs.evolves_append)
  show "same_log d d'" "db_calls d' = db_calls d" by (simp_all add: d' same_log_def)
qed

lemma enqueue_run_job_effect:
  assumes "enqueue_run_job c pg run kind resume d = Inr (r, d')"
  shows "store_effect d d'"
proof -
  have "store_effect d d'" if "insert_run_job (fst (new_run_job_record run kind i resume n d))
      (snd (new_run_job_record run kind i resume n d)) = Inr d'" for i n
    using new_run_job_record_simps(3) insert_run_job_effect [OF that new_run_job_record_simps(7)]
    by (rule store_effect_trans)
  then show ?thesis
    using assms
    by (auto simp: enqueue_run_job_def bindr_Inr_iff case_prod_beta Let_def split: option.splits if_splits)
qed

lemma settled_job_status_settled: "settled_job_status s = Some js \<Longrightarrow> settled_job js"
  by (auto simp: settled_job_status_def settled_job_def split: run_status.splits)

lemma cancel_on_ending_inv2:
  assumes "(if t then cancel_unstarted_tool_receipts run err now d else Inr d) = Inr d'"
  shows "store_effect d d'" "db_jobs d' = db_jobs d" "db_runs d' = db_runs d" "db_deps d' = db_deps d"
    "db_calls d' = db_calls d"
    "db_receipts d' = (if t then update_where (\<lambda>t. t_run t = run \<and> unstarted t) (as_canceled err now) (db_receipts d)
       else db_receipts d)"
proof -
  have "cancel_unstarted_tool_receipts run err now d = Inr d'" if t using assms that by simp
  note c = cancel_unstarted_inv [OF this]
  have same: "d' = d" if "\<not> t" using assms that by simp
  show "store_effect d d'" "db_jobs d' = db_jobs d" "db_runs d' = db_runs d" "db_deps d' = db_deps d"
    "db_calls d' = db_calls d"
    using c(1-5) same by (cases t; blast)+
  show "db_receipts d' = (if t then update_where (\<lambda>t. t_run t = run \<and> unstarted t) (as_canceled err now) (db_receipts d)
       else db_receipts d)"
    using c(6) same by (cases t) auto
qed

lemma close_finished_inv:
  assumes "close_finished status js now j d = Inr d'" "settled_job js"
  shows "store_effect d d'" "db_calls d' = db_calls d" "db_deps d' = db_deps d" "db_runs d' = db_runs d"
    "db_jobs d' = update_where (\<lambda>x. j_id x = j_id j \<and> j_status x = JobLeased)
        (\<lambda>x. x\<lparr>j_status := js, j_updated := now, j_finished := Some now, j_owner := None,
               j_expires := None\<rparr>) (db_jobs d)"
    "db_receipts d' = (if terminal_run status
       then update_where (\<lambda>t. t_run t = j_run j \<and> unstarted t) (as_canceled (ending_error status) now) (db_receipts d)
       else db_receipts d)"
proof -
  obtain d1 where
    h: "(if terminal_run status then cancel_unstarted_tool_receipts (j_run j) (ending_error status) now d else Inr d) = Inr d1"
    and d': "d' = set_job (\<lambda>x. j_id x = j_id j \<and> j_status x = JobLeased)
        (\<lambda>x. x\<lparr>j_status := js, j_updated := now, j_finished := Some now, j_owner := None, j_expires := None\<rparr>) d1"
    using assms(1) [unfolded close_finished_def] by (rule bindrE) simp
  note i = cancel_on_ending_inv2 [OF h]
  note i(1)
  also have "store_effect d1 d'"
    unfolding d' by (rule finish_job_effect) (simp_all add: assms(2))
  finally show "store_effect d d'" .
  show "db_calls d' = db_calls d" "db_deps d' = db_deps d" "db_runs d' = db_runs d"
    "db_jobs d' = update_where (\<lambda>x. j_id x = j_id j \<and> j_status x = JobLeased)
        (\<lambda>x. x\<lparr>j_status := js, j_updated := now, j_finished := Some now, j_owner := None,
               j_expires := None\<rparr>) (db_jobs d)"
    "db_receipts d' = (if terminal_run status
       then update_where (\<lambda>t. t_run t = j_run j \<and> unstarted t) (as_canceled (ending_error status) now) (db_receipts d)
       else db_receipts d)"
    unfolding d' using i(2-6) by simp_all
qed

lemma quarantine_expired_inv:
  assumes "quarantine_expired attempt now j d = Inr d'"
  shows "store_effect d d'" "db_calls d' = db_calls d" "db_deps d' = db_deps d"
    "db_runs d' = db_runs (mark_run_unclean (j_run j) now d)"
    "db_jobs d' = update_where (\<lambda>x. j_id x = j_id j \<and> j_status x = JobLeased)
        (quarantine_job ''execution_lease_expired'' now) (db_jobs d)"
    "db_receipts d' = update_where (\<lambda>t. t_run t = j_run j \<and> unstarted t)
        (as_canceled ''ParentRunCleanupRequired'' now) (db_receipts d)"
proof -
  obtain d1 e payload where h: "cancel_unstarted_tool_receipts (j_run j) ''ParentRunCleanupRequired'' now d = Inr d1"
    and p: "publish_run_event (j_run j) RunCleanupRequired ''run.cleanup_required'' payload now
      (mark_run_unclean (j_run j) now
        (set_job (\<lambda>x. j_id x = j_id j \<and> j_status x = JobLeased) (quarantine_job ''execution_lease_expired'' now) d1)) = Inr (e, d')"
    using assms by (auto simp: quarantine_expired_def Let_def bindr_Inr_iff)
  let ?q = "set_job (\<lambda>x. j_id x = j_id j \<and> j_status x = JobLeased) (quarantine_job ''execution_lease_expired'' now) d1"
  note i = cancel_unstarted_inv [OF h]
  note i(1)
  also have "store_effect d1 ?q" by (rule quarantine_job_effect) simp
  also note mark_run_unclean_simps(4)
  also note publish_run_event_inv(1) [OF p]
  finally show "store_effect d d'" .
  show "db_calls d' = db_calls d" "db_deps d' = db_deps d"
    "db_runs d' = db_runs (mark_run_unclean (j_run j) now d)"
    "db_jobs d' = update_where (\<lambda>x. j_id x = j_id j \<and> j_status x = JobLeased)
        (quarantine_job ''execution_lease_expired'' now) (db_jobs d)"
    "db_receipts d' = update_where (\<lambda>t. t_run t = j_run j \<and> unstarted t)
        (as_canceled ''ParentRunCleanupRequired'' now) (db_receipts d)"
    using i(2-6) publish_run_event_frame [OF p] by (simp_all add: mark_run_unclean_def)
qed

text \<open>One expired row: the attempt is fenced, then the job is closed or quarantined.\<close>

lemma requeue_expired_job_cases:
  assumes "requeue_expired_job now (j, status) d = Inr d'"
  obtains d1 js where "fence_attempt (j_run j) (attempt_id (j_id j) (j_gen j)) ''execution_lease_expired'' now d = Inr d1"
      "settled_job_status status = Some js"
      "close_finished status js now j (orphan_sandboxes (j_run j) (attempt_id (j_id j) (j_gen j)) now d1) = Inr d'"
  | d1 where "fence_attempt (j_run j) (attempt_id (j_id j) (j_gen j)) ''execution_lease_expired'' now d = Inr d1"
      "settled_job_status status = None"
      "quarantine_expired (attempt_id (j_id j) (j_gen j)) now j
         (orphan_sandboxes (j_run j) (attempt_id (j_id j) (j_gen j)) now d1) = Inr d'"
  using assms by (cases "settled_job_status status") (auto simp: requeue_expired_job_def Let_def bindr_Inr_iff)

lemma requeue_expired_job_effect:
  assumes "requeue_expired_job now (j, status) d = Inr d'"
  shows "store_effect d d'"
  using assms
proof (cases rule: requeue_expired_job_cases)
  case (1 d1 js)
  note fence_attempt_inv(1) [OF 1(1)]
  also note orphan_sandboxes_simps(6)
  also note close_finished_inv(1) [OF 1(3) settled_job_status_settled [OF 1(2)]]
  finally show ?thesis .
next
  case (2 d1)
  note fence_attempt_inv(1) [OF 2(1)]
  also note orphan_sandboxes_simps(6)
  also note quarantine_expired_inv(1) [OF 2(3)]
  finally show ?thesis .
qed

lemma requeue_expired_jobs_effect:
  assumes "requeue_expired_jobs now d = Inr d'"
  shows "store_effect d d'"
  by (rule foldr_res_invariant [where I = "store_effect d", OF assms [unfolded requeue_expired_jobs_def]])
    (auto intro: store_effect_trans requeue_expired_job_effect)

lemma lease_job_effect:
  "store_effect d (set_job (\<lambda>x. j_id x = i \<and> j_status x = JobPending) (lease_job worker expires now) d)"
  by (rule set_job_effect) (auto simp: lease_job_def job_ok_def)

lemma claim_run_job_cases:
  assumes "claim_run_job c worker lease d = Inr (r, d')"
  obtains d1 states d2 where "requeue_expired_jobs (x_clock c 1) d = Inr d1"
      "cancel_each (x_clock c) 2 (blocked_runs d1) [] d1 = Inr (states, d2)"
      "\<forall>j\<in>set (db_jobs d2). \<not> claimable d2 j" "r = None" "d' = d2"
  | d1 states d2 j d3 expires where "requeue_expired_jobs (x_clock c 1) d = Inr d1"
      "cancel_each (x_clock c) 2 (blocked_runs d1) [] d1 = Inr (states, d2)"
      "j \<in> set (db_jobs d2)" "claimable d2 j"
      "expires = x_clock c (2 + length (blocked_runs d1)) + lease"
      "d3 = set_job (\<lambda>x. j_id x = j_id j \<and> j_status x = JobPending) (lease_job worker expires (x_clock c 1)) d2"
      "d' = set_run (j_run j) (\<lambda>r. r\<lparr>r_status := RunRunning, r_updated := x_clock c 1, r_completed := None\<rparr>) d3"
      "r = get_run_job (j_id j) d'"
proof -
  note b0 = assms [unfolded claim_run_job_def Let_def]
  from b0 obtain d1 where d1: "requeue_expired_jobs (x_clock c 1) d = Inr d1" by (rule bindrE)
  note b1 = b0 [unfolded d1 bindr_simps]
  from b1 obtain x where "cancel_each (x_clock c) 2 (blocked_runs d1) [] d1 = Inr x" by (rule bindrE)
  then obtain states d2 where d2: "cancel_each (x_clock c) 2 (blocked_runs d1) [] d1 = Inr (states, d2)"
    by (cases x) simp
  note b2 = b1 [unfolded d2 bindr_simps prod.case]
  show thesis
  proof (cases "select_by by_job_creation (claimable d2) (db_jobs d2)")
    case Nil
    then have "r = None" "d' = d2" using b2 by simp_all
    then show thesis using that(1) [OF d1 d2] Nil by (simp add: select_by_Nil_iff)
  next
    case (Cons j js)
    then have "j \<in> set (select_by by_job_creation (claimable d2) (db_jobs d2))" by simp
    then have "j \<in> set (db_jobs d2)" "claimable d2 j" unfolding set_select_by by blast+
    then show thesis by (rule that(2) [OF d1 d2 _ _ refl refl]) (use b2 Cons in auto)
  qed
qed

lemma set_run_effect: "store_effect d (set_run run f d)"
  by (rule store_effect_other) (simp_all add: same_log_def)

lemma claim_run_job_effect:
  assumes "claim_run_job c worker lease d = Inr (r, d')"
  shows "store_effect d d'"
  using assms
proof (cases rule: claim_run_job_cases)
  case (1 d1 states d2)
  show ?thesis
    unfolding 1(5) by (rule store_effect_trans [OF requeue_expired_jobs_effect [OF 1(1)] cancel_each_effect [OF 1(2)]])
next
  case (2 d1 states d2 j d3 expires)
  note requeue_expired_jobs_effect [OF 2(1)]
  also note cancel_each_effect [OF 2(2)]
  also note lease_job_effect
  also note set_run_effect
  finally show ?thesis unfolding 2(6,7) .
qed

lemma renew_run_job_effect: "store_effect d (snd (renew_run_job c job owner gen lease d))"
proof (cases "count_where (\<lambda>j. held_by job owner gen (x_clock c 1) j \<and> j_quarantined j = None) (db_jobs d) \<noteq> 1")
  case False
  have "store_effect d (set_job (\<lambda>j. held_by job owner gen (x_clock c 1) j \<and> j_quarantined j = None)
      (\<lambda>j. j\<lparr>j_expires := Some (x_clock c 2 + lease), j_updated := x_clock c 1\<rparr>) d)"
    by (rule set_job_effect) (auto simp: held_by_def job_ok_def)
  then show ?thesis using False by (simp add: renew_run_job_def Let_def)
qed (simp add: renew_run_job_def Let_def)

lemma finish_run_job_effect:
  assumes "finish_run_job c job owner gen status d = Inr (b, d')"
  shows "store_effect d d'"
proof -
  have d': "d' = set_job (held_by job owner gen (x_clock c 1))
      (\<lambda>j. j\<lparr>j_status := status, j_updated := x_clock c 1, j_finished := Some (x_clock c 1), j_expires := None\<rparr>) d"
    and s: "settled_job status"
    using assms by (auto simp: finish_run_job_def Let_def settled_job_def split: if_splits)
  show ?thesis
    unfolding d' by (rule finish_job_effect) (simp_all add: held_by_def s)
qed

subsection \<open>What an expired attempt leaves behind\<close>

text \<open>No model call of the attempt is open and no tool call of it is running.\<close>

definition attempt_quiet :: "id \<Rightarrow> string \<Rightarrow> db \<Rightarrow> bool" where
  "attempt_quiet run attempt d \<longleftrightarrow>
    (\<forall>x\<in>set (db_calls d). c_run x = run \<and> c_attempt x = attempt \<longrightarrow> \<not> call_open (c_status x)) \<and>
    (\<forall>t\<in>set (db_receipts d). t_run t = run \<and> t_attempt t = attempt \<longrightarrow> t_status t \<noteq> ToolRunning)"

text \<open>The job can be neither claimed nor executed any more.\<close>

definition job_closed :: "id \<Rightarrow> db \<Rightarrow> bool" where
  "job_closed i d \<longleftrightarrow> (\<forall>x\<in>set (db_jobs d). j_id x = i \<longrightarrow> j_status x \<noteq> JobPending \<and>
     (j_status x = JobLeased \<longrightarrow> j_quarantined x \<noteq> None \<and> j_expires x = None))"

lemma attempt_quiet_cancel:
  assumes "attempt_quiet run attempt d" "db_calls d' = db_calls d"
    and "db_receipts d' = update_where p (as_canceled err now) (db_receipts d)"
  shows "attempt_quiet run attempt d'"
  using assms unfolding attempt_quiet_def assms(2,3) ball_update_where by (auto simp: as_canceled_def)

lemma attempt_quiet_same:
  "attempt_quiet run attempt d \<Longrightarrow> db_calls d' = db_calls d \<Longrightarrow> db_receipts d' = db_receipts d \<Longrightarrow>
    attempt_quiet run attempt d'"
  by (simp add: attempt_quiet_def)

lemma attempt_quiet_fence:
  assumes "attempt_quiet run attempt d" "fence_attempt run' attempt' err now d = Inr d'"
  shows "attempt_quiet run attempt d'"
  using assms(1)
  unfolding attempt_quiet_def fence_attempt_inv(5,6) [OF assms(2)] mark_calls_unknown_def db.simps ball_update_where
  by (auto simp: as_outcome_unknown_def call_open_def)

lemma attempt_quiet_fenced:
  assumes "fence_attempt run attempt err now d = Inr d'"
  shows "attempt_quiet run attempt d'"
  unfolding attempt_quiet_def fence_attempt_inv(5,6) [OF assms] mark_calls_unknown_def db.simps ball_update_where
  by (auto simp: as_outcome_unknown_def call_open_def)

lemma job_closed_update:
  assumes "job_closed i d" "db_jobs d' = update_where p f (db_jobs d)"
    and "\<And>j. j \<in> set (db_jobs d) \<Longrightarrow> p j \<Longrightarrow> j_id (f j) = i \<Longrightarrow> j_status j \<noteq> JobPending \<Longrightarrow>
      j_id j = i \<and> (settled_job (j_status (f j)) \<or>
        (j_status (f j) = j_status j \<and> (j_quarantined j \<noteq> None \<longrightarrow> j_quarantined (f j) \<noteq> None) \<and>
         (j_expires j = None \<longrightarrow> j_expires (f j) = None)))"
    and "\<And>j. j \<in> set (db_jobs d) \<Longrightarrow> p j \<Longrightarrow> j_id (f j) = j_id j"
  shows "job_closed i d'"
  unfolding job_closed_def assms(2) ball_update_where
proof (intro ballI impI)
  fix j assume j: "j \<in> set (db_jobs d)" "j_id (if p j then f j else j) = i"
  have i: "j_id j = i" using j assms(4) by (auto split: if_splits)
  then have c: "j_status j \<noteq> JobPending" "j_status j = JobLeased \<longrightarrow> j_quarantined j \<noteq> None \<and> j_expires j = None"
    using assms(1) j(1) by (auto simp: job_closed_def)
  show "j_status (if p j then f j else j) \<noteq> JobPending \<and> (j_status (if p j then f j else j) = JobLeased \<longrightarrow>
      j_quarantined (if p j then f j else j) \<noteq> None \<and> j_expires (if p j then f j else j) = None)"
    using c assms(3) [OF j(1) _ _ c(1)] j by (auto simp: settled_job_def split: if_splits)
qed

lemma requeue_keeps_closed:
  assumes "requeue_expired_job now (j, status) d = Inr d'"
  shows "attempt_quiet run attempt d \<Longrightarrow> attempt_quiet run attempt d'" "job_closed i d \<Longrightarrow> job_closed i d'"
    "attempt_quiet (j_run j) (attempt_id (j_id j) (j_gen j)) d'"
    "jobs_ok d \<Longrightarrow> x \<in> set (db_jobs d) \<Longrightarrow> j_id x = j_id j \<Longrightarrow> j_status x \<noteq> JobPending \<Longrightarrow> job_closed (j_id j) d'"
proof -
  let ?a = "attempt_id (j_id j) (j_gen j)"
  obtain d1 f where f: "fence_attempt (j_run j) ?a ''execution_lease_expired'' now d = Inr d1"
    and calls: "db_calls d' = db_calls d1"
    and rec: "db_receipts d' = db_receipts d1 \<or> (\<exists>p err. db_receipts d' = update_where p (as_canceled err now) (db_receipts d1))"
    and jobs: "db_jobs d' = update_where (\<lambda>x. j_id x = j_id j \<and> j_status x = JobLeased) f (db_jobs d)"
    and fj: "\<And>x. j_id (f x) = j_id x \<and> (settled_job (j_status (f x)) \<or>
        (j_status (f x) = j_status x \<and> j_quarantined (f x) \<noteq> None \<and> j_expires (f x) = None))"
    using assms
  proof (cases rule: requeue_expired_job_cases)
    case (1 d1 js)
    note i = close_finished_inv [OF 1(3) settled_job_status_settled [OF 1(2)]]
    show thesis
      by (rule that [OF 1(1) _ _ i(5) [unfolded orphan_sandboxes_simps fence_attempt_inv(2) [OF 1(1)]]])
        (use i(2,6) settled_job_status_settled [OF 1(2)] in \<open>auto split: if_splits\<close>)
  next
    case (2 d1)
    note i = quarantine_expired_inv [OF 2(3)]
    show thesis
      by (rule that [OF 2(1) _ _ i(5) [unfolded orphan_sandboxes_simps fence_attempt_inv(2) [OF 2(1)]]])
        (use i(2,6) in \<open>auto simp: quarantine_job_def\<close>)
  qed
  have quiet: "attempt_quiet r a d'" if "attempt_quiet r a d1" for r a
    using rec attempt_quiet_same [OF that calls] attempt_quiet_cancel [OF that calls] by blast
  show "attempt_quiet (j_run j) ?a d'" by (rule quiet [OF attempt_quiet_fenced [OF f]])
  show "attempt_quiet run attempt d'" if "attempt_quiet run attempt d"
    by (rule quiet [OF attempt_quiet_fence [OF that f]])
  show "job_closed i d'" if "job_closed i d"
    by (rule job_closed_update [OF that jobs]) (use fj in \<open>blast | metis\<close>)+
  show "job_closed (j_id j) d'" if "jobs_ok d" "x \<in> set (db_jobs d)" "j_id x = j_id j" "j_status x \<noteq> JobPending"
    unfolding job_closed_def jobs ball_update_where
  proof (intro ballI impI)
    fix y assume y: "y \<in> set (db_jobs d)" "j_id (if j_id y = j_id j \<and> j_status y = JobLeased then f y else y) = j_id j"
    then have "j_id y = j_id j" using fj by (auto split: if_splits)
    then have "y = x" using job_same_row [of d y x] that y by (auto simp: jobs_ok_def)
    then show "j_status (if j_id y = j_id j \<and> j_status y = JobLeased then f y else y) \<noteq> JobPending \<and>
        (j_status (if j_id y = j_id j \<and> j_status y = JobLeased then f y else y) = JobLeased \<longrightarrow>
         j_quarantined (if j_id y = j_id j \<and> j_status y = JobLeased then f y else y) \<noteq> None \<and>
         j_expires (if j_id y = j_id j \<and> j_status y = JobLeased then f y else y) = None)"
      using that fj [of x] by (auto simp: settled_job_def)
  qed
qed

lemma cancel_keeps_closed:
  assumes "request_run_cancel_in run now d = Inr (s, d')"
  shows "attempt_quiet r attempt d \<Longrightarrow> attempt_quiet r attempt d'" "job_closed i d \<Longrightarrow> job_closed i d'"
    "db_deps d' = db_deps d"
proof -
  have upd: "job_closed i (set_job (\<lambda>x. j_id x = k \<and> j_status x = JobLeased) (ask_to_stop now) d)"
      "job_closed i (set_job (\<lambda>x. j_id x = k \<and> j_status x = JobPending) (withdraw_job now) d)"
    if "job_closed i d" for k
    by (rule job_closed_update [OF that set_job_simps(1)];
        simp add: ask_to_stop_def withdraw_job_def settled_job_def)+
  have fin: "attempt_quiet r attempt x \<Longrightarrow> attempt_quiet r attempt d'" "job_closed i x \<Longrightarrow> job_closed i d'"
    "db_deps d' = db_deps x" if "finish_run_cancel run now x = Inr d'" for x
    using attempt_quiet_cancel [OF _ finish_run_cancel_inv(9,3) [OF that]] finish_run_cancel_inv(2,10) [OF that]
    by (auto simp: job_closed_def)
  have job: "attempt_quiet r attempt d \<Longrightarrow> attempt_quiet r attempt (set_job p f d)" for p f
    by (erule attempt_quiet_same) simp_all
  show "attempt_quiet r attempt d \<Longrightarrow> attempt_quiet r attempt d'"
    using assms by (cases rule: request_run_cancel_in_cases) (use job fin(1) in blast)+
  show "job_closed i d \<Longrightarrow> job_closed i d'"
    using assms by (cases rule: request_run_cancel_in_cases) (use upd fin(2) in blast)+
  show "db_deps d' = db_deps d"
    using assms by (cases rule: request_run_cancel_in_cases) (use fin(3) in simp_all)
qed

subsection \<open>What a claim does\<close>

lemma started_stays: "job_step\<^sup>*\<^sup>* s t \<Longrightarrow> t = JobPending \<Longrightarrow> s = JobPending"
  by (induction rule: rtranclp_induct) (auto elim: job_step.cases simp: settled_job_def)

definition started_job :: "id \<Rightarrow> db \<Rightarrow> bool" where
  "started_job i d \<longleftrightarrow> jobs_ok d \<and> (\<exists>x\<in>set (db_jobs d). j_id x = i \<and> j_status x \<noteq> JobPending)"

lemma started_job_kept:
  assumes "started_job i d" "store_effect d d'"
  shows "started_job i d'"
proof -
  have d: "jobs_ok d" "jobs_ok d'" and e: "rows_evolve job_step j_status j_id (db_jobs d) (db_jobs d')"
    using assms by (auto simp: started_job_def store_effect_def job_effect_def jobs_evolve_def)
  obtain n where n: "n < length (db_jobs d)" "j_id (db_jobs d ! n) = i" "j_status (db_jobs d ! n) \<noteq> JobPending"
    using assms(1) by (auto simp: started_job_def in_set_conv_nth)
  then have "n < length (db_jobs d')" "j_id (db_jobs d' ! n) = i" "j_status (db_jobs d' ! n) \<noteq> JobPending"
    using e started_stays by (auto simp: rows_evolve_def)
  then show ?thesis using d(2) nth_mem unfolding started_job_def by blast
qed

lemma requeue_closes:
  assumes "requeue_expired_jobs now d = Inr d'" "jobs_ok d"
    and "j \<in> set (db_jobs d)" "lease_expired now j" "get_run_row d (j_run j) \<noteq> None"
  shows "attempt_quiet (j_run j) (attempt_id (j_id j) (j_gen j)) d' \<and> job_closed (j_id j) d'"
proof -
  obtain r where r: "get_run_row d (j_run j) = Some r" using assms(5) by blast
  have mem: "(j, r_status r) \<in> set (expired_jobs now d)"
    unfolding expired_jobs_def set_concat set_map set_select_by using assms(3,4) r by force
  have "started_job (j_id j) d"
    using assms(2-4) by (auto simp: started_job_def lease_expired_def)
  with assms(1) [unfolded requeue_expired_jobs_def] mem show ?thesis
  proof (rule foldr_res_establishes)
    fix y t t' assume t: "started_job (j_id j) t" "requeue_expired_job now y t = Inr t'"
    obtain j' s where y: "y = (j', s)" by (cases y)
    note k = requeue_keeps_closed [OF t(2) [unfolded y]]
    show "started_job (j_id j) t' \<and>
      (attempt_quiet (j_run j) (attempt_id (j_id j) (j_gen j)) t \<and> job_closed (j_id j) t \<longrightarrow>
       attempt_quiet (j_run j) (attempt_id (j_id j) (j_gen j)) t' \<and> job_closed (j_id j) t')"
      using started_job_kept [OF t(1) requeue_expired_job_effect [OF t(2) [unfolded y]]] k(1,2) by blast
  next
    fix t t' assume t: "started_job (j_id j) t" "requeue_expired_job now (j, r_status r) t = Inr t'"
    show "attempt_quiet (j_run j) (attempt_id (j_id j) (j_gen j)) t' \<and> job_closed (j_id j) t'"
      using requeue_keeps_closed(3,4) [OF t(2)] t(1) by (auto simp: started_job_def)
  qed
qed

lemma cancel_each_keeps_closed:
  assumes "cancel_each clock n is states d = Inr (states', d')"
  shows "attempt_quiet r attempt d \<Longrightarrow> attempt_quiet r attempt d'" "job_closed i d \<Longrightarrow> job_closed i d'"
    "db_deps d' = db_deps d"
proof -
  show "attempt_quiet r attempt d \<Longrightarrow> attempt_quiet r attempt d'"
    by (rule cancel_each_invariant [where I = "attempt_quiet r attempt", OF assms]) (auto dest: cancel_keeps_closed(1))
  show "job_closed i d \<Longrightarrow> job_closed i d'"
    by (rule cancel_each_invariant [where I = "job_closed i", OF assms]) (auto dest: cancel_keeps_closed(2))
  show "db_deps d' = db_deps d"
    by (rule cancel_each_invariant [where I = "\<lambda>x. db_deps x = db_deps d", OF assms]) (auto dest: cancel_keeps_closed(3))
qed

lemma request_run_cancel_in_ids:
  assumes "request_run_cancel_in run now d = Inr (s, d')"
  shows "length (db_jobs d') = length (db_jobs d)"
  using assms
  by (cases rule: request_run_cancel_in_cases) (auto simp: finish_run_cancel_inv(2))

lemma cancel_each_ids:
  assumes "cancel_each clock n is states d = Inr (states', d')"
  shows "length (db_jobs d') = length (db_jobs d)"
  by (rule cancel_each_invariant [where I = "\<lambda>x. length (db_jobs x) = length (db_jobs d)", OF assms])
    (auto simp: request_run_cancel_in_ids)

lemma requeue_expired_job_ids:
  assumes "requeue_expired_job now (j, status) d = Inr d'"
  shows "length (db_jobs d') = length (db_jobs d)" "db_deps d' = db_deps d"
  using assms
  by (cases rule: requeue_expired_job_cases;
      simp add: close_finished_inv(3,5) [OF _ settled_job_status_settled] quarantine_expired_inv(3,5) fence_attempt_inv(2,4))+

lemma requeue_expired_jobs_ids:
  assumes "requeue_expired_jobs now d = Inr d'"
  shows "length (db_jobs d') = length (db_jobs d)" "db_deps d' = db_deps d"
  by (rule foldr_res_frame [OF assms [unfolded requeue_expired_jobs_def]];
      auto dest: requeue_expired_job_ids)+

text \<open>A claimed job: the row it was, the row it is, and the run it is for.\<close>

lemma claimed_job:
  assumes "claim_run_job c worker lease d = Inr (Some k, d')" "jobs_ok d"
  obtains d2 j n where "jobs_ok d2" "store_effect d d2" "length (db_jobs d2) = length (db_jobs d)"
    "j \<in> set (db_jobs d2)" "claimable d2 j" "2 \<le> n"
    "k = lease_job worker (x_clock c n + lease) (x_clock c 1) j"
    "db_jobs d' = update_where (\<lambda>x. j_id x = j_id j \<and> j_status x = JobPending)
       (lease_job worker (x_clock c n + lease) (x_clock c 1)) (db_jobs d2)"
    "db_runs d' = update_where (\<lambda>r. r_id r = j_run j)
       (\<lambda>r. r\<lparr>r_status := RunRunning, r_updated := x_clock c 1, r_completed := None\<rparr>) (db_runs d2)"
    "db_deps d' = db_deps d2" "jobs_ok d'"
  using assms(1)
proof (cases rule: claim_run_job_cases)
  case (2 d1 states d2 j d3 expires)
  let ?p = "\<lambda>x. j_id x = j_id j \<and> j_status x = JobPending"
  have e: "store_effect d d2"
    by (rule store_effect_trans [OF requeue_expired_jobs_effect [OF 2(1)] cancel_each_effect [OF 2(2)]])
  then have ok: "jobs_ok d2" using assms(2) by (simp add: store_effect_def job_effect_def)
  have ok': "jobs_ok d'"
    using claim_run_job_effect [OF assms(1)] assms(2) by (simp add: store_effect_def job_effect_def)
  have jobs: "db_jobs d' = update_where ?p (lease_job worker expires (x_clock c 1)) (db_jobs d2)"
    unfolding 2(6,7) by simp
  have st: "j_status j = JobPending" using 2(4) by (simp add: claimable_def)
  have "lease_job worker expires (x_clock c 1) j \<in> set (db_jobs d')"
    unfolding jobs using 2(3) st by (force simp: update_where_def)
  moreover have "k \<in> set (db_jobs d')" "j_id k = j_id j"
    using 2(8) find_SomeD [of _ "db_jobs d'" k] by (auto simp: get_run_job_def)
  ultimately have k: "k = lease_job worker expires (x_clock c 1) j"
    using job_same_row [of d' k] ok' by (simp add: jobs_ok_def lease_job_def)
  show thesis
    by (rule that [OF ok e _ 2(3,4) _ k [unfolded 2(5)] jobs [unfolded 2(5)] _ _ ok'])
      (use cancel_each_ids [OF 2(2)] requeue_expired_jobs_ids(1) [OF 2(1)] in \<open>simp_all add: 2(6,7)\<close>)
qed simp

subsection \<open>Properties\<close>

text \<open>C9: a claim is an exclusive lease. The job \<open>claim_run_job\<close> returns was waiting before, is now
  leased to the claiming worker as generation 1, uncanceled and not quarantined; it is the only
  active job of its run; its run is running; and the worker's fence is open exactly until the
  lease expires.\<close>

theorem claim_is_exclusive:
  assumes "claim_run_job c worker lease d = Inr (Some k, d')" "jobs_ok d"
  shows "k \<in> set (db_jobs d') \<and> j_status k = JobLeased \<and> j_owner k = Some worker \<and> j_gen k = 1 \<and>
    j_cancel k = None \<and> j_quarantined k = None \<and>
    (\<exists>x\<in>set (db_jobs d). j_id x = j_id k \<and> j_status x = JobPending) \<and>
    (\<forall>x\<in>set (db_jobs d'). active_job x \<and> j_run x = j_run k \<longrightarrow> x = k) \<and>
    (\<forall>r\<in>set (db_runs d'). r_id r = j_run k \<longrightarrow> r_status r = RunRunning) \<and>
    (\<exists>n\<ge>2. j_expires k = Some (x_clock c n + lease) \<and>
      (\<forall>now. fence_open \<lparr>l_job = j_id k, l_run = j_run k, l_owner = worker, l_gen = 1\<rparr> now d' \<longleftrightarrow>
        now < x_clock c n + lease))"
  using assms
proof (rule claimed_job)
  fix d2 j n
  assume d2: "jobs_ok d2" "store_effect d d2" "length (db_jobs d2) = length (db_jobs d)"
    and j: "j \<in> set (db_jobs d2)" "claimable d2 j" and n: "2 \<le> n"
    and k: "k = lease_job worker (x_clock c n + lease) (x_clock c 1) j"
    and jobs: "db_jobs d' = update_where (\<lambda>x. j_id x = j_id j \<and> j_status x = JobPending)
       (lease_job worker (x_clock c n + lease) (x_clock c 1)) (db_jobs d2)"
    and runs: "db_runs d' = update_where (\<lambda>r. r_id r = j_run j)
       (\<lambda>r. r\<lparr>r_status := RunRunning, r_updated := x_clock c 1, r_completed := None\<rparr>) (db_runs d2)"
    and ok': "jobs_ok d'"
  have st: "j_status j = JobPending" using j(2) by (simp add: claimable_def)
  then have idle: "j_gen j = 0" "j_cancel j = None" "j_quarantined j = None"
    using d2(1) j(1) by (auto simp: jobs_ok_def job_ok_def)
  have mem: "k \<in> set (db_jobs d')" unfolding jobs k using j(1) st by (force simp: update_where_def)
  have kf: "j_id k = j_id j" "j_run k = j_run j" "j_status k = JobLeased" "j_owner k = Some worker"
    "j_gen k = 1" "j_cancel k = None" "j_quarantined k = None" "j_expires k = Some (x_clock c n + lease)"
    using idle by (simp_all add: k lease_job_def One_nat_def)
  have "rows_evolve job_step j_status j_id (db_jobs d) (db_jobs d2)"
    using d2(2) assms(2) by (simp add: store_effect_def job_effect_def jobs_evolve_def)
  moreover obtain m where m: "m < length (db_jobs d2)" "db_jobs d2 ! m = j" using j(1) by (auto simp: in_set_conv_nth)
  ultimately have "db_jobs d ! m \<in> set (db_jobs d) \<and> j_id (db_jobs d ! m) = j_id k \<and> j_status (db_jobs d ! m) = JobPending"
    using d2(3) st kf(1) started_stays by (auto simp: rows_evolve_def)
  then have was: "\<exists>x\<in>set (db_jobs d). j_id x = j_id k \<and> j_status x = JobPending" by blast
  have only: "\<forall>x\<in>set (db_jobs d'). active_job x \<and> j_run x = j_run k \<longrightarrow> x = k"
    using one_active_unique [of d' _ k] ok' mem kf(3) by (auto simp: jobs_ok_def active_job_def)
  have run: "\<forall>r\<in>set (db_runs d'). r_id r = j_run k \<longrightarrow> r_status r = RunRunning"
    unfolding runs ball_update_where by (simp add: kf(2))
  let ?l = "\<lparr>l_job = j_id k, l_run = j_run k, l_owner = worker, l_gen = 1\<rparr>"
  have "fence_open ?l now d' \<longleftrightarrow> now < x_clock c n + lease" for now
  proof
    assume "fence_open ?l now d'"
    then obtain x where x: "x \<in> set (db_jobs d')" "lease_holds ?l now x" by (auto simp: fence_open_iff)
    then have "x = k" using job_same_row [of d' x k] ok' mem by (simp add: jobs_ok_def lease_holds_def)
    then show "now < x_clock c n + lease" using x(2) kf(8) by (simp add: lease_holds_def)
  next
    assume "now < x_clock c n + lease"
    then show "fence_open ?l now d'" using mem kf by (auto simp: fence_open_iff lease_holds_def)
  qed
  then show ?thesis using mem kf was only run n by blast
qed

definition queue_db :: db where
  "queue_db = demo_db\<lparr>db_runs := db_runs demo_db @
      [blank_run ''run_3'' RunQueued, (blank_run ''run_2'' RunQueued)\<lparr>r_kind := KindChild, r_parent := Some ''run_1''\<rparr>],
     db_jobs := db_jobs demo_db @ [blank_job ''job_2'' ''run_2'' JobPending],
     db_deps := [\<lparr>dp_child = ''run_2'', dp_on = ''run_3'', dp_created = 1\<rparr>]\<rparr>"

lemma demo_queue_ok: "jobs_ok demo_db"
  by (simp add: jobs_ok_def one_active_def demo_db_def empty_db_def job_ok_def leased_job_def blank_job_def)

lemma queue_jobs_ok: "jobs_ok queue_db"
  by (simp add: jobs_ok_def one_active_def queue_db_def demo_db_def empty_db_def job_ok_def
      leased_job_def blank_job_def)

theorem claim_is_exclusive_witness:
  "returns (claim_run_job free_ctx ''v'' 30 family_db) (\<lambda>(k, d). \<exists>j. k = Some j \<and>
     fence_open \<lparr>l_job = j_id j, l_run = j_run j, l_owner = ''v'', l_gen = 1\<rparr> 20 d)"
proof -
  have "returns (claim_run_job free_ctx ''v'' 30 family_db) (\<lambda>(k, _). k \<noteq> None)" by code_simp
  then obtain j d where d: "claim_run_job free_ctx ''v'' 30 family_db = Inr (Some j, d)"
    by (auto simp: returns_iff)
  show ?thesis using claim_is_exclusive [OF d family_jobs_ok] d by (auto simp: free_ctx_def)
qed

text \<open>C10: dependencies come first. When \<open>claim_run_job\<close> hands out a job of a child run, every run the
  child depends on is completed.\<close>

theorem claim_waits_for_dependencies:
  assumes "claim_run_job c worker lease d = Inr (Some k, d')" "jobs_ok d"
    and "get_run_row d' (j_run k) = Some r" "r_kind r = KindChild"
    and "x \<in> set (db_deps d')" "dp_child x = j_run k" "dp_on x \<noteq> j_run k"
    and "get_run_row d' (dp_on x) = Some q"
  shows "r_status q = RunCompleted"
  using assms(1,2)
proof (rule claimed_job)
  fix d2 j n
  assume j: "claimable d2 j" and k: "k = lease_job worker (x_clock c n + lease) (x_clock c 1) j"
    and runs: "db_runs d' = update_where (\<lambda>r. r_id r = j_run j)
       (\<lambda>r. r\<lparr>r_status := RunRunning, r_updated := x_clock c 1, r_completed := None\<rparr>) (db_runs d2)"
    and deps: "db_deps d' = db_deps d2"
  let ?f = "\<lambda>r. if r_id r = j_run j then r\<lparr>r_status := RunRunning, r_updated := x_clock c 1, r_completed := None\<rparr> else r"
  have get: "get_run_row d' i = map_option ?f (get_run_row d2 i)" for i
    unfolding get_run_row_def runs by (rule find_update_where_same) simp
  have run: "j_run k = j_run j" by (simp add: k lease_job_def)
  obtain r0 where r0: "get_run_row d2 (j_run j) = Some r0" "r_kind r0 = KindChild"
    using assms(3,4) get [of "j_run j"] run by (auto split: if_splits)
  then have all: "list_all (\<lambda>s. s = RunCompleted) (dependency_states d2 (j_run j))"
    using j by (auto simp: claimable_def)
  obtain q0 where q0: "get_run_row d2 (dp_on x) = Some q0" "q = ?f q0"
    using assms(8) get [of "dp_on x"] by auto
  have "r_id q0 = dp_on x" using find_SomeD [OF q0(1) [unfolded get_run_row_def]] by simp
  then have q: "q = q0" using q0(2) assms(7) run by simp
  have "r_status q0 \<in> set (dependency_states d2 (j_run j))"
    using assms(5,6) deps run q0(1) unfolding dependency_states_def by force
  then show ?thesis using all q by (simp add: list_all_iff)
qed

theorem claim_waits_for_dependencies_witness:
  "returns (claim_run_job free_ctx ''v'' 30 queue_db) (\<lambda>(k, _). k = None) \<and>
   returns (claim_run_job free_ctx ''v'' 30
      (set_run ''run_3'' (\<lambda>r. r\<lparr>r_status := RunCompleted\<rparr>) queue_db))
     (\<lambda>(k, d). map_option r_status (get_run_row d ''run_3'') = Some RunCompleted)"
proof
  show "returns (claim_run_job free_ctx ''v'' 30 queue_db) (\<lambda>(k, _). k = None)" by code_simp
  let ?d = "set_run ''run_3'' (\<lambda>r. r\<lparr>r_status := RunCompleted\<rparr>) queue_db"
  let ?x = "\<lparr>dp_child = ''run_2'', dp_on = ''run_3'', dp_created = 1\<rparr>"
  have "returns (claim_run_job free_ctx ''v'' 30 ?d) (\<lambda>(k, d). map_option j_run k = Some ''run_2'' \<and>
      map_option r_kind (get_run_row d ''run_2'') = Some KindChild \<and> get_run_row d ''run_3'' \<noteq> None \<and>
      list_ex (\<lambda>x. dp_child x = ''run_2'' \<and> dp_on x = ''run_3'') (db_deps d))" by code_simp
  then obtain ko d where d: "claim_run_job free_ctx ''v'' 30 ?d = Inr (ko, d)"
    and f: "map_option j_run ko = Some ''run_2''" "map_option r_kind (get_run_row d ''run_2'') = Some KindChild"
      "get_run_row d ''run_3'' \<noteq> None" "list_ex (\<lambda>x. dp_child x = ''run_2'' \<and> dp_on x = ''run_3'') (db_deps d)"
    unfolding returns_iff by auto
  obtain k r q x where x: "ko = Some k" "j_run k = ''run_2''" "get_run_row d ''run_2'' = Some r"
      "r_kind r = KindChild" "get_run_row d ''run_3'' = Some q"
      "x \<in> set (db_deps d)" "dp_child x = ''run_2''" "dp_on x = ''run_3''"
    using f by (auto simp: list_ex_iff)
  have "jobs_ok ?d" using queue_jobs_ok by (simp add: jobs_ok_def one_active_def)
  note c = claim_waits_for_dependencies [OF d [unfolded x(1)] this, unfolded x(2), OF x(3,4,6,7), unfolded x(8), OF _ x(5)]
  have "r_status q = RunCompleted" by (rule c) simp
  then show "returns (claim_run_job free_ctx ''v'' 30 ?d)
      (\<lambda>(k, d). map_option r_status (get_run_row d ''run_3'') = Some RunCompleted)"
    unfolding d returns_simps prod.case x(5) by (simp add: \<open>r_status q = RunCompleted\<close>)
qed

text \<open>C11: an expired lease is never handed on. After \<open>claim_run_job\<close>, a job whose lease had expired
  (and whose run exists) is not leased to anybody: its row is settled, or quarantined without an
  expiry; no fence opens for any lease of it, at any time; the attempt has no open model call and
  no running tool call; and it is not the job that was claimed.\<close>

theorem expired_lease_is_not_handed_on:
  assumes "claim_run_job c worker lease d = Inr (r, d')" "jobs_ok d"
    and "j \<in> set (db_jobs d)" "lease_expired (x_clock c 1) j" "get_run_row d (j_run j) \<noteq> None"
  shows "attempt_quiet (j_run j) (attempt_id (j_id j) (j_gen j)) d' \<and>
    (\<forall>x\<in>set (db_jobs d'). j_id x = j_id j \<longrightarrow> settled_job (j_status x) \<or> (j_quarantined x \<noteq> None \<and> j_expires x = None)) \<and>
    (\<forall>l now. l_job l = j_id j \<longrightarrow> \<not> fence_open l now d') \<and> (\<forall>k. r = Some k \<longrightarrow> j_id k \<noteq> j_id j)"
proof -
  have both: "attempt_quiet (j_run j) (attempt_id (j_id j) (j_gen j)) d' \<and> job_closed (j_id j) d'"
    using assms(1)
  proof (cases rule: claim_run_job_cases)
    case (1 d1 states d2)
    then show ?thesis using requeue_closes [OF 1(1) assms(2-5)] cancel_each_keeps_closed [OF 1(2)] by simp
  next
    case (2 d1 states d2 i d3 expires)
    let ?f = "lease_job worker expires (x_clock c 1)"
    have c2: "attempt_quiet (j_run j) (attempt_id (j_id j) (j_gen j)) d2" "job_closed (j_id j) d2"
      using requeue_closes [OF 2(1) assms(2-5)] cancel_each_keeps_closed [OF 2(2)] by simp_all
    have "job_closed (j_id j) d'"
      by (rule job_closed_update [OF c2(2), of _ "\<lambda>x. j_id x = j_id i \<and> j_status x = JobPending" ?f])
        (simp_all add: 2(6,7) lease_job_def)
    then show ?thesis using attempt_quiet_same [OF c2(1)] by (simp add: 2(6,7))
  qed
  have ne: "j_id k \<noteq> j_id j" if "r = Some k" for k
  proof (rule claimed_job [OF assms(1) [unfolded that] assms(2)])
    fix d2 i n assume "i \<in> set (db_jobs d2)" "claimable d2 i" "k = lease_job worker (x_clock c n + lease) (x_clock c 1) i"
      "db_jobs d' = update_where (\<lambda>x. j_id x = j_id i \<and> j_status x = JobPending)
        (lease_job worker (x_clock c n + lease) (x_clock c 1)) (db_jobs d2)"
    then have "k \<in> set (db_jobs d')" "j_status k = JobLeased" "j_expires k \<noteq> None"
      by (force simp: update_where_def claimable_def lease_job_def)+
    then show ?thesis using both by (auto simp: job_closed_def)
  qed
  have set_or: "settled_job s \<or> s = JobPending \<or> s = JobLeased" for s
    by (cases s) (simp_all add: settled_job_def)
  have closed: "\<forall>l now. l_job l = j_id j \<longrightarrow> \<not> fence_open l now d'"
    using both by (force simp: job_closed_def fence_open_iff lease_holds_def)
  have "\<forall>x\<in>set (db_jobs d'). j_id x = j_id j \<longrightarrow>
      settled_job (j_status x) \<or> (j_quarantined x \<noteq> None \<and> j_expires x = None)"
    using both set_or unfolding job_closed_def by metis
  then show ?thesis using both ne closed by blast
qed

theorem expired_lease_is_not_handed_on_witness:
  "returns (claim_run_job (free_ctx\<lparr>x_clock := (\<lambda>k. 200 + k)\<rparr>) ''v'' 30 demo_db)
     (\<lambda>(k, d). k = None \<and> \<not> fence_open demo_lease 50 d)"
proof -
  let ?c = "free_ctx\<lparr>x_clock := (\<lambda>k. 200 + k)\<rparr>"
  have "returns (claim_run_job ?c ''v'' 30 demo_db) (\<lambda>(k, _). k = None)" by code_simp
  then obtain d where d: "claim_run_job ?c ''v'' 30 demo_db = Inr (None, d)"
    by (auto simp: returns_iff)
  have "jobs_ok demo_db" by (rule demo_queue_ok)
  moreover have "leased_job ''job_1'' ''run_1'' \<in> set (db_jobs demo_db)" by (simp add: demo_db_def)
  moreover have "lease_expired (x_clock ?c 1) (leased_job ''job_1'' ''run_1'')"
    by (simp add: lease_expired_def leased_job_def blank_job_def)
  moreover have "get_run_row demo_db (j_run (leased_job ''job_1'' ''run_1'')) \<noteq> None" by code_simp
  ultimately have "l_job l = ''job_1'' \<Longrightarrow> \<not> fence_open l now d" for l now
    using expired_lease_is_not_handed_on [OF d] by (simp add: leased_job_def blank_job_def)
  then show ?thesis unfolding d by (simp add: demo_lease_def)
qed

text \<open>C12: only the quarantined owner can confirm cleanup, and once. \<open>confirm_quarantined_cleanup\<close> answers
  with no event, changing nothing, unless exactly this owner and generation holds the quarantined
  job; otherwise the job is dead, the run no longer needs cleanup, no tool call of the run can
  start any more, and a second confirmation by anybody changes nothing.\<close>

theorem cleanup_is_confirmed_by_its_owner:
  assumes "confirm_quarantined_cleanup c run job owner gen payload d = Inr (r, d')" "jobs_ok d"
  shows "(r = None \<longleftrightarrow> (\<forall>j\<in>set (db_jobs d). \<not> (owned_by job run owner gen j \<and> j_quarantined j \<noteq> None))) \<and>
    (r = None \<longrightarrow> d' = d) \<and>
    (r \<noteq> None \<longrightarrow> (\<forall>x\<in>set (db_jobs d'). j_id x = job \<longrightarrow> j_status x = JobDead) \<and>
      (\<forall>x\<in>set (db_runs d'). r_id x = run \<longrightarrow> r_status x \<noteq> RunCleanupRequired) \<and>
      (\<forall>t\<in>set (db_receipts d'). t_run t = run \<longrightarrow> \<not> unstarted t) \<and>
      (\<forall>c' run' owner' gen' payload'.
        confirm_quarantined_cleanup c' run' job owner' gen' payload' d' = Inr (None, d')))"
  using assms(1)
proof (cases rule: confirm_quarantined_cleanup_cases)
  case refused
  then show ?thesis by simp
next
  case (closed j e d1 d2)
  note q = cancel_unstarted_inv [OF closed(5)]
  note w = publish_run_event_frame [OF closed(6)]
  have jobs: "db_jobs d' = update_where (\<lambda>j. j_id j = job) (finish_quarantined (x_clock c 1)) (db_jobs d2)"
    by (simp add: closed(7))
  have dead: "\<forall>x\<in>set (db_jobs d'). j_id x = job \<longrightarrow> j_status x = JobDead"
    unfolding jobs ball_update_where by (simp add: finish_quarantined_def)
  have runs: "\<forall>x\<in>set (db_runs d'). r_id x = run \<longrightarrow> r_status x \<noteq> RunCleanupRequired"
    unfolding closed(7) set_job_simps w db.simps ball_update_where by simp
  have rec: "\<forall>t\<in>set (db_receipts d'). t_run t = run \<longrightarrow> \<not> unstarted t"
    by (simp add: closed(7) w q(6) as_canceled_def unstarted_def)
  have "\<not> list_ex (\<lambda>j. owned_by job run' owner' gen' j \<and> j_quarantined j \<noteq> None) (db_jobs d')" for run' owner' gen'
    using dead by (auto simp: list_ex_iff owned_by_def)
  then have again: "confirm_quarantined_cleanup c' run' job owner' gen' payload' d' = Inr (None, d')" for c' run' owner' gen' payload'
    by (simp add: confirm_quarantined_cleanup_def Let_def)
  have "\<not> (\<forall>j\<in>set (db_jobs d). \<not> (owned_by job run owner gen j \<and> j_quarantined j \<noteq> None))"
    using closed(1-3) by blast
  then show ?thesis using closed(4) dead runs rec again by simp
qed

definition quarantined_db :: db where
  "quarantined_db = demo_db
     \<lparr>db_runs := [(blank_run ''run_1'' RunCleanupRequired)\<lparr>r_thread := Some ''thread_1'', r_item := Some ''item_1''\<rparr>],
      db_jobs := [(leased_job ''job_1'' ''run_1'')\<lparr>j_quarantined := Some 90, j_expires := None\<rparr>]\<rparr>"

theorem cleanup_is_confirmed_by_its_owner_witness:
  "returns (confirm_quarantined_cleanup free_ctx ''run_1'' ''job_1'' ''w'' 1 [] quarantined_db)
     (\<lambda>(r, d). r \<noteq> None \<and> (\<forall>x\<in>set (db_jobs d). j_id x = ''job_1'' \<longrightarrow> j_status x = JobDead))"
proof -
  have "returns (confirm_quarantined_cleanup free_ctx ''run_1'' ''job_1'' ''w'' 1 [] quarantined_db) (\<lambda>(r, _). r \<noteq> None)"
    by code_simp
  then obtain r d where d: "confirm_quarantined_cleanup free_ctx ''run_1'' ''job_1'' ''w'' 1 [] quarantined_db = Inr (r, d)"
    and r: "r \<noteq> None" by (auto simp: returns_iff)
  have "jobs_ok quarantined_db"
    by (simp add: jobs_ok_def one_active_def quarantined_db_def job_ok_def leased_job_def blank_job_def)
  then show ?thesis using cleanup_is_confirmed_by_its_owner [OF d] r unfolding d by simp
qed

text \<open>a lost attempt is fenced before anybody learns of it. When
  \<open>ensure_lost_execution_quarantined\<close> reports the attempt as lost, no fence opens for that lease any
  more, the attempt has no open model call and no running tool call, and no tool call of the run
  can start; when it reports otherwise nothing changed.\<close>

theorem lost_attempt_is_fenced:
  assumes "ensure_lost_execution_quarantined c run job owner gen d = Inr ((lost, e), d')" "jobs_ok d"
  shows "(\<not> lost \<longrightarrow> d' = d \<and> e = None) \<and>
    (lost \<longrightarrow> (\<forall>l now. l_job l = job \<longrightarrow> \<not> fence_open l now d') \<and>
      attempt_quiet run (attempt_id job gen) d' \<and> (\<forall>t\<in>set (db_receipts d'). t_run t = run \<longrightarrow> \<not> unstarted t))"
  using assms(1)
proof (cases rule: ensure_lost_execution_quarantined_cases)
  case refused
  then show ?thesis by simp
next
  case (fenced j d1 d2 e)
  note f = fence_attempt_inv [OF fenced(4)] and q = cancel_unstarted_inv [OF fenced(5)]
  have quiet: "attempt_quiet run (attempt_id job gen) d2"
    by (rule attempt_quiet_cancel [OF attempt_quiet_fenced [OF fenced(4)] q(5,6)])
  have j: "j \<in> set (db_jobs d)" "owned_by job run owner gen j" using find_SomeD [OF fenced(1)] by auto
  have same: "x = j" if "x \<in> set (db_jobs d)" "j_id x = job" for x
    using owned_job_leased(1) [OF assms(2) j that] .
  have frame: "db_calls d' = db_calls d2" "db_receipts d' = db_receipts d2"
    and closed: "\<forall>x\<in>set (db_jobs d'). j_id x = job \<longrightarrow> j_quarantined x \<noteq> None"
    using fenced(6)
  proof (atomize (full), elim disjE conjE exE)
    assume "j_quarantined j \<noteq> None" "d' = orphan_sandboxes run (attempt_id job gen) (x_clock c 1) d2"
    then show "(db_calls d' = db_calls d2 \<and> db_receipts d' = db_receipts d2) \<and>
        (\<forall>x\<in>set (db_jobs d'). j_id x = job \<longrightarrow> j_quarantined x \<noteq> None)"
      using same f(2) q(2) by auto
  next
    fix ev payload
    assume p: "publish_run_event run RunCleanupRequired ''run.cleanup_required'' payload (x_clock c 1)
        (mark_run_unclean run (x_clock c 1) (set_job (\<lambda>x. j_id x = job)
          (quarantine_job ''execution_lease_expired'' (x_clock c 1))
          (orphan_sandboxes run (attempt_id job gen) (x_clock c 1) d2))) = Inr (ev, d')"
    show "(db_calls d' = db_calls d2 \<and> db_receipts d' = db_receipts d2) \<and>
        (\<forall>x\<in>set (db_jobs d'). j_id x = job \<longrightarrow> j_quarantined x \<noteq> None)"
      by (simp add: publish_run_event_frame [OF p] quarantine_job_def)
  qed
  have "\<forall>l now. l_job l = job \<longrightarrow> \<not> fence_open l now d'"
    using closed by (auto simp: fence_open_iff lease_holds_def)
  moreover have "\<forall>t\<in>set (db_receipts d'). t_run t = run \<longrightarrow> \<not> unstarted t"
    by (simp add: frame q(6) as_canceled_def unstarted_def)
  ultimately show ?thesis using fenced(3) attempt_quiet_same [OF quiet frame] by simp
qed

theorem lost_attempt_is_fenced_witness:
  "returns (ensure_lost_execution_quarantined (free_ctx\<lparr>x_clock := (\<lambda>k. 200 + k)\<rparr>) ''run_1'' ''job_1'' ''w'' 1 demo_db)
     (\<lambda>((lost, _), d). lost \<and> \<not> fence_open demo_lease 50 d)"
proof -
  let ?op = "ensure_lost_execution_quarantined (free_ctx\<lparr>x_clock := (\<lambda>k. 200 + k)\<rparr>) ''run_1'' ''job_1'' ''w'' 1 demo_db"
  have "returns ?op (\<lambda>((lost, _), _). lost)" by code_simp
  then obtain e d where d: "?op = Inr ((True, e), d)" by (auto simp: returns_iff)
  have "\<not> fence_open demo_lease 50 d"
    using lost_attempt_is_fenced [OF d demo_queue_ok] by (simp add: demo_lease_def)
  then show ?thesis unfolding d by simp
qed

text \<open>a run is queued once. When \<open>enqueue_run_job\<close> returns a job, it is the active job the run
  already had (and nothing changed) or a new waiting one, the only active job of the run; and
  enqueueing the run again returns that job and changes nothing.\<close>

theorem enqueue_is_idempotent:
  assumes "enqueue_run_job c gone run kind resume d = Inr (Some j, d')" "jobs_ok d"
  shows "j_run j = run \<and> active_job j \<and> j \<in> set (db_jobs d') \<and>
    ((j \<in> set (db_jobs d) \<and> d' = d) \<or>
     (j_status j = JobPending \<and> j_kind j = kind \<and> db_jobs d' = db_jobs d @ [j] \<and>
      (\<forall>x\<in>set (db_jobs d). j_run x = run \<longrightarrow> \<not> active_job x))) \<and>
    enqueue_run_job c' gone run kind' resume' d' = Inr (Some j, d')"
proof -
  obtain r where r: "get_run_row d run = Some r" "\<not> workspace_path_error gone (r_workspace r)"
      "\<not> workspace_unauthorized (r_principal r) (r_workspace r) d"
    using assms(1) by (auto simp: enqueue_run_job_def split: option.splits if_splits)
  have again: "enqueue_run_job c' gone run kind' resume' d' = Inr (Some j, d')"
    if "get_run_row d' run = Some r" "db_workspaces d' = db_workspaces d" "active_run_job run d' = Some j"
    using that r by (simp add: enqueue_run_job_def workspace_unauthorized_def split: option.splits)
  note body = assms(1) [unfolded enqueue_run_job_def r(1) option.case if_not_P [OF r(2)] if_not_P [OF r(3)]]
  show ?thesis
  proof (cases "active_run_job run d")
    case (Some x)
    then have "x = j" "d' = d" using body by simp_all
    then show ?thesis using again r(1) Some find_SomeD [of _ "db_jobs d" x] by (auto simp: active_run_job_def)
  next
    case None
    let ?n = "new_run_job_record run kind (run_job_input r) resume (x_clock c 1) d"
    have j: "j = fst ?n" and ins: "insert_run_job (fst ?n) (snd ?n) = Inr d'"
      using body None by (auto simp: bindr_Inr_iff case_prod_beta)
    have d': "d' = (snd ?n)\<lparr>db_jobs := db_jobs d @ [j]\<rparr>"
      using ins j by (auto simp: insert_run_job_def split: if_splits)
    have free: "\<forall>x\<in>set (db_jobs d). j_run x = run \<longrightarrow> \<not> active_job x"
      using None by (auto simp: active_run_job_def find_None_iff)
    have act: "active_job j" by (simp add: j active_job_def)
    have "find (\<lambda>j. j_run j = run \<and> active_job j) (db_jobs d) = None"
      using None by (simp add: active_run_job_def)
    then have "active_run_job run d' = Some j"
      using act by (simp add: active_run_job_def d' find_append) (simp add: j)
    moreover have "get_run_row d' run = Some r" "db_workspaces d' = db_workspaces d"
      using r(1) by (simp_all add: d' get_run_row_def new_run_job_record_def case_prod_beta new_id_def)
    ultimately have "enqueue_run_job c' gone run kind' resume' d' = Inr (Some j, d')" by (intro again)
    then show ?thesis using act free by (simp add: d') (simp add: j)
  qed
qed

theorem enqueue_is_idempotent_witness:
  "returns (enqueue_run_job free_ctx (\<lambda>_. False) ''run_3'' ''start'' None queue_db)
     (\<lambda>(k, d). returns (enqueue_run_job demo_ctx (\<lambda>_. False) ''run_3'' ''resume'' None d)
        (\<lambda>(k', d'). k' = k \<and> d' = d))"
proof -
  have "returns (enqueue_run_job free_ctx (\<lambda>_. False) ''run_3'' ''start'' None queue_db) (\<lambda>(k, _). k \<noteq> None)"
    by code_simp
  then obtain j d where d: "enqueue_run_job free_ctx (\<lambda>_. False) ''run_3'' ''start'' None queue_db = Inr (Some j, d)"
    by (auto simp: returns_iff)
  show ?thesis using enqueue_is_idempotent [OF d queue_jobs_ok, of demo_ctx] unfolding d by simp
qed

abbreviation renewable :: "ctx \<Rightarrow> id \<Rightarrow> string \<Rightarrow> nat \<Rightarrow> job_row \<Rightarrow> bool" where
  "renewable c job owner gen \<equiv> \<lambda>j. held_by job owner gen (x_clock c 1) j \<and> j_quarantined j = None"

lemma renewable_iff: "(\<exists>j\<in>set (db_jobs d). renewable c job owner gen j) \<longleftrightarrow>
    (\<exists>run. fence_open \<lparr>l_job = job, l_run = run, l_owner = owner, l_gen = gen\<rparr> (x_clock c 1) d)"
  by (auto simp: fence_open_iff lease_holds_def held_by_def)

lemma renew_refused:
  "\<forall>j\<in>set (db_jobs d). \<not> renewable c job owner gen j \<Longrightarrow> renew_run_job c job owner gen lease d = ((False, False), d)"
  by (simp add: renew_run_job_def Let_def count_where_zero [THEN iffD2])

lemma renew_renews:
  assumes "jobs_ok d" "j \<in> set (db_jobs d)" "renewable c job owner gen j"
    and "renew_run_job c job owner gen lease d = ((kept, asked), d')"
  shows "kept" "asked \<longleftrightarrow> j_cancel j \<noteq> None"
    "fence_open \<lparr>l_job = job, l_run = j_run j, l_owner = owner, l_gen = gen\<rparr> now d' \<longleftrightarrow> now < x_clock c 2 + lease"
proof -
  let ?f = "\<lambda>j. j\<lparr>j_expires := Some (x_clock c 2 + lease), j_updated := x_clock c 1\<rparr>"
  have ids: "distinct (map j_id (db_jobs d))" using assms(1) by (simp add: jobs_ok_def)
  have same: "x = j" if "x \<in> set (db_jobs d)" "j_id x = job" for x
    using job_same_row [OF ids that(1) assms(2)] that(2) assms(3) by (simp add: held_by_def)
  have one: "count_where (renewable c job owner gen) (db_jobs d) = 1"
    by (rule count_where_one [OF _ assms(2), of "renewable c job owner gen"])
      (use ids same assms(3) in \<open>auto simp: distinct_map held_by_def\<close>)
  have d': "d' = set_job (renewable c job owner gen) ?f d" "kept"
    and asked: "asked \<longleftrightarrow> (case get_run_job job d' of None \<Rightarrow> False | Some j \<Rightarrow> j_cancel j \<noteq> None)"
    using assms(4) one by (auto simp: renew_run_job_def Let_def)
  show "kept" by (rule d'(2))
  have jobs: "db_jobs d' = update_where (renewable c job owner gen) ?f (db_jobs d)" by (simp add: d'(1))
  have ids': "distinct (map j_id (db_jobs d'))"
    unfolding jobs by (subst map_update_where_key) (use ids in simp_all)
  have mem: "?f j \<in> set (db_jobs d')" unfolding jobs set_update_where using assms(2,3) by force
  have only: "x = ?f j" if "x \<in> set (db_jobs d')" "j_id x = job" for x
    using job_same_row [OF ids' that(1) mem] that(2) assms(3) by (simp add: held_by_def)
  have "get_run_job job d' \<noteq> None" using mem assms(3) by (auto simp: get_run_job_def find_None_iff held_by_def)
  then obtain x where x: "get_run_job job d' = Some x" by blast
  then have "x = ?f j" using find_SomeD [OF x [unfolded get_run_job_def]] only by blast
  then show "asked \<longleftrightarrow> j_cancel j \<noteq> None" using x by (simp add: asked)
  show "fence_open \<lparr>l_job = job, l_run = j_run j, l_owner = owner, l_gen = gen\<rparr> now d' \<longleftrightarrow> now < x_clock c 2 + lease"
  proof
    assume "fence_open \<lparr>l_job = job, l_run = j_run j, l_owner = owner, l_gen = gen\<rparr> now d'"
    then obtain x where "x \<in> set (db_jobs d')" "j_id x = job" "after (j_expires x) now"
      by (auto simp: fence_open_iff lease_holds_def)
    then show "now < x_clock c 2 + lease" using only [of x] by simp
  next
    assume "now < x_clock c 2 + lease"
    then show "fence_open \<lparr>l_job = job, l_run = j_run j, l_owner = owner, l_gen = gen\<rparr> now d'"
      unfolding fence_open_iff using assms(3) by (intro bexI [OF _ mem]) (simp add: lease_holds_def held_by_def)
  qed
qed

text \<open>a lease is renewed while its fence is open, and not after. \<open>renew_run_job\<close> succeeds exactly
  when the fence of that owner and generation is open at the time of the call; then the fence
  stays open until the new expiry and no longer, and the answer says whether the job was asked to
  stop; otherwise nothing changes.\<close>

theorem renewal_needs_an_open_fence:
  assumes "renew_run_job c job owner gen lease d = ((kept, asked), d')" "jobs_ok d"
  shows "(kept \<longleftrightarrow> (\<exists>run. fence_open \<lparr>l_job = job, l_run = run, l_owner = owner, l_gen = gen\<rparr> (x_clock c 1) d)) \<and>
    (\<not> kept \<longrightarrow> \<not> asked \<and> d' = d) \<and>
    (kept \<longrightarrow> (\<forall>j\<in>set (db_jobs d). j_id j = job \<longrightarrow> (asked \<longleftrightarrow> j_cancel j \<noteq> None) \<and>
      (\<forall>now. fence_open \<lparr>l_job = job, l_run = j_run j, l_owner = owner, l_gen = gen\<rparr> now d' \<longleftrightarrow>
        now < x_clock c 2 + lease)))"
proof (cases "\<exists>j\<in>set (db_jobs d). renewable c job owner gen j")
  case False
  then have "((kept, asked), d') = ((False, False), d)" using renew_refused assms(1) by metis
  then show ?thesis using False renewable_iff by simp
next
  case True
  then obtain j where j: "j \<in> set (db_jobs d)" "renewable c job owner gen j" by blast
  note r = renew_renews [OF assms(2) j assms(1)]
  have "x = j" if "x \<in> set (db_jobs d)" "j_id x = job" for x
    using job_same_row [of d x j] assms(2) that j by (simp add: jobs_ok_def held_by_def)
  then show ?thesis using r True renewable_iff by metis
qed

theorem renewal_needs_an_open_fence_witness:
  "fst (fst (renew_run_job free_ctx ''job_1'' ''w'' 1 500 demo_db)) \<and>
   fence_open demo_lease 400 (snd (renew_run_job free_ctx ''job_1'' ''w'' 1 500 demo_db))"
proof -
  let ?r = "renew_run_job free_ctx ''job_1'' ''w'' 1 500 demo_db"
  obtain kept asked d where d: "?r = ((kept, asked), d)" by (metis surj_pair)
  have "fst (fst ?r)" by code_simp
  then have kept: kept using d by simp
  have "jobs_ok demo_db" by (rule demo_queue_ok)
  moreover have "leased_job ''job_1'' ''run_1'' \<in> set (db_jobs demo_db)" by (simp add: demo_db_def)
  ultimately have "fence_open demo_lease 400 d"
    using renewal_needs_an_open_fence [OF d] kept
    by (fastforce simp: demo_lease_def free_ctx_def leased_job_def blank_job_def)
  then show ?thesis using d kept by simp
qed

end
