(* ===== verification/Threads.thy ===== *)
theory Threads
  imports Run_Jobs Artifacts
begin

text \<open>
  Threads and workspaces (store/threads.py, store/workspaces.py): the snapshots a client reads a
  conversation from, page by page, the change feed it follows, what it edits of a thread, and
  the workspaces it may use. Shown: the pages of a thread put together are the thread, and the
  change feed hands over every change once.
\<close>

subsection \<open>Threads\<close>

text \<open>\<open>" ".join(s.split())[:80]\<close>\<close>

definition short_title :: "string \<Rightarrow> string" where
  "short_title s = take 80 (join_with '' '' (py_split s))"

text \<open>The join of runs and jobs: a run that is not over, or one with an active job.\<close>

definition unsettled_thread :: "string \<Rightarrow> id \<Rightarrow> db \<Rightarrow> bool" where
  "unsettled_thread owner th d =
    list_ex (\<lambda>r. r_principal r = owner \<and> r_thread r = Some th \<and>
      (\<not> terminal_run (r_status r) \<or> list_ex (\<lambda>j. j_run j = r_id r \<and> active_job j) (db_jobs d))) (db_runs d)"

definition insert_change :: "string \<Rightarrow> id \<Rightarrow> nat \<Rightarrow> string \<Rightarrow> id option \<Rightarrow> time \<Rightarrow> db \<Rightarrow> db" where
  "insert_change owner th version ty run now d =
     d\<lparr>db_cursor := db_cursor d + 1,
       db_changes := db_changes d @
         [\<lparr>tc_cursor = db_cursor d + 1, tc_principal = owner, tc_thread = th, tc_version = version,
           tc_type = ty, tc_run = run, tc_created = now\<rparr>]\<rparr>"

definition set_thread :: "id \<Rightarrow> (thread_row \<Rightarrow> thread_row) \<Rightarrow> db \<Rightarrow> db" where
  "set_thread th f d = d\<lparr>db_threads := update_where (\<lambda>t. th_id t = th) f (db_threads d)\<rparr>"

definition open_thread :: "string \<Rightarrow> id \<Rightarrow> db \<Rightarrow> thread_row option" where
  "open_thread owner th d = find (\<lambda>t. th_principal t = owner \<and> th_id t = th \<and> th_deleted t = None) (db_threads d)"

definition next_archived :: "bool option \<Rightarrow> time \<Rightarrow> time option \<Rightarrow> time option" where
  "next_archived archived now current =
    (if archived = Some True \<and> current = None then Some now
     else if archived = Some False then None else current)"

definition update_thread ::
    "ctx \<Rightarrow> string \<Rightarrow> id \<Rightarrow> string option \<Rightarrow> dict option \<Rightarrow> bool option \<Rightarrow> db \<Rightarrow> thread_row option \<times> db" where
  "update_thread c owner th title metadata archived d =
    (case open_thread owner th d of
       None \<Rightarrow> (None, d)
     | Some t \<Rightarrow>
        (let now = x_clock c 1; v = th_version t + 1;
             d1 = insert_change owner th v ''thread.updated'' None now (set_thread th
               (\<lambda>x. x\<lparr>th_title := short_title (opt_or title (th_title t)),
                      th_metadata := (case metadata of None \<Rightarrow> th_metadata t | Some m \<Rightarrow> encode_payload (JObj m)),
                      th_archived := next_archived archived now (th_archived t), th_version := v, th_updated := now\<rparr>) d)
         in (find (\<lambda>x. th_id x = th) (db_threads d1), d1)))"

definition delete_thread :: "ctx \<Rightarrow> string \<Rightarrow> id \<Rightarrow> db \<Rightarrow> (nat option \<times> db) res" where
  "delete_thread c owner th d =
    (case find_thread d th owner of
       None \<Rightarrow> Inr (None, d)
     | Some t \<Rightarrow>
        if th_deleted t \<noteq> None then Inr (Some (th_version t), d)
        else if unsettled_thread owner th d then Inl RunResultConflictError
        else
         (let now = x_clock c 1; v = th_version t + 1
          in Inr (Some v, insert_change owner th v ''thread.deleted'' None now (set_thread th
               (\<lambda>x. x\<lparr>th_deleted := Some now, th_archived := Some now, th_version := v, th_updated := now\<rparr>) d))))"

subsection \<open>Reading threads\<close>

definition clamp :: "int \<Rightarrow> int \<Rightarrow> int \<Rightarrow> nat" where
  "clamp low high n = nat (max low (min n high))"

definition cursor_of :: "change_row list \<Rightarrow> nat" where
  "cursor_of cs = max_of (map tc_cursor cs)"

definition page_before :: "(time \<times> id) option \<Rightarrow> thread_row \<Rightarrow> bool" where
  "page_before before t = (case before of None \<Rightarrow> True | Some k \<Rightarrow> (th_created t, th_id t) < k)"

definition list_threads :: "string \<Rightarrow> int \<Rightarrow> (time \<times> id) option \<Rightarrow> db \<Rightarrow> thread_row list \<times> nat \<times> bool" where
  "list_threads owner limit before d =
    (let page = clamp 1 500 limit;
         rows = take (page + 1) (rev (select_by (\<lambda>t. (th_created t, th_id t))
           (\<lambda>t. th_principal t = owner \<and> th_deleted t = None \<and> page_before before t) (db_threads d)))
     in (take page rows, cursor_of (filter (\<lambda>x. tc_principal x = owner) (db_changes d)), page < length rows))"

text \<open>The changes after a cursor with the cursor to go on from.\<close>

definition thread_changes_since :: "string \<Rightarrow> int \<Rightarrow> int \<Rightarrow> db \<Rightarrow> change_row list \<times> nat" where
  "thread_changes_since owner after_cursor limit d =
    (let from_cursor = nat (max 0 after_cursor);
         rows = take (clamp 1 1000 limit) (select_by tc_cursor
           (\<lambda>x. tc_principal x = owner \<and> from_cursor < tc_cursor x) (db_changes d))
     in (rows, if rows = [] then from_cursor else tc_cursor (last rows)))"

definition visible :: "id \<Rightarrow> item_row \<Rightarrow> bool" where
  "visible th i \<longleftrightarrow> it_thread i = th \<and> it_superseded i = None"

definition item_order :: "item_row \<Rightarrow> nat \<times> id" where
  "item_order i = (it_position i, it_id i)"

definition placed_before :: "nat option \<Rightarrow> item_row \<Rightarrow> bool" where
  "placed_before before i = (case before of None \<Rightarrow> True | Some p \<Rightarrow> it_position i < p)"

text \<open>One page of a thread, in order, with the position to ask the page before it from.\<close>

definition item_page :: "int \<Rightarrow> id \<Rightarrow> nat option \<Rightarrow> db \<Rightarrow> item_row list \<times> nat option" where
  "item_page limit th before d =
    (let bound = clamp 2 500 limit;
         items = take (bound + 1) (rev (select_by item_order (\<lambda>i. visible th i \<and> placed_before before i) (db_items d)));
         page = rev (take bound items)
     in (page, if bound < length items then Some (it_position (page ! 0)) else None))"

text \<open>\<open>dict.fromkeys\<close> of the runs an item names.\<close>

definition item_runs :: "item_row list \<Rightarrow> id list" where
  "item_runs items =
    map fst (dict_of (\<lambda>x. x) (\<lambda>_. ()) (filter (\<lambda>x. x \<noteq> []) (map (\<lambda>i. opt_or (it_run i) []) items)))"

text \<open>\<open>d.setdefault(k, []).append(x)\<close> in a loop.\<close>

definition group_by_run :: "('a \<Rightarrow> id) \<Rightarrow> 'a list \<Rightarrow> (id \<times> 'a list) list" where
  "group_by_run k xs =
    foldl (\<lambda>g x. dset (k x) ((case map_of g (k x) of None \<Rightarrow> [] | Some l \<Rightarrow> l) @ [x]) g) [] xs"

definition presentation_types :: "string list" where
  "presentation_types =
    [''assistant.round.committed'', ''tool.requested'', ''tool.completed'', ''tool.failed'', ''tool.canceled'',
     ''subagent.spawned'', ''subagent.started'', ''subagent.waiting'', ''subagent.completed'', ''subagent.failed'',
     ''subagent.canceled'', ''subagent.outcome_unknown'', ''permission.required'', ''permission.resolved'',
     ''question.asked'', ''question.answered'', ''plan.approval_required'', ''plan.resolved'',
     ''tool.reconciliation_required'', ''tool.reconciliation_resolved'', ''artifact.created'', ''run.completed'',
     ''run.failed'', ''run.canceled'', ''run.cleanup_required'']"

text \<open>The events of an owner's runs, run by run.\<close>

definition event_order :: "db \<Rightarrow> event_row \<Rightarrow> nat \<times> id \<times> nat" where
  "event_order d e =
    ((case get_run_row d (e_run e) of None \<Rightarrow> 0 | Some r \<Rightarrow> seconds (r_created r)), e_run e, e_seq e)"

definition owned_events :: "string \<Rightarrow> id list \<Rightarrow> (event_row \<Rightarrow> bool) \<Rightarrow> db \<Rightarrow> event_row list" where
  "owned_events owner runs p d =
    select_by (event_order d) (\<lambda>e. e_run e \<in> set runs \<and> get_owned_run owner (e_run e) d \<noteq> None \<and> p e) (db_events d)"

definition owned_runs :: "string \<Rightarrow> id list \<Rightarrow> db \<Rightarrow> run_row list" where
  "owned_runs owner runs d =
    select_by (\<lambda>r. (seconds (r_created r), r_id r)) (\<lambda>r. r_principal r = owner \<and> r_id r \<in> set runs) (db_runs d)"

record thread_snapshot =
  sn_thread :: thread_row
  sn_items :: "item_row list"
  sn_runs :: "((run_row \<times> (id \<times> string) option) \<times> nat \<times> dict list) list"
  sn_events :: "event_row list"
  sn_presentation :: "event_row list"
  sn_presentation_high :: "(id \<times> nat) list"
  sn_receipts :: "(id \<times> receipt_row list) list"
  sn_waits :: "(id \<times> wait_row list) list"
  sn_artifacts :: "(id \<times> artifact_row list) list"
  sn_event_high :: "(id \<times> nat) list"
  sn_cursor :: nat
  sn_before :: "nat option"
  sn_truncated :: bool

definition seen_high :: "event_row list \<Rightarrow> (id \<times> nat) list \<Rightarrow> (id \<times> nat) list" where
  "seen_high es start =
    foldl (\<lambda>h e. dset (e_run e) (max (case map_of h (e_run e) of None \<Rightarrow> 0 | Some n \<Rightarrow> n) (e_seq e)) h) start es"

definition last_high :: "event_row list \<Rightarrow> (id \<times> nat) list \<Rightarrow> (id \<times> nat) list" where
  "last_high es start = foldl (\<lambda>h e. dset (e_run e) (e_seq e) h) start es"

text \<open>\<open>has_more_items\<close> is \<open>sn_before \<noteq> None\<close>: a page is never empty when more items are left.\<close>

definition get_thread_snapshot ::
    "string \<Rightarrow> id \<Rightarrow> nat option \<Rightarrow> int \<Rightarrow> int \<Rightarrow> nat option \<Rightarrow> db \<Rightarrow> thread_snapshot option res" where
  "get_thread_snapshot owner th before item_limit event_limit expected d =
    (case open_thread owner th d of
       None \<Rightarrow> Inr None
     | Some t \<Rightarrow>
        if expected \<noteq> None \<and> expected \<noteq> Some (th_version t) then Inl RunResultConflictError
        else
         (let (items, next) = item_page item_limit th before d;
              runs = item_runs items;
              bound = clamp 1 10000 event_limit;
              all = take (bound + 1) (owned_events owner runs (\<lambda>_. True) d);
              events = take bound all;
              shown = owned_events owner runs (\<lambda>e. e_type e \<in> set presentation_types) d;
              subagents = group_by_run (\<lambda>x. py_str (dget x ''parent_run_id'')) (list_subagent_invocations_for_runs runs d)
          in Inr (Some
           \<lparr>sn_thread = t, sn_items = items,
            sn_runs = map (\<lambda>r. (with_command d r, count_where (\<lambda>e. e_run e = r_id r) (db_events d),
              (case map_of subagents (r_id r) of None \<Rightarrow> [] | Some l \<Rightarrow> l))) (owned_runs owner runs d),
            sn_events = events, sn_presentation = shown,
            sn_presentation_high = last_high shown (map (\<lambda>i. (i, 0)) runs),
            sn_receipts = group_by_run t_run (select_by (\<lambda>t. (t_created t, t_op t)) (\<lambda>t. t_run t \<in> set runs) (db_receipts d)),
            sn_waits = group_by_run w_run (select_by (\<lambda>w. (w_created w, w_id w)) (\<lambda>w. w_run w \<in> set runs) (db_waits d)),
            sn_artifacts = group_by_run a_run (select_by (\<lambda>a. (a_created a, a_id a)) (\<lambda>a. a_run a \<in> set runs) (db_artifacts d)),
            sn_event_high = seen_high events (map (\<lambda>i. (i, 0)) runs),
            sn_cursor = cursor_of (filter (\<lambda>x. tc_principal x = owner \<and> tc_thread x = th) (db_changes d)),
            sn_before = next, sn_truncated = bound < length all\<rparr>)))"

record run_facts =
  rf_run :: run_row
  rf_item :: "item_row option"
  rf_events :: "event_row list"
  rf_receipts :: "receipt_row list"
  rf_waits :: "wait_row list"
  rf_artifacts :: "artifact_row list"
  rf_high :: nat

definition get_run_presentation_facts :: "id \<Rightarrow> db \<Rightarrow> run_facts option" where
  "get_run_presentation_facts run d =
    (case get_run_row d run of
       None \<Rightarrow> None
     | Some r \<Rightarrow>
        (let events = select_by e_seq (\<lambda>e. e_run e = run \<and> e_type e \<in> set presentation_types) (db_events d)
         in Some \<lparr>rf_run = r,
              rf_item = (if opt_or (r_item r) [] = [] then None
                else find (\<lambda>i. it_id i = opt_or (r_item r) [] \<and> it_run i = Some run) (db_items d)),
              rf_events = events,
              rf_receipts = select_by (\<lambda>t. (t_created t, t_op t)) (\<lambda>t. t_run t = run) (db_receipts d),
              rf_waits = select_by (\<lambda>w. (w_created w, w_id w)) (\<lambda>w. w_run w = run) (db_waits d),
              rf_artifacts = select_by (\<lambda>a. (a_created a, a_id a)) (\<lambda>a. a_run a = run) (db_artifacts d),
              rf_high = (if events = [] then 0 else e_seq (last events))\<rparr>))"

subsection \<open>Workspaces\<close>

definition workspace_by_path :: "string \<Rightarrow> string \<Rightarrow> db \<Rightarrow> workspace_row option" where
  "workspace_by_path owner path d = find (\<lambda>w. ws_principal w = owner \<and> ws_path w = path) (db_workspaces d)"

definition create_workspace :: "ctx \<Rightarrow> string \<Rightarrow> string \<Rightarrow> string \<Rightarrow> db \<Rightarrow> (workspace_row \<times> db) res" where
  "create_workspace c owner path label d =
    (let (i, d1) = new_id ''ws'' d
     in (case workspace_by_path owner path d1 of
           Some w \<Rightarrow> Inr (w, d1)
         | None \<Rightarrow>
            if list_ex (\<lambda>w. ws_id w = i) (db_workspaces d1) then Inl SqlIntegrityError
            else
             (let w = \<lparr>ws_id = i, ws_principal = owner, ws_path = path, ws_label = label,
                       ws_created = x_clock c 1, ws_used = x_clock c 2\<rparr>
              in Inr (w, d1\<lparr>db_workspaces := db_workspaces d1 @ [w]\<rparr>))))"

definition list_workspaces :: "string \<Rightarrow> db \<Rightarrow> workspace_row list" where
  "list_workspaces owner d = rev (select_by ws_used (\<lambda>w. ws_principal w = owner) (db_workspaces d))"

definition workspace_admission_error :: "(string \<Rightarrow> bool) \<Rightarrow> string \<Rightarrow> string option \<Rightarrow> db \<Rightarrow> string option" where
  "workspace_admission_error path_gone owner path d =
    (if workspace_unauthorized owner path d then Some ''workspace is not authorized''
     else if workspace_path_error path_gone path then Some ''workspace is no longer available'' else None)"

definition delete_workspace :: "string \<Rightarrow> id \<Rightarrow> db \<Rightarrow> bool \<times> db" where
  "delete_workspace owner i d =
    (let mine = (\<lambda>w. ws_principal w = owner \<and> ws_id w = i)
     in (0 < count_where mine (db_workspaces d), d\<lparr>db_workspaces := filter (\<lambda>w. \<not> mine w) (db_workspaces d)\<rparr>))"

definition touch_workspace :: "ctx \<Rightarrow> string \<Rightarrow> id \<Rightarrow> db \<Rightarrow> db" where
  "touch_workspace c owner i d =
     d\<lparr>db_workspaces := update_where (\<lambda>w. ws_principal w = owner \<and> ws_id w = i) (\<lambda>w. w\<lparr>ws_used := x_clock c 1\<rparr>) (db_workspaces d)\<rparr>"

text \<open>
  The recursive query over the lineage of a run: its parent, the parent's parent and so on, the
  owner's runs only, up to 64 steps further.
\<close>

fun run_lineage :: "db \<Rightarrow> string \<Rightarrow> nat \<Rightarrow> id \<Rightarrow> id list" where
  "run_lineage d owner n i = i # (case n of 0 \<Rightarrow> []
     | Suc m \<Rightarrow> (case get_owned_run owner i d of
          None \<Rightarrow> [] | Some r \<Rightarrow> (case r_parent r of None \<Rightarrow> [] | Some p \<Rightarrow> run_lineage d owner m p)))"

definition unknown_receipts :: "string \<Rightarrow> string \<Rightarrow> string \<Rightarrow> string \<Rightarrow> db \<Rightarrow> id \<Rightarrow> receipt_row list" where
  "unknown_receipts owner tool args_hash risk d i =
    (if get_owned_run owner i d = None then []
     else rev (select_by t_updated (\<lambda>t. t_run t = i \<and> t_name t = tool \<and> t_args_hash t = args_hash \<and> t_risk t = risk \<and>
       t_status t = ToolOutcomeUnknown) (db_receipts d)))"

definition find_outcome_unknown_tool_receipt_in_lineage ::
    "id \<Rightarrow> string \<Rightarrow> string \<Rightarrow> string \<Rightarrow> db \<Rightarrow> receipt_row option" where
  "find_outcome_unknown_tool_receipt_in_lineage run tool args_hash risk d =
    (case get_run_row d run of
       None \<Rightarrow> None
     | Some r \<Rightarrow>
        (case r_parent r of
           None \<Rightarrow> None
         | Some p \<Rightarrow> find (\<lambda>_. True)
             (concat (map (unknown_receipts (r_principal r) tool args_hash risk d) (run_lineage d (r_principal r) 64 p)))))"


subsection \<open>Reading a thread page by page\<close>

text \<open>The whole visible thread, and what a client that follows \<open>next_before_position\<close> puts together.\<close>

definition thread_items :: "id \<Rightarrow> db \<Rightarrow> item_row list" where
  "thread_items th d = select_by item_order (visible th) (db_items d)"

fun older_pages :: "nat \<Rightarrow> int \<Rightarrow> id \<Rightarrow> nat option \<Rightarrow> db \<Rightarrow> item_row list option" where
  "older_pages 0 limit th before d = None"
| "older_pages (Suc n) limit th before d =
    (let (page, next) = item_page limit th before d
     in (case next of
           None \<Rightarrow> Some page
         | Some p \<Rightarrow> map_option (\<lambda>older. older @ page) (older_pages n limit th (Some p) d)))"

text \<open>The visible items of a thread stand at positions of their own.\<close>

definition placed :: "id \<Rightarrow> db \<Rightarrow> bool" where
  "placed th d \<longleftrightarrow> distinct (map it_position (filter (visible th) (db_items d)))"

lemma clamp_bounds: "low \<le> high \<Longrightarrow> nat low \<le> clamp low high n \<and> clamp low high n \<le> nat high"
  by (auto simp: clamp_def)

lemma select_by_conj: "select_by k (\<lambda>x. p x \<and> q x) t = filter q (select_by k p t)"
  by (simp add: select_by_def filter_sort conj_commute)

lemma thread_items_increase:
  assumes "placed th d"
  shows "sorted_wrt (\<lambda>i j. it_position i < it_position j) (thread_items th d)"
proof -
  let ?xs = "thread_items th d"
  have s: "sorted (map item_order ?xs)" unfolding thread_items_def by (rule sorted_select_by)
  have d: "distinct (map it_position ?xs)"
    using assms by (simp add: placed_def thread_items_def select_by_def distinct_map)
  show ?thesis
  proof (rule sorted_wrt_iff_nth_less [THEN iffD2], intro allI impI)
    fix i j assume ij: "i < j" "j < length ?xs"
    then have "item_order (?xs ! i) \<le> item_order (?xs ! j)"
      using s by (simp add: sorted_iff_nth_mono)
    then have "it_position (?xs ! i) \<le> it_position (?xs ! j)" by (auto simp: item_order_def less_eq_prod_def)
    moreover have "it_position (?xs ! i) \<noteq> it_position (?xs ! j)"
      using d ij by (simp add: distinct_conv_nth)
    ultimately show "it_position (?xs ! i) < it_position (?xs ! j)" by simp
  qed
qed

lemma filter_below_nth:
  assumes "sorted_wrt (\<lambda>i j. f i < f j) xs" "k < length xs"
  shows "filter (\<lambda>i. f i < (f (xs ! k) :: nat)) xs = take k xs"
proof -
  have "filter (\<lambda>i. f i < f (xs ! k)) (take k xs @ drop k xs) = take k xs @ []"
    unfolding filter_append
  proof (rule arg_cong2 [where f = append])
    show "filter (\<lambda>i. f i < f (xs ! k)) (take k xs) = take k xs"
      using assms by (auto simp: filter_id_conv in_set_conv_nth sorted_wrt_iff_nth_less)
    have "f (xs ! k) \<le> f x" if x: "x \<in> set (drop k xs)" for x
    proof -
      obtain i where i: "i < length xs - k" "x = xs ! (k + i)"
        using x assms(2) by (fastforce simp: in_set_conv_nth)
      show ?thesis using assms(1) i by (cases i) (auto simp: sorted_wrt_iff_nth_less less_imp_le)
    qed
    then show "filter (\<lambda>i. f i < f (xs ! k)) (drop k xs) = []" by (auto simp: filter_empty_conv not_less)
  qed
  then show ?thesis by simp
qed

text \<open>A page before some place takes the last items before it.\<close>

lemma last_page: "rev (take b (take (b + 1) (rev ys))) = drop (length ys - b) ys"
  by (simp add: rev_take min_def)

lemma item_page_eq:
  assumes "placed th d" "n \<le> length (thread_items th d)"
    and "before = None \<and> n = length (thread_items th d) \<or>
      (n < length (thread_items th d) \<and> before = Some (it_position (thread_items th d ! n)))"
  shows "item_page limit th before d =
    (drop (n - clamp 2 500 limit) (take n (thread_items th d)),
     if clamp 2 500 limit < n then Some (it_position (thread_items th d ! (n - clamp 2 500 limit))) else None)"
proof -
  let ?b = "clamp 2 500 limit" and ?xs = "thread_items th d"
  have before: "select_by item_order (\<lambda>i. visible th i \<and> placed_before before i) (db_items d) = take n ?xs"
    using assms(3) filter_below_nth [OF thread_items_increase [OF assms(1)]]
    by (auto simp: select_by_conj thread_items_def [symmetric] placed_before_def)
  have b: "2 \<le> ?b" using clamp_bounds [of 2 500 limit] by simp
  have page: "rev (take ?b (take (?b + 1) (rev (take n ?xs)))) = drop (n - ?b) (take n ?xs)"
    using last_page [of ?b "take n ?xs"] assms(2) by simp
  show ?thesis
    using assms(2) b page unfolding item_page_def before Let_def
    by (auto simp: min_def)
qed

lemma older_pages_complete:
  assumes "placed th d" "n \<le> length (thread_items th d)" "n < fuel"
    and "before = None \<and> n = length (thread_items th d) \<or>
      (n < length (thread_items th d) \<and> before = Some (it_position (thread_items th d ! n)))"
  shows "older_pages fuel limit th before d = Some (take n (thread_items th d))"
  using assms(2-)
proof (induction fuel arbitrary: n before)
  case 0
  then show ?case by simp
next
  case (Suc fuel)
  let ?b = "clamp 2 500 limit" and ?xs = "thread_items th d"
  note page = item_page_eq [OF assms(1) Suc.prems(1,3), of limit]
  have b: "2 \<le> ?b" using clamp_bounds [of 2 500 limit] by simp
  show ?case
  proof (cases "?b < n")
    case True
    have "older_pages fuel limit th (Some (it_position (?xs ! (n - ?b)))) d = Some (take (n - ?b) ?xs)"
      by (rule Suc.IH) (use True b Suc.prems in auto)
    moreover have "take (n - ?b) ?xs @ drop (n - ?b) (take n ?xs) = take n ?xs"
      using append_take_drop_id [of "n - ?b" "take n ?xs"] by simp
    ultimately show ?thesis using True page by simp
  next
    case False
    then show ?thesis using page by simp
  qed
qed

subsection \<open>Following the changes\<close>

definition changes_after :: "string \<Rightarrow> nat \<Rightarrow> db \<Rightarrow> change_row list" where
  "changes_after owner n d = filter (\<lambda>x. tc_principal x = owner \<and> n < tc_cursor x) (db_changes d)"

lemma select_changes:
  "change_feed_ok d \<Longrightarrow> select_by tc_cursor p (db_changes d) = filter p (db_changes d)"
proof -
  assume "change_feed_ok d"
  then have "sorted_wrt (\<lambda>a b. tc_cursor a < tc_cursor b) (filter p (db_changes d))"
    by (simp add: change_feed_ok_def sorted_wrt_filter)
  then have "sorted (map tc_cursor (filter p (db_changes d)))"
    by (auto simp: sorted_wrt_map intro: sorted_wrt_mono_rel [rotated] less_imp_le)
  then show "select_by tc_cursor p (db_changes d) = filter p (db_changes d)"
    by (simp add: select_by_def sort_key_id_if_sorted)
qed


lemma changes_sorted: "change_feed_ok d \<Longrightarrow> sorted_wrt (\<lambda>a b. tc_cursor a < tc_cursor b) (changes_after owner n d)"
  by (simp add: change_feed_ok_def changes_after_def sorted_wrt_filter)

lemma below_last: "sorted_wrt (\<lambda>a b. f a < (f b :: nat)) xs \<Longrightarrow> \<forall>x\<in>set xs. f x \<le> f (last xs)"
proof (induction xs)
  case (Cons x xs)
  then show ?case by (cases "xs = []") (auto simp: less_imp_le)
qed simp

lemma changes_after_read:
  assumes "change_feed_ok d" "thread_changes_since owner (int n) limit d = (rows, m)"
  shows "n \<le> m" "changes_after owner n d = rows @ changes_after owner m d"
    "rows = [] \<longleftrightarrow> changes_after owner n d = []"
proof -
  let ?k = "clamp 1 1000 limit" and ?xs = "changes_after owner n d"
  have xs: "select_by tc_cursor (\<lambda>x. tc_principal x = owner \<and> n < tc_cursor x) (db_changes d) = ?xs"
    by (simp add: select_changes [OF assms(1)] changes_after_def)
  have rows: "rows = take ?k ?xs" and m: "m = (if rows = [] then n else tc_cursor (last rows))"
    using assms(2) xs by (auto simp: thread_changes_since_def Let_def)
  have k: "1 \<le> ?k" using clamp_bounds [of 1 1000 limit] by simp
  then show none: "rows = [] \<longleftrightarrow> ?xs = []" using rows by auto
  have "n \<le> m \<and> ?xs = rows @ changes_after owner m d"
  proof (cases "?xs = []")
    case True
    then show ?thesis using none m by simp
  next
    case False
    then have ne: "rows \<noteq> []" using none by simp
    then have m: "m = tc_cursor (last rows)" using m by simp
    have last: "last rows \<in> set ?xs" using ne rows by (metis in_set_takeD last_in_set)
    have split: "?xs = rows @ drop ?k ?xs" using rows append_take_drop_id [of ?k ?xs] by simp
    have sorted: "sorted_wrt (\<lambda>a b. tc_cursor a < tc_cursor b) (rows @ drop ?k ?xs)"
      using changes_sorted [OF assms(1)] split by metis
    have below: "\<forall>x\<in>set rows. tc_cursor x \<le> m"
      using below_last [of tc_cursor rows] sorted m by (simp add: sorted_wrt_append)
    have above: "\<forall>x\<in>set (drop ?k ?xs). m < tc_cursor x"
      using sorted ne m by (auto simp: sorted_wrt_append)
    have nm: "n < m" using last m by (simp add: changes_after_def)
    have "changes_after owner m d = filter (\<lambda>x. m < tc_cursor x) ?xs"
      using nm by (auto simp: changes_after_def intro!: filter_cong)
    also have "\<dots> = filter (\<lambda>x. m < tc_cursor x) rows @ filter (\<lambda>x. m < tc_cursor x) (drop ?k ?xs)"
      using split by (metis filter_append)
    also have "\<dots> = drop ?k ?xs" using below above by (simp add: not_less [symmetric] filter_empty_conv)
    finally show ?thesis using nm split by simp
  qed
  then show "n \<le> m" "?xs = rows @ changes_after owner m d" by simp_all
qed

lemma changes_after_later:
  assumes "change_feed_ok d'" "db_changes d' = db_changes d @ new"
    and "thread_changes_since owner (int n) limit d = (rows, m)" "change_feed_ok d"
  shows "changes_after owner n d' = rows @ changes_after owner m d'"
proof -
  note read = changes_after_read [OF assms(4,3)]
  have m: "m = n \<or> (\<exists>x\<in>set (db_changes d). tc_cursor x = m)"
  proof (cases "rows = []")
    case False
    then have "last rows \<in> set (changes_after owner n d)" using read(2) by simp
    then show ?thesis using assms(3) False by (auto simp: thread_changes_since_def Let_def changes_after_def)
  qed (use assms(3) in \<open>auto simp: thread_changes_since_def Let_def\<close>)
  have "\<forall>x\<in>set (db_changes d). \<forall>y\<in>set new. tc_cursor x < tc_cursor y"
    using assms(1,2) by (simp add: change_feed_ok_def sorted_wrt_append)
  then have new: "filter (\<lambda>x. tc_principal x = owner \<and> n < tc_cursor x) new =
      filter (\<lambda>x. tc_principal x = owner \<and> m < tc_cursor x) new"
    using m read(1) by (intro filter_cong) fastforce+
  have split: "changes_after owner k d' = changes_after owner k d @ filter (\<lambda>x. tc_principal x = owner \<and> k < tc_cursor x) new" for k
    by (simp add: changes_after_def assms(2))
  show ?thesis unfolding split new read(2) by simp
qed

subsection \<open>Properties\<close>

text \<open>C29: A client that reads a thread backwards, each time from the position the page before
  named, ends after at most as many pages as there are items, whatever page size it asks for,
  and has then read every visible item exactly once and in order.\<close>

theorem thread_pages_cover:
  assumes "placed th d" "length (thread_items th d) < fuel"
  shows "older_pages fuel limit th None d = Some (select_by item_order (visible th) (db_items d))"
  using older_pages_complete [OF assms(1) order_refl assms(2), of None limit] by (simp add: thread_items_def)

definition paged_item :: "nat \<Rightarrow> item_row" where
  "paged_item n = \<lparr>it_id = replicate n (CHR ''i''), it_thread = ''thread_1'', it_run = None, it_client = None,
     it_type = ''user_message'', it_status = ''completed'', it_content = ''text'', it_metadata = JObj [],
     it_position = n, it_high = 0, it_version = 1, it_created = 1, it_updated = 1, it_completed = None,
     it_superseded = (if n = 4 then Some 9 else None), it_superseded_by = None\<rparr>"

definition paged_db :: db where
  "paged_db = demo_db\<lparr>db_items := map paged_item [3, 1, 2, 4, 5, 6]\<rparr>"

lemma thread_pages_cover_witness:
  "placed ''thread_1'' paged_db \<and>
   map_option (map it_position) (older_pages 9 2 ''thread_1'' None paged_db) = Some [1, 2, 3, 5, 6]"
proof -
  have p: "placed ''thread_1'' paged_db" "length (thread_items ''thread_1'' paged_db) < 9"
    "map it_position (select_by item_order (visible ''thread_1'') (db_items paged_db)) = [1, 2, 3, 5, 6]"
    by code_simp+
  show ?thesis using thread_pages_cover [OF p(1,2), of 2] p(1,3) by simp
qed

text \<open>C30: The change feed hands over every change of an owner exactly once and in order: what a
  reader that stands at a cursor has still to see is what it is given next and then what it has
  still to see from the cursor it is given, also when more changes were made in the meantime;
  it is given nothing only when nothing is left.\<close>

theorem change_feed_is_complete:
  assumes "change_feed_ok d" "change_feed_ok d'" "db_changes d' = db_changes d @ new"
    and "thread_changes_since owner (int n) limit d = (rows, m)"
  shows "changes_after owner n d' = rows @ changes_after owner m d' \<and> n \<le> m \<and>
    (rows = [] \<longleftrightarrow> changes_after owner n d = [])"
  using changes_after_later [OF assms(2,3,4,1)] changes_after_read [OF assms(1,4)] by blast

definition feed_db :: "nat list \<Rightarrow> db" where
  "feed_db ns = foldl (\<lambda>d i. insert_change ''local'' ''thread_1'' i ''thread.updated'' None i d)
     (demo_db\<lparr>db_threads := map (\<lambda>t. t\<lparr>th_version := 9\<rparr>) (db_threads demo_db)\<rparr>) ns"

lemma change_feed_is_complete_witness:
  "\<exists>rows m. thread_changes_since ''local'' (int 1) 2 (feed_db [2, 3, 4, 5]) = (rows, m) \<and>
     changes_after ''local'' 1 (feed_db [2, 3, 4, 5, 6, 7]) = rows @ changes_after ''local'' m (feed_db [2, 3, 4, 5, 6, 7])"
proof -
  obtain rows m where r: "thread_changes_since ''local'' (int 1) 2 (feed_db [2, 3, 4, 5]) = (rows, m)" by fastforce
  have ok: "change_feed_ok (feed_db [2, 3, 4, 5])" "change_feed_ok (feed_db [2, 3, 4, 5, 6, 7])"
    by code_simp+
  have later: "db_changes (feed_db [2, 3, 4, 5, 6, 7]) = db_changes (feed_db [2, 3, 4, 5]) @ drop 4 (db_changes (feed_db [2, 3, 4, 5, 6, 7]))"
    by code_simp
  show ?thesis using change_feed_is_complete [OF ok later r] r by blast
qed

end
