(* ===== verification/Plugins.thy ===== *)
theory Plugins
  imports Run_Control
begin

text \<open>
  The plugin tables of the Runtime database (store/plugins): versions by digest, the
  installation of each principal, the setup flow, the commands that install, update, roll back,
  remove, enable and configure a plugin, and the bindings a run is admitted with. \<open>sha\<close> stands
  for the hexadecimal SHA-256 of a text. Shown: the registry stays consistent under every
  operation (a digest is one plugin in one version for ever, an installation points at a
  version of its own plugin, what is enabled is installed), and what a run is bound to is
  enabled, compatible and the digest that was asked for.
\<close>

subsection \<open>Rows\<close>

record version_row =
  pv_plugin :: id
  pv_version :: string
  pv_digest :: string
  pv_manifest :: dict
  pv_execution :: string
  pv_signature :: string
  pv_signer :: "string option"
  pv_compat :: string
  pv_source :: string
  pv_state :: string
  pv_created :: time
  pv_updated :: time
  pv_retired :: "time option"

record installation_row =
  pi_principal :: string
  pi_plugin :: id
  pi_digest :: string
  pi_enabled :: bool
  pi_source :: string
  pi_revision :: nat
  pi_model :: "json option"
  pi_model_revision :: nat
  pi_created :: time
  pi_updated :: time
  pi_retired :: "time option"

record setup_row =
  ps_principal :: string
  ps_plugin :: id
  ps_stage :: string
  ps_revision :: nat
  ps_updated :: time

record plugins =
  pg_versions :: "version_row list"
  pg_installs :: "installation_row list"
  pg_setups :: "setup_row list"

datatype plugin_error = PluginStateError string | PluginVersionConflictError | StoreFault store_error

type_synonym 'a pres = "plugin_error + 'a"

definition lift_res :: "'a res \<Rightarrow> 'a pres" where
  "lift_res m = (case m of Inl e \<Rightarrow> Inl (StoreFault e) | Inr x \<Rightarrow> Inr x)"

lemma lift_res_Inr_iff [res_simps]: "lift_res m = Inr x \<longleftrightarrow> m = Inr x"
  by (cases m) (simp_all add: lift_res_def)

text \<open>\<open>d[k]\<close>\<close>

definition item :: "dict \<Rightarrow> string \<Rightarrow> json pres" where
  "item d k = (if has_key d k then Inr (dget d k) else Inl (StoreFault PyKeyError))"

definition find_version :: "string \<Rightarrow> plugins \<Rightarrow> version_row option" where
  "find_version digest p = find (\<lambda>v. pv_digest v = digest) (pg_versions p)"

definition find_release :: "id \<Rightarrow> string \<Rightarrow> plugins \<Rightarrow> version_row option" where
  "find_release plugin version p = find (\<lambda>v. pv_plugin v = plugin \<and> pv_version v = version) (pg_versions p)"

definition find_installation :: "string \<Rightarrow> id \<Rightarrow> plugins \<Rightarrow> installation_row option" where
  "find_installation owner plugin p = find (\<lambda>i. pi_principal i = owner \<and> pi_plugin i = plugin) (pg_installs p)"

text \<open>The installation joined with the version its active digest names.\<close>

definition active_version :: "string \<Rightarrow> id \<Rightarrow> plugins \<Rightarrow> (installation_row \<times> version_row) option" where
  "active_version owner plugin p =
    (case find_installation owner plugin p of
       None \<Rightarrow> None
     | Some i \<Rightarrow> map_option (\<lambda>v. (i, v)) (find_version (pi_digest i) p))"

definition set_installation ::
    "string \<Rightarrow> id \<Rightarrow> (installation_row \<Rightarrow> installation_row) \<Rightarrow> plugins \<Rightarrow> plugins" where
  "set_installation owner plugin f p =
    p\<lparr>pg_installs := update_where (\<lambda>i. pi_principal i = owner \<and> pi_plugin i = plugin) f (pg_installs p)\<rparr>"

definition set_version :: "string \<Rightarrow> (version_row \<Rightarrow> version_row) \<Rightarrow> plugins \<Rightarrow> plugins" where
  "set_version digest f p = p\<lparr>pg_versions := update_where (\<lambda>v. pv_digest v = digest) f (pg_versions p)\<rparr>"

definition insert_version :: "version_row \<Rightarrow> plugins \<Rightarrow> plugins pres" where
  "insert_version v p =
    (if list_ex (\<lambda>x. pv_digest x = pv_digest v \<or> (pv_plugin x = pv_plugin v \<and> pv_version x = pv_version v)) (pg_versions p) \<or>
        pv_execution v \<notin> {''wasi'', ''managed_worker'', ''builtin''} \<or>
        pv_signature v \<notin> {''unsigned'', ''verified''} \<or> pv_compat v \<notin> {''compatible'', ''incompatible''}
     then Inl (StoreFault SqlIntegrityError)
     else Inr (p\<lparr>pg_versions := pg_versions p @ [v]\<rparr>))"

text \<open>The active digest is a foreign key; an update that moves it is checked like an insert.\<close>

definition insert_installation :: "installation_row \<Rightarrow> plugins \<Rightarrow> plugins pres" where
  "insert_installation i p =
    (if find_installation (pi_principal i) (pi_plugin i) p \<noteq> None \<or> find_version (pi_digest i) p = None
     then Inl (StoreFault SqlIntegrityError)
     else Inr (p\<lparr>pg_installs := pg_installs p @ [i]\<rparr>))"

definition activate :: "string \<Rightarrow> id \<Rightarrow> string \<Rightarrow> time \<Rightarrow> plugins \<Rightarrow> plugins pres" where
  "activate owner plugin digest now p =
    (if find_version digest p = None then Inl (StoreFault SqlIntegrityError)
     else Inr (set_installation owner plugin
       (\<lambda>i. i\<lparr>pi_digest := digest, pi_revision := pi_revision i + 1, pi_updated := now\<rparr>) p))"

definition reinstate :: "string \<Rightarrow> time \<Rightarrow> plugins \<Rightarrow> plugins" where
  "reinstate digest now = set_version digest (\<lambda>v. v\<lparr>pv_state := ''installed'', pv_retired := None, pv_updated := now\<rparr>)"

subsection \<open>Commands\<close>

text \<open>
  A plugin command: answered from its receipt when it was accepted before, otherwise its body
  changes the plugin tables and the receipt is recorded, in one transaction over both.
\<close>

definition plugin_command ::
    "string \<Rightarrow> id \<Rightarrow> string \<Rightarrow> dict \<Rightarrow> (plugins \<Rightarrow> ((dict \<times> time) \<times> plugins) pres) \<Rightarrow> plugins \<Rightarrow> db \<Rightarrow>
      ((json \<times> bool) \<times> plugins \<times> db) pres" where
  "plugin_command owner i ty payload body p d =
    bindr (lift_res (accepted_command_receipt owner i ty (encode_payload (JObj payload)) d)) (\<lambda>existing.
    case existing of
      Some response \<Rightarrow> Inr ((response, False), p, d)
    | None \<Rightarrow>
       bindr (body p) (\<lambda>((receipt, created), p1).
       bindr (lift_res (put_command_receipt owner i ty (encode_payload (JObj payload)) receipt created None d)) (\<lambda>d1.
       Inr ((JObj receipt, True), p1, d1))))"

text \<open>A checked package: its manifest, digest, and what the check of the package found.\<close>

record package =
  pk_manifest :: dict
  pk_digest :: string
  pk_signature :: string
  pk_signer :: "string option"
  pk_compat :: string
  pk_source :: string

fun obj_item :: "json \<Rightarrow> string \<Rightarrow> json pres" where
  "obj_item (JObj d) k = item d k"
| "obj_item _ k = Inl (StoreFault PyValueError)"

definition manifest_id :: "package \<Rightarrow> id pres" where
  "manifest_id k = bindr (item (pk_manifest k) ''id'') (\<lambda>x. Inr (py_str x))"

definition manifest_version :: "package \<Rightarrow> string pres" where
  "manifest_version k = bindr (item (pk_manifest k) ''version'') (\<lambda>x. Inr (py_str x))"

definition manifest_execution :: "package \<Rightarrow> string pres" where
  "manifest_execution k =
    bindr (item (pk_manifest k) ''runtime'') (\<lambda>r. bindr (obj_item r ''execution'') (\<lambda>e.
    bindr (obj_item e ''kind'') (\<lambda>x. Inr (py_str x))))"

definition version_of :: "package \<Rightarrow> id \<Rightarrow> string \<Rightarrow> string \<Rightarrow> time \<Rightarrow> version_row" where
  "version_of k plugin version execution now =
     \<lparr>pv_plugin = plugin, pv_version = version, pv_digest = pk_digest k, pv_manifest = pk_manifest k,
      pv_execution = execution, pv_signature = pk_signature k, pv_signer = pk_signer k, pv_compat = pk_compat k,
      pv_source = pk_source k, pv_state = ''installed'', pv_created = now, pv_updated = now, pv_retired = None\<rparr>"

definition check_release :: "id \<Rightarrow> string \<Rightarrow> string \<Rightarrow> plugins \<Rightarrow> version_row option pres" where
  "check_release plugin version digest p =
    (case find_release plugin version p of
       None \<Rightarrow> Inr None
     | Some v \<Rightarrow> if pv_digest v \<noteq> digest then Inl PluginVersionConflictError else Inr (Some v))"

definition install_version :: "package \<Rightarrow> id \<Rightarrow> string \<Rightarrow> string \<Rightarrow> time \<Rightarrow> plugins \<Rightarrow> plugins pres" where
  "install_version k plugin version execution now p =
    bindr (check_release plugin version (pk_digest k) p) (\<lambda>bound.
    case find_version (pk_digest k) p of
      Some v \<Rightarrow>
        if pv_plugin v \<noteq> plugin \<or> pv_version v \<noteq> version then Inl PluginVersionConflictError
        else if bound = None then insert_version (version_of k plugin version execution now) p else Inr p
    | None \<Rightarrow> if bound = None then insert_version (version_of k plugin version execution now) p else Inr p)"

definition new_installation :: "string \<Rightarrow> id \<Rightarrow> string \<Rightarrow> string \<Rightarrow> time \<Rightarrow> installation_row" where
  "new_installation owner plugin digest source now =
     \<lparr>pi_principal = owner, pi_plugin = plugin, pi_digest = digest, pi_enabled = False, pi_source = source,
      pi_revision = 1, pi_model = None, pi_model_revision = 0, pi_created = now, pi_updated = now, pi_retired = None\<rparr>"

definition install_for :: "string \<Rightarrow> id \<Rightarrow> package \<Rightarrow> time \<Rightarrow> plugins \<Rightarrow> (bool \<times> plugins) pres" where
  "install_for owner plugin k now p =
    (case find_installation owner plugin p of
       None \<Rightarrow>
         bindr (insert_installation (new_installation owner plugin (pk_digest k) (pk_source k) now) p) (\<lambda>p1. Inr (False, p1))
     | Some i \<Rightarrow>
         if pi_digest i \<noteq> pk_digest k then Inl PluginVersionConflictError
         else if pi_retired i = None then Inr (pi_enabled i, p)
         else Inr (pi_enabled i, reinstate (pk_digest k) now (set_installation owner plugin
           (\<lambda>i. i\<lparr>pi_retired := None, pi_revision := pi_revision i + 1, pi_updated := now\<rparr>) p)))"

definition install_body ::
    "string \<Rightarrow> id \<Rightarrow> string \<Rightarrow> dict \<Rightarrow> package \<Rightarrow> id \<Rightarrow> string \<Rightarrow> string \<Rightarrow> time \<Rightarrow> plugins \<Rightarrow> ((dict \<times> time) \<times> plugins) pres" where
  "install_body owner i receipt_type extra k plugin version execution now p =
    bindr (install_version k plugin version execution now p) (\<lambda>p1.
    bindr (install_for owner plugin k now p1) (\<lambda>(enabled, p2).
    Inr ((dmerge [(''type'', JStr receipt_type), (''command_id'', JStr i), (''plugin_id'', JStr plugin),
                  (''version'', JStr version), (''digest'', JStr (pk_digest k)), (''installed'', JBool True),
                  (''enabled'', JBool enabled)] extra, now), p2)))"

definition install_plugin_command ::
    "ctx \<Rightarrow> string \<Rightarrow> id \<Rightarrow> dict \<Rightarrow> string \<Rightarrow> string \<Rightarrow> dict \<Rightarrow> package \<Rightarrow> plugins \<Rightarrow> db \<Rightarrow> ((json \<times> bool) \<times> plugins \<times> db) pres" where
  "install_plugin_command c owner i payload ty receipt_type extra k p d =
    bindr (manifest_id k) (\<lambda>plugin. bindr (manifest_version k) (\<lambda>version. bindr (manifest_execution k) (\<lambda>execution.
    plugin_command owner i ty payload
      (install_body owner i receipt_type extra k plugin version execution (x_clock c 1)) p d)))"

text \<open>What update and roll back ask of the installation.\<close>

definition open_installation :: "string \<Rightarrow> id \<Rightarrow> json \<Rightarrow> plugins \<Rightarrow> installation_row pres" where
  "open_installation owner plugin expected p =
    (case find_installation owner plugin p of
       None \<Rightarrow> Inl (PluginStateError ''plugin_not_found'')
     | Some i \<Rightarrow>
        if pi_retired i \<noteq> None then Inl (PluginStateError ''plugin_retired'')
        else if expected \<noteq> JNull \<and> expected \<noteq> JStr (pi_digest i) then Inl (PluginStateError ''plugin_digest_mismatch'')
        else Inr i)"

definition update_body ::
    "string \<Rightarrow> id \<Rightarrow> id \<Rightarrow> string \<Rightarrow> dict \<Rightarrow> dict \<Rightarrow> package \<Rightarrow> string \<Rightarrow> time \<Rightarrow> plugins \<Rightarrow> ((dict \<times> time) \<times> plugins) pres" where
  "update_body owner i plugin receipt_type extra payload k version now p =
    bindr (open_installation owner plugin
      (if has_key payload ''expected_digest'' then dget payload ''expected_digest'' else dget payload ''expected_active_digest'') p) (\<lambda>inst.
    bindr (item (pk_manifest k) ''id'') (\<lambda>manifest_plugin.
    if manifest_plugin \<noteq> JStr plugin then Inl (PluginStateError ''plugin_identity_mismatch'')
    else if pk_compat k \<noteq> ''compatible'' then Inl (PluginStateError ''plugin_incompatible'')
    else
     bindr (check_release plugin version (pk_digest k) p) (\<lambda>bound.
     bindr (case bound of
              None \<Rightarrow> bindr (manifest_execution k) (\<lambda>execution. insert_version (version_of k plugin version execution now) p)
            | Some _ \<Rightarrow> Inr (reinstate (pk_digest k) now p)) (\<lambda>p1.
     bindr (activate owner plugin (pk_digest k) now p1) (\<lambda>p2.
     Inr ((dmerge [(''type'', JStr receipt_type), (''command_id'', JStr i), (''plugin_id'', JStr plugin),
                   (''version'', JStr version), (''previous_digest'', JStr (pi_digest inst)),
                   (''digest'', JStr (pk_digest k)), (''enabled'', JBool (pi_enabled inst))] extra, now), p2))))))"

definition update_plugin_command ::
    "ctx \<Rightarrow> string \<Rightarrow> id \<Rightarrow> dict \<Rightarrow> id \<Rightarrow> string \<Rightarrow> string \<Rightarrow> dict \<Rightarrow> package \<Rightarrow> plugins \<Rightarrow> db \<Rightarrow> ((json \<times> bool) \<times> plugins \<times> db) pres" where
  "update_plugin_command c owner i payload plugin ty receipt_type extra k p d =
    bindr (manifest_version k) (\<lambda>version.
    plugin_command owner i ty payload
      (update_body owner i plugin receipt_type extra payload k version (x_clock c 1)) p d)"

definition with_expected :: "string option \<Rightarrow> dict \<Rightarrow> dict" where
  "with_expected expected d = d @ (case expected of None \<Rightarrow> [] | Some x \<Rightarrow> [(''expected_digest'', JStr x)])"

definition rollback_body ::
    "string \<Rightarrow> id \<Rightarrow> id \<Rightarrow> string \<Rightarrow> string option \<Rightarrow> time \<Rightarrow> plugins \<Rightarrow> ((dict \<times> time) \<times> plugins) pres" where
  "rollback_body owner i plugin target expected now p =
    bindr (open_installation owner plugin (json_opt expected) p) (\<lambda>inst.
    (case find (\<lambda>v. pv_plugin v = plugin \<and> pv_digest v = target) (pg_versions p) of
       None \<Rightarrow> Inl (PluginStateError ''plugin_version_unavailable'')
     | Some v \<Rightarrow>
        if pv_compat v \<noteq> ''compatible'' then Inl (PluginStateError ''plugin_incompatible'')
        else bindr (activate owner plugin target now (reinstate target now p)) (\<lambda>p1.
          Inr (([(''type'', JStr ''plugin.rollback''), (''command_id'', JStr i), (''plugin_id'', JStr plugin),
                 (''version'', JStr (pv_version v)), (''previous_digest'', JStr (pi_digest inst)),
                 (''digest'', JStr target), (''enabled'', JBool (pi_enabled inst))], now), p1))))"

definition rollback_plugin_command ::
    "ctx \<Rightarrow> string \<Rightarrow> id \<Rightarrow> id \<Rightarrow> string \<Rightarrow> string option \<Rightarrow> plugins \<Rightarrow> db \<Rightarrow> ((json \<times> bool) \<times> plugins \<times> db) pres" where
  "rollback_plugin_command c owner i plugin target expected =
    plugin_command owner i ''plugin.rollback''
      (with_expected expected [(''type'', JStr ''plugin.rollback''), (''plugin_id'', JStr plugin), (''target_digest'', JStr target)])
      (rollback_body owner i plugin target expected (x_clock c 1))"

definition retire_unused :: "string \<Rightarrow> time \<Rightarrow> plugins \<Rightarrow> plugins" where
  "retire_unused digest now p =
    (if list_ex (\<lambda>i. pi_digest i = digest \<and> pi_retired i = None) (pg_installs p) then p
     else set_version digest (\<lambda>v. v\<lparr>pv_state := ''retired'', pv_retired := Some now, pv_updated := now\<rparr>) p)"

definition remove_body :: "string \<Rightarrow> id \<Rightarrow> id \<Rightarrow> string option \<Rightarrow> time \<Rightarrow> plugins \<Rightarrow> ((dict \<times> time) \<times> plugins) pres" where
  "remove_body owner i plugin expected now p =
    (case find_installation owner plugin p of
       None \<Rightarrow> Inl (PluginStateError ''plugin_not_found'')
     | Some inst \<Rightarrow>
        if expected \<noteq> None \<and> expected \<noteq> Some (pi_digest inst) then Inl (PluginStateError ''plugin_digest_mismatch'')
        else Inr (([(''type'', JStr ''plugin.remove''), (''command_id'', JStr i), (''plugin_id'', JStr plugin),
                    (''digest'', JStr (pi_digest inst)), (''retired'', JBool True), (''enabled'', JBool False)], now),
          retire_unused (pi_digest inst) now (set_installation owner plugin
            (\<lambda>i. i\<lparr>pi_enabled := False, pi_retired := Some now, pi_revision := pi_revision i + 1, pi_updated := now\<rparr>) p)))"

definition remove_plugin_command ::
    "ctx \<Rightarrow> string \<Rightarrow> id \<Rightarrow> id \<Rightarrow> string option \<Rightarrow> plugins \<Rightarrow> db \<Rightarrow> ((json \<times> bool) \<times> plugins \<times> db) pres" where
  "remove_plugin_command c owner i plugin expected =
    plugin_command owner i ''plugin.remove''
      (with_expected expected [(''type'', JStr ''plugin.remove''), (''plugin_id'', JStr plugin)])
      (remove_body owner i plugin expected (x_clock c 1))"

subsection \<open>Configuration of an installation\<close>

definition discard_stale_fixed_capability :: "ctx \<Rightarrow> string \<Rightarrow> id \<Rightarrow> plugins \<Rightarrow> bool \<times> plugins" where
  "discard_stale_fixed_capability c owner plugin p =
    (case find_installation owner plugin p of
       None \<Rightarrow> (False, p)
     | Some i \<Rightarrow>
        if \<not> pi_enabled i \<or> pi_source i \<noteq> ''runtime_builtin'' then (False, p)
        else (True, set_installation owner plugin
          (\<lambda>i. i\<lparr>pi_enabled := False, pi_revision := pi_revision i + 1, pi_updated := x_clock c 1\<rparr>) p))"

fun list_of :: "json \<Rightarrow> json list" where
  "list_of (JList xs) = xs"
| "list_of _ = []"

definition vision_action :: "json \<Rightarrow> bool" where
  "vision_action a \<longleftrightarrow> is_obj a \<and> JStr ''model.vision.invoke'' \<in> set (list_of (dget (obj_of a) ''capabilities''))"

definition manifest_actions :: "dict \<Rightarrow> json list" where
  "manifest_actions m = list_of (dget (obj_of (dget m ''contributions'')) ''actions'')"

definition needs_model_binding :: "dict \<Rightarrow> bool" where
  "needs_model_binding m \<longleftrightarrow> list_ex vision_action (manifest_actions m)"

text \<open>The clock is read for the update of the row, if there is one, and for the receipt.\<close>

definition enable_body :: "ctx \<Rightarrow> string \<Rightarrow> id \<Rightarrow> string \<Rightarrow> id \<Rightarrow> string option \<Rightarrow> bool \<Rightarrow> plugins \<Rightarrow> ((dict \<times> time) \<times> plugins) pres" where
  "enable_body c owner i ty plugin expected enabled p =
    (case active_version owner plugin p of
       None \<Rightarrow> Inl (PluginStateError ''plugin_not_found'')
     | Some (inst, v) \<Rightarrow>
        if expected \<noteq> None \<and> expected \<noteq> Some (pi_digest inst) then Inl (PluginStateError ''plugin_digest_mismatch'')
        else if enabled \<and> pv_compat v \<noteq> ''compatible'' then Inl (PluginStateError ''plugin_incompatible'')
        else if enabled \<and> (pi_retired inst \<noteq> None \<or> pv_state v = ''retired'') then Inl (PluginStateError ''plugin_retired'')
        else if enabled \<and> needs_model_binding (pv_manifest v) \<and> pi_model inst = None
          then Inl (PluginStateError ''plugin_model_binding_required'')
        else
         (let receipt = [(''type'', JStr ty), (''command_id'', JStr i), (''plugin_id'', JStr plugin),
                         (''digest'', JStr (pi_digest inst)), (''enabled'', JBool enabled)]
          in if pi_enabled inst \<noteq> enabled
             then Inr ((receipt, x_clock c 2), set_installation owner plugin
               (\<lambda>i. i\<lparr>pi_enabled := enabled, pi_revision := pi_revision i + 1, pi_updated := x_clock c 1\<rparr>) p)
             else Inr ((receipt, x_clock c 1), p)))"

definition set_plugin_enabled_command ::
    "ctx \<Rightarrow> string \<Rightarrow> id \<Rightarrow> string \<Rightarrow> id \<Rightarrow> string option \<Rightarrow> bool \<Rightarrow> plugins \<Rightarrow> db \<Rightarrow> ((json \<times> bool) \<times> plugins \<times> db) pres" where
  "set_plugin_enabled_command c owner i ty plugin expected enabled =
    plugin_command owner i ty (with_expected expected [(''type'', JStr ty), (''plugin_id'', JStr plugin)])
      (enable_body c owner i ty plugin expected enabled)"

definition bind_model_body ::
    "string \<Rightarrow> id \<Rightarrow> id \<Rightarrow> id \<Rightarrow> string \<Rightarrow> dict \<Rightarrow> string option \<Rightarrow> time \<Rightarrow> plugins \<Rightarrow> ((dict \<times> time) \<times> plugins) pres" where
  "bind_model_body owner i plugin binding model frozen expected now p =
    (case active_version owner plugin p of
       None \<Rightarrow> Inl (PluginStateError ''plugin_not_found'')
     | Some (inst, v) \<Rightarrow>
        if expected \<noteq> None \<and> expected \<noteq> Some (pi_digest inst) then Inl (PluginStateError ''plugin_digest_mismatch'')
        else if pi_retired inst \<noteq> None \<or> pv_state v = ''retired'' then Inl (PluginStateError ''plugin_retired'')
        else if pv_execution v \<noteq> ''managed_worker'' \<or> \<not> needs_model_binding (pv_manifest v)
          then Inl (PluginStateError ''plugin_capability_denied'')
        else
         (let stored = encode_payload (JObj (dset ''id'' (JStr binding) frozen));
              changed = (pi_model inst \<noteq> Some stored);
              revision = (if changed then pi_model_revision inst + 1 else pi_model_revision inst);
              p1 = (if changed then set_installation owner plugin
                      (\<lambda>i. i\<lparr>pi_model := Some stored, pi_model_revision := revision,
                             pi_revision := pi_revision i + 1, pi_updated := now\<rparr>) p else p)
          in bindr (item frozen ''connection_id'') (\<lambda>connection. bindr (item frozen ''connection_version'') (\<lambda>version.
             bindr (item frozen ''model_id'') (\<lambda>m.
             Inr (([(''type'', JStr ''plugin.model.bind''), (''command_id'', JStr i), (''plugin_id'', JStr plugin),
                    (''digest'', JStr (pi_digest inst)), (''model_binding_revision'', JInt (int revision)),
                    (''model_binding'', JObj [(''id'', JStr binding), (''requested_model'', JStr model),
                       (''connection_id'', JStr (py_str connection)), (''connection_version'', JInt (int_of version)),
                       (''model_id'', JStr (py_str m))])], now), p1))))))"

definition bind_plugin_model_command ::
    "ctx \<Rightarrow> string \<Rightarrow> id \<Rightarrow> id \<Rightarrow> id \<Rightarrow> string \<Rightarrow> dict \<Rightarrow> string option \<Rightarrow> plugins \<Rightarrow> db \<Rightarrow>
      ((json \<times> bool) \<times> plugins \<times> db) pres" where
  "bind_plugin_model_command c owner i plugin binding model frozen expected =
    plugin_command owner i ''plugin.model.bind''
      (with_expected expected [(''type'', JStr ''plugin.model.bind''), (''plugin_id'', JStr plugin),
         (''binding_id'', JStr binding), (''model'', JStr model)])
      (bind_model_body owner i plugin binding model frozen expected (x_clock c 1))"

subsection \<open>The setup flow (setup.py)\<close>

definition find_setup :: "string \<Rightarrow> id \<Rightarrow> plugins \<Rightarrow> setup_row option" where
  "find_setup owner plugin p = find (\<lambda>s. ps_principal s = owner \<and> ps_plugin s = plugin) (pg_setups p)"

definition setup_revision :: "string \<Rightarrow> id \<Rightarrow> plugins \<Rightarrow> nat" where
  "setup_revision owner plugin p = (case find_setup owner plugin p of None \<Rightarrow> 0 | Some s \<Rightarrow> ps_revision s)"

definition get_plugin_setup_flow :: "string \<Rightarrow> id \<Rightarrow> plugins \<Rightarrow> string \<times> nat \<times> time option" where
  "get_plugin_setup_flow owner plugin p =
    (case find_setup owner plugin p of
       None \<Rightarrow> (''idle'', 0, None) | Some s \<Rightarrow> (ps_stage s, ps_revision s, Some (ps_updated s)))"

definition setup_stages :: "string set" where
  "setup_stages = {''idle'', ''screen_requested'', ''screen_settings_opened'', ''accessibility_requested'',
     ''accessibility_settings_opened''}"

definition begin_plugin_setup_action ::
    "ctx \<Rightarrow> string \<Rightarrow> id \<Rightarrow> int \<Rightarrow> string \<Rightarrow> plugins \<Rightarrow> ((string \<times> nat \<times> time) \<times> plugins) pres" where
  "begin_plugin_setup_action c owner plugin expected stage p =
    (let now = x_clock c 1; next = setup_revision owner plugin p + 1;
         row = \<lparr>ps_principal = owner, ps_plugin = plugin, ps_stage = stage, ps_revision = next, ps_updated = now\<rparr>
     in if int (setup_revision owner plugin p) \<noteq> expected then Inl (PluginStateError ''plugin_setup_stale'')
        else if stage \<notin> setup_stages then Inl (StoreFault SqlIntegrityError)
        else Inr ((stage, next, now),
          p\<lparr>pg_setups := (if find_setup owner plugin p = None then pg_setups p @ [row]
             else update_where (\<lambda>s. ps_principal s = owner \<and> ps_plugin s = plugin) (\<lambda>_. row) (pg_setups p))\<rparr>))"

subsection \<open>The catalog (catalog.py)\<close>

definition joined_installations :: "string \<Rightarrow> plugins \<Rightarrow> (installation_row \<times> version_row) list" where
  "joined_installations owner p =
    concat (map (\<lambda>i. if pi_principal i = owner
      then map (\<lambda>v. (i, v)) (filter (\<lambda>v. pv_digest v = pi_digest i) (pg_versions p)) else []) (pg_installs p))"

definition list_plugins :: "string \<Rightarrow> plugins \<Rightarrow> (installation_row \<times> version_row) list" where
  "list_plugins owner p = sort_key (\<lambda>(i, v). pv_plugin v) (joined_installations owner p)"

definition get_plugin :: "string \<Rightarrow> id \<Rightarrow> plugins \<Rightarrow> (installation_row \<times> version_row) option" where
  "get_plugin = active_version"

definition referenced_runtime_asset_digests :: "plugins \<Rightarrow> db \<Rightarrow> string set" where
  "referenced_runtime_asset_digests p d =
    (let used = map pi_digest (filter (\<lambda>i. pi_retired i = None) (pg_installs p)) @ map b_digest (db_bindings d);
         manifests = map pv_manifest (filter (\<lambda>v. pv_digest v \<in> set used) (pg_versions p));
         assets = concat (map (\<lambda>m. list_of (dget (obj_of (dget (obj_of (dget m ''runtime'')) ''execution'')) ''runtime_assets'')) manifests)
     in set (map (\<lambda>a. str_of (dget (obj_of a) ''digest'')) (filter (\<lambda>a. is_str (dget (obj_of a) ''digest'')) assets)))"

text \<open>Newest first; the rows of the installation's plugin, each marked when it is the active one.\<close>

definition list_plugin_versions :: "string \<Rightarrow> id \<Rightarrow> plugins \<Rightarrow> (version_row \<times> bool) list" where
  "list_plugin_versions owner plugin p =
    (case find_installation owner plugin p of
       None \<Rightarrow> []
     | Some i \<Rightarrow> map (\<lambda>v. (v, pv_digest v = pi_digest i))
         (rev (select_by (\<lambda>v. (pv_created v, pv_version v)) (\<lambda>v. pv_plugin v = plugin) (pg_versions p))))"

definition list_run_plugin_bindings :: "id \<Rightarrow> db \<Rightarrow> binding_row list" where
  "list_run_plugin_bindings run d = select_by b_plugin (\<lambda>b. b_run b = run) (db_bindings d)"

subsection \<open>The bindings of a new run\<close>

record plugin_ref =
  pr_plugin :: id
  pr_expected :: "string option"
  pr_required :: bool

record plugin_command_ref =
  pc_plugin :: id
  pc_command :: string
  pc_expected :: "string option"

record binding =
  bd_plugin :: id
  bd_name :: string
  bd_version :: string
  bd_digest :: string
  bd_source :: string
  bd_required :: bool
  bd_command :: "string option"
  bd_title :: "string option"
  bd_catalog :: string
  bd_model :: "json option"

definition plugin_action_catalog_hash :: "(string \<Rightarrow> string) \<Rightarrow> dict \<Rightarrow> string \<Rightarrow> string" where
  "plugin_action_catalog_hash sha m digest =
    ''sha256:'' @ sha (json_dumps '','' '':'' (encode_payload (JObj
      [(''protocol'', JStr ''plugin-action-catalog-v1''), (''plugin_id'', dget m ''id''),
       (''plugin_version'', dget m ''version''), (''plugin_digest'', JStr digest),
       (''actions'', dget (obj_of (dget m ''contributions'')) ''actions'')])))"

definition manifest_commands :: "dict \<Rightarrow> dict list" where
  "manifest_commands m = map obj_of (list_of (dget (obj_of (dget m ''contributions'')) ''commands''))"

definition find_command_item :: "dict \<Rightarrow> string \<Rightarrow> dict option" where
  "find_command_item m command = find (\<lambda>x. dget x ''id'' = JStr command) (manifest_commands m)"

definition binding_of ::
    "(string \<Rightarrow> string) \<Rightarrow> installation_row \<times> version_row \<Rightarrow> string \<Rightarrow> bool \<Rightarrow> string option \<Rightarrow> binding" where
  "binding_of sha r source required command =
    (let m = pv_manifest (snd r); item = (case command of None \<Rightarrow> None | Some x \<Rightarrow> find_command_item m x)
     in \<lparr>bd_plugin = pi_plugin (fst r), bd_name = py_str (dget m ''name''), bd_version = pv_version (snd r),
         bd_digest = pv_digest (snd r), bd_source = source, bd_required = required, bd_command = command,
         bd_title = map_option (\<lambda>x. py_str (dget x ''title'')) item,
         bd_catalog = plugin_action_catalog_hash sha m (pv_digest (snd r)), bd_model = pi_model (fst r)\<rparr>)"

text \<open>The installed rows by plugin; the join also asks that the version is one of this plugin.\<close>

definition installed_rows :: "string \<Rightarrow> plugins \<Rightarrow> (installation_row \<times> version_row) list" where
  "installed_rows owner p = filter (\<lambda>(i, v). pv_plugin v = pi_plugin i) (joined_installations owner p)"

definition require_available ::
    "(installation_row \<times> version_row) list \<Rightarrow> id \<Rightarrow> string option \<Rightarrow> (installation_row \<times> version_row) res" where
  "require_available rows plugin expected =
    (case find (\<lambda>(i, v). pi_plugin i = plugin) (rev rows) of
       None \<Rightarrow> Inl (RunAdmissionError ''plugin_not_found'')
     | Some (i, v) \<Rightarrow>
        if pi_retired i \<noteq> None then Inl (RunAdmissionError ''plugin_not_found'')
        else if \<not> pi_enabled i then Inl (RunAdmissionError ''plugin_disabled'')
        else if pv_compat v \<noteq> ''compatible'' then Inl (RunAdmissionError ''plugin_incompatible'')
        else if pv_state v = ''retired'' then Inl (RunAdmissionError ''plugin_retired'')
        else if expected \<noteq> None \<and> expected \<noteq> Some (pv_digest v) then Inl (RunAdmissionError ''plugin_digest_mismatch'')
        else Inr (i, v))"

definition available :: "installation_row \<times> version_row \<Rightarrow> bool" where
  "available r \<longleftrightarrow> pi_enabled (fst r) \<and> pv_compat (snd r) = ''compatible'' \<and> pv_state (snd r) \<noteq> ''retired'' \<and> pi_retired (fst r) = None"

definition put_binding :: "binding \<Rightarrow> (id \<times> binding) list \<Rightarrow> (id \<times> binding) list" where
  "put_binding b sel = dset (bd_plugin b) b sel"

definition select_reference ::
    "(string \<Rightarrow> string) \<Rightarrow> (installation_row \<times> version_row) list \<Rightarrow> plugin_ref \<Rightarrow> (id \<times> binding) list \<Rightarrow> (id \<times> binding) list res" where
  "select_reference sha rows q sel =
    bindr (require_available rows (pr_plugin q) (pr_expected q)) (\<lambda>r.
    Inr (put_binding (binding_of sha r ''explicit'' (pr_required q) None) sel))"

definition select_command ::
    "(string \<Rightarrow> string) \<Rightarrow> (installation_row \<times> version_row) list \<Rightarrow> plugin_command_ref option \<Rightarrow> (id \<times> binding) list \<Rightarrow> (id \<times> binding) list res" where
  "select_command sha rows q sel =
    (case q of
       None \<Rightarrow> Inr sel
     | Some x \<Rightarrow>
        bindr (require_available rows (pc_plugin x) (pc_expected x)) (\<lambda>r.
        if find_command_item (pv_manifest (snd r)) (pc_command x) = None then Inl (RunAdmissionError ''plugin_command_not_found'')
        else Inr (put_binding (binding_of sha r ''command'' True (Some (pc_command x))) sel)))"

definition inherited_binding :: "binding_row \<Rightarrow> binding" where
  "inherited_binding b = \<lparr>bd_plugin = b_plugin b, bd_name = [], bd_version = b_version b, bd_digest = b_digest b,
     bd_source = b_source b, bd_required = b_required b, bd_command = b_command b, bd_title = None,
     bd_catalog = b_catalog b, bd_model = b_model b\<rparr>"

definition resolve_run_plugin_bindings ::
    "(string \<Rightarrow> string) \<Rightarrow> string \<Rightarrow> plugin_ref list \<Rightarrow> plugin_command_ref option \<Rightarrow> id option \<Rightarrow> plugins \<Rightarrow> db \<Rightarrow> binding list res" where
  "resolve_run_plugin_bindings sha owner refs command inherit p d =
    (case inherit of
       Some run \<Rightarrow> Inr (map inherited_binding (select_by b_plugin
          (\<lambda>b. b_run b = run \<and> list_ex (\<lambda>v. pv_plugin v = b_plugin b \<and> pv_digest v = b_digest b) (pg_versions p)) (db_bindings d)))
     | None \<Rightarrow>
        (let rows = installed_rows owner p;
             enabled = fold (\<lambda>r sel. put_binding (binding_of sha r ''enabled'' False None) sel) (filter available rows) []
         in bindr (foldr_res (select_reference sha rows) refs enabled) (\<lambda>sel.
            bindr (select_command sha rows command sel) (\<lambda>sel.
            Inr (map snd (sort_key fst sel))))))"

subsection \<open>The registry invariant\<close>

definition version_ok :: "version_row \<Rightarrow> bool" where
  "version_ok v \<longleftrightarrow> pv_state v = ''installed'' \<or> pv_state v = ''retired''"

definition entry_ok :: "version_row list \<Rightarrow> installation_row \<Rightarrow> bool" where
  "entry_ok vs i \<longleftrightarrow> (\<exists>v\<in>set vs. pv_digest v = pi_digest i \<and> pv_plugin v = pi_plugin i \<and>
     (pi_enabled i \<longrightarrow> pi_retired i = None \<and> pv_state v = ''installed''))"

definition inst_key :: "installation_row \<Rightarrow> string \<times> id" where
  "inst_key i = (pi_principal i, pi_plugin i)"

definition release :: "version_row \<Rightarrow> id \<times> string" where
  "release v = (pv_plugin v, pv_version v)"

definition plugins_ok :: "plugins \<Rightarrow> bool" where
  "plugins_ok p \<longleftrightarrow> distinct (map pv_digest (pg_versions p)) \<and> distinct (map release (pg_versions p)) \<and>
     distinct (map inst_key (pg_installs p)) \<and> (\<forall>v\<in>set (pg_versions p). version_ok v) \<and>
     (\<forall>i\<in>set (pg_installs p). entry_ok (pg_versions p) i)"

text \<open>What a digest stands for; nothing of it ever changes, and no version is lost.\<close>

definition content :: "version_row \<Rightarrow> id \<times> string \<times> string \<times> dict \<times> string \<times> string" where
  "content v = (pv_plugin v, pv_version v, pv_digest v, pv_manifest v, pv_execution v, pv_compat v)"

definition versions_kept :: "plugins \<Rightarrow> plugins \<Rightarrow> bool" where
  "versions_kept p p' \<longleftrightarrow> content ` set (pg_versions p) \<subseteq> content ` set (pg_versions p')"

definition registry_step :: "plugins \<Rightarrow> plugins \<Rightarrow> bool" where
  "registry_step p p' \<longleftrightarrow> (plugins_ok p \<longrightarrow> plugins_ok p') \<and> versions_kept p p'"

lemma versions_kept_refl [simp]: "versions_kept p p"
  by (simp add: versions_kept_def)

lemma registry_step_refl [simp]: "registry_step p p"
  by (simp add: registry_step_def)

lemma registry_step_trans: "registry_step p q \<Longrightarrow> registry_step q r \<Longrightarrow> registry_step p r"
  by (auto simp: registry_step_def versions_kept_def)

lemma find_version_some: "find_version digest p = Some v \<Longrightarrow> v \<in> set (pg_versions p) \<and> pv_digest v = digest"
  by (auto simp: find_version_def dest: find_SomeD)

lemma version_unique:
  "plugins_ok p \<Longrightarrow> v \<in> set (pg_versions p) \<Longrightarrow> w \<in> set (pg_versions p) \<Longrightarrow> pv_digest v = pv_digest w \<Longrightarrow> v = w"
  by (auto simp: plugins_ok_def distinct_map dest: inj_onD)

lemma find_installation_some:
  "find_installation owner plugin p = Some i \<Longrightarrow> i \<in> set (pg_installs p) \<and> pi_principal i = owner \<and> pi_plugin i = plugin"
  by (auto simp: find_installation_def dest: find_SomeD)

lemma installation_unique:
  assumes "plugins_ok p" "find_installation owner plugin p = Some i" "j \<in> set (pg_installs p)"
    "pi_principal j = owner" "pi_plugin j = plugin"
  shows "j = i"
proof -
  have "inj_on inst_key (set (pg_installs p))" using assms(1) by (simp add: plugins_ok_def distinct_map)
  then show ?thesis
    by (rule inj_onD) (use assms find_installation_some [OF assms(2)] in \<open>simp_all add: inst_key_def\<close>)
qed

text \<open>Changing one installation, or the state of one version.\<close>

lemma set_installation_ok:
  assumes "plugins_ok p" "\<And>i. inst_key (f i) = inst_key i"
    and "\<And>i. i \<in> set (pg_installs p) \<Longrightarrow> pi_principal i = owner \<Longrightarrow> pi_plugin i = plugin \<Longrightarrow>
      entry_ok (pg_versions p) i \<Longrightarrow> entry_ok (pg_versions p) (f i)"
  shows "plugins_ok (set_installation owner plugin f p)"
proof -
  have "map inst_key (pg_installs (set_installation owner plugin f p)) = map inst_key (pg_installs p)"
    unfolding set_installation_def by (simp add: map_update_where_key assms(2))
  then show ?thesis using assms(1,3) by (auto simp: plugins_ok_def set_installation_def)
qed

definition state_change :: "(version_row \<Rightarrow> version_row) \<Rightarrow> bool" where
  "state_change f \<longleftrightarrow> (\<forall>v. content (f v) = content v \<and> version_ok (f v))"

lemma set_version_step:
  assumes "plugins_ok p" "state_change f"
    and "\<And>i. i \<in> set (pg_installs p) \<Longrightarrow> pi_digest i = digest \<Longrightarrow> pi_enabled i \<Longrightarrow> \<forall>v. pv_state (f v) = ''installed''"
  shows "plugins_ok (set_version digest f p)"
proof -
  have same: "map content (pg_versions (set_version digest f p)) = map content (pg_versions p)"
    using assms(2) by (simp add: set_version_def map_update_where_key state_change_def)
  have "map pv_digest = map (\<lambda>(_, _, g, _). g) \<circ> map content" "map release = map (\<lambda>(a, b, _). (a, b)) \<circ> map content"
    by (simp_all add: comp_def content_def release_def fun_eq_iff)
  then have keys: "map pv_digest (pg_versions (set_version digest f p)) = map pv_digest (pg_versions p)"
    "map release (pg_versions (set_version digest f p)) = map release (pg_versions p)"
    using same by (metis comp_apply)+
  have "entry_ok (pg_versions (set_version digest f p)) i" if i: "i \<in> set (pg_installs p)" for i
  proof -
    obtain v where v: "v \<in> set (pg_versions p)" "pv_digest v = pi_digest i" "pv_plugin v = pi_plugin i"
      "pi_enabled i \<longrightarrow> pi_retired i = None \<and> pv_state v = ''installed''"
      using assms(1) i by (auto simp: plugins_ok_def entry_ok_def)
    let ?w = "if pv_digest v = digest then f v else v"
    have "?w \<in> set (pg_versions (set_version digest f p))"
      using v(1) by (auto simp: set_version_def set_update_where)
    moreover have "pv_digest ?w = pi_digest i" "pv_plugin ?w = pi_plugin i"
      using assms(2) v(2,3) by (auto simp: state_change_def content_def)
    moreover have "pi_enabled i \<longrightarrow> pi_retired i = None \<and> pv_state ?w = ''installed''"
      using v(2,4) assms(3) [OF i] by auto
    ultimately show ?thesis unfolding entry_ok_def by blast
  qed
  moreover have "\<forall>v\<in>set (pg_versions (set_version digest f p)). version_ok v"
    using assms(1,2) by (auto simp: set_version_def plugins_ok_def state_change_def)
  moreover have "pg_installs (set_version digest f p) = pg_installs p" by (simp add: set_version_def)
  ultimately show ?thesis using assms(1) keys by (simp add: plugins_ok_def)
qed

lemma set_version_kept: "state_change f \<Longrightarrow> versions_kept p (set_version digest f p)"
proof -
  assume "state_change f"
  then have "map content (pg_versions (set_version digest f p)) = map content (pg_versions p)"
    by (simp add: set_version_def map_update_where_key state_change_def)
  then show ?thesis by (metis list.set_map order_refl versions_kept_def)
qed

lemma set_installation_versions [simp]: "pg_versions (set_installation owner plugin f p) = pg_versions p"
  by (simp add: set_installation_def)

lemma set_version_installs [simp]: "pg_installs (set_version digest f p) = pg_installs p"
  by (simp add: set_version_def)

lemma reinstate_step: "registry_step p (reinstate digest now p)"
proof -
  have f: "state_change (\<lambda>v. v\<lparr>pv_state := ''installed'', pv_retired := None, pv_updated := now\<rparr>)"
    by (simp add: state_change_def content_def version_ok_def)
  show ?thesis
    using set_version_step [OF _ f] set_version_kept [OF f] by (simp add: registry_step_def reinstate_def)
qed

lemma reinstate_installs [simp]: "pg_installs (reinstate digest now p) = pg_installs p"
  by (simp add: reinstate_def)

lemma insert_version_step:
  assumes "insert_version v p = Inr p'" "pv_state v = ''installed''"
  shows "registry_step p p'" "pg_installs p' = pg_installs p" "pg_versions p' = pg_versions p @ [v]"
proof -
  show p': "pg_installs p' = pg_installs p" "pg_versions p' = pg_versions p @ [v]"
    using assms(1) by (auto simp: insert_version_def split: if_splits)
  have new: "\<forall>x\<in>set (pg_versions p). pv_digest x \<noteq> pv_digest v \<and> release x \<noteq> release v"
    using assms(1) by (auto simp: insert_version_def release_def list_ex_iff split: if_splits)
  have "entry_ok (pg_versions p) i \<Longrightarrow> entry_ok (pg_versions p @ [v]) i" for i by (auto simp: entry_ok_def)
  then show "registry_step p p'"
    using p' new assms(2)
    by (auto simp: registry_step_def versions_kept_def plugins_ok_def version_ok_def)
qed

text \<open>The version a package was admitted as.\<close>

definition admitted_version :: "string \<Rightarrow> id \<Rightarrow> plugins \<Rightarrow> bool" where
  "admitted_version digest plugin p \<longleftrightarrow> (\<exists>v\<in>set (pg_versions p). pv_digest v = digest \<and> pv_plugin v = plugin)"

lemma check_release_some:
  "check_release plugin version digest p = Inr (Some v) \<Longrightarrow>
    v \<in> set (pg_versions p) \<and> pv_digest v = digest \<and> pv_plugin v = plugin"
  by (auto simp: check_release_def find_release_def split: option.splits if_splits dest: find_SomeD)

lemma install_version_step:
  assumes "install_version k plugin version execution now p = Inr p'"
  shows "registry_step p p'" "pg_installs p' = pg_installs p" "admitted_version (pk_digest k) plugin p'"
proof -
  obtain bound where b: "check_release plugin version (pk_digest k) p = Inr bound"
    using assms by (auto simp: install_version_def bindr_Inr_iff)
  consider (new) "insert_version (version_of k plugin version execution now) p = Inr p'"
    | (old) v where "bound = Some v" "p' = p"
    using assms b by (cases bound) (auto simp: install_version_def split: option.splits if_splits)
  then have "registry_step p p' \<and> pg_installs p' = pg_installs p \<and> admitted_version (pk_digest k) plugin p'"
  proof cases
    case new
    then show ?thesis
      using insert_version_step [OF new] by (simp add: version_of_def admitted_version_def)
  next
    case old
    then have "v \<in> set (pg_versions p) \<and> pv_digest v = pk_digest k \<and> pv_plugin v = plugin"
      using check_release_some b by blast
    then show ?thesis using old(2) by (auto simp: admitted_version_def)
  qed
  then show "registry_step p p'" "pg_installs p' = pg_installs p" "admitted_version (pk_digest k) plugin p'" by auto
qed

lemma install_for_step:
  assumes "install_for owner plugin k now p = Inr (b, p')" "admitted_version (pk_digest k) plugin p"
  shows "registry_step p p'"
proof (cases "find_installation owner plugin p")
  case None
  then have p': "pg_versions p' = pg_versions p"
    "pg_installs p' = pg_installs p @ [new_installation owner plugin (pk_digest k) (pk_source k) now]"
    using assms(1) by (auto simp: install_for_def insert_installation_def bindr_Inr_iff split: if_splits)
  have "\<forall>i\<in>set (pg_installs p). inst_key i \<noteq> (owner, plugin)"
    using None by (auto simp: find_installation_def find_None_iff inst_key_def)
  moreover have "entry_ok (pg_versions p) (new_installation owner plugin (pk_digest k) (pk_source k) now)"
    using assms(2) by (auto simp: entry_ok_def new_installation_def admitted_version_def)
  ultimately show ?thesis
    using p' by (auto simp: registry_step_def versions_kept_def plugins_ok_def inst_key_def new_installation_def)
next
  case (Some i)
  let ?f = "\<lambda>i. i\<lparr>pi_retired := None, pi_revision := pi_revision i + 1, pi_updated := now\<rparr>"
  consider "p' = p" | "p' = reinstate (pk_digest k) now (set_installation owner plugin ?f p)"
    using assms(1) Some by (auto simp: install_for_def split: if_splits)
  then show ?thesis
  proof cases
    case 1
    then show ?thesis by simp
  next
    case 2
    have "plugins_ok p \<Longrightarrow> plugins_ok (set_installation owner plugin ?f p)"
      by (rule set_installation_ok) (auto simp: inst_key_def entry_ok_def)
    then have "registry_step p (set_installation owner plugin ?f p)"
      by (simp add: registry_step_def versions_kept_def)
    then show ?thesis using 2 reinstate_step registry_step_trans by blast
  qed
qed

text \<open>Moving the active digest of an open installation to an installed version of its plugin.\<close>

lemma activate_step:
  assumes "activate owner plugin digest now p = Inr p'"
    and "plugins_ok p \<Longrightarrow> \<exists>v\<in>set (pg_versions p). pv_digest v = digest \<and> pv_plugin v = plugin \<and> pv_state v = ''installed''"
  shows "registry_step p p'"
proof -
  let ?f = "\<lambda>i. i\<lparr>pi_digest := digest, pi_revision := pi_revision i + 1, pi_updated := now\<rparr>"
  have p': "p' = set_installation owner plugin ?f p" using assms(1) by (auto simp: activate_def split: if_splits)
  have "plugins_ok p'" if ok: "plugins_ok p"
    unfolding p'
  proof (rule set_installation_ok [OF ok])
    show "inst_key (?f i) = inst_key i" for i by (simp add: inst_key_def)
    show "entry_ok (pg_versions p) (?f i)" if "pi_plugin i = plugin" "entry_ok (pg_versions p) i" for i
      using assms(2) [OF ok] that by (auto simp: entry_ok_def)
  qed
  then show ?thesis by (simp add: registry_step_def versions_kept_def p')
qed

subsection \<open>Every body keeps the registry\<close>

locale registry_body =
  fixes body :: "plugins \<Rightarrow> ((dict \<times> time) \<times> plugins) pres"
  assumes body_step: "body p = Inr (r, p') \<Longrightarrow> registry_step p p'"
begin

lemma command_step: "plugin_command owner i ty payload body p d = Inr (r, p', d') \<Longrightarrow> registry_step p p'"
  by (auto simp: plugin_command_def bindr_Inr_iff lift_res_Inr_iff simp del: encode_payload.simps
      split: option.splits dest: body_step)

end

lemma open_installation_some:
  "open_installation owner plugin expected p = Inr i \<Longrightarrow> find_installation owner plugin p = Some i \<and> pi_retired i = None"
  by (auto simp: open_installation_def split: option.splits if_splits)

interpretation installing: registry_body "install_body owner i receipt_type extra k plugin version execution now"
  for owner i receipt_type extra k plugin version execution now
proof unfold_locales
  fix p r p'
  assume "install_body owner i receipt_type extra k plugin version execution now p = Inr (r, p')"
  then obtain p1 b where s: "install_version k plugin version execution now p = Inr p1"
    "install_for owner plugin k now p1 = Inr (b, p')"
    by (auto simp: install_body_def bindr_Inr_iff)
  show "registry_step p p'"
    using install_version_step [OF s(1)] install_for_step [OF s(2)] registry_step_trans by blast
qed

lemma reinstated_version:
  assumes "v \<in> set (pg_versions p)" "pv_digest v = digest"
  shows "\<exists>w\<in>set (pg_versions (reinstate digest now p)). pv_digest w = digest \<and> pv_plugin w = pv_plugin v \<and> pv_state w = ''installed''"
  using assms by (intro bexI [of _ "v\<lparr>pv_state := ''installed'', pv_retired := None, pv_updated := now\<rparr>"])
    (auto simp: reinstate_def set_version_def set_update_where)

interpretation updating: registry_body "update_body owner i plugin receipt_type extra payload k version now"
  for owner i plugin receipt_type extra payload k version now
proof unfold_locales
  fix p r p'
  assume u: "update_body owner i plugin receipt_type extra payload k version now p = Inr (r, p')"
  then obtain bound p1 where b: "check_release plugin version (pk_digest k) p = Inr bound"
    "(case bound of None \<Rightarrow> bindr (manifest_execution k) (\<lambda>execution. insert_version (version_of k plugin version execution now) p)
       | Some _ \<Rightarrow> Inr (reinstate (pk_digest k) now p)) = Inr p1"
    "activate owner plugin (pk_digest k) now p1 = Inr p'"
    by (auto simp: update_body_def bindr_Inr_iff split: if_splits)
  have "registry_step p p1 \<and>
    (\<exists>v\<in>set (pg_versions p1). pv_digest v = pk_digest k \<and> pv_plugin v = plugin \<and> pv_state v = ''installed'')"
  proof (cases bound)
    case None
    then obtain execution where e: "insert_version (version_of k plugin version execution now) p = Inr p1"
      using b(2) by (auto simp: bindr_Inr_iff)
    show ?thesis using insert_version_step [OF e] by (simp add: version_of_def)
  next
    case (Some v)
    then have "p1 = reinstate (pk_digest k) now p" "v \<in> set (pg_versions p)" "pv_digest v = pk_digest k" "pv_plugin v = plugin"
      using b(1,2) check_release_some by auto
    then show ?thesis using reinstate_step reinstated_version by blast
  qed
  then show "registry_step p p'" using activate_step [OF b(3)] registry_step_trans by blast
qed

interpretation rolling_back: registry_body "rollback_body owner i plugin target expected now"
  for owner i plugin target expected now
proof unfold_locales
  fix p r p'
  assume "rollback_body owner i plugin target expected now p = Inr (r, p')"
  then obtain v where v: "find (\<lambda>v. pv_plugin v = plugin \<and> pv_digest v = target) (pg_versions p) = Some v"
    "activate owner plugin target now (reinstate target now p) = Inr p'"
    by (auto simp: rollback_body_def bindr_Inr_iff split: option.splits if_splits)
  have "v \<in> set (pg_versions p)" "pv_digest v = target" "pv_plugin v = plugin" using find_SomeD [OF v(1)] by auto
  then have "\<exists>w\<in>set (pg_versions (reinstate target now p)). pv_digest w = target \<and> pv_plugin w = plugin \<and> pv_state w = ''installed''"
    using reinstated_version by blast
  then show "registry_step p p'" using activate_step [OF v(2)] reinstate_step registry_step_trans by blast
qed

lemma retire_unused_kept: "versions_kept p (retire_unused digest now p)"
proof -
  have "state_change (\<lambda>v. v\<lparr>pv_state := ''retired'', pv_retired := Some now, pv_updated := now\<rparr>)"
    by (simp add: state_change_def content_def version_ok_def)
  then show ?thesis using set_version_kept by (simp add: retire_unused_def)
qed

lemma retire_unused_step:
  assumes "\<And>i. i \<in> set (pg_installs p) \<Longrightarrow> pi_enabled i \<Longrightarrow> pi_retired i = None"
  shows "registry_step p (retire_unused digest now p)"
proof (cases "list_ex (\<lambda>i. pi_digest i = digest \<and> pi_retired i = None) (pg_installs p)")
  case True
  then show ?thesis by (simp add: retire_unused_def)
next
  case False
  let ?f = "\<lambda>v. v\<lparr>pv_state := ''retired'', pv_retired := Some now, pv_updated := now\<rparr>"
  have f: "state_change ?f" by (simp add: state_change_def content_def version_ok_def)
  have "\<not> pi_enabled i" if "i \<in> set (pg_installs p)" "pi_digest i = digest" for i
    using False assms that by (auto simp: list_ex_iff)
  then have "plugins_ok p \<Longrightarrow> plugins_ok (set_version digest ?f p)"
    by (intro set_version_step [OF _ f]) auto
  then show ?thesis using False set_version_kept [OF f] by (simp add: registry_step_def retire_unused_def)
qed

interpretation removing: registry_body "remove_body owner i plugin expected now"
  for owner i plugin expected now
proof unfold_locales
  fix p r p'
  let ?f = "\<lambda>i. i\<lparr>pi_enabled := False, pi_retired := Some now, pi_revision := pi_revision i + 1, pi_updated := now\<rparr>"
  assume r: "remove_body owner i plugin expected now p = Inr (r, p')"
  then obtain inst where "find_installation owner plugin p = Some inst"
    by (auto simp: remove_body_def split: option.splits)
  then have p': "p' = retire_unused (pi_digest inst) now (set_installation owner plugin ?f p)"
    using r by (auto simp: remove_body_def split: if_splits)
  have step: "registry_step (set_installation owner plugin ?f p) p'" if "plugins_ok p"
    unfolding p'
  proof (rule retire_unused_step)
    show "pi_retired i = None" if i: "i \<in> set (pg_installs (set_installation owner plugin ?f p))" "pi_enabled i" for i
      using i \<open>plugins_ok p\<close>
      by (auto simp: set_installation_def plugins_ok_def entry_ok_def elim!: in_update_whereE split: if_splits)
  qed
  have "plugins_ok p \<Longrightarrow> plugins_ok (set_installation owner plugin ?f p)"
    by (rule set_installation_ok) (auto simp: inst_key_def entry_ok_def)
  moreover have "versions_kept p p'"
    using retire_unused_kept [of "set_installation owner plugin ?f p"] by (simp add: versions_kept_def p')
  ultimately show "registry_step p p'" using step by (simp add: registry_step_def)
qed

lemma active_version_some:
  "active_version owner plugin p = Some (i, v) \<Longrightarrow>
    find_installation owner plugin p = Some i \<and> v \<in> set (pg_versions p) \<and> pv_digest v = pi_digest i"
  by (auto simp: active_version_def split: option.splits dest: find_version_some)

lemma own_entry:
  assumes "plugins_ok p" "active_version owner plugin p = Some (i, v)" "j \<in> set (pg_installs p)"
    "pi_principal j = owner" "pi_plugin j = plugin"
  shows "j = i \<and> pv_plugin v = plugin \<and> version_ok v"
proof -
  note av = active_version_some [OF assms(2)]
  have j: "j = i" using installation_unique [OF assms(1) conjunct1 [OF av] assms(3-5)] .
  obtain w where w: "w \<in> set (pg_versions p)" "pv_digest w = pi_digest i" "pv_plugin w = pi_plugin i"
    using assms(1,3) j by (auto simp: plugins_ok_def entry_ok_def)
  have "w = v" using version_unique [OF assms(1) w(1)] av w(2) by auto
  then show ?thesis using j w assms av by (auto simp: plugins_ok_def)
qed

interpretation enabling: registry_body "enable_body c owner i ty plugin expected enabled"
  for c owner i ty plugin expected enabled
proof unfold_locales
  fix p r p'
  let ?f = "\<lambda>i. i\<lparr>pi_enabled := enabled, pi_revision := pi_revision i + 1, pi_updated := x_clock c 1\<rparr>"
  assume e: "enable_body c owner i ty plugin expected enabled p = Inr (r, p')"
  then obtain inst v where av: "active_version owner plugin p = Some (inst, v)"
    and ok: "enabled \<Longrightarrow> pi_retired inst = None \<and> pv_state v \<noteq> ''retired''"
    and p': "p' = p \<or> p' = set_installation owner plugin ?f p"
    by (auto simp: enable_body_def Let_def split: option.splits if_splits)
  have "plugins_ok (set_installation owner plugin ?f p)" if pok: "plugins_ok p"
  proof (rule set_installation_ok [OF pok])
    show "inst_key (?f j) = inst_key j" for j by (simp add: inst_key_def)
    show "entry_ok (pg_versions p) (?f j)"
      if j: "j \<in> set (pg_installs p)" "pi_principal j = owner" "pi_plugin j = plugin" for j
      using own_entry [OF pok av j] active_version_some [OF av] ok j(3)
      by (auto simp: entry_ok_def version_ok_def intro!: bexI [of _ v])
  qed
  then show "registry_step p p'" using p' by (auto simp: registry_step_def versions_kept_def)
qed

interpretation binding_model: registry_body "bind_model_body owner i plugin bnd model frozen expected now"
  for owner i plugin bnd model frozen expected now
proof unfold_locales
  fix p r p'
  assume "bind_model_body owner i plugin bnd model frozen expected now p = Inr (r, p')"
  moreover from this obtain inst v where "active_version owner plugin p = Some (inst, v)"
    by (auto simp: bind_model_body_def split: option.splits)
  moreover define stored where "stored = encode_payload (JObj (dset ''id'' (JStr bnd) frozen))"
  moreover define f :: "installation_row \<Rightarrow> installation_row" where "f = (\<lambda>i. i\<lparr>pi_model := Some stored, pi_model_revision := pi_model_revision inst + 1,
      pi_revision := pi_revision i + 1, pi_updated := now\<rparr>)"
  ultimately have p': "p' = p \<or> p' = set_installation owner plugin f p"
    by (auto simp: bind_model_body_def Let_def bindr_Inr_iff simp del: encode_payload.simps split: if_splits)
  have "plugins_ok p \<Longrightarrow> plugins_ok (set_installation owner plugin f p)"
    by (rule set_installation_ok) (auto simp: inst_key_def entry_ok_def f_def)
  then show "registry_step p p'" using p' by (auto simp: registry_step_def versions_kept_def)
qed

lemma discard_step: "discard_stale_fixed_capability c owner plugin p = (b, p') \<Longrightarrow> registry_step p p'"
proof -
  let ?f = "\<lambda>i. i\<lparr>pi_enabled := False, pi_revision := pi_revision i + 1, pi_updated := x_clock c 1\<rparr>"
  assume "discard_stale_fixed_capability c owner plugin p = (b, p')"
  then have p': "p' = p \<or> p' = set_installation owner plugin ?f p"
    by (auto simp: discard_stale_fixed_capability_def split: option.splits if_splits)
  have "plugins_ok p \<Longrightarrow> plugins_ok (set_installation owner plugin ?f p)"
    by (rule set_installation_ok) (auto simp: inst_key_def entry_ok_def)
  then show ?thesis using p' by (auto simp: registry_step_def versions_kept_def)
qed

lemma setup_step: "begin_plugin_setup_action c owner plugin expected stage p = Inr (r, p') \<Longrightarrow> registry_step p p'"
  by (auto simp: begin_plugin_setup_action_def Let_def registry_step_def versions_kept_def plugins_ok_def split: if_splits)

text \<open>Every operation on the plugin tables.\<close>

inductive plugin_op :: "plugins \<Rightarrow> plugins \<Rightarrow> bool" where
  install: "install_plugin_command c owner i payload ty receipt_type extra k p d = Inr (r, p', d') \<Longrightarrow> plugin_op p p'"
| update: "update_plugin_command c owner i payload plugin ty receipt_type extra k p d = Inr (r, p', d') \<Longrightarrow> plugin_op p p'"
| rollback: "rollback_plugin_command c owner i plugin target expected p d = Inr (r, p', d') \<Longrightarrow> plugin_op p p'"
| remove: "remove_plugin_command c owner i plugin expected p d = Inr (r, p', d') \<Longrightarrow> plugin_op p p'"
| enable: "set_plugin_enabled_command c owner i ty plugin expected enabled p d = Inr (r, p', d') \<Longrightarrow> plugin_op p p'"
| bind: "bind_plugin_model_command c owner i plugin bnd model frozen expected p d = Inr (r, p', d') \<Longrightarrow> plugin_op p p'"
| discard: "discard_stale_fixed_capability c owner plugin p = (b, p') \<Longrightarrow> plugin_op p p'"
| stage_setup: "begin_plugin_setup_action c owner plugin n stage p = Inr (s, p') \<Longrightarrow> plugin_op p p'"

lemma plugin_op_step: "plugin_op p p' \<Longrightarrow> registry_step p p'"
proof (induction rule: plugin_op.induct)
  case (install c owner i payload ty receipt_type extra k p d r p' d')
  then show ?case by (auto simp: install_plugin_command_def bindr_Inr_iff intro: installing.command_step)
next
  case (update c owner i payload plugin ty receipt_type extra k p d r p' d')
  then show ?case by (auto simp: update_plugin_command_def bindr_Inr_iff intro: updating.command_step)
next
  case (rollback c owner i plugin target expected p d r p' d')
  then show ?case by (auto simp: rollback_plugin_command_def intro: rolling_back.command_step)
next
  case (remove c owner i plugin expected p d r p' d')
  then show ?case by (auto simp: remove_plugin_command_def intro: removing.command_step)
next
  case (enable c owner i ty plugin expected enabled p d r p' d')
  then show ?case by (auto simp: set_plugin_enabled_command_def intro: enabling.command_step)
next
  case (bind c owner i plugin bnd model frozen expected p d r p' d')
  then show ?case by (auto simp: bind_plugin_model_command_def intro: binding_model.command_step)
next
  case (discard c owner plugin p b p')
  then show ?case by (rule discard_step)
next
  case (stage_setup c owner plugin n stage p s p')
  then show ?case by (rule setup_step)
qed

lemma plugin_ops_step: "plugin_op\<^sup>*\<^sup>* p p' \<Longrightarrow> registry_step p p'"
  by (induction rule: rtranclp_induct) (auto intro: registry_step_trans plugin_op_step)

subsection \<open>What a run is bound to\<close>

lemma joined_iff: "(i, v) \<in> set (joined_installations owner p) \<longleftrightarrow>
    i \<in> set (pg_installs p) \<and> pi_principal i = owner \<and> v \<in> set (pg_versions p) \<and> pv_digest v = pi_digest i"
  by (auto simp: joined_installations_def)

lemma installed_iff: "r \<in> set (installed_rows owner p) \<longleftrightarrow>
    fst r \<in> set (pg_installs p) \<and> pi_principal (fst r) = owner \<and> snd r \<in> set (pg_versions p) \<and>
    pv_digest (snd r) = pi_digest (fst r) \<and> pv_plugin (snd r) = pi_plugin (fst r)"
  by (cases r) (auto simp: installed_rows_def joined_iff)

text \<open>A binding that names an installed, enabled, compatible version, the active one.\<close>

definition sound_binding :: "(string \<Rightarrow> string) \<Rightarrow> string \<Rightarrow> plugins \<Rightarrow> binding \<Rightarrow> bool" where
  "sound_binding sha owner p b \<longleftrightarrow>
    (\<exists>r\<in>set (installed_rows owner p). available r \<and> (\<exists>source required command. b = binding_of sha r source required command))"

lemma require_available_some:
  assumes "require_available rows plugin expected = Inr r"
  shows "r \<in> set rows" "pi_plugin (fst r) = plugin" "available r" "expected = None \<or> expected = Some (pv_digest (snd r))"
proof -
  obtain i v where f: "find (\<lambda>(i, v). pi_plugin i = plugin) (rev rows) = Some (i, v)"
    using assms by (auto simp: require_available_def split: option.splits)
  have m: "(i, v) \<in> set rows" "pi_plugin i = plugin" using find_SomeD [OF f] by auto
  have r: "r = (i, v)" "pi_retired i = None" "pi_enabled i" "pv_compat v = ''compatible''" "pv_state v \<noteq> ''retired''"
    "expected = None \<or> expected = Some (pv_digest v)"
    using assms f by (auto simp: require_available_def split: if_splits)
  then show "r \<in> set rows" "pi_plugin (fst r) = plugin" "available r" "expected = None \<or> expected = Some (pv_digest (snd r))"
    using m by (auto simp: available_def)
qed

text \<open>The selection is kept as a dictionary of sound bindings.\<close>

definition selection_ok :: "(string \<Rightarrow> string) \<Rightarrow> string \<Rightarrow> plugins \<Rightarrow> (id \<times> binding) list \<Rightarrow> bool" where
  "selection_ok sha owner p sel \<longleftrightarrow> distinct (map fst sel) \<and>
     (\<forall>(k, b)\<in>set sel. bd_plugin b = k \<and> sound_binding sha owner p b)"

lemma put_binding_ok:
  assumes "selection_ok sha owner p sel" "sound_binding sha owner p b"
  shows "selection_ok sha owner p (put_binding b sel)"
  using assms set_dset [of sel "bd_plugin b" b] distinct_dset [of sel "bd_plugin b" b]
  by (auto simp: selection_ok_def put_binding_def)

lemma enabled_selection_ok:
  assumes "selection_ok sha owner p sel" "set rows \<subseteq> set (installed_rows owner p)" "\<forall>r\<in>set rows. available r"
  shows "selection_ok sha owner p (fold (\<lambda>r sel. put_binding (binding_of sha r ''enabled'' False None) sel) rows sel)"
  using assms
proof (induction rows arbitrary: sel)
  case Nil
  then show ?case by simp
next
  case (Cons r rows)
  have "sound_binding sha owner p (binding_of sha r ''enabled'' False None)"
    using Cons.prems by (auto simp: sound_binding_def)
  then show ?case using Cons put_binding_ok by simp
qed

text \<open>An asked-for plugin is bound with the digest that was expected.\<close>

definition ref_bound :: "id \<Rightarrow> string option \<Rightarrow> binding list \<Rightarrow> bool" where
  "ref_bound plugin expected bs \<longleftrightarrow>
    (\<exists>b\<in>set bs. bd_plugin b = plugin \<and> (expected = None \<or> expected = Some (bd_digest b)))"

lemma binding_of_simps [simp]:
  "bd_plugin (binding_of sha r source required command) = pi_plugin (fst r)"
  "bd_digest (binding_of sha r source required command) = pv_digest (snd r)"
  by (simp_all add: binding_of_def Let_def)

text \<open>With unique keys two available rows of one plugin are the same row.\<close>

lemma installed_row_unique:
  assumes "plugins_ok p" "r \<in> set (installed_rows owner p)" "q \<in> set (installed_rows owner p)"
    "pi_plugin (fst r) = pi_plugin (fst q)"
  shows "pv_digest (snd r) = pv_digest (snd q)"
proof -
  have "inj_on inst_key (set (pg_installs p))" using assms(1) by (simp add: plugins_ok_def distinct_map)
  then have "fst r = fst q"
    by (rule inj_onD) (use assms(2-4) in \<open>simp_all add: installed_iff inst_key_def\<close>)
  then show ?thesis using assms(2,3) by (simp add: installed_iff)
qed

lemma ref_bound_put:
  assumes "ref_bound plugin expected (map snd sel)" "selection_ok sha owner p sel" "plugins_ok p"
    and "sound_binding sha owner p b"
  shows "ref_bound plugin expected (map snd (put_binding b sel))"
proof -
  obtain k x where x: "(k, x) \<in> set sel" "bd_plugin x = plugin" "expected = None \<or> expected = Some (bd_digest x)"
    using assms(1) by (auto simp: ref_bound_def)
  have xk: "k = plugin" "sound_binding sha owner p x" using x(1,2) assms(2) by (auto simp: selection_ok_def)
  have s: "set (put_binding b sel) = insert (bd_plugin b, b) {x \<in> set sel. fst x \<noteq> bd_plugin b}"
    using assms(2) by (simp add: put_binding_def selection_ok_def set_dset)
  show ?thesis
  proof (cases "bd_plugin b = plugin")
    case True
    obtain r1 where r1: "r1 \<in> set (installed_rows owner p)" "bd_plugin b = pi_plugin (fst r1)" "bd_digest b = pv_digest (snd r1)"
      using assms(4) by (auto simp: sound_binding_def)
    obtain r2 where r2: "r2 \<in> set (installed_rows owner p)" "bd_plugin x = pi_plugin (fst r2)" "bd_digest x = pv_digest (snd r2)"
      using xk(2) by (auto simp: sound_binding_def)
    have "bd_digest b = bd_digest x"
      using installed_row_unique [OF assms(3) r1(1) r2(1)] r1(2,3) r2(2,3) True x(2) by simp
    then show ?thesis using x(3) True s by (force simp: ref_bound_def)
  next
    case False
    then have "(k, x) \<in> set (put_binding b sel)" using x(1) xk(1) s by auto
    then show ?thesis using x(2,3) by (force simp: ref_bound_def)
  qed
qed

lemma put_bound:
  assumes "bd_plugin b = plugin" "expected = None \<or> expected = Some (bd_digest b)"
  shows "ref_bound plugin expected (map snd (put_binding b sel))"
proof -
  have "map_of (put_binding b sel) (bd_plugin b) = Some b" by (simp add: put_binding_def)
  then have "(bd_plugin b, b) \<in> set (put_binding b sel)" by (rule map_of_SomeD)
  then have "b \<in> set (map snd (put_binding b sel))" by force
  then show ?thesis using assms unfolding ref_bound_def by blast
qed

lemma select_reference_step:
  assumes "select_reference sha (installed_rows owner p) q sel = Inr sel'" "selection_ok sha owner p sel" "plugins_ok p"
  shows "selection_ok sha owner p sel'" "ref_bound (pr_plugin q) (pr_expected q) (map snd sel')"
    "ref_bound plugin expected (map snd sel) \<Longrightarrow> ref_bound plugin expected (map snd sel')"
proof -
  obtain r where r: "require_available (installed_rows owner p) (pr_plugin q) (pr_expected q) = Inr r"
    "sel' = put_binding (binding_of sha r ''explicit'' (pr_required q) None) sel"
    using assms(1) by (auto simp: select_reference_def bindr_Inr_iff)
  note a = require_available_some [OF r(1)]
  have s: "sound_binding sha owner p (binding_of sha r ''explicit'' (pr_required q) None)"
    using a by (auto simp: sound_binding_def)
  show "selection_ok sha owner p sel'" using put_binding_ok [OF assms(2) s] r(2) by simp
  show "ref_bound (pr_plugin q) (pr_expected q) (map snd sel')" using a r(2) by (auto intro: put_bound)
  show "ref_bound plugin expected (map snd sel) \<Longrightarrow> ref_bound plugin expected (map snd sel')"
    using ref_bound_put [OF _ assms(2,3) s] r(2) by simp
qed

lemma select_references:
  assumes "foldr_res (select_reference sha (installed_rows owner p)) refs sel = Inr sel'" "selection_ok sha owner p sel" "plugins_ok p"
  shows "selection_ok sha owner p sel' \<and> (\<forall>q\<in>set refs. ref_bound (pr_plugin q) (pr_expected q) (map snd sel'))"
proof
  show "selection_ok sha owner p sel'"
    by (rule foldr_res_invariant [where I = "selection_ok sha owner p", OF assms(1,2)]) (rule select_reference_step(1) [OF _ _ assms(3)])
  show "\<forall>q\<in>set refs. ref_bound (pr_plugin q) (pr_expected q) (map snd sel')"
  proof
    fix q assume q: "q \<in> set refs"
    show "ref_bound (pr_plugin q) (pr_expected q) (map snd sel')"
      by (rule foldr_res_establishes [where I = "selection_ok sha owner p" and
            P = "\<lambda>sel. ref_bound (pr_plugin q) (pr_expected q) (map snd sel)", OF assms(1) q assms(2)])
        (use select_reference_step [OF _ _ assms(3)] in blast)+
  qed
qed

lemma select_command_step:
  assumes "select_command sha (installed_rows owner p) command sel = Inr sel'" "selection_ok sha owner p sel" "plugins_ok p"
  shows "selection_ok sha owner p sel'"
    "command = Some x \<Longrightarrow> ref_bound (pc_plugin x) (pc_expected x) (map snd sel')"
    "ref_bound plugin expected (map snd sel) \<Longrightarrow> ref_bound plugin expected (map snd sel')"
proof -
  have "selection_ok sha owner p sel' \<and> (command = Some x \<longrightarrow> ref_bound (pc_plugin x) (pc_expected x) (map snd sel')) \<and>
    (ref_bound plugin expected (map snd sel) \<longrightarrow> ref_bound plugin expected (map snd sel'))"
  proof (cases command)
    case None
    then show ?thesis using assms by (simp add: select_command_def)
  next
    case (Some y)
    then obtain r where r: "require_available (installed_rows owner p) (pc_plugin y) (pc_expected y) = Inr r"
      "sel' = put_binding (binding_of sha r ''command'' True (Some (pc_command y))) sel"
      using assms(1) by (auto simp: select_command_def bindr_Inr_iff split: if_splits)
    note a = require_available_some [OF r(1)]
    have s: "sound_binding sha owner p (binding_of sha r ''command'' True (Some (pc_command y)))"
      using a by (auto simp: sound_binding_def)
    show ?thesis
      using put_binding_ok [OF assms(2) s] ref_bound_put [OF _ assms(2,3) s] a r(2) Some by (auto intro: put_bound)
  qed
  then show "selection_ok sha owner p sel'"
    "command = Some x \<Longrightarrow> ref_bound (pc_plugin x) (pc_expected x) (map snd sel')"
    "ref_bound plugin expected (map snd sel) \<Longrightarrow> ref_bound plugin expected (map snd sel')" by auto
qed

text \<open>
  Before the command is selected no binding carries one; the command's binding carries it, with
  the title the active version's manifest gives it.
\<close>

definition plain_selection :: "(id \<times> binding) list \<Rightarrow> bool" where
  "plain_selection sel \<longleftrightarrow> (\<forall>x\<in>set sel. bd_command (snd x) = None)"

definition command_bound :: "plugins \<Rightarrow> plugin_command_ref \<Rightarrow> binding \<Rightarrow> bool" where
  "command_bound p x b \<longleftrightarrow> bd_plugin b = pc_plugin x \<and> bd_command b = Some (pc_command x) \<and>
     bd_source b = ''command'' \<and> bd_required b \<and>
     (\<exists>v\<in>set (pg_versions p). \<exists>item. pv_digest v = bd_digest b \<and>
        find_command_item (pv_manifest v) (pc_command x) = Some item \<and> bd_title b = Some (py_str (dget item ''title'')))"

lemma set_put_binding: "set (put_binding b sel) \<subseteq> insert (bd_plugin b, b) (set sel)"
proof -
  have "set (dset k v d) \<subseteq> insert (k, v) (set d)" for k :: id and v :: binding and d
    by (induction k v d rule: dset.induct) auto
  then show ?thesis by (simp add: put_binding_def)
qed

lemma plain_put: "plain_selection sel \<Longrightarrow> bd_command b = None \<Longrightarrow> plain_selection (put_binding b sel)"
  using set_put_binding [of b sel] by (force simp: plain_selection_def)

lemma fst_put_binding [simp]: "fst ` set (put_binding b sel) = insert (bd_plugin b) (fst ` set sel)"
  by (simp add: put_binding_def)

lemma enabled_plain:
  "plain_selection sel \<Longrightarrow> plain_selection (fold (\<lambda>r sel. put_binding (binding_of sha r ''enabled'' False None) sel) rows sel)"
  by (induction rows arbitrary: sel) (simp_all add: plain_put binding_of_def Let_def)

lemma enabled_selected:
  "fst ` set (fold (\<lambda>r sel. put_binding (binding_of sha r ''enabled'' False None) sel) rows sel) =
    (\<lambda>r. pi_plugin (fst r)) ` set rows \<union> fst ` set sel"
  by (induction rows arbitrary: sel) auto

lemma references_plain:
  assumes "foldr_res (select_reference sha rows) refs sel = Inr sel'" "plain_selection sel \<and> S \<subseteq> fst ` set sel"
  shows "plain_selection sel' \<and> S \<subseteq> fst ` set sel'"
  by (rule foldr_res_invariant [where I = "\<lambda>sel. plain_selection sel \<and> S \<subseteq> fst ` set sel", OF assms])
    (auto simp: select_reference_def bindr_Inr_iff binding_of_def Let_def intro!: plain_put)

lemma select_command_bound:
  assumes "select_command sha (installed_rows owner p) command sel = Inr sel'" "plain_selection sel" "S \<subseteq> fst ` set sel"
  shows "(\<forall>b\<in>snd ` set sel'. bd_command b = None \<or> (\<exists>x. command = Some x \<and> command_bound p x b)) \<and>
    (\<forall>x. command = Some x \<longrightarrow> (\<exists>b\<in>snd ` set sel'. command_bound p x b)) \<and> S \<subseteq> fst ` set sel'"
proof (cases command)
  case None
  then show ?thesis using assms by (simp add: select_command_def plain_selection_def)
next
  case (Some y)
  then obtain r item where r: "require_available (installed_rows owner p) (pc_plugin y) (pc_expected y) = Inr r"
    "find_command_item (pv_manifest (snd r)) (pc_command y) = Some item"
    "sel' = put_binding (binding_of sha r ''command'' True (Some (pc_command y))) sel"
    using assms(1) by (auto simp: select_command_def bindr_Inr_iff split: if_splits)
  let ?b = "binding_of sha r ''command'' True (Some (pc_command y))"
  note a = require_available_some [OF r(1)]
  have "snd r \<in> set (pg_versions p)" using a(1) by (simp add: installed_iff)
  then have b: "command_bound p y ?b"
    using r(2) a(2) unfolding command_bound_def by (simp add: binding_of_def Let_def) blast
  have "map_of sel' (bd_plugin ?b) = Some ?b" by (simp add: r(3) put_binding_def del: binding_of_simps)
  then have "?b \<in> snd ` set sel'" by (force dest: map_of_SomeD)
  moreover have "c = ?b \<or> bd_command c = None" if c: "c \<in> snd ` set sel'" for c
  proof -
    obtain x where "x \<in> set (put_binding ?b sel)" "c = snd x" using c unfolding r(3) by blast
    then obtain k where "(k, c) \<in> set (put_binding ?b sel)" by (metis prod.collapse)
    then have "(k, c) \<in> insert (bd_plugin ?b, ?b) (set sel)" using set_put_binding [of ?b sel] by blast
    then show ?thesis using assms(2) by (force simp: plain_selection_def simp del: binding_of_simps)
  qed
  moreover have "S \<subseteq> fst ` set sel'" using assms(3) by (auto simp: r(3))
  moreover have "\<exists>b\<in>snd ` set sel'. command_bound p y b" using b \<open>?b \<in> snd ` set sel'\<close> by (rule bexI)
  moreover have "\<exists>x. command = Some x \<and> command_bound p x ?b" using Some b by (intro exI [of _ y] conjI)
  ultimately show ?thesis unfolding Some by (metis option.inject)
qed

text \<open>A package of a plugin \<open>x\<close>, and one of its next release whose action calls a vision model.\<close>

definition demo_package :: "string \<Rightarrow> string \<Rightarrow> json list \<Rightarrow> package" where
  "demo_package version digest caps =
     \<lparr>pk_manifest = [(''id'', JStr ''x''), (''version'', JStr version), (''name'', JStr ''X''),
        (''runtime'', JObj [(''execution'', JObj [(''kind'', JStr ''managed_worker'')])]),
        (''contributions'', JObj [(''actions'', JList [JObj [(''capabilities'', JList caps)]]),
           (''commands'', JList [JObj [(''id'', JStr ''go''), (''title'', JStr ''Go'')]])])],
      pk_digest = digest, pk_signature = ''verified'', pk_signer = None, pk_compat = ''compatible'', pk_source = ''local''\<rparr>"

definition no_plugins :: plugins where
  "no_plugins = \<lparr>pg_versions = [], pg_installs = [], pg_setups = []\<rparr>"

definition demo_installed :: "((json \<times> bool) \<times> plugins \<times> db) pres" where
  "demo_installed = install_plugin_command free_ctx ''local'' ''c1'' [] ''plugin.install'' ''plugin.install'' []
     (demo_package ''1'' ''d1'' []) no_plugins empty_db"

definition demo_enabled :: "((json \<times> bool) \<times> plugins \<times> db) pres" where
  "demo_enabled = bindr demo_installed (\<lambda>x.
     set_plugin_enabled_command free_ctx ''local'' ''c2'' ''plugin.enable'' ''x'' (Some ''d1'') True (fst (snd x)) (snd (snd x)))"

text \<open>An update keeps an installation enabled that could not be enabled: the new version needs a
  model binding and has none.\<close>

definition demo_updated :: "((json \<times> bool) \<times> plugins \<times> db) pres" where
  "demo_updated = bindr demo_enabled (\<lambda>x.
     update_plugin_command free_ctx ''local'' ''c3'' [] ''x'' ''plugin.update'' ''plugin.update'' []
       (demo_package ''2'' ''d2'' [JStr ''model.vision.invoke'']) (fst (snd x)) (snd (snd x)))"

lemma update_skips_the_model_binding:
  "returns demo_updated (\<lambda>x. list_ex (\<lambda>i. pi_enabled i \<and> pi_digest i = ''d2'' \<and> pi_model i = None) (pg_installs (fst (snd x))) \<and>
     list_ex (\<lambda>v. pv_digest v = ''d2'' \<and> needs_model_binding (pv_manifest v)) (pg_versions (fst (snd x))))"
  by code_simp

text \<open>A version that one principal removed stays retired when another installs it afresh, who then
  cannot enable it.\<close>

definition demo_reinstalled :: "((json \<times> bool) \<times> plugins \<times> db) pres" where
  "demo_reinstalled = bindr demo_installed (\<lambda>x. bindr
     (remove_plugin_command free_ctx ''local'' ''c2'' ''x'' None (fst (snd x)) (snd (snd x))) (\<lambda>x. bindr
     (install_plugin_command free_ctx ''guest'' ''c3'' [] ''plugin.install'' ''plugin.install'' []
        (demo_package ''1'' ''d1'' []) (fst (snd x)) (snd (snd x))) (\<lambda>x.
     set_plugin_enabled_command free_ctx ''guest'' ''c4'' ''plugin.enable'' ''x'' None True (fst (snd x)) (snd (snd x)))))"

lemma fresh_install_stays_retired:
  "(case demo_reinstalled of Inl e \<Rightarrow> e = PluginStateError ''plugin_retired'' | Inr _ \<Rightarrow> False)"
  by code_simp

lemma demo_enabled_runs:
  "returns demo_enabled (\<lambda>x. list_ex pi_enabled (pg_installs (fst (snd x))) \<and> pg_versions (fst (snd x)) \<noteq> [])"
  by code_simp

lemma demo_enabled_ops:
  obtains r p d where "demo_enabled = Inr (r, p, d)" "plugin_op\<^sup>*\<^sup>* no_plugins p" "list_ex pi_enabled (pg_installs p)" "pg_versions p \<noteq> []"
proof -
  obtain y where y: "demo_enabled = Inr y" "list_ex pi_enabled (pg_installs (fst (snd y)))" "pg_versions (fst (snd y)) \<noteq> []"
    using demo_enabled_runs by (auto elim!: returnsE)
  obtain x where x: "demo_installed = Inr x"
    "set_plugin_enabled_command free_ctx ''local'' ''c2'' ''plugin.enable'' ''x'' (Some ''d1'') True (fst (snd x)) (snd (snd x)) = Inr y"
    by (rule bindrE [OF y(1) [unfolded demo_enabled_def]])
  obtain rx px dx where px: "x = (rx, px, dx)" using prod_cases3 by blast
  obtain ry py dy where py: "y = (ry, py, dy)" using prod_cases3 by blast
  have "plugin_op no_plugins px"
    by (rule plugin_op.install) (use x(1) px in \<open>simp add: demo_installed_def\<close>)
  moreover have "plugin_op px py"
    by (rule plugin_op.enable) (use x(2) px py in simp)
  ultimately have "plugin_op\<^sup>*\<^sup>* no_plugins py" by simp
  then show thesis using that [of ry py dy] y py by simp
qed

lemma no_plugins_ok: "plugins_ok no_plugins"
  by (simp add: plugins_ok_def no_plugins_def)

subsection \<open>Properties\<close>

text \<open>C27: The plugin registry stays consistent under any sequence of installing, updating, rolling back,
  removing, enabling, configuring, discarding and setup steps, of any principals: digests and
  releases are unique, every installation points at a version of its own plugin, and what is
  enabled is not retired and its version is installed. What a digest stands for (plugin,
  version, manifest, execution, compatibility) never changes and no version is lost.\<close>

theorem plugin_registry_is_consistent:
  assumes "plugin_op\<^sup>*\<^sup>* p p'" "plugins_ok p"
  shows "plugins_ok p' \<and> content ` set (pg_versions p) \<subseteq> content ` set (pg_versions p')"
  using plugin_ops_step [OF assms(1)] assms(2) by (simp add: registry_step_def versions_kept_def)

lemma plugin_registry_is_consistent_witness:
  "\<exists>r p d. demo_enabled = Inr (r, p, d) \<and> plugins_ok p \<and> list_ex pi_enabled (pg_installs p)"
proof -
  obtain r p d where p: "demo_enabled = Inr (r, p, d)" "plugin_op\<^sup>*\<^sup>* no_plugins p" "list_ex pi_enabled (pg_installs p)"
    by (rule demo_enabled_ops)
  then show ?thesis using plugin_registry_is_consistent [OF p(2) no_plugins_ok] by blast
qed

text \<open>C28: The plugins a run is bound to come in the order of their ids, at most one binding per plugin,
  each the active version of an installation of the run's owner that is enabled, compatible and
  not retired. Every installation of that kind is among them; so is every plugin that was asked
  for, with the digest that was expected; and the plugin command that was asked for is bound as a
  required command of its plugin, with its id and the title the bound version's manifest gives
  it. No other binding carries a command.\<close>

theorem run_bindings_are_sound:
  assumes "resolve_run_plugin_bindings sha owner refs command None p d = Inr bs" "plugins_ok p"
  shows "sorted (map bd_plugin bs) \<and> distinct (map bd_plugin bs) \<and> (\<forall>b\<in>set bs. sound_binding sha owner p b) \<and>
    (\<forall>r\<in>set (installed_rows owner p). available r \<longrightarrow> pi_plugin (fst r) \<in> bd_plugin ` set bs) \<and>
    (\<forall>q\<in>set refs. ref_bound (pr_plugin q) (pr_expected q) bs) \<and>
    (\<forall>x. command = Some x \<longrightarrow> ref_bound (pc_plugin x) (pc_expected x) bs \<and> (\<exists>b\<in>set bs. command_bound p x b)) \<and>
    (\<forall>b\<in>set bs. bd_command b = None \<or> (\<exists>x. command = Some x \<and> command_bound p x b))"
proof -
  let ?rows = "installed_rows owner p"
  let ?enabled = "fold (\<lambda>r sel. put_binding (binding_of sha r ''enabled'' False None) sel) (filter available ?rows) []"
  let ?S = "(\<lambda>r. pi_plugin (fst r)) ` set (filter available ?rows)"
  obtain sel1 sel where s: "foldr_res (select_reference sha ?rows) refs ?enabled = Inr sel1"
    "select_command sha ?rows command sel1 = Inr sel" "bs = map snd (sort_key fst sel)"
    using assms(1) by (auto simp: resolve_run_plugin_bindings_def Let_def bindr_Inr_iff)
  have e: "selection_ok sha owner p ?enabled"
    by (rule enabled_selection_ok) (auto simp: selection_ok_def)
  note r = select_references [OF s(1) e assms(2)]
  note c = select_command_step [OF s(2) conjunct1 [OF r] assms(2)]
  have "plain_selection []" by (simp add: plain_selection_def)
  then have "plain_selection ?enabled \<and> ?S \<subseteq> fst ` set ?enabled"
    unfolding enabled_selected by (simp add: enabled_plain)
  then have plain: "plain_selection sel1 \<and> ?S \<subseteq> fst ` set sel1" by (rule references_plain [OF s(1)])
  have com: "(\<forall>b\<in>snd ` set sel. bd_command b = None \<or> (\<exists>x. command = Some x \<and> command_bound p x b)) \<and>
      (\<forall>x. command = Some x \<longrightarrow> (\<exists>b\<in>snd ` set sel. command_bound p x b)) \<and> ?S \<subseteq> fst ` set sel"
    by (rule select_command_bound [OF s(2) conjunct1 [OF plain] conjunct2 [OF plain]])
  have same: "set bs = snd ` set sel" using s(3) by simp
  then have bound: "ref_bound plugin expected bs \<longleftrightarrow> ref_bound plugin expected (map snd sel)" for plugin expected
    by (simp add: ref_bound_def)
  have keys: "map bd_plugin bs = map fst (sort_key fst sel)"
    using c(1) s(3) by (auto simp: selection_ok_def)
  have "distinct sel" "inj_on fst (set sel)" using c(1) by (simp_all add: selection_ok_def distinct_map)
  then have "sorted (map bd_plugin bs)" "distinct (map bd_plugin bs)" unfolding keys by (simp_all add: distinct_map)
  moreover have "\<forall>b\<in>set bs. sound_binding sha owner p b" using c(1) same by (auto simp: selection_ok_def)
  moreover have "bd_plugin ` set bs = fst ` set sel"
    using keys by (metis list.set_map set_sort)
  moreover have "\<forall>q\<in>set refs. ref_bound (pr_plugin q) (pr_expected q) bs"
    "\<forall>x. command = Some x \<longrightarrow> ref_bound (pc_plugin x) (pc_expected x) bs"
    using r c(2,3) unfolding bound by simp_all
  moreover have "\<forall>r\<in>set ?rows. available r \<longrightarrow> pi_plugin (fst r) \<in> fst ` set sel" using com by auto
  moreover note conjunct1 [OF com] conjunct1 [OF conjunct2 [OF com]]
  ultimately show ?thesis unfolding same by simp
qed

definition demo_bindings :: "binding list pres" where
  "demo_bindings = bindr demo_enabled (\<lambda>x. lift_res (resolve_run_plugin_bindings (\<lambda>_. ''h'') ''local''
     [\<lparr>pr_plugin = ''x'', pr_expected = Some ''d1'', pr_required = True\<rparr>]
     (Some \<lparr>pc_plugin = ''x'', pc_command = ''go'', pc_expected = None\<rparr>) None (fst (snd x)) empty_db))"

lemma demo_bindings_run: "returns demo_bindings (\<lambda>bs. map bd_plugin bs = [''x''] \<and> map bd_title bs = [Some ''Go''])"
  by code_simp

lemma run_bindings_are_sound_witness:
  "\<exists>bs p. demo_bindings = Inr bs \<and> map bd_plugin bs = [''x''] \<and> ref_bound ''x'' (Some ''d1'') bs \<and>
    (\<exists>b\<in>set bs. bd_command b = Some ''go'') \<and>
    (\<forall>b\<in>set bs. sound_binding (\<lambda>_. ''h'') ''local'' p b)"
proof -
  obtain bs where bs: "demo_bindings = Inr bs" "map bd_plugin bs = [''x'']"
    using demo_bindings_run by (auto elim!: returnsE)
  obtain r p d where p: "demo_enabled = Inr (r, p, d)" "plugin_op\<^sup>*\<^sup>* no_plugins p" by (rule demo_enabled_ops)
  have ok: "plugins_ok p" using plugin_ops_step [OF p(2)] no_plugins_ok by (simp add: registry_step_def)
  have r: "resolve_run_plugin_bindings (\<lambda>_. ''h'') ''local'' [\<lparr>pr_plugin = ''x'', pr_expected = Some ''d1'', pr_required = True\<rparr>]
     (Some \<lparr>pc_plugin = ''x'', pc_command = ''go'', pc_expected = None\<rparr>) None p empty_db = Inr bs"
    using bs(1) unfolding demo_bindings_def p(1) bindr_simps lift_res_Inr_iff by simp
  note s = run_bindings_are_sound [OF r ok]
  have "ref_bound ''x'' (Some ''d1'') bs" "\<forall>b\<in>set bs. sound_binding (\<lambda>_. ''h'') ''local'' p b"
    "\<exists>b\<in>set bs. bd_command b = Some ''go''"
    using s by (simp_all add: command_bound_def) blast
  then show ?thesis using bs by (intro exI [of _ bs] exI [of _ p]) simp
qed

end
