(* ===== verification/Permission_Policy.thy ===== *)
theory Permission_Policy
  imports Database
begin

text \<open>
  permission_policy.py: which tool calls a person must review, and which approvals may become a
  grant for the rest of the run. Shown: an irreversible tool is always asked about and never
  granted for a run, whatever the mode and risk.
\<close>

definition irreversible_tools :: "string list" where
  "irreversible_tools = [''office.delete_paragraph'', ''office.delete_slide'']"

definition run_grant_risks :: "string list" where
  "run_grant_risks = [''control_flow'', ''read_only'', ''runtime_state'', ''sandboxed_command'', ''workspace_write'']"

datatype approval = ApprovalAsk | ApprovalAllow | ApprovalReview

definition approval_policy_decision :: "string \<Rightarrow> string \<Rightarrow> string \<Rightarrow> approval \<times> string" where
  "approval_policy_decision tool risk mode =
    (if tool \<in> set irreversible_tools then (ApprovalAsk, ''irreversible'')
     else if tool = ''image.generate'' then (ApprovalAllow, ''image_generation'')
     else if mode = ''full_access'' then (ApprovalAllow, ''full_access'')
     else if tool = ''clipboard.read'' then (ApprovalAsk, ''protected_runtime_state'')
     else if mode = ''auto'' then
       (if risk = ''external_or_unknown'' then (ApprovalReview, ''external_or_unknown'')
        else (ApprovalAllow, ''runtime_safe''))
     else if risk \<in> {''workspace_write'', ''sandboxed_command'', ''external_or_unknown'', ''plugin_action''}
       then (ApprovalAsk, risk)
     else (ApprovalAllow, ''read_only''))"

definition tool_requires_review :: "string \<Rightarrow> string \<Rightarrow> string \<Rightarrow> bool" where
  "tool_requires_review tool risk mode \<longleftrightarrow> fst (approval_policy_decision tool risk mode) \<noteq> ApprovalAllow"

definition can_grant_for_run :: "string \<Rightarrow> string option \<Rightarrow> bool" where
  "can_grant_for_run tool risk \<longleftrightarrow>
     tool \<notin> set irreversible_tools \<and> (case risk of None \<Rightarrow> False | Some r \<Rightarrow> r \<in> set run_grant_risks)"

definition require_allowed_permission_scope :: "string \<Rightarrow> string option \<Rightarrow> string \<Rightarrow> string \<Rightarrow> unit res" where
  "require_allowed_permission_scope tool risk status scope =
    (if status = ''approved'' \<and> scope = ''run'' \<and> \<not> can_grant_for_run tool risk
     then Inl PermissionScopeNotAllowedError else Inr ())"

lemma irreversible_always_asked:
  assumes "tool \<in> set irreversible_tools"
  shows "tool_requires_review tool risk mode" "\<not> can_grant_for_run tool r"
  using assms by (simp_all add: tool_requires_review_def approval_policy_decision_def can_grant_for_run_def)

lemma scope_allowed_iff:
  "require_allowed_permission_scope tool risk status scope = Inr () \<longleftrightarrow>
    (status = ''approved'' \<and> scope = ''run'' \<longrightarrow> can_grant_for_run tool risk)"
  by (auto simp: require_allowed_permission_scope_def)

end
