(* ===== verification/Waits.thy ===== *)
theory Waits
  imports Run_Jobs Permission_Policy
begin

text \<open>
  The waits of a run (store/waits): permissions, questions, plan approvals and reconciliations of
  tool outcomes. Each has a row of its own and a candidate in \<open>local_wait_candidates\<close>; the
  candidates of one wait cycle together make the payload the run is resumed with. An operation
  that first looks at a row outside its transaction takes the database of that look as \<open>seen\<close>:
  the one its transaction finds may be later. Shown: a wait is decided once and for all, only a
  run that can still wait gets a decision, and run-wide grants exist only for tools and risks the
  policy allows.
\<close>

subsection \<open>Candidates\<close>

definition find_wait :: "id \<Rightarrow> db \<Rightarrow> wait_row option" where
  "find_wait i d = find (\<lambda>w. w_id w = i) (db_waits d)"

definition new_candidate :: "id \<Rightarrow> id \<Rightarrow> string \<Rightarrow> id \<Rightarrow> id \<Rightarrow> int \<Rightarrow> json \<Rightarrow> time \<Rightarrow> wait_row" where
  "new_candidate i run kind cycle interrupt position payload created =
     \<lparr>w_id = i, w_run = run, w_kind = kind, w_cycle = cycle, w_interrupt = interrupt,
      w_position = position, w_status = ''pending'', w_payload = payload, w_decision = None,
      w_created = created, w_resolved = None\<rparr>"

text \<open>The keys of the table: its id, and the place of a candidate in its run's interrupt.\<close>

definition wait_clash :: "wait_row \<Rightarrow> db \<Rightarrow> bool" where
  "wait_clash w d \<longleftrightarrow> get_run_row d (w_run w) = None \<or>
     list_ex (\<lambda>x. w_id x = w_id w \<or>
       (w_run x = w_run w \<and> w_interrupt x = w_interrupt w \<and> w_position x = w_position w)) (db_waits d)"

definition insert_wait :: "wait_row \<Rightarrow> db \<Rightarrow> db res" where
  "insert_wait w d = (if wait_clash w d then Inl SqlIntegrityError else Inr (d\<lparr>db_waits := db_waits d @ [w]\<rparr>))"

definition resolve_candidate :: "id \<Rightarrow> json \<Rightarrow> time \<Rightarrow> db \<Rightarrow> nat \<times> db" where
  "resolve_candidate i decision now d =
    (let mine = (\<lambda>w. w_id w = i \<and> w_status w = ''pending'')
     in (count_where mine (db_waits d),
         d\<lparr>db_waits := update_where mine
             (\<lambda>w. w\<lparr>w_status := ''resolved'', w_decision := Some decision, w_resolved := Some now\<rparr>) (db_waits d)\<rparr>))"

text \<open>The states in which no decision is taken any more.\<close>

definition decides_no_more :: "db \<Rightarrow> id \<Rightarrow> bool" where
  "decides_no_more d run = (case get_run_row d run of None \<Rightarrow> True
     | Some r \<Rightarrow> terminal_run (r_status r) \<or> r_status r = RunCleanupRequired)"

definition id_or :: "id option \<Rightarrow> id \<Rightarrow> id" where
  "id_or x i = opt_or x i"

definition list_wait_candidates_for_run :: "id \<Rightarrow> db \<Rightarrow> wait_row list" where
  "list_wait_candidates_for_run run d = select_by (\<lambda>w. (w_created w, w_id w)) (\<lambda>w. w_run w = run) (db_waits d)"

subsection \<open>Plan approvals\<close>

definition plan_todos :: "plan_row \<Rightarrow> json list" where
  "plan_todos p = (case pl_todos p of JList xs \<Rightarrow> xs | _ \<Rightarrow> [])"

definition get_plan_approval :: "id \<Rightarrow> db \<Rightarrow> plan_row option" where
  "get_plan_approval i d = find (\<lambda>p. pl_id p = i) (db_plans d)"

definition get_plan_approval_by_tool_call :: "id \<Rightarrow> string \<Rightarrow> db \<Rightarrow> plan_row option" where
  "get_plan_approval_by_tool_call run call d = find (\<lambda>p. pl_run p = run \<and> pl_call p = call) (db_plans d)"

definition insert_plan :: "plan_row \<Rightarrow> db \<Rightarrow> db res" where
  "insert_plan p d =
    (if get_run_row d (pl_run p) = None \<or>
        list_ex (\<lambda>x. pl_id x = pl_id p \<or> (pl_run x = pl_run p \<and> pl_call x = pl_call p)) (db_plans d)
     then Inl SqlIntegrityError else Inr (d\<lparr>db_plans := db_plans d @ [p]\<rparr>))"

text \<open>A plan recorded before waits had cycles is given the ones of its replay.\<close>

definition adopt_plan_wait :: "ctx \<Rightarrow> id \<Rightarrow> id \<Rightarrow> id \<Rightarrow> plan_row \<Rightarrow> db \<Rightarrow> (plan_row \<times> db) res" where
  "adopt_plan_wait c run cycle interrupt x d =
    run_write_transaction c None run d (\<lambda>d.
     (let d1 = d\<lparr>db_plans := update_where (\<lambda>p. pl_id p = pl_id x)
             (\<lambda>p. p\<lparr>pl_cycle := Some cycle, pl_interrupt := Some interrupt\<rparr>) (db_plans d)\<rparr>;
          w = new_candidate (pl_id x) run ''plan'' cycle interrupt 0 (pl_todos x) (pl_created x);
          d2 = (if wait_clash w d1 then d1 else d1\<lparr>db_waits := db_waits d1 @ [w]\<rparr>)
      in if get_run_row d1 run = None then Inl SqlIntegrityError
         else Inr (x\<lparr>pl_cycle := Some cycle, pl_interrupt := Some interrupt\<rparr>, d2)))"

definition create_plan_approval ::
    "ctx \<Rightarrow> id \<Rightarrow> string \<Rightarrow> json list \<Rightarrow> string \<Rightarrow> id option \<Rightarrow> id option \<Rightarrow> db \<Rightarrow> (plan_row \<times> db) res" where
  "create_plan_approval c run call todos summary cycle interrupt d =
    (let (i, d0) = new_id ''plan'' d; now = x_clock c 1;
         p = \<lparr>pl_id = i, pl_run = run, pl_call = call, pl_cycle = Some (id_or cycle i),
              pl_interrupt = Some (id_or interrupt i), pl_todos = JList todos, pl_summary = summary,
              pl_status = ''pending'', pl_instructions = None, pl_created = now, pl_resolved = None\<rparr>;
         w = new_candidate i run ''plan'' (id_or cycle i) (id_or interrupt i) 0 (JList todos) now
     in case run_write_transaction c None run d0 (\<lambda>d. bindr (insert_plan p d) (insert_wait w)) of
          Inr d1 \<Rightarrow> Inr (p, d1)
        | Inl e \<Rightarrow>
           if e \<noteq> SqlIntegrityError then Inl e
           else (case get_plan_approval_by_tool_call run call d0 of
                   None \<Rightarrow> Inl PyAssertionError
                 | Some x \<Rightarrow>
                    if opt_or cycle [] \<noteq> [] \<and> opt_or interrupt [] \<noteq> [] \<and>
                       (opt_or (pl_cycle x) [] = [] \<or> opt_or (pl_interrupt x) [] = [])
                    then adopt_plan_wait c run (opt_or cycle []) (opt_or interrupt []) x d0
                    else Inr (x, d0)))"

subsection \<open>Permissions\<close>

record permission_request =
  pq_run :: id
  pq_call :: string
  pq_tool :: string
  pq_args :: dict
  pq_version :: string
  pq_op :: "id option"
  pq_hash :: "string option"
  pq_risk :: "string option"
  pq_cycle :: "id option"
  pq_interrupt :: "id option"
  pq_index :: int
  pq_scope :: string

definition get_permission :: "id \<Rightarrow> db \<Rightarrow> permission_row option" where
  "get_permission i d = find (\<lambda>p. p_id p = i) (db_perms d)"

definition get_permission_for_operation :: "id \<Rightarrow> id \<Rightarrow> db \<Rightarrow> permission_row option" where
  "get_permission_for_operation run oper d = find (\<lambda>p. p_run p = run \<and> p_op p = Some oper) (db_perms d)"

definition list_permissions_for_run :: "id \<Rightarrow> db \<Rightarrow> permission_row list" where
  "list_permissions_for_run run d = select_by p_created (\<lambda>p. p_run p = run) (db_perms d)"

text \<open>The primary key and the two unique indexes.\<close>

definition insert_permission :: "permission_row \<Rightarrow> db \<Rightarrow> db res" where
  "insert_permission p d =
    (if get_run_row d (p_run p) = None \<or>
        list_ex (\<lambda>x. p_id x = p_id p \<or>
          (p_run x = p_run p \<and> p_op p \<noteq> None \<and> p_op x = p_op p) \<or>
          (p_run x = p_run p \<and> p_interrupt p \<noteq> None \<and> p_interrupt x = p_interrupt p \<and> p_index x = p_index p)) (db_perms d)
     then Inl SqlIntegrityError else Inr (d\<lparr>db_perms := db_perms d @ [p]\<rparr>))"

definition new_permission :: "permission_request \<Rightarrow> id \<Rightarrow> time \<Rightarrow> permission_row" where
  "new_permission q i now =
     \<lparr>p_id = i, p_run = pq_run q, p_call = Some (pq_call q), p_cycle = Some (id_or (pq_cycle q) i),
      p_interrupt = Some (id_or (pq_interrupt q) i), p_index = max 0 (pq_index q), p_op = pq_op q,
      p_tool = pq_tool q, p_version = pq_version q, p_args_hash = pq_hash q,
      p_args = JObj (pq_args q), p_risk = pq_risk q, p_decision = None, p_status = ''pending'',
      p_scope = pq_scope q, p_max_uses = 0, p_uses = 0, p_created = now, p_resolved = None\<rparr>"

definition permission_payload :: "permission_request \<Rightarrow> json" where
  "permission_payload q = encode_payload (JObj
     [(''tool_call_id'', JStr (pq_call q)), (''operation_id'', json_opt (pq_op q)),
      (''tool_name'', JStr (pq_tool q)), (''tool_version'', JStr (pq_version q)),
      (''arguments_hash'', json_opt (pq_hash q)), (''arguments'', JObj (pq_args q)),
      (''risk'', json_opt (pq_risk q))])"

definition same_permission_call :: "permission_request \<Rightarrow> permission_row \<Rightarrow> bool" where
  "same_permission_call q x \<longleftrightarrow> p_call x = Some (pq_call q) \<and> p_tool x = pq_tool q \<and>
     p_version x = pq_version q \<and> p_args_hash x = pq_hash q"

definition create_permission :: "ctx \<Rightarrow> permission_request \<Rightarrow> db \<Rightarrow> db \<Rightarrow> (permission_row \<times> db) res" where
  "create_permission c q seen d =
    (case (if opt_or (pq_op q) [] = [] then None
           else get_permission_for_operation (pq_run q) (opt_or (pq_op q) []) seen) of
       Some x \<Rightarrow> if same_permission_call q x then Inr (x, d) else Inl PermissionDecisionConflictError
     | None \<Rightarrow>
        (let (i, d0) = new_id ''perm'' d; now = x_clock c 1; p = new_permission q i now;
             w = new_candidate i (pq_run q) ''tool_review'' (id_or (pq_cycle q) i)
               (id_or (pq_interrupt q) i) (max 0 (pq_index q)) (permission_payload q) now
         in run_write_transaction c None (pq_run q) d0 (\<lambda>d.
              bindr (insert_permission p d) (\<lambda>d1. bindr (insert_wait w d1) (\<lambda>d2. Inr (p, d2))))))"

definition decide_permission :: "string \<Rightarrow> string \<Rightarrow> json \<Rightarrow> time \<Rightarrow> permission_row \<Rightarrow> permission_row" where
  "decide_permission status scope decision now p = p\<lparr>p_status := status, p_scope := scope,
     p_decision := Some decision, p_max_uses := (if scope = ''run'' \<and> status = ''approved'' then - 1 else 0),
     p_resolved := Some now\<rparr>"

definition update_permission :: "id \<Rightarrow> (permission_row \<Rightarrow> permission_row) \<Rightarrow> db \<Rightarrow> nat \<times> db" where
  "update_permission i f d =
    (let mine = (\<lambda>p. p_id p = i \<and> p_status p = ''pending'')
     in (count_where mine (db_perms d), d\<lparr>db_perms := update_where mine f (db_perms d)\<rparr>))"

text \<open>\<open>decision or ({"type": ...})\<close>: an empty decision is replaced.\<close>

definition permission_decision :: "dict option \<Rightarrow> string \<Rightarrow> json" where
  "permission_decision decision status = encode_payload (JObj
    (case decision of
       Some (x # xs) \<Rightarrow> x # xs
     | _ \<Rightarrow> [(''type'', JStr (if status = ''approved'' then ''approve'' else ''reject''))]))"

definition resolve_permission ::
    "ctx \<Rightarrow> id \<Rightarrow> string \<Rightarrow> string option \<Rightarrow> dict option \<Rightarrow> dict option \<Rightarrow> db \<Rightarrow> db \<Rightarrow> (permission_row option \<times> db) res" where
  "resolve_permission c i status scope decision event seen d =
    (if status \<notin> {''approved'', ''denied''} then Inl PyValueError
     else (case get_permission i seen of
       None \<Rightarrow> Inr (None, d)
     | Some x \<Rightarrow>
        (let current_scope = (if p_scope x = [] then ''once'' else p_scope x);
             requested = opt_or scope current_scope;
             chosen = permission_decision decision status
         in bindr (require_allowed_permission_scope (p_tool x) (p_risk x) status requested) (\<lambda>_.
            if p_status x \<noteq> ''pending'' then
              (if p_status x \<noteq> status \<or> current_scope \<noteq> requested \<or> p_decision x \<noteq> Some chosen
               then Inl PermissionDecisionConflictError else Inr (Some x, d))
            else run_write_transaction c None (p_run x) d (\<lambda>d.
              if decides_no_more d (p_run x) then Inl WaitDecisionConflictError
              else (let (n, d1) = update_permission i (decide_permission status requested chosen (x_clock c 1)) d;
                        (m, d2) = resolve_candidate i chosen (x_clock c 2) d1
                    in if n \<noteq> 1 then Inl PermissionDecisionConflictError
                       else if m \<noteq> 1 then Inl WaitDecisionConflictError
                       else (case event of
                               None \<Rightarrow> Inr (get_permission i d2, d2)
                             | Some payload \<Rightarrow>
                                bindr (append_event_uncommitted (p_run x) ''permission.resolved''
                                         (encode_payload (JObj payload)) (x_clock c 3) d2)
                                  (\<lambda>(_, _, d3). Inr (get_permission i d3, d3)))))))))"

text \<open>\<open>ORDER BY resolved_at DESC LIMIT 1\<close>; a row without the time comes last.\<close>

definition latest_resolved :: "permission_row list \<Rightarrow> permission_row option" where
  "latest_resolved ps = (case rev (sort_key (\<lambda>p. case p_resolved p of None \<Rightarrow> 0 | Some t \<Rightarrow> Suc t) ps) of
     [] \<Rightarrow> None | p # _ \<Rightarrow> Some p)"

definition run_grant_for :: "id \<Rightarrow> string \<Rightarrow> string \<Rightarrow> string \<Rightarrow> permission_row \<Rightarrow> bool" where
  "run_grant_for run tool version risk p \<longleftrightarrow> p_run p = run \<and> p_tool p = tool \<and> p_version p = version \<and>
     p_risk p = Some risk \<and> p_status p = ''approved'' \<and> p_scope p = ''run''"

definition consume_run_permission_grant ::
    "ctx \<Rightarrow> id \<Rightarrow> id \<Rightarrow> string \<Rightarrow> string \<Rightarrow> string \<Rightarrow> db \<Rightarrow> (bool \<times> db) res" where
  "consume_run_permission_grant c run oper tool version risk d =
    run_write_transaction c None run d (\<lambda>d.
      if list_ex (\<lambda>g. g_run g = run \<and> g_op g = oper) (db_grant_uses d) then Inr (True, d)
      else (case latest_resolved (filter (run_grant_for run tool version risk) (db_perms d)) of
              None \<Rightarrow> Inr (False, d)
            | Some p \<Rightarrow>
               (let use = \<lparr>g_permission = p_id p, g_run = run, g_op = oper, g_created = x_clock c 1\<rparr>;
                    mine = (\<lambda>x. p_id x = p_id p);
                    d1 = d\<lparr>db_grant_uses := db_grant_uses d @ [use],
                           db_perms := update_where mine (\<lambda>x. x\<lparr>p_uses := Suc (p_uses x)\<rparr>) (db_perms d)\<rparr>
                in if count_where mine (db_perms d) \<noteq> 1 then Inl PermissionDecisionConflictError
                   else Inr (True, d1))))"

subsection \<open>The payload a wait cycle resumes with\<close>

definition decision_of :: "wait_row \<Rightarrow> json" where
  "decision_of w = (case w_decision w of None \<Rightarrow> JObj [] | Some v \<Rightarrow> v)"

definition resume_group :: "wait_row list \<Rightarrow> json res" where
  "resume_group ws =
    (let kinds = set (map w_kind ws)
     in if kinds = {''tool_review''} then Inr (JObj [(''decisions'', JList (map decision_of ws))])
        else if (kinds = {''question''} \<or> kinds = {''tool_reconciliation''} \<or> kinds = {''plan''}) \<and> length ws = 1
          then Inr (decision_of (ws ! 0))
        else Inl WaitDecisionConflictError)"

fun resume_groups :: "id list \<Rightarrow> wait_row list \<Rightarrow> dict \<Rightarrow> dict res" where
  "resume_groups [] rows acc = Inr acc"
| "resume_groups (i # is) rows acc =
     bindr (resume_group (filter (\<lambda>w. w_interrupt w = i) rows)) (\<lambda>v. resume_groups is rows (acc @ [(i, v)]))"

definition cycle_rows :: "id \<Rightarrow> id \<Rightarrow> db \<Rightarrow> wait_row list" where
  "cycle_rows run cycle d = select_by (\<lambda>w. (w_interrupt w, w_position w)) (\<lambda>w. w_run w = run \<and> w_cycle w = cycle) (db_waits d)"

definition wait_cycle_resume_payload :: "id \<Rightarrow> id \<Rightarrow> db \<Rightarrow> dict option res" where
  "wait_cycle_resume_payload run cycle d =
    (let rows = cycle_rows run cycle d
     in if rows = [] \<or> list_ex (\<lambda>w. w_status w \<noteq> ''resolved'') rows then Inr None
        else bindr (resume_groups (distinct_runs (map w_interrupt rows)) rows []) (\<lambda>p. Inr (Some p)))"

definition latest_resolved_wait_cycle_payload :: "id \<Rightarrow> db \<Rightarrow> dict option res" where
  "latest_resolved_wait_cycle_payload run d =
    (case rev (list_wait_candidates_for_run run d) of
       [] \<Rightarrow> Inr None
     | w # _ \<Rightarrow> wait_cycle_resume_payload run (w_cycle w) d)"

subsection \<open>Questions (questions.py)\<close>

definition get_question :: "id \<Rightarrow> db \<Rightarrow> question_row option" where
  "get_question i d = find (\<lambda>q. q_id q = i) (db_questions d)"

definition count_questions_for_run :: "id \<Rightarrow> db \<Rightarrow> nat" where
  "count_questions_for_run run d = count_where (\<lambda>q. q_run q = run) (db_questions d)"

definition insert_question :: "question_row \<Rightarrow> db \<Rightarrow> db res" where
  "insert_question q d =
    (if get_run_row d (q_run q) = None \<or>
        list_ex (\<lambda>x. q_id x = q_id q \<or>
          (q_run x = q_run q \<and> q_interrupt q \<noteq> None \<and> q_interrupt x = q_interrupt q)) (db_questions d)
     then Inl SqlIntegrityError else Inr (d\<lparr>db_questions := db_questions d @ [q]\<rparr>))"

definition create_question ::
    "ctx \<Rightarrow> id \<Rightarrow> string option \<Rightarrow> json list \<Rightarrow> id option \<Rightarrow> id option \<Rightarrow> db \<Rightarrow> db \<Rightarrow> (question_row \<times> db) res" where
  "create_question c run call questions cycle interrupt seen d =
    (case (if opt_or interrupt [] = [] then None
           else find (\<lambda>q. q_run q = run \<and> q_interrupt q = interrupt) (db_questions seen)) of
       Some x \<Rightarrow> Inr (x, d)
     | None \<Rightarrow>
        (let (i, d0) = new_id ''q'' d; now = x_clock c 1;
             q = \<lparr>q_id = i, q_run = run, q_call = call, q_cycle = Some (id_or cycle i),
                  q_interrupt = Some (id_or interrupt i), q_questions = JList questions,
                  q_status = ''pending'', q_answers = None, q_created = now, q_answered = None\<rparr>;
             w = new_candidate i run ''question'' (id_or cycle i) (id_or interrupt i) 0 (JList questions) now
         in run_write_transaction c None run d0 (\<lambda>d.
              bindr (insert_question q d) (\<lambda>d1. bindr (insert_wait w d1) (\<lambda>d2. Inr (q, d2))))))"

definition update_question :: "id \<Rightarrow> json \<Rightarrow> time \<Rightarrow> db \<Rightarrow> nat \<times> db" where
  "update_question i answers now d =
    (let mine = (\<lambda>q. q_id q = i \<and> q_status q = ''pending'')
     in (count_where mine (db_questions d),
         d\<lparr>db_questions := update_where mine
             (\<lambda>q. q\<lparr>q_status := ''answered'', q_answers := Some answers, q_answered := Some now\<rparr>) (db_questions d)\<rparr>))"

definition answer_question ::
    "ctx \<Rightarrow> id \<Rightarrow> dict \<Rightarrow> dict option \<Rightarrow> db \<Rightarrow> db \<Rightarrow> (question_row option \<times> db) res" where
  "answer_question c i answers event seen d =
    (case get_question i seen of
       None \<Rightarrow> Inr (None, d)
     | Some x \<Rightarrow>
        (let chosen = encode_payload (JObj answers); now = x_clock c 1
         in if q_status x \<noteq> ''pending'' then
              (if encode_payload (case q_answers x of None \<Rightarrow> JObj [] | Some v \<Rightarrow> v) \<noteq> chosen
               then Inl WaitDecisionConflictError else Inr (Some x, d))
            else run_write_transaction c None (q_run x) d (\<lambda>d.
              if decides_no_more d (q_run x) then Inl WaitDecisionConflictError
              else (let (n, d1) = update_question i chosen now d;
                        (m, d2) = resolve_candidate i chosen now d1
                    in if n \<noteq> 1 \<or> m \<noteq> 1 then Inl WaitDecisionConflictError
                       else (case event of
                               None \<Rightarrow> Inr (get_question i d2, d2)
                             | Some payload \<Rightarrow>
                                bindr (append_event_uncommitted (q_run x) ''question.answered''
                                         (encode_payload (JObj payload)) now d2)
                                  (\<lambda>(_, _, d3). Inr (get_question i d3, d3)))))))"

text \<open>The choices a user made in a run, one entry per question; a later answer replaces an earlier.\<close>

definition normalized_answers :: "json \<Rightarrow> string list" where
  "normalized_answers v =
     filter (\<lambda>s. s \<noteq> []) (map (\<lambda>x. py_strip (py_str x))
       (filter (\<lambda>x. x \<noteq> JNull) (case v of JList xs \<Rightarrow> xs | _ \<Rightarrow> [v])))"

fun collect_choices :: "dict \<Rightarrow> (string \<times> string list) list \<Rightarrow> (string \<times> string list) list" where
  "collect_choices [] acc = acc"
| "collect_choices ((k, v) # rest) acc =
     (let question = py_strip k; answers = normalized_answers v
      in collect_choices rest (if question = [] \<or> answers = [] then acc else dset question answers acc))"

definition list_answered_question_choices_for_run :: "string \<Rightarrow> id \<Rightarrow> db \<Rightarrow> (string \<times> string list) list" where
  "list_answered_question_choices_for_run owner run d =
    (let rows = select_by (\<lambda>q. (q_created q, q_id q))
           (\<lambda>q. q_run q = run \<and> q_status q = ''answered'' \<and> q_answers q \<noteq> None \<and>
              (case get_run_row d run of None \<Rightarrow> False | Some r \<Rightarrow> r_principal r = owner)) (db_questions d)
     in foldl (\<lambda>acc q. collect_choices (json_payload (q_answers q)) acc) [] rows)"

subsection \<open>Reconciliations of tool outcomes (reconciliation.py)\<close>

definition create_tool_reconciliation ::
    "ctx \<Rightarrow> id \<Rightarrow> id \<Rightarrow> id \<Rightarrow> id \<Rightarrow> dict \<Rightarrow> db \<Rightarrow> db \<Rightarrow> (wait_row \<times> db) res" where
  "create_tool_reconciliation c run oper cycle interrupt payload seen d =
    (case find_wait oper seen of
       Some x \<Rightarrow> if w_run x \<noteq> run \<or> w_kind x \<noteq> ''tool_reconciliation'' then Inl WaitDecisionConflictError
                 else Inr (x, d)
     | None \<Rightarrow>
        (let w = new_candidate oper run ''tool_reconciliation'' cycle interrupt 0
               (encode_payload (JObj payload)) (x_clock c 1)
         in run_write_transaction c None run d (\<lambda>d. bindr (insert_wait w d) (\<lambda>d1. Inr (w, d1)))))"

text \<open>
  The recursive query for an owned ancestor: from a run's parent upwards while the runs belong to
  the same principal, at most 64 levels above it.
\<close>

definition max_lineage_depth :: nat where
  "max_lineage_depth = 64"

fun lineage :: "db \<Rightarrow> string \<Rightarrow> nat \<Rightarrow> id \<Rightarrow> id list" where
  "lineage d owner 0 i = [i]"
| "lineage d owner (Suc n) i =
     i # (case get_run_row d i of
            None \<Rightarrow> []
          | Some p \<Rightarrow> if r_principal p \<noteq> owner then []
                      else (case r_parent p of None \<Rightarrow> [] | Some q \<Rightarrow> lineage d owner n q))"

definition owned_ancestor :: "db \<Rightarrow> id \<Rightarrow> id \<Rightarrow> bool" where
  "owned_ancestor d run ancestor =
    (case get_run_row d run of
       None \<Rightarrow> False
     | Some r \<Rightarrow>
        (case r_parent r of
           None \<Rightarrow> False
         | Some p \<Rightarrow> ancestor \<in> set (lineage d (r_principal r) max_lineage_depth p) \<and>
             (case get_run_row d ancestor of None \<Rightarrow> False | Some a \<Rightarrow> r_principal a = r_principal r)))"

record reconcile_results =
  rr_current :: "json option"
  rr_current_hash :: "string option"
  rr_prior :: json
  rr_prior_hash :: string

definition settle_as :: "bool \<Rightarrow> json option \<Rightarrow> string option \<Rightarrow> time \<Rightarrow> receipt_row \<Rightarrow> receipt_row" where
  "settle_as ok result result_hash now t =
     t\<lparr>t_status := (if ok then ToolCompleted else ToolFailed), t_result := result,
       t_result_hash := result_hash, t_error := (if ok then None else Some ''ReconciledByUser''),
       t_completed := Some now, t_updated := now\<rparr>"

definition reopen_receipt :: "time \<Rightarrow> receipt_row \<Rightarrow> receipt_row" where
  "reopen_receipt now t = t\<lparr>t_status := ToolPrepared, t_result := None, t_result_hash := None,
     t_error := None, t_completed := None, t_updated := now\<rparr>"

definition update_receipts :: "(receipt_row \<Rightarrow> bool) \<Rightarrow> (receipt_row \<Rightarrow> receipt_row) \<Rightarrow> db \<Rightarrow> nat \<times> db" where
  "update_receipts p f d = (count_where p (db_receipts d), d\<lparr>db_receipts := update_where p f (db_receipts d)\<rparr>)"

text \<open>The receipts the decision settles, and those whose change the parent is told about.\<close>

definition settle_reconciled ::
    "id \<Rightarrow> id \<Rightarrow> id \<Rightarrow> string \<Rightarrow> reconcile_results \<Rightarrow> time \<Rightarrow> db \<Rightarrow> (id list \<times> db) res" where
  "settle_reconciled oper run prior decision rr now d =
    (let ok = (decision = ''confirmed_completed'');
         (n, d1) = update_receipts (\<lambda>t. t_op t = prior \<and> t_status t = ToolOutcomeUnknown)
           (settle_as ok (Some (rr_prior rr)) (Some (rr_prior_hash rr)) now) d
     in if n \<noteq> 1 then Inl WaitDecisionConflictError
        else if prior = oper \<and> decision = ''retry_not_executed'' then
          Inr ([prior], snd (update_receipts (\<lambda>t. t_op t = oper) (reopen_receipt now) d1))
        else if prior \<noteq> oper \<and> decision \<noteq> ''retry_not_executed'' then
          (let (m, d2) = update_receipts (\<lambda>t. t_op t = oper \<and> t_run t = run \<and> t_status t = ToolPrepared)
             (settle_as ok (rr_current rr) (rr_current_hash rr) now) d1
           in if m \<noteq> 1 then Inl WaitDecisionConflictError else Inr ([prior, oper], d2))
        else Inr ([prior], d1))"

fun report_receipts :: "id list \<Rightarrow> db \<Rightarrow> db res" where
  "report_receipts [] d = Inr d"
| "report_receipts (i # is) d =
     (case get_receipt_row d i of
        None \<Rightarrow> Inl PyAssertionError
      | Some t \<Rightarrow> bindr (append_subagent_receipt_event t d) (report_receipts is))"

definition resolve_tool_reconciliation_in ::
    "id \<Rightarrow> string \<Rightarrow> reconcile_results \<Rightarrow> time \<Rightarrow> db \<Rightarrow> ((wait_row \<times> bool) \<times> db) res" where
  "resolve_tool_reconciliation_in oper decision rr now d =
    (case find_wait oper d of
       None \<Rightarrow> Inl PyKeyError
     | Some w \<Rightarrow>
        (let chosen = encode_payload (JObj [(''decision'', JStr decision)]);
             prior = text_or (dget (json_payload (Some (w_payload w))) ''prior_operation_id'') oper
         in if w_kind w \<noteq> ''tool_reconciliation'' then Inl PyKeyError
            else if w_status w \<noteq> ''pending'' then
              (if w_decision w \<noteq> Some chosen then Inl WaitDecisionConflictError else Inr ((w, False), d))
            else (case (receipt_in_run d oper (w_run w), get_receipt_row d prior) of
                    (Some _, Some p) \<Rightarrow>
                      if t_run p \<noteq> w_run w \<and> \<not> owned_ancestor d (w_run w) (t_run p)
                        then Inl WaitDecisionConflictError
                      else bindr (settle_reconciled oper (w_run w) prior decision rr now d)
                        (\<lambda>(told, d1). (let (n, d2) = resolve_candidate oper chosen now d1
                           in if n \<noteq> 1 then Inl WaitDecisionConflictError
                              else bindr (report_receipts told d2)
                                (\<lambda>d3. case find_wait oper d3 of
                                   None \<Rightarrow> Inl PyAssertionError
                                 | Some w' \<Rightarrow> Inr ((w', True), d3))))
                  | _ \<Rightarrow> Inl WaitDecisionConflictError)))"

definition resolve_tool_reconciliation ::
    "ctx \<Rightarrow> id \<Rightarrow> string \<Rightarrow> reconcile_results \<Rightarrow> db \<Rightarrow> db \<Rightarrow> (wait_row option \<times> db) res" where
  "resolve_tool_reconciliation c oper decision rr seen d =
    (if reconciled_status decision = None then Inl PyValueError
     else (case find_wait oper seen of
       None \<Rightarrow> Inr (None, d)
     | Some x \<Rightarrow>
        if w_kind x \<noteq> ''tool_reconciliation'' then Inr (None, d)
        else run_write_transaction c None (w_run x) d (\<lambda>d.
          bindr (resolve_tool_reconciliation_in oper decision rr (x_clock c 1) d)
            (\<lambda>((w, _), d1). Inr (Some w, d1)))))"

subsection \<open>The lifecycle of a decision\<close>

text \<open>A status together with what was decided: it moves once, away from \<open>pending\<close>.\<close>

definition decision_step :: "string \<times> 'v \<Rightarrow> string \<times> 'v \<Rightarrow> bool" where
  "decision_step s t \<longleftrightarrow> fst s = ''pending'' \<and> fst t \<noteq> ''pending''"

definition decision_taken :: "string \<times> 'v \<Rightarrow> bool" where
  "decision_taken s \<longleftrightarrow> fst s \<noteq> ''pending''"

definition wait_state :: "wait_row \<Rightarrow> string \<times> json option \<times> time option" where
  "wait_state w = (w_status w, w_decision w, w_resolved w)"

definition permission_state :: "permission_row \<Rightarrow> string \<times> string \<times> json option \<times> int \<times> time option" where
  "permission_state p = (p_status p, p_scope p, p_decision p, p_max_uses p, p_resolved p)"

definition question_state :: "question_row \<Rightarrow> string \<times> json option \<times> time option" where
  "question_state q = (q_status q, q_answers q, q_answered q)"

definition plan_state :: "plan_row \<Rightarrow> string \<times> string option \<times> time option" where
  "plan_state p = (pl_status p, pl_instructions p, pl_resolved p)"

definition wait_key :: "wait_row \<Rightarrow> id \<times> id \<times> string \<times> id \<times> id \<times> int" where
  "wait_key w = (w_id w, w_run w, w_kind w, w_cycle w, w_interrupt w, w_position w)"

definition permission_key :: "permission_row \<Rightarrow> id \<times> id \<times> string \<times> string option" where
  "permission_key p = (p_id p, p_run p, p_tool p, p_risk p)"

definition waits_evolve :: "db \<Rightarrow> db \<Rightarrow> bool" where
  "waits_evolve d d' = rows_evolve decision_step wait_state wait_key (db_waits d) (db_waits d')"

definition permissions_evolve :: "db \<Rightarrow> db \<Rightarrow> bool" where
  "permissions_evolve d d' = rows_evolve decision_step permission_state permission_key (db_perms d) (db_perms d')"

definition questions_evolve :: "db \<Rightarrow> db \<Rightarrow> bool" where
  "questions_evolve d d' = rows_evolve decision_step question_state q_id (db_questions d) (db_questions d')"

definition plans_evolve :: "db \<Rightarrow> db \<Rightarrow> bool" where
  "plans_evolve d d' = rows_evolve decision_step plan_state pl_id (db_plans d) (db_plans d')"

lemma decision_moves: "\<not> decision_taken s \<Longrightarrow> \<exists>t. decision_step s t \<and> t \<noteq> s"
  by (cases s, rule exI [of _ "(''done'', snd s)"]) (auto simp: decision_step_def decision_taken_def)

lemma decision_stuck: "decision_taken s \<Longrightarrow> \<not> decision_step s t"
  by (simp add: decision_step_def decision_taken_def)

interpretation waits: lifecycle_table decision_step decision_taken db_waits wait_state wait_key waits_evolve
  by unfold_locales (fact decision_stuck, fact decision_moves, fact waits_evolve_def)

interpretation perms: lifecycle_table decision_step decision_taken db_perms permission_state permission_key permissions_evolve
  by unfold_locales (fact decision_stuck, fact decision_moves, fact permissions_evolve_def)

interpretation quests: lifecycle_table decision_step decision_taken db_questions question_state q_id questions_evolve
  by unfold_locales (fact decision_stuck, fact decision_moves, fact questions_evolve_def)

interpretation plans: lifecycle_table decision_step decision_taken db_plans plan_state pl_id plans_evolve
  by unfold_locales (fact decision_stuck, fact decision_moves, fact plans_evolve_def)

text \<open>Run-wide grants within the policy, and unique ids of candidates and permissions.\<close>

definition grants_ok :: "db \<Rightarrow> bool" where
  "grants_ok d \<longleftrightarrow> (\<forall>p\<in>set (db_perms d). p_status p = ''approved'' \<and> p_scope p = ''run'' \<longrightarrow>
     can_grant_for_run (p_tool p) (p_risk p))"

definition wait_ids_ok :: "db \<Rightarrow> bool" where
  "wait_ids_ok d \<longleftrightarrow> distinct (map w_id (db_waits d)) \<and> distinct (map p_id (db_perms d))"

definition wait_effect :: "db \<Rightarrow> db \<Rightarrow> bool" where
  "wait_effect d d' \<longleftrightarrow> waits_evolve d d' \<and> permissions_evolve d d' \<and> questions_evolve d d' \<and> plans_evolve d d' \<and>
     (grants_ok d \<longrightarrow> grants_ok d') \<and> (wait_ids_ok d \<longrightarrow> wait_ids_ok d')"

definition decision_effect :: "db \<Rightarrow> db \<Rightarrow> bool" where
  "decision_effect d d' \<longleftrightarrow> wait_effect d d' \<and> store_effect d d'"

lemma decision_effect_refl [simp, intro]: "decision_effect d d"
  by (simp add: decision_effect_def wait_effect_def waits.evolves_refl perms.evolves_refl quests.evolves_refl plans.evolves_refl)

lemma decision_effect_trans [trans]: "decision_effect a b \<Longrightarrow> decision_effect b e \<Longrightarrow> decision_effect a e"
  using waits.evolves_trans perms.evolves_trans quests.evolves_trans plans.evolves_trans store_effect_trans
  unfolding decision_effect_def wait_effect_def by metis

definition same_waits :: "db \<Rightarrow> db \<Rightarrow> bool" where
  "same_waits d d' \<longleftrightarrow> db_waits d' = db_waits d \<and> db_perms d' = db_perms d \<and>
     db_questions d' = db_questions d \<and> db_plans d' = db_plans d"

lemma wait_effect_same: "same_waits d d' \<Longrightarrow> wait_effect d d'"
  by (auto simp: wait_effect_def same_waits_def grants_ok_def wait_ids_ok_def
      intro: waits.evolves_same perms.evolves_same quests.evolves_same plans.evolves_same)

lemma decision_effect_other: "same_waits d d' \<Longrightarrow> store_effect d d' \<Longrightarrow> decision_effect d d'"
  by (simp add: decision_effect_def wait_effect_same)

lemma same_waits_log: "without_log d' = without_log d \<Longrightarrow> same_waits d d'"
  using without_log_frame [of d' d] by (simp add: same_waits_def)

lemma decision_effect_log: "log_effect d d' \<Longrightarrow> decision_effect d d'"
  by (rule decision_effect_other) (auto simp: log_effect_def same_waits_log store_effect_log)

lemma decision_effect_event:
  "append_event_uncommitted run ty payload created d = Inr (e, pe, d') \<Longrightarrow> decision_effect d d'"
  by (rule decision_effect_log [OF append_event_effect])

lemma decision_effect_new_id: "new_id k d = (i, d') \<Longrightarrow> decision_effect d d'"
  by (rule decision_effect_log) (auto simp: log_effect_def new_id_def intro: log_grows_same)

text \<open>A change of one of the four tables, everything else as it was.\<close>

lemma decision_effect_waits:
  assumes "waits_evolve d d'" "wait_ids_ok d \<Longrightarrow> distinct (map w_id (db_waits d'))"
    and "db_perms d' = db_perms d" "db_questions d' = db_questions d" "db_plans d' = db_plans d" "store_effect d d'"
  shows "decision_effect d d'"
  using assms by (auto simp: decision_effect_def wait_effect_def grants_ok_def wait_ids_ok_def
      intro: perms.evolves_same quests.evolves_same plans.evolves_same)

lemma decision_effect_perms:
  assumes "permissions_evolve d d'" "wait_ids_ok d \<Longrightarrow> distinct (map p_id (db_perms d'))" "grants_ok d \<Longrightarrow> grants_ok d'"
    and "db_waits d' = db_waits d" "db_questions d' = db_questions d" "db_plans d' = db_plans d" "store_effect d d'"
  shows "decision_effect d d'"
  using assms by (auto simp: decision_effect_def wait_effect_def wait_ids_ok_def
      intro: waits.evolves_same quests.evolves_same plans.evolves_same)

lemma decision_effect_questions:
  assumes "questions_evolve d d'"
    and "db_waits d' = db_waits d" "db_perms d' = db_perms d" "db_plans d' = db_plans d" "store_effect d d'"
  shows "decision_effect d d'"
  using assms by (auto simp: decision_effect_def wait_effect_def grants_ok_def wait_ids_ok_def
      intro: waits.evolves_same perms.evolves_same plans.evolves_same)

lemma decision_effect_plans:
  assumes "plans_evolve d d'"
    and "db_waits d' = db_waits d" "db_perms d' = db_perms d" "db_questions d' = db_questions d" "store_effect d d'"
  shows "decision_effect d d'"
  using assms by (auto simp: decision_effect_def wait_effect_def grants_ok_def wait_ids_ok_def
      intro: waits.evolves_same perms.evolves_same quests.evolves_same)

subsection \<open>The effect of each write\<close>

lemma insert_wait_effect:
  assumes "insert_wait w d = Inr d'"
  shows "decision_effect d d'" "db_jobs d' = db_jobs d"
proof -
  have d': "d' = d\<lparr>db_waits := db_waits d @ [w]\<rparr>" and new: "w_id w \<notin> w_id ` set (db_waits d)"
    using assms by (auto simp: insert_wait_def wait_clash_def list_ex_iff split: if_splits)
  have "store_effect d d'" by (rule store_effect_other) (simp_all add: d' same_log_def)
  moreover have "waits_evolve d d'" by (rule waits.evolves_append [where new = "[w]"]) (simp add: d')
  ultimately show "decision_effect d d'"
    by (intro decision_effect_waits) (use new in \<open>auto simp: d' wait_ids_ok_def\<close>)
  show "db_jobs d' = db_jobs d" by (simp add: d')
qed

lemma insert_plan_effect: "insert_plan p d = Inr d' \<Longrightarrow> decision_effect d d'"
  by (rule decision_effect_plans)
    (auto simp: insert_plan_def same_log_def intro!: store_effect_other plans.evolves_append split: if_splits)

lemma insert_question_effect: "insert_question q d = Inr d' \<Longrightarrow> decision_effect d d'"
  by (rule decision_effect_questions)
    (auto simp: insert_question_def same_log_def intro!: store_effect_other quests.evolves_append split: if_splits)

lemma insert_permission_effect:
  assumes "insert_permission p d = Inr d'" "p_status p = ''pending''"
  shows "decision_effect d d'"
proof -
  have d': "d' = d\<lparr>db_perms := db_perms d @ [p]\<rparr>" and new: "p_id p \<notin> p_id ` set (db_perms d)"
    using assms(1) by (auto simp: insert_permission_def list_ex_iff split: if_splits)
  have "store_effect d d'" by (rule store_effect_other) (simp_all add: d' same_log_def)
  moreover have "permissions_evolve d d'" by (rule perms.evolves_append [where new = "[p]"]) (simp add: d')
  ultimately show ?thesis
    by (intro decision_effect_perms) (use new assms(2) in \<open>auto simp: d' wait_ids_ok_def grants_ok_def\<close>)
qed

lemma decision_stepI: "s = (''pending'', v) \<Longrightarrow> fst t \<noteq> ''pending'' \<Longrightarrow> decision_step\<^sup>*\<^sup>* s t"
  by (rule r_into_rtranclp) (simp add: decision_step_def)

lemma distinct_update_where:
  "(\<And>r. p r \<Longrightarrow> k (f r) = k r) \<Longrightarrow> distinct (map k (update_where p f t)) = distinct (map k t)"
  by (simp add: map_update_where_key)

lemmas resolve_candidate_eq = resolve_candidate_def [unfolded Let_def]
lemmas update_question_eq = update_question_def [unfolded Let_def]
lemmas update_permission_eq = update_permission_def [unfolded Let_def]

lemma resolve_candidate_effect: "decision_effect d (snd (resolve_candidate i decision now d))"
proof (rule decision_effect_waits)
  let ?d' = "snd (resolve_candidate i decision now d)"
  show "waits_evolve d ?d'"
    by (rule waits.evolves_update [where p = "\<lambda>w. w_id w = i \<and> w_status w = ''pending''" and
          f = "\<lambda>w. w\<lparr>w_status := ''resolved'', w_decision := Some decision, w_resolved := Some now\<rparr>"])
      (auto simp: resolve_candidate_eq wait_state_def wait_key_def intro: decision_stepI)
  show "distinct (map w_id (db_waits ?d'))" if "wait_ids_ok d"
    using that by (simp add: resolve_candidate_eq wait_ids_ok_def distinct_update_where)
  show "store_effect d ?d'" by (rule store_effect_other) (simp_all add: resolve_candidate_eq same_log_def)
qed (simp_all add: resolve_candidate_eq)

lemma resolve_candidate_simps [simp]:
  "db_jobs (snd (resolve_candidate i v now d)) = db_jobs d" "db_runs (snd (resolve_candidate i v now d)) = db_runs d"
  "db_perms (snd (resolve_candidate i v now d)) = db_perms d" "db_questions (snd (resolve_candidate i v now d)) = db_questions d"
  "db_plans (snd (resolve_candidate i v now d)) = db_plans d"
  by (simp_all add: resolve_candidate_eq)

lemma update_question_effect: "decision_effect d (snd (update_question i answers now d))"
proof (rule decision_effect_questions)
  show "questions_evolve d (snd (update_question i answers now d))"
    by (rule quests.evolves_update [where p = "\<lambda>q. q_id q = i \<and> q_status q = ''pending''" and
          f = "\<lambda>q. q\<lparr>q_status := ''answered'', q_answers := Some answers, q_answered := Some now\<rparr>"])
      (auto simp: update_question_eq question_state_def intro: decision_stepI)
  show "store_effect d (snd (update_question i answers now d))"
    by (rule store_effect_other) (simp_all add: update_question_eq same_log_def)
qed (simp_all add: update_question_eq)

lemma decide_permission_effect:
  assumes "status \<noteq> ''pending''" "\<And>p. p \<in> set (db_perms d) \<Longrightarrow> p_id p = i \<Longrightarrow> p_status p = ''pending'' \<Longrightarrow>
      require_allowed_permission_scope (p_tool p) (p_risk p) status scope = Inr ()"
  shows "decision_effect d (snd (update_permission i (decide_permission status scope decision now) d))"
proof (rule decision_effect_perms)
  let ?d' = "snd (update_permission i (decide_permission status scope decision now) d)"
  let ?mine = "\<lambda>p. p_id p = i \<and> p_status p = ''pending''"
  have d': "db_perms ?d' = update_where ?mine (decide_permission status scope decision now) (db_perms d)"
    by (simp add: update_permission_eq)
  show "permissions_evolve d ?d'"
    by (rule perms.evolves_update [OF d'])
      (use assms(1) in \<open>auto simp: decide_permission_def permission_state_def permission_key_def intro: decision_stepI\<close>)
  show "distinct (map p_id (db_perms ?d'))" if "wait_ids_ok d"
    using that by (simp add: d' decide_permission_def wait_ids_ok_def distinct_update_where)
  show "grants_ok ?d'" if "grants_ok d"
    unfolding grants_ok_def d'
  proof (intro ballI impI)
    fix p assume p: "p \<in> set (update_where ?mine (decide_permission status scope decision now) (db_perms d))"
      "p_status p = ''approved'' \<and> p_scope p = ''run''"
    obtain r where r: "r \<in> set (db_perms d)" "p = (if ?mine r then decide_permission status scope decision now r else r)"
      using p(1) by (rule in_update_whereE)
    show "can_grant_for_run (p_tool p) (p_risk p)"
    proof (cases "?mine r")
      case True
      then show ?thesis using assms(2) [OF r(1)] r(2) p(2) by (auto simp: decide_permission_def scope_allowed_iff)
    next
      case False
      then show ?thesis using that r p(2) by (auto simp: grants_ok_def)
    qed
  qed
  show "store_effect d ?d'" by (rule store_effect_other) (simp_all add: update_permission_eq same_log_def)
qed (simp_all add: update_permission_eq)

lemma update_permission_simps [simp]:
  "db_waits (snd (update_permission i f d)) = db_waits d" "db_jobs (snd (update_permission i f d)) = db_jobs d"
  "db_runs (snd (update_permission i f d)) = db_runs d"
  by (simp_all add: update_permission_eq)

lemma grant_use_effect:
  "decision_effect d (d\<lparr>db_grant_uses := gs, db_perms := update_where p (\<lambda>x. x\<lparr>p_uses := Suc (p_uses x)\<rparr>) (db_perms d)\<rparr>)"
proof (rule decision_effect_perms)
  let ?d' = "d\<lparr>db_grant_uses := gs, db_perms := update_where p (\<lambda>x. x\<lparr>p_uses := Suc (p_uses x)\<rparr>) (db_perms d)\<rparr>"
  show "permissions_evolve d ?d'"
    by (rule perms.evolves_update [where p = p and f = "\<lambda>x. x\<lparr>p_uses := Suc (p_uses x)\<rparr>"])
      (simp_all add: permission_state_def permission_key_def)
  show "distinct (map p_id (db_perms ?d'))" if "wait_ids_ok d"
    using that by (simp add: wait_ids_ok_def distinct_update_where)
  show "grants_ok ?d'" if "grants_ok d" using that by (auto simp: grants_ok_def)
  show "store_effect d ?d'" by (rule store_effect_other) (simp_all add: same_log_def)
qed simp_all

subsection \<open>The effect of each operation\<close>

lemma adopt_plan_wait_effect:
  assumes "adopt_plan_wait c run cycle interrupt x d = Inr (p, d')"
  shows "decision_effect d d'"
proof -
  define d1 where "d1 = d\<lparr>db_plans := update_where (\<lambda>p. pl_id p = pl_id x)
      (\<lambda>p. p\<lparr>pl_cycle := Some cycle, pl_interrupt := Some interrupt\<rparr>) (db_plans d)\<rparr>"
  define w where "w = new_candidate (pl_id x) run ''plan'' cycle interrupt 0 (pl_todos x) (pl_created x)"
  have "decision_effect d d1"
  proof (rule decision_effect_plans)
    show "plans_evolve d d1"
      by (rule plans.evolves_update [where p = "\<lambda>p. pl_id p = pl_id x" and
            f = "\<lambda>p. p\<lparr>pl_cycle := Some cycle, pl_interrupt := Some interrupt\<rparr>"])
        (simp_all add: d1_def plan_state_def)
    show "store_effect d d1" by (rule store_effect_other) (simp_all add: d1_def same_log_def)
  qed (simp_all add: d1_def)
  moreover have "d' = (if wait_clash w d1 then d1 else d1\<lparr>db_waits := db_waits d1 @ [w]\<rparr>)"
    using assms by (simp add: adopt_plan_wait_def run_write_transaction_Inr Let_def d1_def w_def split: if_splits)
  moreover have "decision_effect d1 (d1\<lparr>db_waits := db_waits d1 @ [w]\<rparr>)" if "\<not> wait_clash w d1"
    using that by (intro insert_wait_effect(1) [of w]) (simp add: insert_wait_def)
  ultimately show ?thesis using decision_effect_trans by (auto split: if_splits)
qed

lemma create_plan_approval_effect:
  assumes "create_plan_approval c run call todos summary cycle interrupt d = Inr (p, d')"
  shows "decision_effect d d'"
proof -
  obtain i d0 where new: "new_id ''plan'' d = (i, d0)" by (cases "new_id ''plan'' d")
  note e0 = decision_effect_new_id [OF new]
  have "decision_effect d0 d'"
    using assms unfolding create_plan_approval_def new Let_def case_prod_conv
    by (auto simp: run_write_transaction_Inr bindr_Inr_iff split: sum.splits option.splits if_splits
        intro: adopt_plan_wait_effect decision_effect_trans [OF insert_plan_effect insert_wait_effect(1)])
  with e0 show ?thesis by (rule decision_effect_trans)
qed

lemma create_permission_effect:
  assumes "create_permission c q seen d = Inr (p, d')"
  shows "decision_effect d d'"
proof -
  obtain i d0 where new: "new_id ''perm'' d = (i, d0)" by (cases "new_id ''perm'' d")
  note e0 = decision_effect_new_id [OF new]
  have "d' = d \<or> decision_effect d0 d'"
    using assms unfolding create_permission_def new Let_def case_prod_conv
    by (auto simp: run_write_transaction_Inr bindr_Inr_iff new_permission_def split: option.splits if_splits
        intro: decision_effect_trans [OF insert_permission_effect insert_wait_effect(1)])
  with e0 show ?thesis using decision_effect_trans by auto
qed

lemma create_question_effect:
  assumes "create_question c run call qs cycle interrupt seen d = Inr (q, d')"
  shows "decision_effect d d'"
proof -
  obtain i d0 where new: "new_id ''q'' d = (i, d0)" by (cases "new_id ''q'' d")
  note e0 = decision_effect_new_id [OF new]
  have "d' = d \<or> decision_effect d0 d'"
    using assms unfolding create_question_def new Let_def case_prod_conv
    by (auto simp: run_write_transaction_Inr bindr_Inr_iff split: option.splits if_splits
        intro: decision_effect_trans [OF insert_question_effect insert_wait_effect(1)])
  with e0 show ?thesis using decision_effect_trans by auto
qed

lemma create_tool_reconciliation_effect:
  "create_tool_reconciliation c run oper cycle interrupt payload seen d = Inr (w, d') \<Longrightarrow> decision_effect d d'"
  by (auto simp: create_tool_reconciliation_def Let_def run_write_transaction_Inr bindr_Inr_iff
      split: option.splits if_splits intro: insert_wait_effect(1))

lemma consume_grant_effect:
  "consume_run_permission_grant c run oper tool version risk d = Inr (b, d') \<Longrightarrow> decision_effect d d'"
  by (auto simp: consume_run_permission_grant_def Let_def run_write_transaction_Inr
      split: option.splits if_splits intro: grant_use_effect)

text \<open>What was looked at before the transaction is still the row's tool and risk.\<close>

lemma permission_seen:
  assumes "permissions_evolve seen d" "wait_ids_ok d" "get_permission i seen = Some x" "p \<in> set (db_perms d)" "p_id p = i"
  shows "p_tool p = p_tool x" "p_risk p = p_risk x" "p_run p = p_run x"
proof -
  have x: "x \<in> set (db_perms seen)" "p_id x = i" using find_SomeD [OF assms(3) [unfolded get_permission_def]] by simp_all
  then obtain k where k: "k < length (db_perms seen)" "db_perms seen ! k = x" by (auto simp: in_set_conv_nth)
  then have p': "permission_key (db_perms d ! k) = permission_key x" "k < length (db_perms d)"
    using assms(1) by (auto simp: permissions_evolve_def rows_evolve_def)
  moreover have "inj_on p_id (set (db_perms d))" using assms(2) by (simp add: wait_ids_ok_def distinct_map)
  ultimately have "db_perms d ! k = p"
    using assms(4,5) x(2) by (intro inj_onD [of p_id "set (db_perms d)"]) (auto simp: permission_key_def)
  then show "p_tool p = p_tool x" "p_risk p = p_risk x" "p_run p = p_run x" using p'(1) by (auto simp: permission_key_def)
qed

lemma resolve_permission_effect:
  assumes "resolve_permission c i status scope decision event seen d = Inr (r, d')"
    and "permissions_evolve seen d" "wait_ids_ok d"
  shows "decision_effect d d'"
proof (cases "d' = d")
  case False
  then obtain x where x: "get_permission i seen = Some x"
    using assms(1) by (auto simp: resolve_permission_def split: if_splits option.splits)
  define current requested chosen where
    "current = (if p_scope x = [] then ''once'' else p_scope x)" and "requested = opt_or scope current" and
    "chosen = permission_decision decision status"
  define d1 d2 where "d1 = snd (update_permission i (decide_permission status requested chosen (x_clock c 1)) d)"
    and "d2 = snd (resolve_candidate i chosen (x_clock c 2) d1)"
  note r = assms(1) [unfolded resolve_permission_def x Let_def option.case, folded current_def,
      folded requested_def chosen_def]
  have st: "status \<in> {''approved'', ''denied''}" using r by (simp split: if_splits)
  then obtain u where allowed: "require_allowed_permission_scope (p_tool x) (p_risk x) status requested = Inr u"
    using r by (auto simp: bindr_Inr_iff)
  have w: "run_write_transaction c None (p_run x) d (\<lambda>d. if decides_no_more d (p_run x) then Inl WaitDecisionConflictError
      else (case update_permission i (decide_permission status requested chosen (x_clock c 1)) d of (n, d1) \<Rightarrow>
        case resolve_candidate i chosen (x_clock c 2) d1 of (m, d2) \<Rightarrow>
          if n \<noteq> 1 then Inl PermissionDecisionConflictError else if m \<noteq> 1 then Inl WaitDecisionConflictError
          else (case event of None \<Rightarrow> Inr (get_permission i d2, d2)
             | Some payload \<Rightarrow> bindr (append_event_uncommitted (p_run x) ''permission.resolved''
                 (encode_payload (JObj payload)) (x_clock c 3) d2) (\<lambda>(_, _, d3). Inr (get_permission i d3, d3))))) = Inr (r, d')"
    using r st allowed False by (auto simp: bindr_def split: if_splits)
  have d': "d' = d2 \<or> (\<exists>ty pl e pe. append_event_uncommitted (p_run x) ty pl (x_clock c 3) d2 = Inr (e, pe, d'))"
    using w unfolding run_write_transaction_Inr case_prod_beta d1_def [symmetric] d2_def [symmetric]
    by (auto simp: bindr_Inr_iff split: if_splits option.splits)
  have "decision_effect d d1"
    unfolding d1_def by (rule decide_permission_effect)
      (use st allowed permission_seen [OF assms(2,3) x] in auto)
  also have "decision_effect d1 d2" unfolding d2_def by (rule resolve_candidate_effect)
  also have "decision_effect d2 d'" using d' decision_effect_event by blast
  finally show ?thesis .
qed simp

lemma answer_question_effect:
  assumes "answer_question c i answers event seen d = Inr (r, d')"
  shows "decision_effect d d'"
proof (cases "d' = d")
  case False
  then obtain x where x: "get_question i seen = Some x"
    using assms(1) by (auto simp: answer_question_def split: option.splits)
  define chosen where "chosen = encode_payload (JObj answers)"
  define d1 d2 where "d1 = snd (update_question i chosen (x_clock c 1) d)"
    and "d2 = snd (resolve_candidate i chosen (x_clock c 1) d1)"
  note r = assms(1) [unfolded answer_question_def x Let_def option.case, folded chosen_def]
  have w: "(if decides_no_more d (q_run x) then Inl WaitDecisionConflictError
      else (case update_question i chosen (x_clock c 1) d of (n, d1) \<Rightarrow>
        case resolve_candidate i chosen (x_clock c 1) d1 of (m, d2) \<Rightarrow>
          if n \<noteq> 1 \<or> m \<noteq> 1 then Inl WaitDecisionConflictError
          else (case event of None \<Rightarrow> Inr (get_question i d2, d2)
             | Some payload \<Rightarrow> bindr (append_event_uncommitted (q_run x) ''question.answered''
                 (encode_payload (JObj payload)) (x_clock c 1) d2) (\<lambda>(_, _, d3). Inr (get_question i d3, d3))))) = Inr (r, d')"
    using r False by (auto simp: run_write_transaction_Inr split: if_splits)
  have d': "d' = d2 \<or> (\<exists>ty pl e pe. append_event_uncommitted (q_run x) ty pl (x_clock c 1) d2 = Inr (e, pe, d'))"
    using w unfolding case_prod_beta d1_def [symmetric] d2_def [symmetric]
    by (auto simp: bindr_Inr_iff split: if_splits option.splits)
  have "decision_effect d d1" unfolding d1_def by (rule update_question_effect)
  also have "decision_effect d1 d2" unfolding d2_def by (rule resolve_candidate_effect)
  also have "decision_effect d2 d'" using d' decision_effect_event by blast
  finally show ?thesis .
qed simp

text \<open>Settling the receipts of a reconciliation moves them along their lifecycle.\<close>

lemma update_where_twice:
  assumes "\<And>r. r \<in> set t \<Longrightarrow> p r \<Longrightarrow> q (f r)" "\<And>r. r \<in> set t \<Longrightarrow> \<not> p r \<Longrightarrow> \<not> q r"
  shows "update_where q g (update_where p f t) = update_where p (\<lambda>r. g (f r)) t"
  using assms by (auto simp: update_where_def)

lemma update_receipts_effect:
  assumes "\<And>r. p r \<Longrightarrow> t_op (f r) = t_op r" "\<And>r. p r \<Longrightarrow> receipt_step (t_status r) (t_status (f r))"
  shows "receipt_effect d (snd (update_receipts p f d))"
  using assms unfolding update_receipts_def snd_conv
  by (intro receipt_effect_update) (auto dest: receipts.settled_stuck)

lemma settle_reconciled_effect:
  assumes "settle_reconciled oper run prior decision rr now d = Inr (told, d')" "op_distinct d"
  shows "receipt_effect d d'"
proof -
  define p where "p = (\<lambda>t :: receipt_row. t_op t = prior \<and> t_status t = ToolOutcomeUnknown)"
  define f where "f = settle_as (decision = ''confirmed_completed'') (Some (rr_prior rr)) (Some (rr_prior_hash rr)) now"
  define d1 where "d1 = snd (update_receipts p f d)"
  have f: "t_op (f r) = t_op r" "t_status (f r) \<in> {ToolCompleted, ToolFailed}" for r by (auto simp: f_def settle_as_def)
  have e1: "receipt_effect d d1" unfolding d1_def by (rule update_receipts_effect) (use f in \<open>auto simp: p_def\<close>)
  let ?mine = "\<lambda>t. t_op t = oper \<and> t_run t = run \<and> t_status t = ToolPrepared"
  let ?g = "settle_as (decision = ''confirmed_completed'') (rr_current rr) (rr_current_hash rr) now"
  have r: "(if count_where p (db_receipts d) \<noteq> 1 then Inl WaitDecisionConflictError
     else if prior = oper \<and> decision = ''retry_not_executed''
       then Inr ([prior], snd (update_receipts (\<lambda>t. t_op t = oper) (reopen_receipt now) d1))
     else if prior \<noteq> oper \<and> decision \<noteq> ''retry_not_executed'' then
       (if count_where ?mine (db_receipts d1) \<noteq> 1 then Inl WaitDecisionConflictError
        else Inr ([prior, oper], snd (update_receipts ?mine ?g d1)))
     else Inr ([prior], d1)) = Inr (told, d')"
    using assms(1)
    by (simp only: settle_reconciled_def Let_def update_receipts_def case_prod_conv snd_conv p_def f_def d1_def)
  have one: "count_where p (db_receipts d) = 1" using r by (simp split: if_splits)
  consider "d' = d1" | "prior \<noteq> oper" "d' = snd (update_receipts ?mine ?g d1)"
    | "prior = oper" "d' = snd (update_receipts (\<lambda>t. t_op t = oper) (reopen_receipt now) d1)"
    using r by (auto split: if_splits)
  then show ?thesis
  proof cases
    case 1
    then show ?thesis using e1 by simp
  next
    case 2
    have "receipt_effect d1 d'" unfolding 2 by (rule update_receipts_effect) (auto simp: settle_as_def)
    with e1 show ?thesis by (rule receipt_effect_trans)
  next
    case 3
    obtain x where x: "x \<in> set (db_receipts d)" "p x"
      using one count_where_pos [of p "db_receipts d"] by auto
    have only: "p r" if "r \<in> set (db_receipts d)" "t_op r = oper" for r
      using op_distinct_same_row [OF assms(2) that(1) x(1)] that(2) x(2) 3(1) by (auto simp: p_def)
    have "update_where (\<lambda>t. t_op t = oper) (reopen_receipt now) (update_where p f (db_receipts d)) =
        update_where p (\<lambda>t. reopen_receipt now (f t)) (db_receipts d)"
      by (rule update_where_twice) (use only f(1) 3(1) in \<open>auto simp: p_def\<close>)
    then have "d' = snd (update_receipts p (\<lambda>t. reopen_receipt now (f t)) d)"
      unfolding 3 d1_def update_receipts_def by simp
    then show ?thesis
      using update_receipts_effect [of p "\<lambda>t. reopen_receipt now (f t)" d] f(1)
      by (simp add: p_def reopen_receipt_def)
  qed
qed

lemma report_receipts_effect: "report_receipts is d = Inr d' \<Longrightarrow> log_effect d d'"
proof (induction "is" d rule: report_receipts.induct)
  case (2 i "is" d)
  then show ?case
    by (auto simp: bindr_Inr_iff split: option.splits
        intro: log_effect_trans [OF append_subagent_receipt_event_effect])
qed simp

lemma decision_effect_receipts:
  assumes "receipt_effect d d'"
  shows "decision_effect d d'"
proof (rule decision_effect_other)
  show "same_waits d d'"
    using assms without_receipts_frame [of d' d] by (simp add: receipt_effect_def same_waits_def)
qed (rule store_effect_receipts [OF assms])

lemma resolve_reconciliation_in_effect:
  assumes "resolve_tool_reconciliation_in oper decision rr now d = Inr ((w', fresh), d')" "op_distinct d"
  shows "decision_effect d d'"
proof -
  obtain w where w: "find_wait oper d = Some w" using assms(1)
    by (auto simp: resolve_tool_reconciliation_in_def split: option.splits)
  show ?thesis
  proof (cases "w_status w = ''pending''")
    case False
    then have "d' = d" using assms(1) w by (auto simp: resolve_tool_reconciliation_in_def Let_def split: if_splits)
    then show ?thesis by simp
  next
    case True
    define chosen where "chosen = encode_payload (JObj [(''decision'', JStr decision)])"
    obtain prior told d1 where d1: "settle_reconciled oper (w_run w) prior decision rr now d = Inr (told, d1)"
      and d3: "report_receipts told (snd (resolve_candidate oper chosen now d1)) = Inr d'"
      using assms(1) w True unfolding resolve_tool_reconciliation_in_def Let_def chosen_def
      by (auto simp: bindr_Inr_iff case_prod_beta simp del: encode_payload.simps split: option.splits if_splits)
    have "decision_effect d d1" by (rule decision_effect_receipts [OF settle_reconciled_effect [OF d1 assms(2)]])
    also have "decision_effect d1 (snd (resolve_candidate oper chosen now d1))" by (rule resolve_candidate_effect)
    also have "decision_effect \<dots> d'" by (rule decision_effect_log [OF report_receipts_effect [OF d3]])
    finally show ?thesis .
  qed
qed

lemma resolve_tool_reconciliation_effect:
  assumes "resolve_tool_reconciliation c oper decision rr seen d = Inr (w, d')" "op_distinct d"
  shows "decision_effect d d'"
  using assms by (auto simp: resolve_tool_reconciliation_def run_write_transaction_Inr bindr_Inr_iff
      split: option.splits if_splits intro: resolve_reconciliation_in_effect)

end
