(* ===== verification/Wait_Commands.thy ===== *)
theory Wait_Commands
  imports Waits Fixtures
begin

text \<open>
  The client commands that resolve waits (store/run_commands/waits.py). Each runs in one
  transaction under the command's receipt: it checks the owner and the workspace, records the
  decision if the wait is open and the run is waiting, resumes the run once every wait of the
  cycle is resolved, and keeps the receipt. Shown: what is decided stays decided under any mix of
  these commands, worker operations and cancellations; a run is resumed exactly when its cycle is
  complete, with one resume job carrying all decisions; run-wide grants stay within the policy.
\<close>

definition awaiting :: "run_row \<Rightarrow> bool" where
  "awaiting r \<longleftrightarrow> r_status r = RunWaitingPermission \<or> r_status r = RunWaitingInput"

definition workspace_refused :: "(string \<Rightarrow> bool) \<Rightarrow> string \<Rightarrow> run_row \<Rightarrow> db \<Rightarrow> bool" where
  "workspace_refused gone owner r d \<longleftrightarrow>
     workspace_unauthorized owner (r_workspace r) d \<or> workspace_path_error gone (r_workspace r)"

text \<open>\<open>_resume_resolved_wait_uncommitted\<close>: \<open>r\<close> is the run as the command read it.\<close>

definition resume_resolved_wait :: "run_row \<Rightarrow> dict \<Rightarrow> id \<Rightarrow> time \<Rightarrow> db \<Rightarrow> (bool \<times> db) res" where
  "resume_resolved_wait r input cycle now d =
    bindr (wait_cycle_resume_payload (r_id r) cycle d) (\<lambda>payload.
     (case (if awaiting r then payload else None) of
        None \<Rightarrow> Inr (r_status r \<in> {RunQueued, RunRunning, RunCompleted, RunFailed}, d)
      | Some p \<Rightarrow>
         (case active_run_job (r_id r) d of
            None \<Rightarrow>
              (let (j, d1) = new_run_job_record (r_id r) ''resume'' input (Some p) now d
               in bindr (insert_run_job j d1) (\<lambda>d2. Inr (True, d2)))
          | Some j \<Rightarrow> if j_kind j \<noteq> ''resume'' then Inl WaitDecisionConflictError else Inr (True, d))))"

text \<open>A decided wait: the rows it closed (two counts that must be one) and the event that tells of it.\<close>

definition decided_wait :: "id \<Rightarrow> string \<Rightarrow> dict \<Rightarrow> time \<Rightarrow> nat \<times> db \<Rightarrow> id \<Rightarrow> json \<Rightarrow> db res" where
  "decided_wait run ty payload now updated i decision =
    (let (n, d1) = updated; (m, d2) = resolve_candidate i decision now d1
     in if n \<noteq> 1 \<or> m \<noteq> 1 then Inl WaitDecisionConflictError
        else bindr (append_event_uncommitted run ty (encode_payload (JObj payload)) now d2) (\<lambda>(_, _, d3). Inr d3))"

definition cycle_of :: "id option \<Rightarrow> id" where
  "cycle_of x = py_str (json_opt x)"

definition finish_wait_command ::
    "ctx \<Rightarrow> string \<Rightarrow> id \<Rightarrow> string \<Rightarrow> json \<Rightarrow> run_row \<Rightarrow> dict \<Rightarrow> id \<Rightarrow> dict \<Rightarrow> db \<Rightarrow> (dict \<times> db) res" where
  "finish_wait_command c owner cmd ty payload r input cycle receipt d =
    bindr (resume_resolved_wait r input cycle (x_clock c 3) d) (\<lambda>(resumed, d1).
     (let full = receipt @ [(''resumed'', JBool resumed)]
      in bindr (put_command_receipt owner cmd ty payload full (x_clock c 4) (Some (r_id r)) d1)
           (\<lambda>d2. Inr (full, d2))))"

subsection \<open>Answering a question\<close>

definition answer_payload :: "id \<Rightarrow> dict \<Rightarrow> json" where
  "answer_payload i answers = encode_payload (JObj [(''type'', JStr ''question.answer''),
     (''question_id'', JStr i), (''answers'', JObj answers)])"

definition answer_body ::
    "ctx \<Rightarrow> (string \<Rightarrow> bool) \<Rightarrow> string \<Rightarrow> id \<Rightarrow> id \<Rightarrow> dict \<Rightarrow> db \<Rightarrow> (dict \<times> db) res" where
  "answer_body c gone owner cmd i answers d =
    (case get_question i d of
       None \<Rightarrow> Inl PyKeyError
     | Some q \<Rightarrow>
        (case get_owned_run owner (q_run q) d of
           None \<Rightarrow> Inl PyKeyError
         | Some r \<Rightarrow>
            (let chosen = encode_payload (JObj answers); now = x_clock c 1
             in if workspace_refused gone owner r d then Inl WorkspaceAdmissionError
                else bindr
                  (if q_status q = ''pending'' then
                     (if \<not> awaiting r then Inl WaitDecisionConflictError
                      else decided_wait (r_id r) ''question.answered''
                             [(''request_id'', JStr i), (''answers'', JObj answers)] now
                             (update_question i chosen now d) i chosen)
                   else if q_status q \<noteq> ''answered'' \<or> q_answers q \<noteq> Some chosen
                     then Inl WaitDecisionConflictError
                   else Inr d)
                  (finish_wait_command c owner cmd ''question.answer'' (answer_payload i answers) r
                     (run_job_input r) (cycle_of (q_cycle q))
                     [(''type'', JStr ''question.answer''), (''command_id'', JStr cmd),
                      (''question_id'', JStr i), (''run_id'', JStr (r_id r)), (''answered'', JBool True)]))))"

definition request_question_answer_command ::
    "ctx \<Rightarrow> (string \<Rightarrow> bool) \<Rightarrow> string \<Rightarrow> id \<Rightarrow> id \<Rightarrow> dict \<Rightarrow> db \<Rightarrow> ((json \<times> bool) \<times> db) res" where
  "request_question_answer_command c gone owner cmd i answers =
    command_transaction owner cmd ''question.answer'' (answer_payload i answers)
      (answer_body c gone owner cmd i answers)"

subsection \<open>Resolving a permission\<close>

definition permission_resolve_payload :: "id \<Rightarrow> string \<Rightarrow> string \<Rightarrow> dict option \<Rightarrow> json" where
  "permission_resolve_payload i decision scope edited = encode_payload (JObj
     ([(''type'', JStr ''permission.resolve''), (''permission_id'', JStr i),
       (''decision'', JStr decision), (''scope'', JStr scope)] @
      (case edited of None \<Rightarrow> [] | Some e \<Rightarrow> [(''edited_action'', JObj e)])))"

definition hitl_decision :: "string \<Rightarrow> dict option \<Rightarrow> json" where
  "hitl_decision decision edited = encode_payload (JObj
     (if decision = ''approve'' then [(''type'', JStr ''approve'')]
      else if decision = ''edit'' then [(''type'', JStr ''edit''),
        (''edited_action'', case edited of None \<Rightarrow> JNull | Some e \<Rightarrow> JObj e)]
      else [(''type'', JStr ''reject''), (''message'', JStr ''Tool execution denied by user.'')]))"

definition permission_status_of :: "string \<Rightarrow> string" where
  "permission_status_of decision = (if decision = ''approve'' \<or> decision = ''edit'' then ''approved'' else ''denied'')"

definition edit_renames_tool :: "string \<Rightarrow> dict option \<Rightarrow> permission_row \<Rightarrow> bool" where
  "edit_renames_tool decision edited p \<longleftrightarrow> decision = ''edit'' \<and>
     (case edited of None \<Rightarrow> True | Some e \<Rightarrow> dget e ''name'' \<noteq> JStr (p_tool p))"

definition permission_event :: "permission_row \<Rightarrow> string \<Rightarrow> string \<Rightarrow> dict" where
  "permission_event p decision scope =
     [(''request_id'', JStr (p_id p)), (''tool'', JStr (p_tool p)), (''tool_name'', JStr (p_tool p)),
      (''operation_id'', json_opt (p_op p)), (''decision'', JStr decision), (''scope'', JStr scope)]"

definition permission_body ::
    "ctx \<Rightarrow> (string \<Rightarrow> bool) \<Rightarrow> string \<Rightarrow> id \<Rightarrow> id \<Rightarrow> string \<Rightarrow> string \<Rightarrow> dict option \<Rightarrow> db \<Rightarrow> (dict \<times> db) res" where
  "permission_body c gone owner cmd i decision scope edited d =
    (case get_permission i d of
       None \<Rightarrow> Inl PyKeyError
     | Some p \<Rightarrow>
        (case get_owned_run owner (p_run p) d of
           None \<Rightarrow> Inl PyKeyError
         | Some r \<Rightarrow>
            (let chosen = hitl_decision decision edited; status = permission_status_of decision; now = x_clock c 1
             in if workspace_refused gone owner r d then Inl WorkspaceAdmissionError
                else if edit_renames_tool decision edited p then Inl WaitDecisionConflictError
                else bindr (require_allowed_permission_scope (p_tool p) (p_risk p) status scope) (\<lambda>_. bindr
                  (if p_status p = ''pending'' then
                     (if \<not> awaiting r then Inl WaitDecisionConflictError
                      else decided_wait (r_id r) ''permission.resolved'' (permission_event p decision scope) now
                             (update_permission i (decide_permission status scope chosen now) d) i chosen)
                   else if p_status p \<noteq> status \<or> p_scope p \<noteq> scope \<or> p_decision p \<noteq> Some chosen
                     then Inl WaitDecisionConflictError
                   else Inr d)
                  (finish_wait_command c owner cmd ''permission.resolve''
                     (permission_resolve_payload i decision scope edited) r (run_job_input r) (cycle_of (p_cycle p))
                     [(''type'', JStr ''permission.resolve''), (''command_id'', JStr cmd),
                      (''permission_id'', JStr i), (''run_id'', JStr (r_id r)), (''resolved'', JBool True),
                      (''decision'', JStr decision), (''scope'', JStr scope)])))))"

definition request_permission_resolve_command ::
    "ctx \<Rightarrow> (string \<Rightarrow> bool) \<Rightarrow> string \<Rightarrow> id \<Rightarrow> id \<Rightarrow> string \<Rightarrow> string \<Rightarrow> dict option \<Rightarrow> db \<Rightarrow> ((json \<times> bool) \<times> db) res" where
  "request_permission_resolve_command c gone owner cmd i decision scope edited =
    command_transaction owner cmd ''permission.resolve'' (permission_resolve_payload i decision scope edited)
      (permission_body c gone owner cmd i decision scope edited)"

subsection \<open>Resolving a plan approval\<close>

definition plan_status_of :: "string \<Rightarrow> string option" where
  "plan_status_of decision =
    (if decision = ''approve'' then Some ''approved'' else if decision = ''modify'' then Some ''modified''
     else if decision = ''reject'' then Some ''rejected'' else None)"

definition plan_resolve_payload :: "id \<Rightarrow> string \<Rightarrow> string option \<Rightarrow> json" where
  "plan_resolve_payload i decision instructions = encode_payload (JObj
     ([(''type'', JStr ''plan.resolve''), (''approval_id'', JStr i), (''decision'', JStr decision)] @
      (case instructions of None \<Rightarrow> [] | Some s \<Rightarrow> [(''instructions'', JStr s)])))"

definition plan_decision :: "id \<Rightarrow> string \<Rightarrow> string option \<Rightarrow> json" where
  "plan_decision i decision instructions = encode_payload (JObj
     [(''approval_id'', JStr i), (''decision'', JStr decision), (''instructions'', json_opt instructions)])"

definition update_plan :: "id \<Rightarrow> string \<Rightarrow> string option \<Rightarrow> time \<Rightarrow> db \<Rightarrow> nat \<times> db" where
  "update_plan i status instructions now d =
    (count_where (\<lambda>p. pl_id p = i \<and> pl_status p = ''pending'') (db_plans d),
     d\<lparr>db_plans := update_where (\<lambda>p. pl_id p = i \<and> pl_status p = ''pending'')
         (\<lambda>p. p\<lparr>pl_status := status, pl_instructions := instructions, pl_resolved := Some now\<rparr>) (db_plans d)\<rparr>)"

definition plan_body ::
    "ctx \<Rightarrow> (string \<Rightarrow> bool) \<Rightarrow> string \<Rightarrow> id \<Rightarrow> id \<Rightarrow> string \<Rightarrow> string \<Rightarrow> string option \<Rightarrow> db \<Rightarrow> (dict \<times> db) res" where
  "plan_body c gone owner cmd i decision status instructions d =
    (case get_plan_approval i d of
       None \<Rightarrow> Inl PyKeyError
     | Some p \<Rightarrow>
        (case get_owned_run owner (pl_run p) d of
           None \<Rightarrow> Inl PyKeyError
         | Some r \<Rightarrow>
            (let now = x_clock c 1
             in if workspace_refused gone owner r d then Inl WorkspaceAdmissionError
                else bindr
                  (if pl_status p = ''pending'' then
                     (if \<not> awaiting r then Inl WaitDecisionConflictError
                      else decided_wait (r_id r) ''plan.approval_resolved''
                             [(''request_id'', JStr i), (''decision'', JStr decision), (''instructions'', json_opt instructions)]
                             now (update_plan i status instructions now d) i (plan_decision i decision instructions))
                   else if pl_status p \<noteq> status \<or> pl_instructions p \<noteq> instructions
                     then Inl WaitDecisionConflictError
                   else Inr d)
                  (finish_wait_command c owner cmd ''plan.resolve'' (plan_resolve_payload i decision instructions) r
                     (run_job_input r) (cycle_of (pl_cycle p))
                     [(''type'', JStr ''plan.resolve''), (''command_id'', JStr cmd), (''approval_id'', JStr i),
                      (''run_id'', JStr (r_id r)), (''resolved'', JBool True), (''decision'', JStr decision),
                      (''instructions'', json_opt instructions)]))))"

definition request_plan_resolve_command ::
    "ctx \<Rightarrow> (string \<Rightarrow> bool) \<Rightarrow> string \<Rightarrow> id \<Rightarrow> id \<Rightarrow> string \<Rightarrow> string option \<Rightarrow> db \<Rightarrow> ((json \<times> bool) \<times> db) res" where
  "request_plan_resolve_command c gone owner cmd i decision instructions d =
    (case plan_status_of decision of
       None \<Rightarrow> Inl PyKeyError
     | Some status \<Rightarrow> command_transaction owner cmd ''plan.resolve'' (plan_resolve_payload i decision instructions)
         (plan_body c gone owner cmd i decision status instructions) d)"

subsection \<open>Reconciling a tool outcome\<close>

definition reconcile_payload :: "id \<Rightarrow> string \<Rightarrow> json" where
  "reconcile_payload oper decision = encode_payload (JObj [(''type'', JStr ''tool.reconcile''),
     (''operation_id'', JStr oper), (''decision'', JStr decision)])"

text \<open>
  The joined row carries two columns named \<open>id\<close>, of which \<open>dict\<close> keeps the candidate's: the job's
  input falls back to the operation where the run has no root.
\<close>

definition reconcile_body ::
    "ctx \<Rightarrow> (string \<Rightarrow> bool) \<Rightarrow> string \<Rightarrow> id \<Rightarrow> id \<Rightarrow> string \<Rightarrow> reconcile_results \<Rightarrow> db \<Rightarrow> (dict \<times> db) res" where
  "reconcile_body c gone owner cmd oper decision rr d =
    (case find_wait oper d of
       None \<Rightarrow> Inl PyKeyError
     | Some w \<Rightarrow>
        (case (if w_kind w = ''tool_reconciliation'' then get_owned_run owner (w_run w) d else None) of
           None \<Rightarrow> Inl PyKeyError
         | Some r \<Rightarrow>
            if workspace_refused gone owner r d then Inl WorkspaceAdmissionError
            else if w_status w = ''pending'' \<and> \<not> awaiting r then Inl WaitDecisionConflictError
            else bindr (resolve_tool_reconciliation_in oper decision rr (x_clock c 1) d) (\<lambda>((w', fresh), d1).
              bindr (if fresh then bindr (append_event_uncommitted (r_id r) ''tool.reconciliation_resolved''
                        (encode_payload (JObj [(''request_id'', JStr oper), (''operation_id'', JStr oper),
                           (''decision'', JStr decision)])) (x_clock c 2) d1) (\<lambda>(_, _, d2). Inr d2)
                     else Inr d1)
              (finish_wait_command c owner cmd ''tool.reconcile'' (reconcile_payload oper decision) r
                 (run_job_input (r\<lparr>r_id := oper\<rparr>)) (w_cycle w')
                 [(''type'', JStr ''tool.reconcile''), (''command_id'', JStr cmd), (''operation_id'', JStr oper),
                  (''run_id'', JStr (r_id r)), (''resolved'', JBool True), (''decision'', JStr decision)]))))"

definition request_tool_reconcile_command ::
    "ctx \<Rightarrow> (string \<Rightarrow> bool) \<Rightarrow> string \<Rightarrow> id \<Rightarrow> id \<Rightarrow> string \<Rightarrow> reconcile_results \<Rightarrow> db \<Rightarrow> ((json \<times> bool) \<times> db) res" where
  "request_tool_reconcile_command c gone owner cmd oper decision rr =
    command_transaction owner cmd ''tool.reconcile'' (reconcile_payload oper decision)
      (reconcile_body c gone owner cmd oper decision rr)"

subsection \<open>Every command is recorded\<close>

lemma finish_wait_command_records:
  assumes "finish_wait_command c owner cmd ty payload r input cycle receipt d = Inr (full, d')"
  shows "\<exists>x. find_command owner cmd d' = Some x \<and> cm_type x = ty \<and> cm_payload x = payload \<and>
    cm_response x = encode_payload (JObj full)"
  using assms by (auto simp: finish_wait_command_def Let_def bindr_Inr_iff simp del: encode_payload.simps
      dest: put_command_receipt_records(1))

interpretation answer_command: recorded_command owner cmd "''question.answer''" "answer_payload i answers"
    "answer_body c gone owner cmd i answers" for c gone owner cmd i answers
  by unfold_locales (auto simp: answer_body_def Let_def bindr_Inr_iff simp del: encode_payload.simps
      split: option.splits if_splits dest!: finish_wait_command_records)

interpretation permission_command: recorded_command owner cmd "''permission.resolve''"
    "permission_resolve_payload i decision scope edited" "permission_body c gone owner cmd i decision scope edited"
    for c gone owner cmd i decision scope edited
  by unfold_locales (auto simp: permission_body_def Let_def bindr_Inr_iff simp del: encode_payload.simps
      split: option.splits if_splits dest!: finish_wait_command_records)

interpretation plan_command: recorded_command owner cmd "''plan.resolve''" "plan_resolve_payload i decision instructions"
    "plan_body c gone owner cmd i decision status instructions" for c gone owner cmd i decision status instructions
  by unfold_locales (auto simp: plan_body_def Let_def bindr_Inr_iff simp del: encode_payload.simps
      split: option.splits if_splits dest!: finish_wait_command_records)

interpretation reconcile_command: recorded_command owner cmd "''tool.reconcile''" "reconcile_payload oper decision"
    "reconcile_body c gone owner cmd oper decision rr" for c gone owner cmd oper decision rr
  by unfold_locales (auto simp: reconcile_body_def Let_def bindr_Inr_iff simp del: encode_payload.simps
      split: option.splits if_splits dest!: finish_wait_command_records)

subsection \<open>The effect of each command\<close>

lemma wait_effect_trans: "wait_effect a b \<Longrightarrow> wait_effect b e \<Longrightarrow> wait_effect a e"
  using waits.evolves_trans perms.evolves_trans quests.evolves_trans plans.evolves_trans
  unfolding wait_effect_def by metis

lemma put_command_receipt_decision_effect:
  assumes "put_command_receipt owner cmd ty payload receipt now run d = Inr d'"
  shows "decision_effect d d'" "same_waits d d'"
proof -
  have d': "d' = d\<lparr>db_commands := db_commands d'\<rparr>"
    using assms by (auto simp: put_command_receipt_def insert_command_def split: if_splits option.splits)
  show w: "same_waits d d'" unfolding same_waits_def by (subst (1 2 3 4) d') simp
  have "store_effect d d'"
    by (rule store_effect_other) (simp_all add: same_log_def put_command_receipt_records(2-5) [OF assms]
        put_command_receipt_records(2) [OF assms, unfolded same_log_def])
  with w show "decision_effect d d'" by (rule decision_effect_other)
qed

lemma new_run_job_record_same_waits: "same_waits d (snd (new_run_job_record run kind input resume now d))"
  by (simp add: new_run_job_record_def case_prod_beta new_id_def same_waits_def)

lemma insert_run_job_same_waits: "insert_run_job j d = Inr d' \<Longrightarrow> same_waits d d'"
  by (auto simp: insert_run_job_def same_waits_def split: if_splits)

text \<open>Resuming: nothing, or one new job behind the others.\<close>

lemma resume_resolved_wait_cases:
  assumes "resume_resolved_wait r input cycle now d = Inr (b, d')"
  obtains (kept) "d' = d" "awaiting r \<Longrightarrow> wait_cycle_resume_payload (r_id r) cycle d \<noteq> Inr None \<Longrightarrow> active_run_job (r_id r) d \<noteq> None"
  | (resumed) p where "awaiting r" "wait_cycle_resume_payload (r_id r) cycle d = Inr (Some p)" "active_run_job (r_id r) d = None"
      "insert_run_job (fst (new_run_job_record (r_id r) ''resume'' input (Some p) now d))
         (snd (new_run_job_record (r_id r) ''resume'' input (Some p) now d)) = Inr d'"
proof -
  obtain payload where p: "wait_cycle_resume_payload (r_id r) cycle d = Inr payload"
    using assms by (auto simp: resume_resolved_wait_def bindr_Inr_iff)
  show thesis
  proof (cases "awaiting r \<and> payload \<noteq> None \<and> active_run_job (r_id r) d = None")
    case True
    then obtain q where "payload = Some q" by auto
    then show thesis using resumed [of q] assms p True
      by (auto simp: resume_resolved_wait_def bindr_Inr_iff case_prod_beta)
  next
    case False
    then have "d' = d" using assms p
      by (auto simp: resume_resolved_wait_def split: option.splits if_splits)
    with False p show thesis by (intro kept) auto
  qed
qed

lemma resume_resolved_wait_effect:
  assumes "resume_resolved_wait r input cycle now d = Inr (b, d')"
  shows "decision_effect d d'"
  using assms
proof (cases rule: resume_resolved_wait_cases)
  case kept
  then show ?thesis by simp
next
  case (resumed p)
  let ?n = "new_run_job_record (r_id r) ''resume'' input (Some p) now d"
  have "decision_effect d (snd ?n)"
    by (rule decision_effect_other [OF new_run_job_record_same_waits new_run_job_record_simps(3)])
  also have "decision_effect (snd ?n) d'"
    by (rule decision_effect_other [OF insert_run_job_same_waits [OF resumed(4)]
          insert_run_job_effect [OF resumed(4) new_run_job_record_simps(7)]])
  finally show ?thesis .
qed

lemma finish_wait_command_effect:
  "finish_wait_command c owner cmd ty payload r input cycle receipt d = Inr (full, d') \<Longrightarrow> decision_effect d d'"
  by (auto simp: finish_wait_command_def Let_def bindr_Inr_iff simp del: encode_payload.simps
      intro: decision_effect_trans [OF resume_resolved_wait_effect put_command_receipt_decision_effect(1)])

lemma decided_wait_effect:
  assumes "decided_wait run ty payload now updated i decision = Inr d'" "decision_effect d (snd updated)"
  shows "decision_effect d d'"
proof -
  obtain e pe where "append_event_uncommitted run ty (encode_payload (JObj payload)) now
      (snd (resolve_candidate i decision now (snd updated))) = Inr (e, pe, d')"
    using assms(1) by (auto simp: decided_wait_def Let_def case_prod_beta bindr_Inr_iff simp del: encode_payload.simps split: if_splits)
  note decision_effect_event [OF this]
  with decision_effect_trans [OF assms(2) resolve_candidate_effect] show ?thesis by (rule decision_effect_trans)
qed

lemma update_plan_effect:
  assumes "status \<noteq> ''pending''"
  shows "decision_effect d (snd (update_plan i status instructions now d))"
proof (rule decision_effect_plans)
  show "plans_evolve d (snd (update_plan i status instructions now d))"
    by (rule plans.evolves_update [where p = "\<lambda>p. pl_id p = i \<and> pl_status p = ''pending''" and
          f = "\<lambda>p. p\<lparr>pl_status := status, pl_instructions := instructions, pl_resolved := Some now\<rparr>"])
      (use assms in \<open>auto simp: update_plan_def plan_state_def intro: decision_stepI\<close>)
  show "store_effect d (snd (update_plan i status instructions now d))"
    by (rule store_effect_other) (simp_all add: update_plan_def same_log_def)
qed (simp_all add: update_plan_def)

text \<open>A body that decides at most one wait and then finishes.\<close>

lemma decide_and_finish_effect:
  assumes "bindr (if pending then if \<not> waiting then Inl e else decided_wait run ty payload now updated i decision
      else if conflict then Inl e else Inr d) (finish_wait_command c owner cmd ty' payload' r input cycle receipt) = Inr (full, d')"
    and "decision_effect d (snd updated)"
  shows "decision_effect d d'"
proof -
  obtain d1 where d1: "(if pending then if \<not> waiting then Inl e else decided_wait run ty payload now updated i decision
      else if conflict then Inl e else Inr d) = Inr d1"
    and f: "finish_wait_command c owner cmd ty' payload' r input cycle receipt d1 = Inr (full, d')"
    using assms(1) by (auto simp: bindr_Inr_iff)
  have "decision_effect d d1" using d1 decided_wait_effect [OF _ assms(2)] by (auto split: if_splits)
  then show ?thesis using finish_wait_command_effect [OF f] by (rule decision_effect_trans)
qed

lemma answer_body_effect:
  assumes "answer_body c gone owner cmd i answers d = Inr (full, d')"
  shows "decision_effect d d'"
proof -
  obtain q r where q: "get_question i d = Some q" "get_owned_run owner (q_run q) d = Some r"
    using assms by (auto simp: answer_body_def split: option.splits)
  have "\<not> workspace_refused gone owner r d" using assms q by (auto simp: answer_body_def Let_def split: if_splits)
  note b = assms [unfolded answer_body_def q option.case Let_def if_not_P [OF this]]
  show ?thesis by (rule decide_and_finish_effect [OF b update_question_effect])
qed

lemma plan_body_effect:
  assumes "plan_body c gone owner cmd i decision status instructions d = Inr (full, d')" "status \<noteq> ''pending''"
  shows "decision_effect d d'"
proof -
  obtain p r where p: "get_plan_approval i d = Some p" "get_owned_run owner (pl_run p) d = Some r"
    using assms(1) by (auto simp: plan_body_def split: option.splits)
  have "\<not> workspace_refused gone owner r d" using assms(1) p by (auto simp: plan_body_def Let_def split: if_splits)
  note b = assms(1) [unfolded plan_body_def p option.case Let_def if_not_P [OF this]]
  show ?thesis by (rule decide_and_finish_effect [OF b update_plan_effect [OF assms(2)]])
qed

text \<open>What a permission command that returned has checked and done.\<close>

lemma permission_body_inv:
  assumes "permission_body c gone owner cmd i decision scope edited d = Inr (full, d')" "get_permission i d = Some p"
  obtains r receipt where "get_owned_run owner (p_run p) d = Some r"
    "\<not> edit_renames_tool decision edited p"
    "require_allowed_permission_scope (p_tool p) (p_risk p) (permission_status_of decision) scope = Inr ()"
    "bindr (if p_status p = ''pending'' then
         if \<not> awaiting r then Inl WaitDecisionConflictError
         else decided_wait (r_id r) ''permission.resolved'' (permission_event p decision scope) (x_clock c 1)
           (update_permission i (decide_permission (permission_status_of decision) scope (hitl_decision decision edited) (x_clock c 1)) d)
           i (hitl_decision decision edited)
       else if p_status p \<noteq> permission_status_of decision \<or> p_scope p \<noteq> scope \<or> p_decision p \<noteq> Some (hitl_decision decision edited)
         then Inl WaitDecisionConflictError else Inr d)
      (finish_wait_command c owner cmd ''permission.resolve'' (permission_resolve_payload i decision scope edited) r
         (run_job_input r) (cycle_of (p_cycle p)) receipt) = Inr (full, d')"
proof -
  obtain r where r: "get_owned_run owner (p_run p) d = Some r"
    using assms by (auto simp: permission_body_def split: option.splits)
  have ok: "\<not> workspace_refused gone owner r d" "\<not> edit_renames_tool decision edited p"
    using assms r by (auto simp: permission_body_def Let_def split: if_splits)
  have scope: "require_allowed_permission_scope (p_tool p) (p_risk p) (permission_status_of decision) scope = Inr ()"
    using assms r ok by (cases "require_allowed_permission_scope (p_tool p) (p_risk p) (permission_status_of decision) scope")
      (auto simp: permission_body_def Let_def)
  note b = assms(1) [unfolded permission_body_def assms(2) r option.case Let_def if_not_P [OF ok(1)] if_not_P [OF ok(2)] scope bindr_simps]
  show thesis by (rule that [OF r ok(2) scope b])
qed

lemma permission_body_effect:
  assumes "permission_body c gone owner cmd i decision scope edited d = Inr (full, d')" "wait_ids_ok d"
  shows "decision_effect d d'"
proof -
  obtain p where p: "get_permission i d = Some p" using assms(1) by (auto simp: permission_body_def split: option.splits)
  obtain r receipt where scope: "require_allowed_permission_scope (p_tool p) (p_risk p) (permission_status_of decision) scope = Inr ()"
    and b: "bindr (if p_status p = ''pending'' then
         if \<not> awaiting r then Inl WaitDecisionConflictError
         else decided_wait (r_id r) ''permission.resolved'' (permission_event p decision scope) (x_clock c 1)
           (update_permission i (decide_permission (permission_status_of decision) scope (hitl_decision decision edited) (x_clock c 1)) d)
           i (hitl_decision decision edited)
       else if p_status p \<noteq> permission_status_of decision \<or> p_scope p \<noteq> scope \<or> p_decision p \<noteq> Some (hitl_decision decision edited)
         then Inl WaitDecisionConflictError else Inr d)
      (finish_wait_command c owner cmd ''permission.resolve'' (permission_resolve_payload i decision scope edited) r
         (run_job_input r) (cycle_of (p_cycle p)) receipt) = Inr (full, d')"
    using assms(1) p by (rule permission_body_inv)
  have "decision_effect d (snd (update_permission i
      (decide_permission (permission_status_of decision) scope (hitl_decision decision edited) (x_clock c 1)) d))"
  proof (rule decide_permission_effect)
    show "permission_status_of decision \<noteq> ''pending''" by (simp add: permission_status_of_def)
    fix x assume x: "x \<in> set (db_perms d)" "p_id x = i"
    have "permissions_evolve d d" by (rule perms.evolves_refl)
    note permission_seen [OF this assms(2) p x]
    then show "require_allowed_permission_scope (p_tool x) (p_risk x) (permission_status_of decision) scope = Inr ()"
      using scope by simp
  qed
  from decide_and_finish_effect [OF b this] show ?thesis .
qed

lemma reconcile_body_effect:
  assumes "reconcile_body c gone owner cmd oper decision rr d = Inr (full, d')" "op_distinct d"
  shows "decision_effect d d'"
proof -
  obtain w r where w: "find_wait oper d = Some w"
      "(if w_kind w = ''tool_reconciliation'' then get_owned_run owner (w_run w) d else None) = Some r"
    using assms(1) by (auto simp: reconcile_body_def split: option.splits)
  have ok: "\<not> workspace_refused gone owner r d" "\<not> (w_status w = ''pending'' \<and> \<not> awaiting r)"
    using assms(1) w by (auto simp: reconcile_body_def split: if_splits)
  note b = assms(1) [unfolded reconcile_body_def w option.case if_not_P [OF ok(1)] if_not_P [OF ok(2)]]
  from b obtain w' fresh d1 where d1: "resolve_tool_reconciliation_in oper decision rr (x_clock c 1) d = Inr ((w', fresh), d1)"
    by (auto elim!: bindrE)
  note b = b [unfolded d1 bindr_simps case_prod_conv]
  from b obtain d2 where d2: "(if fresh then bindr (append_event_uncommitted (r_id r) ''tool.reconciliation_resolved''
        (encode_payload (JObj [(''request_id'', JStr oper), (''operation_id'', JStr oper), (''decision'', JStr decision)]))
        (x_clock c 2) d1) (\<lambda>(_, _, d2). Inr d2) else Inr d1) = Inr d2"
    by (auto elim!: bindrE simp del: encode_payload.simps)
  note f = b [unfolded d2 bindr_simps]
  have "decision_effect d d1" by (rule resolve_reconciliation_in_effect [OF d1 assms(2)])
  also have "decision_effect d1 d2"
    using d2 by (auto simp: bindr_Inr_iff simp del: encode_payload.simps split: if_splits intro: decision_effect_event)
  also have "decision_effect d2 d'" by (rule finish_wait_command_effect [OF f])
  finally show ?thesis .
qed

lemma command_transaction_effect:
  assumes "command_transaction owner cmd ty payload body d = Inr (r, d')"
    and "\<And>receipt. body d = Inr (receipt, d') \<Longrightarrow> decision_effect d d'"
  shows "decision_effect d d'"
  using assms by (auto simp: command_transaction_def bindr_Inr_iff split: option.splits)

subsection \<open>Canceling closes waits along their lifecycle\<close>

lemma close_waits_effect: "wait_effect d (close_waits run now d)"
proof -
  let ?d = "close_waits run now d"
  have w: "waits_evolve d ?d"
    by (rule waits.evolves_update [where p = "\<lambda>w. w_run w = run \<and> w_status w = ''pending''" and
          f = "\<lambda>w. w\<lparr>w_status := ''resolved'', w_decision := Some cancel_decision, w_resolved := Some now\<rparr>"])
      (auto simp: close_waits_def wait_state_def wait_key_def intro: decision_stepI)
  have p: "permissions_evolve d ?d"
    by (rule perms.evolves_update [where p = "\<lambda>p. p_run p = run \<and> p_status p = ''pending''" and
          f = "\<lambda>p. p\<lparr>p_status := ''canceled'', p_decision := Some cancel_decision, p_resolved := Some now\<rparr>"])
      (auto simp: close_waits_def permission_state_def permission_key_def intro: decision_stepI)
  have q: "questions_evolve d ?d"
    by (rule quests.evolves_update [where p = "\<lambda>q. q_run q = run \<and> q_status q = ''pending''" and
          f = "\<lambda>q. q\<lparr>q_status := ''canceled''\<rparr>"])
      (auto simp: close_waits_def question_state_def intro: decision_stepI)
  have l: "plans_evolve d ?d"
    by (rule plans.evolves_update [where p = "\<lambda>p. pl_run p = run \<and> pl_status p = ''pending''" and
          f = "\<lambda>p. p\<lparr>pl_status := ''canceled'', pl_resolved := Some now\<rparr>"])
      (auto simp: close_waits_def plan_state_def intro: decision_stepI)
  have "grants_ok ?d" if "grants_ok d" using that by (auto simp: grants_ok_def close_waits_def)
  moreover have "wait_ids_ok ?d" if "wait_ids_ok d"
    using that by (simp add: wait_ids_ok_def close_waits_def distinct_update_where)
  ultimately show ?thesis using w p q l by (simp add: wait_effect_def)
qed

lemma finish_run_cancel_effect:
  assumes "finish_run_cancel run now d = Inr d'"
  shows "decision_effect d d'"
proof -
  note inv = finish_run_cancel_inv [OF assms]
  have "same_waits (close_waits run now d) d'" using inv by (simp add: same_waits_def)
  then have "wait_effect d d'" using wait_effect_trans [OF close_waits_effect] wait_effect_same by blast
  then show ?thesis using inv(1) by (simp add: decision_effect_def)
qed

lemma set_job_same_waits: "same_waits d (set_job p f d)"
  by (simp add: set_job_def same_waits_def)

lemma request_run_cancel_in_decision_effect:
  assumes "request_run_cancel_in run now d = Inr (s, d')"
  shows "decision_effect d d'"
  using assms
proof (cases rule: request_run_cancel_in_cases)
  case (leased j)
  then show ?thesis using ask_to_stop_effect set_job_same_waits by (blast intro: decision_effect_other)
next
  case (pending j)
  show ?thesis
    by (rule decision_effect_trans [OF decision_effect_other [OF set_job_same_waits withdraw_job_effect]
          finish_run_cancel_effect [OF pending(4)]])
qed (auto intro: finish_run_cancel_effect)

lemma cancel_tree_decision_effect:
  assumes "request_run_cancel_tree c run d = Inr (states, d')"
  shows "decision_effect d d'"
  by (rule cancel_each_invariant [where I = "decision_effect d", OF assms [unfolded request_run_cancel_tree_def]])
    (auto intro: decision_effect_trans request_run_cancel_in_decision_effect)

subsection \<open>Everything that opens, decides or closes a wait\<close>

inductive wait_op :: "db \<Rightarrow> db \<Rightarrow> bool" where
  open_plan: "create_plan_approval c run call todos summary cycle interrupt d = Inr (p, d') \<Longrightarrow> wait_op d d'"
| open_permission: "create_permission c q seen d = Inr (p, d') \<Longrightarrow> wait_op d d'"
| open_question: "create_question c run qcall qs cycle interrupt seen d = Inr (x, d') \<Longrightarrow> wait_op d d'"
| open_reconciliation: "create_tool_reconciliation c run oper cyc intr payload seen d = Inr (w, d') \<Longrightarrow> wait_op d d'"
| decide_perm: "permissions_evolve seen d \<Longrightarrow> resolve_permission c i status sc dec ev seen d = Inr (pr, d') \<Longrightarrow> wait_op d d'"
| use_grant: "consume_run_permission_grant c run oper tool version risk d = Inr (b, d') \<Longrightarrow> wait_op d d'"
| answer: "answer_question c i answers ev seen d = Inr (qr, d') \<Longrightarrow> wait_op d d'"
| reconcile: "resolve_tool_reconciliation c oper decision rr seen d = Inr (wr, d') \<Longrightarrow> wait_op d d'"
| answer_cmd: "request_question_answer_command c gone owner cmd i answers d = Inr (res, d') \<Longrightarrow> wait_op d d'"
| permission_cmd: "request_permission_resolve_command c gone owner cmd i decision scope edited d = Inr (res, d') \<Longrightarrow> wait_op d d'"
| plan_cmd: "request_plan_resolve_command c gone owner cmd i decision instructions d = Inr (res, d') \<Longrightarrow> wait_op d d'"
| reconcile_cmd: "request_tool_reconcile_command c gone owner cmd oper decision rr d = Inr (res, d') \<Longrightarrow> wait_op d d'"
| cancel: "request_run_cancel_tree c run d = Inr (states, d') \<Longrightarrow> wait_op d d'"

lemma wait_op_effect:
  assumes "wait_op d d'" "wait_ids_ok d" "op_distinct d"
  shows "decision_effect d d'"
  using assms
proof cases
  case (permission_cmd c gone owner cmd i decision scope edited res)
  from permission_cmd [unfolded request_permission_resolve_command_def] show ?thesis
    by (rule command_transaction_effect) (rule permission_body_effect [OF _ assms(2)])
next
  case (plan_cmd c gone owner cmd i decision instructions res)
  then show ?thesis
    by (cases res) (auto simp: request_plan_resolve_command_def plan_status_of_def
        intro: command_transaction_effect plan_body_effect split: option.splits if_splits)
next
  case (answer_cmd c gone owner cmd i answers res)
  then show ?thesis
    by (cases res) (auto simp: request_question_answer_command_def intro: command_transaction_effect answer_body_effect)
next
  case (reconcile_cmd c gone owner cmd oper decision rr res)
  from reconcile_cmd [unfolded request_tool_reconcile_command_def] show ?thesis
    by (rule command_transaction_effect) (rule reconcile_body_effect [OF _ assms(3)])
qed (blast intro: create_plan_approval_effect create_permission_effect create_question_effect
    create_tool_reconciliation_effect resolve_permission_effect consume_grant_effect answer_question_effect
    resolve_tool_reconciliation_effect cancel_tree_decision_effect assms(2,3))+

lemma wait_ops_effect:
  assumes "wait_op\<^sup>*\<^sup>* d d'" "wait_ids_ok d" "op_distinct d"
  shows "decision_effect d d' \<and> wait_ids_ok d' \<and> op_distinct d'"
  using assms
proof (induction rule: rtranclp_induct)
  case base
  then show ?case by simp
next
  case (step y z)
  then have "decision_effect y z" using wait_op_effect by blast
  then show ?case
    using step decision_effect_trans [of d y z] by (auto simp: decision_effect_def wait_effect_def store_effect_def)
qed

subsection \<open>The payload of a complete cycle\<close>

lemma resume_groups_keys:
  "resume_groups is rows acc = Inr p \<Longrightarrow> map fst p = map fst acc @ is"
  by (induction "is" rows acc rule: resume_groups.induct) (auto elim!: bindrE)

lemma set_distinct_runs [simp]: "set (distinct_runs xs) = set xs"
  by (induction xs rule: distinct_runs.induct) auto

lemma set_cycle_rows: "set (cycle_rows run cycle d) = {w \<in> set (db_waits d). w_run w = run \<and> w_cycle w = cycle}"
  by (simp add: cycle_rows_def)

lemma cycle_payload_None:
  "wait_cycle_resume_payload run cycle d = Inr None \<longleftrightarrow>
    (\<forall>w\<in>set (db_waits d). w_run w \<noteq> run \<or> w_cycle w \<noteq> cycle) \<or>
    (\<exists>w\<in>set (db_waits d). w_run w = run \<and> w_cycle w = cycle \<and> w_status w \<noteq> ''resolved'')"
proof -
  have "cycle_rows run cycle d = [] \<longleftrightarrow> (\<forall>w\<in>set (db_waits d). w_run w \<noteq> run \<or> w_cycle w \<noteq> cycle)"
    by (auto simp: cycle_rows_def select_by_Nil_iff)
  then show ?thesis
    by (auto simp: wait_cycle_resume_payload_def Let_def list_ex_iff set_cycle_rows elim!: bindrE)
qed

lemma cycle_payload_keys:
  assumes "wait_cycle_resume_payload run cycle d = Inr (Some p)"
  shows "fst ` set p = w_interrupt ` {w \<in> set (db_waits d). w_run w = run \<and> w_cycle w = cycle}"
proof -
  obtain rows where "rows = cycle_rows run cycle d" "resume_groups (distinct_runs (map w_interrupt rows)) rows [] = Inr p"
    using assms by (auto simp: wait_cycle_resume_payload_def Let_def split: if_splits elim!: bindrE)
  then have "map fst p = distinct_runs (map w_interrupt (cycle_rows run cycle d))" using resume_groups_keys by fastforce
  then have "set (map fst p) = w_interrupt ` set (cycle_rows run cycle d)" by simp
  then show ?thesis by (simp add: set_cycle_rows)
qed

text \<open>The job a completed cycle starts.\<close>

definition resume_job :: "id \<Rightarrow> dict \<Rightarrow> job_row \<Rightarrow> bool" where
  "resume_job run payload j \<longleftrightarrow> j_run j = run \<and> j_kind j = ''resume'' \<and> j_status j = JobPending \<and>
     j_resume j = Some (encode_payload (JObj payload))"

lemma resume_resolved_wait_jobs:
  assumes "resume_resolved_wait r input cycle now d = Inr (b, d')" "awaiting r" "active_run_job (r_id r) d = None"
  shows "case wait_cycle_resume_payload (r_id r) cycle d of
      Inr (Some p) \<Rightarrow> \<exists>j. db_jobs d' = db_jobs d @ [j] \<and> resume_job (r_id r) p j
    | _ \<Rightarrow> db_jobs d' = db_jobs d"
    "db_waits d' = db_waits d"
proof -
  show w: "db_waits d' = db_waits d"
    using assms(1)
  proof (cases rule: resume_resolved_wait_cases)
    case (resumed p)
    then show ?thesis
      using new_run_job_record_same_waits [of d "r_id r" "''resume''" input "Some p" now]
        insert_run_job_same_waits [OF resumed(4)] by (simp add: same_waits_def)
  qed simp
  show "case wait_cycle_resume_payload (r_id r) cycle d of
      Inr (Some p) \<Rightarrow> \<exists>j. db_jobs d' = db_jobs d @ [j] \<and> resume_job (r_id r) p j
    | _ \<Rightarrow> db_jobs d' = db_jobs d"
    using assms(1)
  proof (cases rule: resume_resolved_wait_cases)
    case kept
    then show ?thesis using assms(2,3) by (auto split: sum.splits option.splits)
  next
    case (resumed p)
    let ?n = "new_run_job_record (r_id r) ''resume'' input (Some p) now d"
    have "db_jobs d' = db_jobs d @ [fst ?n]"
      using resumed(4) by (auto simp: insert_run_job_def split: if_splits)
    moreover have "j_resume (fst ?n) = Some (encode_payload (JObj p))"
      by (simp add: new_run_job_record_def case_prod_beta del: encode_payload.simps)
    then have "resume_job (r_id r) p (fst ?n)" by (simp add: resume_job_def del: encode_payload.simps)
    ultimately show ?thesis using resumed(2) by auto
  qed
qed

lemma resolved_no_pending:
  assumes "w \<in> set (db_waits (snd (resolve_candidate i v now d)))" "w_id w = i"
  shows "w_status w \<noteq> ''pending''"
proof -
  have "db_waits (snd (resolve_candidate i v now d)) = update_where (\<lambda>w. w_id w = i \<and> w_status w = ''pending'')
      (\<lambda>w. w\<lparr>w_status := ''resolved'', w_decision := Some v, w_resolved := Some now\<rparr>) (db_waits d)"
    by (simp add: resolve_candidate_eq)
  from assms(1) [unfolded this] obtain r where "w = (if w_id r = i \<and> w_status r = ''pending''
      then r\<lparr>w_status := ''resolved'', w_decision := Some v, w_resolved := Some now\<rparr> else r)"
    by (rule in_update_whereE)
  then show ?thesis using assms(2) by (cases "w_id r = i \<and> w_status r = ''pending''") auto
qed

lemma decided_wait_inv:
  assumes "decided_wait run ty payload now updated i decision = Inr d'"
  shows "fst updated = 1" "db_jobs d' = db_jobs (snd updated)"
    "db_waits d' = db_waits (snd (resolve_candidate i decision now (snd updated)))"
    "count_where (\<lambda>w. w_id w = i \<and> w_status w = ''pending'') (db_waits (snd updated)) = 1"
    "db_perms d' = db_perms (snd updated)" "db_runs d' = db_runs (snd updated)"
proof -
  obtain e pe where e: "append_event_uncommitted run ty (encode_payload (JObj payload)) now
      (snd (resolve_candidate i decision now (snd updated))) = Inr (e, pe, d')"
    and n: "fst updated = 1" "fst (resolve_candidate i decision now (snd updated)) = 1"
    using assms by (auto simp: decided_wait_def Let_def case_prod_beta bindr_Inr_iff simp del: encode_payload.simps split: if_splits)
  note f = without_log_frame [OF append_event_uncommitted_grows(2) [OF e]]
  show "fst updated = 1" by (rule n)
  show "count_where (\<lambda>w. w_id w = i \<and> w_status w = ''pending'') (db_waits (snd updated)) = 1"
    using n(2) by (simp add: resolve_candidate_eq)
  show "db_jobs d' = db_jobs (snd updated)" "db_perms d' = db_perms (snd updated)" "db_runs d' = db_runs (snd updated)"
    "db_waits d' = db_waits (snd (resolve_candidate i decision now (snd updated)))"
    using f by simp_all
qed

lemma command_transaction_new:
  "command_transaction owner cmd ty payload body d = Inr ((response, True), d') \<Longrightarrow>
    \<exists>receipt. body d = Inr (receipt, d') \<and> response = JObj receipt"
  by (auto simp: command_transaction_def bindr_Inr_iff split: option.splits)

lemma get_owned_runD: "get_owned_run owner i d = Some r \<Longrightarrow> r_id r = i \<and> r_principal r = owner \<and> r \<in> set (db_runs d)"
  using find_SomeD [of _ "db_runs d" r] by (auto simp: get_owned_run_def)

text \<open>What the end of a wait command does to the jobs and to the decisions.\<close>

lemma finish_wait_command_jobs:
  assumes "finish_wait_command c owner cmd ty payload r input cycle receipt d = Inr (full, d')"
    and "awaiting r" "active_run_job (r_id r) d = None"
  shows "case wait_cycle_resume_payload (r_id r) cycle d of
      Inr (Some p) \<Rightarrow> \<exists>j. db_jobs d' = db_jobs d @ [j] \<and> resume_job (r_id r) p j
    | _ \<Rightarrow> db_jobs d' = db_jobs d"
    "db_waits d' = db_waits d" "db_perms d' = db_perms d"
proof -
  obtain b d1 where d1: "resume_resolved_wait r input cycle (x_clock c 3) d = Inr (b, d1)"
    and p: "put_command_receipt owner cmd ty payload (receipt @ [(''resumed'', JBool b)]) (x_clock c 4) (Some (r_id r)) d1 = Inr d'"
    using assms(1) by (auto simp: finish_wait_command_def Let_def bindr_Inr_iff simp del: encode_payload.simps)
  note j = put_command_receipt_records(3) [OF p] and w = put_command_receipt_decision_effect(2) [OF p]
  show "case wait_cycle_resume_payload (r_id r) cycle d of
      Inr (Some p) \<Rightarrow> \<exists>j. db_jobs d' = db_jobs d @ [j] \<and> resume_job (r_id r) p j
    | _ \<Rightarrow> db_jobs d' = db_jobs d"
    using resume_resolved_wait_jobs(1) [OF d1 assms(2,3)] unfolding j .
  show "db_waits d' = db_waits d"
    using resume_resolved_wait_jobs(2) [OF d1 assms(2,3)] w by (simp add: same_waits_def)
  show "db_perms d' = db_perms d"
    using d1
  proof (cases rule: resume_resolved_wait_cases)
    case (resumed q)
    then show ?thesis
      using w new_run_job_record_same_waits [of d "r_id r" "''resume''" input "Some q" "x_clock c 3"]
        insert_run_job_same_waits [OF resumed(4)] by (simp add: same_waits_def)
  qed (use w in \<open>simp add: same_waits_def\<close>)
qed

subsection \<open>Properties\<close>

text \<open>C18: a decision is final. Whatever waits are opened, decided, answered, reconciled or canceled
  afterwards, by workers or by clients and on whatever earlier view of the database, a resolved
  candidate keeps its decision and time, and a decided permission its status, scope and decision.\<close>

theorem decision_is_final:
  assumes "wait_op\<^sup>*\<^sup>* d d'" "wait_ids_ok d" "op_distinct d"
  shows "(\<forall>w\<in>set (db_waits d). w_status w \<noteq> ''pending'' \<longrightarrow>
      (\<exists>w'. find_wait (w_id w) d' = Some w' \<and> wait_key w' = wait_key w \<and> wait_state w' = wait_state w)) \<and>
    (\<forall>p\<in>set (db_perms d). p_status p \<noteq> ''pending'' \<longrightarrow>
      (\<exists>p'. get_permission (p_id p) d' = Some p' \<and> permission_key p' = permission_key p \<and> permission_state p' = permission_state p))"
proof -
  note e = wait_ops_effect [OF assms]
  have ids: "inj_on w_id (set (db_waits d'))" "inj_on p_id (set (db_perms d'))"
    using e by (simp_all add: wait_ids_ok_def distinct_map)
  have w: "\<exists>w'. find_wait (w_id w) d' = Some w' \<and> wait_key w' = wait_key w \<and> wait_state w' = wait_state w"
    if m: "w \<in> set (db_waits d)" "w_status w \<noteq> ''pending''" for w
  proof -
    have t: "waits_evolve d d'" "decision_taken (wait_state w)"
      using e m(2) by (simp_all add: decision_effect_def wait_effect_def decision_taken_def wait_state_def)
    obtain w' where w': "w' \<in> set (db_waits d')" "wait_key w' = wait_key w" "wait_state w' = wait_state w"
      using waits.settled_kept [OF t(1) m(1) t(2)] by blast
    have "find_wait (w_id w) d' = Some w'"
      unfolding find_wait_def by (rule find_by_key [OF ids(1) w'(1)]) (use w'(2) in \<open>simp add: wait_key_def\<close>)
    with w' show ?thesis by blast
  qed
  have p: "\<exists>p'. get_permission (p_id p) d' = Some p' \<and> permission_key p' = permission_key p \<and> permission_state p' = permission_state p"
    if m: "p \<in> set (db_perms d)" "p_status p \<noteq> ''pending''" for p
  proof -
    have t: "permissions_evolve d d'" "decision_taken (permission_state p)"
      using e m(2) by (simp_all add: decision_effect_def wait_effect_def decision_taken_def permission_state_def)
    obtain p' where p': "p' \<in> set (db_perms d')" "permission_key p' = permission_key p" "permission_state p' = permission_state p"
      using perms.settled_kept [OF t(1) m(1) t(2)] by blast
    have "get_permission (p_id p) d' = Some p'"
      unfolding get_permission_def by (rule find_by_key [OF ids(2) p'(1)]) (use p'(2) in \<open>simp add: permission_key_def\<close>)
    with p' show ?thesis by blast
  qed
  show ?thesis using w p by blast
qed

definition waiting_db :: db where
  "waiting_db = demo_db
     \<lparr>db_runs := [(blank_run ''run_1'' RunWaitingPermission)\<lparr>r_thread := Some ''thread_1'', r_item := Some ''item_1''\<rparr>],
      db_jobs := [(blank_job ''job_old'' ''run_1'' JobCompleted)\<lparr>j_gen := 1, j_attempt := 1\<rparr>],
      db_perms := [new_permission \<lparr>pq_run = ''run_1'', pq_call = ''call_1'', pq_tool = ''shell'', pq_args = [],
          pq_version = ''1'', pq_op = Some ''op_1'', pq_hash = Some ''h'', pq_risk = Some ''sandboxed_command'',
          pq_cycle = Some ''cycle_1'', pq_interrupt = Some ''int_1'', pq_index = 0, pq_scope = ''once''\<rparr> ''perm_1'' 5],
      db_waits := [new_candidate ''perm_1'' ''run_1'' ''tool_review'' ''cycle_1'' ''int_1'' 0 (JObj []) 5]\<rparr>"

definition approve_demo :: "((json \<times> bool) \<times> db) res" where
  "approve_demo = request_permission_resolve_command free_ctx (\<lambda>_. False) ''local'' ''cmd_1'' ''perm_1'' ''approve'' ''run'' None waiting_db"

lemma waiting_db_ok: "wait_ids_ok waiting_db" "op_distinct waiting_db" "grants_ok waiting_db"
  by (simp_all add: wait_ids_ok_def op_distinct_def grants_ok_def waiting_db_def demo_db_def empty_db_def
      new_permission_def del: encode_payload.simps)

lemma approve_demo_returns: "returns approve_demo (\<lambda>((_, b), d). b \<and> list_all (\<lambda>w. w_status w = ''resolved'') (db_waits d) \<and> length (db_jobs d) = 2)"
  by code_simp

theorem decision_is_final_witness:
  "\<exists>res d'. approve_demo = Inr (res, d') \<and> (\<forall>d''. request_run_cancel_tree free_ctx ''run_1'' d' = Inr ([], d'') \<longrightarrow>
     (\<exists>w. find_wait ''perm_1'' d'' = Some w \<and> w_status w = ''resolved''))"
proof -
  obtain res d' where r: "approve_demo = Inr (res, d')"
    using approve_demo_returns by (auto simp: returns_iff)
  have all: "list_all (\<lambda>w. w_status w = ''resolved'') (db_waits d')" using approve_demo_returns unfolding r by (simp split: prod.splits)
  have op: "wait_op waiting_db d'" using r unfolding approve_demo_def by (rule wait_op.permission_cmd)
  have e: "wait_ids_ok d' \<and> op_distinct d'"
    using wait_ops_effect [OF r_into_rtranclp [where r = wait_op, OF op] waiting_db_ok(1,2)] by blast
  have "returns approve_demo (\<lambda>(_, d). find_wait ''perm_1'' d \<noteq> None)" by code_simp
  then obtain w where "find_wait ''perm_1'' d' = Some w" unfolding r by (auto split: prod.splits)
  then have w: "w \<in> set (db_waits d')" "w_id w = ''perm_1''"
    using find_SomeD [of _ "db_waits d'" w] by (auto simp: find_wait_def)
  have res: "w_status w = ''resolved''" using all w(1) by (simp add: list_all_iff)
  have "\<exists>w. find_wait ''perm_1'' d'' = Some w \<and> w_status w = ''resolved''"
    if "request_run_cancel_tree free_ctx ''run_1'' d' = Inr ([], d'')" for d''
  proof -
    have "wait_op\<^sup>*\<^sup>* d' d''" using wait_op.cancel [OF that] by (rule r_into_rtranclp [where r = wait_op])
    from decision_is_final [OF this] e w res show ?thesis by (fastforce simp: wait_state_def)
  qed
  with r show ?thesis by blast
qed

text \<open>C19: a run is resumed exactly when its wait cycle is complete. When a new permission command decides a
  pending permission, its candidate is resolved with it, and: if every candidate of the cycle is now
  resolved, one pending resume job is added for the run, whose payload has one entry for each
  interrupt of the cycle; while one is open, no job is touched.\<close>

theorem last_decision_resumes_run:
  assumes "request_permission_resolve_command c gone owner cmd i decision scope edited d = Inr ((response, True), d')"
    and "get_permission i d = Some p" "p_status p = ''pending''" "p_cycle p = Some cycle"
    and "active_run_job (p_run p) d = None"
  shows "(\<forall>w\<in>set (db_waits d'). w_id w = i \<longrightarrow> w_status w \<noteq> ''pending'') \<and>
    (if (\<exists>w\<in>set (db_waits d'). w_run w = p_run p \<and> w_cycle w = cycle) \<and>
        (\<forall>w\<in>set (db_waits d'). w_run w = p_run p \<and> w_cycle w = cycle \<longrightarrow> w_status w = ''resolved'')
     then \<exists>j payload. db_jobs d' = db_jobs d @ [j] \<and> resume_job (p_run p) payload j \<and>
       fst ` set payload = w_interrupt ` {w \<in> set (db_waits d'). w_run w = p_run p \<and> w_cycle w = cycle}
     else db_jobs d' = db_jobs d)"
proof -
  obtain receipt where b: "permission_body c gone owner cmd i decision scope edited d = Inr (receipt, d')"
    using command_transaction_new [OF assms(1) [unfolded request_permission_resolve_command_def]] by blast
  obtain r rc where r: "get_owned_run owner (p_run p) d = Some r"
    and e: "bindr (if p_status p = ''pending'' then
         if \<not> awaiting r then Inl WaitDecisionConflictError
         else decided_wait (r_id r) ''permission.resolved'' (permission_event p decision scope) (x_clock c 1)
           (update_permission i (decide_permission (permission_status_of decision) scope (hitl_decision decision edited) (x_clock c 1)) d)
           i (hitl_decision decision edited)
       else if p_status p \<noteq> permission_status_of decision \<or> p_scope p \<noteq> scope \<or> p_decision p \<noteq> Some (hitl_decision decision edited)
         then Inl WaitDecisionConflictError else Inr d)
      (finish_wait_command c owner cmd ''permission.resolve'' (permission_resolve_payload i decision scope edited) r
         (run_job_input r) (cycle_of (p_cycle p)) rc) = Inr (receipt, d')"
    using b assms(2) by (rule permission_body_inv)
  note e = e [unfolded if_P [OF assms(3)]]
  have aw: "awaiting r" using e by (cases "awaiting r") simp_all
  then have "\<not> \<not> awaiting r" by simp
  note e = e [unfolded if_not_P [OF this]]
  have cyc: "cycle_of (p_cycle p) = cycle" using assms(4) by (simp add: cycle_of_def)
  obtain d1 where d1: "decided_wait (r_id r) ''permission.resolved'' (permission_event p decision scope) (x_clock c 1)
           (update_permission i (decide_permission (permission_status_of decision) scope (hitl_decision decision edited) (x_clock c 1)) d)
           i (hitl_decision decision edited) = Inr d1"
    and f: "finish_wait_command c owner cmd ''permission.resolve'' (permission_resolve_payload i decision scope edited) r
         (run_job_input r) cycle rc d1 = Inr (receipt, d')"
    using e unfolding cyc by (rule bindrE)
  have id: "r_id r = p_run p" using get_owned_runD [OF r] by simp
  note inv = decided_wait_inv [OF d1]
  have jobs: "db_jobs d1 = db_jobs d" using inv(2) by simp
  then have free: "active_run_job (r_id r) d1 = None" using assms(5) id by (simp add: active_run_job_def)
  note fin = finish_wait_command_jobs [OF f aw free, unfolded id jobs]
  have mine: "w_status w \<noteq> ''pending''" if "w \<in> set (db_waits d')" "w_id w = i" for w
    using that unfolding fin(2) inv(3) by (rule resolved_no_pending)
  have same: "wait_cycle_resume_payload (p_run p) cycle d1 = wait_cycle_resume_payload (p_run p) cycle d'"
    using fin(2) by (simp add: wait_cycle_resume_payload_def cycle_rows_def)
  have ok: "wait_cycle_resume_payload (p_run p) cycle d' \<noteq> Inl er" for er
    using f [unfolded finish_wait_command_def resume_resolved_wait_def id same]
    by (cases "wait_cycle_resume_payload (p_run p) cycle d'") simp_all
  show ?thesis
  proof (cases "wait_cycle_resume_payload (p_run p) cycle d' = Inr None")
    case True
    then have "db_jobs d' = db_jobs d" using fin(1) by (simp add: same)
    then show ?thesis using True [unfolded cycle_payload_None] mine by auto
  next
    case False
    then obtain q where q: "wait_cycle_resume_payload (p_run p) cycle d' = Inr (Some q)"
      using ok by (cases "wait_cycle_resume_payload (p_run p) cycle d'") auto
    then obtain j where "db_jobs d' = db_jobs d @ [j]" "resume_job (p_run p) q j" using fin(1) by (auto simp: same)
    then show ?thesis using False [unfolded cycle_payload_None] cycle_payload_keys [OF q] mine by auto
  qed
qed

theorem last_decision_resumes_run_witness:
  "\<exists>response d' j payload. approve_demo = Inr ((response, True), d') \<and> db_jobs d' = db_jobs waiting_db @ [j] \<and>
    resume_job ''run_1'' payload j \<and> ''int_1'' \<in> fst ` set payload"
proof -
  obtain response d' where r: "approve_demo = Inr ((response, True), d')"
    using approve_demo_returns by (auto simp: returns_iff)
  have all: "list_all (\<lambda>w. w_status w = ''resolved'') (db_waits d')" using approve_demo_returns unfolding r by (simp split: prod.splits)
  have "returns approve_demo (\<lambda>(_, d). list_ex (\<lambda>w. w_run w = ''run_1'' \<and> w_cycle w = ''cycle_1'' \<and> w_interrupt w = ''int_1'') (db_waits d))"
    by code_simp
  then have ex: "list_ex (\<lambda>w. w_run w = ''run_1'' \<and> w_cycle w = ''cycle_1'' \<and> w_interrupt w = ''int_1'') (db_waits d')"
    unfolding r by (simp split: prod.splits)
  obtain p where p: "get_permission ''perm_1'' waiting_db = Some p" "p_status p = ''pending''" "p_cycle p = Some ''cycle_1''"
      "p_run p = ''run_1''"
    by (simp add: get_permission_def waiting_db_def new_permission_def id_or_def opt_or_def del: encode_payload.simps)
  have "active_run_job (p_run p) waiting_db = None"
    by (simp add: active_run_job_def waiting_db_def p(4) active_job_def blank_job_def)
  note last = last_decision_resumes_run [OF r [unfolded approve_demo_def] p(1-3) this, THEN conjunct2]
  have "(\<exists>w\<in>set (db_waits d'). w_run w = p_run p \<and> w_cycle w = ''cycle_1'') \<and>
      (\<forall>w\<in>set (db_waits d'). w_run w = p_run p \<and> w_cycle w = ''cycle_1'' \<longrightarrow> w_status w = ''resolved'')"
    using ex all p(4) by (auto simp: list_ex_iff list_all_iff)
  from last [unfolded if_P [OF this]] obtain j payload where j: "db_jobs d' = db_jobs waiting_db @ [j]"
      "resume_job (p_run p) payload j"
      "fst ` set payload = w_interrupt ` {w \<in> set (db_waits d'). w_run w = p_run p \<and> w_cycle w = ''cycle_1''}" by blast
  have "''int_1'' \<in> fst ` set payload" unfolding j(3) using ex p(4) by (force simp: list_ex_iff)
  then show ?thesis using r j(1,2) unfolding p(4) by blast
qed

lemma latest_resolved_in: "latest_resolved ps = Some p \<Longrightarrow> p \<in> set ps"
proof -
  assume "latest_resolved ps = Some p"
  then obtain xs where "rev (sort_key (\<lambda>p. case p_resolved p of None \<Rightarrow> 0 | Some t \<Rightarrow> Suc t) ps) = p # xs"
    by (auto simp: latest_resolved_def split: list.splits)
  then have "p \<in> set (rev (sort_key (\<lambda>p. case p_resolved p of None \<Rightarrow> 0 | Some t \<Rightarrow> Suc t) ps))" by simp
  then show ?thesis by simp
qed

text \<open>C20: a run-wide grant never exceeds the policy. After any history of waits, a tool call is let through
  by a grant for the first time only if the policy allows run grants for its tool and risk, the
  tool is not irreversible, and an approval with scope \<open>run\<close> for exactly this tool, version and
  risk exists in this run; the use is recorded for the call.\<close>

theorem run_grants_stay_within_policy:
  assumes "wait_op\<^sup>*\<^sup>* d d'" "wait_ids_ok d" "op_distinct d" "grants_ok d"
    and "consume_run_permission_grant c run oper tool version risk d' = Inr (True, e)"
    and "\<forall>g\<in>set (db_grant_uses d'). g_run g \<noteq> run \<or> g_op g \<noteq> oper"
  shows "can_grant_for_run tool (Some risk) \<and> tool \<notin> set irreversible_tools \<and>
    (\<exists>p\<in>set (db_perms d'). run_grant_for run tool version risk p) \<and>
    (\<exists>g\<in>set (db_grant_uses e). g_run g = run \<and> g_op g = oper)"
proof -
  have ok: "grants_ok d'" using wait_ops_effect [OF assms(1-3)] assms(4) by (simp add: decision_effect_def wait_effect_def)
  have new: "\<not> list_ex (\<lambda>g. g_run g = run \<and> g_op g = oper) (db_grant_uses d')" using assms(6) by (auto simp: list_ex_iff)
  obtain p where p: "latest_resolved (filter (run_grant_for run tool version risk) (db_perms d')) = Some p"
    and e: "\<exists>g\<in>set (db_grant_uses e). g_run g = run \<and> g_op g = oper"
    using assms(5) new by (auto simp: consume_run_permission_grant_def run_write_transaction_Inr Let_def
        split: option.splits if_splits)
  have g: "p \<in> set (db_perms d')" "run_grant_for run tool version risk p"
    using latest_resolved_in [OF p] by simp_all
  then have "can_grant_for_run tool (Some risk)" using ok by (auto simp: grants_ok_def run_grant_for_def)
  then show ?thesis using g e by (auto simp: can_grant_for_run_def)
qed

theorem run_grants_stay_within_policy_witness:
  "\<exists>res d' e. approve_demo = Inr (res, d') \<and>
    consume_run_permission_grant free_ctx ''run_1'' ''op_2'' ''shell'' ''1'' ''sandboxed_command'' d' = Inr (True, e) \<and>
    can_grant_for_run ''shell'' (Some ''sandboxed_command'')"
proof -
  have "returns (bindr approve_demo (\<lambda>(_, d).
      consume_run_permission_grant free_ctx ''run_1'' ''op_2'' ''shell'' ''1'' ''sandboxed_command'' d)) (\<lambda>(b, _). b)"
    by code_simp
  then obtain res d' e where r: "approve_demo = Inr (res, d')"
      "consume_run_permission_grant free_ctx ''run_1'' ''op_2'' ''shell'' ''1'' ''sandboxed_command'' d' = Inr (True, e)"
    by (auto simp: returns_iff bindr_Inr_iff)
  have "returns approve_demo (\<lambda>(_, d). db_grant_uses d = [])" by code_simp
  then have uses: "db_grant_uses d' = []" unfolding r by (auto split: prod.splits)
  have "wait_op waiting_db d'" using r(1) unfolding approve_demo_def by (rule wait_op.permission_cmd)
  then have "wait_op\<^sup>*\<^sup>* waiting_db d'" by (rule r_into_rtranclp [where r = wait_op])
  from run_grants_stay_within_policy [OF this waiting_db_ok r(2)] uses have "can_grant_for_run ''shell'' (Some ''sandboxed_command'')"
    by simp
  then show ?thesis using r by blast
qed

end
