(* ===== verification/Agent_Messages.thy ===== *)
theory Agent_Messages
  imports Run_State Artifacts
begin

text \<open>
  The mailbox between the runs of one collaboration (store/agent_messages.py): a message is
  inserted once per tool operation, delivered to the run that holds the recipient's lease,
  acknowledged or expired. A message row of the model holds the decoded \<open>data\<close> and
  \<open>artifact_refs\<close>, so the projection the store returns is the row itself. Shown: the bounds on
  pending messages, on a collaboration's messages and on a conversation's hops; a conversation
  is numbered without gaps; a message never changes but for its delivery, which only advances;
  and sending again is answered with the first message.
\<close>

declare One_nat_def [simp del]

subsection \<open>Content\<close>

definition max_mailbox_pending :: nat where
  "max_mailbox_pending = 32"

definition max_mailbox_per_root :: nat where
  "max_mailbox_per_root = 512"

definition max_mailbox_hops :: nat where
  "max_mailbox_hops = 8"

definition max_mailbox_refs :: nat where
  "max_mailbox_refs = 16"

definition max_mailbox_text :: int where
  "max_mailbox_text = 32 * 1024"

definition max_mailbox_data :: int where
  "max_mailbox_data = 16 * 1024"

record message_body =
  mb_kind :: string
  mb_text :: string
  mb_data :: json
  mb_refs :: "string list"
  mb_ttl :: nat

text \<open>\<open>json.dumps(..., allow_nan=False)\<close> accepts it.\<close>

fun finite_json :: "json \<Rightarrow> bool" where
  "finite_json (JFloat s) = (s \<notin> {''nan'', ''inf'', ''-inf''})"
| "finite_json (JList xs) = list_all finite_json xs"
| "finite_json (JObj d) = list_all (\<lambda>(k, v). finite_json v) d"
| "finite_json v = True"

text \<open>\<open>list(dict.fromkeys(xs))\<close>\<close>

definition from_keys :: "string list \<Rightarrow> string list" where
  "from_keys xs = map fst (dict_of (\<lambda>x. x) (\<lambda>_. ()) xs)"

definition message_kinds :: "string list" where
  "message_kinds = [''request'', ''question'', ''update'', ''result'', ''cancel'']"

definition normalize_message_content ::
    "string \<Rightarrow> string \<Rightarrow> dict \<Rightarrow> string list \<Rightarrow> int \<Rightarrow> message_body res" where
  "normalize_message_content kind content data refs ttl =
    (let k = py_lower (py_strip kind); t = py_strip content;
         canonical = encode_payload (JObj data); rs = from_keys (map py_strip refs)
     in if k \<notin> set message_kinds then Inl PyValueError
        else if int (utf8_length t) > max_mailbox_text then Inl PyValueError
        else if \<not> finite_json canonical then Inl PyValueError
        else if int (utf8_length (json_dumps '','' '':'' canonical)) > max_mailbox_data then Inl PyValueError
        else if max_mailbox_refs < length rs \<or> list_ex (\<lambda>r. r = [] \<or> 512 < length r) rs then Inl PyValueError
        else if t = [] \<and> data = [] \<and> rs = [] then Inl PyValueError
        else if \<not> (60 \<le> ttl \<and> ttl \<le> 24 * 60 * 60) then Inl PyValueError
        else Inr \<lparr>mb_kind = k, mb_text = t, mb_data = canonical, mb_refs = rs, mb_ttl = nat ttl\<rparr>)"

subsection \<open>The receipt of the sending tool\<close>

definition require_mailbox_receipt :: "ctx \<Rightarrow> id \<Rightarrow> string \<Rightarrow> id option \<Rightarrow> db \<Rightarrow> unit res" where
  "require_mailbox_receipt c run tool oper d =
    (case x_lease c of
       None \<Rightarrow> Inl LeaseFenceError
     | Some l \<Rightarrow>
        if l_run l \<noteq> run then Inl LeaseFenceError
        else (let attempt = attempt_id (l_job l) (l_gen l)
          in case oper of
               None \<Rightarrow>
                 if count_where (\<lambda>t. t_run t = run \<and> t_name t = tool \<and> t_status t = ToolRunning \<and>
                      t_attempt t = attempt) (db_receipts d) \<noteq> 1
                 then Inl ToolReceiptStateError else Inr ()
             | Some i \<Rightarrow>
                (case receipt_in_run d i run of
                   None \<Rightarrow> Inl ToolReceiptStateError
                 | Some t \<Rightarrow>
                     if t_name t \<noteq> tool \<or> t_status t \<noteq> ToolRunning then Inl ToolReceiptStateError
                     else if t_attempt t \<noteq> attempt then Inl LeaseFenceError
                     else Inr ())))"

subsection \<open>Events and expiry\<close>

definition message_payload :: "message_row \<Rightarrow> json" where
  "message_payload m = encode_payload (JObj
     [(''id'', JStr (m_id m)), (''root_run_id'', JStr (m_root m)), (''sender_run_id'', JStr (m_sender m)),
      (''recipient_run_id'', JStr (m_recipient m)), (''sender_operation_id'', JStr (m_op m)),
      (''kind'', JStr (m_kind m)), (''text'', JStr (m_text m)),
      (''correlation_id'', JStr (m_correlation m)), (''in_reply_to'', json_opt (m_reply_to m)),
      (''sequence'', JInt (int (m_sequence m))), (''hop_count'', JInt (int (m_hops m))),
      (''status'', JStr (m_status m)), (''ttl_seconds'', JInt (int (m_ttl m))),
      (''deadline_at'', json_time (m_deadline m)), (''created_at'', json_time (m_created m)),
      (''delivered_at'', json_time_opt (m_delivered m)),
      (''acknowledged_at'', json_time_opt (m_acknowledged m)),
      (''data'', JObj (json_payload (Some (m_data m)))), (''artifact_refs'', JList (map JStr (m_refs m)))])"

definition append_message_event :: "id \<Rightarrow> string \<Rightarrow> message_row \<Rightarrow> time \<Rightarrow> db \<Rightarrow> db res" where
  "append_message_event run ty m now d =
    bindr (append_event_uncommitted run ty (message_payload m) now d)
      (\<lambda>(e, _, d1). touch_thread_for_run_event run ty (e_seq e) now d1)"

definition open_message :: "message_row \<Rightarrow> bool" where
  "open_message m \<longleftrightarrow> m_status m \<in> {''queued'', ''delivered''}"

definition overdue :: "id \<Rightarrow> time \<Rightarrow> message_row \<Rightarrow> bool" where
  "overdue recipient now m \<longleftrightarrow> m_recipient m = recipient \<and> open_message m \<and> m_deadline m \<le> now"

definition mail_order :: "message_row \<Rightarrow> time \<times> id" where
  "mail_order m = (m_created m, m_id m)"

definition set_messages :: "(message_row \<Rightarrow> bool) \<Rightarrow> (message_row \<Rightarrow> message_row) \<Rightarrow> db \<Rightarrow> db" where
  "set_messages p f d = d\<lparr>db_messages := update_where p f (db_messages d)\<rparr>"

definition expire_messages :: "id \<Rightarrow> time \<Rightarrow> db \<Rightarrow> db res" where
  "expire_messages recipient now d =
    (let expired = select_by mail_order (overdue recipient now) (db_messages d)
     in if expired = [] then Inr d
        else foldr_res (\<lambda>m. append_message_event recipient ''agent.message.expired'' (m\<lparr>m_status := ''expired''\<rparr>) now)
               expired (set_messages (overdue recipient now) (\<lambda>m. m\<lparr>m_status := ''expired''\<rparr>) d))"

subsection \<open>Inserting\<close>

record message_draft =
  md_sender :: id
  md_op :: id
  md_recipient :: id
  md_body :: message_body
  md_correlation :: "id option"
  md_reply_to :: "id option"
  md_sequence :: nat
  md_hops :: nat
  md_tool :: string

definition find_message_by_op :: "id \<Rightarrow> db \<Rightarrow> message_row option" where
  "find_message_by_op oper d = find (\<lambda>m. m_op m = oper) (db_messages d)"

definition find_message :: "id \<Rightarrow> db \<Rightarrow> message_row option" where
  "find_message i d = find (\<lambda>m. m_id m = i) (db_messages d)"

text \<open>What a repeated operation is compared by.\<close>

definition same_message :: "message_draft \<Rightarrow> message_row \<Rightarrow> bool" where
  "same_message q m \<longleftrightarrow>
     m_sender m = md_sender q \<and> m_recipient m = md_recipient q \<and> m_kind m = mb_kind (md_body q) \<and>
     m_text m = mb_text (md_body q) \<and> m_data m = mb_data (md_body q) \<and> m_refs m = mb_refs (md_body q) \<and>
     m_ttl m = mb_ttl (md_body q) \<and> m_correlation m = opt_or (md_correlation q) (m_id m) \<and>
     m_reply_to m = md_reply_to q \<and> m_sequence m = md_sequence q \<and> m_hops m = md_hops q"

definition in_topology :: "id \<Rightarrow> run_row \<Rightarrow> bool" where
  "in_topology root r \<longleftrightarrow> r_kind r = KindChild \<longrightarrow> opt_or (r_parent r) [] = root \<and> r_depth r = 1"

text \<open>\<open>COALESCE(r.root_run_id, r.id) = root\<close> for the run an artifact belongs to.\<close>

definition artifact_in_root :: "id \<Rightarrow> db \<Rightarrow> id \<Rightarrow> bool" where
  "artifact_in_root root d i =
    list_ex (\<lambda>a. a_id a = i \<and> (case get_run_row d (a_run a) of None \<Rightarrow> False
       | Some r \<Rightarrow> (case r_root r of None \<Rightarrow> r_id r | Some x \<Rightarrow> x) = root)) (db_artifacts d)"

text \<open>The participants and the artifacts a message may name; the value is the common root.\<close>

definition admit_message :: "message_draft \<Rightarrow> db \<Rightarrow> id res" where
  "admit_message q d =
    (if md_sender q = md_recipient q then Inl (RunAdmissionError ''agent_message_self_send'')
     else (case (get_run_row d (md_sender q), get_run_row d (md_recipient q)) of
       (Some s, Some r) \<Rightarrow>
        (let root = opt_or (r_root s) (md_sender q)
         in if root \<noteq> opt_or (r_root r) (md_recipient q) then Inl (RunAdmissionError ''agent_message_foreign_root'')
            else if r_principal s \<noteq> r_principal r then Inl (RunAdmissionError ''agent_message_foreign_principal'')
            else if r_kind s \<noteq> KindChild \<and> r_kind r \<noteq> KindChild
              then Inl (RunAdmissionError ''agent_message_requires_child'')
            else if \<not> in_topology root s \<or> \<not> in_topology root r
              then Inl (RunAdmissionError ''agent_message_invalid_topology'')
            else if list_ex (\<lambda>i. \<not> artifact_in_root root d i) (mb_refs (md_body q))
              then Inl (RunAdmissionError ''agent_message_artifact_forbidden'')
            else if terminal_run (r_status r) then Inl (RunAdmissionError ''agent_message_recipient_terminal'')
            else Inr root)
     | _ \<Rightarrow> Inl (RunAdmissionError ''agent_message_run_not_found'')))"

text \<open>The keys and checks of the table.\<close>

definition message_clash :: "message_row \<Rightarrow> db \<Rightarrow> bool" where
  "message_clash m d \<longleftrightarrow>
     list_ex (\<lambda>x. m_id x = m_id m \<or> m_op x = m_op m) (db_messages d) \<or>
     get_run_row d (m_root m) = None \<or> get_run_row d (m_sender m) = None \<or>
     get_run_row d (m_recipient m) = None \<or> get_receipt_row d (m_op m) = None \<or>
     (case m_reply_to m of None \<Rightarrow> False | Some i \<Rightarrow> find_message i d = None) \<or>
     m_kind m \<notin> set message_kinds \<or> m_sequence m < 1 \<or> m_ttl m < 60 \<or>
     m_status m \<notin> {''queued'', ''delivered'', ''acknowledged'', ''expired''}"

definition insert_message_row :: "message_row \<Rightarrow> db \<Rightarrow> db res" where
  "insert_message_row m d =
    (if message_clash m d then Inl SqlIntegrityError else Inr (d\<lparr>db_messages := db_messages d @ [m]\<rparr>))"

definition message_of :: "message_draft \<Rightarrow> id \<Rightarrow> id \<Rightarrow> time \<Rightarrow> time \<Rightarrow> message_row" where
  "message_of q root i now later =
     \<lparr>m_id = i, m_root = root, m_sender = md_sender q, m_recipient = md_recipient q, m_op = md_op q,
      m_kind = mb_kind (md_body q), m_text = mb_text (md_body q), m_data = mb_data (md_body q),
      m_refs = mb_refs (md_body q), m_correlation = opt_or (md_correlation q) i,
      m_reply_to = md_reply_to q, m_sequence = md_sequence q, m_hops = md_hops q,
      m_status = ''queued'', m_ttl = mb_ttl (md_body q),
      m_deadline = later + mb_ttl (md_body q) * 1000000, m_created = now,
      m_delivered = None, m_acknowledged = None\<rparr>"

definition insert_message :: "ctx \<Rightarrow> message_draft \<Rightarrow> db \<Rightarrow> ((message_row \<times> bool) \<times> db) res" where
  "insert_message c q d =
    (case find_message_by_op (md_op q) d of
       Some m \<Rightarrow> if \<not> same_message q m then Inl CommandConflictError else Inr ((m, False), d)
     | None \<Rightarrow>
        bindr (require_mailbox_receipt c (md_sender q) (md_tool q) (Some (md_op q)) d) (\<lambda>_.
        bindr (admit_message q d) (\<lambda>root.
        (let now = x_clock c 1 in
         bindr (expire_messages (md_recipient q) now d) (\<lambda>d1.
         if max_mailbox_pending \<le> count_where (\<lambda>m. m_recipient m = md_recipient q \<and> open_message m) (db_messages d1)
         then Inl (RunAdmissionError ''agent_message_backpressure'')
         else if max_mailbox_per_root \<le> count_where (\<lambda>m. m_root m = root) (db_messages d1)
         then Inl (RunAdmissionError ''agent_message_root_budget_exhausted'')
         else (let (i, d2) = new_id ''agent_message'' d1; m = message_of q root i now (x_clock c 2)
           in bindr (insert_message_row m d2) (\<lambda>d3.
              bindr (append_message_event (md_sender q) ''agent.message.sent'' m now d3) (\<lambda>d4.
              Inr ((m, True), d4)))))))))"

subsection \<open>Sending and replying\<close>

definition send_draft :: "id \<Rightarrow> id \<Rightarrow> id \<Rightarrow> message_body \<Rightarrow> message_draft" where
  "send_draft sender oper recipient b =
     \<lparr>md_sender = sender, md_op = oper, md_recipient = recipient, md_body = b,
      md_correlation = None, md_reply_to = None, md_sequence = 1, md_hops = 0, md_tool = ''mailbox.send''\<rparr>"

definition send_agent_message ::
    "ctx \<Rightarrow> id \<Rightarrow> id \<Rightarrow> id \<Rightarrow> string \<Rightarrow> string \<Rightarrow> dict \<Rightarrow> string list \<Rightarrow> int \<Rightarrow> db \<Rightarrow> ((message_row \<times> bool) \<times> db) res" where
  "send_agent_message c sender oper recipient kind content data refs ttl d =
    bindr (normalize_message_content kind content data refs ttl) (\<lambda>b.
    run_write_transaction c None sender d (insert_message c (send_draft sender oper recipient b)))"

definition reply_draft :: "id \<Rightarrow> id \<Rightarrow> message_row \<Rightarrow> message_body \<Rightarrow> nat \<times> nat \<Rightarrow> message_draft" where
  "reply_draft sender oper original b place =
     \<lparr>md_sender = sender, md_op = oper, md_recipient = m_sender original, md_body = b,
      md_correlation = Some (m_correlation original), md_reply_to = Some (m_id original),
      md_sequence = fst place, md_hops = snd place, md_tool = ''mailbox.reply''\<rparr>"

text \<open>\<open>MAX(sequence) + 1\<close> and \<open>MAX(hop_count) + 1\<close> of the conversation.\<close>

definition next_place :: "id \<Rightarrow> db \<Rightarrow> nat \<times> nat" where
  "next_place conversation d =
    (let ms = filter (\<lambda>m. m_correlation m = conversation) (db_messages d)
     in (max_of (map m_sequence ms) + 1, max_of (map m_hops ms) + 1))"

definition reply_in :: "ctx \<Rightarrow> id \<Rightarrow> id \<Rightarrow> id \<Rightarrow> message_body \<Rightarrow> db \<Rightarrow> ((message_row \<times> bool) \<times> db) res" where
  "reply_in c sender oper target b d =
    (case find_message target d of
       None \<Rightarrow> Inl (RunAdmissionError ''agent_message_not_found'')
     | Some original \<Rightarrow>
        if m_recipient original \<noteq> sender then Inl (RunAdmissionError ''agent_message_reply_forbidden'')
        else if m_kind original \<notin> {''request'', ''question'', ''update''}
          then Inl (RunAdmissionError ''agent_message_reply_terminal'')
        else (let place = (case find_message_by_op oper d of
                  None \<Rightarrow> next_place (m_correlation original) d
                | Some m \<Rightarrow> (m_sequence m, m_hops m))
          in if max_mailbox_hops < snd place then Inl (RunAdmissionError ''agent_message_hop_limit'')
             else insert_message c (reply_draft sender oper original b place) d))"

definition reply_agent_message ::
    "ctx \<Rightarrow> id \<Rightarrow> id \<Rightarrow> id \<Rightarrow> string \<Rightarrow> string \<Rightarrow> dict \<Rightarrow> string list \<Rightarrow> int \<Rightarrow> db \<Rightarrow> ((message_row \<times> bool) \<times> db) res" where
  "reply_agent_message c sender oper target kind content data refs ttl d =
    bindr (normalize_message_content kind content data refs ttl) (\<lambda>b.
    run_write_transaction c None sender d (reply_in c sender oper target b))"

subsection \<open>Delivering and acknowledging\<close>

definition deliver_one :: "id \<Rightarrow> time \<Rightarrow> message_row \<Rightarrow> db \<Rightarrow> db res" where
  "deliver_one recipient now m d =
    (let delivered = (\<lambda>x. x\<lparr>m_status := ''delivered'', m_delivered := Some now\<rparr>)
     in append_message_event recipient ''agent.message.received'' (delivered m) now
          (set_messages (\<lambda>x. m_id x = m_id m \<and> m_status x = ''queued'') delivered d))"

definition mail_of :: "id \<Rightarrow> string \<Rightarrow> db \<Rightarrow> message_row list" where
  "mail_of recipient status d = select_by mail_order (\<lambda>m. m_recipient m = recipient \<and> m_status m = status) (db_messages d)"

definition deliver_agent_messages :: "ctx \<Rightarrow> id \<Rightarrow> db \<Rightarrow> (message_row list \<times> db) res" where
  "deliver_agent_messages c recipient d =
    (case x_lease c of
       None \<Rightarrow> Inl LeaseFenceError
     | Some l \<Rightarrow>
        if l_run l \<noteq> recipient then Inl LeaseFenceError
        else run_write_transaction c None recipient d (\<lambda>d.
          (let now = x_clock c 1 in
           bindr (expire_messages recipient now d) (\<lambda>d1.
           bindr (foldr_res (deliver_one recipient now) (mail_of recipient ''queued'' d1) d1) (\<lambda>d2.
           Inr (mail_of recipient ''delivered'' d2, d2))))))"

fun ack_each :: "id \<Rightarrow> time \<Rightarrow> (id \<Rightarrow> message_row option) \<Rightarrow> id list \<Rightarrow> db \<Rightarrow> (message_row list \<times> db) res" where
  "ack_each recipient now by_id [] d = Inr ([], d)"
| "ack_each recipient now by_id (i # is) d =
    (case by_id i of
       None \<Rightarrow> Inl PyKeyError
     | Some m \<Rightarrow>
        if m_recipient m \<noteq> recipient then Inl (RunAdmissionError ''agent_message_ack_forbidden'')
        else if m_status m = ''acknowledged'' then
          bindr (ack_each recipient now by_id is d) (\<lambda>(ms, d'). Inr (m # ms, d'))
        else if m_status m \<noteq> ''delivered'' then Inl (RunAdmissionError ''agent_message_not_delivered'')
        else (let done = (\<lambda>x. x\<lparr>m_status := ''acknowledged'', m_acknowledged := Some now\<rparr>)
          in bindr (append_message_event recipient ''agent.message.acknowledged'' (done m) now
                      (set_messages (\<lambda>x. m_id x = i \<and> m_status x = ''delivered'') done d)) (\<lambda>d1.
             bindr (ack_each recipient now by_id is d1) (\<lambda>(ms, d'). Inr (done m # ms, d')))))"

definition ack_agent_messages ::
    "ctx \<Rightarrow> id \<Rightarrow> id list \<Rightarrow> id option \<Rightarrow> db \<Rightarrow> (message_row list \<times> db) res" where
  "ack_agent_messages c recipient ids oper d =
    (let is = from_keys ids
     in if is = [] \<or> max_mailbox_pending < length is then Inl PyValueError
        else run_write_transaction c None recipient d (\<lambda>d.
          bindr (require_mailbox_receipt c recipient ''mailbox.ack'' oper d) (\<lambda>_.
          if list_ex (\<lambda>i. find_message i d = None) is then Inl (RunAdmissionError ''agent_message_not_found'')
          else ack_each recipient (x_clock c 1) (\<lambda>i. find_message i d) is d)))"

definition list_agent_inbox :: "id \<Rightarrow> db \<Rightarrow> message_row list" where
  "list_agent_inbox run d = select_by mail_order (\<lambda>m. m_recipient m = run) (db_messages d)"

definition list_agent_outbox :: "id \<Rightarrow> db \<Rightarrow> message_row list" where
  "list_agent_outbox run d = select_by mail_order (\<lambda>m. m_sender m = run) (db_messages d)"

subsection \<open>The lifecycle of a message\<close>

inductive message_step :: "string \<Rightarrow> string \<Rightarrow> bool" where
  deliver: "message_step ''queued'' ''delivered''"
| acknowledge: "message_step ''delivered'' ''acknowledged''"
| expire_queued: "message_step ''queued'' ''expired''"
| expire_delivered: "message_step ''delivered'' ''expired''"

inductive_simps message_step_iff: "message_step s t"

definition message_settled :: "string \<Rightarrow> bool" where
  "message_settled s \<longleftrightarrow> s \<notin> {''queued'', ''delivered''}"

text \<open>What a message says, apart from where its delivery stands.\<close>

definition message_content :: "message_row \<Rightarrow> message_row" where
  "message_content m = m\<lparr>m_status := [], m_delivered := None, m_acknowledged := None\<rparr>"

definition messages_evolve :: "db \<Rightarrow> db \<Rightarrow> bool" where
  "messages_evolve d d' = rows_evolve message_step m_status message_content (db_messages d) (db_messages d')"

interpretation mail: lifecycle_table message_step message_settled db_messages m_status message_content messages_evolve
proof
  show "\<not> message_step s t" if "message_settled s" for s t
    using that by (auto simp: message_settled_def message_step_iff)
  show "\<exists>t. message_step s t \<and> t \<noteq> s" if "\<not> message_settled s" for s
    using that by (intro exI [of _ "''expired''"]) (auto simp: message_settled_def message_step_iff)
qed (rule messages_evolve_def)

text \<open>The numbers of a conversation, as an append-only log keyed by its correlation id.\<close>

definition conversation :: "id \<Rightarrow> db \<Rightarrow> nat list" where
  "conversation c d = map m_sequence (filter (\<lambda>m. m_correlation m = c) (db_messages d))"

definition message_appended :: "id \<Rightarrow> db \<Rightarrow> db \<Rightarrow> bool" where
  "message_appended c d d' \<longleftrightarrow> (\<exists>m. db_messages d' = db_messages d @ [m] \<and> m_correlation m = c \<and>
     m_sequence m = Suc (max_of (conversation c d)))"

interpretation talk: append_log conversation message_appended
  by unfold_locales (auto simp: message_appended_def conversation_def)

definition pending_mail :: "id \<Rightarrow> db \<Rightarrow> nat" where
  "pending_mail recipient d = count_where (\<lambda>m. m_recipient m = recipient \<and> open_message m) (db_messages d)"

definition root_mail :: "id \<Rightarrow> db \<Rightarrow> nat" where
  "root_mail root d = count_where (\<lambda>m. m_root m = root) (db_messages d)"

definition mail_keys_ok :: "db \<Rightarrow> bool" where
  "mail_keys_ok d \<longleftrightarrow> distinct (map m_id (db_messages d)) \<and> distinct (map m_op (db_messages d)) \<and>
     (\<forall>m\<in>set (db_messages d). m_id m \<noteq> [] \<and> m_correlation m \<in> m_id ` set (db_messages d))"

definition mail_bounds_ok :: "db \<Rightarrow> bool" where
  "mail_bounds_ok d \<longleftrightarrow> (\<forall>r. pending_mail r d \<le> max_mailbox_pending) \<and> (\<forall>r. root_mail r d \<le> max_mailbox_per_root)"

definition talks_ok :: "db \<Rightarrow> bool" where
  "talks_ok d \<longleftrightarrow> (\<forall>c. contiguous (conversation c d)) \<and>
     (\<forall>m\<in>set (db_messages d). m_sequence m = Suc (m_hops m) \<and> m_hops m \<le> max_mailbox_hops)"

definition mail_ok :: "db \<Rightarrow> bool" where
  "mail_ok d \<longleftrightarrow> mail_keys_ok d \<and> mail_bounds_ok d \<and> talks_ok d"

definition mail_effect :: "db \<Rightarrow> db \<Rightarrow> bool" where
  "mail_effect d d' \<longleftrightarrow> messages_evolve d d' \<and> store_effect d d' \<and> (mail_ok d \<longrightarrow> mail_ok d')"

lemma mail_effect_refl [simp, intro]: "mail_effect d d"
  by (simp add: mail_effect_def mail.evolves_refl)

lemma mail_effect_trans [trans]: "mail_effect a b \<Longrightarrow> mail_effect b e \<Longrightarrow> mail_effect a e"
  using mail.evolves_trans store_effect_trans unfolding mail_effect_def by metis

lemma mail_ok_cong: "db_messages d' = db_messages d \<Longrightarrow> mail_ok d' = mail_ok d"
  by (simp add: mail_ok_def mail_keys_ok_def mail_bounds_ok_def talks_ok_def pending_mail_def
      root_mail_def conversation_def)

lemma mail_effect_log:
  assumes "log_effect d d'"
  shows "mail_effect d d'"
proof -
  have same: "db_messages d' = db_messages d" 
    by (rule without_log_frame(17)) (use assms in \<open>simp add: log_effect_def\<close>)
  show ?thesis
    unfolding mail_effect_def mail_ok_cong [OF same]
    using mail.evolves_same [OF same] store_effect_log [OF assms] by simp
qed

lemma append_message_event_log: "append_message_event run ty m now d = Inr d' \<Longrightarrow> log_effect d d'"
  by (auto simp: append_message_event_def bindr_Inr_iff intro: log_effect_trans log_effects)

lemma set_messages_keeps:
  assumes "\<And>r. p r \<Longrightarrow> message_content (f r) = message_content r"
  shows "map message_content (db_messages (set_messages p f d)) = map message_content (db_messages d)"
  using assms by (simp add: set_messages_def map_update_where_key)

text \<open>Moving messages along their lifecycle keeps every bound.\<close>

lemma content_fields:
  assumes "message_content a = message_content b"
  shows "m_id a = m_id b" "m_op a = m_op b" "m_correlation a = m_correlation b" "m_root a = m_root b"
    "m_recipient a = m_recipient b" "m_sequence a = m_sequence b" "m_hops a = m_hops b"
    "m_sender a = m_sender b" "m_kind a = m_kind b" "m_text a = m_text b" "m_data a = m_data b"
    "m_refs a = m_refs b" "m_ttl a = m_ttl b" "m_reply_to a = m_reply_to b"
    "m_deadline a = m_deadline b" "m_created a = m_created b"
  using assms by (cases a; cases b; simp add: message_content_def)+

lemma mail_ok_update:
  assumes "mail_ok d" and f: "\<And>r. p r \<Longrightarrow> message_content (f r) = message_content r"
    and "\<And>r. p r \<Longrightarrow> open_message (f r) \<Longrightarrow> open_message r"
  shows "mail_ok (set_messages p f d)"
proof -
  note ff = content_fields [OF f]
  have keys: "map m_id (update_where p f (db_messages d)) = map m_id (db_messages d)"
    "map m_op (update_where p f (db_messages d)) = map m_op (db_messages d)"
    by (simp_all add: map_update_where_key ff)
  then have ids: "m_id ` set (update_where p f (db_messages d)) = m_id ` set (db_messages d)"
    by (metis set_map)
  have k: "mail_keys_ok (set_messages p f d)"
    using assms(1) keys ids by (simp add: mail_ok_def mail_keys_ok_def set_messages_def ff)
  have pending: "pending_mail r (set_messages p f d) \<le> pending_mail r d" for r
    unfolding pending_mail_def set_messages_def by (simp, rule count_update_where_le) (auto simp: ff assms(3))
  have root: "root_mail r (set_messages p f d) = root_mail r d" for r
    using filter_map_update_where [of "db_messages d" p "\<lambda>m. m_root m = r" f "\<lambda>_. ()"] map_eq_imp_length_eq
    by (fastforce simp: root_mail_def set_messages_def count_where_def ff)
  have talk: "conversation c (set_messages p f d) = conversation c d" for c
    using filter_map_update_where [of "db_messages d" p "\<lambda>m. m_correlation m = c" f m_sequence]
    by (simp add: conversation_def set_messages_def ff)
  have "mail_bounds_ok (set_messages p f d)"
    using assms(1) le_trans [OF pending] by (simp add: mail_ok_def mail_bounds_ok_def root)
  moreover have "talks_ok (set_messages p f d)"
    using assms(1) by (simp add: mail_ok_def talks_ok_def talk) (simp add: set_messages_def ff)
  ultimately show ?thesis using k by (simp add: mail_ok_def)
qed

lemma set_messages_effect:
  assumes "\<And>r. p r \<Longrightarrow> message_content (f r) = message_content r"
    and "\<And>r. p r \<Longrightarrow> message_step (m_status r) (m_status (f r))"
  shows "mail_effect d (set_messages p f d)"
proof -
  have "open_message r" if "p r" for r
    using assms(2) [OF that] by (auto simp: message_step_iff open_message_def)
  then have "mail_ok d \<Longrightarrow> mail_ok (set_messages p f d)" using assms(1) by (intro mail_ok_update)
  moreover have "messages_evolve d (set_messages p f d)"
    by (rule mail.evolves_update [where p = p and f = f]) (use assms in \<open>auto simp: set_messages_def\<close>)
  moreover have "store_effect d (set_messages p f d)"
    by (rule store_effect_other) (simp_all add: same_log_def set_messages_def)
  ultimately show ?thesis by (simp add: mail_effect_def)
qed

subsection \<open>What the operations write\<close>

lemma update_where_either:
  assumes "\<And>r. r \<in> set t \<Longrightarrow> p r \<Longrightarrow> \<not> q (f r)"
  shows "update_where q f (update_where p f t) = update_where (\<lambda>r. p r \<or> q r) f t"
  using assms by (auto simp: update_where_def)

lemma message_event_keeps: "append_message_event run ty m now d = Inr d' \<Longrightarrow> db_messages d' = db_messages d"
  by (rule without_log_frame(17)) (use append_message_event_log in \<open>simp add: log_effect_def\<close>)

lemma message_events_log:
  "foldr_res (\<lambda>m. append_message_event run ty (g m) now) ms d = Inr d' \<Longrightarrow> log_effect d d'"
  by (rule foldr_res_invariant [where I = "log_effect d"])
    (auto intro: log_effect_trans append_message_event_log)

definition expired_message :: "message_row \<Rightarrow> message_row" where
  "expired_message m = m\<lparr>m_status := ''expired''\<rparr>"

definition delivered_message :: "time \<Rightarrow> message_row \<Rightarrow> message_row" where
  "delivered_message now m = m\<lparr>m_status := ''delivered'', m_delivered := Some now\<rparr>"

definition acknowledged_message :: "time \<Rightarrow> message_row \<Rightarrow> message_row" where
  "acknowledged_message now m = m\<lparr>m_status := ''acknowledged'', m_acknowledged := Some now\<rparr>"

lemma moved_message_simps [simp]:
  "message_content (expired_message m) = message_content m"
  "message_content (delivered_message now m) = message_content m"
  "message_content (acknowledged_message now m) = message_content m"
  "m_status (expired_message m) = ''expired''" "m_status (delivered_message now m) = ''delivered''"
  "m_status (acknowledged_message now m) = ''acknowledged''"
  by (simp_all add: expired_message_def delivered_message_def acknowledged_message_def message_content_def)

lemmas moved_fields [simp] =
  moved_message_simps(1) [THEN content_fields(1)] moved_message_simps(1) [THEN content_fields(5)]
  moved_message_simps(2) [THEN content_fields(1)] moved_message_simps(2) [THEN content_fields(5)]
  moved_message_simps(3) [THEN content_fields(1)] moved_message_simps(3) [THEN content_fields(5)]

lemma expire_messagesE:
  assumes "expire_messages r now d = Inr d'"
  shows "db_messages d' = update_where (overdue r now) expired_message (db_messages d)"
    and "log_effect (set_messages (overdue r now) expired_message d) d'"
proof -
  let ?d = "set_messages (overdue r now) expired_message d"
  have "log_effect ?d d'"
  proof (cases "select_by mail_order (overdue r now) (db_messages d) = []")
    case True
    then have "update_where (overdue r now) expired_message (db_messages d) = db_messages d"
      by (intro update_where_idle) (auto simp: select_by_Nil_iff)
    then have "?d = d" by (simp add: set_messages_def)
    moreover have "d' = d" using assms True by (simp add: expire_messages_def)
    ultimately show ?thesis by simp
  next
    case False
    then show ?thesis using assms
      by (auto simp: expire_messages_def Let_def expired_message_def [abs_def] intro: message_events_log)
  qed
  then show "log_effect ?d d'" .
  then have "db_messages d' = db_messages ?d"
    by (intro without_log_frame(17)) (simp add: log_effect_def)
  then show "db_messages d' = update_where (overdue r now) expired_message (db_messages d)"
    by (simp add: set_messages_def)
qed

lemma expire_messages_effect: "expire_messages r now d = Inr d' \<Longrightarrow> mail_effect d d'"
  by (rule mail_effect_trans [OF set_messages_effect mail_effect_log [OF expire_messagesE(2)]])
    (auto simp: overdue_def open_message_def message_step_iff)

lemma deliver_one_effect:
  assumes "deliver_one r now m d = Inr d'"
  shows "mail_effect d d'"
    and "db_messages d' = update_where (\<lambda>x. m_id x = m_id m \<and> m_status x = ''queued'') (delivered_message now) (db_messages d)"
proof -
  let ?d = "set_messages (\<lambda>x. m_id x = m_id m \<and> m_status x = ''queued'') (delivered_message now) d"
  have ev: "append_message_event r ''agent.message.received'' (delivered_message now m) now ?d = Inr d'"
    using assms by (simp add: deliver_one_def Let_def delivered_message_def [abs_def])
  have "mail_effect d ?d" by (rule set_messages_effect) (auto simp: message_step_iff)
  then show "mail_effect d d'"
    using mail_effect_log [OF append_message_event_log [OF ev]] by (rule mail_effect_trans)
  show "db_messages d' = update_where (\<lambda>x. m_id x = m_id m \<and> m_status x = ''queued'') (delivered_message now) (db_messages d)"
    using message_event_keeps [OF ev] by (simp add: set_messages_def)
qed

lemma deliver_each_messages:
  "foldr_res (deliver_one r now) ms d = Inr d' \<Longrightarrow>
    db_messages d' = update_where (\<lambda>x. m_id x \<in> m_id ` set ms \<and> m_status x = ''queued'') (delivered_message now) (db_messages d)"
proof (induction ms arbitrary: d)
  case Nil
  then show ?case by (simp add: update_where_idle)
next
  case (Cons m ms)
  obtain d1 where d1: "deliver_one r now m d = Inr d1" "foldr_res (deliver_one r now) ms d1 = Inr d'"
    using Cons.prems by (auto simp: bindr_Inr_iff)
  show ?case
    unfolding Cons.IH [OF d1(2)] deliver_one_effect(2) [OF d1(1)]
    by (subst update_where_either) (auto intro: arg_cong [where f = "\<lambda>p. update_where p f t" for f t])
qed

lemma deliver_effect:
  assumes "deliver_agent_messages c r d = Inr (ms, d')"
  shows "mail_effect d d'"
proof -
  obtain d1 where d1: "expire_messages r (x_clock c 1) d = Inr d1"
    "foldr_res (deliver_one r (x_clock c 1)) (mail_of r ''queued'' d1) d1 = Inr d'"
    using assms by (auto simp: deliver_agent_messages_def Let_def run_write_transaction_Inr bindr_Inr_iff
        split: option.splits if_splits)
  have "mail_effect d1 d'"
    by (rule foldr_res_invariant [where I = "mail_effect d1", OF d1(2)])
      (auto intro: mail_effect_trans deliver_one_effect(1))
  with expire_messages_effect [OF d1(1)] show ?thesis by (rule mail_effect_trans)
qed

lemma ack_each_effect:
  "ack_each r now by_id is d = Inr (ms, d') \<Longrightarrow> mail_effect d d'"
proof (induction "is" arbitrary: d ms)
  case (Cons i "is")
  obtain m where m: "by_id i = Some m" using Cons.prems by (auto split: option.splits)
  let ?p = "\<lambda>x. m_id x = i \<and> m_status x = ''delivered''"
  have step: "mail_effect d (set_messages ?p (acknowledged_message now) d)"
    by (rule set_messages_effect) (auto simp: message_step_iff)
  from Cons.prems consider ms' where "ack_each r now by_id is d = Inr (ms', d')"
    | ms' d1 where "append_message_event r ''agent.message.acknowledged'' (acknowledged_message now m) now
          (set_messages ?p (acknowledged_message now) d) = Inr d1" "ack_each r now by_id is d1 = Inr (ms', d')"
    by (auto simp: m bindr_Inr_iff Let_def acknowledged_message_def [abs_def] split: if_splits)
  then show ?case
    by cases (auto intro: Cons.IH mail_effect_trans [OF step] mail_effect_trans [OF mail_effect_log [OF append_message_event_log]])
qed simp

lemma ack_effect: "ack_agent_messages c r ids oper d = Inr (ms, d') \<Longrightarrow> mail_effect d d'"
  by (auto simp: ack_agent_messages_def Let_def run_write_transaction_Inr bindr_Inr_iff
      split: if_splits intro: ack_each_effect)

subsection \<open>What an insert keeps\<close>

text \<open>The place a draft takes: the first of its own conversation, or the next of another's.\<close>

definition place_ok :: "message_draft \<Rightarrow> db \<Rightarrow> bool" where
  "place_ok q d \<longleftrightarrow> (md_correlation q = None \<and> md_sequence q = 1 \<and> md_hops q = 0) \<or>
     (\<exists>c. md_correlation q = Some c \<and> c \<in> m_correlation ` set (db_messages d) \<and>
        (md_sequence q, md_hops q) = next_place c d \<and> md_hops q \<le> max_mailbox_hops)"

lemma max_hops:
  "ms \<noteq> [] \<Longrightarrow> \<forall>m\<in>set ms. m_sequence m = Suc (m_hops m) \<Longrightarrow>
    max_of (map m_sequence ms) = Suc (max_of (map m_hops ms))"
proof (induction ms)
  case (Cons m ms)
  then show ?case by (cases "ms = []") auto
qed simp

lemma next_place_same:
  assumes "db_messages d' = update_where p f (db_messages d)" "\<And>r. message_content (f r) = message_content r"
  shows "next_place c d' = next_place c d"
  using filter_map_update_where [of "db_messages d" p "\<lambda>m. m_correlation m = c" f m_sequence]
    filter_map_update_where [of "db_messages d" p "\<lambda>m. m_correlation m = c" f m_hops]
  by (simp add: next_place_def Let_def assms(1) content_fields [OF assms(2)])

lemma place_ok_expired:
  assumes "expire_messages r now d = Inr d'" "place_ok q d"
  shows "place_ok q d'"
proof -
  note msgs = expire_messagesE(1) [OF assms(1)]
  have "m_correlation ` set (db_messages d') = m_correlation ` set (db_messages d)"
    unfolding msgs set_map [symmetric]
    by (rule arg_cong [where f = set], rule map_update_where_key) (simp add: expired_message_def)
  moreover have "next_place c d' = next_place c d" for c by (rule next_place_same [OF msgs]) simp
  ultimately show ?thesis using assms(2) by (simp add: place_ok_def)
qed

lemma contiguous_append_talk:
  assumes "talks_ok d" "db_messages d' = db_messages d @ [m]"
    and "m_sequence m = Suc (max_of (conversation (m_correlation m) d))"
    and "m_sequence m = Suc (m_hops m)" "m_hops m \<le> max_mailbox_hops"
  shows "talks_ok d'"
proof -
  have "message_appended (m_correlation m) d d'" using assms(2,3) by (auto simp: message_appended_def)
  then have "\<forall>c. contiguous (conversation c d')"
    by (rule talk.appends_contiguous) (use assms(1) in \<open>simp add: talks_ok_def\<close>)
  then show ?thesis using assms by (auto simp: talks_ok_def)
qed

lemma message_place:
  assumes "mail_ok d" "place_ok q d" "i \<noteq> []" "i \<notin> m_id ` set (db_messages d)"
    and m_def: "m = message_of q root i now later"
  shows "m_sequence m = Suc (max_of (conversation (m_correlation m) d))" "m_sequence m = Suc (m_hops m)"
    "m_hops m \<le> max_mailbox_hops" "m_correlation m \<in> insert i (m_id ` set (db_messages d))"
proof -
  have keys: "\<forall>m\<in>set (db_messages d). m_id m \<noteq> [] \<and> m_correlation m \<in> m_id ` set (db_messages d)"
    and talks: "\<forall>m\<in>set (db_messages d). m_sequence m = Suc (m_hops m)"
    using assms(1) by (simp_all add: mail_ok_def mail_keys_ok_def talks_ok_def)
  consider "md_correlation q = None" "md_sequence q = 1" "md_hops q = 0"
    | c where "md_correlation q = Some c" "c \<in> m_correlation ` set (db_messages d)"
      "(md_sequence q, md_hops q) = next_place c d" "md_hops q \<le> max_mailbox_hops"
    using assms(2) by (auto simp: place_ok_def)
  then have "m_sequence m = Suc (max_of (conversation (m_correlation m) d)) \<and> m_sequence m = Suc (m_hops m) \<and>
      m_hops m \<le> max_mailbox_hops \<and> m_correlation m \<in> insert i (m_id ` set (db_messages d))"
  proof cases
    case 1
    have "filter (\<lambda>m. m_correlation m = i) (db_messages d) = []"
      using keys assms(4) by (auto simp: filter_empty_conv)
    then show ?thesis using 1 by (simp add: m_def message_of_def conversation_def opt_or_def max_mailbox_hops_def)
  next
    case (2 c)
    let ?ms = "filter (\<lambda>m. m_correlation m = c) (db_messages d)"
    have "?ms \<noteq> []" using 2(2) by (auto simp: filter_empty_conv)
    then have max: "max_of (map m_sequence ?ms) = Suc (max_of (map m_hops ?ms))"
      using talks by (intro max_hops) auto
    have "c \<in> m_id ` set (db_messages d)" using 2(2) keys by auto
    moreover from this have "c \<noteq> []" using keys by auto
    ultimately show ?thesis
      using 2 max by (simp add: m_def message_of_def conversation_def opt_or_def next_place_def Let_def)
  qed
  then show "m_sequence m = Suc (max_of (conversation (m_correlation m) d))" "m_sequence m = Suc (m_hops m)"
    "m_hops m \<le> max_mailbox_hops" "m_correlation m \<in> insert i (m_id ` set (db_messages d))" by simp_all
qed

lemma insert_message_row_ok:
  assumes "mail_ok d" "insert_message_row (message_of q root i now later) d = Inr d'" "place_ok q d" "i \<noteq> []"
    and "pending_mail (md_recipient q) d < max_mailbox_pending" "root_mail root d < max_mailbox_per_root"
  shows "mail_ok d'"
proof -
  let ?m = "message_of q root i now later"
  have msgs: "db_messages d' = db_messages d @ [?m]" and
    fresh: "\<forall>x\<in>set (db_messages d). m_id x \<noteq> i \<and> m_op x \<noteq> md_op q"
    using assms(2) by (auto simp: insert_message_row_def message_clash_def message_of_def list_ex_iff split: if_splits)
  note place = message_place [OF assms(1,3,4) _ refl, of root "now" later]
  have i: "i \<notin> m_id ` set (db_messages d)" using fresh by auto
  have fields: "m_id ?m = i" "m_op ?m = md_op q" "m_root ?m = root" "m_recipient ?m = md_recipient q"
    by (simp_all add: message_of_def)
  have "talks_ok d'"
    by (rule contiguous_append_talk [OF _ msgs]) (use assms(1) place [OF i] in \<open>simp_all add: mail_ok_def\<close>)
  moreover have "mail_keys_ok d'"
    using assms(1,4) fresh place(4) [OF i] by (auto simp: mail_ok_def mail_keys_ok_def msgs fields)
  moreover have "mail_bounds_ok d'"
    using assms(1,5,6) by (auto simp: mail_ok_def mail_bounds_ok_def pending_mail_def root_mail_def msgs fields)
  ultimately show ?thesis by (simp add: mail_ok_def)
qed

text \<open>The parts of an insert that is no replay.\<close>

lemma insert_messageE:
  assumes "insert_message c q d = Inr ((m, True), d')"
  obtains root d1 d2 d3 i where "find_message_by_op (md_op q) d = None"
    "require_mailbox_receipt c (md_sender q) (md_tool q) (Some (md_op q)) d = Inr ()" "admit_message q d = Inr root"
    "expire_messages (md_recipient q) (x_clock c 1) d = Inr d1"
    "pending_mail (md_recipient q) d1 < max_mailbox_pending" "root_mail root d1 < max_mailbox_per_root"
    "new_id ''agent_message'' d1 = (i, d2)" "m = message_of q root i (x_clock c 1) (x_clock c 2)"
    "insert_message_row m d2 = Inr d3"
    "append_message_event (md_sender q) ''agent.message.sent'' m (x_clock c 1) d3 = Inr d'"
proof -
  have none: "find_message_by_op (md_op q) d = None"
    using assms by (auto simp: insert_message_def split: option.splits if_splits)
  note b = assms [unfolded insert_message_def none option.case]
  obtain root where r: "require_mailbox_receipt c (md_sender q) (md_tool q) (Some (md_op q)) d = Inr ()"
    "admit_message q d = Inr root" using b by (elim bindrE) simp
  obtain d1 where d1: "expire_messages (md_recipient q) (x_clock c 1) d = Inr d1"
    using b by (auto simp: r Let_def bindr_Inr_iff)
  obtain i d2 where i: "new_id ''agent_message'' d1 = (i, d2)" by (cases "new_id ''agent_message'' d1")
  let ?m = "message_of q root i (x_clock c 1) (x_clock c 2)"
  obtain d3 where d3: "insert_message_row ?m d2 = Inr d3"
    "append_message_event (md_sender q) ''agent.message.sent'' ?m (x_clock c 1) d3 = Inr d'" "m = ?m"
    and room: "pending_mail (md_recipient q) d1 < max_mailbox_pending" "root_mail root d1 < max_mailbox_per_root"
    using b by (auto simp: r d1 i Let_def bindr_Inr_iff pending_mail_def root_mail_def split: if_splits)
  show thesis by (rule that [OF none r d1 room i d3(3)]) (use d3 in simp_all)
qed

lemma insert_message_replayE:
  assumes "insert_message c q d = Inr ((m, False), d')"
  shows "d' = d" "find_message_by_op (md_op q) d = Some m" "same_message q m"
  using assms by (auto simp: insert_message_def bindr_Inr_iff Let_def split: option.splits if_splits prod.splits)

lemma insert_message_effect:
  assumes "insert_message c q d = Inr ((m, fresh), d')" "place_ok q d \<or> find_message_by_op (md_op q) d \<noteq> None"
  shows "mail_effect d d'"
proof (cases fresh)
  case False
  then show ?thesis using insert_message_replayE(1) [of c q d m d'] assms(1) by simp
next
  case True
  then obtain root d1 d2 d3 i where a: "find_message_by_op (md_op q) d = None"
    "expire_messages (md_recipient q) (x_clock c 1) d = Inr d1"
    "pending_mail (md_recipient q) d1 < max_mailbox_pending" "root_mail root d1 < max_mailbox_per_root"
    "new_id ''agent_message'' d1 = (i, d2)" "m = message_of q root i (x_clock c 1) (x_clock c 2)"
    "insert_message_row m d2 = Inr d3"
    "append_message_event (md_sender q) ''agent.message.sent'' m (x_clock c 1) d3 = Inr d'"
    using assms(1) by (auto elim: insert_messageE)
  have d2: "db_messages d2 = db_messages d1" "i \<noteq> []" using a(5) by (auto simp: new_id_def)
  have place: "place_ok q d2"
    using place_ok_expired [OF a(2)] assms(2) a(1) d2 by (simp add: place_ok_def next_place_def)
  have d3: "d3 = d2\<lparr>db_messages := db_messages d2 @ [m]\<rparr>"
    using a(7) by (simp add: insert_message_row_def split: if_splits)
  have "mail_effect d1 d2"
    by (rule mail_effect_log) (use a(5) in \<open>auto simp: new_id_def log_effect_def intro: log_grows_same\<close>)
  moreover have "mail_effect d2 d3"
  proof -
    have "messages_evolve d2 d3" by (rule mail.evolves_append) (simp add: d3)
    moreover have "store_effect d2 d3" by (rule store_effect_other) (simp_all add: d3 same_log_def)
    moreover have "mail_ok d2 \<Longrightarrow> mail_ok d3"
      by (rule insert_message_row_ok [OF _ _ place d2(2)])
        (use a(3,4,6,7) d2 in \<open>simp_all add: pending_mail_def root_mail_def\<close>)
    ultimately show ?thesis by (simp add: mail_effect_def)
  qed
  ultimately show ?thesis
    using expire_messages_effect [OF a(2)] mail_effect_log [OF append_message_event_log [OF a(8)]] mail_effect_trans
    by blast
qed

lemma send_effect:
  "send_agent_message c s oper r k t x refs ttl d = Inr ((m, fresh), d') \<Longrightarrow> mail_effect d d'"
  by (auto simp: send_agent_message_def bindr_Inr_iff run_write_transaction_Inr
      intro!: insert_message_effect) (simp add: place_ok_def send_draft_def)

lemma reply_in_effect:
  assumes "reply_in c s oper target b d = Inr ((m, fresh), d')"
  shows "mail_effect d d'"
proof -
  obtain x where x: "find_message target d = Some x" using assms by (auto simp: reply_in_def split: option.splits)
  then have mem: "x \<in> set (db_messages d)" by (auto simp: find_message_def dest: find_SomeD)
  define place where "place = (case find_message_by_op oper d of None \<Rightarrow> next_place (m_correlation x) d
                | Some m \<Rightarrow> (m_sequence m, m_hops m))"
  have i: "insert_message c (reply_draft s oper x b place) d = Inr ((m, fresh), d')" "snd place \<le> max_mailbox_hops"
    using assms by (auto simp: reply_in_def x Let_def place_def split: if_splits)
  show ?thesis
    by (rule insert_message_effect [OF i(1)])
      (use i(2) mem in \<open>auto simp: place_ok_def reply_draft_def place_def split: option.splits\<close>)
qed

lemma reply_effect:
  "reply_agent_message c s oper target k t x refs ttl d = Inr ((m, fresh), d') \<Longrightarrow> mail_effect d d'"
  by (auto simp: reply_agent_message_def bindr_Inr_iff run_write_transaction_Inr intro: reply_in_effect)

text \<open>The mailbox as it is used: its four operations, and everything that leaves it alone.\<close>

inductive mail_op :: "db \<Rightarrow> db \<Rightarrow> bool" where
  send: "send_agent_message c s oper r k t x refs ttl d = Inr ((m, fresh), d') \<Longrightarrow> mail_op d d'"
| reply: "reply_agent_message c s oper target k t x refs ttl d = Inr ((m, fresh), d') \<Longrightarrow> mail_op d d'"
| deliver: "deliver_agent_messages c r d = Inr (ms, d') \<Longrightarrow> mail_op d d'"
| acknowledge: "ack_agent_messages c r ids aop d = Inr (ms, d') \<Longrightarrow> mail_op d d'"
| elsewhere: "db_messages d' = db_messages d \<Longrightarrow> mail_op d d'"

lemma mail_ops_effect:
  assumes "mail_op\<^sup>*\<^sup>* d d'"
  shows "messages_evolve d d' \<and> (mail_ok d \<longrightarrow> mail_ok d')"
  using assms
proof (induction rule: rtranclp_induct)
  case base
  then show ?case by (simp add: mail.evolves_refl)
next
  case (step a b)
  have "messages_evolve a b \<and> (mail_ok a \<longrightarrow> mail_ok b)"
    using step.hyps(2)
  proof cases
    case elsewhere
    then show ?thesis using mail_ok_cong mail.evolves_same by metis
  qed (auto simp: mail_effect_def dest!: send_effect reply_effect deliver_effect ack_effect)
  then show ?case using step.IH mail.evolves_trans by blast
qed

subsection \<open>Properties\<close>

lemma conversation_length:
  assumes "talks_ok d"
  shows "length (conversation c d) \<le> Suc max_mailbox_hops"
proof (cases "conversation c d = []")
  case False
  let ?n = "length (conversation c d)"
  have "conversation c d = [1..<Suc ?n]" using assms by (simp add: talks_ok_def contiguous_def)
  then have "?n \<in> set (conversation c d)" using False by (metis atLeastLessThan_iff length_greater_0_conv lessI set_upt less_eq_Suc_le One_nat_def)
  then obtain m where "m \<in> set (db_messages d)" "m_sequence m = ?n" by (auto simp: conversation_def)
  then show ?thesis using assms by (auto simp: talks_ok_def)
qed simp

lemma message_found:
  assumes "mail_ok d" "m \<in> set (db_messages d)"
  shows "find_message_by_op (m_op m) d = Some m"
  using assms by (auto simp: mail_ok_def mail_keys_ok_def find_message_by_op_def distinct_map intro: find_by_key)

text \<open>A message of the mailbox is there later, with what it says and further on its way.\<close>

lemma message_later:
  assumes "messages_evolve d d'" "m \<in> set (db_messages d)"
  obtains m' where "m' \<in> set (db_messages d')" "message_content m' = message_content m"
    "message_step\<^sup>*\<^sup>* (m_status m) (m_status m')"
proof -
  obtain k where "k < length (db_messages d)" "db_messages d ! k = m" using assms(2) by (auto simp: in_set_conv_nth)
  then show thesis
    using assms(1) that [of "db_messages d' ! k"] by (force simp: messages_evolve_def rows_evolve_def)
qed

lemma same_message_content: "message_content a = message_content b \<Longrightarrow> same_message q a = same_message q b"
  using content_fields [of a b] by (simp add: same_message_def)

lemma insert_message_stored:
  assumes "insert_message c q d = Inr ((m, fresh), d')"
  shows "m \<in> set (db_messages d') \<and> m_op m = md_op q \<and> same_message q m"
proof (cases fresh)
  case False
  then have "insert_message c q d = Inr ((m, False), d')" using assms by simp
  note r = insert_message_replayE [OF this]
  then show ?thesis by (auto simp: find_message_by_op_def dest: find_SomeD)
next
  case True
  then obtain d2 d3 root i where m: "m = message_of q root i (x_clock c 1) (x_clock c 2)"
    and "insert_message_row m d2 = Inr d3"
    and ev: "append_message_event (md_sender q) ''agent.message.sent'' m (x_clock c 1) d3 = Inr d'"
    using assms by (auto elim: insert_messageE)
  then have "m \<in> set (db_messages d3)" by (auto simp: insert_message_row_def split: if_splits)
  then show ?thesis using m message_event_keeps [OF ev]
    by (auto simp: message_of_def same_message_def opt_or_def split: option.splits)
qed

lemma filter_map_idle:
  assumes "\<And>x. q (f x) = q x" "\<And>x. q x \<Longrightarrow> f x = x"
  shows "filter q (map f t) = filter q t"
  using assms by (induction t) auto

lemma delivery_settles:
  assumes "deliver_agent_messages c r d = Inr (ms, d')" "mail_ok d"
  defines "now \<equiv> x_clock c 1"
  shows "db_messages d' = update_where (\<lambda>x. m_recipient x = r \<and> m_status x = ''queued'') (delivered_message now)
      (update_where (overdue r now) expired_message (db_messages d))" "ms = mail_of r ''delivered'' d'"
proof -
  obtain d1 where d1: "expire_messages r now d = Inr d1"
    "foldr_res (deliver_one r now) (mail_of r ''queued'' d1) d1 = Inr d'" and ms: "ms = mail_of r ''delivered'' d'"
    using assms(1) unfolding now_def
    by (auto simp: deliver_agent_messages_def Let_def run_write_transaction_Inr bindr_Inr_iff
        split: option.splits if_splits)
  have "mail_ok d1" using expire_messages_effect [OF d1(1)] assms(2) by (simp add: mail_effect_def)
  then have inj: "inj_on m_id (set (db_messages d1))" by (simp add: mail_ok_def mail_keys_ok_def distinct_map)
  have "db_messages d' = update_where (\<lambda>x. m_recipient x = r \<and> m_status x = ''queued'') (delivered_message now) (db_messages d1)"
    unfolding deliver_each_messages [OF d1(2)] update_where_def
    by (rule map_cong) (auto simp: mail_of_def dest: inj_onD [OF inj])
  then show "db_messages d' = update_where (\<lambda>x. m_recipient x = r \<and> m_status x = ''queued'') (delivered_message now)
      (update_where (overdue r now) expired_message (db_messages d))"
    unfolding expire_messagesE(1) [OF d1(1)] .
  show "ms = mail_of r ''delivered'' d'" by (rule ms)
qed

text \<open>C21: the mailbox stays within its limits. After any sequence of sends, replies, deliveries
  and acknowledgements a run has at most 32 messages waiting, a collaboration at most 512 in all,
  and a conversation is numbered 1, 2, ... without gaps and ends with its ninth message.\<close>

theorem mailbox_stays_bounded:
  assumes "mail_op\<^sup>*\<^sup>* d d'" "mail_ok d"
  shows "pending_mail recipient d' \<le> 32 \<and> root_mail root d' \<le> 512 \<and>
    conversation c d' = [1..<Suc (length (conversation c d'))] \<and> length (conversation c d') \<le> 9"
proof -
  have ok: "mail_ok d'" using mail_ops_effect [OF assms(1)] assms(2) by blast
  then have "length (conversation c d') \<le> Suc max_mailbox_hops" by (intro conversation_length) (simp add: mail_ok_def)
  then show ?thesis
    using ok by (simp add: mail_ok_def mail_bounds_ok_def talks_ok_def contiguous_def
        max_mailbox_pending_def max_mailbox_per_root_def max_mailbox_hops_def)
qed

text \<open>a message is sent once. Repeating a send later, whatever happened to the mailbox in
  between, returns the message of the first time, with its content unchanged and at most further
  along its delivery, and writes nothing; another recipient or content under the same tool
  operation is refused.\<close>

theorem message_is_sent_once:
  assumes "send_agent_message c s oper r k t x refs ttl d = Inr ((m, fresh), d1)" "mail_ok d"
    and "mail_op\<^sup>*\<^sup>* d1 d2" "admitted c' None s d2"
  shows "(\<exists>m'. send_agent_message c' s oper r k t x refs ttl d2 = Inr ((m', False), d2) \<and>
      message_content m' = message_content m \<and> message_step\<^sup>*\<^sup>* (m_status m) (m_status m')) \<and>
    (\<forall>r' k' t' x' refs' ttl' b'. normalize_message_content k' t' x' refs' ttl' = Inr b' \<and>
       (r', Inr b') \<noteq> (r, normalize_message_content k t x refs ttl) \<longrightarrow>
       send_agent_message c' s oper r' k' t' x' refs' ttl' d2 = Inl CommandConflictError)"
proof -
  obtain b where b: "normalize_message_content k t x refs ttl = Inr b"
    and i: "insert_message c (send_draft s oper r b) d = Inr ((m, fresh), d1)"
    using assms(1) by (auto simp: send_agent_message_def bindr_Inr_iff run_write_transaction_Inr)
  have ok: "mail_ok d2" using send_effect [OF assms(1)] mail_ops_effect [OF assms(3)] assms(2) by (simp add: mail_effect_def)
  have m: "m \<in> set (db_messages d1)" "m_op m = oper" "same_message (send_draft s oper r b) m"
    using insert_message_stored [OF i] by (simp_all add: send_draft_def)
  obtain m' where m': "m' \<in> set (db_messages d2)" "message_content m' = message_content m"
    "message_step\<^sup>*\<^sup>* (m_status m) (m_status m')"
    using message_later [OF conjunct1 [OF mail_ops_effect [OF assms(3)]] m(1)] by blast
  have found: "find_message_by_op oper d2 = Some m'"
    using message_found [OF ok m'(1)] content_fields(2) [OF m'(2)] m(2) by simp
  have same: "same_message (send_draft s oper r b) m'" using same_message_content [OF m'(2)] m(3) by simp
  have again: "send_agent_message c' s oper r' k' t' x' refs' ttl' d2 =
      (if same_message (send_draft s oper r' b') m' then Inr ((m', False), d2) else Inl CommandConflictError)"
    if "normalize_message_content k' t' x' refs' ttl' = Inr b'" for r' k' t' x' refs' ttl' b'
    using that assms(4) found by (simp add: send_agent_message_def run_write_transaction_eq insert_message_def send_draft_def)
  have "\<not> same_message (send_draft s oper r' b') m'" if "(r', b') \<noteq> (r, b)" for r' b'
    using same that by (cases b; cases b') (auto simp: same_message_def send_draft_def)
  then show ?thesis using again [OF b] again same m' b by auto
qed

text \<open>delivery is complete. The recipient's worker is handed, oldest first, exactly the
  messages waiting for the run that have not reached their deadline; those that have are expired,
  and the mail of other runs stays as it was.\<close>

theorem delivery_is_complete:
  assumes "deliver_agent_messages c r d = Inr (ms, d')" "mail_ok d"
  shows "(\<forall>m\<in>set (db_messages d). m_recipient m = r \<and> open_message m \<longrightarrow>
      (\<exists>m'\<in>set (db_messages d'). message_content m' = message_content m \<and>
        (if m_deadline m \<le> x_clock c 1 then m_status m' = ''expired'' else m_status m' = ''delivered'' \<and> m' \<in> set ms))) \<and>
    (\<forall>m\<in>set ms. m_recipient m = r \<and> m_status m = ''delivered'' \<and> x_clock c 1 < m_deadline m) \<and>
    sorted (map mail_order ms) \<and>
    filter (\<lambda>m. m_recipient m \<noteq> r) (db_messages d') = filter (\<lambda>m. m_recipient m \<noteq> r) (db_messages d)"
proof (intro conjI ballI impI)
  define now where "now = x_clock c 1"
  define f where "f = (\<lambda>m. if overdue r now m then expired_message m
     else if m_recipient m = r \<and> m_status m = ''queued'' then delivered_message now m else m)"
  note s = delivery_settles [OF assms, folded now_def]
  have msgs: "db_messages d' = map f (db_messages d)"
    unfolding s(1) update_where_def map_map by (rule map_cong) (auto simp: f_def)
  have ms: "set ms = {m \<in> set (db_messages d'). m_recipient m = r \<and> m_status m = ''delivered''}"
    unfolding s(2) by (simp add: mail_of_def)
  have keep: "message_content (f m) = message_content m" for m by (simp add: f_def)
  show "\<exists>m'\<in>set (db_messages d'). message_content m' = message_content m \<and>
      (if m_deadline m \<le> x_clock c 1 then m_status m' = ''expired'' else m_status m' = ''delivered'' \<and> m' \<in> set ms)"
    if "m \<in> set (db_messages d)" "m_recipient m = r \<and> open_message m" for m
    using that by (intro bexI [of _ "f m"])
      (auto simp: keep ms msgs f_def overdue_def open_message_def now_def)
  show "sorted (map mail_order ms)" unfolding s(2) mail_of_def by (rule sorted_select_by)
  show "filter (\<lambda>m. m_recipient m \<noteq> r) (db_messages d') = filter (\<lambda>m. m_recipient m \<noteq> r) (db_messages d)"
    unfolding msgs by (rule filter_map_idle) (auto simp: f_def overdue_def)
  fix m assume "m \<in> set ms"
  then obtain x where x: "x \<in> set (db_messages d)" "m = f x" "m_recipient m = r" "m_status m = ''delivered''"
    by (auto simp: ms msgs)
  then show "m_recipient m = r" "m_status m = ''delivered''" by simp_all
  show "x_clock c 1 < m_deadline m"
    using x content_fields(5,15) [OF keep, of x]
    by (auto simp: f_def overdue_def open_message_def now_def not_le split: if_splits)
qed

text \<open>A collaboration with one message on its way, for the witnesses.\<close>

definition mail_db :: db where
  "mail_db = demo_db\<lparr>db_runs := db_runs demo_db @
       [(blank_run ''run_2'' RunRunning)\<lparr>r_kind := KindChild, r_root := Some ''run_1'', r_parent := Some ''run_1'', r_depth := 1\<rparr>],
     db_jobs := db_jobs demo_db @ [leased_job ''job_2'' ''run_2''],
     db_receipts := [(blank_receipt ''op_1'' ''run_1'' ''mailbox.send'' ToolRunning)]\<rparr>"

definition child_ctx :: ctx where
  "child_ctx = \<lparr>x_lease = Some \<lparr>l_job = ''job_2'', l_run = ''run_2'', l_owner = ''w'', l_gen = 1\<rparr>, x_clock = (\<lambda>k. 20 + k)\<rparr>"

definition send_demo :: "((message_row \<times> bool) \<times> db) res" where
  "send_demo = send_agent_message demo_ctx ''run_1'' ''op_1'' ''run_2'' '' Question '' ''How far?'' [] [] 600 mail_db"

lemma mail_db_ok: "mail_ok mail_db"
  by (simp add: mail_ok_def mail_keys_ok_def mail_bounds_ok_def talks_ok_def pending_mail_def root_mail_def
      conversation_def mail_db_def demo_db_def empty_db_def)


definition demo_body :: message_body where
  "demo_body = \<lparr>mb_kind = ''question'', mb_text = ''How far?'', mb_data = JObj [], mb_refs = [], mb_ttl = 600\<rparr>"

lemma send_demo_steps:
  "normalize_message_content '' Question '' ''How far?'' [] [] 600 = Inr demo_body"
  "admitted demo_ctx None ''run_1'' mail_db"
  "require_mailbox_receipt demo_ctx ''run_1'' ''mailbox.send'' (Some ''op_1'') mail_db = Inr ()"
  "admit_message (send_draft ''run_1'' ''op_1'' ''run_2'' demo_body) mail_db = Inr ''run_1''"
  by code_simp+


definition demo_message :: message_row where
  "demo_message = message_of (send_draft ''run_1'' ''op_1'' ''run_2'' demo_body) ''run_1'' ''agent_message_0'' 11 12"

definition mailed_db :: db where
  "mailed_db = mail_db\<lparr>db_messages := [demo_message], db_uuid_next := 1\<rparr>"

lemma mailed_db_log:
  obtains d1 where "append_message_event ''run_1'' ''agent.message.sent'' m 11 mailed_db = Inr d1"
    "without_log d1 = without_log mailed_db"
proof -
  have "returns (append_message_event ''run_1'' ''agent.message.sent'' m 11 mailed_db) (\<lambda>_. True)"
    by (simp add: append_message_event_def append_event_uncommitted_def append_event_row_def child_event_of_def
        touch_thread_for_run_event_def run_projection_def find_thread_def new_id_def get_run_row_def Let_def
        mailed_db_def mail_db_def demo_db_def empty_db_def blank_run_def)
  then show thesis using append_message_event_log that by (elim returnsE) (auto simp: log_effect_def)
qed

lemma send_demo_runs:
  obtains d1 where "send_demo = Inr ((demo_message, True), d1)" "without_log d1 = without_log mailed_db"
proof -
  have zero: "nat_str 0 = ''0''" by code_simp
  have more: "find_message_by_op ''op_1'' mail_db = None" "expire_messages ''run_2'' 11 mail_db = Inr mail_db"
    "db_messages mail_db = []" "new_id ''agent_message'' mail_db = (''agent_message_0'', mail_db\<lparr>db_uuid_next := 1\<rparr>)"
    by (simp_all add: find_message_by_op_def expire_messages_def select_by_def mail_db_def demo_db_def empty_db_def
        new_id_def zero)
  have row: "insert_message_row demo_message (mail_db\<lparr>db_uuid_next := 1\<rparr>) = Inr mailed_db"
    by (simp add: insert_message_row_def message_clash_def demo_message_def message_of_def send_draft_def demo_body_def
        message_kinds_def get_run_row_def get_receipt_row_def mail_db_def demo_db_def empty_db_def blank_run_def
        blank_receipt_def mailed_db_def)
  obtain d1 where d1: "append_message_event ''run_1'' ''agent.message.sent'' demo_message 11 mailed_db = Inr d1"
    "without_log d1 = without_log mailed_db" by (rule mailed_db_log)
  have "insert_message demo_ctx (send_draft ''run_1'' ''op_1'' ''run_2'' demo_body) mail_db = Inr ((demo_message, True), d1)"
    using send_demo_steps(3,4) more row d1(1)
    by (simp add: insert_message_def send_draft_def demo_ctx_def max_mailbox_pending_def max_mailbox_per_root_def
        demo_message_def)
  then have "send_demo = Inr ((demo_message, True), d1)"
    using send_demo_steps(1,2) by (simp add: send_demo_def send_agent_message_def run_write_transaction_eq)
  then show thesis using d1(2) by (rule that)
qed


definition inbox_message :: "id \<Rightarrow> time \<Rightarrow> message_row" where
  "inbox_message i deadline =
     \<lparr>m_id = i, m_root = ''run_1'', m_sender = ''run_1'', m_recipient = ''run_2'', m_op = i, m_kind = ''update'',
      m_text = ''go'', m_data = JObj [], m_refs = [], m_correlation = i, m_reply_to = None, m_sequence = 1,
      m_hops = 0, m_status = ''queued'', m_ttl = 60, m_deadline = deadline, m_created = 2,
      m_delivered = None, m_acknowledged = None\<rparr>"

definition inbox_db :: db where
  "inbox_db = mail_db\<lparr>db_messages := [inbox_message ''m_1'' 15, inbox_message ''m_2'' 40]\<rparr>"

lemma inbox_db_ok: "mail_ok inbox_db"
proof -
  have "conversation c inbox_db = (if c = ''m_1'' \<or> c = ''m_2'' then [1] else [])" for c
    by (simp add: conversation_def inbox_db_def inbox_message_def)
  then show ?thesis
    by (simp add: mail_ok_def mail_keys_ok_def mail_bounds_ok_def talks_ok_def contiguous_def pending_mail_def root_mail_def
        inbox_db_def inbox_message_def max_mailbox_pending_def max_mailbox_per_root_def)
qed

lemma inbox_runs: "returns (deliver_agent_messages child_ctx ''run_2'' inbox_db) (\<lambda>(ms, d'). map m_id ms = [''m_2''])"
  by code_simp

text \<open>The witnesses of the three properties.\<close>

theorem mailbox_stays_bounded_witness:
  "\<exists>d1. send_demo = Inr ((demo_message, True), d1) \<and> length (conversation ''agent_message_0'' d1) \<le> 9"
proof -
  obtain d1 where r: "send_demo = Inr ((demo_message, True), d1)" by (rule send_demo_runs)
  have "mail_op\<^sup>*\<^sup>* mail_db d1"
    by (rule r_into_rtranclp, rule mail_op.send, rule r [unfolded send_demo_def])
  then have "length (conversation ''agent_message_0'' d1) \<le> 9"
    using mailbox_stays_bounded [OF _ mail_db_ok] by blast
  then show ?thesis using r by blast
qed

theorem message_is_sent_once_witness:
  "\<exists>d1. send_demo = Inr ((demo_message, True), d1) \<and>
    send_agent_message demo_ctx ''run_1'' ''op_1'' ''run_2'' ''question'' ''stop'' [] [] 600 d1 = Inl CommandConflictError"
proof -
  obtain d1 where r: "send_demo = Inr ((demo_message, True), d1)" and l: "without_log d1 = without_log mailed_db"
    by (rule send_demo_runs)
  have a: "admitted demo_ctx None ''run_1'' d1"
    using send_demo_steps(2) without_log_frame(2) [OF l]
    by (simp add: admitted_def active_lease_def demo_ctx_def fence_open_def mailed_db_def)
  have n: "normalize_message_content ''question'' ''stop'' [] [] 600 = Inr (demo_body\<lparr>mb_text := ''stop''\<rparr>)" by code_simp
  show ?thesis
    by (rule exI [of _ d1])
      (use message_is_sent_once [OF r [unfolded send_demo_def] mail_db_ok rtranclp.rtrancl_refl a, THEN conjunct2,
        rule_format, OF conjI [OF n], of "''run_2''"] send_demo_steps(1) r in \<open>simp add: demo_body_def\<close>)
qed

theorem delivery_is_complete_witness:
  "\<exists>ms d2. deliver_agent_messages child_ctx ''run_2'' inbox_db = Inr (ms, d2) \<and> map m_id ms = [''m_2''] \<and>
    (\<exists>m'\<in>set (db_messages d2). m_id m' = ''m_1'' \<and> m_status m' = ''expired'')"
proof -
  obtain y where y: "deliver_agent_messages child_ctx ''run_2'' inbox_db = Inr y"
    "case y of (ms, d') \<Rightarrow> map m_id ms = [''m_2'']" by (rule returnsE [OF inbox_runs])
  obtain ms d2 where "y = (ms, d2)" by (cases y)
  note d = y [unfolded this case_prod_conv]
  have m: "inbox_message ''m_1'' 15 \<in> set (db_messages inbox_db)"
    "m_recipient (inbox_message ''m_1'' 15) = ''run_2'' \<and> open_message (inbox_message ''m_1'' 15)"
    by (simp_all add: inbox_db_def inbox_message_def open_message_def)
  obtain m' where m': "m' \<in> set (db_messages d2)" "message_content m' = message_content (inbox_message ''m_1'' 15)"
      "m_status m' = ''expired''"
    using bspec [OF delivery_is_complete [OF d(1) inbox_db_ok, THEN conjunct1] m(1), rule_format, OF m(2)]
    by (elim bexE conjE) (simp add: inbox_message_def child_ctx_def)
  have "m_id m' = ''m_1''" using content_fields(1) [OF m'(2)] by (simp add: inbox_message_def)
  then have "\<exists>m'\<in>set (db_messages d2). m_id m' = ''m_1'' \<and> m_status m' = ''expired''" using m' by blast
  then show ?thesis by (intro exI [of _ ms] exI [of _ d2] conjI d)
qed

end
