(* ===== verification/Collaboration.thy ===== *)
theory Collaboration
  imports Wait_Commands Agent_Messages
begin

text \<open>
  Durable child runs (store/collaboration): the coordination and the agent definition a child is
  admitted with, its admission in one transaction with its dependencies, resource claims, inputs
  and job, and the projections of a collaboration. \<open>resolve\<close> stands for
  \<open>Path(...).resolve(strict=False)\<close>: the components of the absolute path a text names. Shown: the
  limits on depth and children, one owner per claimed resource, dependencies that only go back to
  older siblings, and replay by the spawning tool call.
\<close>

subsection \<open>Resource keys (projection.py)\<close>

definition posix_path :: "string list \<Rightarrow> string" where
  "posix_path comps = CHR ''/'' # join_with ''/'' comps"

text \<open>\<open>workspace / raw\<close> for a relative \<open>raw\<close>.\<close>

definition below_path :: "string list \<Rightarrow> string \<Rightarrow> string" where
  "below_path comps raw = (if comps = [] then ''/'' else posix_path comps @ ''/'') @ raw"

definition is_slash :: "char \<Rightarrow> bool" where
  "is_slash c \<longleftrightarrow> c = CHR ''/'' \<or> c = CHR 0x5C"

definition relative_to :: "string list \<Rightarrow> string list \<Rightarrow> string list option" where
  "relative_to base p = (if take (length base) p = base then Some (drop (length base) p) else None)"

definition resolve_resource :: "(string \<Rightarrow> string list) \<Rightarrow> string list \<Rightarrow> string \<Rightarrow> string list" where
  "resolve_resource resolve ws raw =
    (if starts_with ''/'' raw
     then (if relative_to ws (resolve raw) \<noteq> None then resolve raw
           else resolve (below_path ws (dropWhile is_slash raw)))
     else resolve (below_path ws raw))"

definition normalize_resource_key :: "(string \<Rightarrow> string list) \<Rightarrow> string option \<Rightarrow> string \<Rightarrow> string res" where
  "normalize_resource_key resolve workspace requested =
    (if opt_or workspace [] = [] then Inl (RunAdmissionError ''child_resource_workspace_required'')
     else (let raw = py_strip requested; ws = resolve (opt_or workspace [])
       in if raw = [] \<or> CHR 0x00 \<in> set raw then Inl PyValueError
          else (case relative_to ws (resolve_resource resolve ws raw) of
                  None \<Rightarrow> Inl (RunAdmissionError ''child_resource_outside_workspace'')
                | Some comps \<Rightarrow>
                   (let key = join_with ''/'' comps
                    in if key = [] \<or> key = ''.'' then Inl PyValueError
                       else if 4096 < int (utf8_length key) then Inl PyValueError
                       else Inr key))))"

subsection \<open>What a child is admitted with\<close>

definition max_child_depth :: int where
  "max_child_depth = 1"

definition max_children :: nat where
  "max_children = 8"

definition max_child_dependencies :: nat where
  "max_child_dependencies = max_children - 1"

definition max_child_claims :: nat where
  "max_child_claims = 16"

record coordination =
  kc_mode :: completion_mode
  kc_depends :: "id list"
  kc_claims :: "string list"
  kc_group :: "string option"
  kc_required :: "int option"

fun completion_mode_of :: "string \<Rightarrow> completion_mode option" where
  "completion_mode_of s = (if s = ''required'' then Some ModeRequired
     else if s = ''best_effort'' then Some ModeBestEffort
     else if s = ''quorum'' then Some ModeQuorum else None)"

fun completion_mode_text :: "completion_mode \<Rightarrow> string" where
  "completion_mode_text ModeRequired = ''required''"
| "completion_mode_text ModeBestEffort = ''best_effort''"
| "completion_mode_text ModeQuorum = ''quorum''"

text \<open>The entries of a list field; a value that is no list is refused.\<close>

definition list_field :: "json \<Rightarrow> json list res" where
  "list_field v = (case py_or v (JList []) of JList xs \<Rightarrow> Inr xs | _ \<Rightarrow> Inl PyValueError)"

fun each_res :: "('a \<Rightarrow> 'b res) \<Rightarrow> 'a list \<Rightarrow> 'b list res" where
  "each_res f [] = Inr []"
| "each_res f (x # xs) = bindr (f x) (\<lambda>y. bindr (each_res f xs) (\<lambda>ys. Inr (y # ys)))"

definition child_dependencies_field :: "dict \<Rightarrow> id list res" where
  "child_dependencies_field raw =
    bindr (list_field (dget raw ''depends_on'')) (\<lambda>xs.
    (let ds = map (\<lambda>x. py_strip (py_str x)) xs
     in if max_child_dependencies < length ds \<or> \<not> distinct ds \<or> list_ex (\<lambda>i. i = [] \<or> 128 < length i) ds
        then Inl PyValueError else Inr ds))"

definition child_claims_field :: "(string \<Rightarrow> string list) \<Rightarrow> string option \<Rightarrow> dict \<Rightarrow> string list res" where
  "child_claims_field resolve workspace raw =
    bindr (list_field (dget raw ''resource_claims'')) (\<lambda>xs.
    bindr (each_res (\<lambda>x. normalize_resource_key resolve workspace (py_str x)) xs) (\<lambda>ks.
    if max_child_claims < length ks \<or> \<not> distinct ks then Inl PyValueError else Inr ks))"

definition child_quorum_fields :: "completion_mode \<Rightarrow> dict \<Rightarrow> (string option \<times> int option) res" where
  "child_quorum_fields mode raw =
    (let group = dget raw ''quorum_group''; needed = dget raw ''quorum_required''
     in if mode = ModeQuorum then
          (let g = py_strip (text_or group [])
           in if g = [] \<or> 128 < length g then Inl PyValueError
              else (case needed of
                      JInt n \<Rightarrow> if 1 \<le> n \<and> n \<le> int max_children then Inr (Some g, Some n) else Inl PyValueError
                    | _ \<Rightarrow> Inl PyValueError))
        else if group \<noteq> JNull \<or> needed \<noteq> JNull then Inl PyValueError
        else Inr (None, None))"

definition coordination_keys :: "string list" where
  "coordination_keys = [''completion_mode'', ''depends_on'', ''resource_claims'', ''quorum_group'', ''quorum_required'']"

definition normalize_child_coordination ::
    "(string \<Rightarrow> string list) \<Rightarrow> dict option \<Rightarrow> string option \<Rightarrow> coordination res" where
  "normalize_child_coordination resolve coord workspace =
    (let raw = (case coord of None \<Rightarrow> [] | Some d \<Rightarrow> d)
     in if \<not> fst ` set raw \<subseteq> set coordination_keys then Inl PyValueError
        else (case completion_mode_of (py_strip (text_or (dget raw ''completion_mode'') ''required'')) of
                None \<Rightarrow> Inl PyValueError
              | Some mode \<Rightarrow>
                  bindr (child_dependencies_field raw) (\<lambda>ds.
                  bindr (child_claims_field resolve workspace raw) (\<lambda>ks.
                  bindr (child_quorum_fields mode raw) (\<lambda>(g, n).
                  Inr \<lparr>kc_mode = mode, kc_depends = ds, kc_claims = ks, kc_group = g, kc_required = n\<rparr>)))))"

definition coordination_dict :: "coordination \<Rightarrow> dict" where
  "coordination_dict k =
     [(''completion_mode'', JStr (completion_mode_text (kc_mode k))),
      (''depends_on'', JList (map JStr (kc_depends k))), (''resource_claims'', JList (map JStr (kc_claims k))),
      (''quorum_group'', json_opt (kc_group k)),
      (''quorum_required'', (case kc_required k of None \<Rightarrow> JNull | Some n \<Rightarrow> JInt n))]"

definition definition_limits :: "(string \<times> int) list" where
  "definition_limits = [(''id'', 128), (''version'', 128), (''name'', 64), (''description'', 4096),
     (''system_prompt'', 32 * 1024)]"

fun trimmed_field :: "int \<Rightarrow> json \<Rightarrow> string res" where
  "trimmed_field maximum (JStr s) = (if py_strip s = [] \<or> maximum < int (length s) then Inl PyValueError else Inr (py_strip s))"
| "trimmed_field maximum _ = Inl PyValueError"

fun tool_names :: "json \<Rightarrow> string list res" where
  "tool_names (JList xs) =
     (if 128 < length xs \<or> \<not> list_all is_str xs \<or> list_ex (\<lambda>x. str_of x = [] \<or> 128 < length (str_of x)) xs
      then Inl PyValueError else Inr (map str_of xs))"
| "tool_names _ = Inl PyValueError"

definition normalize_child_agent_definition :: "dict \<Rightarrow> dict res" where
  "normalize_child_agent_definition value =
    (if fst ` set value \<noteq> set (''allowed_tools'' # map fst definition_limits) then Inl PyValueError
     else bindr (each_res (\<lambda>(k, maximum). bindr (trimmed_field maximum (dget value k)) (\<lambda>s. Inr (k, JStr s))) definition_limits)
       (\<lambda>fields. bindr (tool_names (dget value ''allowed_tools'')) (\<lambda>tools.
       (let normalized = fields @ [(''allowed_tools'', JList (map JStr (sort (remdups tools))))]
        in if 64 * 1024 < int (utf8_length (json_dumps '','' '':'' (encode_payload (JObj normalized))))
           then Inl PyValueError else Inr normalized))))"

subsection \<open>Admission\<close>

definition child_policy :: "coordination \<Rightarrow> dict" where
  "child_policy k = dmerge [(''max_depth'', JInt max_child_depth), (''max_children'', JInt (int max_children))] (coordination_dict k)"

definition find_spawned :: "id \<Rightarrow> db \<Rightarrow> run_row option" where
  "find_spawned oper d = find (\<lambda>r. r_spawn_op r = Some oper) (db_runs d)"

text \<open>What a repeated spawn is compared by.\<close>

definition same_child :: "id \<Rightarrow> string \<Rightarrow> dict \<Rightarrow> coordination \<Rightarrow> run_row \<Rightarrow> bool" where
  "same_child parent goal agent k r \<longleftrightarrow>
     r_kind r = KindChild \<and> r_parent r = Some parent \<and> r_goal r = goal \<and>
     r_agent_id r = str_of (dget agent ''id'') \<and> r_agent_version r = str_of (dget agent ''version'') \<and>
     encode_payload (py_or (dget (json_payload (Some (r_metadata r))) ''_child_agent_definition'') (JObj [])) =
       encode_payload (JObj agent) \<and>
     encode_payload (JObj (json_payload (Some (r_policy r)))) = encode_payload (JObj (child_policy k))"

definition require_spawn_receipt :: "ctx \<Rightarrow> id \<Rightarrow> id \<Rightarrow> db \<Rightarrow> unit res" where
  "require_spawn_receipt c parent oper d =
    (case receipt_in_run d oper parent of
       None \<Rightarrow> Inl ToolReceiptStateError
     | Some t \<Rightarrow>
        if t_name t \<noteq> ''child.spawn'' \<or> t_status t \<noteq> ToolRunning then Inl ToolReceiptStateError
        else (case x_lease c of
                None \<Rightarrow> Inl LeaseFenceError
              | Some l \<Rightarrow> if t_attempt t \<noteq> attempt_id (l_job l) (l_gen l) then Inl LeaseFenceError else Inr ()))"

definition child_of :: "id \<Rightarrow> run_row \<Rightarrow> bool" where
  "child_of parent r \<longleftrightarrow> r_parent r = Some parent \<and> r_kind r = KindChild"

text \<open>\<open>LIMIT 1\<close> without an order: the oldest row, which in a consistent group says what all say.\<close>

definition quorum_conflict :: "id \<Rightarrow> coordination \<Rightarrow> db \<Rightarrow> bool" where
  "quorum_conflict parent k d =
    (case kc_group k of
       None \<Rightarrow> False
     | Some g \<Rightarrow>
        (case find (\<lambda>x. co_parent x = parent \<and> co_mode x = ModeQuorum \<and> co_group x = Some g) (db_coords d) of
           None \<Rightarrow> False
         | Some x \<Rightarrow> co_required x \<noteq> kc_required k))"

definition admit_child :: "run_row \<Rightarrow> coordination \<Rightarrow> db \<Rightarrow> id res" where
  "admit_child p k d =
    (let root = opt_or (r_root p) (r_id p)
     in if r_status p \<noteq> RunRunning then Inl (RunAdmissionError ''child_parent_not_running'')
        else if max_child_depth < r_depth p + 1 then Inl (RunAdmissionError ''child_depth_exceeded'')
        else if max_children \<le> count_where (child_of (r_id p)) (db_runs d)
          then Inl (RunAdmissionError ''child_fanout_exceeded'')
        else if list_ex (\<lambda>i. \<not> list_ex (\<lambda>r. child_of (r_id p) r \<and> r_id r = i) (db_runs d)) (kc_depends k)
          then Inl (RunAdmissionError ''child_dependency_invalid'')
        else if quorum_conflict (r_id p) k d then Inl (RunAdmissionError ''child_quorum_conflict'')
        else if list_ex (\<lambda>key. list_ex (\<lambda>x. cl_root x = root \<and> cl_key x = key) (db_claims d)) (kc_claims k)
          then Inl (RunAdmissionError ''child_resource_already_owned'')
        else Inr root)"

text \<open>\<open>d.pop(k, None)\<close>\<close>

definition dpop :: "string \<Rightarrow> dict \<Rightarrow> dict" where
  "dpop k d = filter (\<lambda>x. fst x \<noteq> k) d"

definition child_request :: "run_row \<Rightarrow> id \<Rightarrow> id \<Rightarrow> string \<Rightarrow> dict \<Rightarrow> coordination \<Rightarrow> dict option \<Rightarrow> run_request" where
  "child_request p root oper goal agent k policy =
    (let attachments = dget (json_payload (Some (r_metadata p))) ''_attachments'';
         metadata = [(''_child_agent_definition'', JObj agent), (''_spawn_operation_id'', JStr oper)];
         settings = dpop ''_execution_policy'' (json_payload (Some (r_settings p)))
     in \<lparr>nr_principal = r_principal p, nr_goal = goal, nr_workspace = r_workspace p, nr_parent = Some (r_id p),
         nr_settings = (case policy of None \<Rightarrow> settings | Some x \<Rightarrow> dset ''_execution_policy'' (JObj x) settings),
         nr_metadata = (case attachments of JList xs \<Rightarrow> metadata @ [(''_attachments'', JList xs)] | _ \<Rightarrow> metadata),
         nr_mode = r_mode p, nr_history = [], nr_graph_thread = None, nr_checkpoint = None, nr_definition = None,
         nr_input_kind = ''new'', nr_thread = None, nr_item = None, nr_user_input = None,
         nr_kind = Some ''child'', nr_root = Some root, nr_agent_id = str_of (dget agent ''id''),
         nr_agent_version = str_of (dget agent ''version''), nr_depth = r_depth p + 1,
         nr_policy = child_policy k, nr_spawn_op = Some oper\<rparr>)"

definition insert_coordination :: "run_row \<Rightarrow> id \<Rightarrow> id \<Rightarrow> coordination \<Rightarrow> db \<Rightarrow> db res" where
  "insert_coordination child root parent k d =
    (if list_ex (\<lambda>x. co_child x = r_id child) (db_coords d) \<or> get_run_row d root = None then Inl SqlIntegrityError
     else Inr (d\<lparr>db_coords := db_coords d @ [\<lparr>co_child = r_id child, co_root = root, co_parent = parent,
            co_mode = kc_mode k, co_group = kc_group k, co_required = kc_required k, co_created = r_created child\<rparr>]\<rparr>))"

definition insert_dependency :: "run_row \<Rightarrow> id \<Rightarrow> db \<Rightarrow> db res" where
  "insert_dependency child on d =
    (if on = r_id child \<or> list_ex (\<lambda>x. dp_child x = r_id child \<and> dp_on x = on) (db_deps d) \<or> get_run_row d on = None
     then Inl SqlIntegrityError
     else Inr (d\<lparr>db_deps := db_deps d @ [\<lparr>dp_child = r_id child, dp_on = on, dp_created = r_created child\<rparr>]\<rparr>))"

definition insert_claim :: "run_row \<Rightarrow> id \<Rightarrow> string \<Rightarrow> db \<Rightarrow> db res" where
  "insert_claim child root key d =
    (if list_ex (\<lambda>x. cl_root x = root \<and> cl_key x = key) (db_claims d) then Inl SqlIntegrityError
     else Inr (d\<lparr>db_claims := db_claims d @ [\<lparr>cl_root = root, cl_key = key, cl_owner = r_id child, cl_created = r_created child\<rparr>]\<rparr>))"

text \<open>The inputs and plugin bindings of the parent are copied to the child.\<close>

definition inherit_inputs :: "id \<Rightarrow> id \<Rightarrow> db \<Rightarrow> db res" where
  "inherit_inputs child parent d =
    (if list_ex (\<lambda>x. in_run x = child) (db_inputs d) \<and> list_ex (\<lambda>x. in_run x = parent) (db_inputs d) then Inl SqlIntegrityError
     else Inr (d\<lparr>db_inputs := db_inputs d @ map (\<lambda>x. x\<lparr>in_run := child\<rparr>) (filter (\<lambda>x. in_run x = parent) (db_inputs d))\<rparr>))"

definition inherit_bindings :: "id \<Rightarrow> id \<Rightarrow> db \<Rightarrow> db res" where
  "inherit_bindings child parent d =
    (if list_ex (\<lambda>x. b_run x = child) (db_bindings d) \<and> list_ex (\<lambda>x. b_run x = parent) (db_bindings d) then Inl SqlIntegrityError
     else Inr (d\<lparr>db_bindings := db_bindings d @ map (\<lambda>x. x\<lparr>b_run := child\<rparr>) (filter (\<lambda>x. b_run x = parent) (db_bindings d))\<rparr>))"

definition spawned_payload :: "run_row \<Rightarrow> id \<Rightarrow> id \<Rightarrow> coordination \<Rightarrow> dict" where
  "spawned_payload child parent oper k =
    dmerge (dmerge
     [(''child_run_id'', JStr (r_id child)), (''parent_run_id'', JStr parent),
      (''root_run_id'', JStr (opt_or (r_root child) (r_id child))), (''agent_definition_id'', JStr (r_agent_id child)),
      (''agent_definition_version'', JStr (r_agent_version child)), (''collaboration_depth'', JInt (r_depth child)),
      (''goal'', JStr (r_goal child)), (''status'', JStr ''queued''), (''spawn_operation_id'', JStr oper)]
     (coordination_dict k))
     [(''created_at'', json_time (r_created child)), (''updated_at'', json_time (r_updated child))]"

text \<open>The rows of a new child besides its run: coordination, dependencies, claims, what it inherits, its job.\<close>

definition insert_child_rows :: "run_row \<Rightarrow> id \<Rightarrow> id \<Rightarrow> coordination \<Rightarrow> time \<Rightarrow> db \<Rightarrow> db res" where
  "insert_child_rows child root parent k now d =
    bindr (insert_coordination child root parent k d) (\<lambda>d1.
    bindr (foldr_res (insert_dependency child) (kc_depends k) d1) (\<lambda>d2.
    bindr (foldr_res (insert_claim child root) (kc_claims k) d2) (\<lambda>d3.
    bindr (inherit_inputs (r_id child) parent d3) (\<lambda>d4.
    bindr (inherit_bindings (r_id child) parent d4) (\<lambda>d5.
    (let (j, d6) = new_run_job_record (r_id child) ''start'' (run_job_input child) None now d5
     in insert_run_job j d6))))))"

definition spawn_child ::
    "ctx \<Rightarrow> run_row \<Rightarrow> id \<Rightarrow> id \<Rightarrow> string \<Rightarrow> dict \<Rightarrow> coordination \<Rightarrow> dict option \<Rightarrow> db \<Rightarrow>
      ((run_row \<times> event_row) \<times> db) res" where
  "spawn_child c p root oper goal agent k policy d =
    bindr (new_run_record (x_clock c 1) (x_clock c 2) (child_request p root oper goal agent k policy) d) (\<lambda>(child, d1).
    bindr (insert_run child d1) (\<lambda>d2.
    bindr (insert_child_rows child root (r_id p) k (x_clock c 3) d2) (\<lambda>d3.
    bindr (append_event_uncommitted (r_id p) ''child.spawned''
             (encode_payload (JObj (spawned_payload child (r_id p) oper k))) (r_created child) d3) (\<lambda>(e, _, d4).
    bindr (touch_thread_for_run_event (r_id p) ''child.spawned'' (e_seq e) (r_created child) d4) (\<lambda>d5.
    Inr ((child, e), d5))))))"

text \<open>\<open>accept_child_run\<close>: the child with the event that announced it, unless it was there before.\<close>

definition accept_child_run ::
    "ctx \<Rightarrow> (string \<Rightarrow> string list) \<Rightarrow> id \<Rightarrow> id \<Rightarrow> string \<Rightarrow> dict \<Rightarrow> dict option \<Rightarrow> dict option \<Rightarrow> db \<Rightarrow>
      ((run_row \<times> event_row option) \<times> db) res" where
  "accept_child_run c resolve parent oper goal agent coord policy d =
    (let g = py_strip goal
     in if g = [] \<or> 32 * 1024 < int (length g) then Inl PyValueError
        else bindr (normalize_child_agent_definition agent) (\<lambda>a.
          run_write_transaction c None parent d (\<lambda>d.
          (case get_run_row d parent of
             None \<Rightarrow> Inl PyKeyError
           | Some p \<Rightarrow>
              bindr (normalize_child_coordination resolve coord (r_workspace p)) (\<lambda>k.
              (case find_spawned oper d of
                 Some r \<Rightarrow> if \<not> same_child parent g a k r then Inl CommandConflictError else Inr ((r, None), d)
               | None \<Rightarrow>
                  bindr (require_spawn_receipt c parent oper d) (\<lambda>_.
                  bindr (admit_child p k d) (\<lambda>root.
                  bindr (spawn_child c p root oper g a k policy d) (\<lambda>((r, e), d'). Inr ((r, Some e), d'))))))))))"

subsection \<open>What a spawn writes\<close>

definition dependency_of :: "run_row \<Rightarrow> id \<Rightarrow> dependency_row" where
  "dependency_of child on = \<lparr>dp_child = r_id child, dp_on = on, dp_created = r_created child\<rparr>"

definition claim_of :: "run_row \<Rightarrow> id \<Rightarrow> string \<Rightarrow> claim_row" where
  "claim_of child root key = \<lparr>cl_root = root, cl_key = key, cl_owner = r_id child, cl_created = r_created child\<rparr>"

definition coordination_of :: "run_row \<Rightarrow> id \<Rightarrow> id \<Rightarrow> coordination \<Rightarrow> coordination_row" where
  "coordination_of child root parent k = \<lparr>co_child = r_id child, co_root = root, co_parent = parent,
     co_mode = kc_mode k, co_group = kc_group k, co_required = kc_required k, co_created = r_created child\<rparr>"

definition claim_key :: "claim_row \<Rightarrow> id \<times> string" where
  "claim_key x = (cl_root x, cl_key x)"

lemma insert_dependencies:
  "foldr_res (insert_dependency child) ds d = Inr d' \<Longrightarrow>
    d' = d\<lparr>db_deps := db_deps d @ map (dependency_of child) ds\<rparr> \<and> r_id child \<notin> set ds"
proof (induction ds arbitrary: d)
  case (Cons i ds)
  then obtain d1 where d1: "insert_dependency child i d = Inr d1" "foldr_res (insert_dependency child) ds d1 = Inr d'"
    by (auto simp: bindr_Inr_iff)
  then show ?case using Cons.IH [OF d1(2)] by (auto simp: insert_dependency_def dependency_of_def split: if_splits)
qed simp

lemma insert_claims:
  "foldr_res (insert_claim child root) ks d = Inr d' \<Longrightarrow>
    d' = d\<lparr>db_claims := db_claims d @ map (claim_of child root) ks\<rparr> \<and>
    (distinct (map claim_key (db_claims d)) \<longrightarrow> distinct (map claim_key (db_claims d')))"
proof (induction ks arbitrary: d)
  case (Cons key ks)
  then obtain d1 where d1: "insert_claim child root key d = Inr d1" "foldr_res (insert_claim child root) ks d1 = Inr d'"
    by (auto simp: bindr_Inr_iff)
  have e: "d1 = d\<lparr>db_claims := db_claims d @ [claim_of child root key]\<rparr>" "\<forall>x\<in>set (db_claims d). claim_key x \<noteq> (root, key)"
    using d1(1) by (auto simp: insert_claim_def claim_of_def claim_key_def list_ex_iff split: if_splits)
  have "claim_key (claim_of child root key) = (root, key)" by (simp add: claim_key_def claim_of_def)
  then have "distinct (map claim_key (db_claims d)) \<Longrightarrow> distinct (map claim_key (db_claims d1))"
    using e(2) by (auto simp: e(1))
  moreover have "d' = d\<lparr>db_claims := db_claims d @ map (claim_of child root) (key # ks)\<rparr>"
    unfolding conjunct1 [OF Cons.IH [OF d1(2)]] e(1) by simp
  ultimately show ?case using conjunct2 [OF Cons.IH [OF d1(2)]] by blast
qed simp

lemma insert_child_rowsE:
  assumes "insert_child_rows child root parent k now d = Inr d'"
  obtains d5 ins bs j d6 where "d5 = d\<lparr>db_coords := db_coords d @ [coordination_of child root parent k],
      db_deps := db_deps d @ map (dependency_of child) (kc_depends k),
      db_claims := db_claims d @ map (claim_of child root) (kc_claims k),
      db_inputs := ins, db_bindings := bs\<rparr>"
    "r_id child \<notin> set (kc_depends k)"
    "distinct (map claim_key (db_claims d)) \<longrightarrow> distinct (map claim_key (db_claims d5))"
    "new_run_job_record (r_id child) ''start'' (run_job_input child) None now d5 = (j, d6)" "insert_run_job j d6 = Inr d'"
proof -
  obtain d1 d2 d3 d4 d5 where d1: "insert_coordination child root parent k d = Inr d1"
    and d2: "foldr_res (insert_dependency child) (kc_depends k) d1 = Inr d2"
    and d3: "foldr_res (insert_claim child root) (kc_claims k) d2 = Inr d3"
    and d4: "inherit_inputs (r_id child) parent d3 = Inr d4" and d5: "inherit_bindings (r_id child) parent d4 = Inr d5"
    and rest: "(let (j, d6) = new_run_job_record (r_id child) ''start'' (run_job_input child) None now d5
       in insert_run_job j d6) = Inr d'"
    using assms by (auto simp: insert_child_rows_def bindr_Inr_iff)
  obtain j d6 where j: "new_run_job_record (r_id child) ''start'' (run_job_input child) None now d5 = (j, d6)"
    by (cases "new_run_job_record (r_id child) ''start'' (run_job_input child) None now d5")
  have e1: "d1 = d\<lparr>db_coords := db_coords d @ [coordination_of child root parent k]\<rparr>"
    using d1 by (auto simp: insert_coordination_def coordination_of_def split: if_splits)
  obtain ins bs where e4: "d5 = d3\<lparr>db_inputs := ins, db_bindings := bs\<rparr>"
    using d4 d5 by (auto simp: inherit_inputs_def inherit_bindings_def split: if_splits)
  note e2 = insert_dependencies [OF d2] and e3 = insert_claims [OF d3]
  have c5: "db_claims d5 = db_claims d3" by (subst e4) simp
  show thesis
  proof (rule that [OF _ _ _ j])
    show "d5 = d\<lparr>db_coords := db_coords d @ [coordination_of child root parent k],
      db_deps := db_deps d @ map (dependency_of child) (kc_depends k),
      db_claims := db_claims d @ map (claim_of child root) (kc_claims k),
      db_inputs := ins, db_bindings := bs\<rparr>"
      by (subst e4) (simp add: e1 conjunct1 [OF e2] conjunct1 [OF e3])
    show "distinct (map claim_key (db_claims d)) \<longrightarrow> distinct (map claim_key (db_claims d5))"
      using conjunct2 [OF e3] unfolding c5 conjunct1 [OF e2] e1 by simp
  qed (use e2 rest j in simp_all)
qed

definition child_with :: "db \<Rightarrow> id \<Rightarrow> id \<Rightarrow> bool" where
  "child_with d parent i \<longleftrightarrow> (\<exists>r\<in>set (db_runs d). child_of parent r \<and> r_id r = i)"

lemma child_request_simps [simp]:
  "nr_input_kind (child_request p root oper goal agent k policy) = ''new''"
  "nr_kind (child_request p root oper goal agent k policy) = Some ''child''"
  "nr_depth (child_request p root oper goal agent k policy) = r_depth p + 1"
  "nr_graph_thread (child_request p root oper goal agent k policy) = None"
  "nr_parent (child_request p root oper goal agent k policy) = Some (r_id p)"
  "nr_spawn_op (child_request p root oper goal agent k policy) = Some oper"
  "nr_goal (child_request p root oper goal agent k policy) = goal"
  "nr_root (child_request p root oper goal agent k policy) = Some root"
  "nr_agent_id (child_request p root oper goal agent k policy) = str_of (dget agent ''id'')"
  "nr_agent_version (child_request p root oper goal agent k policy) = str_of (dget agent ''version'')"
  "nr_policy (child_request p root oper goal agent k policy) = child_policy k"
  "dget (nr_metadata (child_request p root oper goal agent k policy)) ''_child_agent_definition'' = JObj agent"
  by (simp_all add: child_request_def Let_def split: json.split)

lemma new_run_recordE:
  assumes "new_run_record t t' q d = Inr (r, d1)" "nr_kind q = Some ''child''"
  shows "r_kind r = KindChild" "r_parent r = nr_parent q" "r_depth r = nr_depth q" "r_spawn_op r = nr_spawn_op q"
    "r_goal r = nr_goal q" "r_agent_id r = nr_agent_id q" "r_agent_version r = nr_agent_version q"
    "r_policy r = encode_payload (JObj (nr_policy q))" "r_metadata r = JObj (nr_metadata q)" "r_status r = RunQueued"
    "log_effect d d1"
proof -
  obtain i dd where i: "new_id ''run'' d = (i, dd)" by (cases "new_id ''run'' d")
  obtain g d2 where g: "fresh_unless (nr_graph_thread q) ''thread'' dd = (g, d2)"
    by (cases "fresh_unless (nr_graph_thread q) ''thread'' dd")
  have kind: "run_kind_of (opt_or (nr_kind q) x) = Some KindChild" for x
    using assms(2) by (simp add: run_kind_of_def opt_or_def)
  have r: "r_kind r = KindChild \<and> r_parent r = nr_parent q \<and> r_depth r = nr_depth q \<and> r_spawn_op r = nr_spawn_op q \<and>
      r_goal r = nr_goal q \<and> r_agent_id r = nr_agent_id q \<and> r_agent_version r = nr_agent_version q \<and>
      r_policy r = encode_payload (JObj (nr_policy q)) \<and> r_metadata r = JObj (nr_metadata q) \<and> r_status r = RunQueued \<and> d1 = d2"
    using assms(1) unfolding new_run_record_def kind Let_def i g case_prod_conv option.case
    by (auto simp del: encode_payload.simps split: if_splits)
  have "log_effect d dd" using i by (auto simp: new_id_def log_effect_def intro: log_grows_same)
  moreover have "log_effect dd d1"
    using g r by (auto simp: fresh_unless_def new_id_def log_effect_def intro: log_grows_same split: if_splits)
  ultimately show "log_effect d d1" by (rule log_effect_trans)
  show "r_kind r = KindChild" "r_parent r = nr_parent q" "r_depth r = nr_depth q" "r_spawn_op r = nr_spawn_op q"
    "r_goal r = nr_goal q" "r_agent_id r = nr_agent_id q" "r_agent_version r = nr_agent_version q"
    "r_policy r = encode_payload (JObj (nr_policy q))" "r_metadata r = JObj (nr_metadata q)" "r_status r = RunQueued"
    using r by simp_all
qed

lemma new_child:
  assumes "new_run_record t t' (child_request p root oper goal agent k policy) d = Inr (child, d1)"
  shows "child_of (r_id p) child" "r_depth child = r_depth p + 1" "r_spawn_op child = Some oper"
    "same_child (r_id p) goal agent k child" "log_effect d d1" "db_runs d1 = db_runs d" "r_status child = RunQueued"
proof -
  note r = new_run_recordE [OF assms child_request_simps(2)]
  have policy: "\<exists>p. encode_payload (JObj (child_policy k)) = JObj p" by simp
  show "same_child (r_id p) goal agent k child"
    using r(1-9) encode_payload_idem [of "JObj (child_policy k)"] policy
    by (auto simp: same_child_def json_payload_def py_or_def simp del: encode_payload.simps)
  show "db_runs d1 = db_runs d" by (rule without_log_frame(1)) (use r(11) in \<open>simp add: log_effect_def\<close>)
qed (use new_run_recordE [OF assms child_request_simps(2)] in \<open>simp_all add: child_of_def\<close>)

lemma spawn_childE:
  assumes "spawn_child c p root oper goal agent k policy d = Inr ((child, e), d')"
  obtains "child_of (r_id p) child" "r_depth child = r_depth p + 1" "r_spawn_op child = Some oper"
    "same_child (r_id p) goal agent k child" "r_status child = RunQueued"
    "db_runs d' = db_runs d @ [child]" "r_id child \<notin> r_id ` set (db_runs d)"
    "db_coords d' = db_coords d @ [coordination_of child root (r_id p) k]"
    "db_deps d' = db_deps d @ map (dependency_of child) (kc_depends k)" "r_id child \<notin> set (kc_depends k)"
    "db_claims d' = db_claims d @ map (claim_of child root) (kc_claims k)"
    "distinct (map claim_key (db_claims d)) \<longrightarrow> distinct (map claim_key (db_claims d'))"
    "store_effect d d'"
proof -
  obtain d1 d2 d3 d4 pe where n: "new_run_record (x_clock c 1) (x_clock c 2) (child_request p root oper goal agent k policy) d = Inr (child, d1)"
    and i: "insert_run child d1 = Inr d2" and rows: "insert_child_rows child root (r_id p) k (x_clock c 3) d2 = Inr d3"
    and ev: "append_event_uncommitted (r_id p) ''child.spawned''
             (encode_payload (JObj (spawned_payload child (r_id p) oper k))) (r_created child) d3 = Inr (e, pe, d4)"
    and touch: "touch_thread_for_run_event (r_id p) ''child.spawned'' (e_seq e) (r_created child) d4 = Inr d'"
    using assms by (auto simp: spawn_child_def bindr_Inr_iff simp del: encode_payload.simps)
  note nc = new_child [OF n]
  have d2: "d2 = d1\<lparr>db_runs := db_runs d1 @ [child]\<rparr>" "r_id child \<notin> r_id ` set (db_runs d1)"
    using i by (auto simp: insert_run_def list_ex_iff split: if_splits)
  obtain d5 ins bs j d6 where d5: "d5 = d2\<lparr>db_coords := db_coords d2 @ [coordination_of child root (r_id p) k],
      db_deps := db_deps d2 @ map (dependency_of child) (kc_depends k),
      db_claims := db_claims d2 @ map (claim_of child root) (kc_claims k),
      db_inputs := ins, db_bindings := bs\<rparr>"
    and free: "r_id child \<notin> set (kc_depends k)"
    and claims: "distinct (map claim_key (db_claims d2)) \<longrightarrow> distinct (map claim_key (db_claims d5))"
    and j: "new_run_job_record (r_id child) ''start'' (run_job_input child) None (x_clock c 3) d5 = (j, d6)"
      "insert_run_job j d6 = Inr d3"
    by (rule insert_child_rowsE [OF rows])
  obtain n where d6: "d6 = d5\<lparr>db_uuid_next := n\<rparr>" using j(1) by (auto simp: new_run_job_record_def new_id_def)
  have d3: "d3 = d6\<lparr>db_jobs := db_jobs d6 @ [j]\<rparr>" using j(2) by (auto simp: insert_run_job_def split: if_splits)
  have log: "log_effect d3 d'" using append_event_effect [OF ev] touch_thread_effect [OF touch] by (rule log_effect_trans)
  then have w: "without_log d' = without_log d3" by (simp add: log_effect_def)
  have w1: "without_log d1 = without_log d" using nc(5) by (simp add: log_effect_def)
  have s3: "db_runs d3 = db_runs d2" "db_coords d3 = db_coords d5" "db_deps d3 = db_deps d5" "db_claims d3 = db_claims d5"
    by (simp_all add: d3 d6 d5)
  have c5: "db_coords d5 = db_coords d2 @ [coordination_of child root (r_id p) k]"
    "db_deps d5 = db_deps d2 @ map (dependency_of child) (kc_depends k)"
    "db_claims d5 = db_claims d2 @ map (claim_of child root) (kc_claims k)" by (simp_all add: d5)
  have c2: "db_coords d2 = db_coords d" "db_deps d2 = db_deps d" "db_claims d2 = db_claims d"
    using without_log_frame(10,9,11) [OF w1] by (simp_all add: d2)
  have "store_effect d d1" by (rule store_effect_log [OF nc(5)])
  also have "store_effect d1 d2" by (rule store_effect_other) (simp_all add: d2 same_log_def)
  also have "store_effect d2 d5" by (rule store_effect_other) (simp_all add: d5 same_log_def)
  also have "store_effect d5 d6" using new_run_job_record_simps(3) j(1) by (metis snd_conv)
  also have "store_effect d6 d3" using insert_run_job_effect [OF j(2)] new_run_job_record_simps(7) j(1) by (metis fst_conv)
  also have "store_effect d3 d'" by (rule store_effect_log [OF log])
  finally have eff: "store_effect d d'" .
  note f = without_log_frame(1,9,10,11) [OF w]
  show thesis
    by (rule that [OF nc(1-4,7)]) (use f s3 c5 c2 free claims eff nc(6) d2 in \<open>simp_all\<close>)
qed

subsection \<open>The families of runs\<close>

text \<open>What of a run its later life does not change.\<close>

definition run_identity :: "run_row \<Rightarrow> run_row" where
  "run_identity r = r\<lparr>r_status := RunQueued, r_checkpoint := None, r_definition := None, r_updated := 0, r_completed := None\<rparr>"

definition child_position :: "db \<Rightarrow> id \<Rightarrow> nat" where
  "child_position d i = length (takeWhile (\<lambda>x. x \<noteq> i) (map r_id (db_runs d)))"

text \<open>A child stands one below its parent, which is there and stands at the top.\<close>

definition generation_ok :: "db \<Rightarrow> run_row \<Rightarrow> bool" where
  "generation_ok d r \<longleftrightarrow> 0 \<le> r_depth r \<and> (r_kind r = KindChild \<longrightarrow>
     (\<exists>q\<in>set (db_runs d). r_parent r = Some (r_id q) \<and> r_depth q = 0 \<and> r_depth r = r_depth q + 1))"

definition children_ok :: "db \<Rightarrow> bool" where
  "children_ok d \<longleftrightarrow> distinct (map r_id (db_runs d)) \<and> (\<forall>p. count_where (child_of p) (db_runs d) \<le> max_children) \<and>
     (\<forall>r\<in>set (db_runs d). generation_ok d r)"

definition claims_ok :: "db \<Rightarrow> bool" where
  "claims_ok d \<longleftrightarrow> distinct (map claim_key (db_claims d))"

definition deps_ok :: "db \<Rightarrow> bool" where
  "deps_ok d \<longleftrightarrow> (\<forall>x\<in>set (db_deps d). (\<exists>p. child_with d p (dp_child x) \<and> child_with d p (dp_on x)) \<and>
     child_position d (dp_on x) < child_position d (dp_child x))"

definition quorums_ok :: "db \<Rightarrow> bool" where
  "quorums_ok d \<longleftrightarrow> (\<forall>x\<in>set (db_coords d). \<forall>y\<in>set (db_coords d). co_parent x = co_parent y \<and> co_mode x = ModeQuorum \<and>
     co_mode y = ModeQuorum \<and> co_group x = co_group y \<longrightarrow> co_required x = co_required y)"

definition family_ok :: "db \<Rightarrow> bool" where
  "family_ok d \<longleftrightarrow> children_ok d \<and> claims_ok d \<and> deps_ok d \<and> quorums_ok d"

text \<open>What the rest of the store does to a family: runs live on and new ones that are no children appear.\<close>

definition family_kept :: "db \<Rightarrow> db \<Rightarrow> bool" where
  "family_kept d d' \<longleftrightarrow> (\<exists>new. map run_identity (db_runs d') = map run_identity (db_runs d) @ new \<and>
       (\<forall>r\<in>set new. r_kind r \<noteq> KindChild \<and> 0 \<le> r_depth r)) \<and>
     (distinct (map r_id (db_runs d)) \<longrightarrow> distinct (map r_id (db_runs d'))) \<and>
     db_coords d' = db_coords d \<and> db_deps d' = db_deps d \<and> db_claims d' = db_claims d"

inductive family_op :: "db \<Rightarrow> db \<Rightarrow> bool" where
  spawn: "accept_child_run c resolve parent oper goal agent coord policy d = Inr (r, d') \<Longrightarrow> family_op d d'"
| elsewhere: "family_kept d d' \<Longrightarrow> family_op d d'"

text \<open>The runs of the later table, by identity, begin with those of the earlier one.\<close>

definition runs_grow :: "db \<Rightarrow> db \<Rightarrow> bool" where
  "runs_grow d d' \<longleftrightarrow> (\<exists>new. map run_identity (db_runs d') = map run_identity (db_runs d) @ new)"

lemma runs_grow_refl [simp]: "runs_grow d d"
  by (simp add: runs_grow_def)

lemma runs_grow_trans: "runs_grow a b \<Longrightarrow> runs_grow b e \<Longrightarrow> runs_grow a e"
  by (auto simp: runs_grow_def)

lemma run_identity_fields [simp]:
  "r_id (run_identity r) = r_id r" "r_kind (run_identity r) = r_kind r" "r_parent (run_identity r) = r_parent r"
  "r_depth (run_identity r) = r_depth r" "r_spawn_op (run_identity r) = r_spawn_op r"
  "child_of p (run_identity r) = child_of p r" "r_workspace (run_identity r) = r_workspace r"
  "same_child parent goal agent k (run_identity r) = same_child parent goal agent k r"
  by (simp_all add: run_identity_def child_of_def same_child_def)

lemma grown_ids:
  assumes "map run_identity rs' = map run_identity rs @ new"
  shows "map r_id rs' = map r_id rs @ map r_id new"
proof -
  have "map r_id rs = map r_id (map run_identity rs)" for rs by simp
  then show ?thesis using assms by (metis map_append)
qed

lemma find_map_same: "(\<And>x. p (f x) = p x) \<Longrightarrow> find p (map f xs) = map_option f (find p xs)"
  by (induction xs) auto

lemma find_run_grows:
  assumes "runs_grow d d'" "\<And>r. p (run_identity r) = p r" "find p (db_runs d) = Some r"
  obtains r' where "find p (db_runs d') = Some r'" "run_identity r' = run_identity r"
proof -
  obtain new where "map run_identity (db_runs d') = map run_identity (db_runs d) @ new"
    using assms(1) by (auto simp: runs_grow_def)
  then have "find p (map run_identity (db_runs d')) = Some (run_identity r)"
    using assms(2,3) by (simp add: find_append find_map_same)
  then show thesis using that assms(2) by (auto simp: find_map_same)
qed

lemma child_position_new:
  assumes "map r_id (db_runs d') = map r_id (db_runs d) @ is"
  shows "i \<in> r_id ` set (db_runs d) \<Longrightarrow> child_position d' i = child_position d i"
    and "i \<notin> r_id ` set (db_runs d) \<Longrightarrow> length (db_runs d) \<le> child_position d' i"
    and "i \<in> r_id ` set (db_runs d) \<Longrightarrow> child_position d i < length (db_runs d)"
proof -
  show "child_position d' i = child_position d i" if "i \<in> r_id ` set (db_runs d)"
    using that unfolding child_position_def assms by (subst takeWhile_append1 [of i]) auto
  show "length (db_runs d) \<le> child_position d' i" if "i \<notin> r_id ` set (db_runs d)"
    using that unfolding child_position_def assms by (subst takeWhile_append2) auto
  show "child_position d i < length (db_runs d)" if "i \<in> r_id ` set (db_runs d)"
  proof -
    have "takeWhile (\<lambda>x. x \<noteq> i) (map r_id (db_runs d)) \<noteq> map r_id (db_runs d)"
      using that by (metis (full_types) image_set set_takeWhileD)
    then show ?thesis unfolding child_position_def
      by (metis length_map length_takeWhile_le nat_less_le takeWhile_eq_take take_all order_refl)
  qed
qed

lemma child_with_ids: "child_with d p i \<Longrightarrow> i \<in> r_id ` set (db_runs d)"
  by (auto simp: child_with_def)

lemma deps_ok_grow:
  assumes "deps_ok d" "runs_grow d d'" "db_deps d' = db_deps d @ new"
    and "\<And>x. x \<in> set new \<Longrightarrow> (\<exists>p. child_with d' p (dp_child x) \<and> child_with d' p (dp_on x)) \<and>
      child_position d' (dp_on x) < child_position d' (dp_child x)"
  shows "deps_ok d'"
proof -
  obtain more where more: "map run_identity (db_runs d') = map run_identity (db_runs d) @ more"
    using assms(2) by (auto simp: runs_grow_def)
  then have ids: "map r_id (db_runs d') = map r_id (db_runs d) @ map r_id more"
    by (rule grown_ids)
  have keep: "child_with d' p i" if m: "child_with d p i" for p i
  proof -
    obtain r where r: "r \<in> set (db_runs d)" "child_of p r" "r_id r = i" using m by (auto simp: child_with_def)
    then have "run_identity r \<in> set (map run_identity (db_runs d'))" unfolding more by simp
    then obtain r' where "r' \<in> set (db_runs d')" "run_identity r' = run_identity r" by auto
    then show ?thesis using r run_identity_fields(1,6) unfolding child_with_def by metis
  qed
  show ?thesis
    unfolding deps_ok_def
  proof
    fix x assume "x \<in> set (db_deps d')"
    then consider "x \<in> set new" | "x \<in> set (db_deps d)" using assms(3) by auto
    then show "(\<exists>p. child_with d' p (dp_child x) \<and> child_with d' p (dp_on x)) \<and>
        child_position d' (dp_on x) < child_position d' (dp_child x)"
    proof cases
      case 2
      then obtain p where p: "child_with d p (dp_child x)" "child_with d p (dp_on x)"
        "child_position d (dp_on x) < child_position d (dp_child x)" using assms(1) by (auto simp: deps_ok_def)
      then show ?thesis using keep child_position_new(1) [OF ids] child_with_ids by metis
    qed (rule assms(4))
  qed
qed

lemma generation_ok_grows:
  assumes "\<forall>r\<in>set (db_runs d). generation_ok d r"
    and "map run_identity (db_runs d') = map run_identity (db_runs d) @ new"
    and "\<forall>r\<in>set new. r_kind r \<noteq> KindChild \<and> 0 \<le> r_depth r" "r \<in> set (db_runs d')"
  shows "generation_ok d' r"
proof -
  have "run_identity r \<in> set (map run_identity (db_runs d'))" using assms(4) by simp
  then consider x where "x \<in> set (db_runs d)" "run_identity r = run_identity x" | "run_identity r \<in> set new"
    unfolding assms(2) by auto
  then show ?thesis
  proof cases
    case (1 x)
    then have same: "r_kind r = r_kind x" "r_depth r = r_depth x" "r_parent r = r_parent x"
      by (metis run_identity_fields(2), metis run_identity_fields(4), metis run_identity_fields(3))
    have kept: "\<exists>q'\<in>set (db_runs d'). r_id q' = r_id q \<and> r_depth q' = r_depth q" if "q \<in> set (db_runs d)" for q
    proof -
      have "run_identity q \<in> set (map run_identity (db_runs d'))" unfolding assms(2) using that by simp
      then obtain q' where "q' \<in> set (db_runs d')" "run_identity q = run_identity q'" by auto
      then show ?thesis by (metis run_identity_fields(1,4))
    qed
    have "generation_ok d x" using assms(1) 1(1) by blast
    then show ?thesis using same kept unfolding generation_ok_def by metis
  next
    case 2
    then have "r_kind (run_identity r) \<noteq> KindChild \<and> 0 \<le> r_depth (run_identity r)" using assms(3) by blast
    then show ?thesis by (simp add: generation_ok_def)
  qed
qed

lemma family_kept_ok:
  assumes "family_kept d d'" "family_ok d"
  shows "family_ok d'"
proof -
  obtain new where new: "map run_identity (db_runs d') = map run_identity (db_runs d) @ new"
    "\<forall>r\<in>set new. r_kind r \<noteq> KindChild \<and> 0 \<le> r_depth r"
    and rest: "db_coords d' = db_coords d" "db_deps d' = db_deps d" "db_claims d' = db_claims d"
    using assms(1) by (auto simp: family_kept_def)
  have "distinct (map r_id (db_runs d'))"
    using assms by (simp add: family_kept_def family_ok_def children_ok_def)
  moreover have "count_where (child_of p) (db_runs d') = count_where (child_of p) (db_runs d)" for p
  proof -
    have "count_where (child_of p) (map run_identity t) = count_where (child_of p) t" for t
      by (induction t) (simp_all add: count_where_def)
    then have "count_where (child_of p) (db_runs d') = count_where (child_of p) (map run_identity (db_runs d) @ new)"
      using new(1) by metis
    also have "\<dots> = count_where (child_of p) (db_runs d)"
      using new(2) \<open>\<And>t. count_where (child_of p) (map run_identity t) = count_where (child_of p) t\<close>
      by (auto simp: count_where_zero child_of_def)
    finally show ?thesis .
  qed
  moreover have "generation_ok d' r" if r: "r \<in> set (db_runs d')" for r
    by (rule generation_ok_grows [OF _ new r]) (use assms(2) in \<open>simp add: family_ok_def children_ok_def\<close>)
  moreover have "deps_ok d'"
  proof (rule deps_ok_grow [where new = "[]"])
    show "runs_grow d d'" using new(1) unfolding runs_grow_def by blast
  qed (use assms(2) rest(2) in \<open>simp_all add: family_ok_def\<close>)
  ultimately have "children_ok d'" "deps_ok d'" using assms(2) by (simp_all add: family_ok_def children_ok_def)
  moreover have "claims_ok d'" "quorums_ok d'"
    using assms(2) unfolding family_ok_def claims_ok_def quorums_ok_def rest by blast+
  ultimately show ?thesis by (simp add: family_ok_def)
qed

lemma accept_child_runE:
  assumes "accept_child_run c resolve parent oper goal agent coord policy d = Inr ((r, e), d')"
  obtains a k p where "\<not> (py_strip goal = [] \<or> 32 * 1024 < int (length (py_strip goal)))" "normalize_child_agent_definition agent = Inr a"
      "get_run_row d parent = Some p" "normalize_child_coordination resolve coord (r_workspace p) = Inr k"
      "find_spawned oper d = Some r" "same_child parent (py_strip goal) a k r" "d' = d" "e = None"
  | a k p root ev where "\<not> (py_strip goal = [] \<or> 32 * 1024 < int (length (py_strip goal)))" "normalize_child_agent_definition agent = Inr a"
      "get_run_row d parent = Some p" "normalize_child_coordination resolve coord (r_workspace p) = Inr k"
      "find_spawned oper d = None" "require_spawn_receipt c parent oper d = Inr ()" "admit_child p k d = Inr root"
      "spawn_child c p root oper (py_strip goal) a k policy d = Inr ((r, ev), d')" "e = Some ev"
proof -
  have g: "\<not> (py_strip goal = [] \<or> 32 * 1024 < int (length (py_strip goal)))"
    using assms by (auto simp: accept_child_run_def Let_def)
  note b = assms [unfolded accept_child_run_def Let_def if_not_P [OF g]]
  obtain a where a: "normalize_child_agent_definition agent = Inr a" using b by (auto simp: bindr_Inr_iff)
  obtain p where p: "get_run_row d parent = Some p"
    using b unfolding a bindr_simps run_write_transaction_Inr by (auto split: option.splits)
  obtain k where k: "normalize_child_coordination resolve coord (r_workspace p) = Inr k"
    using b unfolding a bindr_simps run_write_transaction_Inr p option.case by (auto simp: bindr_Inr_iff)
  note rest = b [unfolded a bindr_simps run_write_transaction_Inr p option.case k, THEN conjunct2]
  show thesis
  proof (cases "find_spawned oper d")
    case None
    then obtain root ev where "require_spawn_receipt c parent oper d = Inr ()" "admit_child p k d = Inr root"
      "spawn_child c p root oper (py_strip goal) a k policy d = Inr ((r, ev), d')" "e = Some ev"
      using rest by (auto simp: bindr_Inr_iff)
    then show thesis using that(2) [OF g a p k None] by blast
  next
    case (Some x)
    then show thesis using rest that(1) [OF g a p k] by (auto split: if_splits)
  qed
qed

lemma admit_childD:
  assumes "admit_child p k d = Inr root"
  shows "r_depth p + 1 \<le> max_child_depth" "count_where (child_of (r_id p)) (db_runs d) < max_children"
    "\<And>i. i \<in> set (kc_depends k) \<Longrightarrow> child_with d (r_id p) i" "\<not> quorum_conflict (r_id p) k d"
  using assms by (auto simp: admit_child_def Let_def list_ex_iff child_with_def split: if_splits)

lemma quorums_ok_spawn:
  assumes "quorums_ok d" "\<not> quorum_conflict parent k d"
    and "db_coords d' = db_coords d @ [coordination_of child root parent k]"
    and "kc_mode k = ModeQuorum \<longrightarrow> kc_group k \<noteq> None"
  shows "quorums_ok d'"
proof -
  have same: "co_required x = kc_required k"
    if x: "x \<in> set (db_coords d)" "co_parent x = parent" "co_mode x = ModeQuorum" "co_group x = kc_group k" "kc_mode k = ModeQuorum" for x
  proof -
    let ?p = "\<lambda>x. co_parent x = parent \<and> co_mode x = ModeQuorum \<and> co_group x = kc_group k"
    obtain y where y: "find ?p (db_coords d) = Some y"
      using x find_NoneD [of ?p "db_coords d" x] by (cases "find ?p (db_coords d)") auto
    then have "co_required y = kc_required k"
      using assms(2,4) x(5) by (auto simp: quorum_conflict_def)
    moreover have "co_required x = co_required y"
      using assms(1) find_SomeD [OF y] x unfolding quorums_ok_def by metis
    ultimately show ?thesis by simp
  qed
  let ?new = "coordination_of child root parent k"
  have new: "co_parent ?new = parent" "co_mode ?new = kc_mode k" "co_group ?new = kc_group k" "co_required ?new = kc_required k"
    by (simp_all add: coordination_of_def)
  show ?thesis
    unfolding quorums_ok_def assms(3)
  proof (intro ballI impI)
    fix x y assume xy: "x \<in> set (db_coords d @ [?new])" "y \<in> set (db_coords d @ [?new])"
      "co_parent x = co_parent y \<and> co_mode x = ModeQuorum \<and> co_mode y = ModeQuorum \<and> co_group x = co_group y"
    consider "x = ?new" "y = ?new" | "x = ?new" "y \<in> set (db_coords d)" | "y = ?new" "x \<in> set (db_coords d)"
      | "x \<in> set (db_coords d)" "y \<in> set (db_coords d)" using xy(1,2) by auto
    then show "co_required x = co_required y"
    proof cases
      case 4
      then show ?thesis using assms(1) xy(3) unfolding quorums_ok_def by blast
    qed (use same xy(3) new in auto)
  qed
qed

lemma normalized_quorum:
  "normalize_child_coordination resolve coord workspace = Inr k \<Longrightarrow> kc_mode k = ModeQuorum \<longrightarrow> kc_group k \<noteq> None"
  by (auto simp: normalize_child_coordination_def Let_def bindr_Inr_iff child_quorum_fields_def
      split: if_splits option.splits json.splits)

lemma spawn_family_ok:
  assumes "spawn_child c p root oper goal agent k policy d = Inr ((child, e), d')" "admit_child p k d = Inr root"
    and "family_ok d" "kc_mode k = ModeQuorum \<longrightarrow> kc_group k \<noteq> None" "p \<in> set (db_runs d)"
  shows "family_ok d' \<and> runs_grow d d'"
proof -
  have ch: "child_of (r_id p) child" "r_depth child = r_depth p + 1"
    and runs: "db_runs d' = db_runs d @ [child]" "r_id child \<notin> r_id ` set (db_runs d)"
    and coords: "db_coords d' = db_coords d @ [coordination_of child root (r_id p) k]"
    and deps: "db_deps d' = db_deps d @ map (dependency_of child) (kc_depends k)"
    and claims: "distinct (map claim_key (db_claims d)) \<longrightarrow> distinct (map claim_key (db_claims d'))"
    by (rule spawn_childE [OF assms(1)]; assumption)+
  note a = admit_childD [OF assms(2)]
  have grow: "runs_grow d d'" by (simp add: runs_grow_def runs)
  have ids: "map r_id (db_runs d') = map r_id (db_runs d) @ [r_id child]" by (simp add: runs)
  have gen: "\<forall>r\<in>set (db_runs d). generation_ok d r" using assms(3) by (simp add: family_ok_def children_ok_def)
  have "generation_ok d' r" if "r \<in> set (db_runs d')" for r
  proof (cases "r = child")
    case True
    have "0 \<le> r_depth p" using gen assms(5) by (auto simp: generation_ok_def)
    then have "r_depth p = 0" using a(1) by (simp add: max_child_depth_def)
    then show ?thesis using True ch assms(5) by (auto simp: generation_ok_def runs child_of_def)
  next
    case False
    then have "generation_ok d r" using that gen by (simp add: runs)
    then show ?thesis by (auto simp: generation_ok_def runs)
  qed
  then have "children_ok d'"
    using assms(3) a(2) ch(1) runs(2) by (auto simp: family_ok_def children_ok_def runs child_of_def)
  moreover have "claims_ok d'" using assms(3) claims by (simp add: family_ok_def claims_ok_def)
  moreover have "quorums_ok d'"
    using quorums_ok_spawn [OF _ a(4) coords assms(4)] assms(3) by (simp add: family_ok_def)
  moreover have "deps_ok d'"
  proof (rule deps_ok_grow [OF _ grow deps])
    fix x assume "x \<in> set (map (dependency_of child) (kc_depends k))"
    then obtain i where i: "i \<in> set (kc_depends k)" "x = dependency_of child i" by auto
    have w: "child_with d (r_id p) i" by (rule a(3) [OF i(1)])
    have "child_with d' (r_id p) i" "child_with d' (r_id p) (r_id child)"
      using w ch(1) by (auto simp: child_with_def runs)
    moreover have "child_position d' i < child_position d' (r_id child)"
      using child_position_new [OF ids] child_with_ids [OF w] runs(2) by (metis order_less_le_trans)
    ultimately show "(\<exists>p. child_with d' p (dp_child x) \<and> child_with d' p (dp_on x)) \<and>
        child_position d' (dp_on x) < child_position d' (dp_child x)"
      by (auto simp: i(2) dependency_of_def)
  qed (use assms(3) in \<open>simp add: family_ok_def\<close>)
  ultimately show ?thesis using grow by (simp add: family_ok_def)
qed

lemma family_op_ok:
  assumes "family_op d d'" "family_ok d"
  shows "family_ok d' \<and> runs_grow d d'"
  using assms(1)
proof cases
  case (spawn c resolve parent oper goal agent coord policy r)
  obtain x e where r: "r = (x, e)" by (cases r)
  show ?thesis
  proof (rule accept_child_runE [OF spawn [unfolded r]], goal_cases)
    case 1
    then show ?case using assms(2) by simp
  next
    case (2 a k p root ev)
    have "p \<in> set (db_runs d)" using 2(3) by (auto simp: get_run_row_def dest: find_SomeD)
    then show ?case using spawn_family_ok [OF 2(8,7) assms(2) normalized_quorum [OF 2(4)]] by blast
  qed
next
  case elsewhere
  then show ?thesis using family_kept_ok [OF _ assms(2)] by (auto simp: family_kept_def runs_grow_def)
qed

lemma family_ops_ok:
  assumes "family_op\<^sup>*\<^sup>* d d'" "family_ok d"
  shows "family_ok d' \<and> runs_grow d d'"
  using assms
proof (induction rule: rtranclp_induct)
  case (step a b)
  then show ?case using family_op_ok runs_grow_trans by blast
qed simp

lemma childless_child:
  assumes "children_ok d" "r \<in> set (db_runs d)" "r_kind r = KindChild"
  shows "r_depth r = 1 \<and> count_where (child_of (r_id r)) (db_runs d) = 0"
proof -
  have gen: "generation_ok d x" if "x \<in> set (db_runs d)" for x using assms(1) that by (simp add: children_ok_def)
  have one: "r_depth r = 1" using gen [OF assms(2)] assms(3) by (auto simp: generation_ok_def)
  have "\<not> child_of (r_id r) x" if x: "x \<in> set (db_runs d)" for x
  proof
    assume "child_of (r_id r) x"
    then obtain q where q: "q \<in> set (db_runs d)" "r_id q = r_id r" "r_depth q = 0"
      using gen [OF x] by (auto simp: generation_ok_def child_of_def)
    then have "q = r" using assms(1,2) by (auto simp: children_ok_def distinct_map inj_on_def)
    then show False using q(3) one by simp
  qed
  then show ?thesis using one by (simp add: count_where_zero)
qed

subsection \<open>Properties\<close>

text \<open>C22: a run's children stay within their limits. Whatever is spawned and however the runs live
  on, a run has at most eight children, a run that is itself a child has none, no resource of a
  collaboration has two owners, and the dependencies between children never form a circle.\<close>

theorem children_stay_within_limits:
  assumes "family_op\<^sup>*\<^sup>* d d'" "family_ok d"
  shows "count_where (child_of p) (db_runs d') \<le> 8 \<and>
    (\<forall>r\<in>set (db_runs d'). r_kind r = KindChild \<longrightarrow> r_depth r = 1 \<and> count_where (child_of (r_id r)) (db_runs d') = 0) \<and>
    distinct (map claim_key (db_claims d')) \<and>
    acyclic {(dp_child x, dp_on x) | x. x \<in> set (db_deps d')}"
proof -
  have ok: "family_ok d'" using family_ops_ok [OF assms] by blast
  have "{(dp_child x, dp_on x) | x. x \<in> set (db_deps d')}\<inverse> \<subseteq> measure (child_position d')"
    using ok by (auto simp: family_ok_def deps_ok_def)
  from wf_acyclic [OF wf_subset [OF wf_measure this]]
  have "acyclic {(dp_child x, dp_on x) | x. x \<in> set (db_deps d')}" by (rule acyclic_converse [THEN iffD1])
  moreover have c: "children_ok d'" "claims_ok d'" using ok by (simp_all add: family_ok_def)
  moreover have "r_depth r = 1 \<and> count_where (child_of (r_id r)) (db_runs d') = 0"
    if "r \<in> set (db_runs d')" "r_kind r = KindChild" for r
    by (rule childless_child [OF c(1) that])
  ultimately show ?thesis
    unfolding children_ok_def claims_ok_def max_children_def by blast
qed

text \<open>a child is spawned once. The same tool call repeated later, whatever happened in between,
  is answered with the child it made and writes nothing, and with another task it is refused.\<close>

theorem child_is_spawned_once:
  assumes "accept_child_run c resolve parent oper goal agent coord policy d = Inr ((r, e), d1)" "family_ok d"
    and "family_op\<^sup>*\<^sup>* d1 d2" "admitted c' None parent d2"
  shows "(\<exists>r'. accept_child_run c' resolve parent oper goal agent coord policy d2 = Inr ((r', None), d2) \<and>
      run_identity r' = run_identity r) \<and>
    (py_strip other \<noteq> py_strip goal \<and> py_strip other \<noteq> [] \<and> int (length (py_strip other)) \<le> 32 * 1024 \<longrightarrow>
      accept_child_run c' resolve parent oper other agent coord policy d2 = Inl CommandConflictError)"
proof -
  obtain a k p where g: "\<not> (py_strip goal = [] \<or> 32 * 1024 < int (length (py_strip goal)))"
    and a: "normalize_child_agent_definition agent = Inr a" and p: "get_run_row d parent = Some p"
    and k: "normalize_child_coordination resolve coord (r_workspace p) = Inr k"
    and found: "find_spawned oper d1 = Some r" and same: "same_child parent (py_strip goal) a k r" and ok: "family_ok d1 \<and> runs_grow d d1"
  proof (rule accept_child_runE [OF assms(1)], goal_cases)
    case (1 a k p)
    then show ?thesis using assms(2) by (intro that) simp_all
  next
    case (2 a k p root ev)
    have "r_id p = parent" using 2(4) by (auto simp: get_run_row_def dest: find_SomeD)
    moreover have "find_spawned oper d1 = Some r"
      by (rule spawn_childE [OF 2(9)]) (use 2(6) in \<open>simp add: find_spawned_def find_append\<close>)
    moreover have "same_child (r_id p) (py_strip goal) a k r" by (rule spawn_childE [OF 2(9)])
    ultimately show ?thesis
      using spawn_family_ok [OF 2(9) 2(8) assms(2) normalized_quorum [OF 2(5)]] find_SomeD [OF 2(4) [unfolded get_run_row_def]]
      by (intro that [OF 2(2-5)]) simp_all
  qed
  have grow: "runs_grow d1 d2" "runs_grow d d2" using family_ops_ok [OF assms(3)] ok runs_grow_trans by blast+
  obtain p' where p': "get_run_row d2 parent = Some p'" "run_identity p' = run_identity p"
    using find_run_grows [OF grow(2) _ p [unfolded get_run_row_def]] by (auto simp: get_run_row_def)
  then have ws: "r_workspace p' = r_workspace p" by (metis run_identity_fields(7))
  obtain r' where r': "find_spawned oper d2 = Some r'" "run_identity r' = run_identity r"
    using find_run_grows [OF grow(1) _ found [unfolded find_spawned_def]] by (auto simp: find_spawned_def)
  then have same': "same_child parent (py_strip goal) a k r'" using same by (metis run_identity_fields(8))
  have again: "accept_child_run c' resolve parent oper task agent coord policy d2 =
      (if same_child parent (py_strip task) a k r' then Inr ((r', None), d2) else Inl CommandConflictError)"
    if "\<not> (py_strip task = [] \<or> 32 * 1024 < int (length (py_strip task)))" for task
    using that a k assms(4) p'(1) r'(1)
    by (simp only: accept_child_run_def Let_def if_False bindr_simps run_write_transaction_eq if_True ws option.case)
      simp
  have "\<not> same_child parent (py_strip other) a k r'" if "py_strip other \<noteq> py_strip goal"
    using same' that by (simp add: same_child_def)
  then show ?thesis using again [OF g] again [of other] same' r'(2) by auto
qed

text \<open>A run with a worker on its \<open>child.spawn\<close> call and one child already.\<close>

fun split_slashes :: "string \<Rightarrow> string \<Rightarrow> string list" where
  "split_slashes w [] = [rev w]"
| "split_slashes w (c # cs) = (if c = CHR ''/'' then rev w # split_slashes [] cs else split_slashes (c # w) cs)"

definition lexical_resolve :: "string \<Rightarrow> string list" where
  "lexical_resolve s = foldl (\<lambda>acc c. if c = [] \<or> c = ''.'' then acc else if c = ''..'' then butlast acc else acc @ [c])
     [] (split_slashes [] s)"

definition family_demo :: db where
  "family_demo = mail_db\<lparr>db_runs := map (\<lambda>r. r\<lparr>r_workspace := Some ''/ws''\<rparr>) (db_runs mail_db),
     db_receipts := [(blank_receipt ''op_1'' ''run_1'' ''child.spawn'' ToolRunning)], db_uuid_next := 7\<rparr>"

definition demo_agent :: dict where
  "demo_agent = [(''id'', JStr ''a''), (''version'', JStr ''1''), (''name'', JStr ''n''), (''description'', JStr ''d''),
     (''system_prompt'', JStr ''p''), (''allowed_tools'', JList [])]"

definition demo_coordination :: dict where
  "demo_coordination = [(''depends_on'', JList [JStr ''run_2'']), (''resource_claims'', JList [JStr ''a/../b.txt''])]"

definition spawn_demo :: "((run_row \<times> event_row option) \<times> db) res" where
  "spawn_demo = accept_child_run demo_ctx lexical_resolve ''run_1'' ''op_1'' '' task '' demo_agent (Some demo_coordination) None family_demo"

lemma spawn_demo_runs: "returns spawn_demo (\<lambda>x. snd (fst x) \<noteq> None \<and> admitted demo_ctx None ''run_1'' (snd x))"
  by code_simp

lemma spawn_demoE:
  obtains r e d1 where "spawn_demo = Inr ((r, Some e), d1)" "admitted demo_ctx None ''run_1'' d1"
proof -
  obtain y where y: "spawn_demo = Inr y" "snd (fst y) \<noteq> None \<and> admitted demo_ctx None ''run_1'' (snd y)"
    by (rule returnsE [OF spawn_demo_runs])
  then obtain e where "snd (fst y) = Some e" by auto
  then have "y = ((fst (fst y), Some e), snd y)" by (metis prod.collapse)
  with y show thesis by (metis that)
qed

lemma family_demo_ok: "family_ok family_demo"
proof -
  have two: "length (db_runs family_demo) = 2" by (simp add: family_demo_def mail_db_def demo_db_def)
  have few: "count_where (child_of p) (db_runs family_demo) \<le> 2" for p
    unfolding two [symmetric] count_where_def by (rule length_filter_le)
  have "count_where (child_of p) (db_runs family_demo) \<le> max_children" for p
    by (rule order_trans [OF few]) (simp add: max_children_def)
  moreover have "distinct (map r_id (db_runs family_demo))" "\<forall>r\<in>set (db_runs family_demo). generation_ok family_demo r"
    by (simp_all add: family_demo_def mail_db_def demo_db_def blank_run_def generation_ok_def)
  moreover have "db_claims family_demo = []" "db_deps family_demo = []" "db_coords family_demo = []"
    by (simp_all add: family_demo_def mail_db_def demo_db_def empty_db_def)
  ultimately show ?thesis by (simp add: family_ok_def children_ok_def claims_ok_def deps_ok_def quorums_ok_def)
qed

theorem children_stay_within_limits_witness:
  "\<exists>r e d1. spawn_demo = Inr ((r, Some e), d1) \<and> distinct (map claim_key (db_claims d1))"
proof -
  obtain r e d1 where r: "spawn_demo = Inr ((r, Some e), d1)" by (rule spawn_demoE)
  have "family_op\<^sup>*\<^sup>* family_demo d1"
    by (rule r_into_rtranclp, rule family_op.spawn, rule r [unfolded spawn_demo_def])
  then have "distinct (map claim_key (db_claims d1))" using children_stay_within_limits [OF _ family_demo_ok] by blast
  with r show ?thesis by blast
qed

theorem child_is_spawned_once_witness:
  "\<exists>r e d1. spawn_demo = Inr ((r, Some e), d1) \<and>
    accept_child_run demo_ctx lexical_resolve ''run_1'' ''op_1'' ''other'' demo_agent (Some demo_coordination) None d1 = Inl CommandConflictError"
proof -
  obtain r e d1 where r: "spawn_demo = Inr ((r, Some e), d1)" and a: "admitted demo_ctx None ''run_1'' d1" by (rule spawn_demoE)
  have "py_strip ''other'' = ''other''" "py_strip '' task '' = ''task''" by code_simp+
  then have "accept_child_run demo_ctx lexical_resolve ''run_1'' ''op_1'' ''other'' demo_agent (Some demo_coordination) None d1 = Inl CommandConflictError"
    using child_is_spawned_once [OF r [unfolded spawn_demo_def] family_demo_ok rtranclp.rtrancl_refl a, of "''other''"] by simp
  with r show ?thesis by blast
qed

end
