(* ===== verification/Run_Admission.thy ===== *)
theory Run_Admission
  imports Threads Plugins Collaboration
begin

text \<open>
  The admission of a run (store/run_commands/\_\_init\_\_.py): a client's \<open>run.start\<close> or
  \<open>run.fork\<close> becomes, in one transaction, a turn on a thread: the thread or its next version,
  the user's message and the place of the answer, the run with the conversation so far, its
  inputs and plugin bindings, the change clients are told of, the job to execute and the
  command's receipt. Shown: a command is accepted once, what one acceptance writes, and that the
  conversation of every thread stays a gapless line with at most one unsettled run.
\<close>

subsection \<open>Names\<close>

definition local_owner :: string where
  "local_owner = ''local:owner''"

definition principal_scoped_id :: "(string \<Rightarrow> string) \<Rightarrow> string \<Rightarrow> string \<Rightarrow> string \<Rightarrow> id" where
  "principal_scoped_id sha kind owner requested =
    (if owner = local_owner \<and> \<not> starts_with kind requested then requested
     else (let scope = kind @ take 16 (sha owner) @ ''_''
           in if starts_with scope requested then requested else scope @ sha requested))"

definition principal_thread_id :: "(string \<Rightarrow> string) \<Rightarrow> string \<Rightarrow> string \<Rightarrow> id" where
  "principal_thread_id sha = principal_scoped_id sha ''pt_''"

definition principal_item_id :: "(string \<Rightarrow> string) \<Rightarrow> string \<Rightarrow> string \<Rightarrow> id" where
  "principal_item_id sha = principal_scoped_id sha ''pi_''"

subsection \<open>The request\<close>

text \<open>
  The arguments of \<open>accept_run_command\<close>. An input is a row whose run and time are yet to be set.
\<close>

record start_request =
  sq_principal :: string
  sq_command :: id
  sq_client :: string
  sq_payload :: dict
  sq_goal :: string
  sq_workspace :: "string option"
  sq_mode :: string
  sq_thread :: "id option"
  sq_user_input :: "string option"
  sq_assistant :: "id option"
  sq_title :: "string option"
  sq_thread_metadata :: "dict option"
  sq_item_metadata :: "dict option"
  sq_replace :: "string option"
  sq_new_thread :: bool
  sq_graph_thread :: "id option"
  sq_checkpoint :: "id option"
  sq_definition :: "id option"
  sq_input_kind :: string
  sq_history :: "dict list"
  sq_parent :: "id option"
  sq_settings :: "dict option"
  sq_metadata :: "dict option"
  sq_admission :: "store_error option"
  sq_refs :: "plugin_ref list"
  sq_plugin_command :: "plugin_command_ref option"
  sq_inherit :: "id option"
  sq_inputs :: "input_row list"

definition command_envelope :: "start_request \<Rightarrow> json" where
  "command_envelope q =
     encode_payload (JObj [(''client_message_id'', JStr (sq_client q)), (''payload'', JObj (sq_payload q))])"

definition message_text :: "start_request \<Rightarrow> string" where
  "message_text q = opt_or (sq_user_input q) (sq_goal q)"

text \<open>The root a run under a parent belongs to.\<close>

definition admit_parent :: "start_request \<Rightarrow> db \<Rightarrow> id option res" where
  "admit_parent q d =
    (case sq_parent q of
       None \<Rightarrow> Inr None
     | Some i \<Rightarrow>
        (case get_owned_run (sq_principal q) i d of
           None \<Rightarrow> Inl ParentRunAdmissionError
         | Some p \<Rightarrow>
            if r_kind p = KindChild then Inl ParentRunAdmissionError
            else if r_status p \<in> {RunQueued, RunRunning, RunCleanupRequired} then Inl ParentRunAdmissionError
            else Inr (Some (opt_or (r_root p) i))))"

subsection \<open>The plugins a message selects\<close>

definition find_binding :: "binding list \<Rightarrow> id \<Rightarrow> binding res" where
  "find_binding bs i = (case find (\<lambda>b. bd_plugin b = i) (rev bs) of None \<Rightarrow> Inl PyKeyError | Some b \<Rightarrow> Inr b)"

text \<open>A reference is shown once; a binding that was inherited carries no names to show.\<close>

fun selected_references :: "id option \<Rightarrow> binding list \<Rightarrow> id list \<Rightarrow> plugin_ref list \<Rightarrow> json list res" where
  "selected_references inherit bs seen [] = Inr []"
| "selected_references inherit bs seen (x # xs) =
    (if pr_plugin x \<in> set seen then selected_references inherit bs seen xs
     else bindr (find_binding bs (pr_plugin x)) (\<lambda>b.
       if inherit \<noteq> None then Inl PyKeyError
       else bindr (selected_references inherit bs (pr_plugin x # seen) xs) (\<lambda>rest.
         Inr (JObj [(''plugin_id'', JStr (pr_plugin x)), (''name'', JStr (bd_name b)), (''digest'', JStr (bd_digest b))] # rest))))"

definition selected_command :: "id option \<Rightarrow> binding list \<Rightarrow> plugin_command_ref option \<Rightarrow> dict res" where
  "selected_command inherit bs command =
    (case command of
       None \<Rightarrow> Inr []
     | Some x \<Rightarrow> bindr (find_binding bs (pc_plugin x)) (\<lambda>b.
         if inherit \<noteq> None then Inl PyKeyError
         else Inr [(''command'', JObj [(''plugin_id'', JStr (pc_plugin x)), (''plugin_name'', JStr (bd_name b)),
           (''command_id'', JStr (pc_command x)), (''title'', JStr (py_str (json_opt (bd_title b)))),
           (''digest'', JStr (bd_digest b))])]))"

definition user_item_metadata :: "start_request \<Rightarrow> binding list \<Rightarrow> dict res" where
  "user_item_metadata q bs =
    (let base = dpop ''plugin_selection'' (case sq_item_metadata q of None \<Rightarrow> [] | Some m \<Rightarrow> m)
     in if sq_refs q = [] \<and> sq_plugin_command q = None then Inr base
        else bindr (selected_references (sq_inherit q) bs [] (sq_refs q)) (\<lambda>refs.
             bindr (selected_command (sq_inherit q) bs (sq_plugin_command q)) (\<lambda>command.
             Inr (dset ''plugin_selection'' (JObj ((''references'', JList refs) # command)) base))))"

subsection \<open>The thread\<close>

definition insert_thread :: "thread_row \<Rightarrow> db \<Rightarrow> db res" where
  "insert_thread t d =
    (if list_ex (\<lambda>x. th_id x = th_id t) (db_threads d) then Inl SqlIntegrityError
     else Inr (d\<lparr>db_threads := db_threads d @ [t]\<rparr>))"

text \<open>The keys and the two partial unique indexes of the items.\<close>

definition item_clash :: "item_row \<Rightarrow> item_row \<Rightarrow> bool" where
  "item_clash i x \<longleftrightarrow> it_id x = it_id i \<or>
     (it_client i \<noteq> None \<and> it_thread x = it_thread i \<and> it_client x = it_client i) \<or>
     (it_run i \<noteq> None \<and> it_run x = it_run i \<and> it_type x = it_type i)"

definition insert_item :: "item_row \<Rightarrow> db \<Rightarrow> db res" where
  "insert_item i d =
    (if list_ex (item_clash i) (db_items d) \<or> \<not> list_ex (\<lambda>t. th_id t = it_thread i) (db_threads d) \<or>
        (case it_run i of None \<Rightarrow> False | Some r \<Rightarrow> get_run_row d r = None)
     then Inl SqlIntegrityError else Inr (d\<lparr>db_items := db_items d @ [i]\<rparr>))"

text \<open>A message of the history a fork brings: \<open>{"role": ..., "content": ...}\<close>.\<close>

definition chat_message :: "string \<Rightarrow> string \<Rightarrow> json" where
  "chat_message role body = JObj [(''role'', JStr role), (''content'', JStr body)]"

definition seed_messages :: "dict list \<Rightarrow> (string \<times> string) list" where
  "seed_messages history =
     map (\<lambda>m. (py_str (dget m ''role''), py_str (dget m ''content'')))
       (filter (\<lambda>m. dget m ''role'' \<in> {JStr ''user'', JStr ''assistant''} \<and>
          py_strip (text_or (dget m ''content'') []) \<noteq> []) history)"

definition seed_item :: "id \<Rightarrow> time \<Rightarrow> id \<Rightarrow> nat \<Rightarrow> string \<times> string \<Rightarrow> item_row" where
  "seed_item th now i position m =
     \<lparr>it_id = i, it_thread = th, it_run = None, it_client = None, it_type = fst m @ ''_message'',
      it_status = ''completed'', it_content = snd m, it_metadata = JObj [], it_position = position, it_high = 0,
      it_version = 1, it_created = now, it_updated = now, it_completed = Some now, it_superseded = None,
      it_superseded_by = None\<rparr>"

fun insert_seeds :: "id \<Rightarrow> time \<Rightarrow> nat \<Rightarrow> (string \<times> string) list \<Rightarrow> db \<Rightarrow> db res" where
  "insert_seeds th now position [] d = Inr d"
| "insert_seeds th now position (m # ms) d =
    (let (i, d1) = new_id ''item'' d
     in bindr (insert_item (seed_item th now i position m) d1) (insert_seeds th now (position + 1) ms))"

record turn_place =
  tp_thread :: id
  tp_version :: nat
  tp_base :: int
  tp_history :: "json list"

definition new_thread_place :: "start_request \<Rightarrow> id \<Rightarrow> time \<Rightarrow> db \<Rightarrow> (turn_place \<times> db) res" where
  "new_thread_place q th now d =
    (if sq_replace q \<noteq> None then Inl ThreadAdmissionError
     else
      (let seeds = seed_messages (sq_history q)
       in bindr (insert_thread \<lparr>th_id = th, th_principal = sq_principal q,
                  th_title = short_title (opt_or (sq_title q) (message_text q)),
                  th_metadata = encode_payload (JObj (case sq_thread_metadata q of None \<Rightarrow> [] | Some m \<Rightarrow> m)),
                  th_version = 1, th_created = now, th_updated = now, th_archived = None, th_deleted = None\<rparr> d) (\<lambda>d1.
          bindr (insert_seeds th now 1 seeds d1) (\<lambda>d2.
          Inr (\<lparr>tp_thread = th, tp_version = 1, tp_base = int (length seeds),
                tp_history = map (\<lambda>(role, body). chat_message role body) seeds\<rparr>, d2)))))"

text \<open>The messages of a thread up to a place, as the run is given them.\<close>

definition message_item :: "item_row \<Rightarrow> bool" where
  "message_item i \<longleftrightarrow> it_type i = ''user_message'' \<or> it_type i = ''assistant_message''"

definition thread_history :: "id \<Rightarrow> int \<Rightarrow> db \<Rightarrow> json list" where
  "thread_history th base d =
     map (\<lambda>i. chat_message (if it_type i = ''user_message'' then ''user'' else ''assistant'') (it_content i))
       (select_by item_order (\<lambda>i. visible th i \<and> int (it_position i) \<le> base \<and> message_item i \<and> it_content i \<noteq> [])
          (db_items d))"

definition base_position :: "start_request \<Rightarrow> id \<Rightarrow> db \<Rightarrow> int res" where
  "base_position q th d =
    (case sq_replace q of
       None \<Rightarrow> Inr (int (max_of (map it_position (filter (visible th) (db_items d)))))
     | Some client \<Rightarrow>
        (case find (\<lambda>i. visible th i \<and> it_client i = Some client \<and> it_type i = ''user_message'') (db_items d) of
           None \<Rightarrow> Inl ThreadAdmissionError
         | Some i \<Rightarrow> Inr (int (it_position i) - 1)))"

definition next_turn_place :: "start_request \<Rightarrow> thread_row \<Rightarrow> time \<Rightarrow> db \<Rightarrow> (turn_place \<times> db) res" where
  "next_turn_place q t now d =
    (let th = th_id t; v = th_version t + 1
     in if sq_new_thread q then Inl ThreadAdmissionError
        else if th_principal t \<noteq> sq_principal q then Inl ThreadAdmissionError
        else if th_deleted t \<noteq> None then Inl ThreadAdmissionError
        else if th_archived t \<noteq> None then Inl ThreadAdmissionError
        else if list_ex (\<lambda>i. it_thread i = th \<and> it_client i = Some (sq_client q)) (db_items d) then Inl CommandConflictError
        else if unsettled_thread (sq_principal q) th d then Inl ThreadAdmissionError
        else bindr (base_position q th d) (\<lambda>base.
          (let d1 = set_thread th (\<lambda>x. x\<lparr>th_version := v, th_title := short_title (opt_or (sq_title q) (th_title t)),
                 th_metadata := (case sq_thread_metadata q of None \<Rightarrow> th_metadata t | Some m \<Rightarrow> encode_payload (JObj m)),
                 th_updated := now\<rparr>) d
           in Inr (\<lparr>tp_thread = th, tp_version = v, tp_base = base, tp_history = thread_history th base d1\<rparr>, d1))))"

definition place_turn :: "(string \<Rightarrow> string) \<Rightarrow> start_request \<Rightarrow> time \<Rightarrow> db \<Rightarrow> (turn_place \<times> db) res" where
  "place_turn sha q now d =
    (let (th, d1) = (case sq_thread q of Some i \<Rightarrow> (principal_thread_id sha (sq_principal q) i, d) | None \<Rightarrow> new_id ''thread'' d)
     in case find (\<lambda>t. th_id t = th) (db_threads d1) of
          None \<Rightarrow> new_thread_place q th now d1
        | Some t \<Rightarrow> next_turn_place q t now d1)"


subsection \<open>The rows of a turn\<close>

definition turn_request :: "start_request \<Rightarrow> turn_place \<Rightarrow> id \<Rightarrow> id option \<Rightarrow> run_request" where
  "turn_request q place assistant root =
    \<lparr>nr_principal = sq_principal q, nr_goal = sq_goal q, nr_workspace = sq_workspace q, nr_parent = sq_parent q,
     nr_settings = (case sq_settings q of None \<Rightarrow> [] | Some x \<Rightarrow> x),
     nr_metadata = (case sq_metadata q of None \<Rightarrow> [] | Some x \<Rightarrow> x), nr_mode = sq_mode q,
     nr_history = tp_history place, nr_graph_thread = sq_graph_thread q, nr_checkpoint = sq_checkpoint q,
     nr_definition = sq_definition q, nr_input_kind = sq_input_kind q, nr_thread = Some (tp_thread place),
     nr_item = Some assistant, nr_user_input = sq_user_input q,
     nr_kind = Some (if sq_input_kind q = ''fork'' then ''fork'' else ''turn''), nr_root = root,
     nr_agent_id = ''shejane.default'', nr_agent_version = ''1'', nr_depth = 0, nr_policy = [], nr_spawn_op = None\<rparr>"

definition insert_input :: "run_row \<Rightarrow> time \<Rightarrow> input_row \<Rightarrow> db \<Rightarrow> db res" where
  "insert_input r now x d =
    (if list_ex (\<lambda>y. in_run y = r_id r \<and> (in_id y = in_id x \<or> in_path y = in_path x)) (db_inputs d) then Inl SqlIntegrityError
     else Inr (d\<lparr>db_inputs := db_inputs d @ [x\<lparr>in_run := r_id r, in_created := now\<rparr>]\<rparr>))"

definition insert_binding :: "run_row \<Rightarrow> plugins \<Rightarrow> binding \<Rightarrow> db \<Rightarrow> db res" where
  "insert_binding r p b d =
    (if list_ex (\<lambda>y. b_run y = r_id r \<and> b_plugin y = bd_plugin b) (db_bindings d) \<or>
        \<not> list_ex (\<lambda>v. pv_plugin v = bd_plugin b \<and> pv_digest v = bd_digest b) (pg_versions p) then Inl SqlIntegrityError
     else Inr (d\<lparr>db_bindings := db_bindings d @
       [\<lparr>b_run = r_id r, b_plugin = bd_plugin b, b_version = bd_version b, b_digest = bd_digest b,
         b_source = bd_source b, b_required = bd_required b, b_command = bd_command b,
         b_catalog = bd_catalog b, b_model = bd_model b\<rparr>]\<rparr>))"

text \<open>A message sent again in place of an earlier one supersedes what followed.\<close>

definition supersede_items :: "id \<Rightarrow> int \<Rightarrow> id \<Rightarrow> time \<Rightarrow> db \<Rightarrow> db" where
  "supersede_items th base run now d =
     d\<lparr>db_items := update_where (\<lambda>i. visible th i \<and> base < int (it_position i))
         (\<lambda>i. i\<lparr>it_superseded := Some now, it_superseded_by := Some run, it_updated := now\<rparr>) (db_items d)\<rparr>"

definition user_item :: "start_request \<Rightarrow> turn_place \<Rightarrow> dict \<Rightarrow> id \<Rightarrow> id \<Rightarrow> time \<Rightarrow> item_row" where
  "user_item q place metadata run i now =
     \<lparr>it_id = i, it_thread = tp_thread place, it_run = Some run, it_client = Some (sq_client q),
      it_type = ''user_message'', it_status = ''completed'', it_content = message_text q,
      it_metadata = encode_payload (JObj metadata), it_position = nat (tp_base place + 1), it_high = 0, it_version = 1,
      it_created = now, it_updated = now, it_completed = Some now, it_superseded = None, it_superseded_by = None\<rparr>"

definition assistant_item :: "start_request \<Rightarrow> turn_place \<Rightarrow> id \<Rightarrow> id \<Rightarrow> time \<Rightarrow> item_row" where
  "assistant_item q place run i now =
     \<lparr>it_id = i, it_thread = tp_thread place, it_run = Some run, it_client = sq_assistant q,
      it_type = ''assistant_message'', it_status = ''in_progress'', it_content = [],
      it_metadata = JObj [], it_position = nat (tp_base place + 2), it_high = 0, it_version = 1,
      it_created = now, it_updated = now, it_completed = None, it_superseded = None, it_superseded_by = None\<rparr>"

definition start_job_input :: "start_request \<Rightarrow> turn_place \<Rightarrow> dict" where
  "start_job_input q place =
     [(''principal_id'', JStr (sq_principal q)), (''goal'', JStr (sq_goal q)), (''user_input'', JStr (message_text q)),
      (''workspace_path'', json_opt (sq_workspace q)), (''mode'', JStr (sq_mode q)),
      (''history'', JList (tp_history place)),
      (''settings'', JObj (case sq_settings q of None \<Rightarrow> [] | Some x \<Rightarrow> x)),
      (''metadata'', JObj (case sq_metadata q of None \<Rightarrow> [] | Some x \<Rightarrow> x))]"

text \<open>The run as the command's receipt keeps it; the \<open>..._json\<close> columns are texts of their own.\<close>

definition json_column :: "json \<Rightarrow> json" where
  "json_column v = JStr (json_dumps '', '' '': '' v)"

definition run_json :: "run_row \<Rightarrow> dict" where
  "run_json r =
     [(''id'', JStr (r_id r)), (''principal_id'', JStr (r_principal r)), (''run_kind'', JStr (run_kind_text (r_kind r))),
      (''root_run_id'', json_opt (r_root r)), (''agent_definition_id'', JStr (r_agent_id r)),
      (''agent_definition_version'', JStr (r_agent_version r)), (''collaboration_depth'', JInt (r_depth r)),
      (''collaboration_policy_json'', json_column (r_policy r)), (''spawn_operation_id'', json_opt (r_spawn_op r)),
      (''graph_thread_id'', JStr (r_graph_thread r)), (''graph_checkpoint_id'', json_opt (r_checkpoint r)),
      (''graph_definition_id'', json_opt (r_definition r)), (''graph_input_kind'', JStr (r_input_kind r)),
      (''thread_id'', json_opt (r_thread r)), (''assistant_item_id'', json_opt (r_item r)),
      (''user_input'', json_opt (r_user_input r)), (''goal'', JStr (r_goal r)),
      (''workspace_path'', json_opt (r_workspace r)), (''status'', JStr (run_status_text (r_status r))),
      (''history_json'', json_column (r_history r)), (''parent_run_id'', json_opt (r_parent r)),
      (''settings_json'', json_column (r_settings r)), (''metadata_json'', json_column (r_metadata r)),
      (''mode'', JStr (r_mode r)), (''created_at'', json_time (r_created r)), (''updated_at'', json_time (r_updated r)),
      (''completed_at'', json_time_opt (r_completed r))]"

definition run_command_row :: "start_request \<Rightarrow> run_row \<Rightarrow> command_row" where
  "run_command_row q r =
     \<lparr>cm_principal = sq_principal q, cm_id = sq_command q, cm_type = text_or (dget (sq_payload q) ''type'') ''run.start'',
      cm_client = sq_client q, cm_payload = command_envelope q, cm_response = encode_payload (JObj (run_json r)),
      cm_run = Some (r_id r), cm_created = r_created r\<rparr>"

text \<open>The items of the turn, after what it replaces.\<close>

definition insert_turn_items ::
    "start_request \<Rightarrow> turn_place \<Rightarrow> dict \<Rightarrow> run_row \<Rightarrow> id \<Rightarrow> time \<Rightarrow> db \<Rightarrow> db res" where
  "insert_turn_items q place metadata r assistant now d =
    (let d1 = (if sq_replace q = None then d else supersede_items (tp_thread place) (tp_base place) (r_id r) now d);
         (u, d2) = new_id ''item'' d1
     in bindr (insert_item (user_item q place metadata (r_id r) u now) d2)
          (insert_item (assistant_item q place (r_id r) assistant now)))"

text \<open>Everything after the run: its inputs, bindings and items, the change, the job and the receipt.\<close>

definition insert_turn_rows ::
    "ctx \<Rightarrow> start_request \<Rightarrow> turn_place \<Rightarrow> dict \<Rightarrow> binding list \<Rightarrow> plugins \<Rightarrow> run_row \<Rightarrow> id \<Rightarrow> db \<Rightarrow> db res" where
  "insert_turn_rows c q place metadata bs p r assistant d =
    bindr (foldr_res (insert_input r (x_clock c 1)) (sq_inputs q) d) (\<lambda>d1.
    bindr (foldr_res (insert_binding r p) bs d1) (\<lambda>d2.
    bindr (insert_turn_items q place metadata r assistant (x_clock c 1) d2) (\<lambda>d3.
    (let d4 = insert_change (sq_principal q) (tp_thread place) (tp_version place)
           (if sq_replace q = None then ''turn.started'' else ''thread.rewritten'') (Some (r_id r)) (x_clock c 1) d3;
         (j, d5) = new_run_job_record (r_id r) ''start'' (start_job_input q place) None (x_clock c 4) d4
     in bindr (insert_run_job j d5) (insert_command (run_command_row q r))))))"

definition assistant_item_id :: "(string \<Rightarrow> string) \<Rightarrow> start_request \<Rightarrow> db \<Rightarrow> id \<times> db" where
  "assistant_item_id sha q d =
    (case sq_assistant q of Some i \<Rightarrow> (principal_item_id sha (sq_principal q) i, d) | None \<Rightarrow> new_id ''item'' d)"

definition start_turn ::
    "ctx \<Rightarrow> (string \<Rightarrow> string) \<Rightarrow> start_request \<Rightarrow> id option \<Rightarrow> dict \<Rightarrow> binding list \<Rightarrow> plugins \<Rightarrow> db \<Rightarrow> (run_row \<times> db) res" where
  "start_turn c sha q root metadata bs p d =
    bindr (place_turn sha q (x_clock c 1) d) (\<lambda>(place, d1).
    (let (assistant, d2) = assistant_item_id sha q d1
     in bindr (new_run_record (x_clock c 2) (x_clock c 3) (turn_request q place assistant root) d2) (\<lambda>(r, d3).
        bindr (insert_run r d3) (\<lambda>d4.
        bindr (insert_turn_rows c q place metadata bs p r assistant d4) (\<lambda>d5. Inr (r, d5))))))"

text \<open>The transaction of a command that was not accepted before.\<close>

definition admit_run ::
    "ctx \<Rightarrow> (string \<Rightarrow> string) \<Rightarrow> start_request \<Rightarrow> plugins \<Rightarrow> db \<Rightarrow> (run_row \<times> db) res" where
  "admit_run c sha q p d =
    (if sq_admission q \<noteq> None then Inl (the (sq_admission q))
     else if workspace_unauthorized (sq_principal q) (sq_workspace q) d then Inl WorkspaceAdmissionError
     else bindr (admit_parent q d) (\<lambda>root.
       bindr (resolve_run_plugin_bindings sha (sq_principal q) (sq_refs q) (sq_plugin_command q) (sq_inherit q) p d) (\<lambda>bs.
       bindr (user_item_metadata q bs) (\<lambda>metadata.
       start_turn c sha q root metadata bs p d))))"

text \<open>
  The command: looked for before the transaction (in \<open>dq\<close>, and once more when the workspace is
  gone), then in it.
\<close>

definition accept_run_command ::
    "ctx \<Rightarrow> (string \<Rightarrow> string) \<Rightarrow> (string \<Rightarrow> bool) \<Rightarrow> start_request \<Rightarrow> plugins \<Rightarrow> db \<Rightarrow> db \<Rightarrow> db \<Rightarrow>
      (((run_row \<times> id \<times> string) \<times> bool) \<times> db) res" where
  "accept_run_command c sha path_gone q p dq dq2 d =
    (let lookup = accepted_run_for_command (sq_principal q) (sq_command q) (command_envelope q);
         gone = sq_admission q = None \<and> workspace_path_error path_gone (sq_workspace q)
     in bindr (lookup dq) (\<lambda>existing. case existing of
          Some x \<Rightarrow> Inr ((x, False), d)
        | None \<Rightarrow>
           if gone
           then bindr (lookup dq2) (\<lambda>existing. case existing of
                  Some x \<Rightarrow> Inr ((x, False), d) | None \<Rightarrow> Inl WorkspaceAdmissionError)
           else bindr (lookup d) (\<lambda>existing. case existing of
                  Some x \<Rightarrow> Inr ((x, False), d)
                | None \<Rightarrow> bindr (admit_run c sha q p d) (\<lambda>(r, d1).
                    Inr (((r, sq_command q, sq_client q), True), d1)))))"


subsection \<open>What an acceptance writes\<close>

lemma new_id_sameD: "new_id k d = (i, d') \<Longrightarrow> d' = d\<lparr>db_uuid_next := Suc (db_uuid_next d)\<rparr>"
  by (auto simp: new_id_def)

lemma insert_itemD:
  assumes "insert_item i d = Inr d'"
  shows "d' = d\<lparr>db_items := db_items d @ [i]\<rparr>" "\<forall>x\<in>set (db_items d). \<not> item_clash i x"
    "it_thread i \<in> th_id ` set (db_threads d)"
  using assms by (auto simp: insert_item_def list_ex_iff intro: rev_image_eqI split: if_splits option.splits)

lemma assistant_item_id_same:
  "assistant_item_id sha q d = (a, d') \<Longrightarrow> \<exists>n. d' = d\<lparr>db_uuid_next := n\<rparr>"
  by (auto simp: assistant_item_id_def new_id_def split: option.splits intro: exI [of _ "db_uuid_next d"])

lemma new_turn_record:
  assumes "new_run_record t t' (turn_request q place a root) d = Inr (r, d')"
  shows "r_principal r = sq_principal q" "r_thread r = Some (tp_thread place)" "r_item r = Some a"
    "r_status r = RunQueued" "r_history r = JList (tp_history place)" "r_kind r \<noteq> KindChild" "r_spawn_op r = None"
    "r_created r = t" "r_goal r = sq_goal q" "r_workspace r = sq_workspace q" "r_parent r = sq_parent q"
    "r_root r = Some (opt_or root (r_id r))"
    "\<exists>n. d' = d\<lparr>db_uuid_next := n\<rparr>"
proof -
  obtain i dd where i: "new_id ''run'' d = (i, dd)" by (cases "new_id ''run'' d")
  obtain g d2 where g: "fresh_unless (sq_graph_thread q) ''thread'' dd = (g, d2)"
    by (cases "fresh_unless (sq_graph_thread q) ''thread'' dd")
  define k where "k = (if sq_input_kind q = ''fork'' then KindFork else KindTurn)"
  have k: "k \<noteq> KindChild" "run_kind_of (opt_or (nr_kind (turn_request q place a root)) x) = Some k" for x
    by (simp_all add: k_def turn_request_def run_kind_of_def opt_or_def)
  have g': "fresh_unless (nr_graph_thread (turn_request q place a root)) ''thread'' dd = (g, d2)"
    using g by (simp add: turn_request_def)
  have r: "r_principal r = sq_principal q \<and> r_thread r = Some (tp_thread place) \<and> r_item r = Some a \<and>
      r_status r = RunQueued \<and> r_history r = JList (tp_history place) \<and> r_kind r = k \<and> r_spawn_op r = None \<and>
      r_created r = t \<and> r_goal r = sq_goal q \<and> r_workspace r = sq_workspace q \<and> r_parent r = sq_parent q \<and>
      r_root r = Some (opt_or root (r_id r)) \<and> d' = d2"
    using assms unfolding new_run_record_def k(2) Let_def i g' case_prod_conv option.case
    by (auto simp: turn_request_def simp del: encode_payload.simps split: if_splits)
  show "\<exists>n. d' = d\<lparr>db_uuid_next := n\<rparr>"
    using r g i by (auto simp: fresh_unless_def new_id_def split: if_splits)
  show "r_principal r = sq_principal q" "r_thread r = Some (tp_thread place)" "r_item r = Some a"
    "r_status r = RunQueued" "r_history r = JList (tp_history place)" "r_kind r \<noteq> KindChild" "r_spawn_op r = None"
    "r_created r = t" "r_goal r = sq_goal q" "r_workspace r = sq_workspace q" "r_parent r = sq_parent q"
    "r_root r = Some (opt_or root (r_id r))"
    using r k(1) by simp_all
qed

lemma insert_inputs_frame:
  "foldr_res (insert_input r now) xs d = Inr d' \<Longrightarrow> \<exists>ins. d' = d\<lparr>db_inputs := ins\<rparr>"
proof (induction xs arbitrary: d)
  case Nil
  then show ?case by (intro exI [of _ "db_inputs d"]) simp
next
  case (Cons x xs)
  then obtain d1 where d1: "insert_input r now x d = Inr d1" "foldr_res (insert_input r now) xs d1 = Inr d'"
    by (auto simp: bindr_Inr_iff)
  then show ?case using Cons.IH [OF d1(2)] by (auto simp: insert_input_def split: if_splits)
qed

lemma insert_bindings_frame:
  "foldr_res (insert_binding r p) xs d = Inr d' \<Longrightarrow> \<exists>bs. d' = d\<lparr>db_bindings := bs\<rparr>"
proof (induction xs arbitrary: d)
  case Nil
  then show ?case by (intro exI [of _ "db_bindings d"]) simp
next
  case (Cons x xs)
  then obtain d1 where d1: "insert_binding r p x d = Inr d1" "foldr_res (insert_binding r p) xs d1 = Inr d'"
    by (auto simp: bindr_Inr_iff)
  then show ?case using Cons.IH [OF d1(2)] by (auto simp: insert_binding_def split: if_splits)
qed

definition turn_items :: "start_request \<Rightarrow> turn_place \<Rightarrow> id \<Rightarrow> time \<Rightarrow> item_row list \<Rightarrow> item_row list" where
  "turn_items q place run now items =
    (if sq_replace q = None then items
     else update_where (\<lambda>i. visible (tp_thread place) i \<and> tp_base place < int (it_position i))
       (\<lambda>i. i\<lparr>it_superseded := Some now, it_superseded_by := Some run, it_updated := now\<rparr>) items)"

lemma insert_turn_itemsE:
  assumes "insert_turn_items q place m r a now d = Inr d'"
  obtains u n where "d' = d\<lparr>db_items := turn_items q place (r_id r) now (db_items d) @
      [user_item q place m (r_id r) u now, assistant_item q place (r_id r) a now], db_uuid_next := n\<rparr>"
    "tp_thread place \<in> th_id ` set (db_threads d)"
proof -
  let ?d1 = "if sq_replace q = None then d else supersede_items (tp_thread place) (tp_base place) (r_id r) now d"
  obtain u d2 where u: "new_id ''item'' ?d1 = (u, d2)" by fastforce
  obtain d3 where i: "insert_item (user_item q place m (r_id r) u now) d2 = Inr d3"
      "insert_item (assistant_item q place (r_id r) a now) d3 = Inr d'"
    using assms unfolding insert_turn_items_def Let_def u by (auto simp: bindr_Inr_iff)
  have d1: "?d1 = d\<lparr>db_items := turn_items q place (r_id r) now (db_items d)\<rparr>"
    by (simp add: turn_items_def supersede_items_def)
  note i1 = insert_itemD [OF i(1)] and i2 = insert_itemD [OF i(2)]
  have d2: "d2 = d\<lparr>db_items := turn_items q place (r_id r) now (db_items d), db_uuid_next := Suc (db_uuid_next d)\<rparr>"
    using new_id_sameD [OF u] unfolding d1 by simp
  have t: "tp_thread place \<in> th_id ` set (db_threads d)"
    using i1(3) by (simp add: d2 user_item_def)
  show thesis
    by (rule that [where u = u and n = "Suc (db_uuid_next d)", OF _ t]) (simp add: i2(1) i1(1) d2)
qed


lemma insert_turn_rowsE:
  assumes "insert_turn_rows c q place m bs p r a d = Inr d'"
  obtains u j where "db_runs d' = db_runs d" "db_threads d' = db_threads d"
    "db_items d' = turn_items q place (r_id r) (x_clock c 1) (db_items d) @
      [user_item q place m (r_id r) u (x_clock c 1), assistant_item q place (r_id r) a (x_clock c 1)]"
    "db_jobs d' = db_jobs d @ [j]" "j_run j = r_id r" "j_status j = JobPending" "j_kind j = ''start''"
    "j_input j = encode_payload (JObj (start_job_input q place))"
    "\<forall>x\<in>set (db_jobs d). j_run x = r_id r \<longrightarrow> \<not> active_job x"
    "db_commands d' = db_commands d @ [run_command_row q r]" "find_command (sq_principal q) (sq_command q) d = None"
    "db_cursor d' = db_cursor d + 1" "db_changes d' = db_changes d @
       [\<lparr>tc_cursor = db_cursor d + 1, tc_principal = sq_principal q, tc_thread = tp_thread place,
         tc_version = tp_version place, tc_type = (if sq_replace q = None then ''turn.started'' else ''thread.rewritten''),
         tc_run = Some (r_id r), tc_created = x_clock c 1\<rparr>]"
proof -
  obtain d1 d2 d3 where s: "foldr_res (insert_input r (x_clock c 1)) (sq_inputs q) d = Inr d1"
    "foldr_res (insert_binding r p) bs d1 = Inr d2" "insert_turn_items q place m r a (x_clock c 1) d2 = Inr d3"
    and rest: "(let d4 = insert_change (sq_principal q) (tp_thread place) (tp_version place)
           (if sq_replace q = None then ''turn.started'' else ''thread.rewritten'') (Some (r_id r)) (x_clock c 1) d3;
         (j, d5) = new_run_job_record (r_id r) ''start'' (start_job_input q place) None (x_clock c 4) d4
     in bindr (insert_run_job j d5) (insert_command (run_command_row q r))) = Inr d'"
    using assms unfolding insert_turn_rows_def bindr_Inr_iff by blast
  obtain ins bindings where f: "d2 = d\<lparr>db_inputs := ins, db_bindings := bindings\<rparr>"
    using insert_inputs_frame [OF s(1)] insert_bindings_frame [OF s(2)] by auto
  obtain u n where d3: "d3 = d2\<lparr>db_items := turn_items q place (r_id r) (x_clock c 1) (db_items d2) @
      [user_item q place m (r_id r) u (x_clock c 1), assistant_item q place (r_id r) a (x_clock c 1)], db_uuid_next := n\<rparr>"
    by (rule insert_turn_itemsE [OF s(3)])
  let ?d4 = "insert_change (sq_principal q) (tp_thread place) (tp_version place)
           (if sq_replace q = None then ''turn.started'' else ''thread.rewritten'') (Some (r_id r)) (x_clock c 1) d3"
  obtain j d5 where j: "new_run_job_record (r_id r) ''start'' (start_job_input q place) None (x_clock c 4) ?d4 = (j, d5)"
    by fastforce
  obtain d6 where d6: "insert_run_job j d5 = Inr d6" "insert_command (run_command_row q r) d6 = Inr d'"
    using rest unfolding Let_def j by (auto simp: bindr_Inr_iff)
  have j': "d5 = ?d4\<lparr>db_uuid_next := Suc (db_uuid_next ?d4)\<rparr>" "j_run j = r_id r" "j_status j = JobPending" "j_kind j = ''start''"
    "j_input j = encode_payload (JObj (start_job_input q place))"
    using j by (auto simp: new_run_job_record_def new_id_def simp del: encode_payload.simps)
  have d6': "d6 = d5\<lparr>db_jobs := db_jobs d5 @ [j]\<rparr>" "\<forall>x\<in>set (db_jobs d5). j_run x = r_id r \<longrightarrow> \<not> active_job x"
    using d6(1) j'(2,3) by (auto simp: insert_run_job_def list_ex_iff active_job_def split: if_splits)
  have d': "d' = d6\<lparr>db_commands := db_commands d6 @ [run_command_row q r]\<rparr>" "find_command (sq_principal q) (sq_command q) d6 = None"
    using d6(2) by (auto simp: insert_command_def run_command_row_def split: if_splits)
  show thesis
    by (rule that [where u = u and j = j, OF _ _ _ _ j'(2-5)])
      (use d' d6' in \<open>simp_all add: j'(1) d3 f insert_change_def find_command_def\<close>)
qed

lemma insert_seedsD:
  "insert_seeds th now k ms d = Inr d' \<Longrightarrow>
    \<exists>ss n. d' = d\<lparr>db_items := db_items d @ ss, db_uuid_next := n\<rparr> \<and>
      map it_position ss = [k..<k + length ms] \<and> (\<forall>i\<in>set ss. visible th i \<and> it_run i = None) \<and>
      map (\<lambda>i. (it_type i, it_content i)) ss = map (\<lambda>m. (fst m @ ''_message'', snd m)) ms"
proof (induction ms arbitrary: k d)
  case Nil
  then show ?case by (intro exI [of _ "[]"] exI [of _ "db_uuid_next d"]) simp
next
  case (Cons m ms)
  obtain i d1 where i: "new_id ''item'' d = (i, d1)" by fastforce
  obtain d2 where d2: "insert_item (seed_item th now i k m) d1 = Inr d2" "insert_seeds th now (k + 1) ms d2 = Inr d'"
    using Cons.prems i by (auto simp: bindr_Inr_iff)
  obtain ss n where ss: "d' = d2\<lparr>db_items := db_items d2 @ ss, db_uuid_next := n\<rparr>"
    "map it_position ss = [k + 1..<k + 1 + length ms]" "\<forall>i\<in>set ss. visible th i \<and> it_run i = None"
    "map (\<lambda>i. (it_type i, it_content i)) ss = map (\<lambda>m. (fst m @ ''_message'', snd m)) ms"
    using Cons.IH [OF d2(2)] by auto
  have d2': "d2 = d\<lparr>db_items := db_items d @ [seed_item th now i k m], db_uuid_next := Suc (db_uuid_next d)\<rparr>"
    using insert_itemD(1) [OF d2(1)] new_id_sameD [OF i] by simp
  have up: "[k..<k + length (m # ms)] = k # [k + 1..<k + 1 + length ms]"
    using upt_conv_Cons [of k "k + length (m # ms)"] by simp
  show ?case unfolding up
    by (intro exI [of _ "seed_item th now i k m # ss"] exI [of _ n])
      (use ss in \<open>simp add: d2' seed_item_def visible_def del: upt_Suc\<close>)
qed

text \<open>The two ways a turn finds its place.\<close>

lemma new_thread_placeE:
  assumes "new_thread_place q th now d = Inr (place, d')"
  obtains t ss n where "th \<notin> th_id ` set (db_threads d)" "th_id t = th" "th_principal t = sq_principal q"
    "d' = d\<lparr>db_threads := db_threads d @ [t], db_items := db_items d @ ss, db_uuid_next := n\<rparr>"
    "tp_thread place = th" "tp_version place = 1" "th_version t = 1" "tp_base place = int (length ss)"
    "map it_position ss = [1..<Suc (length ss)]" "\<forall>i\<in>set ss. visible th i \<and> it_run i = None" "sq_replace q = None"
    "map (\<lambda>i. (it_type i, it_content i)) ss = map (\<lambda>m. (fst m @ ''_message'', snd m)) (seed_messages (sq_history q))"
    "tp_history place = map (\<lambda>(role, body). chat_message role body) (seed_messages (sq_history q))"
proof -
  define t where "t = \<lparr>th_id = th, th_principal = sq_principal q,
      th_title = short_title (opt_or (sq_title q) (message_text q)),
      th_metadata = encode_payload (JObj (case sq_thread_metadata q of None \<Rightarrow> [] | Some m \<Rightarrow> m)),
      th_version = 1, th_created = now, th_updated = now, th_archived = None, th_deleted = None\<rparr>"
  obtain d1 where d1: "insert_thread t d = Inr d1" "insert_seeds th now 1 (seed_messages (sq_history q)) d1 = Inr d'"
    and pl: "tp_thread place = th \<and> tp_version place = 1 \<and> tp_base place = int (length (seed_messages (sq_history q))) \<and>
      tp_history place = map (\<lambda>(role, body). chat_message role body) (seed_messages (sq_history q))" "sq_replace q = None"
    using assms unfolding new_thread_place_def t_def [symmetric] Let_def
    by (auto simp: bindr_Inr_iff simp del: encode_payload.simps One_nat_def split: if_splits)
  obtain ss n where ss: "d' = d1\<lparr>db_items := db_items d1 @ ss, db_uuid_next := n\<rparr>"
    "map it_position ss = [1..<1 + length (seed_messages (sq_history q))]" "\<forall>i\<in>set ss. visible th i \<and> it_run i = None"
    "map (\<lambda>i. (it_type i, it_content i)) ss = map (\<lambda>m. (fst m @ ''_message'', snd m)) (seed_messages (sq_history q))"
    using insert_seedsD [OF d1(2)] by blast
  have d1': "d1 = d\<lparr>db_threads := db_threads d @ [t]\<rparr>" "th_id t \<notin> th_id ` set (db_threads d)"
    using d1(1) by (auto simp: insert_thread_def list_ex_iff split: if_splits)
  have len: "length ss = length (seed_messages (sq_history q))"
    using arg_cong [OF ss(2), of length] by (simp del: upt_Suc)
  show thesis
    by (rule that [where t = t and ss = ss and n = n]) (use ss d1' pl len in \<open>simp_all add: t_def\<close>)
qed

lemma next_turn_placeE:
  assumes "next_turn_place q t now d = Inr (place, d')"
  obtains f where "d' = set_thread (th_id t) f d" "\<And>x. th_id (f x) = th_id x" "\<And>x. th_principal (f x) = th_principal x"
    "\<And>x. th_version (f x) = th_version t + 1" "\<not> sq_new_thread q"
    "th_principal t = sq_principal q" "th_deleted t = None" "th_archived t = None"
    "\<not> unsettled_thread (sq_principal q) (th_id t) d" "base_position q (th_id t) d = Inr (tp_base place)"
    "tp_thread place = th_id t" "tp_version place = th_version t + 1"
    "tp_history place = thread_history (th_id t) (tp_base place) d"
proof -
  define f :: "thread_row \<Rightarrow> thread_row" where "f = (\<lambda>x. x\<lparr>th_version := th_version t + 1, th_title := short_title (opt_or (sq_title q) (th_title t)),
                 th_metadata := (case sq_thread_metadata q of None \<Rightarrow> th_metadata t | Some m \<Rightarrow> encode_payload (JObj m)),
                 th_updated := now\<rparr>)"
  have "d' = set_thread (th_id t) f d \<and> \<not> sq_new_thread q \<and> th_principal t = sq_principal q \<and> th_deleted t = None \<and>
    th_archived t = None \<and> \<not> unsettled_thread (sq_principal q) (th_id t) d \<and>
    base_position q (th_id t) d = Inr (tp_base place) \<and> tp_thread place = th_id t \<and> tp_version place = th_version t + 1 \<and>
    tp_history place = thread_history (th_id t) (tp_base place) (set_thread (th_id t) f d)"
    using assms unfolding next_turn_place_def Let_def f_def [symmetric]
    by (auto simp: bindr_Inr_iff split: if_splits)
  moreover have "thread_history th b (set_thread (th_id t) f d) = thread_history th b d" for th b
    by (simp add: thread_history_def set_thread_def)
  ultimately show thesis by (intro that [where f = f]) (simp_all add: f_def)
qed

text \<open>The whole acceptance of a new command.\<close>

record admitted_turn =
  ad_place :: turn_place
  ad_user :: item_row
  ad_answer :: item_row
  ad_job :: job_row
  ad_before :: db

definition turn_admitted :: "ctx \<Rightarrow> start_request \<Rightarrow> admitted_turn \<Rightarrow> run_row \<Rightarrow> db \<Rightarrow> db \<Rightarrow> bool" where
  "turn_admitted c q x r d d' \<longleftrightarrow>
     r_principal r = sq_principal q \<and> r_thread r = Some (tp_thread (ad_place x)) \<and> r_status r = RunQueued \<and>
     r_history r = JList (tp_history (ad_place x)) \<and> r_kind r \<noteq> KindChild \<and> r_item r = Some (it_id (ad_answer x)) \<and>
     db_runs d' = db_runs d @ [r] \<and> r_id r \<notin> r_id ` set (db_runs d) \<and>
     db_threads d' = db_threads (ad_before x) \<and>
     db_items d' = turn_items q (ad_place x) (r_id r) (x_clock c 1) (db_items (ad_before x)) @ [ad_user x, ad_answer x] \<and>
     (\<exists>m u. ad_user x = user_item q (ad_place x) m (r_id r) u (x_clock c 1)) \<and>
     (\<exists>a. ad_answer x = assistant_item q (ad_place x) (r_id r) a (x_clock c 1)) \<and>
     db_jobs d' = db_jobs d @ [ad_job x] \<and> j_run (ad_job x) = r_id r \<and> j_status (ad_job x) = JobPending \<and>
     j_input (ad_job x) = encode_payload (JObj (start_job_input q (ad_place x))) \<and>
     (\<forall>y\<in>set (db_jobs d). j_run y = r_id r \<longrightarrow> \<not> active_job y) \<and>
     db_commands d' = db_commands d @ [run_command_row q r] \<and> find_command (sq_principal q) (sq_command q) d = None \<and>
     db_cursor d' = db_cursor d + 1 \<and> db_changes d' = db_changes d @
       [\<lparr>tc_cursor = db_cursor d + 1, tc_principal = sq_principal q, tc_thread = tp_thread (ad_place x),
         tc_version = tp_version (ad_place x),
         tc_type = (if sq_replace q = None then ''turn.started'' else ''thread.rewritten''),
         tc_run = Some (r_id r), tc_created = x_clock c 1\<rparr>]"

text \<open>The tables a turn's place is made in.\<close>

lemma place_turn_frame:
  assumes "place_turn sha q now d = Inr (place, d1)"
  shows "\<exists>ts ss n. d1 = d\<lparr>db_threads := ts, db_items := ss, db_uuid_next := n\<rparr>"
proof -
  obtain th d0 where p: "(case sq_thread q of Some i \<Rightarrow> (principal_thread_id sha (sq_principal q) i, d) | None \<Rightarrow> new_id ''thread'' d) = (th, d0)"
    by fastforce
  then obtain n where d0: "d0 = d\<lparr>db_uuid_next := n\<rparr>"
    by (auto simp: new_id_def split: option.splits intro: that [of "db_uuid_next d"])
  show ?thesis
  proof (cases "find (\<lambda>t. th_id t = th) (db_threads d0)")
    case None
    then have "new_thread_place q th now d0 = Inr (place, d1)" using assms by (simp add: place_turn_def p)
    then show ?thesis by (rule new_thread_placeE) (auto simp: d0)
  next
    case (Some t)
    then have "next_turn_place q t now d0 = Inr (place, d1)" using assms by (simp add: place_turn_def p)
    then obtain f where "d1 = set_thread (th_id t) f d0" by (rule next_turn_placeE)
    then show ?thesis
      by (intro exI [of _ "db_threads d1"] exI [of _ "db_items d"] exI [of _ n]) (simp add: d0 set_thread_def)
  qed
qed

lemma start_turnE:
  assumes "start_turn c sha q root m bs p d = Inr (r, d')"
  obtains x where "place_turn sha q (x_clock c 1) d = Inr (ad_place x, ad_before x)" "turn_admitted c q x r d d'"
    "r_root r = Some (opt_or root (r_id r))" "r_parent r = sq_parent q" "r_workspace r = sq_workspace q"
proof -
  obtain place d1 where pl: "place_turn sha q (x_clock c 1) d = Inr (place, d1)"
    using assms by (auto simp: start_turn_def bindr_Inr_iff)
  obtain a d2 where a: "assistant_item_id sha q d1 = (a, d2)" by fastforce
  obtain d3 d4 where r: "new_run_record (x_clock c 2) (x_clock c 3) (turn_request q place a root) d2 = Inr (r, d3)"
    and i: "insert_run r d3 = Inr d4" and rows: "insert_turn_rows c q place m bs p r a d4 = Inr d'"
    using assms unfolding start_turn_def pl bindr_simps case_prod_conv a Let_def by (auto simp: bindr_Inr_iff)
  note n = new_turn_record [OF r]
  obtain ts ss k where d1: "d1 = d\<lparr>db_threads := ts, db_items := ss, db_uuid_next := k\<rparr>"
    using place_turn_frame [OF pl] by blast
  obtain k1 k2 where d3: "d3 = d1\<lparr>db_uuid_next := k1\<rparr>" using assistant_item_id_same [OF a] n(13) by auto
  have d4: "d4 = d3\<lparr>db_runs := db_runs d3 @ [r]\<rparr>" "r_id r \<notin> r_id ` set (db_runs d3)"
    using i by (auto simp: insert_run_def list_ex_iff split: if_splits)
  show thesis
  proof (rule insert_turn_rowsE [OF rows])
    fix u j
    assume w: "db_runs d' = db_runs d4" "db_threads d' = db_threads d4"
      "db_items d' = turn_items q place (r_id r) (x_clock c 1) (db_items d4) @
        [user_item q place m (r_id r) u (x_clock c 1), assistant_item q place (r_id r) a (x_clock c 1)]"
      "db_jobs d' = db_jobs d4 @ [j]" "j_run j = r_id r" "j_status j = JobPending"
      "j_input j = encode_payload (JObj (start_job_input q place))"
      "\<forall>x\<in>set (db_jobs d4). j_run x = r_id r \<longrightarrow> \<not> active_job x"
      "db_commands d' = db_commands d4 @ [run_command_row q r]" "find_command (sq_principal q) (sq_command q) d4 = None"
      "db_cursor d' = db_cursor d4 + 1" "db_changes d' = db_changes d4 @
         [\<lparr>tc_cursor = db_cursor d4 + 1, tc_principal = sq_principal q, tc_thread = tp_thread place,
           tc_version = tp_version place, tc_type = (if sq_replace q = None then ''turn.started'' else ''thread.rewritten''),
           tc_run = Some (r_id r), tc_created = x_clock c 1\<rparr>]"
    define x where "x = \<lparr>ad_place = place, ad_user = user_item q place m (r_id r) u (x_clock c 1),
      ad_answer = assistant_item q place (r_id r) a (x_clock c 1), ad_job = j, ad_before = d1\<rparr>"
    have same: "db_runs d4 = db_runs d @ [r]" "db_threads d4 = db_threads d1" "db_items d4 = db_items d1" "db_jobs d4 = db_jobs d"
      "db_commands d4 = db_commands d" "db_cursor d4 = db_cursor d" "db_changes d4 = db_changes d" "db_runs d3 = db_runs d"
      by (simp_all add: d4(1) d3 d1)
    have "it_id (ad_answer x) = a" by (simp add: x_def assistant_item_def)
    then have "turn_admitted c q x r d d'"
      unfolding turn_admitted_def using w n d4(2) same
      by (auto simp: x_def find_command_def simp del: encode_payload.simps)
    then show thesis using pl n by (intro that [where x = x]) (simp_all add: x_def)
  qed
qed


subsection \<open>The conversations\<close>

definition positions :: "id \<Rightarrow> db \<Rightarrow> nat list" where
  "positions th d = map it_position (filter (visible th) (db_items d))"

text \<open>The visible items of a thread stand at 1, 2, ..., n.\<close>

definition line_ok :: "nat list \<Rightarrow> bool" where
  "line_ok ps \<longleftrightarrow> distinct ps \<and> set ps = {1..length ps}"

definition live_run :: "db \<Rightarrow> run_row \<Rightarrow> bool" where
  "live_run d r \<longleftrightarrow> \<not> terminal_run (r_status r) \<or> (\<exists>j\<in>set (db_jobs d). j_run j = r_id r \<and> active_job j)"

definition live_turns :: "string \<Rightarrow> id \<Rightarrow> db \<Rightarrow> nat" where
  "live_turns owner th d = count_where (\<lambda>r. r_principal r = owner \<and> r_thread r = Some th \<and> live_run d r) (db_runs d)"

text \<open>The references of items, runs and jobs resolve.\<close>

definition refs_ok :: "db \<Rightarrow> bool" where
  "refs_ok d \<longleftrightarrow> (\<forall>i\<in>set (db_items d). it_thread i \<in> th_id ` set (db_threads d)) \<and>
     (\<forall>r\<in>set (db_runs d). \<forall>th. r_thread r = Some th \<longrightarrow> th \<in> th_id ` set (db_threads d)) \<and>
     (\<forall>j\<in>set (db_jobs d). j_run j \<in> r_id ` set (db_runs d))"

definition conversations_ok :: "db \<Rightarrow> bool" where
  "conversations_ok d \<longleftrightarrow> (\<forall>th. line_ok (positions th d)) \<and> (\<forall>owner th. live_turns owner th d \<le> 1) \<and> refs_ok d"

lemma line_ok_below:
  assumes "distinct ps" "set ps = {1..n}" "b \<le> n"
  shows "distinct (filter (\<lambda>p. p \<le> b) ps)" "set (filter (\<lambda>p. p \<le> b) ps) = {1..b}" "length (filter (\<lambda>p. p \<le> b) ps) = b"
proof -
  show d: "distinct (filter (\<lambda>p. p \<le> b) ps)" and s: "set (filter (\<lambda>p. p \<le> b) ps) = {1..b}" using assms by auto
  show "length (filter (\<lambda>p. p \<le> b) ps) = b" using distinct_card [OF d] unfolding s by simp
qed

lemma line_ok_turn:
  assumes "distinct ps" "set ps = {1..b}"
  shows "line_ok (ps @ [b + 1, b + 2])"
proof -
  have "length ps = b" using distinct_card [OF assms(1)] assms(2) by simp
  then show ?thesis using assms by (auto simp: line_ok_def)
qed

lemma max_of_line: "line_ok ps \<Longrightarrow> max_of ps = length ps"
proof -
  assume l: "line_ok ps"
  have "(\<forall>p\<in>set ps. p \<le> n) \<Longrightarrow> max_of ps \<le> n" for n by (induction ps) auto
  then have "max_of ps \<le> length ps" using l by (auto simp: line_ok_def)
  moreover have "length ps \<le> max_of ps"
    using l max_of_ge [of "length ps" ps] by (cases "ps = []") (auto simp: line_ok_def Suc_le_eq)
  ultimately show ?thesis by simp
qed

lemma unsettled_iff_live: "unsettled_thread owner th d \<longleftrightarrow> live_turns owner th d \<noteq> 0"
  by (auto simp: unsettled_thread_def live_turns_def live_run_def count_where_zero list_ex_iff)

lemma unknown_thread_empty:
  assumes "refs_ok d" "th \<notin> th_id ` set (db_threads d)"
  shows "filter (visible th) (db_items d) = []" "live_turns owner th d = 0"
  using assms by (auto simp: refs_ok_def filter_empty_conv visible_def live_turns_def count_where_zero)

text \<open>A turn's place: the line up to it, nobody else's items, and no live turn on the thread.\<close>

definition place_ok :: "start_request \<Rightarrow> turn_place \<Rightarrow> db \<Rightarrow> db \<Rightarrow> bool" where
  "place_ok q place d d1 \<longleftrightarrow> (\<exists>b. tp_base place = int b \<and>
     distinct (filter (\<lambda>p. p \<le> b) (positions (tp_thread place) d1)) \<and>
     set (filter (\<lambda>p. p \<le> b) (positions (tp_thread place) d1)) = {1..b} \<and>
     (sq_replace q = None \<longrightarrow> (\<forall>i\<in>set (db_items d1). visible (tp_thread place) i \<longrightarrow> it_position i \<le> b))) \<and>
   (\<forall>th. th \<noteq> tp_thread place \<longrightarrow> filter (visible th) (db_items d1) = filter (visible th) (db_items d)) \<and>
   th_id ` set (db_threads d1) = insert (tp_thread place) (th_id ` set (db_threads d)) \<and>
   live_turns (sq_principal q) (tp_thread place) d = 0 \<and>
   (\<forall>i\<in>set (db_items d1). it_thread i \<in> th_id ` set (db_threads d1))"

lemma new_thread_place_ok:
  assumes "new_thread_place q th now d = Inr (place, d1)" "refs_ok d"
  shows "place_ok q place d d1"
proof (rule new_thread_placeE [OF assms(1)])
  fix t ss n
  assume a: "th \<notin> th_id ` set (db_threads d)" "th_id t = th"
    "d1 = d\<lparr>db_threads := db_threads d @ [t], db_items := db_items d @ ss, db_uuid_next := n\<rparr>"
    "tp_thread place = th" "tp_base place = int (length ss)"
    "map it_position ss = [1..<Suc (length ss)]" "\<forall>i\<in>set ss. visible th i \<and> it_run i = None"
  note none = unknown_thread_empty [OF assms(2) a(1)]
  have vis: "filter (visible th) (db_items d1) = ss" using a(3,7) none(1) by simp
  have ps: "positions th d1 = [1..<Suc (length ss)]" unfolding positions_def vis a(6) ..
  have le: "it_position i \<le> length ss" if "i \<in> set ss" for i
  proof -
    have "it_position i \<in> set (map it_position ss)" using that by simp
    then show ?thesis unfolding a(6) by (auto simp del: upt_Suc)
  qed
  have other: "filter (visible th') (db_items d1) = filter (visible th') (db_items d)" if "th' \<noteq> th" for th'
    using a(3,7) that by (auto simp: filter_empty_conv visible_def)
  have "set (filter (\<lambda>p. p \<le> length ss) [1..<Suc (length ss)]) = {1..length ss}" by auto
  moreover have "\<forall>i\<in>set (filter (visible th) (db_items d1)). it_position i \<le> length ss"
    unfolding vis using le by blast
  then have "\<forall>i\<in>set (db_items d1). visible th i \<longrightarrow> it_position i \<le> length ss" by simp
  moreover have "\<forall>i\<in>set (db_items d1). it_thread i \<in> th_id ` set (db_threads d1)"
    using assms(2) a(2,3,7) by (auto simp: refs_ok_def visible_def)
  ultimately show ?thesis
    unfolding place_ok_def a(4) a(5) ps
    using other none(2) a(2,3) by (intro conjI exI [of _ "length ss"]) auto
qed

lemma next_turn_place_ok:
  assumes "next_turn_place q t now d = Inr (place, d1)" "t \<in> set (db_threads d)" "conversations_ok d"
  shows "place_ok q place d d1"
proof (rule next_turn_placeE [OF assms(1)])
  fix f
  assume a: "d1 = set_thread (th_id t) f d" "\<And>x. th_id (f x) = th_id x"
    "\<not> unsettled_thread (sq_principal q) (th_id t) d" "base_position q (th_id t) d = Inr (tp_base place)"
    "tp_thread place = th_id t"
  let ?th = "th_id t" and ?n = "length (positions (th_id t) d)"
  have line: "line_ok (positions ?th d)" using assms(3) by (simp add: conversations_ok_def)
  have items: "db_items d1 = db_items d" by (simp add: a(1) set_thread_def)
  have "map th_id (db_threads d1) = map th_id (db_threads d)"
    unfolding a(1) set_thread_def by (simp add: map_update_where_key a(2))
  then have ids: "th_id ` set (db_threads d1) = th_id ` set (db_threads d)" by (metis set_map)
  have member: "it_position i \<in> {1..?n}" if "i \<in> set (db_items d)" "visible ?th i" for i
    using line that by (auto simp: line_ok_def positions_def)
  obtain b where b: "tp_base place = int b" "b \<le> ?n"
    "sq_replace q = None \<longrightarrow> (\<forall>i\<in>set (db_items d). visible ?th i \<longrightarrow> it_position i \<le> b)"
  proof (cases "sq_replace q")
    case None
    then have "tp_base place = int ?n"
      using a(4) max_of_line [OF line] by (simp add: base_position_def positions_def)
    then show thesis using member by (intro that [of ?n]) auto
  next
    case (Some client)
    then obtain i where i: "i \<in> set (db_items d)" "visible ?th i" "tp_base place = int (it_position i) - 1"
      using a(4) by (auto simp: base_position_def split: option.splits dest!: find_SomeD)
    then show thesis using member [OF i(1,2)] Some by (intro that [of "it_position i - 1"]) (auto simp: of_nat_diff)
  qed
  have place: "positions ?th d1 = positions ?th d" by (simp add: positions_def items)
  note below = line_ok_below [OF _ _ b(2), of "positions ?th d"]
  have "live_turns (sq_principal q) ?th d = 0" using a(3) by (simp add: unsettled_iff_live)
  moreover have "\<forall>i\<in>set (db_items d). it_thread i \<in> th_id ` set (db_threads d)"
    using assms(3) by (simp add: conversations_ok_def refs_ok_def)
  moreover have "distinct (filter (\<lambda>p. p \<le> b) (positions ?th d)) \<and> set (filter (\<lambda>p. p \<le> b) (positions ?th d)) = {1..b}"
    using below line by (simp add: line_ok_def)
  ultimately show ?thesis
    unfolding place_ok_def a(5) place ids items using b assms(2) by (intro conjI exI [of _ b]) auto
qed

lemma place_turn_ok:
  assumes "place_turn sha q now d = Inr (place, d1)" "conversations_ok d"
  shows "place_ok q place d d1"
proof -
  obtain th d0 where p: "(case sq_thread q of Some i \<Rightarrow> (principal_thread_id sha (sq_principal q) i, d) | None \<Rightarrow> new_id ''thread'' d) = (th, d0)"
    by fastforce
  then obtain n where d0: "d0 = d\<lparr>db_uuid_next := n\<rparr>"
    by (auto simp: new_id_def split: option.splits intro: that [of "db_uuid_next d"])
  have same: "place_ok q place d0 d1 = place_ok q place d d1"
    by (simp add: place_ok_def d0 live_turns_def live_run_def)
  have ok: "conversations_ok d0"
    using assms(2) by (simp add: conversations_ok_def d0 refs_ok_def positions_def live_turns_def live_run_def)
  show ?thesis
  proof (cases "find (\<lambda>t. th_id t = th) (db_threads d0)")
    case None
    then have "new_thread_place q th now d0 = Inr (place, d1)" using assms(1) by (simp add: place_turn_def p)
    then have "place_ok q place d0 d1" by (rule new_thread_place_ok) (use ok in \<open>simp add: conversations_ok_def\<close>)
    then show ?thesis using same by simp
  next
    case (Some t)
    then have "next_turn_place q t now d0 = Inr (place, d1)" using assms(1) by (simp add: place_turn_def p)
    then have "place_ok q place d0 d1" by (rule next_turn_place_ok) (use ok find_SomeD [OF Some] in simp_all)
    then show ?thesis using same by simp
  qed
qed

lemma filter_update_where_out:
  "(\<And>x. Q x \<Longrightarrow> \<not> P (f x)) \<Longrightarrow> filter P (update_where Q f xs) = filter (\<lambda>x. P x \<and> \<not> Q x) xs"
  by (induction xs) (auto simp: update_where_def)

lemma filter_update_where_same:
  "(\<And>x. Q x \<Longrightarrow> \<not> P x \<and> \<not> P (f x)) \<Longrightarrow> filter P (update_where Q f xs) = filter P xs"
  by (induction xs) (auto simp: update_where_def)

text \<open>What of the old items a turn leaves visible: on its thread those up to its place.\<close>

lemma turn_items_line:
  assumes "tp_base place = int b"
    and "sq_replace q = None \<longrightarrow> (\<forall>i\<in>set items. visible (tp_thread place) i \<longrightarrow> it_position i \<le> b)"
  shows "map it_position (filter (visible (tp_thread place)) (turn_items q place run now items)) =
    filter (\<lambda>p. p \<le> b) (map it_position (filter (visible (tp_thread place)) items))"
proof (cases "sq_replace q")
  case None
  then show ?thesis using assms(2) by (auto simp: turn_items_def intro!: filter_id_conv [THEN iffD2, symmetric])
next
  case (Some client)
  have "filter (visible (tp_thread place)) (turn_items q place run now items) =
      filter (\<lambda>i. visible (tp_thread place) i \<and> \<not> (visible (tp_thread place) i \<and> tp_base place < int (it_position i))) items"
    unfolding turn_items_def using Some by (simp add: filter_update_where_out visible_def)
  also have "\<dots> = filter (\<lambda>i. it_position i \<le> b) (filter (visible (tp_thread place)) items)"
    by (auto simp: assms(1) intro: filter_cong)
  finally show ?thesis by (simp add: filter_map comp_def)
qed

lemma turn_items_other:
  "th \<noteq> tp_thread place \<Longrightarrow> filter (visible th) (turn_items q place run now items) = filter (visible th) items"
  unfolding turn_items_def by (auto intro!: filter_update_where_same simp: visible_def)

lemma turn_items_threads: "it_thread ` set (turn_items q place run now items) = it_thread ` set items"
proof -
  have "map it_thread (turn_items q place run now items) = map it_thread items"
    by (simp add: turn_items_def map_update_where_key)
  then show ?thesis by (metis set_map)
qed

lemma live_run_jobs:
  assumes "db_jobs d' = db_jobs d @ [j]" "j_run j = i" "r_id r \<noteq> i"
  shows "live_run d' r = live_run d r"
  using assms by (auto simp: live_run_def)

lemma turn_admitted_ok:
  assumes ok: "conversations_ok d" and t: "turn_admitted c q x r d d'" and p: "place_ok q (ad_place x) d (ad_before x)"
  shows "conversations_ok d'"
proof -
  let ?th = "tp_thread (ad_place x)" and ?d1 = "ad_before x"
  have t1: "r_principal r = sq_principal q" "r_thread r = Some ?th" "db_runs d' = db_runs d @ [r]"
    "r_id r \<notin> r_id ` set (db_runs d)" "db_threads d' = db_threads ?d1"
    "db_items d' = turn_items q (ad_place x) (r_id r) (x_clock c 1) (db_items ?d1) @ [ad_user x, ad_answer x]"
    "db_jobs d' = db_jobs d @ [ad_job x]" "j_run (ad_job x) = r_id r"
    using t by (simp_all add: turn_admitted_def)
  obtain b where b: "tp_base (ad_place x) = int b" "distinct (filter (\<lambda>p. p \<le> b) (positions ?th ?d1))"
    "set (filter (\<lambda>p. p \<le> b) (positions ?th ?d1)) = {1..b}"
    "sq_replace q = None \<longrightarrow> (\<forall>i\<in>set (db_items ?d1). visible ?th i \<longrightarrow> it_position i \<le> b)"
    using conjunct1 [OF p [unfolded place_ok_def]] by (elim exE conjE) (rule that)
  note rest = conjunct2 [OF p [unfolded place_ok_def]]
  note p1 = rest [THEN conjunct1, rule_format] rest [THEN conjunct2, THEN conjunct1]
    rest [THEN conjunct2, THEN conjunct2, THEN conjunct1] rest [THEN conjunct2, THEN conjunct2, THEN conjunct2]
  obtain m u a where items: "ad_user x = user_item q (ad_place x) m (r_id r) u (x_clock c 1)"
    "ad_answer x = assistant_item q (ad_place x) (r_id r) a (x_clock c 1)"
    using t unfolding turn_admitted_def by (elim conjE exE) (rule that)
  have new: "visible ?th (ad_user x)" "visible ?th (ad_answer x)" "it_position (ad_user x) = b + 1"
    "it_position (ad_answer x) = b + 2" "it_thread (ad_user x) = ?th" "it_thread (ad_answer x) = ?th"
    unfolding items by (simp_all add: user_item_def assistant_item_def visible_def nat_add_distrib b(1))
  have "line_ok (positions th d')" for th
  proof (cases "th = ?th")
    case True
    have "positions ?th d' = filter (\<lambda>p. p \<le> b) (positions ?th ?d1) @ [b + 1, b + 2]"
      unfolding positions_def t1(6) by (simp add: new turn_items_line [OF b(1,4)])
    then show ?thesis using line_ok_turn [OF b(2,3)] True by simp
  next
    case False
    then have "positions th d' = positions th d"
      unfolding positions_def t1(6) by (simp add: turn_items_other p1(1)) (simp add: new visible_def)
    then show ?thesis using ok by (simp add: conversations_ok_def)
  qed
  moreover have "live_turns owner th d' \<le> 1" for owner th
  proof -
    have "live_run d' y = live_run d y" if "y \<in> set (db_runs d)" for y
      by (rule live_run_jobs [OF t1(7,8)]) (use that t1(4) in \<open>metis imageI\<close>)
    then have "count_where (\<lambda>r. r_principal r = owner \<and> r_thread r = Some th \<and> live_run d' r) (db_runs d) = live_turns owner th d"
      by (auto simp: live_turns_def count_where_def intro!: arg_cong [of _ _ length] filter_cong)
    then have "live_turns owner th d' = live_turns owner th d +
        (if owner = sq_principal q \<and> th = ?th \<and> live_run d' r then 1 else 0)"
      using t1(1,2) by (auto simp: live_turns_def t1(3))
    then show ?thesis using ok p1(3) by (auto simp: conversations_ok_def)
  qed
  moreover have "refs_ok d'"
  proof -
    have "it_thread i \<in> th_id ` set (db_threads d')" if i: "i \<in> set (db_items d')" for i
    proof -
      have "it_thread i \<in> it_thread ` set (db_items ?d1) \<or> it_thread i = ?th"
        using i new(5,6) turn_items_threads [of q "ad_place x" "r_id r" "x_clock c 1" "db_items ?d1"]
        unfolding t1(6) by auto
      then show ?thesis using p1(2,4) t1(5) by auto
    qed
    then show ?thesis using ok t1 p1(2) by (auto simp: refs_ok_def conversations_ok_def)
  qed
  ultimately show ?thesis by (simp add: conversations_ok_def)
qed


subsection \<open>The conversation a run is given\<close>

definition said :: "id \<Rightarrow> int \<Rightarrow> item_row \<Rightarrow> bool" where
  "said th base i \<longleftrightarrow> visible th i \<and> int (it_position i) \<le> base \<and> message_item i \<and> it_content i \<noteq> []"

lemma seed_roles: "m \<in> set (seed_messages h) \<Longrightarrow> (fst m = ''user'' \<or> fst m = ''assistant'') \<and> snd m \<noteq> []"
  by (auto simp: seed_messages_def py_strip_def text_or_def py_or_def split: if_splits)

lemma new_thread_history:
  assumes "new_thread_place q th now d = Inr (place, d1)" "refs_ok d"
  shows "tp_history place = thread_history (tp_thread place) (tp_base place) d1"
proof (rule new_thread_placeE [OF assms(1)])
  fix t ss n
  let ?seeds = "seed_messages (sq_history q)"
  assume a: "th \<notin> th_id ` set (db_threads d)"
    "d1 = d\<lparr>db_threads := db_threads d @ [t], db_items := db_items d @ ss, db_uuid_next := n\<rparr>"
    "tp_thread place = th" "tp_base place = int (length ss)"
    "map it_position ss = [1..<Suc (length ss)]" "\<forall>i\<in>set ss. visible th i \<and> it_run i = None"
    "map (\<lambda>i. (it_type i, it_content i)) ss = map (\<lambda>m. (fst m @ ''_message'', snd m)) ?seeds"
    "tp_history place = map (\<lambda>(role, body). chat_message role body) ?seeds"
  have none: "filter (said th (int (length ss))) (db_items d) = []"
    using unknown_thread_empty(1) [OF assms(2) a(1)] by (auto simp: said_def filter_empty_conv)
  have le: "it_position i \<le> length ss" if "i \<in> set ss" for i
  proof -
    have "it_position i \<in> set (map it_position ss)" using that by simp
    then show ?thesis unfolding a(5) by (auto simp del: upt_Suc)
  qed
  have "message_item i \<and> it_content i \<noteq> []" if i: "i \<in> set ss" for i
  proof -
    have "(it_type i, it_content i) \<in> set (map (\<lambda>i. (it_type i, it_content i)) ss)" using i by force
    then show ?thesis unfolding a(7) by (auto simp: message_item_def dest!: seed_roles)
  qed
  then have "filter (said th (int (length ss))) ss = ss" using a(6) le by (auto simp: filter_id_conv said_def)
  then have said: "filter (said th (int (length ss))) (db_items d1) = ss" using none by (simp add: a(2))
  have "sorted_wrt (<) (map it_position ss)" unfolding a(5) by (rule sorted_wrt_upt)
  then have "sorted_wrt (\<lambda>i j. item_order i \<le> item_order j) ss"
    unfolding sorted_wrt_map by (rule sorted_wrt_mono_rel [rotated]) (auto simp: item_order_def less_eq_prod_def)
  then have "sort_key item_order ss = ss"
    by (intro sort_key_id_if_sorted) (simp add: sorted_map)
  then have select: "select_by item_order (said th (int (length ss))) (db_items d1) = ss"
    by (simp add: select_by_def said)
  have "map (\<lambda>i. chat_message (if it_type i = ''user_message'' then ''user'' else ''assistant'') (it_content i)) ss =
      map (\<lambda>(ty, body). chat_message (if ty = ''user_message'' then ''user'' else ''assistant'') body) (map (\<lambda>i. (it_type i, it_content i)) ss)"
    by simp
  also have "\<dots> = map (\<lambda>(role, body). chat_message role body) ?seeds"
    unfolding a(7) by (auto dest: seed_roles)
  finally show ?thesis
    unfolding thread_history_def a(3,4,8) said_def [symmetric] select by simp
qed

lemma place_turn_history:
  assumes "place_turn sha q now d = Inr (place, d1)" "conversations_ok d"
  shows "tp_history place = thread_history (tp_thread place) (tp_base place) d1"
proof -
  obtain th d0 where p: "(case sq_thread q of Some i \<Rightarrow> (principal_thread_id sha (sq_principal q) i, d) | None \<Rightarrow> new_id ''thread'' d) = (th, d0)"
    by fastforce
  then obtain n where d0: "d0 = d\<lparr>db_uuid_next := n\<rparr>"
    by (auto simp: new_id_def split: option.splits intro: that [of "db_uuid_next d"])
  show ?thesis
  proof (cases "find (\<lambda>t. th_id t = th) (db_threads d0)")
    case None
    then have "new_thread_place q th now d0 = Inr (place, d1)" using assms(1) by (simp add: place_turn_def p)
    then show ?thesis
      by (rule new_thread_history) (use assms(2) in \<open>simp add: conversations_ok_def refs_ok_def d0\<close>)
  next
    case (Some t)
    then have "next_turn_place q t now d0 = Inr (place, d1)" using assms(1) by (simp add: place_turn_def p)
    then show ?thesis
    proof (rule next_turn_placeE)
      fix f
      assume "d1 = set_thread (th_id t) f d0" "tp_thread place = th_id t"
        "tp_history place = thread_history (th_id t) (tp_base place) d0"
      then show ?thesis by (simp add: thread_history_def set_thread_def)
    qed
  qed
qed

text \<open>The turn's own items come after the history, which the turn leaves as it is.\<close>

lemma turn_keeps_history:
  assumes "turn_admitted c q x r d d'" "tp_base (ad_place x) = int b"
  shows "thread_history (tp_thread (ad_place x)) (int b) d' = thread_history (tp_thread (ad_place x)) (int b) (ad_before x)"
proof -
  let ?th = "tp_thread (ad_place x)"
  obtain m u a where items: "ad_user x = user_item q (ad_place x) m (r_id r) u (x_clock c 1)"
    "ad_answer x = assistant_item q (ad_place x) (r_id r) a (x_clock c 1)"
    using assms(1) unfolding turn_admitted_def by (elim conjE exE) (rule that)
  have d': "db_items d' = turn_items q (ad_place x) (r_id r) (x_clock c 1) (db_items (ad_before x)) @ [ad_user x, ad_answer x]"
    using assms(1) by (simp add: turn_admitted_def)
  have "filter (said ?th (int b)) (turn_items q (ad_place x) (r_id r) (x_clock c 1) (db_items (ad_before x))) =
      filter (said ?th (int b)) (db_items (ad_before x))"
    unfolding turn_items_def assms(2) by (auto intro!: filter_update_where_same simp: said_def visible_def)
  moreover have "\<not> said ?th (int b) (ad_user x)" "\<not> said ?th (int b) (ad_answer x)"
    unfolding items by (simp_all add: said_def user_item_def assistant_item_def assms(2) nat_add_distrib)
  ultimately show ?thesis
    unfolding thread_history_def said_def [symmetric] select_by_def d' by simp
qed

lemma turn_is_last:
  assumes "turn_admitted c q x r d d'" "place_ok q (ad_place x) d (ad_before x)"
  shows "filter (\<lambda>i. visible (tp_thread (ad_place x)) i \<and> tp_base (ad_place x) < int (it_position i)) (db_items d') =
    [ad_user x, ad_answer x]"
proof -
  let ?th = "tp_thread (ad_place x)"
  let ?late = "\<lambda>i. visible ?th i \<and> tp_base (ad_place x) < int (it_position i)"
  obtain b where b: "tp_base (ad_place x) = int b"
    "sq_replace q = None \<longrightarrow> (\<forall>i\<in>set (db_items (ad_before x)). visible ?th i \<longrightarrow> it_position i \<le> b)"
    using conjunct1 [OF assms(2) [unfolded place_ok_def]] by (elim exE conjE) (rule that)
  obtain m u a where items: "ad_user x = user_item q (ad_place x) m (r_id r) u (x_clock c 1)"
    "ad_answer x = assistant_item q (ad_place x) (r_id r) a (x_clock c 1)"
    using assms(1) unfolding turn_admitted_def by (elim conjE exE) (rule that)
  have d': "db_items d' = turn_items q (ad_place x) (r_id r) (x_clock c 1) (db_items (ad_before x)) @ [ad_user x, ad_answer x]"
    using assms(1) by (simp add: turn_admitted_def)
  have "filter ?late (turn_items q (ad_place x) (r_id r) (x_clock c 1) (db_items (ad_before x))) = []"
  proof (cases "sq_replace q")
    case None
    then show ?thesis using b by (auto simp: turn_items_def filter_empty_conv)
  next
    case (Some client)
    then show ?thesis
      unfolding turn_items_def by (simp add: filter_update_where_out visible_def filter_empty_conv)
  qed
  moreover have "?late (ad_user x)" "?late (ad_answer x)"
    unfolding items by (simp_all add: visible_def user_item_def assistant_item_def b(1))
  ultimately show ?thesis unfolding d' by simp
qed


subsection \<open>The steps of a conversation\<close>

lemma accept_run_commandE:
  assumes "accept_run_command c sha gone q p dq dq2 d = Inr ((x, new), d')"
  obtains "\<not> new" "d' = d"
  | r t root m bs where "new" "x = (r, sq_command q, sq_client q)"
      "place_turn sha q (x_clock c 1) d = Inr (ad_place t, ad_before t)" "turn_admitted c q t r d d'"
      "accepted_run_for_command (sq_principal q) (sq_command q) (command_envelope q) d = Inr None"
      "admit_parent q d = Inr root" "r_root r = Some (opt_or root (r_id r))" "sq_admission q = None"
      "\<not> workspace_unauthorized (sq_principal q) (sq_workspace q) d"
proof (cases new)
  case False
  then have "d' = d"
    using assms by (auto simp: accept_run_command_def Let_def bindr_Inr_iff split: option.splits if_splits)
  then show thesis using False that(1) by blast
next
  case True
  let ?lookup = "accepted_run_for_command (sq_principal q) (sq_command q) (command_envelope q)"
  obtain e1 where e1: "?lookup dq = Inr e1"
    using assms by (auto simp: accept_run_command_def Let_def bindr_Inr_iff)
  then have "e1 = None" using assms True by (cases e1) (auto simp: accept_run_command_def Let_def)
  note e1 = e1 [unfolded this]
  have open_path: "\<not> (sq_admission q = None \<and> workspace_path_error gone (sq_workspace q))"
  proof
    assume g: "sq_admission q = None \<and> workspace_path_error gone (sq_workspace q)"
    then obtain e2 where "?lookup dq2 = Inr e2" using assms e1 by (auto simp: accept_run_command_def Let_def bindr_Inr_iff)
    then show False using assms True e1 g by (cases e2) (auto simp: accept_run_command_def Let_def)
  qed
  obtain e3 where e3: "?lookup d = Inr e3"
    using assms e1 open_path by (auto simp: accept_run_command_def Let_def bindr_Inr_iff)
  then have "e3 = None" using assms True e1 open_path by (cases e3) (auto simp: accept_run_command_def Let_def)
  note l = e3 [unfolded this]
  have a: "bindr (admit_run c sha q p d) (\<lambda>(r, d1). Inr (((r, sq_command q, sq_client q), True), d1)) = Inr ((x, new), d')"
    using assms e1 l open_path by (simp add: accept_run_command_def Let_def)
  obtain r where r: "admit_run c sha q p d = Inr (r, d')" "x = (r, sq_command q, sq_client q)"
    using a by (auto simp: bindr_Inr_iff)
  then obtain root bs m where ok: "sq_admission q = None" "\<not> workspace_unauthorized (sq_principal q) (sq_workspace q) d"
    "admit_parent q d = Inr root" and s: "start_turn c sha q root m bs p d = Inr (r, d')"
    by (auto simp: admit_run_def bindr_Inr_iff split: if_splits)
  show thesis
    by (rule start_turnE [OF s]) (rule that(2) [OF True r(2) _ _ l ok(3) _ ok(1,2)])
qed

definition item_place :: "item_row \<Rightarrow> id \<times> nat \<times> bool" where
  "item_place i = (it_thread i, it_position i, it_superseded i = None)"

text \<open>
  What the rest of the store does: items stay where they are, no reference is lost, and no thread
  gets more live turns.
\<close>

definition conversation_kept :: "db \<Rightarrow> db \<Rightarrow> bool" where
  "conversation_kept d d' \<longleftrightarrow> map item_place (db_items d') = map item_place (db_items d) \<and>
     (refs_ok d \<longrightarrow> refs_ok d') \<and> (\<forall>owner th. live_turns owner th d' \<le> live_turns owner th d)"

inductive conversation_op :: "db \<Rightarrow> db \<Rightarrow> bool" where
  accept: "accept_run_command c sha gone q p dq dq2 d = Inr (x, d') \<Longrightarrow> conversation_op d d'"
| edit: "update_thread c owner th title metadata archived d = (t, d') \<Longrightarrow> conversation_op d d'"
| delete: "delete_thread c owner th d = Inr (v, d') \<Longrightarrow> conversation_op d d'"
| publish: "append_event_uncommitted run ty payload now d = Inr (e, pe, d') \<Longrightarrow> conversation_op d d'"
| touch: "touch_thread_for_run_event run ty high now d = Inr d' \<Longrightarrow> conversation_op d d'"
| project: "update_thread_projection run status ty pl high now d = Inr d' \<Longrightarrow> conversation_op d d'"
| elsewhere: "conversation_kept d d' \<Longrightarrow> conversation_op d d'"

lemma kept_positions:
  assumes "map item_place (db_items d') = map item_place (db_items d)"
  shows "positions th d' = positions th d"
proof -
  have vis: "visible th = (\<lambda>i. it_thread i = th \<and> it_superseded i = None)" by (simp add: fun_eq_iff visible_def)
  have "positions th e = map (fst \<circ> snd) (filter (\<lambda>(t, p, v). t = th \<and> v) (map item_place (db_items e)))" for e
    unfolding positions_def vis by (simp add: filter_map comp_def item_place_def)
  then show ?thesis using assms by simp
qed

lemma kept_ok: "conversation_kept d d' \<Longrightarrow> conversations_ok d \<Longrightarrow> conversations_ok d'"
  using kept_positions [of d' d] unfolding conversation_kept_def conversations_ok_def by (metis le_trans)

lemma kept_refl [simp]: "conversation_kept d d"
  by (simp add: conversation_kept_def)

lemma kept_trans: "conversation_kept a b \<Longrightarrow> conversation_kept b e \<Longrightarrow> conversation_kept a e"
  unfolding conversation_kept_def by (metis le_trans)

text \<open>A change that leaves runs and jobs alone, keeps the threads by id and the items by place.\<close>

lemma kept_threads:
  assumes "db_runs d' = db_runs d" "db_jobs d' = db_jobs d" "map th_id (db_threads d') = map th_id (db_threads d)"
    and "map item_place (db_items d') = map item_place (db_items d)"
  shows "conversation_kept d d'"
proof -
  have t: "th_id ` set (db_threads d') = th_id ` set (db_threads d)" using assms(3) by (metis set_map)
  have "map (fst \<circ> item_place) (db_items d') = map (fst \<circ> item_place) (db_items d)" using assms(4) by (metis map_map)
  then have "it_thread ` set (db_items d') = it_thread ` set (db_items d)"
    by (metis (no_types, lifting) comp_apply fst_conv item_place_def list.map_cong0 set_map)
  then have "(\<forall>i\<in>set (db_items d'). it_thread i \<in> T) \<longleftrightarrow> (\<forall>i\<in>set (db_items d). it_thread i \<in> T)" for T
    by (metis (no_types, opaque_lifting) image_iff)
  then show ?thesis
    using assms(1,2,4) t by (simp add: conversation_kept_def refs_ok_def live_turns_def live_run_def)
qed

lemma same_thread_ids: "(\<And>t. th_id (f t) = th_id t) \<Longrightarrow> map th_id (db_threads (set_thread th f d)) = map th_id (db_threads d)"
  by (simp add: set_thread_def map_update_where_key)

lemma update_thread_kept: "update_thread c owner th title metadata archived d = (t, d') \<Longrightarrow> conversation_kept d d'"
  by (auto simp: update_thread_def Let_def insert_change_def set_thread_def map_update_where_key
      split: option.splits intro!: kept_threads)

lemma delete_thread_kept: "delete_thread c owner th d = Inr (v, d') \<Longrightarrow> conversation_kept d d'"
  by (auto simp: delete_thread_def Let_def insert_change_def set_thread_def map_update_where_key
      split: option.splits if_splits intro!: kept_threads)

lemma bump_thread_kept: "conversation_kept d (bump_thread title t ty run now d)"
  by (auto simp: bump_thread_def Let_def map_update_where_key intro!: kept_threads)

lemma update_items_kept:
  "(\<And>i. item_place (f i) = item_place i) \<Longrightarrow> conversation_kept d (d\<lparr>db_items := update_where P f (db_items d)\<rparr>)"
  by (auto simp: map_update_where_key intro!: kept_threads)

lemma touch_thread_kept:
  assumes "touch_thread_for_run_event run ty high now d = Inr d'"
  shows "conversation_kept d d'"
proof -
  have "conversation_kept d (d\<lparr>db_items := update_where P (\<lambda>i. i\<lparr>it_high := max (it_high i) high, it_version := it_version i + 1,
      it_updated := now\<rparr>) (db_items d)\<rparr>)" for P
    by (rule update_items_kept) (simp add: item_place_def)
  then show ?thesis
    using assms by (auto simp: touch_thread_for_run_event_def Let_def
        split: option.splits prod.splits if_splits intro: kept_trans [OF _ bump_thread_kept])
qed

lemma update_projection_kept:
  assumes "update_thread_projection run status ty pl high now d = Inr d'"
  shows "conversation_kept d d'"
proof -
  have "conversation_kept d (d\<lparr>db_items := update_where P (\<lambda>i. i\<lparr>it_status := st, it_content := x, it_high := high,
      it_version := it_version i + 1, it_updated := now, it_completed := y\<rparr>) (db_items d)\<rparr>)" for P st x y
    by (rule update_items_kept) (simp add: item_place_def)
  then show ?thesis
    using assms by (auto simp: update_thread_projection_def Let_def
        split: option.splits prod.splits if_splits intro: kept_trans [OF _ bump_thread_kept])
qed

lemma append_row_kept:
  assumes "append_event_row run ty payload now d = Inr (e, d')"
  shows "conversation_kept d d'"
proof (rule append_event_rowE [OF assms])
  assume "db_threads d' = db_threads d" "db_items d' = db_items d" and w: "without_log d' = without_log d"
  then show ?thesis
    by (intro kept_threads [OF without_log_frame(1) [OF w] without_log_frame(2) [OF w]]) simp_all
qed

lemma append_event_kept:
  assumes "append_event_uncommitted run ty payload now d = Inr (e, pe, d')"
  shows "conversation_kept d d'"
proof -
  obtain d1 where d1: "append_event_row run ty payload now d = Inr (e, d1)"
    and rest: "d' = d1 \<or> append_child_parent_lifecycle run e (json_payload (Some payload)) d1 = Inr (pe, d')"
    using assms by (cases "child_event_of ty") (auto simp: append_event_uncommitted_def bindr_Inr_iff)
  have step: "conversation_kept d1 d'"
    if "append_event_row r ty p c d1 = Inr (e, d2)" "touch_thread_for_run_event r ty' h ts d2 = Inr d'" for r ty p c e d2 ty' h ts
    using append_row_kept [OF that(1)] touch_thread_kept [OF that(2)] by (rule kept_trans)
  have "conversation_kept d1 d'"
    if "append_child_parent_lifecycle run e (json_payload (Some payload)) d1 = Inr (pe, d')"
    using that by (auto simp: append_child_parent_lifecycle_def bindr_Inr_iff Let_def
        simp del: encode_payload.simps split: option.splits if_splits dest!: step)
  then show ?thesis using append_row_kept [OF d1] rest by (auto intro: kept_trans)
qed

lemma accept_ok:
  assumes "accept_run_command c sha gone q p dq dq2 d = Inr (x, d')" "conversations_ok d"
  shows "conversations_ok d'"
proof -
  obtain y new where x: "x = (y, new)" by fastforce
  show ?thesis
    by (rule accept_run_commandE [OF assms(1) [unfolded x]])
      (use assms(2) in \<open>auto intro: turn_admitted_ok place_turn_ok\<close>)
qed

lemma conversation_op_ok: "conversation_op d d' \<Longrightarrow> conversations_ok d \<Longrightarrow> conversations_ok d'"
  by (induction rule: conversation_op.induct)
    (blast intro: accept_ok kept_ok update_thread_kept delete_thread_kept append_event_kept touch_thread_kept update_projection_kept)+

lemma conversation_ops_ok: "conversation_op\<^sup>*\<^sup>* d d' \<Longrightarrow> conversations_ok d \<Longrightarrow> conversations_ok d'"
  by (induction rule: rtranclp_induct) (auto intro: conversation_op_ok)


subsection \<open>Properties\<close>

lemma envelope_row [simp]:
  "cm_principal (run_command_row q r) = sq_principal q" "cm_id (run_command_row q r) = sq_command q"
  "cm_client (run_command_row q r) = sq_client q" "cm_payload (run_command_row q r) = command_envelope q"
  "cm_run (run_command_row q r) = Some (r_id r)"
  by (simp_all add: run_command_row_def)

lemma turn_found:
  assumes "turn_admitted c q t r d d'"
  shows "find_command (sq_principal q) (sq_command q) d' = Some (run_command_row q r)"
    "get_owned_run (sq_principal q) (r_id r) d' = Some r"
proof -
  have t: "db_commands d' = db_commands d @ [run_command_row q r]" "find_command (sq_principal q) (sq_command q) d = None"
    "db_runs d' = db_runs d @ [r]" "r_id r \<notin> r_id ` set (db_runs d)" "r_principal r = sq_principal q"
    using assms by (simp_all add: turn_admitted_def)
  show "find_command (sq_principal q) (sq_command q) d' = Some (run_command_row q r)"
    using t(1,2) by (simp add: find_command_def find_append)
  have "find (\<lambda>x. r_principal x = sq_principal q \<and> r_id x = r_id r) (db_runs d) = None"
    using t(4) by (auto simp: find_None_iff) (metis imageI)
  then show "get_owned_run (sq_principal q) (r_id r) d' = Some r"
    using t(3,5) by (simp add: get_owned_run_def find_append)
qed

lemma no_visible_line [simp]: "line_ok []"
  by (simp add: line_ok_def)

text \<open>C31: Over any commands that start runs, edits and deletions of threads, events and projections,
  and whatever else keeps items in place: in every thread the visible messages stand at 1 to n,
  each once, also after a message was sent again in place of an earlier one, and an owner has at
  most one unsettled run on a thread.\<close>

theorem conversations_stay_in_line:
  assumes "conversation_op\<^sup>*\<^sup>* d d'" "conversations_ok d"
  shows "(\<forall>th. distinct (positions th d') \<and> set (positions th d') = {1..length (positions th d')}) \<and>
    (\<forall>owner th. live_turns owner th d' \<le> 1)"
  using conversation_ops_ok [OF assms] by (simp add: conversations_ok_def line_ok_def)

definition turn_item :: "id \<Rightarrow> string option \<Rightarrow> string \<Rightarrow> nat \<Rightarrow> item_row" where
  "turn_item i client ty n =
     \<lparr>it_id = i, it_thread = ''t'', it_run = Some ''r'', it_client = client, it_type = ty, it_status = ''completed'',
      it_content = ''text'', it_metadata = JObj [], it_position = n, it_high = 0, it_version = 1, it_created = 1,
      it_updated = 1, it_completed = Some 1, it_superseded = None, it_superseded_by = None\<rparr>"

definition turned_db :: db where
  "turned_db = empty_db
     \<lparr>db_runs := [(blank_run ''r'' RunCompleted)\<lparr>r_principal := local_owner, r_thread := Some ''t'', r_item := Some ''a''\<rparr>],
      db_jobs := [blank_job ''j'' ''r'' JobCompleted],
      db_threads := [\<lparr>th_id = ''t'', th_principal = local_owner, th_title = ''title'', th_metadata = JObj [], th_version = 1,
        th_created = 1, th_updated = 1, th_archived = None, th_deleted = None\<rparr>],
      db_items := [turn_item ''u'' (Some ''c1'') ''user_message'' 1, turn_item ''a'' None ''assistant_message'' 2]\<rparr>"

definition start_demo :: "string option \<Rightarrow> start_request" where
  "start_demo replace =
     \<lparr>sq_principal = local_owner, sq_command = ''k'', sq_client = ''c2'', sq_payload = [(''type'', JStr ''run.start'')],
      sq_goal = ''goal'', sq_workspace = None, sq_mode = ''fast'', sq_thread = Some ''t'', sq_user_input = Some ''again'',
      sq_assistant = None, sq_title = None, sq_thread_metadata = None, sq_item_metadata = None, sq_replace = replace,
      sq_new_thread = False, sq_graph_thread = None, sq_checkpoint = None, sq_definition = None, sq_input_kind = ''new'',
      sq_history = [], sq_parent = Some ''r'', sq_settings = None, sq_metadata = None, sq_admission = None, sq_refs = [],
      sq_plugin_command = None, sq_inherit = None, sq_inputs = []\<rparr>"

definition accept_demo :: "string option \<Rightarrow> (((run_row \<times> id \<times> string) \<times> bool) \<times> db) res" where
  "accept_demo replace =
     accept_run_command free_ctx (\<lambda>s. s) (\<lambda>_. False) (start_demo replace) no_plugins turned_db turned_db turned_db"

lemma turned_db_ok: "conversations_ok turned_db"
proof -
  have "positions th turned_db = (if th = ''t'' then [1, 2] else [])" for th
    by (auto simp: positions_def turned_db_def turn_item_def visible_def)
  then have "line_ok (positions th turned_db)" for th by (auto simp: line_ok_def)
  moreover have "live_turns owner th turned_db \<le> 1" for owner th
    by (simp add: live_turns_def turned_db_def)
  moreover have "refs_ok turned_db"
    by (simp add: refs_ok_def turned_db_def turn_item_def blank_run_def blank_job_def empty_db_def)
  ultimately show ?thesis by (simp add: conversations_ok_def)
qed

lemma accept_demo_runs: "returns (accept_demo (Some ''c1'')) (\<lambda>(((r, i, k), new), d').
    new \<and> positions ''t'' d' = [1, 2] \<and> length (db_items d') = 4)"
  by code_simp

lemma accept_demoE:
  obtains r i k d' where "accept_demo (Some ''c1'') = Inr (((r, i, k), True), d')" "positions ''t'' d' = [1, 2]"
    "length (db_items d') = 4"
  by (rule returnsE [OF accept_demo_runs]) auto

lemma conversations_stay_in_line_witness:
  "\<exists>x d'. accept_demo (Some ''c1'') = Inr (x, d') \<and> length (db_items d') = 4 \<and> set (positions ''t'' d') = {1, 2} \<and>
     (\<forall>owner. live_turns owner ''t'' d' \<le> 1)"
proof -
  obtain r i k d' where a: "accept_demo (Some ''c1'') = Inr (((r, i, k), True), d')" "positions ''t'' d' = [1, 2]"
    "length (db_items d') = 4" by (rule accept_demoE)
  have "conversation_op turned_db d'" by (rule conversation_op.accept [OF a(1) [unfolded accept_demo_def]])
  then have "conversation_op\<^sup>*\<^sup>* turned_db d'" by simp
  note s = conversations_stay_in_line [OF this turned_db_ok]
  have "\<forall>owner. live_turns owner ''t'' d' \<le> 1" using s by blast
  then show ?thesis using a by (intro exI [of _ "((r, i, k), True)"] exI [of _ d']) simp
qed

text \<open>C32: Over the same steps the tables stay well-typed by reference: every item stands on a thread
  there is, every run with a thread on one there is, and every job belongs to a run there is.\<close>

theorem references_resolve:
  assumes "conversation_op\<^sup>*\<^sup>* d d'" "conversations_ok d"
  shows "(\<forall>i\<in>set (db_items d'). it_thread i \<in> th_id ` set (db_threads d')) \<and>
    (\<forall>r\<in>set (db_runs d'). \<forall>th. r_thread r = Some th \<longrightarrow> th \<in> th_id ` set (db_threads d')) \<and>
    (\<forall>j\<in>set (db_jobs d'). j_run j \<in> r_id ` set (db_runs d'))"
  using conversation_ops_ok [OF assms] by (simp add: conversations_ok_def refs_ok_def)

lemma references_resolve_witness:
  "\<exists>x d'. accept_demo (Some ''c1'') = Inr (x, d') \<and> length (db_items d') = 4 \<and>
     (\<forall>i\<in>set (db_items d'). it_thread i \<in> th_id ` set (db_threads d'))"
proof -
  obtain r i k d' where a: "accept_demo (Some ''c1'') = Inr (((r, i, k), True), d')" "length (db_items d') = 4"
    by (rule accept_demoE)
  have "conversation_op turned_db d'" by (rule conversation_op.accept [OF a(1) [unfolded accept_demo_def]])
  then have "conversation_op\<^sup>*\<^sup>* turned_db d'" by simp
  note s = references_resolve [OF this turned_db_ok]
  show ?thesis using a s by (intro exI [of _ "((r, i, k), True)"] exI [of _ d']) simp
qed

text \<open>A command that was accepted is answered with its run by every later repetition, which
  writes nothing, whatever else has become of workspace, plugins or thread; the same command id
  with another message or payload is refused.\<close>

theorem run_is_admitted_once:
  assumes "accept_run_command c sha gone q p dq dq2 d = Inr ((x, True), d')"
    and "sq_principal q' = sq_principal q" "sq_command q' = sq_command q"
  shows "accept_run_command c' sha' gone' q' p' d' dq3 e =
    (if command_envelope q' = command_envelope q then Inr ((x, False), e) else Inl CommandConflictError)"
proof (rule accept_run_commandE [OF assms(1)])
  fix r t
  assume a: "x = (r, sq_command q, sq_client q)" "turn_admitted c q t r d d'"
  note f = turn_found [OF a(2)]
  have "accepted_run_for_command (sq_principal q) (sq_command q) (command_envelope q') d' =
      (if command_envelope q' = command_envelope q then Inr (Some x) else Inl CommandConflictError)"
    by (simp add: accepted_run_for_command_def f a(1))
  then show ?thesis using assms(2,3) by (simp add: accept_run_command_def Let_def)
qed simp

lemma run_is_admitted_once_witness:
  "\<exists>x d'. accept_demo (Some ''c1'') = Inr ((x, True), d') \<and>
     accept_run_command free_ctx (\<lambda>s. s) (\<lambda>_. True) (start_demo (Some ''c1'')) no_plugins d' d' d' = Inr ((x, False), d')"
proof -
  obtain r i k d' where a: "accept_demo (Some ''c1'') = Inr (((r, i, k), True), d')" by (rule accept_demoE)
  note s = run_is_admitted_once [OF a [unfolded accept_demo_def] refl refl]
  show ?thesis by (intro exI [of _ "(r, i, k)"] exI [of _ d']) (simp add: a s)
qed

text \<open>C33: A new command puts one queued run on its thread, with one pending job, after a
  conversation without a live run; the run is given exactly the messages that stand before its
  own, and its own message and the empty place of its answer are the last two of the thread.\<close>

theorem admitted_turn_is_complete:
  assumes "accept_run_command c sha gone q p dq dq2 d = Inr (((r, i, k), True), d')" "conversations_ok d"
  shows "\<exists>th b u a j. r_thread r = Some th \<and> r_status r = RunQueued \<and> db_runs d' = db_runs d @ [r] \<and>
    live_turns (sq_principal q) th d = 0 \<and> r_history r = JList (thread_history th (int b) d') \<and>
    filter (\<lambda>y. visible th y \<and> int b < int (it_position y)) (db_items d') = [u, a] \<and>
    it_type u = ''user_message'' \<and> it_client u = Some (sq_client q) \<and> it_content u = message_text q \<and>
    it_position u = b + 1 \<and> it_type a = ''assistant_message'' \<and> it_content a = [] \<and> it_position a = b + 2 \<and>
    r_item r = Some (it_id a) \<and> it_run u = Some (r_id r) \<and> it_run a = Some (r_id r) \<and>
    db_jobs d' = db_jobs d @ [j] \<and> j_run j = r_id r \<and> j_status j = JobPending"
proof (rule accept_run_commandE [OF assms(1)])
  fix r' t
  assume a: "(r, i, k) = (r', sq_command q, sq_client q)" "place_turn sha q (x_clock c 1) d = Inr (ad_place t, ad_before t)"
    "turn_admitted c q t r' d d'"
  note t = a(3) [folded conjunct1 [OF a(1) [unfolded prod.inject]]]
  have place: "place_ok q (ad_place t) d (ad_before t)" by (rule place_turn_ok [OF a(2) assms(2)])
  obtain b where b: "tp_base (ad_place t) = int b"
    using conjunct1 [OF place [unfolded place_ok_def]] by (elim exE conjE) (rule that)
  obtain m u y where items: "ad_user t = user_item q (ad_place t) m (r_id r) u (x_clock c 1)"
    "ad_answer t = assistant_item q (ad_place t) (r_id r) y (x_clock c 1)"
    using t unfolding turn_admitted_def by (elim conjE exE) (rule that)
  have h: "tp_history (ad_place t) = thread_history (tp_thread (ad_place t)) (int b) d'"
    using place_turn_history [OF a(2) assms(2)] turn_keeps_history [OF t b] b by simp
  show ?thesis
    by (intro exI [of _ "tp_thread (ad_place t)"] exI [of _ b] exI [of _ "ad_user t"] exI [of _ "ad_answer t"]
        exI [of _ "ad_job t"])
      (use t [unfolded turn_admitted_def] h turn_is_last [OF t place]
        place [unfolded place_ok_def, THEN conjunct2, THEN conjunct2, THEN conjunct2, THEN conjunct1]
        in \<open>simp add: b items user_item_def assistant_item_def nat_add_distrib\<close>)
qed simp

lemma accept_demo_next: "returns (accept_demo None) (\<lambda>(((r, i, k), new), d'). new \<and> positions ''t'' d' = [1, 2, 3, 4])"
  by code_simp

lemma admitted_turn_is_complete_witness:
  "\<exists>r i k d'. accept_demo None = Inr (((r, i, k), True), d') \<and> positions ''t'' d' = [1, 2, 3, 4] \<and>
     r_status r = RunQueued \<and> (\<exists>j. db_jobs d' = db_jobs turned_db @ [j] \<and> j_status j = JobPending)"
proof -
  obtain r i k d' where a: "accept_demo None = Inr (((r, i, k), True), d')" "positions ''t'' d' = [1, 2, 3, 4]"
    by (rule returnsE [OF accept_demo_next]) auto
  note s = admitted_turn_is_complete [OF a(1) [unfolded accept_demo_def] turned_db_ok]
  show ?thesis using a s by (intro exI [of _ r] exI [of _ i] exI [of _ k] exI [of _ d']) blast
qed

end
