(* ===== verification/Run_Configuration.thy ===== *)
theory Run_Configuration
  imports Database
begin

text \<open>
  The settings of a run (run\_configuration.py, the budget limits and validators of config.py,
  \<open>execution_policy_for_task\<close> of middleware/tool\_visibility.py): what a client may override, the
  snapshot a run is admitted with, the settings it later executes with, and the policy on model
  calls and subagents. Shown: a run's budgets stay within their limits, an override never weakens
  the input guard, a run executes with what was frozen, and the policy is the same each time it
  is derived.

  The settings of the machine are a dict from field names to values, as \<open>model_copy(update=...)\<close>
  puts any value in a field without checking it.
\<close>

subsection \<open>Budgets and the validators of the settings\<close>

definition run_budget_limits :: "string \<Rightarrow> int \<times> int" where
  "run_budget_limits field =
    (if field = ''max_model_calls'' then (1, 100) else if field = ''max_tool_retries'' then (0, 5) else (1, 20))"

definition clamp_run_budget :: "string \<Rightarrow> int \<Rightarrow> int" where
  "clamp_run_budget field v = (let (low, high) = run_budget_limits field in max low (min high v))"

definition empty_string_default :: "int \<Rightarrow> json \<Rightarrow> json" where
  "empty_string_default fallback v = (if is_str v \<and> py_strip (str_of v) = [] then JInt fallback else v)"

definition budget_fields :: "(string \<times> string) list" where
  "budget_fields = map (\<lambda>k. (k, k)) [''max_model_calls'', ''max_tool_retries'', ''research_search_limit'']"

text \<open>The validators after the library has read a number.\<close>

definition clamp_field :: "string \<Rightarrow> int \<Rightarrow> int" where
  "clamp_field field v =
    (if field = ''verification_repair_max'' then max 0 (min 3 v)
     else if field = ''repair_workflow_max'' then max 0 (min 5 v)
     else clamp_run_budget field v)"

definition field_default :: "string \<Rightarrow> int" where
  "field_default field =
    (if field = ''max_model_calls'' then 100 else if field = ''max_tool_retries'' then 2
     else if field = ''research_search_limit'' then 10 else if field = ''repair_workflow_max'' then 3 else 1)"

definition checked_field :: "string \<Rightarrow> json \<Rightarrow> json" where
  "checked_field field v =
    (case empty_string_default (field_default field) v of JInt i \<Rightarrow> JInt (clamp_field field i) | w \<Rightarrow> w)"

subsection \<open>\<open>int(raw)\<close>\<close>

text \<open>A number, the errors the code ignores (\<open>TypeError\<close>, \<open>ValueError\<close>), and the one it does not.\<close>

datatype parsed_int = IntOf int | IntInvalid | IntOverflow

definition is_digit :: "char \<Rightarrow> bool" where
  "is_digit c = (let n = (of_char c :: nat) in 48 \<le> n \<and> n \<le> 57)"

definition digits_value :: "string \<Rightarrow> int" where
  "digits_value s = foldl (\<lambda>v c. 10 * v + (int (of_char c) - 48)) 0 (filter is_digit s)"

text \<open>Digits with single underscores between them.\<close>

fun digit_groups :: "string \<Rightarrow> bool" where
  "digit_groups [] = False"
| "digit_groups [c] = is_digit c"
| "digit_groups (c # x # cs) = (is_digit c \<and> (if x = CHR ''_'' then digit_groups cs else digit_groups (x # cs)))"

definition signed_text :: "string \<Rightarrow> bool \<times> string" where
  "signed_text s = (case s of c # cs \<Rightarrow> if c = CHR ''-'' then (True, cs) else if c = CHR ''+'' then (False, cs) else (False, s)
     | [] \<Rightarrow> (False, s))"

definition int_of_text :: "string \<Rightarrow> parsed_int" where
  "int_of_text s =
    (let (neg, body) = signed_text (py_strip s)
     in if digit_groups body \<and> length (filter is_digit body) \<le> 4300
        then IntOf (if neg then - digits_value body else digits_value body) else IntInvalid)"

text \<open>The text \<open>repr\<close> prints for a float: digits, a point, an exponent; truncated towards zero.\<close>

definition int_of_float :: "string \<Rightarrow> parsed_int" where
  "int_of_float s =
    (let (neg, body) = signed_text s
     in if body = ''inf'' then IntOverflow else if body = ''nan'' then IntInvalid
        else
         (let mantissa = takeWhile (\<lambda>c. c \<noteq> CHR ''e'') body;
              (eneg, ebody) = signed_text (drop (Suc (length mantissa)) body);
              e = (if eneg then - digits_value ebody else digits_value ebody)
                - int (length (dropWhile (\<lambda>c. c \<noteq> CHR ''.'') mantissa) - 1);
              v = (if 0 \<le> e then digits_value mantissa * 10 ^ nat e else digits_value mantissa div 10 ^ nat (- e))
          in IntOf (if neg then - v else v)))"

fun py_int :: "json \<Rightarrow> parsed_int" where
  "py_int (JInt i) = IntOf i"
| "py_int (JBool b) = IntOf (if b then 1 else 0)"
| "py_int (JFloat s) = int_of_float s"
| "py_int (JStr s) = int_of_text s"
| "py_int _ = IntInvalid"

subsection \<open>What a run may override\<close>

definition guard_rank :: "string \<Rightarrow> nat" where
  "guard_rank s = (if s = ''block'' then 2 else if s = ''observe'' then 1 else 0)"

definition knob_text :: "json \<Rightarrow> string" where
  "knob_text v = py_lower (py_strip (py_str v))"

text \<open>\<open>run_settings.get("_snapshot_version") == 1\<close>\<close>

definition is_snapshot :: "dict \<Rightarrow> bool" where
  "is_snapshot rs \<longleftrightarrow> dget rs ''_snapshot_version'' \<in> {JInt 1, JBool True, JFloat ''1.0''}"

definition snapshot_fields :: "(string \<times> string) list" where
  "snapshot_fields = budget_fields @
    [(''subagents'', ''enable_subagents''), (''browser_headless'', ''browser_headless''),
     (''input_guard'', ''input_guard_mode''), (''plan_first'', ''plan_first_mode''),
     (''pii_redact'', ''pii_redact_types''), (''verification_repair_max'', ''verification_repair_max''),
     (''repair_workflow_max'', ''repair_workflow_max''), (''memory_sources'', ''memory_sources'')]"

definition apply_snapshot :: "dict \<Rightarrow> dict \<Rightarrow> dict" where
  "apply_snapshot base rs =
    (let snapshot = map (\<lambda>(k, f). (f, dget rs k)) (filter (\<lambda>(k, f). has_key rs k) snapshot_fields);
         guard = dget base ''input_guard_mode''
     in dmerge base
         (if guard_rank (py_str (dget snapshot ''input_guard_mode'')) < guard_rank (py_str guard)
          then dset ''input_guard_mode'' guard snapshot else snapshot))"

fun number_overrides :: "dict \<Rightarrow> (string \<times> string) list \<Rightarrow> dict \<Rightarrow> dict res" where
  "number_overrides rs [] ov = Inr ov"
| "number_overrides rs ((key, field) # fs) ov =
    (if dget rs key = JNull then number_overrides rs fs ov
     else (case py_int (dget rs key) of
             IntOf v \<Rightarrow> number_overrides rs fs (dset field (JInt (clamp_run_budget field v)) ov)
           | IntInvalid \<Rightarrow> number_overrides rs fs ov
           | IntOverflow \<Rightarrow> Inl PyOverflowError))"

definition switch_value :: "json \<Rightarrow> bool" where
  "switch_value v = (case v of JBool b \<Rightarrow> b | _ \<Rightarrow> knob_text v \<in> {''1'', ''true'', ''yes'', ''on''})"

definition switch_override :: "dict \<Rightarrow> string \<Rightarrow> string \<Rightarrow> dict \<Rightarrow> dict" where
  "switch_override rs key field ov =
    (if dget rs key = JNull then ov else dset field (JBool (switch_value (dget rs key))) ov)"

definition plan_override :: "dict \<Rightarrow> dict \<Rightarrow> dict" where
  "plan_override rs ov =
    (let v = knob_text (dget rs ''plan_first'')
     in if dget rs ''plan_first'' \<noteq> JNull \<and> v \<in> {''off'', ''auto'', ''always''}
        then dset ''plan_first_mode'' (JStr v) ov else ov)"

definition guard_override :: "dict \<Rightarrow> dict \<Rightarrow> dict \<Rightarrow> dict" where
  "guard_override base rs ov =
    (let v = knob_text (dget rs ''input_guard'')
     in if dget rs ''input_guard'' \<noteq> JNull \<and> v \<in> {''off'', ''observe'', ''block''} \<and>
           guard_rank (knob_text (dget base ''input_guard_mode'')) < guard_rank v
        then dset ''input_guard_mode'' (JStr v) ov else ov)"

definition apply_advanced_overrides :: "dict \<Rightarrow> dict \<Rightarrow> dict res" where
  "apply_advanced_overrides base rs =
    (if is_snapshot rs then Inr (apply_snapshot base rs)
     else bindr (number_overrides rs budget_fields []) (\<lambda>ov.
       Inr (dmerge base (guard_override base rs (plan_override rs
         (switch_override rs ''browser_headless'' ''browser_headless''
           (switch_override rs ''subagents'' ''enable_subagents'' ov)))))))"

subsection \<open>The snapshot of a run\<close>

definition public_setting_keys :: "string list" where
  "public_setting_keys =
    [''memory'', ''skills'', ''mcp'', ''mcp_disabled'', ''max_model_calls'', ''max_tool_retries'',
     ''research_search_limit'', ''subagents'', ''browser_headless'', ''input_guard'', ''plan_first'', ''permission_mode'']"

definition public_run_settings :: "dict option \<Rightarrow> dict" where
  "public_run_settings raw =
     filter (\<lambda>(k, v). k \<in> set public_setting_keys) (case raw of None \<Rightarrow> [] | Some d \<Rightarrow> d)"

definition disabled_servers :: "dict \<Rightarrow> string list" where
  "disabled_servers public =
    (case dget public ''mcp_disabled'' of
       JList names \<Rightarrow> sort (remdups (filter (\<lambda>s. s \<noteq> []) (map (\<lambda>v. py_strip (str_of v)) (filter is_str names))))
     | _ \<Rightarrow> [])"

definition toggle :: "dict \<Rightarrow> string \<Rightarrow> string" where
  "toggle public name =
    (if has_key public name \<and> knob_text (dget public name) = ''off'' then ''off'' else ''on'')"

definition frozen_permission :: "dict \<Rightarrow> string" where
  "frozen_permission public =
    (let v = py_lower (py_strip (text_or (dget public ''permission_mode'') ''ask''))
     in if v \<in> {''ask'', ''auto'', ''full_access''} then v else ''ask'')"

definition freeze_run_settings :: "dict \<Rightarrow> dict option \<Rightarrow> dict res" where
  "freeze_run_settings base raw =
    (let public = public_run_settings raw
     in bindr (apply_advanced_overrides base public) (\<lambda>eff.
       Inr ([(''_snapshot_version'', JInt 1), (''memory'', JStr (toggle public ''memory'')),
             (''skills'', JStr (toggle public ''skills'')), (''mcp'', JStr (toggle public ''mcp'')),
             (''mcp_disabled'', JList (map JStr (disabled_servers public))),
             (''permission_mode'', JStr (frozen_permission public))] @
            map (\<lambda>(k, f). (k, dget eff f)) snapshot_fields)))"

definition is_alnum :: "char \<Rightarrow> bool" where
  "is_alnum c = (let n = (of_char c :: nat) in
     (48 \<le> n \<and> n \<le> 57) \<or> (65 \<le> n \<and> n \<le> 90) \<or> (97 \<le> n \<and> n \<le> 122) \<or>
     n \<in> {170, 178, 179, 181, 185, 186, 188, 189, 190} \<or> (192 \<le> n \<and> n \<noteq> 215 \<and> n \<noteq> 247))"

definition keep_text :: "dict \<Rightarrow> (string \<Rightarrow> bool) \<Rightarrow> string \<Rightarrow> dict" where
  "keep_text m ok key =
    (case dget m key of JStr s \<Rightarrow> if ok s then [(key, JStr s)] else [] | _ \<Rightarrow> [])"

definition sanitize_run_metadata :: "dict option \<Rightarrow> dict" where
  "sanitize_run_metadata raw =
    (let m = (case raw of None \<Rightarrow> [] | Some d \<Rightarrow> d);
         intent = py_lower (py_strip (text_or (dget m ''intent'') []));
         short = (\<lambda>s. s \<noteq> [] \<and> length s \<le> 128);
         code = (\<lambda>s. s \<noteq> [] \<and> length s \<le> 64 \<and> (\<forall>c\<in>set s. is_alnum c \<or> c = CHR ''_'' \<or> c = CHR ''-''))
     in (if intent \<in> {''repair'', ''retry''} then [(''intent'', JStr intent)] else []) @
        keep_text m short ''source_run_id'' @ keep_text m short ''source_message_id'' @
        (case dget m ''attempt'' of JInt n \<Rightarrow> if 1 \<le> n \<and> n \<le> 100 then [(''attempt'', JInt n)] else [] | _ \<Rightarrow> []) @
        keep_text m code ''failure_category'' @ keep_text m code ''failure_action_kind'')"

subsection \<open>The execution policy\<close>

text \<open>
  \<open>looks_complex\<close> is the scan of the goal by regular expressions (middleware/plan\_first.py). The
  signals with characters above 255 never match a modelled text and are left out.
\<close>

definition simple_question :: "string \<Rightarrow> bool" where
  "simple_question s =
     list_ex (\<lambda>p. starts_with p s) [''what is '', ''what are '', ''who is '', ''how many '', ''define '']"

definition collaboration_signals :: "string list" where
  "collaboration_signals =
    [''use the task tool'', ''using the task tool'', ''delegate'', ''subagent'', ''sub-agent'', ''researcher agent'',
     ''team.run'', ''child.spawn'', ''use child.spawn'', ''child.spawn'', ''required child'', ''child agent'', ''mailbox'']"

definition execution_policy_for_task :: "(string \<Rightarrow> bool) \<Rightarrow> string \<Rightarrow> dict" where
  "execution_policy_for_task looks_complex goal =
    (let t = py_lower goal;
         complex = (\<not> simple_question (py_strip t) \<and> py_strip goal \<noteq> [] \<and> looks_complex goal);
         together = list_ex (\<lambda>s. contains s t) collaboration_signals
     in [(''complexity'', JStr (if complex then ''complex'' else ''simple'')),
         (''subagent_allowed'', JBool (complex \<or> together)),
         (''reason'', JStr (if complex then ''complex_task'' else if together then ''explicit_collaboration'' else ''simple_task''))])"

definition soft_limit_for_complexity :: "int \<Rightarrow> string \<Rightarrow> int" where
  "soft_limit_for_complexity configured complexity =
     max 1 (min configured (if complexity = ''simple'' then 12 else 24))"

definition final_reserve :: "int \<Rightarrow> int" where
  "final_reserve hard = min 2 (max 1 hard)"

definition positive_int :: "json \<Rightarrow> bool" where
  "positive_int v \<longleftrightarrow> is_int v \<and> 0 < int_of v"

definition natural_int :: "json \<Rightarrow> bool" where
  "natural_int v \<longleftrightarrow> (case v of JInt i \<Rightarrow> 0 \<le> i | _ \<Rightarrow> False)"

definition stored_policy :: "dict \<Rightarrow> dict option" where
  "stored_policy s =
    (case dget s ''_execution_policy'' of
       JObj p \<Rightarrow> if dget p ''complexity'' \<in> {JStr ''simple'', JStr ''complex''} then Some p else None
     | _ \<Rightarrow> None)"

definition hard_limit :: "dict \<Rightarrow> dict \<Rightarrow> int" where
  "hard_limit p s =
    (let stored = dget p ''max_model_calls''; configured = dget s ''max_model_calls''
     in if positive_int stored then int_of stored
        else max 1 (if positive_int configured then int_of configured else 100))"

definition stored_within :: "json \<Rightarrow> int \<Rightarrow> int \<Rightarrow> int" where
  "stored_within stored hard fallback = (if positive_int stored then max 1 (min hard (int_of stored)) else fallback)"

definition concurrency :: "dict \<Rightarrow> bool \<Rightarrow> int \<times> int" where
  "concurrency p allowed =
    (let most = (if natural_int (dget p ''max_concurrent_subagent_tasks'') then int_of (dget p ''max_concurrent_subagent_tasks'') else 5);
         preferred = min (if natural_int (dget p ''preferred_subagent_concurrency'')
                          then int_of (dget p ''preferred_subagent_concurrency'') else 3) most
     in if allowed then (preferred, most) else (0, 0))"

definition execution_policy_snapshot :: "(string \<Rightarrow> bool) \<Rightarrow> string \<Rightarrow> dict \<Rightarrow> dict" where
  "execution_policy_snapshot looks_complex goal s =
    (let p = (case stored_policy s of Some p \<Rightarrow> p | None \<Rightarrow> execution_policy_for_task looks_complex goal);
         hard = hard_limit p s;
         soft = stored_within (dget p ''soft_model_call_limit'') hard
           (soft_limit_for_complexity hard (py_str (dget p ''complexity'')));
         reserve = stored_within (dget p ''final_model_call_reserve'') hard (final_reserve hard);
         allowed = (truthy (dget p ''subagent_allowed'') \<and> dget s ''subagents'' \<noteq> JBool False);
         (preferred, most) = concurrency p allowed
     in dmerge p [(''max_model_calls'', JInt hard), (''soft_model_call_limit'', JInt soft),
          (''final_model_call_reserve'', JInt reserve), (''subagent_budget_mode'', JStr ''shared_model_budget''),
          (''preferred_subagent_concurrency'', JInt preferred), (''max_concurrent_subagent_tasks'', JInt most)])"


subsection \<open>Overrides\<close>

text \<open>The three budgets of a run are numbers within their limits.\<close>

definition within_limits :: "dict \<Rightarrow> bool" where
  "within_limits d \<longleftrightarrow> (\<forall>(k, f)\<in>set budget_fields. \<exists>v. dget d f = JInt v \<and>
     fst (run_budget_limits f) \<le> v \<and> v \<le> snd (run_budget_limits f))"

definition guard_strength :: "dict \<Rightarrow> nat" where
  "guard_strength d = guard_rank (knob_text (dget d ''input_guard_mode''))"

definition machine_fields :: "string list" where
  "machine_fields = [''pii_redact_types'', ''verification_repair_max'', ''repair_workflow_max'', ''memory_sources'']"

lemma clamp_within: "fst (run_budget_limits f) \<le> clamp_run_budget f v \<and> clamp_run_budget f v \<le> snd (run_budget_limits f)"
  by (auto simp: clamp_run_budget_def run_budget_limits_def)

lemma public_settings_live: "\<not> is_snapshot (public_run_settings raw)"
proof -
  have "map_of (public_run_settings raw) ''_snapshot_version'' = None"
    by (auto simp: map_of_eq_None_iff public_run_settings_def public_setting_keys_def)
  then show ?thesis by (simp add: is_snapshot_def dget_def)
qed

text \<open>What the numbers among the overrides are: clamped, and nothing else.\<close>

definition numbers_only :: "dict \<Rightarrow> bool" where
  "numbers_only ov \<longleftrightarrow> distinct (map fst ov) \<and>
     (\<forall>f v. map_of ov f = Some v \<longrightarrow> f \<in> snd ` set budget_fields \<and> (\<exists>n. v = JInt (clamp_run_budget f n)))"

lemma numbers_onlyD:
  "numbers_only ov \<Longrightarrow> map_of ov f = Some v \<Longrightarrow> f \<in> snd ` set budget_fields \<and> (\<exists>n. v = JInt (clamp_run_budget f n))"
  unfolding numbers_only_def by blast

lemma guard_no_budget: "''input_guard_mode'' \<notin> snd ` set budget_fields"
  by (simp add: budget_fields_def)

lemma number_overrides_only:
  "number_overrides rs fs ov = Inr ov' \<Longrightarrow> set fs \<subseteq> set budget_fields \<Longrightarrow> numbers_only ov \<Longrightarrow> numbers_only ov'"
proof (induction rs fs ov rule: number_overrides.induct)
  case (2 rs key field fs ov)
  have step: "numbers_only (dset field (JInt (clamp_run_budget field n)) ov)" for n
    using "2.prems"(2,3) by (force simp: numbers_only_def)
  show ?case using "2.IH" "2.prems" step by (auto split: if_splits parsed_int.splits)
qed simp


lemma switch_override_other: "f \<noteq> field \<Longrightarrow> map_of (switch_override rs k field ov) f = map_of ov f"
  by (simp add: switch_override_def)

lemma plan_override_other: "f \<noteq> ''plan_first_mode'' \<Longrightarrow> map_of (plan_override rs ov) f = map_of ov f"
  by (simp add: plan_override_def Let_def)

lemma guard_override_other: "f \<noteq> ''input_guard_mode'' \<Longrightarrow> map_of (guard_override base rs ov) f = map_of ov f"
  by (simp add: guard_override_def Let_def)

lemma overrides_distinct:
  "distinct (map fst ov) \<Longrightarrow> distinct (map fst (switch_override rs k field ov))"
  "distinct (map fst ov) \<Longrightarrow> distinct (map fst (plan_override rs ov))"
  "distinct (map fst ov) \<Longrightarrow> distinct (map fst (guard_override base rs ov))"
  by (simp_all add: switch_override_def plan_override_def guard_override_def Let_def)

lemma guard_overrideD:
  assumes "map_of (guard_override base rs ov) ''input_guard_mode'' = Some v" "map_of ov ''input_guard_mode'' = None"
  shows "\<exists>s. v = JStr s \<and> guard_strength base < guard_rank s \<and> s \<in> {''off'', ''observe'', ''block''}"
  using assms by (auto simp: guard_override_def guard_strength_def Let_def split: if_splits)

text \<open>The settings a live override makes, field by field.\<close>

lemma live_override_field:
  assumes "apply_advanced_overrides base rs = Inr eff" "\<not> is_snapshot rs"
  obtains (number) n where "f \<in> snd ` set budget_fields" "dget eff f = JInt (clamp_run_budget f n)"
  | (same) "dget eff f = dget base f" "f \<notin> {''enable_subagents'', ''browser_headless'', ''plan_first_mode''}"
  | (switch) "f \<in> {''enable_subagents'', ''browser_headless'', ''plan_first_mode''}"
  | (guard) s where "f = ''input_guard_mode''" "dget eff f = JStr s" "guard_strength base < guard_rank s" "s \<in> {''off'', ''observe'', ''block''}"
proof -
  obtain ov where ov: "number_overrides rs budget_fields [] = Inr ov"
    using assms by (auto simp: apply_advanced_overrides_def bindr_Inr_iff)
  define ov1 where "ov1 = plan_override rs (switch_override rs ''browser_headless'' ''browser_headless''
      (switch_override rs ''subagents'' ''enable_subagents'' ov))"
  have no: "numbers_only ov" by (rule number_overrides_only [OF ov]) (simp_all add: numbers_only_def)
  have eff: "eff = dmerge base (guard_override base rs ov1)"
    using assms ov by (simp add: apply_advanced_overrides_def ov1_def)
  have "distinct (map fst (guard_override base rs ov1))"
    unfolding ov1_def by (intro overrides_distinct) (use no in \<open>simp add: numbers_only_def\<close>)
  note get = dget_dmerge [OF this, of base, folded eff]
  have none: "dget eff f = dget base f" if "map_of (guard_override base rs ov1) f = None"
    unfolding get using that by (simp add: has_key_def)
  have some: "dget eff f = v" if "map_of (guard_override base rs ov1) f = Some v" for v
    unfolding get using that by (simp add: has_key_def dget_def)
  let ?switches = "{''enable_subagents'', ''browser_headless'', ''plan_first_mode''}"
  have ov1: "map_of ov1 f = map_of ov f" if "f \<notin> ?switches"
  proof -
    have f: "f \<noteq> ''plan_first_mode''" "f \<noteq> ''browser_headless''" "f \<noteq> ''enable_subagents''" using that by blast+
    show ?thesis unfolding ov1_def
      by (rule trans [OF plan_override_other [OF f(1)]
        trans [OF switch_override_other [OF f(2)] switch_override_other [OF f(3)]]])
  qed
  show thesis
  proof (cases "f \<in> ?switches"; cases "f = ''input_guard_mode''")
    assume "f \<in> ?switches"
    then show thesis by (rule that(3))
    then show thesis .
  next
    assume 2: "f \<notin> ?switches" "f = ''input_guard_mode''"
    have unset: "map_of ov1 f = None"
      using ov1 [OF 2(1)] numbers_onlyD [OF no, of f] guard_no_budget unfolding 2(2) by (cases "map_of ov f") auto
    show thesis
    proof (cases "map_of (guard_override base rs ov1) f")
      case None
      from none [OF this] 2(1) show thesis by (rule that(2))
    next
      case (Some v)
      obtain s where "v = JStr s" "guard_strength base < guard_rank s" "s \<in> {''off'', ''observe'', ''block''}"
        using guard_overrideD Some unset unfolding 2(2) by blast
      moreover have "dget eff f = v" using Some by (rule some)
      ultimately show thesis using that(4) 2(2) by blast
    qed
  next
    assume 3: "f \<notin> ?switches" "f \<noteq> ''input_guard_mode''"
    have m: "map_of (guard_override base rs ov1) f = map_of ov f"
      using guard_override_other [OF 3(2)] ov1 [OF 3(1)] by simp
    show thesis
    proof (cases "map_of ov f")
      case None
      then have "dget eff f = dget base f" using none m by simp
      then show thesis using 3(1) by (rule that(2))
    next
      case (Some v)
      then have "f \<in> snd ` set budget_fields" "\<exists>n. v = JInt (clamp_run_budget f n)" using numbers_onlyD [OF no] by blast+
      moreover have "dget eff f = v" using Some m some by simp
      ultimately show thesis using that(1) by blast
    qed
  qed
qed

lemma knob_text_modes:
  "knob_text (JStr ''off'') = ''off''" "knob_text (JStr ''observe'') = ''observe''" "knob_text (JStr ''block'') = ''block''"
  by code_simp+

lemma guard_rank_strength: "s \<in> {''off'', ''observe'', ''block''} \<Longrightarrow> knob_text (JStr s) = s"
  using knob_text_modes by blast

text \<open>What a client sends never leaves the limits of the machine.\<close>

lemma live_overrides_within:
  assumes "apply_advanced_overrides base rs = Inr eff" "\<not> is_snapshot rs" "within_limits base"
  shows "within_limits eff" "guard_strength base \<le> guard_strength eff"
    "\<forall>f\<in>set machine_fields. dget eff f = dget base f"
proof -
  show "within_limits eff"
    unfolding within_limits_def
  proof (intro ballI, clarify)
    fix k f assume kf: "(k, f) \<in> set budget_fields"
    show "\<exists>v. dget eff f = JInt v \<and> fst (run_budget_limits f) \<le> v \<and> v \<le> snd (run_budget_limits f)"
    proof (cases rule: live_override_field [OF assms(1,2), of f, case_names number same switch guard])
      case (number n)
      then show ?thesis using clamp_within by blast
    next
      case same
      then show ?thesis using assms(3) kf by (auto simp: within_limits_def)
    qed (use kf in \<open>auto simp: budget_fields_def\<close>)
  qed
  show "guard_strength base \<le> guard_strength eff"
  proof (cases rule: live_override_field [OF assms(1,2), of "''input_guard_mode''", case_names number same switch guard])
    case (guard s)
    then show ?thesis by (simp add: guard_strength_def guard_rank_strength)
  next
    case (number n)
    then show ?thesis by (simp add: budget_fields_def)
  next
    case same
    then show ?thesis by (simp add: guard_strength_def)
  qed simp
  show "\<forall>f\<in>set machine_fields. dget eff f = dget base f"
  proof
    fix f assume f: "f \<in> set machine_fields"
    show "dget eff f = dget base f"
      by (cases rule: live_override_field [OF assms(1,2), of f, case_names number same switch guard])
        (use f in \<open>auto simp: machine_fields_def budget_fields_def\<close>)
  qed
qed


subsection \<open>A run executes with what was frozen\<close>

definition proper_guard :: "dict \<Rightarrow> bool" where
  "proper_guard d \<longleftrightarrow> dget d ''input_guard_mode'' \<in> {JStr ''off'', JStr ''observe'', JStr ''block''}"

lemma proper_guard_strength:
  "v \<in> {JStr ''off'', JStr ''observe'', JStr ''block''} \<Longrightarrow> guard_rank (knob_text v) = guard_rank (py_str v)"
  using knob_text_modes by auto

lemma frozen_fields:
  assumes "freeze_run_settings base raw = Inr snap"
  obtains eff where "apply_advanced_overrides base (public_run_settings raw) = Inr eff" "is_snapshot snap"
    "map (\<lambda>(k, f). (f, dget snap k)) (filter (\<lambda>(k, f). has_key snap k) snapshot_fields) =
     map (\<lambda>(k, f). (f, dget eff f)) snapshot_fields"
proof -
  obtain eff where eff: "apply_advanced_overrides base (public_run_settings raw) = Inr eff"
    using assms by (auto simp: freeze_run_settings_def Let_def bindr_Inr_iff)
  have "\<exists>a b c e g. snap = (''_snapshot_version'', JInt 1) # (''memory'', a) # (''skills'', b) # (''mcp'', c) #
      (''mcp_disabled'', e) # (''permission_mode'', g) # map (\<lambda>(k, f). (k, dget eff f)) snapshot_fields"
    using assms eff by (auto simp: freeze_run_settings_def Let_def)
  then obtain a b c e g where snap: "snap = (''_snapshot_version'', JInt 1) # (''memory'', a) # (''skills'', b) # (''mcp'', c) #
      (''mcp_disabled'', e) # (''permission_mode'', g) # map (\<lambda>(k, f). (k, dget eff f)) snapshot_fields" by blast
  have "is_snapshot snap" by (simp add: snap is_snapshot_def)
  moreover have "map (\<lambda>(k, f). (f, dget snap k)) (filter (\<lambda>(k, f). has_key snap k) snapshot_fields) =
     map (\<lambda>(k, f). (f, dget eff f)) snapshot_fields"
    by (simp add: snap snapshot_fields_def budget_fields_def)
  ultimately show thesis using that eff by blast
qed

text \<open>The settings a frozen run executes with, whatever the machine's settings are by then.\<close>

lemma thawed_settings:
  assumes "freeze_run_settings base raw = Inr snap"
  obtains eff eff' where "apply_advanced_overrides base (public_run_settings raw) = Inr eff"
    "apply_advanced_overrides base' snap = Inr eff'"
    "\<forall>f\<in>snd ` set snapshot_fields. f \<noteq> ''input_guard_mode'' \<longrightarrow> dget eff' f = dget eff f"
    "dget eff' ''input_guard_mode'' =
      (if guard_rank (py_str (dget eff ''input_guard_mode'')) < guard_rank (py_str (dget base' ''input_guard_mode''))
       then dget base' ''input_guard_mode'' else dget eff ''input_guard_mode'')"
proof -
  obtain eff where eff: "apply_advanced_overrides base (public_run_settings raw) = Inr eff" "is_snapshot snap"
    "map (\<lambda>(k, f). (f, dget snap k)) (filter (\<lambda>(k, f). has_key snap k) snapshot_fields) =
     map (\<lambda>(k, f). (f, dget eff f)) snapshot_fields"
    by (rule frozen_fields [OF assms])
  define fs where "fs = map (\<lambda>(k, f). (f, dget eff f)) snapshot_fields"
  define guarded where "guarded = (if guard_rank (py_str (dget fs ''input_guard_mode'')) < guard_rank (py_str (dget base' ''input_guard_mode''))
       then dset ''input_guard_mode'' (dget base' ''input_guard_mode'') fs else fs)"
  have g: "dget fs ''input_guard_mode'' = dget eff ''input_guard_mode''"
    by (simp add: fs_def snapshot_fields_def budget_fields_def)
  have d: "distinct (map fst fs)" by (simp add: fs_def snapshot_fields_def budget_fields_def)
  have keys: "has_key fs f \<and> dget fs f = dget eff f" if "f \<in> snd ` set snapshot_fields" for f
    using that by (auto simp: fs_def snapshot_fields_def budget_fields_def)
  have guard: "''input_guard_mode'' \<in> snd ` set snapshot_fields" by (simp add: snapshot_fields_def)
  have "apply_advanced_overrides base' snap = Inr (dmerge base' guarded)"
    using eff(2,3) by (simp add: apply_advanced_overrides_def apply_snapshot_def guarded_def fs_def Let_def)
  moreover have "distinct (map fst guarded)" using d by (simp add: guarded_def)
  note get = dget_dmerge [OF this, of base']
  have "\<forall>f\<in>snd ` set snapshot_fields. f \<noteq> ''input_guard_mode'' \<longrightarrow> dget (dmerge base' guarded) f = dget eff f"
    unfolding get using keys by (simp add: guarded_def)
  moreover have "dget (dmerge base' guarded) ''input_guard_mode'' =
      (if guard_rank (py_str (dget eff ''input_guard_mode'')) < guard_rank (py_str (dget base' ''input_guard_mode''))
       then dget base' ''input_guard_mode'' else dget eff ''input_guard_mode'')"
    unfolding get using keys [OF guard] g by (simp add: guarded_def)
  ultimately show thesis using that eff(1) by blast
qed

lemma field_groups:
  "(k, f) \<in> set budget_fields \<Longrightarrow> f \<in> snd ` set snapshot_fields \<and> f \<noteq> ''input_guard_mode''"
  "f \<in> set machine_fields \<Longrightarrow> f \<in> snd ` set snapshot_fields \<and> f \<noteq> ''input_guard_mode''"
  by (auto simp: snapshot_fields_def budget_fields_def machine_fields_def)

text \<open>The rank of a guard by its raw text, as the snapshot path reads it.\<close>

definition guard_as_spelled :: "dict \<Rightarrow> nat" where
  "guard_as_spelled d = guard_rank (py_str (dget d ''input_guard_mode''))"

lemma spelled_le_rank: "guard_rank (py_str v) \<le> guard_rank (knob_text v)"
proof -
  have "py_lower (py_strip ''block'') = ''block''" "py_lower (py_strip ''observe'') = ''observe''" by code_simp+
  then show ?thesis by (simp add: guard_rank_def knob_text_def)
qed

lemma proper_as_spelled: "proper_guard d \<Longrightarrow> guard_as_spelled d = guard_strength d"
  using proper_guard_strength by (simp add: proper_guard_def guard_as_spelled_def guard_strength_def)

lemma settings_hold_spelled:
  assumes frozen: "freeze_run_settings base raw = Inr snap"
    and thawed: "apply_advanced_overrides base' snap = Inr eff" and base: "within_limits base"
  shows "within_limits eff" "\<forall>f\<in>set machine_fields. dget eff f = dget base f"
    "guard_as_spelled base \<le> guard_strength eff" "guard_as_spelled base' \<le> guard_strength eff"
proof -
  let ?g = "''input_guard_mode''"
  obtain e where e: "apply_advanced_overrides base (public_run_settings raw) = Inr e"
    "\<forall>f\<in>snd ` set snapshot_fields. f \<noteq> ?g \<longrightarrow> dget eff f = dget e f"
    "dget eff ?g = (if guard_rank (py_str (dget e ?g)) < guard_rank (py_str (dget base' ?g)) then dget base' ?g else dget e ?g)"
    using thawed by (rule_tac base' = base' in thawed_settings [OF frozen]) auto
  note live = live_overrides_within [OF e(1) public_settings_live base]
  show "within_limits eff"
    using live(1) field_groups(1) e(2) by (fastforce simp: within_limits_def)
  show "\<forall>f\<in>set machine_fields. dget eff f = dget base f"
  proof
    fix f assume f: "f \<in> set machine_fields"
    have "dget eff f = dget e f" using e(2) field_groups(2) [OF f] by blast
    then show "dget eff f = dget base f" using live(3) f by simp
  qed
  have "guard_as_spelled base \<le> guard_as_spelled e"
  proof (cases rule: live_override_field [OF e(1) public_settings_live, of ?g, case_names number same switch guard])
    case (guard s)
    then show ?thesis using spelled_le_rank [of "dget base ?g"] by (simp add: guard_as_spelled_def guard_strength_def)
  next
    case (number n)
    then show ?thesis by (simp add: budget_fields_def)
  qed (simp_all add: guard_as_spelled_def)
  moreover have "guard_as_spelled e \<le> guard_strength eff \<and> guard_as_spelled base' \<le> guard_strength eff"
    using spelled_le_rank [of "dget e ?g"] spelled_le_rank [of "dget base' ?g"]
    by (auto simp: guard_as_spelled_def guard_strength_def e(3))
  ultimately show "guard_as_spelled base \<le> guard_strength eff" "guard_as_spelled base' \<le> guard_strength eff"
    by simp_all
qed

lemma settings_hold:
  assumes frozen: "freeze_run_settings base raw = Inr snap"
    and thawed: "apply_advanced_overrides base' snap = Inr eff"
    and base: "within_limits base" "proper_guard base" "proper_guard base'"
  shows "within_limits eff \<and> guard_strength base \<le> guard_strength eff \<and> guard_strength base' \<le> guard_strength eff \<and>
    (\<forall>f\<in>set machine_fields. dget eff f = dget base f)"
  using settings_hold_spelled [OF frozen thawed base(1)] proper_as_spelled [OF base(2)] proper_as_spelled [OF base(3)]
  by simp

text \<open>Other keys of the snapshot do not matter.\<close>

lemma apply_snapshot_cong:
  assumes "\<forall>k\<in>insert ''_snapshot_version'' (fst ` set snapshot_fields). map_of s k = map_of s' k" "is_snapshot s"
  shows "apply_advanced_overrides base s = apply_advanced_overrides base s'"
proof -
  have snap: "is_snapshot s'" using assms by (simp add: is_snapshot_def dget_def)
  have same: "map_of s k = map_of s' k" if "(k, f) \<in> set snapshot_fields" for k f
    using assms(1) that by (metis fst_conv image_eqI insertCI)
  have "filter (\<lambda>(k, f). has_key s k) snapshot_fields = filter (\<lambda>(k, f). has_key s' k) snapshot_fields"
    using same by (intro filter_cong refl) (fastforce simp: has_key_def)
  then have "map (\<lambda>(k, f). (f, dget s k)) (filter (\<lambda>(k, f). has_key s k) snapshot_fields) =
      map (\<lambda>(k, f). (f, dget s' k)) (filter (\<lambda>(k, f). has_key s' k) snapshot_fields)"
    using same by (intro map_cong) (auto simp: dget_def)
  with snap show ?thesis using assms(2) by (simp add: apply_advanced_overrides_def apply_snapshot_def Let_def)
qed


definition demo_settings :: "string \<Rightarrow> dict" where
  "demo_settings guard =
    [(''max_model_calls'', JInt 100), (''max_tool_retries'', JInt 2), (''research_search_limit'', JInt 10),
     (''input_guard_mode'', JStr guard), (''verification_repair_max'', JInt 1)]"


text \<open>A guard not spelled as the code spells it is lost: the snapshot path compares the raw text.\<close>

lemma snapshot_guard_compares_raw_text:
  "returns (freeze_run_settings (demo_settings ''observe'') None) (\<lambda>snap.
     returns (apply_advanced_overrides (demo_settings ''BLOCK'') snap) (\<lambda>eff.
       guard_strength eff < guard_strength (demo_settings ''BLOCK'')))"
  by code_simp

text \<open>An infinite number is not ignored.\<close>

lemma infinite_override_raises:
  "apply_advanced_overrides base [(''max_model_calls'', JFloat ''inf'')] = Inl PyOverflowError"
  by (simp add: apply_advanced_overrides_def is_snapshot_def budget_fields_def int_of_float_def signed_text_def)

subsection \<open>The execution policy is derived once\<close>

lemma map_of_dmerge:
  "distinct (map fst e) \<Longrightarrow> map_of (dmerge d e) k = (case map_of e k of None \<Rightarrow> map_of d k | Some v \<Rightarrow> Some v)"
  by (induction d e rule: dmerge.induct) (auto simp flip: map_of_eq_None_iff split: option.splits)

lemma dmerge_idle: "(\<And>k v. (k, v) \<in> set e \<Longrightarrow> map_of d k = Some v) \<Longrightarrow> dmerge d e = d"
  by (induction d e rule: dmerge.induct) (auto simp: dset_idle)


definition policy_base :: "(string \<Rightarrow> bool) \<Rightarrow> string \<Rightarrow> dict \<Rightarrow> dict" where
  "policy_base lc goal s = (case stored_policy s of Some p \<Rightarrow> p | None \<Rightarrow> execution_policy_for_task lc goal)"

lemma policy_base_complexity: "dget (policy_base lc goal s) ''complexity'' \<in> {JStr ''simple'', JStr ''complex''}"
  by (auto simp: policy_base_def stored_policy_def execution_policy_for_task_def Let_def split: option.splits json.splits if_splits)

lemma stored_within_bounds: "1 \<le> hard \<Longrightarrow> 1 \<le> v \<Longrightarrow> v \<le> hard \<Longrightarrow>
    1 \<le> stored_within x hard v \<and> stored_within x hard v \<le> hard"
  by (auto simp: stored_within_def)

lemma hard_limit_positive: "1 \<le> hard_limit p s"
  by (auto simp: hard_limit_def positive_int_def Let_def)

lemma default_limits:
  "1 \<le> hard \<Longrightarrow> 1 \<le> soft_limit_for_complexity hard x \<and> soft_limit_for_complexity hard x \<le> hard"
  "1 \<le> hard \<Longrightarrow> 1 \<le> final_reserve hard \<and> final_reserve hard \<le> hard"
  by (auto simp: soft_limit_for_complexity_def final_reserve_def)

lemma concurrency_bounds: "concurrency p allowed = (x, y) \<Longrightarrow> 0 \<le> x \<and> x \<le> y \<and> (\<not> allowed \<longrightarrow> y = 0)"
  by (auto simp: concurrency_def natural_int_def Let_def split: if_splits json.splits)

text \<open>The parts of a policy.\<close>

definition policy_updates :: "int \<Rightarrow> int \<Rightarrow> int \<Rightarrow> int \<Rightarrow> int \<Rightarrow> dict" where
  "policy_updates hard soft reserve preferred most =
    [(''max_model_calls'', JInt hard), (''soft_model_call_limit'', JInt soft),
     (''final_model_call_reserve'', JInt reserve), (''subagent_budget_mode'', JStr ''shared_model_budget''),
     (''preferred_subagent_concurrency'', JInt preferred), (''max_concurrent_subagent_tasks'', JInt most)]"

lemma policy_snapshotE:
  obtains hard soft reserve preferred most where
    "execution_policy_snapshot lc goal s = dmerge (policy_base lc goal s) (policy_updates hard soft reserve preferred most)"
    "1 \<le> soft" "soft \<le> hard" "1 \<le> reserve" "reserve \<le> hard" "0 \<le> preferred" "preferred \<le> most"
    "truthy (dget (policy_base lc goal s) ''subagent_allowed'') \<and> dget s ''subagents'' \<noteq> JBool False \<or> most = 0"
proof -
  let ?p = "policy_base lc goal s"
  let ?hard = "hard_limit ?p s"
  let ?soft = "stored_within (dget ?p ''soft_model_call_limit'') ?hard
           (soft_limit_for_complexity ?hard (py_str (dget ?p ''complexity'')))"
  let ?reserve = "stored_within (dget ?p ''final_model_call_reserve'') ?hard (final_reserve ?hard)"
  obtain x y where c: "concurrency ?p (truthy (dget ?p ''subagent_allowed'') \<and> dget s ''subagents'' \<noteq> JBool False) = (x, y)"
    by fastforce
  have e: "execution_policy_snapshot lc goal s = dmerge ?p (policy_updates ?hard ?soft ?reserve x y)"
    using c unfolding execution_policy_snapshot_def Let_def policy_base_def [symmetric] policy_updates_def by simp
  note hard = hard_limit_positive [of ?p s]
  show thesis
    by (rule that [OF e]) (use concurrency_bounds [OF c] stored_within_bounds [OF hard] default_limits [OF hard] in auto)
qed

text \<open>What it says, and that a snapshot that stores it gives it again.\<close>

lemma policy_snapshot_values:
  obtains hard soft reserve preferred most where
    "dget (execution_policy_snapshot lc goal s) ''max_model_calls'' = JInt hard"
    "dget (execution_policy_snapshot lc goal s) ''soft_model_call_limit'' = JInt soft"
    "dget (execution_policy_snapshot lc goal s) ''final_model_call_reserve'' = JInt reserve"
    "dget (execution_policy_snapshot lc goal s) ''preferred_subagent_concurrency'' = JInt preferred"
    "dget (execution_policy_snapshot lc goal s) ''max_concurrent_subagent_tasks'' = JInt most"
    "1 \<le> soft" "soft \<le> hard" "1 \<le> reserve" "reserve \<le> hard" "0 \<le> preferred" "preferred \<le> most"
    "most = 0 \<or> truthy (dget (execution_policy_snapshot lc goal s) ''subagent_allowed'') \<and> dget s ''subagents'' \<noteq> JBool False"
    "dget (execution_policy_snapshot lc goal s) ''complexity'' \<in> {JStr ''simple'', JStr ''complex''}"
    "dmerge (execution_policy_snapshot lc goal s) (policy_updates hard soft reserve preferred most) =
      execution_policy_snapshot lc goal s"
proof -
  let ?b = "policy_base lc goal s"
  obtain hard soft reserve preferred most where u:
    "execution_policy_snapshot lc goal s = dmerge ?b (policy_updates hard soft reserve preferred most)"
    "1 \<le> soft" "soft \<le> hard" "1 \<le> reserve" "reserve \<le> hard" "0 \<le> preferred" "preferred \<le> most"
    "truthy (dget ?b ''subagent_allowed'') \<and> dget s ''subagents'' \<noteq> JBool False \<or> most = 0"
    by (rule policy_snapshotE)
  let ?u = "policy_updates hard soft reserve preferred most"
  have d: "distinct (map fst ?u)" by (simp add: policy_updates_def)
  have get: "dget (dmerge ?b ?u) k = (if has_key ?u k then dget ?u k else dget ?b k)" for k
    by (rule dget_dmerge [OF d])
  have vals: "dget (dmerge ?b ?u) ''max_model_calls'' = JInt hard" "dget (dmerge ?b ?u) ''soft_model_call_limit'' = JInt soft"
    "dget (dmerge ?b ?u) ''final_model_call_reserve'' = JInt reserve"
    "dget (dmerge ?b ?u) ''preferred_subagent_concurrency'' = JInt preferred"
    "dget (dmerge ?b ?u) ''max_concurrent_subagent_tasks'' = JInt most"
    "dget (dmerge ?b ?u) ''subagent_allowed'' = dget ?b ''subagent_allowed''"
    "dget (dmerge ?b ?u) ''complexity'' = dget ?b ''complexity''"
    by (simp_all add: get policy_updates_def)
  have "dmerge (dmerge ?b ?u) ?u = dmerge ?b ?u"
    by (rule dmerge_idle) (simp add: map_of_dmerge [OF d] map_of_is_SomeI [OF d])
  moreover have "most = 0 \<or> truthy (dget ?b ''subagent_allowed'') \<and> dget s ''subagents'' \<noteq> JBool False" using u(8) by argo
  ultimately show thesis
    by (intro that [of hard soft reserve preferred most]; (unfold u(1) vals)?)
      (simp_all only: u(2-7) policy_base_complexity)
qed

lemma policy_again:
  assumes "dget s' ''_execution_policy'' = JObj (execution_policy_snapshot lc goal s)"
    and "dget s' ''subagents'' = dget s ''subagents''"
  shows "execution_policy_snapshot lc' goal' s' = execution_policy_snapshot lc goal s"
proof -
  define p where "p = execution_policy_snapshot lc goal s"
  obtain hard soft reserve preferred most where p:
    "dget p ''max_model_calls'' = JInt hard" "dget p ''soft_model_call_limit'' = JInt soft"
    "dget p ''final_model_call_reserve'' = JInt reserve" "dget p ''preferred_subagent_concurrency'' = JInt preferred"
    "dget p ''max_concurrent_subagent_tasks'' = JInt most"
    "1 \<le> soft" "soft \<le> hard" "1 \<le> reserve" "reserve \<le> hard" "0 \<le> preferred" "preferred \<le> most"
    "most = 0 \<or> truthy (dget p ''subagent_allowed'') \<and> dget s ''subagents'' \<noteq> JBool False"
    "dget p ''complexity'' \<in> {JStr ''simple'', JStr ''complex''}"
    "dmerge p (policy_updates hard soft reserve preferred most) = p"
    unfolding p_def by (rule policy_snapshot_values)
  have stored: "stored_policy s' = Some p" using p(13) assms(1) by (simp add: stored_policy_def p_def)
  have hard: "hard_limit p s' = hard" using p(1,6,7) by (simp add: hard_limit_def positive_int_def)
  have within: "stored_within (JInt soft) hard x = soft" "stored_within (JInt reserve) hard x = reserve" for x
    using p(6-9) by (simp_all add: stored_within_def positive_int_def)
  have conc: "concurrency p (truthy (dget p ''subagent_allowed'') \<and> dget s' ''subagents'' \<noteq> JBool False) = (preferred, most)"
    using p(10-12) by (auto simp: concurrency_def p(4,5) natural_int_def Let_def assms(2))
  show ?thesis
    using p(14) unfolding execution_policy_snapshot_def [of lc'] stored Let_def option.case hard p(2,3) within conc
      p_def [symmetric] case_prod_conv policy_updates_def .
qed

text \<open>C35: The policy on model calls and subagents derived for a run is within bounds, and derived
  again from the snapshot that stores it, for whatever text and by whatever reading of it, it is
  the same policy.\<close>

theorem execution_policy_is_stable:
  "\<exists>hard soft reserve preferred most p. p = execution_policy_snapshot lc goal s \<and>
     dget p ''max_model_calls'' = JInt hard \<and> dget p ''soft_model_call_limit'' = JInt soft \<and>
     dget p ''final_model_call_reserve'' = JInt reserve \<and> dget p ''preferred_subagent_concurrency'' = JInt preferred \<and>
     dget p ''max_concurrent_subagent_tasks'' = JInt most \<and>
     1 \<le> soft \<and> soft \<le> hard \<and> 1 \<le> reserve \<and> reserve \<le> hard \<and> 0 \<le> preferred \<and> preferred \<le> most \<and>
     (most = 0 \<or> truthy (dget p ''subagent_allowed'') \<and> dget s ''subagents'' \<noteq> JBool False) \<and>
     execution_policy_snapshot lc' goal' (dset ''_execution_policy'' (JObj p) s) = p"
proof -
  have again: "execution_policy_snapshot lc' goal' (dset ''_execution_policy'' (JObj (execution_policy_snapshot lc goal s)) s) =
      execution_policy_snapshot lc goal s" by (rule policy_again) simp_all
  show ?thesis
    by (rule policy_snapshot_values [of lc goal s]) (intro exI conjI; (rule again)?; (rule refl)?; assumption)
qed

end
