(* ===== verification/Run_Service.thy ===== *)
theory Run_Service
  imports Run_Admission Run_Configuration
begin

text \<open>
  The service in front of the admission of a run (runs/admission.py, runs/inputs.py, the checks of
  runs/model\_bindings.py and the walk over checkpoints of runs/stream\_state.py): what a start or a
  fork is recorded as, the errors it may be refused with, the settings snapshot it is given, and
  the files it takes along. Shown: a start that was accepted is answered with its run by every
  repetition, whatever has become of settings, models and files since; what an admitted run's
  snapshot holds; and that the walk over checkpoints ends.
\<close>

subsection \<open>Models and reasoning modes\<close>

definition reasoning_modes :: "string list" where
  "reasoning_modes = [''off'', ''minimal'', ''low'', ''medium'', ''high'', ''xhigh'', ''max'']"

definition reasoning_profile :: "dict \<Rightarrow> dict" where
  "reasoning_profile b = obj_of (dget (obj_of (dget b ''profile'')) ''reasoning'')"

definition supported_modes :: "dict \<Rightarrow> string list" where
  "supported_modes b =
    (case dget (reasoning_profile b) ''modes'' of
       JList ms \<Rightarrow> map str_of (filter (\<lambda>m. is_str m \<and> str_of m \<in> set reasoning_modes) ms)
     | _ \<Rightarrow> [''off''])"

definition reasoning_mode_error :: "dict \<Rightarrow> string \<Rightarrow> store_error option" where
  "reasoning_mode_error b mode =
    (if mode \<in> set (supported_modes b) then None else Some (RunAdmissionError ''model_reasoning_mode_unsupported''))"

definition default_reasoning_mode :: "dict \<Rightarrow> string" where
  "default_reasoning_mode b =
    (case dget (reasoning_profile b) ''default_mode'' of
       JStr m \<Rightarrow> if m \<in> set reasoning_modes then m else ''off'' | _ \<Rightarrow> ''off'')"

text \<open>\<open>local:<connection>:<model>\<close>\<close>

definition local_spec :: "string \<Rightarrow> (string \<times> string) option" where
  "local_spec s =
    (let rest = drop 6 s; conn = takeWhile (\<lambda>c. c \<noteq> CHR '':'') rest; model = drop (Suc (length conn)) rest
     in if conn = [] \<or> model = [] then None else Some (conn, model))"

text \<open>
  What the service reads of its surroundings: the machine's settings, the binding of a local model
  (connections and credentials), the image tools' bindings, the fingerprint of the skills, the
  identity of the build, the host's files and the clock of the goal's complexity.
\<close>

record service_env =
  sv_settings :: dict
  sv_fake :: bool
  sv_local :: "string \<Rightarrow> string \<Rightarrow> string \<Rightarrow> dict \<times> store_error option"
  sv_capabilities :: "string \<Rightarrow> string list \<Rightarrow> dict \<times> store_error option"
  sv_skills :: "string option"
  sv_build :: json
  sv_complex :: "string \<Rightarrow> bool"
  sv_size :: "string \<Rightarrow> nat option"
  sv_media :: "string \<Rightarrow> string option"
  sv_files :: "string \<Rightarrow> (bool \<times> string list) option"
  sv_sha :: "string \<Rightarrow> string"
  sv_gone :: "string \<Rightarrow> bool"

definition fake_binding :: "string \<Rightarrow> dict" where
  "fake_binding model =
     [(''adapter_id'', JStr ''fake''), (''credential_ref'', JNull), (''requested_model'', JStr model),
      (''profile'', JObj [(''streaming'', JBool True), (''tool_calling'', JBool True)]),
      (''required_capabilities'', JList [JStr ''streaming'', JStr ''tool_calling''])]"

definition model_admission :: "service_env \<Rightarrow> string \<Rightarrow> string \<Rightarrow> dict \<times> store_error option" where
  "model_admission env owner model =
    (if sv_fake env then (fake_binding model, None)
     else if \<not> starts_with ''local:'' model then ([], Some (RunAdmissionError ''model_service_missing''))
     else (case local_spec model of
             None \<Rightarrow> ([], Some (RunAdmissionError ''model_spec_invalid''))
           | Some (conn, m) \<Rightarrow> sv_local env owner conn m))"

text \<open>The check of a run's binding before it executes: an error, or the key to use.\<close>

definition binding_error_locked :: "dict option \<Rightarrow> (string + string option) \<Rightarrow> dict \<Rightarrow> string option \<times> string option" where
  "binding_error_locked conn key b =
    (case conn of
       None \<Rightarrow> (Some ''model service connection was changed or removed'', None)
     | Some x \<Rightarrow>
        if \<not> py_eq (py_or (dget x ''version'') (JInt 0)) (dget b ''connection_version'') \<or>
           dget b ''credential_ref'' \<noteq> dget x ''credential_ref''
        then (Some ''model service connection was changed or removed'', None)
        else (case key of
                Inl e \<Rightarrow> (Some e, None)
              | Inr k \<Rightarrow> if opt_or k [] = [] then (Some ''model service API key is no longer configured'', None) else (None, k)))"

definition binding_error ::
    "bool \<Rightarrow> (string \<Rightarrow> dict option) \<Rightarrow> (string \<Rightarrow> string \<Rightarrow> string + string option) \<Rightarrow> dict \<Rightarrow> string option \<times> string option" where
  "binding_error fake connection key s =
    (if \<not> has_key s ''_snapshot_version'' then (None, None)
     else if \<not> is_snapshot s then (Some ''run settings snapshot version is unsupported'', None)
     else (case dget s ''_model_binding'' of
             JObj b \<Rightarrow>
               if dget b ''adapter_id'' = JStr ''fake'' then (if fake then None else Some ''fake model service is disabled'', None)
               else if dget b ''adapter_id'' \<in> {JStr ''openai_chat'', JStr ''anthropic_messages'', JStr ''google_genai''}
               then (case dget b ''connection_id'' of
                       JStr i \<Rightarrow> binding_error_locked (connection i) (key i (py_str (dget b ''credential_ref''))) b
                     | _ \<Rightarrow> (Some ''run model credential reference is invalid'', None))
               else (Some ''run model adapter is no longer supported'', None)
           | _ \<Rightarrow> (Some ''run model binding snapshot is missing'', None)))"

text \<open>\<open>current\<close> is \<open>None\<close> where the skills cannot be read.\<close>

definition skill_binding_error :: "string option \<Rightarrow> dict \<Rightarrow> string option" where
  "skill_binding_error current s =
    (if dget s ''skills'' \<noteq> JStr ''on'' then None
     else (case dget s ''_skills_fingerprint'' of
             JStr f \<Rightarrow> if f = [] then None
               else (case current of None \<Rightarrow> Some ''Skill configuration is unavailable''
                     | Some x \<Rightarrow> if x = f then None else Some ''Skill configuration changed after Run admission'')
           | _ \<Rightarrow> None))"

subsection \<open>Attachments\<close>

text \<open>\<open>Path(s).name\<close>\<close>

definition path_name :: "string \<Rightarrow> string" where
  "path_name s = (case path_parts s of [] \<Rightarrow> [] | ps \<Rightarrow> last ps)"

definition virtual_path :: "string list \<Rightarrow> nat \<Rightarrow> string \<Rightarrow> string" where
  "virtual_path names index n =
     ''/attachments/'' @ (if 1 < count_where (\<lambda>x. x = n) names then nat_str (index + 1) @ ''-'' @ n else n)"

definition attachment_bindings :: "string list \<Rightarrow> (string \<times> string) list" where
  "attachment_bindings paths =
    (let names = map path_name paths
     in map (\<lambda>(i, p). (p, virtual_path names i (path_name p))) (enumerate 0 paths))"

definition max_reference_bytes :: nat where
  "max_reference_bytes = 200 * 1024 * 1024"

fun attachments_refused :: "(string \<Rightarrow> nat option) \<Rightarrow> nat \<Rightarrow> (string \<times> string) list \<Rightarrow> bool" where
  "attachments_refused size_of taken [] = False"
| "attachments_refused size_of taken ((source, virtual) # bs) =
    (let name = drop (length ''/attachments/'') virtual
     in if \<not> starts_with ''/attachments/'' virtual \<or> name = [] \<or> CHR ''/'' \<in> set name then True
        else (case size_of source of
                None \<Rightarrow> True
              | Some n \<Rightarrow> max_reference_bytes < n \<or> max_reference_bytes < taken + n \<or>
                  attachments_refused size_of (taken + n) bs))"

definition input_ids :: "nat \<Rightarrow> string list" where
  "input_ids n = (if n = 1 then [''source''] else map (\<lambda>i. ''attachment_'' @ nat_str i) [1..<Suc n])"

text \<open>The files taken into the store, one by one; a file that cannot be is the end of it.\<close>

fun prepare_run_inputs ::
    "service_env \<Rightarrow> ((string \<times> string) \<times> string) list \<Rightarrow> blob_root \<Rightarrow> input_row list option \<times> blob_root" where
  "prepare_run_inputs env [] root = (Some [], root)"
| "prepare_run_inputs env (((source, virtual), i) # xs) root =
    (case sv_files env source of
       None \<Rightarrow> (None, root)
     | Some (regular, chunks) \<Rightarrow>
        (case prepare_run_input_body (sv_sha env) regular chunks root of
           Inl e \<Rightarrow> (None, root)
         | Inr ((n, digest, key), root1) \<Rightarrow>
            (let (rest, root2) = prepare_run_inputs env xs root1
             in (map_option (\<lambda>rs.
                  \<lparr>in_run = [], in_id = i, in_path = virtual, in_name = path_name source,
                   in_media = opt_or (sv_media env (path_name source)) ''application/octet-stream'',
                   in_bytes = n, in_sha = digest, in_blob = key, in_created = 0\<rparr> # rs) rest, root2))))"

text \<open>What the user's message shows of its attachments, once they are inputs.\<close>

definition shown_attachment :: "json \<Rightarrow> input_row \<Rightarrow> json" where
  "shown_attachment a x =
    (case a of
       JObj m \<Rightarrow> JObj (dmerge m [(''input_id'', JStr (in_id x)), (''media_type'', JStr (in_media x)), (''bytes'', JInt (int (in_bytes x)))])
     | _ \<Rightarrow> a)"

definition shown_attachments :: "dict \<Rightarrow> input_row list \<Rightarrow> dict" where
  "shown_attachments m inputs =
    (case dget m ''attachments'' of
       JList xs \<Rightarrow> if length xs = length inputs then dset ''attachments'' (JList (map2 shown_attachment xs inputs)) m else m
     | _ \<Rightarrow> m)"

subsection \<open>A start\<close>

record submission =
  sb_principal :: string
  sb_command :: id
  sb_client :: string
  sb_protocol :: int
  sb_capabilities :: "string list"
  sb_goal :: string
  sb_tools :: "string list"
  sb_thread :: "id option"
  sb_user_input :: "string option"
  sb_assistant :: "id option"
  sb_title :: "string option"
  sb_thread_metadata :: "dict option"
  sb_item_metadata :: "dict option"
  sb_replace :: "string option"
  sb_workspace :: "string option"
  sb_attachments :: "string list"
  sb_mode :: string
  sb_reasoning :: "string option"
  sb_permission :: string
  sb_history :: "dict list"
  sb_parent :: "id option"
  sb_refs :: "plugin_ref list"
  sb_plugin_command :: "plugin_command_ref option"
  sb_settings :: "dict option"
  sb_metadata :: "dict option"
  sb_frozen :: bool
  sb_trusted :: bool

definition dict_or_empty :: "dict option \<Rightarrow> dict" where
  "dict_or_empty x = (case x of None \<Rightarrow> [] | Some d \<Rightarrow> d)"

definition dict_json :: "dict option \<Rightarrow> json" where
  "dict_json x = (case x of None \<Rightarrow> JNull | Some d \<Rightarrow> JObj d)"

definition submitted_settings :: "submission \<Rightarrow> (dict \<times> string option) res" where
  "submitted_settings q =
    (if sb_frozen q
     then (case sb_settings q of
             None \<Rightarrow> Inl (RunAdmissionError ''settings_snapshot_unsupported'')
           | Some s \<Rightarrow>
              if \<not> is_snapshot s then Inl (RunAdmissionError ''settings_snapshot_unsupported'')
              else Inr (s, if truthy (dget s ''reasoning_mode'') then Some (py_str (dget s ''reasoning_mode'')) else sb_reasoning q))
     else Inr (dset ''permission_mode'' (JStr (sb_permission q)) (public_run_settings (sb_settings q)), sb_reasoning q))"

definition attachment_json :: "string \<times> string \<Rightarrow> json" where
  "attachment_json b = JObj [(''source_path'', JStr (fst b)), (''virtual_path'', JStr (snd b))]"

definition submitted_metadata :: "submission \<Rightarrow> dict" where
  "submitted_metadata q =
    (let m = (if sb_trusted q then dict_or_empty (sb_metadata q) else sanitize_run_metadata (sb_metadata q));
         bs = attachment_bindings (sb_attachments q)
     in if bs = [] then m else dset ''_attachments'' (JList (map attachment_json bs)) m)"

definition ref_json :: "plugin_ref \<Rightarrow> json" where
  "ref_json x = JObj [(''plugin_id'', JStr (pr_plugin x)), (''required'', JBool (pr_required x)),
     (''expected_digest'', json_opt (pr_expected x))]"

definition plugin_command_json :: "plugin_command_ref option \<Rightarrow> json" where
  "plugin_command_json x =
    (case x of None \<Rightarrow> JNull
     | Some y \<Rightarrow> JObj [(''plugin_id'', JStr (pc_plugin y)), (''command_id'', JStr (pc_command y)),
         (''expected_digest'', json_opt (pc_expected y))])"

definition sorted_names :: "string list \<Rightarrow> string list" where
  "sorted_names xs = sort (remdups xs)"

definition start_payload :: "submission \<Rightarrow> dict \<times> string option \<Rightarrow> dict" where
  "start_payload q x =
     [(''type'', JStr ''run.start''), (''thread_id'', json_opt (sb_thread q)), (''user_input'', json_opt (sb_user_input q)),
      (''assistant_message_id'', json_opt (sb_assistant q)), (''thread_title'', json_opt (sb_title q)),
      (''thread_metadata'', dict_json (sb_thread_metadata q)), (''user_item_metadata'', dict_json (sb_item_metadata q)),
      (''replace_from_client_id'', json_opt (sb_replace q)), (''protocol_version'', JInt (sb_protocol q)),
      (''required_capabilities'', JList (map JStr (sorted_names (sb_capabilities q)))),
      (''required_tools'', JList (map JStr (sorted_names (sb_tools q)))), (''goal'', JStr (sb_goal q)),
      (''workspace_path'', json_opt (sb_workspace q)),
      (''attachment_paths'', JList (map (\<lambda>b. JStr (fst b)) (attachment_bindings (sb_attachments q)))),
      (''model'', JStr (sb_mode q)), (''reasoning_mode'', json_opt (snd x)),
      (''permission_mode'', if has_key (fst x) ''permission_mode'' then dget (fst x) ''permission_mode'' else JStr ''ask''),
      (''history'', JList (map JObj (sb_history q))), (''parent_run_id'', json_opt (sb_parent q)),
      (''plugin_refs'', JList (map ref_json (sb_refs q))), (''plugin_command'', plugin_command_json (sb_plugin_command q)),
      (''settings'', JObj (fst x)), (''metadata'', JObj (submitted_metadata q))]"

definition first_error :: "store_error option list \<Rightarrow> store_error option" where
  "first_error es = (case filter (\<lambda>e. e \<noteq> None) es of [] \<Rightarrow> None | e # _ \<Rightarrow> e)"

definition runtime_capabilities :: "string list" where
  "runtime_capabilities =
    [''agent.run'', ''agent.stream'', ''attachments'', ''workspace.files'', ''memory'', ''skills'', ''mcp'', ''plugins'',
     ''subagents'', ''durable-child-runs'', ''multi-agent-coordination'', ''schedules'', ''hitl'']"

definition protocol_error :: "int \<Rightarrow> string list \<Rightarrow> store_error option" where
  "protocol_error protocol caps =
    (if protocol \<noteq> 1 then Some (RunAdmissionError ''protocol_version_unsupported'')
     else if \<not> set caps \<subseteq> set runtime_capabilities then Some (RunAdmissionError ''capability_unavailable'') else None)"

definition request_errors :: "service_env \<Rightarrow> submission \<Rightarrow> store_error option list" where
  "request_errors env q =
     [protocol_error (sb_protocol q) (sb_capabilities q),
      (if attachments_refused (sv_size env) 0 (attachment_bindings (sb_attachments q))
       then Some (RunAdmissionError ''attachment_unavailable'') else None)]"

text \<open>The reasoning mode: asked for, or the model's, or \<open>off\<close>.\<close>

definition frozen_reasoning :: "json \<Rightarrow> string option \<Rightarrow> dict \<Rightarrow> string" where
  "frozen_reasoning setting asked b =
    (let requested = py_or setting (json_opt asked);
         mode = (if truthy requested then py_str requested else default_reasoning_mode b)
     in if mode \<in> set reasoning_modes then mode else default_reasoning_mode b)"

text \<open>The image tools a run may use, and an error where one it requires is not configured.\<close>

definition capability_snapshot :: "service_env \<Rightarrow> submission \<Rightarrow> dict \<Rightarrow> json \<times> json \<times> store_error option" where
  "capability_snapshot env q s =
    (if sb_frozen q
     then (JObj (obj_of (dget s ''_capability_bindings'')),
           (case dget s ''_required_tools'' of JList xs \<Rightarrow> JList xs | _ \<Rightarrow> JList []), None)
     else (let tools = sorted_names (sb_tools q); (bs, e) = sv_capabilities env (sb_principal q) tools
           in (JObj bs, JList (map JStr tools), e)))"

definition skill_snapshot :: "service_env \<Rightarrow> dict \<Rightarrow> dict \<times> store_error option" where
  "skill_snapshot env s =
    (if dget s ''skills'' = JStr ''on'' \<and> \<not> has_key s ''_skills_fingerprint''
     then (case sv_skills env of
             Some f \<Rightarrow> (dset ''_skills_fingerprint'' (JStr f) s, None)
           | None \<Rightarrow> (s, Some (RunAdmissionError ''skill_catalog_unavailable'')))
     else (s, None))"

text \<open>
  The snapshot a run is admitted with, and the errors found on the way. The binding is one object:
  the mode put in it when there is no error yet is in the snapshot too.
\<close>

definition finish_snapshot ::
    "service_env \<Rightarrow> submission \<Rightarrow> string option \<Rightarrow> dict \<times> store_error option \<Rightarrow> dict \<Rightarrow> dict \<times> store_error option list" where
  "finish_snapshot env q asked x s0 =
    (let (b, model_error) = x;
         mode = frozen_reasoning (dget s0 ''reasoning_mode'') asked b;
         errors = request_errors env q @ [model_error, reasoning_mode_error b mode];
         b1 = (if first_error errors = None then dset ''reasoning_mode'' (JStr mode) b else b);
         s1 = dset ''_diagnostics_build'' (sv_build env) (dset ''reasoning_mode'' (JStr mode)
                (dset ''_model_binding'' (JObj b1) s0));
         s2 = dset ''_execution_policy'' (JObj (execution_policy_snapshot (sv_complex env) (sb_goal q) s1)) s1;
         (caps, tools, e4) = capability_snapshot env q s2;
         (s3, e5) = skill_snapshot env (dset ''_required_tools'' tools (dset ''_capability_bindings'' caps s2))
     in (s3, errors @ [e4, e5]))"

definition service_snapshot ::
    "service_env \<Rightarrow> submission \<Rightarrow> dict \<Rightarrow> string option \<Rightarrow> (dict \<times> store_error option list) res" where
  "service_snapshot env q public asked =
    map_sum id (finish_snapshot env q asked (model_admission env (sb_principal q) (sb_mode q)))
      (if sb_frozen q then Inr public else freeze_run_settings (sv_settings env) (Some public))"

text \<open>What the inputs make of the metadata of run and message, and an error where a file is lost.\<close>

record prepared =
  pp_inputs :: "input_row list"
  pp_metadata :: dict
  pp_item_metadata :: dict
  pp_error :: "store_error option"

definition input_reference :: "input_row \<Rightarrow> json" where
  "input_reference x = JObj [(''input_id'', JStr (in_id x)), (''virtual_path'', JStr (in_path x))]"

definition prepare_submission ::
    "service_env \<Rightarrow> submission \<Rightarrow> store_error option \<Rightarrow> blob_root \<Rightarrow> prepared \<times> blob_root" where
  "prepare_submission env q err root =
    (let bs = attachment_bindings (sb_attachments q); m = submitted_metadata q; im = dict_or_empty (sb_item_metadata q)
     in if err \<noteq> None \<or> bs = [] then (\<lparr>pp_inputs = [], pp_metadata = m, pp_item_metadata = im, pp_error = err\<rparr>, root)
        else
         (case prepare_run_inputs env (zip bs (input_ids (length bs))) root of
            (None, root1) \<Rightarrow> (\<lparr>pp_inputs = [], pp_metadata = m, pp_item_metadata = im,
              pp_error = Some (RunAdmissionError ''attachment_import_failed'')\<rparr>, root1)
          | (Some xs, root1) \<Rightarrow> (\<lparr>pp_inputs = xs,
              pp_metadata = dset ''_attachments'' (JList (map input_reference xs)) m,
              pp_item_metadata = shown_attachments im xs, pp_error = None\<rparr>, root1)))"

definition start_request_of :: "submission \<Rightarrow> dict \<Rightarrow> dict \<Rightarrow> prepared \<Rightarrow> start_request" where
  "start_request_of q payload settings x =
     \<lparr>sq_principal = sb_principal q, sq_command = sb_command q, sq_client = sb_client q, sq_payload = payload,
      sq_goal = sb_goal q, sq_workspace = sb_workspace q, sq_mode = sb_mode q, sq_thread = sb_thread q,
      sq_user_input = sb_user_input q, sq_assistant = sb_assistant q, sq_title = sb_title q,
      sq_thread_metadata = sb_thread_metadata q,
      sq_item_metadata = (if pp_item_metadata x = [] then None else Some (pp_item_metadata x)),
      sq_replace = sb_replace q, sq_new_thread = False, sq_graph_thread = None, sq_checkpoint = None,
      sq_definition = None, sq_input_kind = ''new'', sq_history = sb_history q, sq_parent = sb_parent q,
      sq_settings = Some settings, sq_metadata = Some (pp_metadata x), sq_admission = pp_error x, sq_refs = sb_refs q,
      sq_plugin_command = sb_plugin_command q, sq_inherit = None, sq_inputs = pp_inputs x\<rparr>"

definition submit_start ::
    "ctx \<Rightarrow> service_env \<Rightarrow> submission \<Rightarrow> dict \<Rightarrow> plugins \<Rightarrow> db \<Rightarrow> db \<Rightarrow> db \<times> blob_root \<Rightarrow> dict \<times> store_error option list \<Rightarrow>
      ((run_row \<times> id \<times> string) \<times> db \<times> blob_root) res" where
  "submit_start c env q payload p dq dq2 st x =
    (let (settings, errors) = x;
         (y, root1) = prepare_submission env q (first_error errors) (snd st)
     in map_sum id (\<lambda>((r, new), d1). (r, d1, root1))
          (accept_run_command c (sv_sha env) (sv_gone env) (start_request_of q payload settings y) p dq dq2 (fst st)))"

text \<open>
  The reads outside a transaction: the lookup of the service (in \<open>dq0\<close>) and the two of the
  command. The run, and the state after: database and stored files.
\<close>

definition start_run ::
    "ctx \<Rightarrow> service_env \<Rightarrow> submission \<Rightarrow> plugins \<Rightarrow> db \<Rightarrow> db \<Rightarrow> db \<Rightarrow> db \<times> blob_root \<Rightarrow>
      ((run_row \<times> id \<times> string) \<times> db \<times> blob_root) res" where
  "start_run c env q p dq0 dq dq2 st =
    (case submitted_settings q of
       Inl e \<Rightarrow> Inl e
     | Inr x \<Rightarrow>
        (let payload = start_payload q x;
             envelope = encode_payload (JObj [(''client_message_id'', JStr (sb_client q)), (''payload'', JObj payload)])
         in (case accepted_run_for_command (sb_principal q) (sb_command q) envelope dq0 of
               Inl e \<Rightarrow> Inl e
             | Inr (Some r) \<Rightarrow> Inr (r, st)
             | Inr None \<Rightarrow>
                (case service_snapshot env q (fst x) (snd x) of
                   Inl e \<Rightarrow> Inl e
                 | Inr y \<Rightarrow> submit_start c env q payload p dq dq2 st y))))"

subsection \<open>A fork\<close>

text \<open>
  \<open>_checkpoint_is_ancestor\<close>: from the head along the parents the checkpointer keeps. A checkpoint
  of the thread is listed with the one before it.
\<close>

function ancestor_from :: "(string \<times> string option) list \<Rightarrow> string list \<Rightarrow> string \<Rightarrow> string \<Rightarrow> bool" where
  "ancestor_from cps seen wanted current =
    (if current = [] \<or> current \<in> set seen then False
     else if current = wanted then True
     else (case map_of cps current of
             Some (Some p) \<Rightarrow> ancestor_from cps (current # seen) wanted p
           | _ \<Rightarrow> False))"
  by pat_completeness auto

termination
proof (relation "measure (\<lambda>(cps, seen, wanted, current). card (fst ` set cps - set seen))")
  fix cps :: "(string \<times> string option) list" and seen wanted current x p
  assume "\<not> (current = [] \<or> current \<in> set seen)" "map_of cps current = Some x" "x = Some p"
  then have "current \<in> fst ` set cps - set seen" by (force dest: map_of_SomeD)
  then have "fst ` set cps - set (current # seen) \<subset> fst ` set cps - set seen" by auto
  then show "((cps, current # seen, wanted, p), (cps, seen, wanted, current))
      \<in> measure (\<lambda>(cps, seen, wanted, current). card (fst ` set cps - set seen))"
    by (simp add: psubset_card_mono)
qed simp

declare ancestor_from.simps [simp del]

definition checkpoint_is_ancestor :: "(string \<times> string option) list \<Rightarrow> string \<Rightarrow> string \<Rightarrow> bool" where
  "checkpoint_is_ancestor cps head_id wanted = ancestor_from cps [] wanted head_id"

record fork_request =
  fk_principal :: string
  fk_source :: id
  fk_command :: id
  fk_client :: string
  fk_assistant :: id
  fk_thread :: id
  fk_protocol :: int
  fk_capabilities :: "string list"
  fk_checkpoint :: string
  fk_goal :: "string option"
  fk_user_input :: string
  fk_title :: "string option"
  fk_thread_metadata :: "dict option"
  fk_item_metadata :: "dict option"
  fk_metadata :: "dict option"

definition fork_metadata :: "fork_request \<Rightarrow> dict" where
  "fork_metadata q =
     dmerge (sanitize_run_metadata (fk_metadata q))
       [(''intent'', JStr ''checkpoint_fork''), (''source_run_id'', JStr (fk_source q)),
        (''source_checkpoint_id'', JStr (py_strip (fk_checkpoint q)))]"

definition fork_payload :: "fork_request \<Rightarrow> dict" where
  "fork_payload q =
     [(''type'', JStr ''run.fork''), (''source_run_id'', JStr (fk_source q)), (''protocol_version'', JInt (fk_protocol q)),
      (''required_capabilities'', JList (map JStr (sorted_names (fk_capabilities q)))),
      (''checkpoint_id'', JStr (py_strip (fk_checkpoint q))), (''thread_id'', JStr (fk_thread q)),
      (''assistant_message_id'', JStr (fk_assistant q)), (''goal'', json_opt (fk_goal q)),
      (''user_input'', JStr (fk_user_input q)), (''thread_title'', json_opt (fk_title q)),
      (''thread_metadata'', dict_json (fk_thread_metadata q)), (''user_item_metadata'', dict_json (fk_item_metadata q)),
      (''metadata'', JObj (fork_metadata q))]"

text \<open>The settings of the source, frozen now where they never were.\<close>

definition fork_settings :: "service_env \<Rightarrow> run_row \<Rightarrow> dict res" where
  "fork_settings env r =
    (let s = obj_of (r_settings r)
     in if \<not> has_key s ''_snapshot_version'' then freeze_run_settings (sv_settings env) (Some s)
        else if is_snapshot s then Inr s else Inl (RunAdmissionError ''settings_snapshot_unsupported''))"

definition executing :: "run_row \<Rightarrow> bool" where
  "executing r \<longleftrightarrow> r_status r \<in> {RunQueued, RunRunning, RunCleanupRequired}"

text \<open>The errors of a fork that are not the store's.\<close>

datatype fork_error =
    ForkStore store_error
  | ForkRunNotFound
  | ForkCheckpointNotFound
  | ForkValueError

definition in_store :: "store_error + 'a \<Rightarrow> fork_error + 'a" where
  "in_store x = (case x of Inl e \<Rightarrow> Inl (ForkStore e) | Inr y \<Rightarrow> Inr y)"

text \<open>
  The source as it may be forked: \<open>reconcile\<close> brings its head up to what the checkpointer has.
  The checkpoint must be on the way to that head, and there must be a goal.
\<close>

definition fork_source ::
    "service_env \<Rightarrow> fork_request \<Rightarrow> (run_row \<Rightarrow> run_row) \<Rightarrow> (string \<Rightarrow> (string \<times> string option) list) \<Rightarrow> db \<Rightarrow>
      fork_error + run_row \<times> string" where
  "fork_source env q reconcile checkpoints d =
    (case protocol_error (fk_protocol q) (fk_capabilities q) of
       Some e \<Rightarrow> Inl (ForkStore e)
     | None \<Rightarrow>
        (case get_owned_run (fk_principal q) (fk_source q) d of
           None \<Rightarrow> Inl ForkRunNotFound
         | Some r \<Rightarrow>
            if workspace_admission_error (sv_gone env) (r_principal r) (r_workspace r) d \<noteq> None
            then Inl (ForkStore WorkspaceAdmissionError)
            else if executing r \<and> opt_or (r_checkpoint r) [] = [] then Inl ForkCheckpointNotFound
            else if executing r then Inl ForkValueError
            else
             (let r1 = reconcile r; i = py_strip (fk_checkpoint q);
                  thread = (if r_graph_thread r1 = [] then fk_source q else r_graph_thread r1);
                  goal = py_strip (opt_or (fk_goal q) (r_goal r1))
              in if i = [] then Inl ForkCheckpointNotFound
                 else if opt_or (r_checkpoint r1) [] = [] then Inl ForkCheckpointNotFound
                 else if \<not> checkpoint_is_ancestor (checkpoints thread) (opt_or (r_checkpoint r1) []) i
                 then Inl ForkCheckpointNotFound
                 else if goal = [] then Inl ForkValueError
                 else Inr (r1, goal))))"

definition fork_request_of :: "fork_request \<Rightarrow> run_row \<Rightarrow> string \<Rightarrow> dict \<Rightarrow> start_request" where
  "fork_request_of q r goal settings =
     \<lparr>sq_principal = r_principal r, sq_command = fk_command q, sq_client = fk_client q, sq_payload = fork_payload q,
      sq_goal = goal, sq_workspace = r_workspace r, sq_mode = (if r_mode r = [] then ''auto'' else r_mode r),
      sq_thread = Some (fk_thread q), sq_user_input = Some (fk_user_input q), sq_assistant = Some (fk_assistant q),
      sq_title = fk_title q, sq_thread_metadata = fk_thread_metadata q, sq_item_metadata = fk_item_metadata q,
      sq_replace = None, sq_new_thread = True,
      sq_graph_thread = Some (if r_graph_thread r = [] then fk_source q else r_graph_thread r),
      sq_checkpoint = Some (py_strip (fk_checkpoint q)), sq_definition = r_definition r, sq_input_kind = ''fork'',
      sq_history = [], sq_parent = Some (fk_source q), sq_settings = Some settings, sq_metadata = Some (fork_metadata q),
      sq_admission = None, sq_refs = [], sq_plugin_command = None, sq_inherit = Some (fk_source q), sq_inputs = []\<rparr>"

definition fork_run ::
    "ctx \<Rightarrow> service_env \<Rightarrow> fork_request \<Rightarrow> (run_row \<Rightarrow> run_row) \<Rightarrow> (string \<Rightarrow> (string \<times> string option) list) \<Rightarrow> plugins \<Rightarrow>
      db \<Rightarrow> db \<Rightarrow> db \<Rightarrow> db \<Rightarrow> fork_error + (run_row \<times> id \<times> string) \<times> db" where
  "fork_run c env q reconcile checkpoints p dq0 dq dq2 d =
    (let envelope = encode_payload (JObj [(''client_message_id'', JStr (fk_client q)), (''payload'', JObj (fork_payload q))])
     in bindr (in_store (accepted_run_for_command (fk_principal q) (fk_command q) envelope dq0)) (\<lambda>existing.
        case existing of
          Some x \<Rightarrow> Inr (x, d)
        | None \<Rightarrow>
           bindr (fork_source env q reconcile checkpoints dq0) (\<lambda>(r, goal).
           bindr (in_store (fork_settings env r)) (\<lambda>settings.
           bindr (in_store (accept_run_command c (sv_sha env) (sv_gone env) (fork_request_of q r goal settings) p dq dq2 d))
             (\<lambda>((x, new), d1). Inr (x, d1))))))"


subsection \<open>A start is accepted once\<close>

text \<open>Where the command is already accepted as \<open>x\<close>, every way through answers with it and writes nothing.\<close>

definition lookup_of :: "start_request \<Rightarrow> db \<Rightarrow> (run_row \<times> id \<times> string) option res" where
  "lookup_of q = accepted_run_for_command (sq_principal q) (sq_command q) (command_envelope q)"

lemma accept_known:
  assumes "accept_run_command c sha gone q p dq dq2 d = Inr ((y, new), d')"
    and "lookup_of q d = Inr (Some x)" "lookup_of q dq \<in> {Inr None, Inr (Some x)}" "lookup_of q dq2 \<in> {Inr None, Inr (Some x)}"
  shows "y = x \<and> d' = d"
  using assms unfolding lookup_of_def accept_run_command_def Let_def
  by (auto split: if_splits)

lemma accept_lookup:
  assumes "accept_run_command c sha gone q p d dq2 d = Inr ((x, new), d')" "lookup_of q dq2 = lookup_of q d"
  shows "lookup_of q d' = Inr (Some x) \<and> (lookup_of q d = Inr None \<or> lookup_of q d = Inr (Some x) \<and> d' = d)"
proof (rule accept_run_commandE [OF assms(1)])
  assume "\<not> new" "d' = d"
  then have "lookup_of q d = Inr (Some x)"
    using assms unfolding lookup_of_def accept_run_command_def Let_def
    by (auto simp: bindr_Inr_iff split: option.splits if_splits)
  then show ?thesis using \<open>d' = d\<close> by simp
next
  fix r t
  assume x: "x = (r, sq_command q, sq_client q)" and t: "turn_admitted c q t r d d'"
    and l: "accepted_run_for_command (sq_principal q) (sq_command q) (command_envelope q) d = Inr None"
  show ?thesis using l by (simp add: lookup_of_def accepted_run_for_command_def turn_found [OF t] x)
qed

text \<open>The request a submission becomes; who asks, under which id and with what is the submission's alone.\<close>

definition submission_lookup :: "submission \<Rightarrow> db \<Rightarrow> (run_row \<times> id \<times> string) option res" where
  "submission_lookup q d =
    bindr (submitted_settings q) (\<lambda>x. accepted_run_for_command (sb_principal q) (sb_command q)
      (encode_payload (JObj [(''client_message_id'', JStr (sb_client q)), (''payload'', JObj (start_payload q x))])) d)"

lemma lookup_of_submission:
  "submitted_settings q = Inr x \<Longrightarrow> lookup_of (start_request_of q (start_payload q x) s y) d = submission_lookup q d"
  by (simp add: lookup_of_def submission_lookup_def start_request_of_def command_envelope_def del: encode_payload.simps)

lemma start_runE:
  assumes "start_run c env q p dq0 dq dq2 (d, root) = Inr (x, d', root')"
  obtains (known) "submission_lookup q dq0 = Inr (Some x)" "d' = d" "root' = root"
  | (asked) pub settings errors y new where "submission_lookup q dq0 = Inr None" "submitted_settings q = Inr pub"
      "service_snapshot env q (fst pub) (snd pub) = Inr (settings, errors)"
      "prepare_submission env q (first_error errors) root = (y, root')"
      "accept_run_command c (sv_sha env) (sv_gone env) (start_request_of q (start_payload q pub) settings y) p dq dq2 d =
        Inr ((x, new), d')"
proof -
  obtain pub where pub: "submitted_settings q = Inr pub"
    using assms by (auto simp: start_run_def split: sum.splits)
  have l: "accepted_run_for_command (sb_principal q) (sb_command q)
      (encode_payload (JObj [(''client_message_id'', JStr (sb_client q)), (''payload'', JObj (start_payload q pub))])) dq0 =
      submission_lookup q dq0" by (simp add: submission_lookup_def pub del: encode_payload.simps)
  note run = assms [unfolded start_run_def pub sum.case Let_def l]
  obtain e where e: "submission_lookup q dq0 = Inr e" using run by (auto split: sum.splits)
  show thesis
  proof (cases e)
    case (Some z)
    then show thesis using run e known by simp
  next
    case None
    obtain settings errors where s: "service_snapshot env q (fst pub) (snd pub) = Inr (settings, errors)"
      using run e None by (auto split: sum.splits)
    obtain y root1 where y: "prepare_submission env q (first_error errors) root = (y, root1)" by fastforce
    let ?a = "accept_run_command c (sv_sha env) (sv_gone env) (start_request_of q (start_payload q pub) settings y) p dq dq2 d"
    have r: "map_sum id (\<lambda>((r, new), d1). (r, d1, root1)) ?a = Inr (x, d', root')"
      using run by (simp add: e None s submit_start_def y)
    then obtain new where "?a = Inr ((x, new), d')" "root1 = root'" by (cases ?a) auto
    then show thesis using asked [OF _ pub s] y e None by simp
  qed
qed

lemma start_run_lookup:
  assumes "start_run c env q p d d d (d, root) = Inr (x, d', root')"
  shows "submission_lookup q d' = Inr (Some x)" "submission_lookup q d \<in> {Inr None, Inr (Some x)}"
proof -
  have "submission_lookup q d' = Inr (Some x) \<and> submission_lookup q d \<in> {Inr None, Inr (Some x)}"
    by (rule start_runE [OF assms]) (auto dest!: accept_lookup simp: lookup_of_submission)
  then show "submission_lookup q d' = Inr (Some x)" "submission_lookup q d \<in> {Inr None, Inr (Some x)}" by simp_all
qed

lemma start_run_known:
  "submission_lookup q dq0 = Inr (Some x) \<Longrightarrow> start_run c env q p dq0 dq dq2 st = Inr (x, st)"
  by (auto simp: submission_lookup_def start_run_def bindr_Inr_iff Let_def simp del: encode_payload.simps split: sum.splits)

text \<open>C36: A start that returned a run is answered with the same run by every repetition that sees it,
  whatever has become of settings, models, skills, files and workspace since, and writes nothing;
  a repetition that raced with it and read the store before it was there, if it returns at all,
  returns that run too and leaves the database as it is.\<close>

theorem start_is_accepted_once:
  assumes "start_run c env q p d d d (d, root) = Inr (x, d1, root1)"
  shows "start_run c' env' q p' d1 dq dq2 st = Inr (x, st) \<and>
    (\<forall>dq0\<in>{d, d1}. \<forall>dq\<in>{d, d1}. \<forall>dq2\<in>{d, d1}. \<forall>y d2 root2.
      start_run c' env' q p' dq0 dq dq2 (d1, root') = Inr (y, d2, root2) \<longrightarrow> y = x \<and> d2 = d1)"
proof (intro conjI ballI allI impI)
  note l = start_run_lookup [OF assms]
  show "start_run c' env' q p' d1 dq dq2 st = Inr (x, st)" by (rule start_run_known [OF l(1)])
  fix dq0 dq dq2 y d2 root2
  assume r: "dq0 \<in> {d, d1}" "dq \<in> {d, d1}" "dq2 \<in> {d, d1}"
  assume s: "start_run c' env' q p' dq0 dq dq2 (d1, root') = Inr (y, d2, root2)"
  have seen: "submission_lookup q e \<in> {Inr None, Inr (Some x)}" if "e \<in> {d, d1}" for e
    using that l by auto
  show "y = x" "d2 = d1"
    by (rule start_runE [OF s]; use seen r l(1) in \<open>force dest!: accept_known simp: lookup_of_submission\<close>)+
qed

definition demo_env :: "string \<Rightarrow> service_env" where
  "demo_env guard =
     \<lparr>sv_settings = demo_settings guard, sv_fake = True, sv_local = (\<lambda>_ _ _. ([], None)),
      sv_capabilities = (\<lambda>_ _. ([], None)), sv_skills = Some ''f'', sv_build = JNull, sv_complex = (\<lambda>_. True),
      sv_size = (\<lambda>_. None), sv_media = (\<lambda>_. None), sv_files = (\<lambda>_. None), sv_sha = (\<lambda>s. s), sv_gone = (\<lambda>_. False)\<rparr>"

definition demo_submission :: submission where
  "demo_submission =
     \<lparr>sb_principal = local_owner, sb_command = ''k'', sb_client = ''c2'', sb_protocol = 1, sb_capabilities = [''agent.run''],
      sb_goal = ''goal'', sb_tools = [], sb_thread = Some ''t'', sb_user_input = None, sb_assistant = None, sb_title = None,
      sb_thread_metadata = None, sb_item_metadata = None, sb_replace = None, sb_workspace = None, sb_attachments = [],
      sb_mode = ''fast'', sb_reasoning = None, sb_permission = ''ask'', sb_history = [], sb_parent = None, sb_refs = [],
      sb_plugin_command = None, sb_settings = Some [(''input_guard'', JStr ''block'')], sb_metadata = None, sb_frozen = False,
      sb_trusted = False\<rparr>"

definition demo_start :: "((run_row \<times> id \<times> string) \<times> db \<times> blob_root) res" where
  "demo_start = start_run free_ctx (demo_env ''observe'') demo_submission no_plugins empty_db empty_db empty_db (empty_db, Map.empty)"

lemma demo_start_runs: "returns demo_start (\<lambda>((r, i, k), d', root'). length (db_runs d') = 1)"
  by code_simp

lemma start_is_accepted_once_witness:
  "\<exists>x d' root'. demo_start = Inr (x, d', root') \<and> length (db_runs d') = 1 \<and>
     start_run free_ctx (demo_env ''block'') demo_submission no_plugins d' d' d' (d', root') = Inr (x, d', root')"
proof -
  obtain r i k d' root' where a: "demo_start = Inr ((r, i, k), d', root')" "length (db_runs d') = 1"
    by (rule returnsE [OF demo_start_runs]) auto
  note s = start_is_accepted_once [OF a(1) [unfolded demo_start_def], THEN conjunct1]
  show ?thesis by (intro exI [of _ "(r, i, k)"] exI [of _ d'] exI [of _ root']) (simp add: a s)
qed


subsection \<open>What an admitted run is given\<close>

lemma first_error_None: "first_error es = None \<longleftrightarrow> (\<forall>e\<in>set es. e = None)"
  by (induction es) (auto simp: first_error_def split: list.splits)

definition service_keys :: "string set" where
  "service_keys = {''_model_binding'', ''reasoning_mode'', ''_diagnostics_build'', ''_execution_policy'', ''_capability_bindings'',
     ''_required_tools'', ''_skills_fingerprint''}"

lemma skill_snapshot_other: "skill_snapshot env s = (s', e) \<Longrightarrow> k \<noteq> ''_skills_fingerprint'' \<Longrightarrow> map_of s' k = map_of s k"
  by (auto simp: skill_snapshot_def split: if_splits option.splits)

text \<open>The snapshot without errors: what the service puts in it, and that it leaves the rest alone.\<close>

lemma finish_snapshotE:
  assumes "finish_snapshot env q asked (b, me) s0 = (s, errors)" "first_error errors = None"
  obtains mode where "mode = frozen_reasoning (dget s0 ''reasoning_mode'') asked b" "mode \<in> set (supported_modes b)"
    "dget s ''_model_binding'' = JObj (dset ''reasoning_mode'' (JStr mode) b)" "dget s ''reasoning_mode'' = JStr mode"
    "\<exists>s1. dget s ''_execution_policy'' = JObj (execution_policy_snapshot (sv_complex env) (sb_goal q) s1) \<and>
       dget s ''subagents'' = dget s1 ''subagents''"
    "\<forall>k. k \<notin> service_keys \<longrightarrow> map_of s k = map_of s0 k"
proof -
  define mode where "mode = frozen_reasoning (dget s0 ''reasoning_mode'') asked b"
  let ?errors = "request_errors env q @ [me, reasoning_mode_error b mode]"
  define b1 where "b1 = (if first_error ?errors = None then dset ''reasoning_mode'' (JStr mode) b else b)"
  define s1 where "s1 = dset ''_diagnostics_build'' (sv_build env) (dset ''reasoning_mode'' (JStr mode)
                (dset ''_model_binding'' (JObj b1) s0))"
  define s2 where "s2 = dset ''_execution_policy'' (JObj (execution_policy_snapshot (sv_complex env) (sb_goal q) s1)) s1"
  obtain caps tools e4 where c: "capability_snapshot env q s2 = (caps, tools, e4)" by (cases "capability_snapshot env q s2")
  obtain s3 e5 where k: "skill_snapshot env (dset ''_required_tools'' tools (dset ''_capability_bindings'' caps s2)) = (s3, e5)"
    by fastforce
  have r: "s = s3" "errors = ?errors @ [e4, e5]"
    using assms(1) unfolding finish_snapshot_def Let_def case_prod_conv mode_def [symmetric] b1_def [symmetric]
      s1_def [symmetric] s2_def [symmetric] c k by simp_all
  have ok: "first_error ?errors = None" "reasoning_mode_error b mode = None"
    using assms(2) by (simp_all add: r first_error_None)
  have other: "map_of s x = map_of (dset ''_required_tools'' tools (dset ''_capability_bindings'' caps s2)) x"
    if "x \<noteq> ''_skills_fingerprint''" for x
    using skill_snapshot_other [OF k that] r(1) by simp
  have get: "dget s x = dget s2 x" if "x \<notin> {''_skills_fingerprint'', ''_required_tools'', ''_capability_bindings''}" for x
    using other [of x] that by (simp add: dget_def)
  show thesis
  proof (rule that [OF mode_def])
    show "mode \<in> set (supported_modes b)" using ok(2) by (simp add: reasoning_mode_error_def split: if_splits)
    show "dget s ''_model_binding'' = JObj (dset ''reasoning_mode'' (JStr mode) b)"
      by (simp add: get s2_def s1_def b1_def ok(1))
    show "dget s ''reasoning_mode'' = JStr mode" by (simp add: get s2_def s1_def)
    show "\<exists>s1. dget s ''_execution_policy'' = JObj (execution_policy_snapshot (sv_complex env) (sb_goal q) s1) \<and>
       dget s ''subagents'' = dget s1 ''subagents''"
      by (intro exI [of _ s1]) (simp add: get s2_def)
    show "\<forall>k. k \<notin> service_keys \<longrightarrow> map_of s k = map_of s0 k"
      using other by (simp add: service_keys_def s2_def s1_def)
  qed
qed

text \<open>The run an accepted start makes carries the settings it was asked with.\<close>

lemma admit_run_settings:
  assumes "admit_run c sha q p d = Inr (r, d')"
  shows "r_settings r = JObj (case sq_settings q of None \<Rightarrow> [] | Some x \<Rightarrow> x)"
proof -
  obtain root bs m where "start_turn c sha q root m bs p d = Inr (r, d')"
    using assms by (auto simp: admit_run_def bindr_Inr_iff split: if_splits)
  note t = this [unfolded start_turn_def]
  obtain place d0 where pl: "place_turn sha q (x_clock c 1) d = Inr (place, d0)"
    using t by (auto simp: bindr_Inr_iff)
  obtain a d1 where a: "assistant_item_id sha q d0 = (a, d1)" by fastforce
  have "\<exists>d2. new_run_record (x_clock c 2) (x_clock c 3) (turn_request q place a root) d1 = Inr (r, d2)"
    using t unfolding pl bindr_simps case_prod_conv a Let_def by (auto simp: bindr_Inr_iff)
  then obtain d2 where "new_run_record (x_clock c 2) (x_clock c 3) (turn_request q place a root) d1 = Inr (r, d2)" by blast
  then show ?thesis
    by (auto simp: new_run_record_def turn_request_def Let_def simp del: encode_payload.simps split: if_splits option.splits prod.splits)
qed

lemma accept_new:
  assumes "accept_run_command c sha gone q p dq dq2 d = Inr ((x, new), d')" "lookup_of q dq = Inr None" "lookup_of q dq2 = Inr None"
    "lookup_of q d = Inr None"
  obtains r where "new" "x = (r, sq_command q, sq_client q)" "admit_run c sha q p d = Inr (r, d')" "sq_admission q = None"
proof -
  obtain r where r: "admit_run c sha q p d = Inr (r, d')" "x = (r, sq_command q, sq_client q)" "new"
    using assms unfolding lookup_of_def accept_run_command_def Let_def
    by (auto simp: bindr_Inr_iff split: if_splits)
  then have "sq_admission q = None" by (auto simp: admit_run_def split: if_splits)
  then show thesis using that r by blast
qed

lemma prepare_submission_error: "prepare_submission env q err root = (y, root') \<Longrightarrow> pp_error y = None \<Longrightarrow> err = None"
  by (auto simp: prepare_submission_def Let_def split: if_splits prod.splits option.splits)

lemma snapshot_keys_apart: "k \<in> insert ''_snapshot_version'' (fst ` set snapshot_fields) \<Longrightarrow> k \<notin> service_keys"
  by (auto simp: snapshot_fields_def budget_fields_def service_keys_def)

definition executes_within :: "dict \<Rightarrow> dict \<Rightarrow> dict \<Rightarrow> bool" where
  "executes_within base base' s \<longleftrightarrow>
    (\<exists>eff. apply_advanced_overrides base' s = Inr eff \<and> within_limits eff \<and>
      guard_strength base \<le> guard_strength eff \<and> guard_strength base' \<le> guard_strength eff)"

lemma service_snapshot_executes:
  assumes "service_snapshot env q pub asked = Inr (s, errors)" "first_error errors = None" "\<not> sb_frozen q"
    and "within_limits (sv_settings env)" "proper_guard (sv_settings env)" "proper_guard base'"
  shows "executes_within (sv_settings env) base' s"
proof -
  obtain s0 where s0: "freeze_run_settings (sv_settings env) (Some pub) = Inr s0"
    "finish_snapshot env q asked (model_admission env (sb_principal q) (sb_mode q)) s0 = (s, errors)"
    using assms(1,3) by (cases "freeze_run_settings (sv_settings env) (Some pub)") (auto simp: service_snapshot_def)
  obtain b me where m: "model_admission env (sb_principal q) (sb_mode q) = (b, me)" by fastforce
  have same: "\<forall>k. k \<notin> service_keys \<longrightarrow> map_of s k = map_of s0 k"
    using finish_snapshotE [OF s0(2) [unfolded m] assms(2)] by blast
  obtain eff where eff: "apply_advanced_overrides base' s0 = Inr eff"
    by (rule thawed_settings [OF s0(1), of base'])
  have "is_snapshot s0" by (rule frozen_fields [OF s0(1)])
  then have "apply_advanced_overrides base' s0 = apply_advanced_overrides base' s"
    using same snapshot_keys_apart by (intro apply_snapshot_cong) auto
  then show ?thesis
    using settings_hold [OF s0(1) eff assms(4-6)] eff unfolding executes_within_def by metis
qed


text \<open>C37: A new start gives its run a snapshot of its own: a model binding with a reasoning mode the
  model supports, and an execution policy that is the same whenever it is derived again; and
  where the settings were not frozen before and the machine's input guards then and now are spelled
  as modes, the run later executes within the machine's budgets and under a guard at least as
  strong as either.\<close>

theorem admitted_run_is_configured:
  assumes "start_run c env q p d d d (d, root) = Inr ((r, i, k), d1, root1)" "submission_lookup q d = Inr None"
  shows "\<exists>s b mode. r_settings r = JObj s \<and>
    dget s ''_model_binding'' = JObj b \<and> dget s ''reasoning_mode'' = JStr mode \<and> dget b ''reasoning_mode'' = JStr mode \<and>
    mode \<in> set (supported_modes b) \<and>
    (\<forall>lc goal. dget s ''_execution_policy'' = JObj (execution_policy_snapshot lc goal s)) \<and>
    (\<forall>base'. \<not> sb_frozen q \<and> within_limits (sv_settings env) \<and> proper_guard (sv_settings env) \<and> proper_guard base' \<longrightarrow>
      executes_within (sv_settings env) base' s)"
proof (cases rule: start_runE [OF assms(1), case_names known asked])
  case known
  then show ?thesis using assms(2) by simp
next
  case (asked pub s errors y new)
  let ?q = "start_request_of q (start_payload q pub) s y"
  note l = lookup_of_submission [OF asked(2)] assms(2)
  obtain r' where a: "(r, i, k) = (r', sq_command ?q, sq_client ?q)" "admit_run c (sv_sha env) ?q p d = Inr (r', d1)"
    "sq_admission ?q = None"
    by (rule accept_new [OF asked(5)]) (simp_all add: l)
  have ok: "first_error errors = None"
    using prepare_submission_error [OF asked(4)] a(3) by (simp add: start_request_of_def)
  obtain b me where m: "model_admission env (sb_principal q) (sb_mode q) = (b, me)" by fastforce
  obtain s0 where f: "finish_snapshot env q (snd pub) (b, me) s0 = (s, errors)"
    using asked(3) m by (cases "if sb_frozen q then Inr (fst pub) else freeze_run_settings (sv_settings env) (Some (fst pub))")
      (auto simp: service_snapshot_def)
  obtain mode s1 where s: "mode \<in> set (supported_modes b)" "dget s ''_model_binding'' = JObj (dset ''reasoning_mode'' (JStr mode) b)"
    "dget s ''reasoning_mode'' = JStr mode"
    "dget s ''_execution_policy'' = JObj (execution_policy_snapshot (sv_complex env) (sb_goal q) s1)"
    "dget s ''subagents'' = dget s1 ''subagents''"
    using finish_snapshotE [OF f ok] by blast
  have "r_settings r = JObj s"
    using admit_run_settings [OF a(2)] a(1) by (simp add: start_request_of_def)
  moreover have "supported_modes (dset ''reasoning_mode'' (JStr mode) b) = supported_modes b"
    by (simp add: supported_modes_def reasoning_profile_def)
  moreover have "dget s ''_execution_policy'' = JObj (execution_policy_snapshot lc goal s)" for lc goal
    using policy_again [OF s(4,5)] s(4) by simp
  moreover note service_snapshot_executes [OF asked(3) ok]
  ultimately show ?thesis
    using s(1-3) by (intro exI [of _ s] exI [of _ "dset ''reasoning_mode'' (JStr mode) b"] exI [of _ mode]) simp
qed

lemma admitted_run_is_configured_witness:
  "\<exists>r i k d' root' s. demo_start = Inr ((r, i, k), d', root') \<and> r_settings r = JObj s \<and>
     executes_within (demo_settings ''observe'') (demo_settings ''block'') s"
proof -
  obtain r i k d' root' where a: "demo_start = Inr ((r, i, k), d', root')"
    by (rule returnsE [OF demo_start_runs]) auto
  have "submission_lookup demo_submission empty_db = Inr None"
    by (simp add: submission_lookup_def submitted_settings_def demo_submission_def accepted_run_for_command_def
        find_command_def empty_db_def del: encode_payload.simps)
  note s = admitted_run_is_configured [OF a [unfolded demo_start_def] this]
  have "within_limits (demo_settings ''observe'')" "proper_guard (demo_settings ''observe'')" "proper_guard (demo_settings ''block'')"
    by (simp_all add: within_limits_def demo_settings_def budget_fields_def run_budget_limits_def proper_guard_def)
  then show ?thesis using s a by (simp add: demo_env_def demo_submission_def) blast
qed

text \<open>Two files of one name are told apart by a number, which another file's name may be already.\<close>

lemma attachment_names_may_clash:
  "map snd (attachment_bindings [''a/x'', ''b/x'', ''c/1-x'']) = [''/attachments/1-x'', ''/attachments/2-x'', ''/attachments/1-x'']"
  by code_simp

subsection \<open>The walk over checkpoints\<close>

definition parent_checkpoint :: "(string \<times> string option) list \<Rightarrow> string \<Rightarrow> string \<Rightarrow> bool" where
  "parent_checkpoint cps a b \<longleftrightarrow> map_of cps a = Some (Some b) \<and> b \<noteq> []"

lemma ancestor_sound:
  "ancestor_from cps seen w c \<Longrightarrow> c \<noteq> [] \<and> (parent_checkpoint cps)\<^sup>*\<^sup>* c w"
proof (induction cps seen w c rule: ancestor_from.induct)
  case (1 cps seen w c)
  show ?case
  proof (cases "c = w")
    case False
    then obtain p where p: "map_of cps c = Some (Some p)" "ancestor_from cps (c # seen) w p" "c \<noteq> []" "c \<notin> set seen"
      using "1.prems" by (subst (asm) ancestor_from.simps) (auto split: if_splits option.splits)
    then have "p \<noteq> [] \<and> (parent_checkpoint cps)\<^sup>*\<^sup>* p w" using "1.IH" False by auto
    moreover from this p(1) have "parent_checkpoint cps c p" by (simp add: parent_checkpoint_def)
    ultimately show ?thesis using p(3) by (metis converse_rtranclp_into_rtranclp)
  qed (use "1.prems" in \<open>subst (asm) ancestor_from.simps, auto split: if_splits\<close>)
qed

text \<open>A walk that comes back to where it was has seen all it can reach.\<close>

lemma ancestor_complete:
  "(parent_checkpoint cps)\<^sup>*\<^sup>* c w \<Longrightarrow> c \<noteq> [] \<Longrightarrow> w \<notin> set seen \<Longrightarrow>
    (\<And>x y. x \<in> set seen \<Longrightarrow> parent_checkpoint cps x y \<Longrightarrow> y \<in> insert c (set seen)) \<Longrightarrow> ancestor_from cps seen w c"
proof (induction cps seen w c rule: ancestor_from.induct)
  case (1 cps seen w c)
  have new: "c \<notin> set seen"
  proof
    assume c: "c \<in> set seen"
    have "x \<in> set seen" if "(parent_checkpoint cps)\<^sup>*\<^sup>* c x" for x
      using that c "1.prems"(4) by (induction rule: rtranclp_induct) blast+
    then show False using "1.prems"(1,3) by blast
  qed
  show ?case
  proof (cases "c = w")
    case True
    then show ?thesis using new "1.prems"(2) by (subst ancestor_from.simps) simp
  next
    case False
    then obtain p where p: "parent_checkpoint cps c p" "(parent_checkpoint cps)\<^sup>*\<^sup>* p w"
      using "1.prems"(1) by (metis converse_rtranclpE)
    then have m: "map_of cps c = Some (Some p)" "p \<noteq> []" by (simp_all add: parent_checkpoint_def)
    have "y \<in> insert p (set (c # seen))" if "x \<in> set (c # seen)" "parent_checkpoint cps x y" for x y
      using that p(1) "1.prems"(4) by (auto simp: parent_checkpoint_def)
    then have "ancestor_from cps (c # seen) w p"
      using "1.IH" [of "Some p" p] p(2) m False new "1.prems"(2,3) by simp
    then show ?thesis using m False new "1.prems"(2) by (subst ancestor_from.simps) simp
  qed
qed

text \<open>C38: The walk from a run's head ends, and finds a checkpoint exactly when it lies on the way back
  from the head along the parents, also where these run in a circle.\<close>

theorem checkpoint_walk_is_reachability:
  "checkpoint_is_ancestor cps head_id wanted \<longleftrightarrow> head_id \<noteq> [] \<and> (parent_checkpoint cps)\<^sup>*\<^sup>* head_id wanted"
  unfolding checkpoint_is_ancestor_def
  using ancestor_sound [of cps "[]"] ancestor_complete [of cps _ _ "[]"] by auto

end
