(* ===== verification/Schedules.thy ===== *)
theory Schedules
  imports Run_Service
begin

text \<open>
  Schedules (store/schedules.py, scheduler.py): a run put off to a time, claimed when it is due,
  started under a command of its own, and settled from the run it became. Shown: a schedule that
  ended stays as it ended and a run once bound stays bound, whatever is done in whatever order;
  and a schedule that is dispatched again after a crash finds the run it already started.

  The dispatcher awaits the run between starting it and settling the schedule; the two halves are
  separate operations here. Times written in UTC by one formatter compare like their texts.
\<close>

subsection \<open>The table\<close>

record schedule_request =
  ss_principal :: string
  ss_goal :: string
  ss_run_at :: time
  ss_workspace :: "string option"
  ss_model :: string
  ss_history :: "dict list"
  ss_settings :: dict
  ss_metadata :: dict

definition schedule_row_of :: "ctx \<Rightarrow> schedule_request \<Rightarrow> id \<Rightarrow> schedule_row" where
  "schedule_row_of c q i =
     \<lparr>sr_id = i, sr_principal = ss_principal q, sr_goal = ss_goal q, sr_workspace = ss_workspace q,
      sr_model = (if ss_model q = [] then ''auto'' else ss_model q), sr_history = JList (map JObj (ss_history q)),
      sr_settings = JObj (ss_settings q), sr_metadata = JObj (ss_metadata q), sr_run_at = ss_run_at q,
      sr_status = ''scheduled'', sr_run = None, sr_result = None, sr_error = None, sr_created = x_clock c 1,
      sr_updated = x_clock c 2, sr_completed = None, sr_notified = None\<rparr>"

definition create_scheduled_run :: "ctx \<Rightarrow> (string \<Rightarrow> bool) \<Rightarrow> schedule_request \<Rightarrow> db \<Rightarrow> (schedule_row \<times> db) res" where
  "create_scheduled_run c path_gone q d =
    (let (i, d1) = new_id ''sched'' d; s = schedule_row_of c q i
     in if workspace_path_error path_gone (ss_workspace q) then Inl WorkspaceAdmissionError
        else if workspace_unauthorized (ss_principal q) (ss_workspace q) d1 then Inl WorkspaceAdmissionError
        else if list_ex (\<lambda>x. sr_id x = i) (db_schedules d1) then Inl SqlIntegrityError
        else Inr (s, d1\<lparr>db_schedules := db_schedules d1 @ [s]\<rparr>))"

definition get_scheduled_run :: "id \<Rightarrow> db \<Rightarrow> schedule_row option" where
  "get_scheduled_run i d = find (\<lambda>s. sr_id s = i) (db_schedules d)"

definition scheduled_run_for_principal :: "string \<Rightarrow> id \<Rightarrow> db \<Rightarrow> schedule_row option" where
  "scheduled_run_for_principal owner i d = find (\<lambda>s. sr_principal s = owner \<and> sr_id s = i) (db_schedules d)"

definition unnotified :: "schedule_row \<Rightarrow> bool" where
  "unnotified s \<longleftrightarrow> sr_status s \<in> {''completed'', ''failed''} \<and> sr_notified s = None"

text \<open>The three listings, of all schedules or of an owner's.\<close>

definition select_schedules :: "(schedule_row \<Rightarrow> bool) \<Rightarrow> nat \<Rightarrow> string option \<Rightarrow> bool \<Rightarrow> db \<Rightarrow> schedule_row list" where
  "select_schedules whose limit status notify_pending d =
    (let st = opt_or status []
     in take limit
      (if notify_pending then select_by (\<lambda>s. (seconds (sr_updated s), sr_id s)) (\<lambda>s. whose s \<and> unnotified s) (db_schedules d)
       else if st \<noteq> [] then select_by (\<lambda>s. (seconds (sr_run_at s), sr_id s)) (\<lambda>s. whose s \<and> sr_status s = st) (db_schedules d)
       else rev (select_by (\<lambda>s. (seconds (sr_run_at s), sr_id s)) whose (db_schedules d))))"

definition list_scheduled_runs :: "nat \<Rightarrow> string option \<Rightarrow> bool \<Rightarrow> db \<Rightarrow> schedule_row list" where
  "list_scheduled_runs = select_schedules (\<lambda>_. True)"

definition list_scheduled_runs_for_principal :: "string \<Rightarrow> nat \<Rightarrow> string option \<Rightarrow> bool \<Rightarrow> db \<Rightarrow> schedule_row list" where
  "list_scheduled_runs_for_principal owner = select_schedules (\<lambda>s. sr_principal s = owner)"

definition update_schedules :: "(schedule_row \<Rightarrow> bool) \<Rightarrow> (schedule_row \<Rightarrow> schedule_row) \<Rightarrow> db \<Rightarrow> db" where
  "update_schedules p f d = d\<lparr>db_schedules := update_where p f (db_schedules d)\<rparr>"

definition claim_due_scheduled_runs :: "ctx \<Rightarrow> time \<Rightarrow> nat \<Rightarrow> db \<Rightarrow> schedule_row list \<times> db" where
  "claim_due_scheduled_runs c now limit d =
    (let due = take limit (select_by (\<lambda>s. (sr_run_at s, sr_id s)) (\<lambda>s. sr_status s = ''scheduled'' \<and> sr_run_at s \<le> now) (db_schedules d));
         claim = (\<lambda>s. s\<lparr>sr_status := ''running'', sr_updated := x_clock c 1\<rparr>)
     in (map claim due,
         update_schedules (\<lambda>s. sr_id s \<in> sr_id ` set due \<and> sr_status s = ''scheduled'') claim d))"

text \<open>An update that returns the row it changed, or else the row as another left it.\<close>

definition mark_scheduled_run_started :: "time \<Rightarrow> id \<Rightarrow> id \<Rightarrow> db \<Rightarrow> schedule_row option \<times> db" where
  "mark_scheduled_run_started now i run d =
    (let d1 = update_schedules (\<lambda>s. sr_id s = i \<and> sr_status s = ''running'' \<and> (sr_run s = None \<or> sr_run s = Some run))
           (\<lambda>s. s\<lparr>sr_status := ''running'', sr_run := Some run, sr_updated := now\<rparr>) d
     in (get_scheduled_run i d1, d1))"

definition complete_scheduled_run ::
    "time \<Rightarrow> id \<Rightarrow> string \<Rightarrow> string option \<Rightarrow> string option \<Rightarrow> db \<Rightarrow> (schedule_row option \<times> db) res" where
  "complete_scheduled_run now i status result err d =
    (if status \<notin> {''completed'', ''failed'', ''canceled''} then Inl PyValueError
     else
      (let d1 = update_schedules (\<lambda>s. sr_id s = i \<and> sr_status s = ''running'')
             (\<lambda>s. s\<lparr>sr_status := status, sr_result := result, sr_error := err, sr_completed := Some now, sr_updated := now\<rparr>) d
       in Inr (get_scheduled_run i d1, d1)))"

definition cancel_scheduled_run :: "time \<Rightarrow> string \<Rightarrow> id \<Rightarrow> db \<Rightarrow> schedule_row option \<times> db" where
  "cancel_scheduled_run now owner i d =
    (let d1 = update_schedules (\<lambda>s. sr_principal s = owner \<and> sr_id s = i \<and> sr_status s = ''scheduled'')
           (\<lambda>s. s\<lparr>sr_status := ''canceled'', sr_completed := Some now, sr_updated := now\<rparr>) d
     in (scheduled_run_for_principal owner i d1, d1))"

definition mark_scheduled_run_notified :: "time \<Rightarrow> string \<Rightarrow> id \<Rightarrow> db \<Rightarrow> schedule_row option \<times> db" where
  "mark_scheduled_run_notified now owner i d =
    (let d1 = update_schedules (\<lambda>s. sr_principal s = owner \<and> sr_id s = i \<and> unnotified s)
           (\<lambda>s. s\<lparr>sr_notified := Some now, sr_updated := now\<rparr>) d
     in (scheduled_run_for_principal owner i d1, d1))"

subsection \<open>The dispatcher\<close>

definition history_list :: "json \<Rightarrow> dict list" where
  "history_list v =
    (case v of
       JList xs \<Rightarrow> map (\<lambda>m. [(''role'', JStr (text_or (dget (obj_of m) ''role'') ''user'')), (''content'', JStr (py_str (dget (obj_of m) ''content'')))])
         (filter (\<lambda>m. is_obj m \<and> dget (obj_of m) ''content'' \<noteq> JNull) xs)
     | _ \<Rightarrow> [])"

definition schedule_metadata :: "schedule_row \<Rightarrow> dict" where
  "schedule_metadata s =
     dmerge (sanitize_run_metadata (Some (obj_of (sr_metadata s))))
       [(''intent'', JStr ''scheduled_run''), (''scheduled_run_id'', JStr (sr_id s))]"

definition schedule_submission :: "schedule_row \<Rightarrow> submission" where
  "schedule_submission s =
    (let settings = obj_of (sr_settings s)
     in \<lparr>sb_principal = sr_principal s, sb_command = ''cmd_schedule:'' @ sr_id s, sb_client = ''msg_schedule:'' @ sr_id s,
         sb_protocol = 1, sb_capabilities = [''agent.run'', ''agent.stream''], sb_goal = sr_goal s, sb_tools = [],
         sb_thread = None, sb_user_input = None, sb_assistant = None, sb_title = None, sb_thread_metadata = None,
         sb_item_metadata = None, sb_replace = None, sb_workspace = sr_workspace s, sb_attachments = [],
         sb_mode = (if sr_model s = [] then ''auto'' else sr_model s),
         sb_reasoning = Some (if truthy (dget settings ''reasoning_mode'') then py_str (dget settings ''reasoning_mode'') else ''off''),
         sb_permission = ''ask'', sb_history = history_list (sr_history s), sb_parent = None, sb_refs = [],
         sb_plugin_command = None, sb_settings = Some settings, sb_metadata = Some (schedule_metadata s),
         sb_frozen = has_key settings ''_snapshot_version'', sb_trusted = True\<rparr>)"

text \<open>\<open>_latest_event_text\<close>: of the latest event of the type that has one of the fields, the first field it has.\<close>

definition event_texts :: "string list \<Rightarrow> event_row \<Rightarrow> string list" where
  "event_texts keys e = map py_str (filter (\<lambda>v. v \<noteq> JNull) (map (dget (obj_of (e_payload e))) keys))"

definition latest_event_text :: "id \<Rightarrow> string \<Rightarrow> string list \<Rightarrow> db \<Rightarrow> string" where
  "latest_event_text run ty keys d =
    (case concat (map (event_texts keys) (filter (\<lambda>e. e_type e = ty) (rev (events_since run 0 None d)))) of
       [] \<Rightarrow> [] | t # _ \<Rightarrow> t)"

text \<open>\<open>_finalize_schedule_from_run\<close>; each of its outcomes is a status the table takes.\<close>

definition schedule_outcome :: "run_row \<Rightarrow> db \<Rightarrow> string \<times> string option \<times> string option" where
  "schedule_outcome r d =
    (case r_status r of
       RunCompleted \<Rightarrow> (''completed'', Some (latest_event_text (r_id r) ''run.completed'' [''final_text'', ''final'', ''content'', ''message''] d), None)
     | RunCanceled \<Rightarrow> (''canceled'', None, Some ''Scheduled run was canceled.'')
     | RunFailed \<Rightarrow> (''failed'', None, Some (opt_or (Some (latest_event_text (r_id r) ''run.failed'' [''message'', ''error'', ''detail''] d)) ''Scheduled run failed.''))
     | _ \<Rightarrow> (''failed'', None, Some ''Scheduled run paused for user input or permission.''))"

definition settle_schedule :: "time \<Rightarrow> id \<Rightarrow> string \<times> string option \<times> string option \<Rightarrow> db \<Rightarrow> db" where
  "settle_schedule now i x d =
    (case complete_scheduled_run now i (fst x) (fst (snd x)) (snd (snd x)) d of Inl e \<Rightarrow> d | Inr (s, d1) \<Rightarrow> d1)"

definition fail_schedule :: "time \<Rightarrow> id \<Rightarrow> string \<Rightarrow> db \<Rightarrow> db" where
  "fail_schedule now i text d = settle_schedule now i (''failed'', None, Some text) d"

definition finalize_schedule :: "time \<Rightarrow> id \<Rightarrow> id \<Rightarrow> string \<Rightarrow> db \<Rightarrow> db" where
  "finalize_schedule now i run gone d =
    (case get_run_row d run of
       None \<Rightarrow> fail_schedule now i gone d
     | Some r \<Rightarrow> settle_schedule now i (schedule_outcome r d) d)"

text \<open>
  The first half of \<open>_run_schedule\<close>: until the run is bound and its stream awaited (the run), or
  the schedule is left to whoever holds it or settled. \<open>error_text\<close> is \<open>str\<close> of an exception.
\<close>

definition bind_schedule :: "time \<Rightarrow> (store_error \<Rightarrow> string) \<Rightarrow> id \<Rightarrow> id \<Rightarrow> db \<Rightarrow> id option \<times> db" where
  "bind_schedule now error_text i run d =
    (let (bound, d1) = mark_scheduled_run_started now i run d
     in case bound of
          None \<Rightarrow> (None, fail_schedule now i (error_text PyRuntimeError) d1)
        | Some s \<Rightarrow> if sr_run s \<noteq> Some run \<or> sr_status s \<noteq> ''running'' then (None, d1) else (Some run, d1))"

definition begin_schedule ::
    "ctx \<Rightarrow> service_env \<Rightarrow> (store_error \<Rightarrow> string) \<Rightarrow> plugins \<Rightarrow> time \<Rightarrow> schedule_row \<Rightarrow> db \<times> blob_root \<Rightarrow> id option \<times> db \<times> blob_root" where
  "begin_schedule c env error_text p now s st =
    (case workspace_admission_error (sv_gone env) (sr_principal s) (sr_workspace s) (fst st) of
       Some e \<Rightarrow> (None, fail_schedule now (sr_id s) e (fst st), snd st)
     | None \<Rightarrow>
        (case start_run c env (schedule_submission s) p (fst st) (fst st) (fst st) st of
           Inl e \<Rightarrow> (None, fail_schedule now (sr_id s) (error_text e) (fst st), snd st)
         | Inr ((r, i, k), d1, root1) \<Rightarrow>
            (let (run, d2) = bind_schedule now error_text (sr_id s) (r_id r) d1 in (run, d2, root1))))"

text \<open>The second half, when the stream of the run has ended.\<close>

definition finish_schedule :: "time \<Rightarrow> id \<Rightarrow> id \<Rightarrow> db \<Rightarrow> db" where
  "finish_schedule now i run d = finalize_schedule now i run ''Scheduled run disappeared before completion.'' d"

text \<open>\<open>recover_running\<close> for one schedule left running: started again, or settled from its run.\<close>

definition recover_schedule ::
    "ctx \<Rightarrow> service_env \<Rightarrow> (store_error \<Rightarrow> string) \<Rightarrow> plugins \<Rightarrow> time \<Rightarrow> schedule_row \<Rightarrow> db \<times> blob_root \<Rightarrow> id option \<times> db \<times> blob_root" where
  "recover_schedule c env error_text p now s st =
    (if opt_or (sr_run s) [] = [] then begin_schedule c env error_text p now s st
     else (None, finalize_schedule now (sr_id s) (opt_or (sr_run s) []) ''Scheduled run record is missing.'' (fst st), snd st))"

definition schedules_to_recover :: "db \<Rightarrow> schedule_row list" where
  "schedules_to_recover d = list_scheduled_runs 100 (Some ''running'') False d"


subsection \<open>The life of a schedule\<close>

text \<open>What becomes of a schedule: its status, the run it was bound to, and how it ended.\<close>

type_synonym fate = "string \<times> id option \<times> string option \<times> string option \<times> time option"

definition fate_of :: "schedule_row \<Rightarrow> fate" where
  "fate_of s = (sr_status s, sr_run s, sr_result s, sr_error s, sr_completed s)"

inductive fate_step :: "fate \<Rightarrow> fate \<Rightarrow> bool" where
  claim: "fate_step (''scheduled'', r, x, e, t) (''running'', r, x, e, t)"
| cancel: "fate_step (''scheduled'', r, x, e, t) (''canceled'', r, x, e, Some now)"
| bind: "fate_step (''running'', None, x, e, t) (''running'', Some r, x, e, t)"
| complete: "st \<in> {''completed'', ''failed'', ''canceled''} \<Longrightarrow> fate_step (''running'', r, x, e, t) (st, r, x', e', Some now)"

inductive_cases fate_stepE: "fate_step a b"

definition over :: "fate \<Rightarrow> bool" where
  "over f \<longleftrightarrow> fst f \<notin> {''scheduled'', ''running''}"

definition schedules_evolve :: "db \<Rightarrow> db \<Rightarrow> bool" where
  "schedules_evolve d d' \<longleftrightarrow> rows_evolve fate_step fate_of sr_id (db_schedules d) (db_schedules d')"

interpretation fates: lifecycle_table fate_step over db_schedules fate_of sr_id schedules_evolve
proof unfold_locales
  show "\<not> fate_step s t" if "over s" for s t
    using that by (auto simp: over_def elim!: fate_stepE)
  show "\<exists>t. fate_step s t \<and> t \<noteq> s" if "\<not> over s" for s
  proof (cases s)
    case (fields st r x e t)
    then have "st = ''scheduled'' \<or> st = ''running''" using that by (auto simp: over_def)
    then show ?thesis
      using fields fate_step.claim [of r x e t] fate_step.complete [of "''failed''" r x e t x e 0] by fastforce
  qed
qed (simp add: schedules_evolve_def)

text \<open>Whatever happens to a schedule, the run it is bound to stays.\<close>

lemma bound_run_stays: "fate_step\<^sup>*\<^sup>* f g \<Longrightarrow> fst (snd f) = Some r \<Longrightarrow> fst (snd g) = Some r"
  by (induction rule: rtranclp_induct) (auto elim!: fate_stepE)

lemma update_evolves:
  assumes "\<And>s. s \<in> set (db_schedules d) \<Longrightarrow> p s \<Longrightarrow> fate_step\<^sup>*\<^sup>* (fate_of s) (fate_of (f s)) \<and> sr_id (f s) = sr_id s"
  shows "schedules_evolve d (update_schedules p f d)"
  by (rule fates.evolves_update [where p = p and f = f]) (use assms in \<open>simp_all add: update_schedules_def\<close>)

lemma create_scheduled_runD:
  assumes "create_scheduled_run c gone q d = Inr (s, d')"
  shows "db_schedules d' = db_schedules d @ [s]" "\<forall>x\<in>set (db_schedules d). sr_id x \<noteq> sr_id s"
proof -
  obtain i d1 where i: "new_id ''sched'' d = (i, d1)" by fastforce
  have s: "s = schedule_row_of c q i" "d' = d1\<lparr>db_schedules := db_schedules d1 @ [s]\<rparr>"
    "\<not> list_ex (\<lambda>x. sr_id x = i) (db_schedules d1)"
    using assms unfolding create_scheduled_run_def i Let_def by (auto split: if_splits)
  then show "db_schedules d' = db_schedules d @ [s]" "\<forall>x\<in>set (db_schedules d). sr_id x \<noteq> sr_id s"
    using new_id_sameD [OF i] by (auto simp: list_ex_iff schedule_row_of_def)
qed

lemma create_evolves: "create_scheduled_run c gone q d = Inr (s, d') \<Longrightarrow> schedules_evolve d d'"
  by (rule fates.evolves_append [where new = "[s]"]) (simp add: create_scheduled_runD(1))

lemma claim_evolves: "claim_due_scheduled_runs c now limit d = (due, d') \<Longrightarrow> schedules_evolve d d'"
  by (auto simp: claim_due_scheduled_runs_def Let_def fate_of_def intro!: update_evolves fate_step.claim)

lemma started_evolves: "mark_scheduled_run_started now i run d = (s, d') \<Longrightarrow> schedules_evolve d d'"
  by (auto simp: mark_scheduled_run_started_def Let_def fate_of_def intro!: update_evolves fate_step.bind)

lemma complete_evolves: "complete_scheduled_run now i st x e d = Inr (s, d') \<Longrightarrow> schedules_evolve d d'"
  by (auto simp: complete_scheduled_run_def Let_def fate_of_def intro!: update_evolves fate_step.complete split: if_splits)

lemma cancel_evolves: "cancel_scheduled_run now owner i d = (s, d') \<Longrightarrow> schedules_evolve d d'"
  by (auto simp: cancel_scheduled_run_def Let_def fate_of_def intro!: update_evolves fate_step.cancel)

lemma notified_evolves: "mark_scheduled_run_notified now owner i d = (s, d') \<Longrightarrow> schedules_evolve d d'"
  by (auto simp: mark_scheduled_run_notified_def Let_def fate_of_def intro!: update_evolves)

lemma settle_evolves: "schedules_evolve d (settle_schedule now i x d)"
  by (auto simp: settle_schedule_def fates.evolves_refl split: sum.splits dest: complete_evolves)

text \<open>Starting a run touches no schedule.\<close>

lemma insert_rows_schedules:
  "insert_item i d = Inr d' \<Longrightarrow> db_schedules d' = db_schedules d"
  "insert_thread t d = Inr d' \<Longrightarrow> db_schedules d' = db_schedules d"
  "insert_run r d = Inr d' \<Longrightarrow> db_schedules d' = db_schedules d"
  "insert_run_job j d = Inr d' \<Longrightarrow> db_schedules d' = db_schedules d"
  "insert_command x d = Inr d' \<Longrightarrow> db_schedules d' = db_schedules d"
  by (auto simp: insert_item_def insert_thread_def insert_run_def insert_run_job_def insert_command_def split: if_splits)

lemma turn_rows_schedules:
  assumes "insert_turn_rows c q place m bs p r a d = Inr d'"
  shows "db_schedules d' = db_schedules d"
proof -
  obtain d1 d2 d3 where s: "foldr_res (insert_input r (x_clock c 1)) (sq_inputs q) d = Inr d1"
    "foldr_res (insert_binding r p) bs d1 = Inr d2" "insert_turn_items q place m r a (x_clock c 1) d2 = Inr d3"
    and rest: "(let d4 = insert_change (sq_principal q) (tp_thread place) (tp_version place)
           (if sq_replace q = None then ''turn.started'' else ''thread.rewritten'') (Some (r_id r)) (x_clock c 1) d3;
         (j, d5) = new_run_job_record (r_id r) ''start'' (start_job_input q place) None (x_clock c 4) d4
     in bindr (insert_run_job j d5) (insert_command (run_command_row q r))) = Inr d'"
    using assms unfolding insert_turn_rows_def bindr_Inr_iff by blast
  have "db_schedules d2 = db_schedules d"
    using insert_inputs_frame [OF s(1)] insert_bindings_frame [OF s(2)] by auto
  moreover have "db_schedules d3 = db_schedules d2"
    by (rule insert_turn_itemsE [OF s(3)]) simp
  moreover have "db_schedules d' = db_schedules d3"
    using rest by (auto simp: Let_def bindr_Inr_iff new_run_job_record_def new_id_def insert_change_def
        simp del: encode_payload.simps dest!: insert_rows_schedules)
  ultimately show ?thesis by simp
qed

lemma start_turn_schedules:
  assumes "start_turn c sha q root m bs p d = Inr (r, d')"
  shows "db_schedules d' = db_schedules d"
proof -
  obtain place d1 where pl: "place_turn sha q (x_clock c 1) d = Inr (place, d1)"
    using assms by (auto simp: start_turn_def bindr_Inr_iff)
  obtain a d2 where a: "assistant_item_id sha q d1 = (a, d2)" by fastforce
  obtain d3 d4 where r: "new_run_record (x_clock c 2) (x_clock c 3) (turn_request q place a root) d2 = Inr (r, d3)"
    and i: "insert_run r d3 = Inr d4" and rows: "insert_turn_rows c q place m bs p r a d4 = Inr d'"
    using assms unfolding start_turn_def pl bindr_simps case_prod_conv a Let_def by (auto simp: bindr_Inr_iff)
  have "db_schedules d1 = db_schedules d" using place_turn_frame [OF pl] by auto
  moreover have "db_schedules d3 = db_schedules d1"
    using assistant_item_id_same [OF a] new_turn_record(13) [OF r] by auto
  ultimately show ?thesis using insert_rows_schedules(3) [OF i] turn_rows_schedules [OF rows] by simp
qed

lemma accept_schedules:
  assumes "accept_run_command c sha gone q p dq dq2 d = Inr ((x, new), d')"
  shows "db_schedules d' = db_schedules d"
proof -
  have "db_schedules d1 = db_schedules d" if "admit_run c sha q p d = Inr (r, d1)" for r d1
    using that by (auto simp: admit_run_def bindr_Inr_iff split: if_splits dest!: start_turn_schedules)
  then show ?thesis
    using assms by (auto simp: accept_run_command_def Let_def bindr_Inr_iff split: if_splits option.splits)
qed

lemma start_run_schedules:
  assumes "start_run c env q p dq0 dq dq2 (d, root) = Inr (x, d', root')"
  shows "db_schedules d' = db_schedules d"
  by (rule start_runE [OF assms]) (auto dest: accept_schedules)

lemma bind_evolves: "bind_schedule now err i run d = (x, d') \<Longrightarrow> schedules_evolve d d'"
  by (auto simp: bind_schedule_def fail_schedule_def split: prod.splits option.splits if_splits
      dest!: started_evolves intro: fates.evolves_trans settle_evolves)

lemma begin_evolves:
  assumes "begin_schedule c env err p now s st = (x, st')"
  shows "schedules_evolve (fst st) (fst st')"
proof (cases "workspace_admission_error (sv_gone env) (sr_principal s) (sr_workspace s) (fst st)")
  case (Some e)
  then show ?thesis using assms by (auto simp: begin_schedule_def fail_schedule_def settle_evolves)
next
  case None
  show ?thesis
  proof (cases "start_run c env (schedule_submission s) p (fst st) (fst st) (fst st) st")
    case (Inl e)
    then show ?thesis using assms None by (auto simp: begin_schedule_def fail_schedule_def settle_evolves)
  next
    case (Inr y)
    obtain r i k d1 root1 where y: "y = ((r, i, k), d1, root1)" by (cases y) auto
    have "schedules_evolve (fst st) d1"
      using Inr y by (cases st) (auto intro: fates.evolves_same dest: start_run_schedules)
    moreover have "schedules_evolve d1 (fst st')"
      using assms None Inr y by (auto simp: begin_schedule_def split: prod.splits dest: bind_evolves)
    ultimately show ?thesis by (rule fates.evolves_trans)
  qed
qed

lemma finalize_evolves: "schedules_evolve d (finalize_schedule now i run gone d)"
  by (auto simp: finalize_schedule_def fail_schedule_def settle_evolves split: option.splits)

lemma recover_evolves: "recover_schedule c env err p now s st = (x, st') \<Longrightarrow> schedules_evolve (fst st) (fst st')"
  by (auto simp: recover_schedule_def finalize_evolves split: if_splits dest: begin_evolves)

text \<open>The operations a store sees: clients, the dispatcher, and whatever touches no schedule.\<close>

inductive schedule_op :: "db \<Rightarrow> db \<Rightarrow> bool" where
  create: "create_scheduled_run c gone q d = Inr (s, d') \<Longrightarrow> schedule_op d d'"
| claim: "claim_due_scheduled_runs c now limit d = (due, d') \<Longrightarrow> schedule_op d d'"
| cancel: "cancel_scheduled_run now owner i d = (s, d') \<Longrightarrow> schedule_op d d'"
| notified: "mark_scheduled_run_notified now owner i d = (s, d') \<Longrightarrow> schedule_op d d'"
| dispatch: "begin_schedule c env err p now s (d, root) = (x, d', root') \<Longrightarrow> schedule_op d d'"
| recover: "recover_schedule c env err p now s (d, root) = (x, d', root') \<Longrightarrow> schedule_op d d'"
| finish: "schedule_op d (finish_schedule now i run d)"
| elsewhere: "db_schedules d' = db_schedules d \<Longrightarrow> schedule_op d d'"

lemma schedule_op_evolves: "schedule_op d d' \<Longrightarrow> schedules_evolve d d'"
  by (induction rule: schedule_op.induct)
    (auto simp: finish_schedule_def intro: create_evolves claim_evolves cancel_evolves notified_evolves
      finalize_evolves fates.evolves_same dest: begin_evolves recover_evolves)

lemma schedule_ops_evolve: "schedule_op\<^sup>*\<^sup>* d d' \<Longrightarrow> schedules_evolve d d'"
  by (induction rule: rtranclp_induct) (auto intro: schedule_op_evolves fates.evolves_refl fates.evolves_trans)


text \<open>Identifiers stay unique.\<close>

definition schedule_ids_unique :: "db \<Rightarrow> bool" where
  "schedule_ids_unique d \<longleftrightarrow> distinct (map sr_id (db_schedules d))"

lemma evolved_row:
  assumes "schedules_evolve d d'" "schedule_ids_unique d'" "s \<in> set (db_schedules d)" "s' \<in> set (db_schedules d')" "sr_id s' = sr_id s"
  shows "fate_step\<^sup>*\<^sup>* (fate_of s) (fate_of s')"
proof -
  obtain i where i: "i < length (db_schedules d)" "db_schedules d ! i = s" using assms(3) by (auto simp: in_set_conv_nth)
  then have t: "i < length (db_schedules d')" "sr_id (db_schedules d' ! i) = sr_id s"
    "fate_step\<^sup>*\<^sup>* (fate_of s) (fate_of (db_schedules d' ! i))"
    using assms(1) by (auto simp: schedules_evolve_def rows_evolve_def)
  then have "db_schedules d' ! i = s'"
    using assms(2,4,5) nth_mem [OF t(1)] unfolding schedule_ids_unique_def by (metis distinct_map inj_onD)
  then show ?thesis using t(3) by simp
qed

lemma update_schedules_ids:
  "(\<And>s. sr_id (f s) = sr_id s) \<Longrightarrow> schedule_ids_unique (update_schedules p f d) = schedule_ids_unique d"
  by (simp add: schedule_ids_unique_def update_schedules_def map_update_where_key)

lemma settle_ids: "schedule_ids_unique (settle_schedule now i x d) = schedule_ids_unique d"
  by (auto simp: settle_schedule_def complete_scheduled_run_def Let_def update_schedules_ids split: sum.splits if_splits)

lemma begin_ids: "begin_schedule c env err p now s (d, root) = (x, d', root') \<Longrightarrow> schedule_ids_unique d \<Longrightarrow> schedule_ids_unique d'"
  by (auto simp: begin_schedule_def bind_schedule_def fail_schedule_def settle_ids mark_scheduled_run_started_def Let_def
      update_schedules_ids schedule_ids_unique_def [of d] schedule_ids_unique_def [of "d\<lparr>db_schedules := x\<rparr>" for d x]
      split: option.splits sum.splits prod.splits if_splits dest!: start_run_schedules)
    (simp_all add: schedule_ids_unique_def)

lemma recover_ids: "recover_schedule c env err p now s (d, root) = (x, d', root') \<Longrightarrow> schedule_ids_unique d \<Longrightarrow> schedule_ids_unique d'"
  by (auto simp: recover_schedule_def finalize_schedule_def fail_schedule_def settle_ids split: if_splits option.splits dest: begin_ids)

lemma schedule_op_ids: "schedule_op d d' \<Longrightarrow> schedule_ids_unique d \<Longrightarrow> schedule_ids_unique d'"
proof (induction rule: schedule_op.induct)
  case (create c gone q d s d')
  then show ?case
    using create_scheduled_runD [OF create(1)] by (auto simp: schedule_ids_unique_def)
next
  case (dispatch c env err p now s d root x d' root')
  then show ?case using begin_ids by blast
next
  case (recover c env err p now s d root x d' root')
  then show ?case using recover_ids by blast
next
  case (elsewhere d' d)
  then show ?case by (simp add: schedule_ids_unique_def)
qed (auto simp: claim_due_scheduled_runs_def cancel_scheduled_run_def mark_scheduled_run_notified_def Let_def update_schedules_ids
    finish_schedule_def finalize_schedule_def fail_schedule_def settle_ids split: option.splits)

lemma schedule_ops_ids: "schedule_op\<^sup>*\<^sup>* d d' \<Longrightarrow> schedule_ids_unique d \<Longrightarrow> schedule_ids_unique d'"
  by (induction rule: rtranclp_induct) (auto intro: schedule_op_ids)

text \<open>C39: Over any operations of clients and dispatcher, in any order and with any crash between the
  halves of a dispatch, a schedule that is over keeps its status, run, result, error and time of
  completion, and one that is bound to a run stays bound to that run.\<close>

theorem schedule_ends_once:
  assumes "schedule_op\<^sup>*\<^sup>* d d'" "schedule_ids_unique d"
    and "s \<in> set (db_schedules d)" "s' \<in> set (db_schedules d')" "sr_id s' = sr_id s"
  shows "(sr_status s \<notin> {''scheduled'', ''running''} \<longrightarrow> fate_of s' = fate_of s) \<and>
    (\<forall>r. sr_run s = Some r \<longrightarrow> sr_run s' = Some r)"
proof -
  have r: "fate_step\<^sup>*\<^sup>* (fate_of s) (fate_of s')"
    by (rule evolved_row [OF schedule_ops_evolve [OF assms(1)] schedule_ops_ids [OF assms(1,2)] assms(3-5)])
  have "fate_of s' = fate_of s" if "sr_status s \<notin> {''scheduled'', ''running''}"
    by (rule fates.settled_only_self [OF r]) (use that in \<open>simp add: over_def fate_of_def\<close>)
  moreover have "sr_run s' = Some x" if "sr_run s = Some x" for x
    using bound_run_stays [OF r] that by (simp add: fate_of_def)
  ultimately show ?thesis by blast
qed

definition demo_schedule :: "string \<Rightarrow> id option \<Rightarrow> schedule_row" where
  "demo_schedule st run =
     \<lparr>sr_id = ''s'', sr_principal = local_owner, sr_goal = ''goal'', sr_workspace = None, sr_model = ''fast'', sr_history = JList [],
      sr_settings = JObj [(''_snapshot_version'', JInt 1)], sr_metadata = JObj [], sr_run_at = 1, sr_status = st, sr_run = run,
      sr_result = None, sr_error = None, sr_created = 1, sr_updated = 1, sr_completed = None, sr_notified = None\<rparr>"

lemma schedule_ends_once_witness:
  "\<exists>d s'. db_schedules d = [demo_schedule ''completed'' (Some ''r'')] \<and>
     s' \<in> set (db_schedules (finish_schedule 9 ''s'' ''r'' (snd (cancel_scheduled_run 8 local_owner ''s'' d)))) \<and>
     sr_run s' = Some ''r'' \<and> sr_status s' = ''completed''"
proof -
  define d where "d = empty_db\<lparr>db_schedules := [demo_schedule ''completed'' (Some ''r'')]\<rparr>"
  let ?d1 = "snd (cancel_scheduled_run 8 local_owner ''s'' d)" and ?s = "demo_schedule ''completed'' (Some ''r'')"
  have "schedule_op d ?d1" "schedule_op ?d1 (finish_schedule 9 ''s'' ''r'' ?d1)"
    by (auto intro: schedule_op.cancel [OF surjective_pairing] schedule_op.finish)
  then have o: "schedule_op\<^sup>*\<^sup>* d (finish_schedule 9 ''s'' ''r'' ?d1)" by simp
  have u: "schedule_ids_unique d" "?s \<in> set (db_schedules d)" by (simp_all add: schedule_ids_unique_def d_def)
  have mem: "?s \<in> set (db_schedules (finish_schedule 9 ''s'' ''r'' ?d1))"
    by (simp add: d_def finish_schedule_def finalize_schedule_def get_run_row_def empty_db_def fail_schedule_def settle_schedule_def
        complete_scheduled_run_def cancel_scheduled_run_def update_schedules_def update_where_def demo_schedule_def Let_def)
  note m = schedule_ends_once [OF o u mem refl]
  have "sr_run ?s = Some ''r''" "sr_status ?s = ''completed''" by (simp_all add: demo_schedule_def)
  then show ?thesis
    by (intro exI [of _ d] exI [of _ ?s] conjI mem) (use m in \<open>simp_all add: d_def\<close>)
qed

text \<open>C40: A schedule dispatched again after a crash that came between the start of its run and the
  binding finds that run, whatever has changed of the service and its settings since: in the state
  that start left, with the workspace still admitted, the schedule is bound to the run, and nothing
  else in the store is written, so that no second run is started.\<close>

theorem schedule_finds_its_run:
  assumes "start_run c env (schedule_submission s) p d d d (d, root) = Inr ((r, i, k), d1, root1)"
    and "schedule_submission t = schedule_submission s" "t \<in> set (db_schedules d1)" "schedule_ids_unique d1"
    and "sr_status t = ''running''" "sr_run t = None \<or> sr_run t = Some (r_id r)"
    and "workspace_admission_error (sv_gone env') (sr_principal t) (sr_workspace t) d1 = None"
  shows "\<exists>d2. begin_schedule c' env' err p' now t (d1, root') = (Some (r_id r), d2, root') \<and>
    d2\<lparr>db_schedules := []\<rparr> = d1\<lparr>db_schedules := []\<rparr> \<and>
    get_scheduled_run (sr_id t) d2 = Some (t\<lparr>sr_run := Some (r_id r), sr_updated := now\<rparr>)"
proof -
  let ?f = "\<lambda>x. x\<lparr>sr_status := ''running'', sr_run := Some (r_id r), sr_updated := now\<rparr>"
  let ?p = "\<lambda>x. sr_id x = sr_id t \<and> sr_status x = ''running'' \<and> (sr_run x = None \<or> sr_run x = Some (r_id r))"
  have "submission_lookup (schedule_submission t) d1 = Inr (Some (r, i, k))"
    using start_run_lookup(1) [OF assms(1)] assms(2) by simp
  note again = start_run_known [OF this]
  have "find (\<lambda>x. sr_id x = sr_id t) (db_schedules d1) = Some t"
    by (rule find_by_key) (use assms(3,4) in \<open>simp_all add: schedule_ids_unique_def distinct_map\<close>)
  then have found: "get_scheduled_run (sr_id t) (update_schedules ?p ?f d1) = Some (?f t)"
    using assms(5,6) by (simp add: get_scheduled_run_def update_schedules_def find_update_where_same)
  have "begin_schedule c' env' err p' now t (d1, root') = (Some (r_id r), update_schedules ?p ?f d1, root')"
    by (simp add: begin_schedule_def assms(7) again bind_schedule_def mark_scheduled_run_started_def found)
  then show ?thesis using found assms(5) by (simp add: update_schedules_def)
qed


definition scheduled_db :: db where
  "scheduled_db = empty_db\<lparr>db_schedules := [demo_schedule ''running'' None]\<rparr>"

lemma scheduled_start_runs:
  "returns (start_run free_ctx (demo_env ''observe'') (schedule_submission (demo_schedule ''running'' None)) no_plugins
     scheduled_db scheduled_db scheduled_db (scheduled_db, Map.empty)) (\<lambda>((r, i, k), d', root'). r_principal r = local_owner)"
  by code_simp

lemma schedule_finds_its_run_witness:
  "\<exists>(r :: run_row) d1 d2 root1. begin_schedule free_ctx (demo_env ''block'') (\<lambda>_. ''error'') no_plugins 7 (demo_schedule ''running'' None) (d1, root1) =
       (Some (r_id r), d2, root1) \<and> r_principal r = local_owner \<and> db_runs d2 = db_runs d1 \<and>
     get_scheduled_run ''s'' d2 = Some ((demo_schedule ''running'' None)\<lparr>sr_run := Some (r_id r), sr_updated := 7\<rparr>)"
proof -
  let ?s = "demo_schedule ''running'' None"
  obtain r i k d1 root1 where a: "start_run free_ctx (demo_env ''observe'') (schedule_submission ?s) no_plugins
     scheduled_db scheduled_db scheduled_db (scheduled_db, Map.empty) = Inr ((r, i, k), d1, root1)" "r_principal r = local_owner"
    by (rule returnsE [OF scheduled_start_runs]) auto
  have d1: "db_schedules d1 = [?s]" using start_run_schedules [OF a(1)] by (simp add: scheduled_db_def)
  have "workspace_admission_error (sv_gone (demo_env ''block'')) (sr_principal ?s) (sr_workspace ?s) d1 = None"
    by (simp add: workspace_admission_error_def workspace_unauthorized_def workspace_path_error_def demo_schedule_def)
  moreover have "?s \<in> set (db_schedules d1)" "schedule_ids_unique d1" "sr_status ?s = ''running''" "sr_run ?s = None" "sr_id ?s = ''s''"
    using d1 by (simp_all add: schedule_ids_unique_def) (simp_all add: demo_schedule_def)
  ultimately obtain d2 where d2: "begin_schedule free_ctx (demo_env ''block'') (\<lambda>_. ''error'') no_plugins 7 ?s (d1, root1) = (Some (r_id r), d2, root1)"
    "d2\<lparr>db_schedules := []\<rparr> = d1\<lparr>db_schedules := []\<rparr>"
    "get_scheduled_run ''s'' d2 = Some (?s\<lparr>sr_run := Some (r_id r), sr_updated := 7\<rparr>)"
    using schedule_finds_its_run [OF a(1) refl, where env' = "demo_env ''block''" and c' = free_ctx and err = "\<lambda>_. ''error''" and p' = no_plugins
        and now = 7 and root' = root1] by auto
  have "db_runs d2 = db_runs d1" using arg_cong [OF d2(2), of db_runs] by simp
  then have "r_principal r = local_owner \<and> db_runs d2 = db_runs d1 \<and>
     get_scheduled_run ''s'' d2 = Some (?s\<lparr>sr_run := Some (r_id r), sr_updated := 7\<rparr>)" using d2(3) a(2) by simp
  note all = conjI [OF d2(1) this]
  show ?thesis by (rule exI [of _ r], rule exI [of _ d1], rule exI [of _ d2], rule exI [of _ root1], rule all)
qed

text \<open>
  The recovery at start-up settles a schedule as failed though its run is still queued or running,
  which the recovery of runs before it keeps alive where a job can go on.
\<close>

lemma recovery_fails_a_live_run:
  assumes "sr_run s = Some (r_id r)" "r_id r \<noteq> []" "r_status r \<in> {RunQueued, RunRunning}"
    and "get_run_row d (r_id r) = Some r"
  shows "schedule_outcome r d = (''failed'', None, Some ''Scheduled run paused for user input or permission.'') \<and>
    recover_schedule c env err p now s (d, root) =
      (None, settle_schedule now (sr_id s) (schedule_outcome r d) d, root)"
  using assms by (auto simp: recover_schedule_def finalize_schedule_def schedule_outcome_def opt_or_def)

end
