(* ===== verification/Tool_Gate.thy ===== *)
theory Tool_Gate
  imports Prelude
begin

text \<open>
  The gate tool calls of one execution share (agent/tool_execution_gate.py): one condition
  variable, a count of readers, a writer flag, a count of waiting writers, and per batch the next
  position. Each critical section of the class is one definition on the gate; the tasks that use it
  are a step relation in which a task that waits sleeps until a \<open>notify_all\<close> wakes it. Shown: a
  writer is alone, batch calls take their turns in order, no wake-up is lost as long as no waiting
  writer is canceled, and one that is canceled can leave a reader asleep for good.
\<close>

record gate =
  g_readers :: nat
  g_writer :: bool
  g_waiting :: nat
  g_next :: "string \<Rightarrow> nat"

definition new_gate :: gate where
  "new_gate = \<lparr>g_readers = 0, g_writer = False, g_waiting = 0, g_next = (\<lambda>_. 0)\<rparr>"

subsection \<open>The critical sections\<close>

definition may_read :: "gate \<Rightarrow> bool" where
  "may_read g \<longleftrightarrow> \<not> g_writer g \<and> g_waiting g = 0"

definition read_enter :: "gate \<Rightarrow> gate" where
  "read_enter g = g\<lparr>g_readers := g_readers g + 1\<rparr>"

definition read_exit :: "gate \<Rightarrow> gate" where
  "read_exit g = g\<lparr>g_readers := g_readers g - 1\<rparr>"

definition may_write :: "gate \<Rightarrow> bool" where
  "may_write g \<longleftrightarrow> \<not> g_writer g \<and> g_readers g = 0"

definition write_announce :: "gate \<Rightarrow> gate" where
  "write_announce g = g\<lparr>g_waiting := g_waiting g + 1\<rparr>"

definition write_retract :: "gate \<Rightarrow> gate" where
  "write_retract g = g\<lparr>g_waiting := g_waiting g - 1\<rparr>"

definition write_enter :: "gate \<Rightarrow> gate" where
  "write_enter g = write_retract (g\<lparr>g_writer := True\<rparr>)"

definition write_exit :: "gate \<Rightarrow> gate" where
  "write_exit g = g\<lparr>g_writer := False\<rparr>"

definition ordered_arrive :: "string \<Rightarrow> nat \<Rightarrow> gate \<Rightarrow> gate" where
  "ordered_arrive key completed g =
    (if completed > g_next g key then g\<lparr>g_next := (g_next g)(key := completed)\<rparr> else g)"

definition may_take_turn :: "string \<Rightarrow> nat \<Rightarrow> gate \<Rightarrow> bool" where
  "may_take_turn key position g \<longleftrightarrow> g_next g key = position"

definition ordered_done :: "string \<Rightarrow> nat \<Rightarrow> gate \<Rightarrow> gate" where
  "ordered_done key position g = g\<lparr>g_next := (g_next g)(key := position + 1)\<rparr>"

lemmas gate_defs = may_read_def read_enter_def read_exit_def may_write_def write_announce_def
  write_retract_def write_enter_def write_exit_def ordered_arrive_def may_take_turn_def ordered_done_def

subsection \<open>The tasks\<close>

text \<open>
  A task is ready when it is about to test its condition: it has just arrived, or a notification
  has woken it.
\<close>

datatype lock_phase = NoLock | ReadReady | ReadAsleep | Reading | WriteReady | WriteAsleep | Writing

datatype turn_phase = NoTurn | TurnReady string nat | TurnAsleep string nat | InTurn string nat

record tasks =
  tk_gate :: gate
  tk_lock :: "nat \<Rightarrow> lock_phase"
  tk_turn :: "nat \<Rightarrow> turn_phase"
  tk_done :: "(string \<times> nat) set"

definition wake_lock :: "lock_phase \<Rightarrow> lock_phase" where
  "wake_lock p = (case p of ReadAsleep \<Rightarrow> ReadReady | WriteAsleep \<Rightarrow> WriteReady | _ \<Rightarrow> p)"

definition wake_turn :: "turn_phase \<Rightarrow> turn_phase" where
  "wake_turn p = (case p of TurnAsleep k i \<Rightarrow> TurnReady k i | _ \<Rightarrow> p)"

definition notify_all :: "tasks \<Rightarrow> tasks" where
  "notify_all s = s\<lparr>tk_lock := wake_lock \<circ> tk_lock s, tk_turn := wake_turn \<circ> tk_turn s\<rparr>"

definition with_lock :: "nat \<Rightarrow> lock_phase \<Rightarrow> (gate \<Rightarrow> gate) \<Rightarrow> tasks \<Rightarrow> tasks" where
  "with_lock t p f s = s\<lparr>tk_gate := f (tk_gate s), tk_lock := (tk_lock s)(t := p)\<rparr>"

definition with_turn :: "nat \<Rightarrow> turn_phase \<Rightarrow> (gate \<Rightarrow> gate) \<Rightarrow> tasks \<Rightarrow> tasks" where
  "with_turn t p f s = s\<lparr>tk_gate := f (tk_gate s), tk_turn := (tk_turn s)(t := p)\<rparr>"

fun turn_of :: "turn_phase \<Rightarrow> (string \<times> nat) option" where
  "turn_of NoTurn = None"
| "turn_of (TurnReady k i) = Some (k, i)"
| "turn_of (TurnAsleep k i) = Some (k, i)"
| "turn_of (InTurn k i) = Some (k, i)"

text \<open>
  The calls of one batch have distinct positions, and the prefix of calls that are already answered
  is the batch's: \<open>answered\<close> gives it for each key. (\<open>_ordered_batch_position\<close> computes both.)
\<close>

inductive gate_step :: "(string \<Rightarrow> nat) \<Rightarrow> tasks \<Rightarrow> tasks \<Rightarrow> bool" for answered where
  read_arrives: "tk_lock s t = NoLock \<Longrightarrow> gate_step answered s (with_lock t ReadReady id s)"
| read_enters: "tk_lock s t = ReadReady \<Longrightarrow> may_read (tk_gate s) \<Longrightarrow>
    gate_step answered s (with_lock t Reading read_enter s)"
| read_sleeps: "tk_lock s t = ReadReady \<Longrightarrow> \<not> may_read (tk_gate s) \<Longrightarrow>
    gate_step answered s (with_lock t ReadAsleep id s)"
| read_exits: "tk_lock s t = Reading \<Longrightarrow>
    gate_step answered s (notify_all (with_lock t NoLock read_exit s))"
| read_canceled: "tk_lock s t \<in> {ReadReady, ReadAsleep} \<Longrightarrow>
    gate_step answered s (with_lock t NoLock id s)"
| write_arrives: "tk_lock s t = NoLock \<Longrightarrow> gate_step answered s (with_lock t WriteReady write_announce s)"
| write_enters: "tk_lock s t = WriteReady \<Longrightarrow> may_write (tk_gate s) \<Longrightarrow>
    gate_step answered s (with_lock t Writing write_enter s)"
| write_sleeps: "tk_lock s t = WriteReady \<Longrightarrow> \<not> may_write (tk_gate s) \<Longrightarrow>
    gate_step answered s (with_lock t WriteAsleep id s)"
| write_exits: "tk_lock s t = Writing \<Longrightarrow>
    gate_step answered s (notify_all (with_lock t NoLock write_exit s))"
| turn_arrives: "tk_turn s t = NoTurn \<Longrightarrow> answered k \<le> i \<Longrightarrow> (k, i) \<notin> tk_done s \<Longrightarrow>
    (\<And>u. turn_of (tk_turn s u) \<noteq> Some (k, i)) \<Longrightarrow>
    gate_step answered s (with_turn t (TurnReady k i) (ordered_arrive k (answered k)) s)"
| turn_enters: "tk_turn s t = TurnReady k i \<Longrightarrow> may_take_turn k i (tk_gate s) \<Longrightarrow>
    gate_step answered s (with_turn t (InTurn k i) id s)"
| turn_sleeps: "tk_turn s t = TurnReady k i \<Longrightarrow> \<not> may_take_turn k i (tk_gate s) \<Longrightarrow>
    gate_step answered s (with_turn t (TurnAsleep k i) id s)"
| turn_completes: "tk_turn s t = InTurn k i \<Longrightarrow>
    gate_step answered s (notify_all ((with_turn t NoTurn (ordered_done k i) s)\<lparr>tk_done := insert (k, i) (tk_done s)\<rparr>))"
| turn_fails: "tk_turn s t = InTurn k i \<Longrightarrow> gate_step answered s (with_turn t NoTurn id s)"
| turn_canceled: "tk_turn s t \<in> {TurnReady k i, TurnAsleep k i} \<Longrightarrow>
    gate_step answered s (with_turn t NoTurn id s)"

text \<open>A writer canceled while it waits takes its announcement back and notifies nobody.\<close>

inductive writer_canceled :: "tasks \<Rightarrow> tasks \<Rightarrow> bool" where
  "tk_lock s t \<in> {WriteReady, WriteAsleep} \<Longrightarrow> writer_canceled s (with_lock t NoLock write_retract s)"

definition any_step :: "(string \<Rightarrow> nat) \<Rightarrow> tasks \<Rightarrow> tasks \<Rightarrow> bool" where
  "any_step answered s s' \<longleftrightarrow> gate_step answered s s' \<or> writer_canceled s s'"

definition no_tasks :: tasks where
  "no_tasks = \<lparr>tk_gate = new_gate, tk_lock = (\<lambda>_. NoLock), tk_turn = (\<lambda>_. NoTurn), tk_done = {}\<rparr>"

definition reachable :: "(string \<Rightarrow> nat) \<Rightarrow> tasks \<Rightarrow> bool" where
  "reachable answered s \<longleftrightarrow> (any_step answered)\<^sup>*\<^sup>* no_tasks s"

definition reachable_uncanceled :: "(string \<Rightarrow> nat) \<Rightarrow> tasks \<Rightarrow> bool" where
  "reachable_uncanceled answered s \<longleftrightarrow> (gate_step answered)\<^sup>*\<^sup>* no_tasks s"

subsection \<open>The locks\<close>

definition in_phase :: "lock_phase set \<Rightarrow> tasks \<Rightarrow> nat set" where
  "in_phase P s = {t. tk_lock s t \<in> P}"

text \<open>The counters count the tasks, and a writer is alone.\<close>

definition counted :: "tasks \<Rightarrow> bool" where
  "counted s \<longleftrightarrow> finite (in_phase (- {NoLock}) s) \<and>
     g_readers (tk_gate s) = card (in_phase {Reading} s) \<and>
     g_waiting (tk_gate s) = card (in_phase {WriteReady, WriteAsleep} s) \<and>
     card (in_phase {Writing} s) = (if g_writer (tk_gate s) then 1 else 0) \<and>
     (g_writer (tk_gate s) \<longrightarrow> g_readers (tk_gate s) = 0)"

lemma in_phase_with_lock:
  "in_phase P (with_lock t p f s) = (if p \<in> P then insert t (in_phase P s) else in_phase P s - {t})"
  by (auto simp: in_phase_def with_lock_def)

lemma in_phase_with_turn [simp]: "in_phase P (with_turn t p f s) = in_phase P s"
  by (auto simp: in_phase_def with_turn_def)

lemma in_phase_done [simp]: "in_phase P (s\<lparr>tk_done := x\<rparr>) = in_phase P s"
  by (auto simp: in_phase_def)

lemma wake_lock_keeps:
  "wake_lock p = Reading \<longleftrightarrow> p = Reading" "wake_lock p = Writing \<longleftrightarrow> p = Writing" "wake_lock p = NoLock \<longleftrightarrow> p = NoLock"
  "wake_lock p = WriteReady \<or> wake_lock p = WriteAsleep \<longleftrightarrow> p = WriteReady \<or> p = WriteAsleep"
  by (cases p; simp add: wake_lock_def)+

lemma in_phase_notify [simp]:
  "in_phase {Reading} (notify_all s) = in_phase {Reading} s"
  "in_phase {Writing} (notify_all s) = in_phase {Writing} s"
  "in_phase {WriteReady, WriteAsleep} (notify_all s) = in_phase {WriteReady, WriteAsleep} s"
  "in_phase (- {NoLock}) (notify_all s) = in_phase (- {NoLock}) s"
  by (simp_all add: in_phase_def notify_all_def wake_lock_keeps)

lemma gate_of_step [simp]:
  "tk_gate (notify_all s) = tk_gate s" "tk_gate (with_lock t p f s) = f (tk_gate s)"
  "tk_gate (with_turn t q f s) = f (tk_gate s)"
  by (simp_all add: notify_all_def with_lock_def with_turn_def)

lemma gate_of_turn [simp]:
  "g_readers (ordered_arrive k n g) = g_readers g" "g_waiting (ordered_arrive k n g) = g_waiting g"
  "g_writer (ordered_arrive k n g) = g_writer g" "g_readers (ordered_done k i g) = g_readers g"
  "g_waiting (ordered_done k i g) = g_waiting g" "g_writer (ordered_done k i g) = g_writer g"
  by (simp_all add: gate_defs)

lemma counted_finite: "counted s \<Longrightarrow> P \<subseteq> - {NoLock} \<Longrightarrow> finite (in_phase P s)"
  unfolding counted_def in_phase_def by (metis (no_types, lifting) Collect_mono finite_subset subsetD)

lemma card_leave: "counted s \<Longrightarrow> tk_lock s t \<in> P \<Longrightarrow> P \<subseteq> - {NoLock} \<Longrightarrow>
    card (in_phase P s - {t}) = card (in_phase P s) - 1 \<and> 0 < card (in_phase P s)"
  using counted_finite [of s P] by (auto simp: in_phase_def card_gt_0_iff)

lemma card_enter: "counted s \<Longrightarrow> tk_lock s t \<notin> P \<Longrightarrow> P \<subseteq> - {NoLock} \<Longrightarrow>
    card (insert t (in_phase P s)) = card (in_phase P s) + 1"
  using counted_finite [of s P] by (simp add: in_phase_def)

lemma in_phase_stay: "tk_lock s t \<notin> P \<Longrightarrow> in_phase P s - {t} = in_phase P s"
  "tk_lock s t \<in> P \<Longrightarrow> insert t (in_phase P s) = in_phase P s"
  by (auto simp: in_phase_def)

lemma counted_step: "gate_step answered s s' \<Longrightarrow> counted s \<Longrightarrow> counted s'"
  by (induction rule: gate_step.induct)
    (auto simp: counted_def in_phase_with_lock in_phase_stay card_leave card_enter gate_defs
      simp del: card_Diff_insert card_Diff_singleton card_insert_if)


lemma counted_cancel: "writer_canceled s s' \<Longrightarrow> counted s \<Longrightarrow> counted s'"
  by (induction rule: writer_canceled.induct)
    (auto simp: counted_def in_phase_with_lock in_phase_stay card_leave card_enter gate_defs
      simp del: card_Diff_insert card_Diff_singleton card_insert_if)

lemma counted_reachable: "reachable answered s \<Longrightarrow> counted s"
  unfolding reachable_def
proof (induction rule: rtranclp_induct)
  case base
  show ?case by (simp add: counted_def no_tasks_def new_gate_def in_phase_def)
next
  case (step a b)
  then show ?case using counted_step counted_cancel by (auto simp: any_step_def)
qed

lemma uncanceled_reachable: "reachable_uncanceled answered s \<Longrightarrow> reachable answered s"
proof -
  have "gate_step answered \<le> any_step answered" by (auto simp: any_step_def)
  from rtranclp_mono [OF this] show "reachable_uncanceled answered s \<Longrightarrow> reachable answered s"
    by (auto simp: reachable_def reachable_uncanceled_def)
qed

lemma reachable_steps:
  "reachable answered no_tasks" "reachable_uncanceled answered no_tasks"
  "reachable_uncanceled answered s \<Longrightarrow> gate_step answered s s' \<Longrightarrow> reachable_uncanceled answered s'"
  "reachable answered s \<Longrightarrow> writer_canceled s s' \<Longrightarrow> reachable answered s'"
  unfolding reachable_def reachable_uncanceled_def
  by (auto simp: any_step_def intro: rtranclp.rtrancl_into_rtrancl)

lemma counted_writer: "counted s \<Longrightarrow> tk_lock s t = Writing \<Longrightarrow> g_writer (tk_gate s) \<and> g_readers (tk_gate s) = 0"
  using card_leave [of s t "{Writing}"] by (auto simp: counted_def split: if_splits)

lemma counted_reader: "counted s \<Longrightarrow> tk_lock s t = Reading \<Longrightarrow> 0 < g_readers (tk_gate s)"
  using card_leave [of s t "{Reading}"] by (auto simp: counted_def)

subsection \<open>Turns\<close>

definition turns_taken :: "(string \<Rightarrow> nat) \<Rightarrow> tasks \<Rightarrow> bool" where
  "turns_taken answered s \<longleftrightarrow>
     (\<forall>t k i. tk_turn s t = InTurn k i \<longrightarrow> g_next (tk_gate s) k = i) \<and>
     (\<forall>t u x. turn_of (tk_turn s t) = Some x \<longrightarrow> turn_of (tk_turn s u) = Some x \<longrightarrow> t = u) \<and>
     (\<forall>t k i. turn_of (tk_turn s t) = Some (k, i) \<longrightarrow> answered k \<le> g_next (tk_gate s) k \<and> (k, i) \<notin> tk_done s) \<and>
     (\<forall>k i. answered k \<le> i \<longrightarrow> i < g_next (tk_gate s) k \<longrightarrow> (k, i) \<in> tk_done s) \<and>
     (\<forall>k i. (k, i) \<in> tk_done s \<longrightarrow> i < g_next (tk_gate s) k)"

lemma turns_takenD:
  assumes "turns_taken answered s"
  shows "tk_turn s t = InTurn k i \<Longrightarrow> g_next (tk_gate s) k = i"
    "turn_of (tk_turn s t) = Some x \<Longrightarrow> turn_of (tk_turn s u) = Some x \<Longrightarrow> t = u"
    "turn_of (tk_turn s t) = Some (k, i) \<Longrightarrow> answered k \<le> g_next (tk_gate s) k"
    "turn_of (tk_turn s t) = Some (k, i) \<Longrightarrow> (k, i) \<notin> tk_done s"
    "answered k \<le> i \<Longrightarrow> i < g_next (tk_gate s) k \<Longrightarrow> (k, i) \<in> tk_done s"
    "(k, i) \<in> tk_done s \<Longrightarrow> i < g_next (tk_gate s) k"
  using assms unfolding turns_taken_def by blast+

lemma turns_takenI:
  assumes "\<And>t k i. tk_turn s t = InTurn k i \<Longrightarrow> g_next (tk_gate s) k = i"
    "\<And>t u x. turn_of (tk_turn s t) = Some x \<Longrightarrow> turn_of (tk_turn s u) = Some x \<Longrightarrow> t = u"
    "\<And>t k i. turn_of (tk_turn s t) = Some (k, i) \<Longrightarrow> answered k \<le> g_next (tk_gate s) k \<and> (k, i) \<notin> tk_done s"
    "\<And>k i. answered k \<le> i \<Longrightarrow> i < g_next (tk_gate s) k \<Longrightarrow> (k, i) \<in> tk_done s"
    "\<And>k i. (k, i) \<in> tk_done s \<Longrightarrow> i < g_next (tk_gate s) k"
  shows "turns_taken answered s"
  using assms unfolding turns_taken_def by blast

lemma turn_of_wake [simp]: "turn_of (wake_turn p) = turn_of p"
  by (cases p) (simp_all add: wake_turn_def)

lemma wake_turn_in [simp]: "wake_turn p = InTurn k i \<longleftrightarrow> p = InTurn k i"
  by (cases p) (simp_all add: wake_turn_def)

lemma turn_fields [simp]:
  "tk_turn (with_lock t p f s) = tk_turn s" "tk_done (with_lock t p f s) = tk_done s"
  "tk_turn (with_turn t q f s) = (tk_turn s)(t := q)" "tk_done (with_turn t q f s) = tk_done s"
  "tk_turn (notify_all s) = wake_turn \<circ> tk_turn s" "tk_done (notify_all s) = tk_done s"
  "tk_lock (with_turn t q f s) = tk_lock s" "tk_lock (with_lock t p f s) = (tk_lock s)(t := p)"
  "tk_lock (notify_all s) = wake_lock \<circ> tk_lock s"
  by (simp_all add: with_lock_def with_turn_def notify_all_def)

lemma lock_next [simp]:
  "g_next (read_enter g) = g_next g" "g_next (read_exit g) = g_next g" "g_next (write_announce g) = g_next g"
  "g_next (write_retract g) = g_next g" "g_next (write_enter g) = g_next g" "g_next (write_exit g) = g_next g"
  by (simp_all add: gate_defs)

lemma turns_taken_cong:
  assumes "turns_taken answered s" "g_next (tk_gate s') = g_next (tk_gate s)" "tk_done s' = tk_done s"
    and "\<And>t. turn_of (tk_turn s' t) = turn_of (tk_turn s t) \<or> turn_of (tk_turn s' t) = None"
    and "\<And>t k i. tk_turn s' t = InTurn k i \<Longrightarrow> tk_turn s t = InTurn k i \<or> g_next (tk_gate s) k = i"
  shows "turns_taken answered s'"
proof -
  note d = turns_takenD [OF assms(1)]
  have old: "turn_of (tk_turn s t) = Some x" if "turn_of (tk_turn s' t) = Some x" for t x
    using assms(4) [of t] that by auto
  show ?thesis
  proof (rule turns_takenI, unfold assms(2,3))
    show "g_next (tk_gate s) k = i" if "tk_turn s' t = InTurn k i" for t k i
      using assms(5) [OF that] d(1) by blast
    show "t = u" if "turn_of (tk_turn s' t) = Some x" "turn_of (tk_turn s' u) = Some x" for t u x
      using d(2) old that by blast
    show "answered k \<le> g_next (tk_gate s) k \<and> (k, i) \<notin> tk_done s"
      if "turn_of (tk_turn s' t) = Some (k, i)" for t k i
      using d(3,4) old that by blast
  qed (use d(5,6) in blast)+
qed

lemma turns_taken_moves:
  assumes "turns_taken answered s" "turn_of q = turn_of (tk_turn s t) \<or> turn_of q = None"
    and "\<And>k i. q = InTurn k i \<Longrightarrow> may_take_turn k i (tk_gate s)"
  shows "turns_taken answered (with_turn t q id s)"
  by (rule turns_taken_cong [OF assms(1)])
    (use assms(2,3) in \<open>auto simp: may_take_turn_def split: if_splits\<close>)

lemma turns_taken_locks:
  assumes "turns_taken answered s" "\<And>g. g_next (f g) = g_next g"
  shows "turns_taken answered (with_lock t p f s)" "turns_taken answered (notify_all (with_lock t p f s))"
  by (rule turns_taken_cong [OF assms(1)]; use assms(2) in auto)+

lemma turns_taken_arrives:
  assumes "turns_taken answered s" "tk_turn s t = NoTurn" "answered k \<le> i" "(k, i) \<notin> tk_done s"
    and "\<And>u. turn_of (tk_turn s u) \<noteq> Some (k, i)"
  shows "turns_taken answered (with_turn t (TurnReady k i) (ordered_arrive k (answered k)) s)"
proof -
  note d = turns_takenD [OF assms(1)]
  let ?s = "with_turn t (TurnReady k i) (ordered_arrive k (answered k)) s"
  have next_k: "g_next (tk_gate ?s) k' = (if k' = k then max (answered k) (g_next (tk_gate s) k) else g_next (tk_gate s) k')" for k'
    by (auto simp: ordered_arrive_def)
  have kept: "g_next (tk_gate ?s) k' = g_next (tk_gate s) k'" if "turn_of (tk_turn s u) = Some (k', j)" for u k' j
    using d(3) [OF that] next_k [of k'] by auto
  have old: "turn_of (tk_turn ?s u) = (if u = t then Some (k, i) else turn_of (tk_turn s u))" for u
    by simp
  show ?thesis
  proof (rule turns_takenI)
    show "g_next (tk_gate ?s) k' = j" if "tk_turn ?s u = InTurn k' j" for u k' j
    proof -
      have "tk_turn s u = InTurn k' j" using that by (auto split: if_splits)
      then show ?thesis using d(1) kept by (metis turn_of.simps(4))
    qed
    show "u = v" if "turn_of (tk_turn ?s u) = Some x" "turn_of (tk_turn ?s v) = Some x" for u v x
      using that d(2) assms(5) unfolding old by (metis option.inject)
    show "answered k' \<le> g_next (tk_gate ?s) k' \<and> (k', j) \<notin> tk_done ?s" if "turn_of (tk_turn ?s u) = Some (k', j)" for u k' j
      using that d(3,4) assms(4) unfolding old next_k by (cases "u = t") (auto simp: le_max_iff_disj)
    show "(k', j) \<in> tk_done ?s" if "answered k' \<le> j" "j < g_next (tk_gate ?s) k'" for k' j
      using that d(5) [of k' j] unfolding next_k by (auto simp: max_def split: if_splits)
    show "j < g_next (tk_gate ?s) k'" if "(k', j) \<in> tk_done ?s" for k' j
      using that d(6) [of k' j] unfolding next_k by auto
  qed
qed

lemma turns_taken_completes:
  assumes "turns_taken answered s" "tk_turn s t = InTurn k i"
  shows "turns_taken answered
    (notify_all ((with_turn t NoTurn (ordered_done k i) s)\<lparr>tk_done := insert (k, i) (tk_done s)\<rparr>))"
    (is "turns_taken answered ?s")
proof -
  note d = turns_takenD [OF assms(1)]
  have n: "g_next (tk_gate s) k = i" using d(1) assms(2) by blast
  have mine: "turn_of (tk_turn s t) = Some (k, i)" using assms(2) by simp
  have other: "turn_of (tk_turn s u) \<noteq> Some (k, i)" if "u \<noteq> t" for u
    using d(2) [OF mine, of u] that by blast
  have next_k: "g_next (tk_gate ?s) k' = (if k' = k then i + 1 else g_next (tk_gate s) k')" for k'
    by (simp add: ordered_done_def)
  have turns: "turn_of (tk_turn ?s u) = (if u = t then None else turn_of (tk_turn s u))" for u by simp
  have dn: "tk_done ?s = insert (k, i) (tk_done s)" by simp
  show ?thesis
  proof (rule turns_takenI)
    show "g_next (tk_gate ?s) k' = j" if "tk_turn ?s u = InTurn k' j" for u k' j
    proof -
      have u: "u \<noteq> t" "tk_turn s u = InTurn k' j" using that by (auto split: if_splits)
      then have "g_next (tk_gate s) k' = j" using d(1) by blast
      moreover have "k' \<noteq> k" using u other [OF u(1)] n calculation by auto
      ultimately show ?thesis unfolding next_k by simp
    qed
    show "u = v" if "turn_of (tk_turn ?s u) = Some x" "turn_of (tk_turn ?s v) = Some x" for u v x
      using that d(2) unfolding turns by (metis option.distinct(1))
    show "answered k' \<le> g_next (tk_gate ?s) k' \<and> (k', j) \<notin> tk_done ?s" if "turn_of (tk_turn ?s u) = Some (k', j)" for u k' j
    proof -
      have u: "u \<noteq> t" "turn_of (tk_turn s u) = Some (k', j)" using that unfolding turns by (auto split: if_splits)
      then show ?thesis
        using d(3,4) [OF u(2)] other [OF u(1)] n unfolding next_k dn by auto
    qed
    show "(k', j) \<in> tk_done ?s" if "answered k' \<le> j" "j < g_next (tk_gate ?s) k'" for k' j
      using that d(5) [of k' j] n unfolding next_k dn by (cases "k' = k") (auto simp: less_Suc_eq)
    show "j < g_next (tk_gate ?s) k'" if "(k', j) \<in> tk_done ?s" for k' j
      using that d(6) [of k' j] n unfolding next_k dn by auto
  qed
qed

lemma turns_taken_step:
  assumes "gate_step answered s s'" "turns_taken answered s"
  shows "turns_taken answered s'"
  using assms
proof (cases rule: gate_step.cases)
  case (turn_arrives t k i)
  then show ?thesis using turns_taken_arrives assms(2) by blast
next
  case (turn_completes t k i)
  then show ?thesis using turns_taken_completes assms(2) by blast
qed (use assms(2) in \<open>auto intro!: turns_taken_moves turns_taken_locks\<close>)

lemma turns_taken_reachable: "reachable answered s \<Longrightarrow> turns_taken answered s"
  unfolding reachable_def
proof (induction rule: rtranclp_induct)
  case base
  show ?case by (simp add: turns_taken_def no_tasks_def new_gate_def)
next
  case (step a b)
  consider "gate_step answered a b" | "writer_canceled a b" using step.hyps(2) by (auto simp: any_step_def)
  then show ?case
  proof cases
    case 2
    then show ?thesis
      using step.IH by (cases rule: writer_canceled.cases) (auto intro!: turns_taken_locks)
  qed (use turns_taken_step step.IH in blast)
qed


subsection \<open>Wake-ups\<close>

text \<open>Nobody sleeps while the condition it waits for holds.\<close>

definition sleeps_in_need :: "tasks \<Rightarrow> bool" where
  "sleeps_in_need s \<longleftrightarrow>
     (\<forall>t. tk_lock s t = ReadAsleep \<longrightarrow> \<not> may_read (tk_gate s)) \<and>
     (\<forall>t. tk_lock s t = WriteAsleep \<longrightarrow> \<not> may_write (tk_gate s)) \<and>
     (\<forall>t k i. tk_turn s t = TurnAsleep k i \<longrightarrow> \<not> may_take_turn k i (tk_gate s))"

lemma wake_awake [simp]:
  "wake_lock p \<noteq> ReadAsleep" "wake_lock p \<noteq> WriteAsleep" "wake_turn q \<noteq> TurnAsleep k i"
  by (cases p; simp add: wake_lock_def)+ (cases q; simp add: wake_turn_def)

lemma notify_all_in_need: "sleeps_in_need (notify_all s)"
  by (simp add: sleeps_in_need_def)

lemma notify_all_done_in_need: "sleeps_in_need (notify_all (s\<lparr>tk_done := x\<rparr>))"
  by (rule notify_all_in_need)

lemma turn_asleep_kept:
  "g_next g' = g_next g \<Longrightarrow> may_take_turn k i g' = may_take_turn k i g"
  by (simp add: may_take_turn_def)

lemma sleeps_in_need_step:
  assumes "gate_step answered s s'" "sleeps_in_need s" "turns_taken answered s"
  shows "sleeps_in_need s'"
  using assms(1)
proof (cases rule: gate_step.cases)
  case (turn_arrives t k i)
  have "may_take_turn k' j (ordered_arrive k (answered k) (tk_gate s)) = may_take_turn k' j (tk_gate s)"
    if "tk_turn s u = TurnAsleep k' j" for u k' j
    using turns_takenD(3) [OF assms(3), of u k' j] that by (auto simp: may_take_turn_def ordered_arrive_def)
  then show ?thesis
    using assms(2) turn_arrives by (auto simp: sleeps_in_need_def may_read_def may_write_def split: if_splits)
qed (use assms(2) in \<open>auto simp: sleeps_in_need_def notify_all_in_need turn_asleep_kept gate_defs split: if_splits\<close>)

lemma sleeps_in_need_reachable:
  "reachable_uncanceled answered s \<Longrightarrow> sleeps_in_need s"
  unfolding reachable_uncanceled_def
proof (induction rule: rtranclp_induct)
  case base
  show ?case by (simp add: sleeps_in_need_def no_tasks_def)
next
  case (step a b)
  have "turns_taken answered a"
    using step.hyps(1) uncanceled_reachable turns_taken_reachable by (auto simp: reachable_uncanceled_def)
  then show ?case using sleeps_in_need_step step by blast
qed

subsection \<open>Properties\<close>

text \<open>a writer is alone. Whatever tasks arrive, sleep, leave or are canceled, while one holds
  the gate for writing no other task holds it, for reading or writing: two tool calls that change
  something never overlap.\<close>

theorem writer_is_alone:
  assumes "reachable answered s" "tk_lock s t = Writing" "t \<noteq> u"
  shows "tk_lock s u \<notin> {Reading, Writing}"
proof -
  have c: "counted s" by (rule counted_reachable [OF assms(1)])
  have w: "g_writer (tk_gate s)" "g_readers (tk_gate s) = 0" using counted_writer [OF c assms(2)] by auto
  have "card (in_phase {Writing} s) = 1" using c w by (simp add: counted_def)
  then obtain x where x: "in_phase {Writing} s = {x}" by (auto simp: card_1_singleton_iff)
  have "tk_lock s u \<noteq> Writing"
  proof
    assume "tk_lock s u = Writing"
    then have "t \<in> in_phase {Writing} s" "u \<in> in_phase {Writing} s" using assms(2) by (simp_all add: in_phase_def)
    then show False using x assms(3) by simp
  qed
  moreover have "tk_lock s u \<noteq> Reading" using counted_reader [OF c, of u] w by auto
  ultimately show ?thesis by simp
qed

text \<open>One task writes while another one waits to read.\<close>

definition writing_and_waiting :: tasks where
  "writing_and_waiting =
     with_lock 4 ReadAsleep id (with_lock 4 ReadReady id
       (with_lock 0 Writing write_enter (with_lock 0 WriteReady write_announce no_tasks)))"

lemma writing_and_waiting_reachable: "reachable_uncanceled answered writing_and_waiting"
proof -
  let ?a = "with_lock 0 WriteReady write_announce no_tasks"
  let ?b = "with_lock 0 Writing write_enter ?a"
  let ?c = "with_lock 4 ReadReady id ?b"
  have a: "gate_step answered no_tasks ?a" by (rule write_arrives) (simp add: no_tasks_def)
  have b: "gate_step answered ?a ?b" by (rule write_enters) (simp_all add: no_tasks_def new_gate_def gate_defs)
  have c: "gate_step answered ?b ?c" by (rule read_arrives) (simp add: no_tasks_def)
  have d: "gate_step answered ?c writing_and_waiting"
    unfolding writing_and_waiting_def by (rule read_sleeps) (simp_all add: no_tasks_def new_gate_def gate_defs)
  show ?thesis by (rule reachable_steps(3) [OF reachable_steps(3) [OF reachable_steps(3) [OF reachable_steps(3)
    [OF reachable_steps(2) a] b] c] d])
qed

theorem writer_is_alone_witness: "tk_lock writing_and_waiting 4 \<notin> {Reading, Writing}"
proof (rule writer_is_alone [of "\<lambda>_. 0" writing_and_waiting 0 4])
  show "reachable (\<lambda>_. 0) writing_and_waiting"
    by (rule uncanceled_reachable [OF writing_and_waiting_reachable])
qed (simp_all add: writing_and_waiting_def)

text \<open>turns are taken in order. While the call at a position of a batch runs, no other call of
  the batch runs, and every earlier position either was answered before the batch was resumed or has
  completed.\<close>

theorem turns_in_order:
  assumes "reachable answered s" "tk_turn s t = InTurn k i"
  shows "(\<forall>u j. tk_turn s u = InTurn k j \<longrightarrow> u = t) \<and> (\<forall>j<i. answered k \<le> j \<longrightarrow> (k, j) \<in> tk_done s)"
proof -
  note d = turns_takenD [OF turns_taken_reachable [OF assms(1)]]
  have n: "g_next (tk_gate s) k = i" by (rule d(1) [OF assms(2)])
  have "u = t" if "tk_turn s u = InTurn k j" for u j
    using d(1) [OF that] n d(2) [of u "(k, i)" t] that assms(2) by simp
  then show ?thesis using d(5) n by blast
qed

definition second_in_turn :: tasks where
  "second_in_turn = with_turn 7 (InTurn ''b'' 1) id (with_turn 7 (TurnReady ''b'' 1) (ordered_arrive ''b'' 1) no_tasks)"

theorem turns_in_order_witness: "\<forall>u j. tk_turn second_in_turn u = InTurn ''b'' j \<longrightarrow> u = 7"
proof -
  let ?a = "with_turn 7 (TurnReady ''b'' 1) (ordered_arrive ''b'' ((\<lambda>_. 1) ''b'')) no_tasks"
  have a: "gate_step (\<lambda>_. 1) no_tasks ?a" by (rule turn_arrives) (simp_all add: no_tasks_def)
  have b: "gate_step (\<lambda>_. 1) ?a second_in_turn"
    unfolding second_in_turn_def by (rule turn_enters) (simp_all add: no_tasks_def new_gate_def gate_defs)
  have r: "reachable (\<lambda>_. 1) second_in_turn"
    by (rule uncanceled_reachable [OF reachable_steps(3) [OF reachable_steps(3) [OF reachable_steps(2) a] b]])
  have "tk_turn second_in_turn 7 = InTurn ''b'' 1" by (simp add: second_in_turn_def)
  then show ?thesis using turns_in_order [OF r] by blast
qed

text \<open>no lost wake-up, as long as no waiting writer is canceled. If a task sleeps at the gate,
  then some task holds the gate or is about to take it: the tasks never all sleep.\<close>

theorem gate_never_stuck:
  assumes "reachable_uncanceled answered s" "tk_lock s t \<in> {ReadAsleep, WriteAsleep}"
  shows "\<exists>u. tk_lock s u \<in> {Reading, Writing, WriteReady}"
proof -
  have c: "counted s" by (rule counted_reachable [OF uncanceled_reachable [OF assms(1)]])
  have need: "sleeps_in_need s" by (rule sleeps_in_need_reachable [OF assms(1)])
  have writer: "\<exists>u. tk_lock s u = Writing" if "g_writer (tk_gate s)"
  proof -
    have "card (in_phase {Writing} s) \<noteq> 0" using c that by (simp add: counted_def)
    then show ?thesis by (auto simp: in_phase_def card_eq_0_iff)
  qed
  have reader: "\<exists>u. tk_lock s u = Reading" if "0 < g_readers (tk_gate s)"
  proof -
    have "card (in_phase {Reading} s) \<noteq> 0" using c that by (simp add: counted_def)
    then show ?thesis by (auto simp: in_phase_def card_eq_0_iff)
  qed
  have waiting: "\<exists>u. tk_lock s u \<in> {WriteReady, WriteAsleep}" if "0 < g_waiting (tk_gate s)"
  proof -
    have "card (in_phase {WriteReady, WriteAsleep} s) \<noteq> 0" using c that by (simp add: counted_def)
    then show ?thesis by (auto simp: in_phase_def card_eq_0_iff)
  qed
  have asleep: "\<exists>u. tk_lock s u \<in> {Reading, Writing, WriteReady}" if "tk_lock s u = WriteAsleep" for u
    using need that writer reader by (auto simp: sleeps_in_need_def may_write_def)
  show ?thesis
  proof (cases "tk_lock s t = ReadAsleep")
    case True
    then have "g_writer (tk_gate s) \<or> 0 < g_waiting (tk_gate s)"
      using need by (auto simp: sleeps_in_need_def may_read_def)
    then show ?thesis using writer waiting asleep by blast
  next
    case False
    then show ?thesis using assms(2) asleep by auto
  qed
qed

theorem gate_never_stuck_witness: "\<exists>u. tk_lock writing_and_waiting u \<in> {Reading, Writing, WriteReady}"
proof (rule gate_never_stuck [of "\<lambda>_. 0" writing_and_waiting 4])
  show "reachable_uncanceled (\<lambda>_. 0) writing_and_waiting"
    by (rule writing_and_waiting_reachable)
qed (simp add: writing_and_waiting_def)

text \<open>a canceled writer can lose a wake-up. There is a reachable state in which a reader
  sleeps although the gate is free and no other task is at it: the writer whose announcement it was
  waiting for took it back and notified nobody.\<close>

theorem canceled_writer_strands_reader:
  "\<exists>s. reachable answered s \<and> tk_lock s 4 = ReadAsleep \<and> may_read (tk_gate s) \<and> (\<forall>u. u \<noteq> 4 \<longrightarrow> tk_lock s u = NoLock)"
proof -
  define s2 where "s2 = with_lock 2 WriteReady write_announce writing_and_waiting"
  define s3 where "s3 = with_lock 2 WriteAsleep id s2"
  define s4 where "s4 = notify_all (with_lock 0 NoLock write_exit s3)"
  define s5 where "s5 = with_lock 4 ReadAsleep id s4"
  define s6 where "s6 = with_lock 2 NoLock write_retract s5"
  note init = writing_and_waiting_def no_tasks_def new_gate_def gate_defs
  have g2: "tk_gate s2 = new_gate\<lparr>g_writer := True, g_waiting := 1\<rparr>" "tk_lock s2 0 = Writing" "tk_lock s2 4 = ReadAsleep"
    "tk_lock s2 2 = WriteReady" "u \<notin> {0, 4, 2} \<Longrightarrow> tk_lock s2 u = NoLock" for u
    by (simp_all add: s2_def init)
  have g4: "tk_gate s4 = new_gate\<lparr>g_waiting := 1\<rparr>" "tk_lock s4 4 = ReadReady" "tk_lock s4 2 = WriteReady"
    "u \<notin> {4, 2} \<Longrightarrow> tk_lock s4 u = NoLock" for u
    using g2 by (simp_all add: s4_def s3_def write_exit_def wake_lock_def new_gate_def)
  have "gate_step answered writing_and_waiting s2" unfolding s2_def by (rule write_arrives) (simp add: init)
  moreover have "gate_step answered s2 s3"
    unfolding s3_def by (rule write_sleeps) (simp_all add: g2 may_write_def)
  moreover have "gate_step answered s3 s4" unfolding s4_def by (rule write_exits) (simp add: s3_def g2)
  moreover have "gate_step answered s4 s5"
    unfolding s5_def by (rule read_sleeps) (simp_all add: g4 may_read_def)
  ultimately have "reachable_uncanceled answered s5"
    using writing_and_waiting_reachable reachable_steps(3) by blast
  moreover have "writer_canceled s5 s6"
    unfolding s6_def by (rule writer_canceled.intros) (simp add: s5_def g4)
  ultimately have "reachable answered s6" using uncanceled_reachable reachable_steps(4) by blast
  moreover have "tk_lock s6 4 = ReadAsleep" "may_read (tk_gate s6)" "\<forall>u. u \<noteq> 4 \<longrightarrow> tk_lock s6 u = NoLock"
    using g4 by (simp_all add: s6_def s5_def may_read_def write_retract_def new_gate_def)
  ultimately show ?thesis by blast
qed

end
