(* ===== verification/Failure_Policy.thy ===== *)
theory Failure_Policy
  imports Database Complex_Main
begin

text \<open>
  Failure classification and retry (failure_policy.py) and the failure payload of a run
  (runs/failure_projection.py). A failure is put into a category by the words of its code and
  message, an explicit \<open>recoverable\<close> or \<open>retryable\<close> flag of the payload is heard where the
  policy allows it, and a retry is decided against a budget. Shown: only transient failures are
  retried, a retry loop stops within its budget, delays stay below the ceiling, and no secret
  survives redaction. Delays are exact rationals: rounding and the overflow of floats are not
  modelled.
\<close>

subsection \<open>Categories\<close>

datatype category = CatUnknown | CatPermission | CatBudget | CatQuota | CatAuth | CatConfiguration
  | CatInvariant | CatTransient | CatWorkspace | CatFatal | CatValidation

datatype action_kind = ActRetry | ActUser | ActRepair | ActOperator | ActInspect

datatype recovery_action = RecRetry | RecRepair | RecDiagnostics | RecWorkspace

fun category_text :: "category \<Rightarrow> string" where
  "category_text CatUnknown = ''unknown''"
| "category_text CatPermission = ''permission''"
| "category_text CatBudget = ''budget''"
| "category_text CatQuota = ''quota''"
| "category_text CatAuth = ''auth''"
| "category_text CatConfiguration = ''configuration''"
| "category_text CatInvariant = ''execution_invariant''"
| "category_text CatTransient = ''transient''"
| "category_text CatWorkspace = ''workspace''"
| "category_text CatFatal = ''fatal''"
| "category_text CatValidation = ''validation''"

fun action_text :: "action_kind \<Rightarrow> string" where
  "action_text ActRetry = ''retry''"
| "action_text ActUser = ''user_action''"
| "action_text ActRepair = ''repair''"
| "action_text ActOperator = ''operator_action''"
| "action_text ActInspect = ''inspect''"

fun recovery_text :: "recovery_action \<Rightarrow> string" where
  "recovery_text RecRetry = ''retry''"
| "recovery_text RecRepair = ''repair''"
| "recovery_text RecDiagnostics = ''diagnostics''"
| "recovery_text RecWorkspace = ''workspace''"

record verdict =
  vd_category :: category
  vd_recoverable :: bool
  vd_retryable :: bool
  vd_suggestion :: string

record classification =
  fc_category :: category
  fc_recoverable :: bool
  fc_retryable :: bool
  fc_action :: action_kind
  fc_recovery :: recovery_action
  fc_code :: "string option"
  fc_message :: "string option"
  fc_source :: string
  fc_tool :: "string option"
  fc_suggestion :: string

subsection \<open>Classification\<close>

fun first_string :: "json list \<Rightarrow> string option" where
  "first_string [] = None"
| "first_string (JStr s # vs) = (if py_strip s \<noteq> [] then Some (py_strip s) else first_string vs)"
| "first_string (_ # vs) = first_string vs"

definition contains_any :: "string \<Rightarrow> string list \<Rightarrow> bool" where
  "contains_any value needles = list_ex (\<lambda>n. contains n value) needles"

fun bool_flag :: "json \<Rightarrow> bool option" where
  "bool_flag (JBool b) = Some b"
| "bool_flag _ = None"

definition inspect_suggestion :: string where
  "inspect_suggestion = ''Inspect the diagnostic events and logs before retrying.''"

definition backoff_suggestion :: string where
  "backoff_suggestion = ''Retry after a short backoff; if it repeats, inspect model-service or network status.''"

text \<open>The verdict of the words alone: the first rule one of whose words occurs.\<close>

definition textual_verdict :: "string \<Rightarrow> verdict" where
  "textual_verdict haystack =
    (let rule = (\<lambda>c recoverable retryable s. \<lparr>vd_category = c, vd_recoverable = recoverable, vd_retryable = retryable, vd_suggestion = s\<rparr>)
     in if contains_any haystack [''memory_fact_not_authorized'']
        then rule CatPermission True False ''Confirm the exact fact to save to memory, then try again.''
        else if contains_any haystack [''model_call_budget_exhausted'']
        then rule CatBudget True False ''Narrow the task and retry; inspect repeated agent steps if this happens again.''
        else if contains_any haystack [''provider_quota_exceeded'', ''insufficient_quota'', ''quota exceeded'', ''quota exhausted'']
        then rule CatQuota True False ''Check the model-service quota or choose another Runtime model.''
        else if contains_any haystack [''unauthorized'', ''401'', ''token'', ''sign in'', ''login'', ''bearer'']
        then rule CatAuth True False ''Check the Runtime model-service API Key, then retry.''
        else if contains_any haystack [''not_configured'', ''missing_api_key'', ''model_unavailable'', ''api key'', ''configuration'']
        then rule CatConfiguration True False ''Connect the missing model service or API Key, then retry.''
        else if contains_any haystack [''executionsettlementerror'', ''unsettled tool receipts'',
            ''model calls are still active'', ''tool calls are still active'', ''unknown model outcomes'']
        then rule CatInvariant False False ''Export diagnostics and report this Runtime execution invariant before retrying.''
        else if contains_any haystack [''timeout'', ''timed out'', ''temporarily'', ''rate_limit'', ''rate limit'',
            ''429'', ''500'', ''502'', ''503'', ''504'', ''apiconnectionerror'', ''connection error'',
            ''connection reset'', ''network'', ''unreachable'', ''transient'']
        then rule CatTransient True True backoff_suggestion
        else if contains_any haystack [''path_outside_workspace'', ''workspace'', ''not inside any authorized'']
        then rule CatWorkspace True False ''Authorize the correct workspace or choose a path inside an authorized workspace.''
        else if contains_any haystack [''permissionerror'', ''[errno 13]'']
        then rule CatFatal False False ''Inspect the local executable or file permissions and fix the Runtime installation.''
        else if contains_any haystack [''permission'', ''denied'', ''approval'', ''approve'']
        then rule CatPermission True False ''Approve or deny the pending permission request before retrying.''
        else if contains_any haystack [''validation'', ''verification_failed'', ''verification failed'',
            ''repeated_tool_failure'', ''already exists'', ''invalid'', ''bad request'', ''400'']
        then rule CatValidation True False ''Fix the invalid request arguments before retrying.''
        else if contains_any haystack [''typeerror'', ''valueerror'', ''keyerror'', ''runtimeerror'']
        then rule CatFatal False False ''Inspect the stack/logs and fix the local implementation before retrying.''
        else rule CatUnknown False False inspect_suggestion)"

text \<open>The explicit flags of the payload.\<close>

definition hear_recoverable :: "bool option \<Rightarrow> verdict \<Rightarrow> verdict" where
  "hear_recoverable flag v =
    (case flag of
       None \<Rightarrow> v
     | Some b \<Rightarrow>
        (let v1 = v\<lparr>vd_recoverable := b\<rparr>
         in if b \<and> vd_category v = CatUnknown
            then v1\<lparr>vd_suggestion := ''Resolve the reported failure condition, then retry.''\<rparr> else v1))"

definition allows_explicit_retry :: "category \<Rightarrow> bool" where
  "allows_explicit_retry c \<longleftrightarrow> c = CatUnknown \<or> c = CatTransient"

definition hear_retryable :: "bool option \<Rightarrow> bool option \<Rightarrow> verdict \<Rightarrow> verdict" where
  "hear_retryable recoverable flag v =
    (case flag of
       None \<Rightarrow> v
     | Some b \<Rightarrow>
        if b \<and> recoverable = Some False
        then v\<lparr>vd_retryable := False, vd_suggestion := inspect_suggestion\<rparr>
        else if b \<and> allows_explicit_retry (vd_category v)
        then v\<lparr>vd_retryable := True,
               vd_recoverable := (if recoverable = None then True else vd_recoverable v),
               vd_category := (if vd_category v = CatUnknown then CatTransient else vd_category v),
               vd_suggestion := backoff_suggestion\<rparr>
        else if \<not> b \<and> vd_category v = CatTransient
        then v\<lparr>vd_retryable := False, vd_suggestion := ''Resolve the reported transient failure before retrying.''\<rparr>
        else v)"

definition action_of :: "category \<Rightarrow> bool \<Rightarrow> action_kind" where
  "action_of c retryable =
    (if retryable then ActRetry
     else if c \<in> {CatAuth, CatBudget, CatQuota, CatPermission, CatConfiguration, CatWorkspace} then ActUser
     else if c = CatValidation then ActRepair
     else if c \<in> {CatFatal, CatInvariant} then ActOperator
     else ActInspect)"

definition recovery_of :: "category \<Rightarrow> action_kind \<Rightarrow> recovery_action" where
  "recovery_of c a =
    (if a = ActRetry then RecRetry
     else if a = ActRepair then RecRepair
     else if c \<in> {CatQuota, CatAuth} then RecDiagnostics
     else if c = CatWorkspace then RecWorkspace
     else if c = CatPermission then RecRetry
     else RecDiagnostics)"

definition failure_code :: "dict \<Rightarrow> string option" where
  "failure_code p = first_string (map (dget p) [''error_code'', ''errorCode'', ''code'', ''type''])"

definition failure_message :: "string \<Rightarrow> dict \<Rightarrow> string option" where
  "failure_message event_type p =
    first_string (map (dget p) [''message'', ''error'', ''content'', ''detail''] @ [json_opt (failure_code p), JStr event_type])"

text \<open>\<open>f"{code or ''} {message}".lower()\<close>: a missing message is written as None.\<close>

definition failure_haystack :: "string \<Rightarrow> dict \<Rightarrow> string" where
  "failure_haystack event_type p =
    py_lower (opt_or (failure_code p) [] @ '' '' @ (case failure_message event_type p of None \<Rightarrow> ''None'' | Some m \<Rightarrow> m))"

definition failure_verdict :: "string \<Rightarrow> dict \<Rightarrow> verdict" where
  "failure_verdict event_type p =
    (let recoverable = bool_flag (dget p ''recoverable''); retryable = bool_flag (dget p ''retryable'')
     in hear_retryable recoverable retryable (hear_recoverable recoverable (textual_verdict (failure_haystack event_type p))))"

definition classify_failure_payload :: "string \<Rightarrow> dict \<Rightarrow> classification" where
  "classify_failure_payload event_type p =
    (let v = failure_verdict event_type p; a = action_of (vd_category v) (vd_retryable v)
     in \<lparr>fc_category = vd_category v, fc_recoverable = vd_recoverable v, fc_retryable = vd_retryable v,
         fc_action = a, fc_recovery = recovery_of (vd_category v) a, fc_code = failure_code p,
         fc_message = failure_message event_type p, fc_source = event_type,
         fc_tool = first_string (map (dget p) [''tool'', ''name'']), fc_suggestion = vd_suggestion v\<rparr>)"

definition should_retry_failure_payload :: "string \<Rightarrow> dict \<Rightarrow> bool" where
  "should_retry_failure_payload event_type p = fc_retryable (classify_failure_payload event_type p)"

subsection \<open>Retry decisions\<close>

definition bounded_backoff :: "nat \<Rightarrow> rat \<Rightarrow> rat \<Rightarrow> rat \<Rightarrow> rat" where
  "bounded_backoff attempt initial_delay backoff_factor max_delay =
    (let initial = max 0 initial_delay; backoff = max 0 backoff_factor; maximum = max 0 max_delay
     in if initial \<le> 0 \<or> maximum \<le> 0 then 0 else min (initial * backoff ^ attempt) maximum)"

record retry_decision =
  rd_class :: classification
  rd_retry :: bool
  rd_attempt :: nat
  rd_budget :: nat
  rd_delay :: rat
  rd_reason :: string

definition build_retry_decision ::
    "string \<Rightarrow> dict \<Rightarrow> int \<Rightarrow> int \<Rightarrow> rat \<Rightarrow> rat \<Rightarrow> rat \<Rightarrow> retry_decision" where
  "build_retry_decision event_type p attempt max_attempts initial backoff maximum =
    (let c = classify_failure_payload event_type p;
         i = nat (max 0 attempt); budget = nat (max 0 max_attempts);
         go = (fc_action c = ActRetry \<and> fc_retryable c \<and> i < budget)
     in \<lparr>rd_class = c, rd_retry = go, rd_attempt = i, rd_budget = budget,
         rd_delay = (if go then bounded_backoff i initial backoff maximum else 0),
         rd_reason = (if fc_action c \<noteq> ActRetry then ''action_kind_'' @ action_text (fc_action c)
           else if \<not> fc_retryable c then ''not_retryable''
           else if budget \<le> i then ''retry_budget_exhausted'' else ''retryable_transient'')\<rparr>)"

subsection \<open>What the policy allows\<close>

text \<open>What every rule of the table keeps.\<close>

definition verdict_ok :: "verdict \<Rightarrow> bool" where
  "verdict_ok v \<longleftrightarrow> (vd_retryable v \<longleftrightarrow> vd_category v = CatTransient) \<and>
     (vd_recoverable v \<longleftrightarrow> vd_category v \<notin> {CatUnknown, CatFatal, CatInvariant})"

lemma verdict_ok_if: "verdict_ok x \<Longrightarrow> verdict_ok y \<Longrightarrow> verdict_ok (if b then x else y)"
  by simp

lemma textual_verdict_ok: "verdict_ok (textual_verdict h)"
  unfolding textual_verdict_def Let_def
  by (intro verdict_ok_if) (simp_all add: verdict_ok_def)

lemma textual_verdict_retryable: "vd_retryable (textual_verdict h) \<longleftrightarrow> vd_category (textual_verdict h) = CatTransient"
  using textual_verdict_ok [of h] by (simp add: verdict_ok_def)

lemma hear_recoverable_category [simp]:
  "vd_category (hear_recoverable flag v) = vd_category v" "vd_retryable (hear_recoverable flag v) = vd_retryable v"
  by (simp_all add: hear_recoverable_def Let_def split: option.split)

lemma hear_retryable_transient:
  "(vd_retryable v \<longleftrightarrow> vd_category v = CatTransient) \<Longrightarrow> vd_retryable (hear_retryable r flag v) \<Longrightarrow>
    vd_category (hear_retryable r flag v) = CatTransient"
  by (auto simp: hear_retryable_def allows_explicit_retry_def split: option.splits if_splits)

lemma hear_retryable_refused:
  "(vd_retryable v \<longleftrightarrow> vd_category v = CatTransient) \<Longrightarrow> \<not> vd_retryable (hear_retryable r (Some False) v)"
  by (simp add: hear_retryable_def)

lemma retryable_is_transient: "vd_retryable (failure_verdict t p) \<Longrightarrow> vd_category (failure_verdict t p) = CatTransient"
  unfolding failure_verdict_def Let_def
  by (rule hear_retryable_transient) (simp add: textual_verdict_retryable)

lemma action_retry_iff [simp]: "action_of c retryable = ActRetry \<longleftrightarrow> retryable"
  by (simp add: action_of_def)

lemma explicit_refusal: "dget p ''retryable'' = JBool False \<Longrightarrow> \<not> vd_retryable (failure_verdict t p)"
  by (simp add: failure_verdict_def Let_def hear_retryable_refused textual_verdict_retryable)

lemma unrecoverable_is_not_retried:
  "dget p ''recoverable'' = JBool False \<Longrightarrow> dget p ''retryable'' = JBool True \<Longrightarrow> \<not> vd_retryable (failure_verdict t p)"
  by (simp add: failure_verdict_def Let_def hear_retryable_def)

text \<open>An explicit \<open>recoverable: false\<close> alone does not stop the retry of a transient failure.\<close>

lemma unrecoverable_timeout_is_retried:
  "should_retry_failure_payload ''run.failed'' [(''message'', JStr ''timeout''), (''recoverable'', JBool False)] \<and>
   \<not> fc_recoverable (classify_failure_payload ''run.failed'' [(''message'', JStr ''timeout''), (''recoverable'', JBool False)])"
  by code_simp

lemma bounded_backoff_bounds:
  "0 \<le> bounded_backoff i initial backoff maximum \<and> bounded_backoff i initial backoff maximum \<le> max 0 maximum"
  by (simp add: bounded_backoff_def Let_def)

lemma bounded_backoff_mono:
  assumes "1 \<le> backoff" "i \<le> j"
  shows "bounded_backoff i initial backoff maximum \<le> bounded_backoff j initial backoff maximum"
proof -
  have "max 0 initial * max 0 backoff ^ i \<le> max 0 initial * max 0 backoff ^ j"
    using assms by (intro mult_left_mono power_increasing) auto
  then show ?thesis by (auto simp: bounded_backoff_def Let_def min_le_iff_disj)
qed

subsection \<open>Structured tool results (tool_outcomes.py, middleware/tool\_result\_retry.py)\<close>

text \<open>
  \<open>loads\<close> stands for \<open>json.loads\<close>, \<open>None\<close> where it raises. A tool call ends with the content
  of a message or with a command of the graph.
\<close>

fun semantic_truthy :: "json \<Rightarrow> bool" where
  "semantic_truthy (JStr s) = (py_lower (py_strip s) \<in> {''true'', ''1'', ''yes'', ''ok'', ''passed''})"
| "semantic_truthy v = truthy v"

definition tool_result_envelope :: "(string \<Rightarrow> json option) \<Rightarrow> json \<Rightarrow> dict option" where
  "tool_result_envelope loads content =
    (case content of
       JObj d \<Rightarrow> Some d
     | JStr s \<Rightarrow> (case loads s of Some (JObj d) \<Rightarrow> Some d | _ \<Rightarrow> None)
     | _ \<Rightarrow> None)"

definition tool_result_envelope_failed :: "dict option \<Rightarrow> bool" where
  "tool_result_envelope_failed envelope =
    (case envelope of None \<Rightarrow> False
     | Some d \<Rightarrow> has_key d ''ok'' \<and> \<not> semantic_truthy (dget d ''ok''))"

datatype tool_result = ToolMessage json | GraphCommand

record retry_limits =
  rl_retries :: nat
  rl_initial :: rat
  rl_backoff :: rat
  rl_maximum :: rat

definition retry_limits_of :: "int \<Rightarrow> rat \<Rightarrow> rat \<Rightarrow> rat \<Rightarrow> retry_limits" where
  "retry_limits_of max_retries initial backoff maximum =
     \<lparr>rl_retries = nat (max 0 max_retries), rl_initial = max 0 initial, rl_backoff = max 0 backoff,
      rl_maximum = max 0 maximum\<rparr>"

definition retry_decision_for_failed_result ::
    "(string \<Rightarrow> json option) \<Rightarrow> retry_limits \<Rightarrow> tool_result \<Rightarrow> nat \<Rightarrow> retry_decision option" where
  "retry_decision_for_failed_result loads lm result attempt =
    (case result of
       GraphCommand \<Rightarrow> None
     | ToolMessage content \<Rightarrow>
        (case tool_result_envelope loads content of
           None \<Rightarrow> None
         | Some d \<Rightarrow>
            if \<not> has_key d ''ok'' \<or> semantic_truthy (dget d ''ok'') \<or> \<not> semantic_truthy (dget d ''retryable'') then None
            else Some (build_retry_decision ''tool.failed'' (dset ''retryable'' (JBool True) d) (int attempt)
                         (int (rl_retries lm)) (rl_initial lm) (rl_backoff lm) (rl_maximum lm))))"

definition retries_after :: "(string \<Rightarrow> json option) \<Rightarrow> retry_limits \<Rightarrow> tool_result \<Rightarrow> nat \<Rightarrow> rat option" where
  "retries_after loads lm result attempt =
    (case retry_decision_for_failed_result loads lm result attempt of
       None \<Rightarrow> None
     | Some rd \<Rightarrow> if rd_retry rd then Some (rd_delay rd) else None)"

text \<open>
  The loop over \<open>range(max_retries + 1)\<close>. \<open>handler\<close> is the rest of the tool pipeline on its
  state; the delays slept between the attempts are returned with the result. Past the range the
  code raises.
\<close>

fun retry_attempts ::
    "(string \<Rightarrow> json option) \<Rightarrow> retry_limits \<Rightarrow> ('s \<Rightarrow> (tool_result \<times> 's) res) \<Rightarrow> nat list \<Rightarrow> 's \<Rightarrow>
      ((tool_result \<times> rat list) \<times> 's) res" where
  "retry_attempts loads lm handler [] s = Inl PyRuntimeError"
| "retry_attempts loads lm handler (i # is) s =
     bindr (handler s) (\<lambda>(result, s').
     (case retries_after loads lm result i of
        None \<Rightarrow> Inr ((result, []), s')
      | Some delay \<Rightarrow>
         bindr (retry_attempts loads lm handler is s') (\<lambda>((r, ds), s''). Inr ((r, delay # ds), s''))))"

definition wrap_tool_call ::
    "(string \<Rightarrow> json option) \<Rightarrow> string list option \<Rightarrow> retry_limits \<Rightarrow> string \<Rightarrow>
      ('s \<Rightarrow> (tool_result \<times> 's) res) \<Rightarrow> 's \<Rightarrow> ((tool_result \<times> rat list) \<times> 's) res" where
  "wrap_tool_call loads allowed lm tool handler s =
    (if (case allowed of None \<Rightarrow> False | Some ts \<Rightarrow> tool \<notin> set ts)
     then bindr (handler s) (\<lambda>(r, s'). Inr ((r, []), s'))
     else retry_attempts loads lm handler [0..<rl_retries lm + 1] s)"

lemma retries_after_bounds:
  assumes "retries_after loads lm r i = Some x"
  shows "i < rl_retries lm" "0 \<le> x" "x \<le> max 0 (rl_maximum lm)"
  using assms bounded_backoff_bounds
  by (auto simp: retries_after_def retry_decision_for_failed_result_def build_retry_decision_def Let_def
      split: option.splits tool_result.splits if_splits)

text \<open>A result is only retried when the tool said so and the shared policy calls it transient.\<close>

lemma retries_after_transient:
  assumes "retries_after loads lm r i = Some x"
  obtains content d where "r = ToolMessage content" "tool_result_envelope loads content = Some d"
    "\<not> semantic_truthy (dget d ''ok'')" "semantic_truthy (dget d ''retryable'')"
    "fc_category (classify_failure_payload ''tool.failed'' (dset ''retryable'' (JBool True) d)) = CatTransient"
  using assms
  by (auto simp: retries_after_def retry_decision_for_failed_result_def build_retry_decision_def Let_def
      classify_failure_payload_def split: option.splits tool_result.splits if_splits intro: retryable_is_transient)

definition next_state :: "('s \<Rightarrow> (tool_result \<times> 's) res) \<Rightarrow> 's \<Rightarrow> 's" where
  "next_state handler s = snd (projr (handler s))"

definition nth_result :: "('s \<Rightarrow> (tool_result \<times> 's) res) \<Rightarrow> 's \<Rightarrow> nat \<Rightarrow> tool_result" where
  "nth_result handler s k = fst (projr (handler ((next_state handler ^^ k) s)))"

lemma next_state_shift:
  assumes "handler s = Inr (r, s')"
  shows "(next_state handler ^^ k) s' = (next_state handler ^^ Suc k) s" "nth_result handler s' k = nth_result handler s (Suc k)"
  using assms by (simp_all add: nth_result_def next_state_def funpow_Suc_right del: funpow.simps)

lemma retry_attempts_step:
  assumes "\<And>s. \<exists>r s'. handler s = Inr (r, s')" "i \<le> rl_retries lm"
  shows "\<exists>k r ds s'. retry_attempts loads lm handler [i..<rl_retries lm + 1] s = Inr ((r, ds), s') \<and>
      length ds = k \<and> i + k \<le> rl_retries lm \<and> s' = (next_state handler ^^ (k + 1)) s \<and>
      r = nth_result handler s k \<and> (\<forall>j<k. retries_after loads lm (nth_result handler s j) (i + j) = Some (ds ! j)) \<and>
      (\<forall>x\<in>set ds. 0 \<le> x \<and> x \<le> max 0 (rl_maximum lm)) \<and> retries_after loads lm r (i + k) = None"
  using assms(2)
proof (induction "rl_retries lm - i" arbitrary: i s)
  case 0
  then have i: "i = rl_retries lm" by simp
  obtain r s' where h: "handler s = Inr (r, s')" using assms(1) by blast
  have "retries_after loads lm r i = None"
    using retries_after_bounds(1) [of loads lm r i] i by (cases "retries_after loads lm r i") auto
  then show ?case using h i
    by (intro exI [of _ 0] exI [of _ r] exI [of _ "[]"] exI [of _ s']) (simp add: next_state_def nth_result_def)
next
  case (Suc n)
  then have i: "i < rl_retries lm" "n = rl_retries lm - Suc i" by simp_all
  have split: "[i..<rl_retries lm + 1] = i # [Suc i..<rl_retries lm + 1]"
    using i by (simp add: upt_conv_Cons)
  obtain r s' where h: "handler s = Inr (r, s')" using assms(1) by blast
  have first: "nth_result handler s 0 = r" using h by (simp add: nth_result_def)
  show ?case
  proof (cases "retries_after loads lm r i")
    case None
    then show ?thesis using h i split
      by (intro exI [of _ 0] exI [of _ r] exI [of _ "[]"] exI [of _ s']) (simp add: next_state_def nth_result_def)
  next
    case (Some x)
    obtain k r' ds s'' where ih:
      "retry_attempts loads lm handler [Suc i..<rl_retries lm + 1] s' = Inr ((r', ds), s'')"
      "length ds = k" "Suc i + k \<le> rl_retries lm" "s'' = (next_state handler ^^ (k + 1)) s'"
      "r' = nth_result handler s' k" "\<forall>j<k. retries_after loads lm (nth_result handler s' j) (Suc i + j) = Some (ds ! j)"
      "\<forall>x\<in>set ds. 0 \<le> x \<and> x \<le> max 0 (rl_maximum lm)" "retries_after loads lm r' (Suc i + k) = None"
      using Suc.hyps(1) [OF i(2), of s'] i(1) by auto
    note sh = next_state_shift [of handler, OF h]
    have "retries_after loads lm (nth_result handler s j) (i + j) = Some ((x # ds) ! j)" if "j < Suc k" for j
      using that ih(6) Some first by (cases j) (simp_all add: sh(2))
    moreover have "s'' = (next_state handler ^^ (Suc k + 1)) s" using ih(4) sh(1) by simp
    ultimately show ?thesis
      using ih h Some split retries_after_bounds [OF Some]
      by (intro exI [of _ "Suc k"] exI [of _ r'] exI [of _ "x # ds"] exI [of _ s'']) (simp add: sh(2))
  qed
qed

subsection \<open>The failure payload of a run (runs/failure\_projection.py)\<close>

text \<open>\<open>s.replace(old, new)\<close> for a non-empty \<open>old\<close>: occurrences from the left, not overlapping.\<close>

function py_replace :: "string \<Rightarrow> string \<Rightarrow> string \<Rightarrow> string" where
  "py_replace old new [] = []"
| "py_replace old new (c # cs) =
     (if old \<noteq> [] \<and> starts_with old (c # cs) then new @ py_replace old new (drop (length old) (c # cs))
      else c # py_replace old new cs)"
  by pat_completeness auto
termination
proof (relation "measure (\<lambda>(old, new, s). length s)", goal_cases)
  case 1
  then show ?case by simp
next
  case (2 old new c cs)
  then show ?case by (cases old) simp_all
next
  case (3 old new c cs)
  then show ?case by simp
qed

definition is_token_char :: "char \<Rightarrow> bool" where
  "is_token_char c = (let n = (of_char c :: nat) in
     (48 \<le> n \<and> n \<le> 57) \<or> (65 \<le> n \<and> n \<le> 90) \<or> (97 \<le> n \<and> n \<le> 122) \<or> c \<in> set ''._~+/=-'')"

text \<open>
  The length of a match of \<open>(?i)bearer\<close>, spaces, then token characters, at the head of a text.
\<close>

definition bearer_match :: "string \<Rightarrow> nat option" where
  "bearer_match s =
    (if py_lower (take 6 s) \<noteq> ''bearer'' then None
     else (let rest = drop 6 s; spaces = takeWhile is_space rest;
               token = takeWhile is_token_char (dropWhile is_space rest)
           in if spaces = [] \<or> token = [] then None else Some (6 + length spaces + length token)))"

lemma bearer_match_pos: "bearer_match s = Some n \<Longrightarrow> 0 < n"
  by (auto simp: bearer_match_def Let_def split: if_splits)

function redact_bearer :: "string \<Rightarrow> string" where
  "redact_bearer s =
    (case s of
       [] \<Rightarrow> []
     | c # cs \<Rightarrow>
        (case bearer_match s of
           Some n \<Rightarrow> ''Bearer [REDACTED]'' @ redact_bearer (drop n s)
         | None \<Rightarrow> c # redact_bearer cs))"
  by pat_completeness auto
termination
  by (relation "measure length") (auto dest: bearer_match_pos)

declare redact_bearer.simps [simp del]

definition redaction_mark :: string where
  "redaction_mark = ''[REDACTED]''"

definition redact_text :: "string list \<Rightarrow> string \<Rightarrow> string" where
  "redact_text secrets s =
    fold (\<lambda>secret t. if secret = [] then t else py_replace secret redaction_mark t) secrets (redact_bearer s)"

fun redact_failure_value :: "string list \<Rightarrow> json \<Rightarrow> json" where
  "redact_failure_value secrets (JObj d) = JObj (map (\<lambda>(k, v). (k, redact_failure_value secrets v)) d)"
| "redact_failure_value secrets (JList xs) = JList (map (redact_failure_value secrets) xs)"
| "redact_failure_value secrets (JStr s) = JStr (redact_text secrets s)"
| "redact_failure_value secrets v = v"

text \<open>
  An exception: the event payload of a model-service error, or its text, its type and the
  \<open>code\<close> and \<open>retryable\<close> attributes it has.
\<close>

datatype failure =
    ServiceFailure dict
  | PlainFailure string string "string option" "bool option"

fun failure_fields :: "failure \<Rightarrow> dict" where
  "failure_fields (ServiceFailure d) = d"
| "failure_fields (PlainFailure text_of type_of code retryable) =
     [(''error'', JStr text_of), (''type'', JStr type_of)] @
     (case code of None \<Rightarrow> [] | Some x \<Rightarrow> if x = [] then [] else [(''code'', JStr x)]) @
     (case retryable of None \<Rightarrow> [] | Some b \<Rightarrow> [(''retryable'', JBool b)])"

text \<open>\<open>d.setdefault(k, v)\<close>\<close>

definition dsetdefault :: "string \<Rightarrow> json \<Rightarrow> dict \<Rightarrow> dict" where
  "dsetdefault k v d = (if has_key d k then d else d @ [(k, v)])"

definition classification_fields :: "classification \<Rightarrow> dict" where
  "classification_fields c =
     [(''category'', JStr (category_text (fc_category c))), (''recoverable'', JBool (fc_recoverable c)),
      (''retryable'', JBool (fc_retryable c)), (''action_kind'', JStr (action_text (fc_action c))),
      (''recovery_action'', JStr (recovery_text (fc_recovery c))), (''suggested_action'', JStr (fc_suggestion c))]"

definition redacted_fields :: "string list \<Rightarrow> failure \<Rightarrow> dict" where
  "redacted_fields secrets x = obj_of (redact_failure_value secrets (JObj (failure_fields x)))"

definition run_failed_payload :: "string list \<Rightarrow> failure \<Rightarrow> dict" where
  "run_failed_payload secrets x =
    (let payload = redacted_fields secrets x;
         c = classify_failure_payload ''run.failed'' payload;
         filled = fold (\<lambda>(k, v). dsetdefault k v) (classification_fields c) payload
     in case fc_code c of None \<Rightarrow> filled | Some code \<Rightarrow> dsetdefault ''error_code'' (JStr code) filled)"

text \<open>\<open>_completion_failure_payload\<close>: what the completion router left in the graph state.\<close>

definition completion_failure_payload :: "dict option \<Rightarrow> id option \<Rightarrow> dict option" where
  "completion_failure_payload state current_run =
    (let stored = (case state of None \<Rightarrow> [] | Some d \<Rightarrow> (case dget d ''completion_route'' of JObj r \<Rightarrow> r | _ \<Rightarrow> []));
         route = (case current_run of
             None \<Rightarrow> stored
           | Some r \<Rightarrow> if dget stored ''run_id'' = JStr r then stored
              else [(''decision'', JStr ''failed''), (''reason'', JStr ''completion_route_scope_mismatch''),
                    (''message'', JStr ''The graph ended without a completion decision owned by this run.''),
                    (''recoverable'', JBool False), (''run_id'', JStr r)])
     in if dget route ''decision'' \<notin> {JStr ''failed'', JStr ''blocked''} then None
        else
         (let reason = text_or (dget route ''reason'') ''model_output_invalid'';
              payload = [(''error'', JStr (text_or (dget route ''message'') ''The model did not produce a valid result.'')),
                (''error_code'', JStr reason), (''source'', JStr ''completion_router''),
                (''failure_category'', JStr (if reason = ''verification_failed'' then ''verification'' else ''model_output'')),
                (''recoverable'', JBool (truthy (dget route ''recoverable''))), (''retryable'', JBool False),
                (''details'', JObj (map (\<lambda>k. (k, dget route k))
                   (filter (has_key route) [''attempts'', ''max_attempts'', ''tool_call_id''])))];
              c = classify_failure_payload ''run.failed'' payload
          in Some (dmerge payload
               [(''category'', JStr (category_text (fc_category c))), (''action_kind'', JStr (action_text (fc_action c))),
                (''recovery_action'', JStr (recovery_text (fc_recovery c))), (''suggested_action'', JStr (fc_suggestion c))])))"

subsection \<open>Redaction\<close>

text \<open>A secret that redaction cannot reintroduce: no bracket in it, and no part of the mark.\<close>

definition proper_secret :: "string \<Rightarrow> bool" where
  "proper_secret t \<longleftrightarrow> t \<noteq> [] \<and> CHR ''['' \<notin> set t \<and> CHR '']'' \<notin> set t \<and> \<not> contains t ''REDACTED''"

lemma contains_across:
  assumes "contains t (a @ x # b)" "x \<notin> set t"
  shows "contains t a \<or> contains t b"
proof -
  obtain u v where e: "a @ x # b = u @ t @ v" using assms(1) by (auto simp: contains_iff)
  consider w where "a = u @ w" "w @ x # b = t @ v" | w where "u = a @ w" "x # b = w @ t @ v"
    using e by (auto simp: append_eq_append_conv2)
  then show ?thesis
  proof cases
    case (1 w)
    then have "\<exists>z. w = t @ z" using assms(2) by (auto simp: append_eq_append_conv2 Cons_eq_append_conv)
    then show ?thesis using 1 by (force simp: contains_iff)
  next
    case (2 w)
    have "\<exists>y. b = y @ t @ v" if "t \<noteq> []" using 2 assms(2) that by (cases w) (auto simp: Cons_eq_append_conv)
    moreover have "contains t b" if "t = []" using that by (auto simp: contains_iff)
    ultimately show ?thesis by (force simp: contains_iff)
  qed
qed

lemma contains_Cons_iff: "contains t (c # cs) \<longleftrightarrow> starts_with t (c # cs) \<or> contains t cs"
  by (simp add: starts_with_def)

declare contains.simps(2) [simp del]

lemma contains_drop: "contains t (drop n s) \<Longrightarrow> contains t s"
  by (metis append.assoc append_take_drop_id contains_iff)

text \<open>A bracket-free text at the head of the result was at the head of the input.\<close>

lemma replace_head:
  assumes "new = redaction_mark" "CHR ''['' \<notin> set t" "starts_with t (py_replace old new s)"
  shows "starts_with t s"
  using assms
proof (induction old new s arbitrary: t rule: py_replace.induct)
  case (1 old new)
  then show ?case by simp
next
  case (2 old new c cs)
  show ?case
  proof (cases "old \<noteq> [] \<and> starts_with old (c # cs)")
    case True
    then show ?thesis using "2.prems" by (cases t) (auto simp: starts_with_def redaction_mark_def)
  next
    case False
    then show ?thesis using "2.prems" "2.IH"(2) by (cases t) (auto simp: starts_with_def)
  qed
qed

text \<open>No new occurrence of a proper secret, and none of the replaced one.\<close>

lemma replace_no_new:
  assumes "proper_secret t" "new = redaction_mark" "contains t (py_replace old new s)"
  shows "contains t s \<and> t \<noteq> old"
  using assms(2,3)
proof (induction old new s rule: py_replace.induct)
  case (1 old new)
  then show ?case using assms(1) by (simp add: proper_secret_def)
next
  case (2 old new c cs)
  show ?case
  proof (cases "old \<noteq> [] \<and> starts_with old (c # cs)")
    case True
    let ?rest = "py_replace old new (drop (length old) (c # cs))"
    have "contains t ([] @ CHR ''['' # (''REDACTED'' @ CHR '']'' # ?rest))"
      using "2.prems"(2) True by (simp add: "2.prems"(1) redaction_mark_def)
    then have "contains t [] \<or> contains t (''REDACTED'' @ CHR '']'' # ?rest)"
      by (rule contains_across) (use assms(1) in \<open>simp add: proper_secret_def\<close>)
    then have "contains t (''REDACTED'' @ CHR '']'' # ?rest)"
      using assms(1) by (simp add: proper_secret_def)
    then have "contains t ''REDACTED'' \<or> contains t ?rest"
      by (rule contains_across) (use assms(1) in \<open>simp add: proper_secret_def\<close>)
    then have "contains t ?rest" using assms(1) by (simp add: proper_secret_def)
    then show ?thesis using "2.IH"(1) [OF True "2.prems"(1)] contains_drop by blast
  next
    case False
    then have "starts_with t (c # py_replace old new cs) \<or> contains t (py_replace old new cs)"
      using "2.prems" by (auto simp: contains_Cons_iff)
    then show ?thesis
    proof
      assume h: "starts_with t (c # py_replace old new cs)"
      have "starts_with t (py_replace old new (c # cs))" using h False by auto
      then have "starts_with t (c # cs)"
        by (rule replace_head [OF "2.prems"(1), rotated]) (use assms(1) in \<open>simp add: proper_secret_def\<close>)
      then show ?thesis using False assms(1) by (auto simp: contains_Cons_iff proper_secret_def)
    next
      assume "contains t (py_replace old new cs)"
      then show ?thesis using "2.IH"(2) [OF False "2.prems"(1)] by (auto simp: contains_Cons_iff)
    qed
  qed
qed

lemma fold_replace_keeps:
  assumes "proper_secret t" "\<not> contains t s"
  shows "\<not> contains t (fold (\<lambda>x s. if x = [] then s else py_replace x redaction_mark s) xs s)"
  using assms(2) by (induction xs arbitrary: s) (auto dest: replace_no_new [OF assms(1) refl])

lemma redact_text_clean:
  assumes "proper_secret t" "t \<in> set secrets"
  shows "\<not> contains t (redact_text secrets s)"
proof -
  obtain as bs where xs: "secrets = as @ t # bs" using assms(2) by (meson split_list)
  let ?s = "fold (\<lambda>x s. if x = [] then s else py_replace x redaction_mark s) as (redact_bearer s)"
  have "\<not> contains t (py_replace t redaction_mark ?s)" using replace_no_new [OF assms(1) refl] by blast
  then show ?thesis
    using fold_replace_keeps [OF assms(1)] assms(1) by (simp add: redact_text_def xs proper_secret_def)
qed

text \<open>The texts among the values of a payload, at every depth (keys are not redacted).\<close>

fun texts_of :: "json \<Rightarrow> string list" where
  "texts_of (JStr s) = [s]"
| "texts_of (JList xs) = concat (map texts_of xs)"
| "texts_of (JObj d) = concat (map (\<lambda>(k, v). texts_of v) d)"
| "texts_of v = []"

lemma redacted_texts: "s \<in> set (texts_of (redact_failure_value secrets v)) \<Longrightarrow> \<exists>t. s = redact_text secrets t"
  by (induction v rule: texts_of.induct) force+

lemma clean_texts:
  assumes "proper_secret t" "t \<in> set secrets" "s \<in> set (texts_of (redact_failure_value secrets v))"
  shows "\<not> contains t s"
  using redacted_texts [OF assms(3)] redact_text_clean [OF assms(1,2)] by blast

lemma set_dsetdefault: "set (dsetdefault k v d) \<subseteq> insert (k, v) (set d)"
  by (auto simp: dsetdefault_def)

lemma set_fold_dsetdefault: "set (fold (\<lambda>(k, v). dsetdefault k v) fs d) \<subseteq> set fs \<union> set d"
  using set_dsetdefault by (induction fs arbitrary: d) (fastforce split: prod.splits)+

lemma contains_strip: "contains t (py_strip s) \<Longrightarrow> contains t s"
proof -
  assume a: "contains t (py_strip s)"
  obtain b where "rev (dropWhile is_space s) = b @ dropWhile is_space (rev (dropWhile is_space s))"
    by (metis takeWhile_dropWhile_id)
  then have "dropWhile is_space s = py_strip s @ rev b"
    by (metis py_strip_def rev_append rev_rev_ident)
  then have "s = takeWhile is_space s @ py_strip s @ rev b" by (metis takeWhile_dropWhile_id)
  then show ?thesis using a by (metis append.assoc contains_iff)
qed

lemma first_string_from: "first_string vs = Some x \<Longrightarrow> \<exists>s. JStr s \<in> set vs \<and> x = py_strip s"
  by (induction vs rule: first_string.induct) (auto split: if_splits)

lemma dget_JStr: "dget d k = JStr s \<Longrightarrow> (k, JStr s) \<in> set d"
  by (induction d) (auto simp: dget_def split: if_splits)

text \<open>The fields of the payload that the policy fills in; their texts are constants.\<close>

definition policy_keys :: "string list" where
  "policy_keys = [''category'', ''recoverable'', ''retryable'', ''action_kind'', ''recovery_action'', ''suggested_action'']"

lemma classification_field_key: "(k, v) \<in> set (classification_fields c) \<Longrightarrow> k \<in> set policy_keys"
proof -
  assume "(k, v) \<in> set (classification_fields c)"
  then have "k \<in> fst ` set (classification_fields c)" by (rule rev_image_eqI) simp
  then show ?thesis by (simp add: classification_fields_def policy_keys_def)
qed

lemma redacted_fields_texts:
  "(k, v) \<in> set (redacted_fields secrets x) \<Longrightarrow>
    set (texts_of v) \<subseteq> set (texts_of (redact_failure_value secrets (JObj (failure_fields x))))"
  by (force simp: redacted_fields_def)

lemma run_failed_payload_fields:
  assumes "(k, v) \<in> set (run_failed_payload secrets x)" "k \<notin> set policy_keys"
  shows "(k, v) \<in> set (redacted_fields secrets x) \<or>
    (\<exists>c. v = JStr c \<and> failure_code (redacted_fields secrets x) = Some c)"
proof -
  let ?p = "redacted_fields secrets x"
  let ?c = "classify_failure_payload ''run.failed'' ?p"
  let ?f = "fold (\<lambda>(k, v). dsetdefault k v) (classification_fields ?c) ?p"
  have r: "run_failed_payload secrets x = (case fc_code ?c of None \<Rightarrow> ?f | Some code \<Rightarrow> dsetdefault ''error_code'' (JStr code) ?f)"
    unfolding run_failed_payload_def Let_def ..
  have f: "(k, v) \<in> set ?f \<Longrightarrow> (k, v) \<in> set ?p"
    using set_fold_dsetdefault [of "classification_fields ?c" ?p] assms(2) classification_field_key by blast
  show ?thesis
  proof (cases "fc_code ?c")
    case None
    then show ?thesis using assms(1) r f by simp
  next
    case (Some code)
    then have "(k, v) \<in> set ?f \<or> v = JStr code"
      using assms(1) r set_dsetdefault [of "''error_code''" "JStr code" ?f] by auto
    then show ?thesis using f Some by (auto simp: classify_failure_payload_def Let_def)
  qed
qed

subsection \<open>Properties\<close>

text \<open>C25: A secret that is redacted (one without brackets that is no part of the redaction mark)
  occurs in no text of the failure payload of a run, at any depth, outside the fields that the
  failure policy fills with its own constants.
\<close>

theorem secrets_are_redacted:
  assumes "proper_secret t" "t \<in> set secrets" "(k, v) \<in> set (run_failed_payload secrets x)"
    "k \<notin> set policy_keys" "s \<in> set (texts_of v)"
  shows "\<not> contains t s"
proof -
  have clean: "\<not> contains t u" if "(k', v') \<in> set (redacted_fields secrets x)" "u \<in> set (texts_of v')" for k' v' u
    using clean_texts [OF assms(1,2)] redacted_fields_texts [OF that(1)] that(2) by blast
  from run_failed_payload_fields [OF assms(3,4)] show ?thesis
  proof
    assume "(k, v) \<in> set (redacted_fields secrets x)"
    then show ?thesis using clean assms(5) by blast
  next
    assume "\<exists>c. v = JStr c \<and> failure_code (redacted_fields secrets x) = Some c"
    then obtain u k' where u: "(k', JStr u) \<in> set (redacted_fields secrets x)" "s = py_strip u"
      using assms(5) by (force simp: failure_code_def dest!: first_string_from dget_JStr [OF sym])
    then show ?thesis using clean [OF u(1), of u] contains_strip [of t u] by auto
  qed
qed


lemma secrets_are_redacted_witness:
  "proper_secret ''sk-1'' \<and>
   (''error'', JStr ''401 for [REDACTED]: Bearer [REDACTED]'') \<in>
     set (run_failed_payload [''sk-1''] (PlainFailure ''401 for sk-1: bearer  abc'' ''E'' None None)) \<and>
   \<not> contains ''sk-1'' ''401 for [REDACTED]: Bearer [REDACTED]''"
proof -
  let ?p = "run_failed_payload [''sk-1''] (PlainFailure ''401 for sk-1: bearer  abc'' ''E'' None None)"
  have p: "proper_secret ''sk-1''" by code_simp
  have "0 < length ?p" "?p ! 0 = (''error'', JStr ''401 for [REDACTED]: Bearer [REDACTED]'')" by code_simp+
  then have m: "(''error'', JStr ''401 for [REDACTED]: Bearer [REDACTED]'') \<in> set ?p" by (metis nth_mem)
  have k: "''error'' \<notin> set policy_keys" by code_simp
  show ?thesis
    using p m secrets_are_redacted [OF p _ m k, of "''401 for [REDACTED]: Bearer [REDACTED]''"] by simp
qed

text \<open>C26: The retry loop around a tool terminates. Whatever the tool returns, the loop ends, after at
  most the configured number of retries and never with the exception after its range, with the
  result of the tool's last run, unchanged; every run before was one the policy retries, and the
  loop slept the delay the policy gives for it, between zero and the ceiling; the tool ran exactly
  once more than it was retried, and the result handed on is one the policy does not retry.
\<close>

theorem tool_retries_terminate:
  assumes "\<And>s. \<exists>r s'. handler s = Inr (r, s')"
  shows "\<exists>k r ds s'. wrap_tool_call loads None lm tool handler s = Inr ((r, ds), s') \<and>
    length ds = k \<and> k \<le> rl_retries lm \<and> s' = (next_state handler ^^ (k + 1)) s \<and>
    handler ((next_state handler ^^ k) s) = Inr (r, s') \<and>
    (\<forall>j<k. retries_after loads lm (nth_result handler s j) j = Some (ds ! j)) \<and>
    (\<forall>x\<in>set ds. 0 \<le> x \<and> x \<le> max 0 (rl_maximum lm)) \<and> retries_after loads lm r k = None"
proof -
  obtain k r ds s' where run: "retry_attempts loads lm handler [0..<rl_retries lm + 1] s = Inr ((r, ds), s')"
    "length ds = k" "k \<le> rl_retries lm" "s' = (next_state handler ^^ (k + 1)) s" "r = nth_result handler s k"
    "\<forall>j<k. retries_after loads lm (nth_result handler s j) j = Some (ds ! j)"
    "\<forall>x\<in>set ds. 0 \<le> x \<and> x \<le> max 0 (rl_maximum lm)" "retries_after loads lm r k = None"
    using retry_attempts_step [where handler = handler and i = 0 and lm = lm and loads = loads and s = s, OF assms]
    by auto
  obtain r0 s0 where "handler ((next_state handler ^^ k) s) = Inr (r0, s0)" using assms by blast
  then have "handler ((next_state handler ^^ k) s) = Inr (r, s')"
    using run(4,5) by (simp add: nth_result_def next_state_def)
  then show ?thesis
    using run by (intro exI [of _ k] exI [of _ r] exI [of _ ds] exI [of _ s']) (simp add: wrap_tool_call_def)
qed

definition flaky_tool :: "nat \<Rightarrow> (tool_result \<times> nat) res" where
  "flaky_tool n = Inr (ToolMessage (JObj (if n < 2
     then [(''ok'', JBool False), (''retryable'', JStr ''yes''), (''error'', JStr ''HTTP 503'')]
     else [(''ok'', JBool True)])), n + 1)"

lemma flaky_tool_run:
  "returns (wrap_tool_call (\<lambda>_. None) None (retry_limits_of 5 1 2 30) ''web.fetch'' flaky_tool 0)
    (\<lambda>x. snd (fst x) = [1, 2] \<and> snd x = 3)"
  by code_simp

lemma tool_retries_terminate_witness:
  "\<exists>k r ds s'. wrap_tool_call (\<lambda>_. None) None (retry_limits_of 5 1 2 30) ''web.fetch'' flaky_tool 0 = Inr ((r, ds), s') \<and>
    length ds = k \<and> k \<le> 5 \<and> flaky_tool ((next_state flaky_tool ^^ k) 0) = Inr (r, s') \<and> ds = [1, 2]"
proof -
  have t: "\<exists>r s'. flaky_tool s = Inr (r, s')" for s by (simp add: flaky_tool_def)
  have five: "rl_retries (retry_limits_of 5 1 2 30) = 5" by (simp add: retry_limits_of_def)
  obtain k r ds s' where run:
    "wrap_tool_call (\<lambda>_. None) None (retry_limits_of 5 1 2 30) ''web.fetch'' flaky_tool 0 = Inr ((r, ds), s')"
    "length ds = k" "k \<le> rl_retries (retry_limits_of 5 1 2 30)" "flaky_tool ((next_state flaky_tool ^^ k) 0) = Inr (r, s')"
    using tool_retries_terminate [where handler = flaky_tool and loads = "\<lambda>_. None" and
        lm = "retry_limits_of 5 1 2 30" and tool = "''web.fetch''" and s = 0, OF t] by blast
  have "ds = [1, 2]" using flaky_tool_run run(1) by (simp add: returns_def)
  then show ?thesis using run five by (intro exI [of _ k] exI [of _ r] exI [of _ ds] exI [of _ s']) simp
qed

end
