(* ===== verification/Tool_Results.thy ===== *)
theory Tool_Results
  imports Artifacts Failure_Policy Tool_Receipts
begin

text \<open>
  What a tool call answers and how the answer is kept (middleware/tool_result_codec.py): the values of a graph command and their JSON form, results made safe for the
  selected model, and the size bound with its artifact. LangChain's \<open>message_to_dict\<close> and
  \<open>messages_from_dict\<close> are parameters; the text of a stored result is represented by the value it
  encodes. Shown: what is stored is read back as the value that was stored, up to tuples, and a
  result once made safe stays as it is.
\<close>

subsection \<open>Messages and values\<close>

record tool_msg =
  tm_content :: json
  tm_name :: string
  tm_call :: string
  tm_error :: bool
  tm_extra :: dict

text \<open>A message that is not a tool's is kept as its class and its fields.\<close>

datatype message = OfTool tool_msg | OtherMessage string json

datatype dict_key = KeyText string | KeyOther

datatype command_value =
    VNone
  | VBool bool
  | VInt int
  | VFloat string
  | VText string
  | VList "command_value list"
  | VTuple "command_value list"
  | VDict "(dict_key \<times> command_value) list"
  | VMessage message
  | VOther string

record graph_command =
  gc_graph :: json
  gc_update :: command_value
  gc_resume :: command_value
  gc_goto :: command_value

datatype call_result = Message tool_msg | Command graph_command

record message_codec =
  to_dict :: "message \<Rightarrow> json"
  from_dict :: "json \<Rightarrow> message option"

definition text_key :: "dict_key \<Rightarrow> string" where
  "text_key k = (case k of KeyText s \<Rightarrow> s | KeyOther \<Rightarrow> [])"

fun is_text_key :: "dict_key \<Rightarrow> bool" where
  "is_text_key (KeyText s) = True"
| "is_text_key KeyOther = False"

subsection \<open>\<open>_encode_json_value\<close> and \<open>_decode_json_value\<close>\<close>

definition onr :: "('a \<Rightarrow> 'b) \<Rightarrow> 'e + 'a \<Rightarrow> 'e + 'b" where
  "onr f m = (case m of Inl e \<Rightarrow> Inl e | Inr x \<Rightarrow> Inr (f x))"

lemma onr_simps [simp]: "onr f (Inl e) = Inl e" "onr f (Inr x) = Inr (f x)"
  by (simp_all add: onr_def)

lemma onr_Inr_iff: "onr f m = Inr y \<longleftrightarrow> (\<exists>x. m = Inr x \<and> y = f x)"
  by (cases m) auto

text \<open>A comprehension whose element may raise: the first exception is the comprehension's.\<close>

fun gather :: "('e + 'a) list \<Rightarrow> 'e + 'a list" where
  "gather [] = Inr []"
| "gather (x # xs) = (case x of Inl e \<Rightarrow> Inl e | Inr v \<Rightarrow> onr ((#) v) (gather xs))"

lemma gather_Inr_iff: "gather (map f xs) = Inr ys \<longleftrightarrow> list_all2 (\<lambda>x y. f x = Inr y) xs ys"
proof (induction xs arbitrary: ys)
  case Nil
  then show ?case by auto
next
  case (Cons x xs)
  show ?case
    by (cases "f x") (auto simp: onr_Inr_iff Cons.IH list_all2_Cons1)
qed

fun encode_json_value :: "message_codec \<Rightarrow> command_value \<Rightarrow> json res" where
  "encode_json_value c (VMessage m) =
     Inr (JObj [(''__runtime_type__'', JStr ''message''), (''value'', to_dict c m)])"
| "encode_json_value c VNone = Inr JNull"
| "encode_json_value c (VText s) = Inr (JStr s)"
| "encode_json_value c (VInt i) = Inr (JInt i)"
| "encode_json_value c (VFloat s) = Inr (JFloat s)"
| "encode_json_value c (VBool b) = Inr (JBool b)"
| "encode_json_value c (VDict kvs) =
     (if \<not> list_all (\<lambda>(k, v). is_text_key k) kvs then Inl ToolReceiptStateError
      else onr JObj
        (gather (map (\<lambda>(k, v). onr (Pair (text_key k)) (encode_json_value c v)) kvs)))"
| "encode_json_value c (VList xs) = onr JList (gather (map (encode_json_value c) xs))"
| "encode_json_value c (VTuple xs) = onr JList (gather (map (encode_json_value c) xs))"
| "encode_json_value c (VOther ty) = Inl ToolReceiptStateError"

definition read_message :: "message_codec \<Rightarrow> json \<Rightarrow> message res" where
  "read_message c raw = (case from_dict c raw of None \<Rightarrow> Inl PyValueError | Some m \<Rightarrow> Inr m)"

fun decode_json_value :: "message_codec \<Rightarrow> json \<Rightarrow> command_value res" where
  "decode_json_value c (JList xs) = onr VList (gather (map (decode_json_value c) xs))"
| "decode_json_value c (JObj d) =
     (if dget d ''__runtime_type__'' = JStr ''message'' then
        (let raw = dget d ''value''
         in if \<not> is_obj raw then Inl ToolReceiptStateError
            else onr VMessage (read_message c raw))
      else onr VDict
        (gather (map (\<lambda>(k, v). onr (Pair (KeyText k)) (decode_json_value c v)) d)))"
| "decode_json_value c JNull = Inr VNone"
| "decode_json_value c (JBool b) = Inr (VBool b)"
| "decode_json_value c (JInt i) = Inr (VInt i)"
| "decode_json_value c (JFloat s) = Inr (VFloat s)"
| "decode_json_value c (JStr s) = Inr (VText s)"

text \<open>What comes back: a tuple has become a list.\<close>

fun as_read :: "command_value \<Rightarrow> command_value" where
  "as_read (VList xs) = VList (map as_read xs)"
| "as_read (VTuple xs) = VList (map as_read xs)"
| "as_read (VDict kvs) = VDict (map (\<lambda>(k, v). (k, as_read v)) kvs)"
| "as_read v = v"

text \<open>
  The marker of a message is an ordinary key: a mapping of the tool's own that uses it is taken for
  a message when it is read back.
\<close>

definition marked :: "(dict_key \<times> command_value) list \<Rightarrow> bool" where
  "marked kvs \<longleftrightarrow> map_of kvs (KeyText ''__runtime_type__'') = Some (VText ''message'')"

fun unmarked :: "command_value \<Rightarrow> bool" where
  "unmarked (VList xs) = list_all unmarked xs"
| "unmarked (VTuple xs) = list_all unmarked xs"
| "unmarked (VDict kvs) = (\<not> marked kvs \<and> list_all (\<lambda>(k, v). unmarked v) kvs)"
| "unmarked v = True"

fun messages_in :: "command_value \<Rightarrow> message list" where
  "messages_in (VList xs) = concat (map messages_in xs)"
| "messages_in (VTuple xs) = concat (map messages_in xs)"
| "messages_in (VDict kvs) = concat (map (\<lambda>(k, v). messages_in v) kvs)"
| "messages_in (VMessage m) = [m]"
| "messages_in v = []"

text \<open>The documented behaviour of LangChain's two functions, for one message.\<close>

definition survives :: "message_codec \<Rightarrow> message \<Rightarrow> bool" where
  "survives c m \<longleftrightarrow> is_obj (to_dict c m) \<and> from_dict c (to_dict c m) = Some m"

lemma encode_marker:
  assumes "list_all2 (\<lambda>(k, v) y. onr (Pair (text_key k)) (encode_json_value c v) = Inr y) kvs d"
    and "list_all (\<lambda>(k, v). is_text_key k) kvs" "\<not> marked kvs"
  shows "dget d ''__runtime_type__'' \<noteq> JStr ''message''"
  using assms
proof (induction kvs d rule: list_all2_induct)
  case Nil
  then show ?case by simp
next
  case (Cons kv kvs y d)
  obtain k v s where kv: "kv = (k, v)" "k = KeyText s"
    using Cons.prems(1) by (cases kv; cases "fst kv") auto
  obtain j where y: "y = (s, j)" "encode_json_value c v = Inr j"
    using Cons.hyps(1) kv by (auto simp: onr_Inr_iff text_key_def)
  show ?case
  proof (cases "s = ''__runtime_type__''")
    case True
    then have "v \<noteq> VText ''message''" using Cons.prems(2) kv by (simp add: marked_def)
    then have "j \<noteq> JStr ''message''"
      using y(2) by (cases v) (auto simp: onr_Inr_iff split: if_splits)
    then show ?thesis using True y by simp
  next
    case False
    then have "\<not> marked kvs" using Cons.prems(2) kv by (simp add: marked_def)
    then show ?thesis using Cons.IH Cons.prems(1) False y(1) by simp
  qed
qed

lemma decode_encode_list:
  assumes "\<And>x y. x \<in> set xs \<Longrightarrow> encode_json_value c x = Inr y \<Longrightarrow> unmarked x \<Longrightarrow>
      \<forall>m\<in>set (messages_in x). survives c m \<Longrightarrow> decode_json_value c y = Inr (as_read x)"
    and "gather (map (encode_json_value c) xs) = Inr ys" "list_all unmarked xs"
    and "\<forall>m\<in>set (concat (map messages_in xs)). survives c m"
  shows "gather (map (decode_json_value c) ys) = Inr (map as_read xs)"
proof -
  have "list_all2 (\<lambda>x y. encode_json_value c x = Inr y) xs ys"
    using assms(2) by (simp add: gather_Inr_iff)
  then have "list_all2 (\<lambda>y v. decode_json_value c y = Inr v) ys (map as_read xs)"
    using assms(1,3,4) by (auto simp: list_all2_conv_all_nth list_all_length)
  then show ?thesis by (simp add: gather_Inr_iff)
qed

lemma decode_encode:
  assumes "encode_json_value c v = Inr j" "unmarked v" "\<forall>m\<in>set (messages_in v). survives c m"
  shows "decode_json_value c j = Inr (as_read v)"
  using assms
proof (induction v arbitrary: j)
  case (VList xs)
  then show ?case using decode_encode_list [of xs c] by (auto simp: onr_Inr_iff)
next
  case (VTuple xs)
  then show ?case using decode_encode_list [of xs c] by (auto simp: onr_Inr_iff)
next
  case (VDict kvs)
  obtain d where keys: "list_all (\<lambda>(k, v). is_text_key k) kvs" and j: "j = JObj d"
    and enc: "list_all2 (\<lambda>(k, v) y. onr (Pair (text_key k)) (encode_json_value c v) = Inr y) kvs d"
    using VDict.prems(1) by (auto simp: onr_Inr_iff gather_Inr_iff case_prod_unfold split: if_splits)
  have "list_all2 (\<lambda>(k, v) y. onr (Pair (KeyText k)) (decode_json_value c v) = Inr y) d
      (map (\<lambda>(k, v). (k, as_read v)) kvs)"
    unfolding list_all2_conv_all_nth
  proof (intro conjI allI impI)
    show "length d = length (map (\<lambda>(k, v). (k, as_read v)) kvs)"
      using enc by (simp add: list_all2_lengthD)
    fix i assume "i < length d"
    then have i: "i < length kvs" using enc by (simp add: list_all2_lengthD)
    obtain k v where kv: "kvs ! i = (k, v)" by (cases "kvs ! i")
    then have mem: "(k, v) \<in> set kvs" using i nth_mem by metis
    obtain s where s: "k = KeyText s" using keys mem by (cases k) (auto simp: list_all_iff)
    obtain y where y: "d ! i = (s, y)" "encode_json_value c v = Inr y"
      using list_all2_nthD [OF enc i] kv s by (auto simp: onr_Inr_iff text_key_def)
    have "decode_json_value c y = Inr (as_read v)"
      using VDict.IH [OF mem _ y(2)] VDict.prems(2,3) mem by (force simp: list_all_iff)
    then show "(case d ! i of (k, v) \<Rightarrow> \<lambda>y. onr (Pair (KeyText k)) (decode_json_value c v) = Inr y)
        (map (\<lambda>(k, v). (k, as_read v)) kvs ! i)"
      using y kv s i by simp
  qed
  moreover have "dget d ''__runtime_type__'' \<noteq> JStr ''message''"
    using encode_marker [OF enc keys] VDict.prems(2) by simp
  ultimately show ?case
    using j by (simp add: onr_Inr_iff gather_Inr_iff case_prod_unfold)
qed (auto simp: survives_def read_message_def)


subsection \<open>Stored results\<close>

definition serialize_tool_result :: "message_codec \<Rightarrow> call_result \<Rightarrow> json res" where
  "serialize_tool_result c r = (case r of
      Message m \<Rightarrow> Inr (JObj [(''kind'', JStr ''tool_message''), (''value'', to_dict c (OfTool m))])
    | Command g \<Rightarrow>
       bindr (encode_json_value c (gc_update g)) (\<lambda>update.
       bindr (encode_json_value c (gc_resume g)) (\<lambda>resume.
       bindr (encode_json_value c (gc_goto g)) (\<lambda>goto.
         Inr (JObj [(''kind'', JStr ''command''), (''graph'', gc_graph g), (''update'', update),
                    (''resume'', resume), (''goto'', goto)])))))"

definition deserialize_tool_result :: "message_codec \<Rightarrow> json \<Rightarrow> call_result res" where
  "deserialize_tool_result c v =
    (if \<not> is_obj v then Inl ToolReceiptStateError
     else
      (let payload = obj_of v
       in if dget payload ''kind'' = JStr ''tool_message'' then
            (let raw = dget payload ''value''
             in if \<not> is_obj raw then Inl ToolReceiptStateError
                else bindr (read_message c raw) (\<lambda>m. case m of
                    OfTool t \<Rightarrow> Inr (Message t)
                  | OtherMessage _ _ \<Rightarrow> Inl ToolReceiptStateError))
          else if dget payload ''kind'' = JStr ''command'' then
            bindr (decode_json_value c (dget payload ''update'')) (\<lambda>update.
            bindr (decode_json_value c (dget payload ''resume'')) (\<lambda>resume.
            bindr (decode_json_value c (dget payload ''goto'')) (\<lambda>goto.
              Inr (Command \<lparr>gc_graph = dget payload ''graph'', gc_update = update,
                            gc_resume = resume, gc_goto = goto\<rparr>))))
          else Inl ToolReceiptStateError))"

definition result_as_read :: "call_result \<Rightarrow> call_result" where
  "result_as_read r = (case r of
      Message m \<Rightarrow> Message m
    | Command g \<Rightarrow> Command (g\<lparr>gc_update := as_read (gc_update g), gc_resume := as_read (gc_resume g),
                              gc_goto := as_read (gc_goto g)\<rparr>))"

definition storable :: "message_codec \<Rightarrow> call_result \<Rightarrow> bool" where
  "storable c r = (case r of
      Message m \<Rightarrow> survives c (OfTool m)
    | Command g \<Rightarrow> list_all (\<lambda>v. unmarked v \<and> list_all (survives c) (messages_in v))
        [gc_update g, gc_resume g, gc_goto g])"

lemma deserialize_serialize:
  assumes "serialize_tool_result c r = Inr j" "storable c r"
  shows "deserialize_tool_result c j = Inr (result_as_read r)"
proof (cases r)
  case (Message m)
  then show ?thesis
    using assms
    by (auto simp: serialize_tool_result_def deserialize_tool_result_def storable_def survives_def
        read_message_def result_as_read_def)
next
  case (Command g)
  then obtain u x y where e: "encode_json_value c (gc_update g) = Inr u" "encode_json_value c (gc_resume g) = Inr x"
    "encode_json_value c (gc_goto g) = Inr y"
    and j: "j = JObj [(''kind'', JStr ''command''), (''graph'', gc_graph g), (''update'', u), (''resume'', x), (''goto'', y)]"
    using assms(1) by (auto simp: serialize_tool_result_def bindr_Inr_iff)
  have "decode_json_value c u = Inr (as_read (gc_update g))" "decode_json_value c x = Inr (as_read (gc_resume g))"
    "decode_json_value c y = Inr (as_read (gc_goto g))"
    using decode_encode [OF e(1)] decode_encode [OF e(2)] decode_encode [OF e(3)] assms(2) Command
    by (auto simp: storable_def list_all_iff)
  then show ?thesis using j Command by (simp add: deserialize_tool_result_def result_as_read_def)
qed

subsection \<open>The selected model (\<open>_provider_safe_tool_result\<close>)\<close>

record tool_call =
  tl_id :: string
  tl_name :: string
  tl_args :: json

text \<open>What a result is prepared with: the profile of the model and the files of the run.\<close>

record result_env =
  re_codec :: message_codec
  re_profile :: json
  re_attachments :: "string list"
  re_loads :: "string \<Rightarrow> json option"
  re_sha :: "string \<Rightarrow> string"
  re_decode :: "string \<Rightarrow> string"

fun blocks_of :: "json \<Rightarrow> json list" where
  "blocks_of (JList xs) = xs"
| "blocks_of _ = []"

definition is_block :: "string \<Rightarrow> json \<Rightarrow> bool" where
  "is_block ty b \<longleftrightarrow> is_obj b \<and> dget (obj_of b) ''type'' = JStr ty"

definition image_limitation :: string where
  "image_limitation = ''Image content was not provided because the selected model is text-only. '' @
     ''Choose a model marked as supporting images before describing this file.''"

definition omit_images :: "tool_msg \<Rightarrow> tool_msg" where
  "omit_images m =
    (let remaining = filter (\<lambda>b. \<not> is_block ''image'' b) (blocks_of (tm_content m))
     in m\<lparr>tm_content := (if remaining \<noteq> []
            then JList (remaining @ [JObj [(''type'', JStr ''text''), (''text'', JStr image_limitation)]])
            else JStr image_limitation),
          tm_extra := dset ''runtime_image_omitted'' (JBool True) (tm_extra m)\<rparr>)"

definition text_only :: "result_env \<Rightarrow> bool" where
  "text_only e \<longleftrightarrow> is_obj (re_profile e) \<and> dget (obj_of (re_profile e)) ''image_inputs'' = JBool False"

definition ends_with :: "string \<Rightarrow> string \<Rightarrow> bool" where
  "ends_with p s \<longleftrightarrow> length p \<le> length s \<and> drop (length s - length p) s = p"

text \<open>A \<open>read_file\<close> of an attached PDF answers with one file block that holds the extracted text.\<close>

definition pdf_text :: "result_env \<Rightarrow> tool_call \<Rightarrow> tool_msg \<Rightarrow> string option" where
  "pdf_text e call m =
    (let path = (if is_obj (tl_args call) then dget (obj_of (tl_args call)) ''file_path'' else JNull)
     in if tl_name call \<noteq> ''read_file'' \<or> \<not> is_str path \<or> \<not> ends_with ''.pdf'' (py_lower (str_of path)) \<or>
           str_of path \<notin> set (re_attachments e) then None
        else (case tm_content m of
                JList [b] \<Rightarrow>
                  if is_block ''file'' b \<and> dget (obj_of b) ''mime_type'' = JStr ''application/pdf'' \<and>
                     is_str (dget (obj_of b) ''base64'')
                  then Some (str_of (dget (obj_of b) ''base64'')) else None
              | _ \<Rightarrow> None))"

definition provider_safe_message :: "result_env \<Rightarrow> tool_call \<Rightarrow> tool_msg \<Rightarrow> tool_msg" where
  "provider_safe_message e call m =
    (if list_ex (is_block ''image'') (blocks_of (tm_content m)) \<and> text_only e then omit_images m
     else (case pdf_text e call m of
             None \<Rightarrow> m
           | Some t \<Rightarrow> m\<lparr>tm_content := JStr t,
               tm_extra := dset ''runtime_extracted_text_from'' (JStr ''application/pdf'') (tm_extra m)\<rparr>))"

definition provider_safe :: "result_env \<Rightarrow> tool_call \<Rightarrow> call_result \<Rightarrow> call_result" where
  "provider_safe e call r = (case r of Message m \<Rightarrow> Message (provider_safe_message e call m) | Command g \<Rightarrow> r)"

lemma blocks_of_JStr_content: "tm_content m = JStr s \<Longrightarrow> provider_safe_message e call m = m"
  by (simp add: provider_safe_message_def pdf_text_def Let_def)

lemma pdf_text_single: "pdf_text e call m = Some t \<Longrightarrow> \<exists>b. tm_content m = JList [b]"
  by (auto simp: pdf_text_def Let_def split: if_splits json.splits list.splits)

lemma provider_safe_message_idem:
  "provider_safe_message e call (provider_safe_message e call m) = provider_safe_message e call m"
proof (cases "list_ex (is_block ''image'') (blocks_of (tm_content m)) \<and> text_only e")
  case True
  let ?rest = "filter (\<lambda>b. \<not> is_block ''image'' b) (blocks_of (tm_content m))"
  let ?note = "JObj [(''type'', JStr ''text''), (''text'', JStr image_limitation)]"
  have safe: "provider_safe_message e call m = omit_images m" using True by (simp add: provider_safe_message_def)
  show ?thesis
  proof (cases "?rest = []")
    case False
    then have c: "tm_content (omit_images m) = JList (?rest @ [?note])" by (simp add: omit_images_def Let_def)
    have "\<not> list_ex (is_block ''image'') (?rest @ [?note])"
      by (auto simp: list_ex_iff is_block_def)
    moreover have "pdf_text e call (omit_images m) = None"
      using False c pdf_text_single [of e call "omit_images m"]
      by (cases "pdf_text e call (omit_images m)") auto
    ultimately show ?thesis
      unfolding safe by (simp add: provider_safe_message_def [of e call "omit_images m"] c del: list_ex_append)
  qed (simp add: safe omit_images_def Let_def blocks_of_JStr_content)
next
  case False
  then have "provider_safe_message e call m = m \<or> (\<exists>s. tm_content (provider_safe_message e call m) = JStr s)"
    unfolding provider_safe_message_def by (auto split: option.splits)
  then show ?thesis using blocks_of_JStr_content by metis
qed

lemma provider_safe_idem: "provider_safe e call (provider_safe e call r) = provider_safe e call r"
  by (cases r) (simp_all add: provider_safe_def provider_safe_message_idem)


subsection \<open>The size of a result (\<open>_bound_tool_result\<close>)\<close>

definition max_model_tool_result_bytes :: int where
  "max_model_tool_result_bytes = 64 * 1024"

definition max_tool_artifact_bytes :: nat where
  "max_tool_artifact_bytes = 16 * 1024 * 1024"

definition result_bytes :: "json \<Rightarrow> nat" where
  "result_bytes v = utf8_length (json_dumps '','' '':'' v)"

text \<open>\<open>s.encode("utf-8")\<close>: the bytes are kept as characters.\<close>

definition utf8_bytes :: "string \<Rightarrow> string" where
  "utf8_bytes s = concat (map (\<lambda>c. let n = (of_char c :: nat) in
     if n < 128 then [c] else [char_of (192 + n div 64), char_of (128 + n mod 64)]) s)"

lemma length_utf8_bytes: "length (utf8_bytes s) = utf8_length s"
  by (induction s) (auto simp: utf8_bytes_def utf8_length_def Let_def)

text \<open>The bytes of the ellipsis are E2 80 A6.\<close>

definition omitted_marker :: "nat \<Rightarrow> string" where
  "omitted_marker n =
     [CHR 0x0A, CHR 0xE2, CHR 0x80, CHR 0xA6] @ ''['' @ nat_str n @ '' bytes omitted]'' @
     [CHR 0xE2, CHR 0x80, CHR 0xA6, CHR 0x0A]"

text \<open>\<open>value[-tail:]\<close>, where \<open>-0\<close> is the beginning.\<close>

definition slice_last :: "nat \<Rightarrow> 'a list \<Rightarrow> 'a list" where
  "slice_last n xs = (if n = 0 then xs else drop (length xs - n) xs)"

definition head_tail :: "nat \<Rightarrow> string \<Rightarrow> string" where
  "head_tail limit value =
    (if length value \<le> limit then value
     else
      (let marker = omitted_marker (length value - limit);
           available = limit - length marker;
           head = available * 3 div 4;
           tail = available - head
       in take head value @ marker @ slice_last tail value))"

text \<open>
  \<open>bytes.decode("utf-8", errors="replace")\<close> is the parameter \<open>re_decode\<close>: its replacement character
  and the ellipsis are no characters below 256.
\<close>

definition head_tail_bytes :: "result_env \<Rightarrow> string \<Rightarrow> nat \<Rightarrow> string" where
  "head_tail_bytes e value limit = re_decode e (head_tail limit value)"

lemma length_head_tail:
  assumes "length value \<le> limit \<or> length (omitted_marker (length value - limit)) < limit"
  shows "length (head_tail limit value) = min limit (length value)"
  using assms by (auto simp: head_tail_def slice_last_def Let_def)

definition message_content_text :: "json \<Rightarrow> string" where
  "message_content_text v = (case v of JStr s \<Rightarrow> s | _ \<Rightarrow> json_dumps '', '' '': '' v)"

definition strip_toolop :: "id \<Rightarrow> string" where
  "strip_toolop oper = (if starts_with ''toolop_'' oper then drop 7 oper else oper)"

definition output_artifact :: "id \<Rightarrow> id \<Rightarrow> tool_call \<Rightarrow> string \<Rightarrow> nat \<Rightarrow> artifact_spec" where
  "output_artifact oper run call content_type bytes =
     \<lparr>ap_id = Some (''art_'' @ strip_toolop oper), ap_run = run, ap_kind = ''tool_output'',
      ap_title = (if tl_name call = [] then ''tool'' else tl_name call) @ '' full output'',
      ap_content_type = content_type, ap_call = Some (tl_id call), ap_tool = Some (tl_name call),
      ap_metadata = [(''operation_id'', JStr oper), (''original_bytes'', JInt (int bytes)),
                     (''artifact_truncated'', JBool (bytes > max_tool_artifact_bytes))]\<rparr>"

definition output_summary :: "result_env \<Rightarrow> tool_call \<Rightarrow> string \<Rightarrow> id \<Rightarrow> bool \<Rightarrow> tool_msg" where
  "output_summary e call raw artifact err =
    (let bytes = utf8_bytes raw
     in \<lparr>tm_content = JStr (head_tail_bytes e bytes (32 * 1024) @ [CHR 0x0A, CHR 0x0A] @ ''['' @
           (if length bytes \<le> max_tool_artifact_bytes then ''Full'' else ''Truncated'') @
           '' tool output stored as artifact '' @ artifact @ ''; original size '' @ nat_str (length bytes) @ '' bytes.]''),
         tm_name = tl_name call, tm_call = tl_id call, tm_error = err,
         tm_extra = [(''artifact_id'', JStr artifact), (''original_bytes'', JInt (int (length bytes)))]\<rparr>)"

text \<open>The raw text that is too large, or nothing when the result may stay as it is.\<close>

definition oversized_text :: "message_codec \<Rightarrow> call_result \<Rightarrow> string option res" where
  "oversized_text c r = (case r of
      Message m \<Rightarrow>
        (let raw = message_content_text (tm_content m)
         in if int (utf8_length raw) \<le> max_model_tool_result_bytes then
              bindr (serialize_tool_result c r) (\<lambda>j.
                Inr (if int (result_bytes j) \<le> max_model_tool_result_bytes then None else Some raw))
            else Inr (Some raw))
    | Command g \<Rightarrow>
        bindr (serialize_tool_result c r) (\<lambda>j.
          Inr (if int (result_bytes j) \<le> max_model_tool_result_bytes then None
               else Some (json_dumps '','' '':'' (encode_payload j)))))"

text \<open>A command keeps its state when the summary can replace its messages.\<close>

definition compact_result :: "message_codec \<Rightarrow> call_result \<Rightarrow> tool_msg \<Rightarrow> call_result res" where
  "compact_result c r summary = (case r of
      Message _ \<Rightarrow> Inr (Message summary)
    | Command g \<Rightarrow>
       (case gc_update g of
          VDict kvs \<Rightarrow>
           (let candidate = Command (g\<lparr>gc_update :=
                  VDict (dset (KeyText ''messages'') (VList [VMessage (OfTool summary)]) kvs)\<rparr>)
            in bindr (serialize_tool_result c candidate) (\<lambda>j.
                 if int (result_bytes j) \<le> max_model_tool_result_bytes then Inr candidate
                 else Inl ToolReceiptStateError))
        | _ \<Rightarrow> Inl ToolReceiptStateError))"

definition bound_tool_result ::
    "ctx \<Rightarrow> result_env \<Rightarrow> id \<Rightarrow> id \<Rightarrow> tool_call \<Rightarrow> call_result \<Rightarrow> db \<Rightarrow> call_result res \<times> db" where
  "bound_tool_result c e oper run call r d =
    (case oversized_text (re_codec e) r of
       Inl err \<Rightarrow> (Inl err, d)
     | Inr None \<Rightarrow> (Inr r, d)
     | Inr (Some raw) \<Rightarrow>
        (let bytes = utf8_bytes raw;
             ty = (case r of Message _ \<Rightarrow> ''text/plain'' | Command _ \<Rightarrow> ''application/json'')
         in case create_artifact c (re_sha e) (output_artifact oper run call ty (length bytes))
                   (head_tail_bytes e bytes max_tool_artifact_bytes) d of
              Inl err \<Rightarrow> (Inl err, d)
            | Inr (a, d1) \<Rightarrow>
               (compact_result (re_codec e) r (output_summary e call raw (a_id a)
                  (case r of Message m \<Rightarrow> tm_error m | Command _ \<Rightarrow> False)), d1)))"

text \<open>The bounded result is one that needs no further change for the model.\<close>

lemma compact_result_safe:
  "compact_result c r (output_summary e call raw a err) = Inr r' \<Longrightarrow> provider_safe env call r' = r'"
  by (cases r)
    (auto simp: compact_result_def provider_safe_def output_summary_def Let_def bindr_Inr_iff
      blocks_of_JStr_content split: command_value.splits if_splits)

lemma bound_tool_result_safe:
  assumes "bound_tool_result c e oper run call r d = (Inr r', d')" "provider_safe e call r = r"
  shows "provider_safe e call r' = r'"
  using assms compact_result_safe
  by (auto simp: bound_tool_result_def Let_def split: sum.splits option.splits prod.splits)

subsection \<open>The semantic outcome\<close>

text \<open>A message whose content reports a failure is an error.\<close>

definition judged :: "result_env \<Rightarrow> call_result \<Rightarrow> call_result" where
  "judged e r = (case r of
      Message m \<Rightarrow>
        if \<not> tm_error m \<and> tool_result_envelope_failed (tool_result_envelope (re_loads e) (tm_content m))
        then Message (m\<lparr>tm_error := True\<rparr>) else r
    | Command _ \<Rightarrow> r)"

end
