(* ===== verification/Tool_Identity.thy ===== *)
theory Tool_Identity
  imports Tool_Results
begin

text \<open>
  What identifies one execution of a tool (middleware/tool_execution_identity.py): its risk, the
  namespace it runs in, the version of the tool, the operation id and its position in the batch of
  calls a model message asked for. Digests are a parameter. Shown: different calls have different
  operation ids unless the digest collides, and the position of a call that is not yet answered is
  one the gate can reach.
\<close>

subsection \<open>Risk\<close>

definition read_only_tools :: "string list" where
  "read_only_tools = [''clipboard.read'', ''environment.observe'', ''glob'', ''grep'', ''ls'', ''memory.search'',
     ''office.outline'', ''office.read'', ''office.read_range'', ''office.read_slides'', ''pdf.inspect'',
     ''read_file'', ''task.verify'', ''time.now'', ''web.fetch'', ''web.search'']"

definition workspace_write_tools :: "string list" where
  "workspace_write_tools = [''edit_file'', ''write_file'', ''office.add_image_to_slide'', ''office.add_row'',
     ''office.add_slide'', ''office.apply_style'', ''office.create_pptx'', ''office.delete_paragraph'',
     ''office.delete_slide'', ''office.find_replace'', ''office.insert_paragraph'', ''office.merge_cells'',
     ''office.reorder_slides'', ''office.set_cell_format'', ''office.set_cells'', ''office.set_formula'',
     ''office.set_slide_bullets'', ''office.set_slide_notes'', ''office.set_slide_title'',
     ''office.update_paragraph'', ''office.update_slide'']"

definition runtime_state_tools :: "string list" where
  "runtime_state_tools = [''memory.write'', ''task.progress'', ''write_todos'']"

definition control_flow_tools :: "string list" where
  "control_flow_tools = [''task'', ''team.run'', ''child.spawn'', ''child.list'', ''child.check'', ''child.wait'',
     ''child.cancel'', ''mailbox.send'', ''mailbox.inbox'', ''mailbox.reply'', ''mailbox.ack'', ''user.ask'']"

definition sandboxed_command_tools :: "string list" where
  "sandboxed_command_tools = [''execute'']"

definition tool_risk :: "string \<Rightarrow> string" where
  "tool_risk name =
    (if starts_with ''plugin.'' name then ''plugin_action''
     else if name \<in> set read_only_tools then ''read_only''
     else if name \<in> set workspace_write_tools then ''workspace_write''
     else if name \<in> set runtime_state_tools then ''runtime_state''
     else if name \<in> set control_flow_tools then ''control_flow''
     else if name \<in> set sandboxed_command_tools then ''sandboxed_command''
     else ''external_or_unknown'')"

subsection \<open>Namespaces\<close>

text \<open>\<open>str.rpartition\<close>: the parts around the last occurrence.\<close>

definition occurrences :: "string \<Rightarrow> string \<Rightarrow> nat list" where
  "occurrences sep s = filter (\<lambda>i. take (length sep) (drop i s) = sep) [0..<length s]"

definition rpartition :: "string \<Rightarrow> string \<Rightarrow> (string \<times> string) option" where
  "rpartition sep s = (case rev (occurrences sep s) of
      [] \<Rightarrow> None | i # _ \<Rightarrow> Some (take i s, drop (i + length sep) s))"

definition execution_namespace_from_config :: "(string \<Rightarrow> string) \<Rightarrow> json \<Rightarrow> string" where
  "execution_namespace_from_config sha config =
    (let configurable = (if is_obj config then dget (obj_of config) ''configurable'' else JNull);
         raw = (if is_obj configurable then dget (obj_of configurable) ''checkpoint_ns'' else JNull);
         v = text_or raw ''main''
     in if length v \<le> 256 then v
        else (case rpartition ''|'' v of
                Some (parent, leaf) \<Rightarrow>
                  ''ns_'' @ sha parent @ ''|'' @ (if length leaf \<le> 128 then leaf else ''leaf_'' @ sha leaf)
              | None \<Rightarrow> ''ns_'' @ sha v))"

text \<open>A message as the scope reads it: its id, the calls it asks for, and the call it answers.\<close>

record scope_message =
  sm_id :: string
  sm_calls :: "json list"
  sm_answers :: "string option"

definition asking :: "scope_message list \<Rightarrow> nat list" where
  "asking ms = filter (\<lambda>i. sm_calls (ms ! i) \<noteq> []) [0..<length ms]"

definition last_asking :: "scope_message list \<Rightarrow> nat option" where
  "last_asking ms = (case rev (asking ms) of [] \<Rightarrow> None | i # _ \<Rightarrow> Some i)"

definition execution_scope_from_messages ::
    "(string \<Rightarrow> string) \<Rightarrow> string \<Rightarrow> scope_message list option \<Rightarrow> string" where
  "execution_scope_from_messages sha base messages =
    (case messages of
       None \<Rightarrow> base
     | Some ms \<Rightarrow>
        (case last_asking ms of
           None \<Rightarrow> base
         | Some i \<Rightarrow> base @ ''|batch_'' @ take 24 (sha (json_dumps '','' '':'' (encode_payload (JObj
              [(''message_id'', JStr (sm_id (ms ! i))), (''message_index'', JInt (int i)),
               (''calls'', JList (sm_calls (ms ! i)))]))))))"

definition canonical_tool_execution_scope :: "string \<Rightarrow> string" where
  "canonical_tool_execution_scope scope =
    (case rpartition ''|batch_'' scope of
       None \<Rightarrow> scope
     | Some (base, batch) \<Rightarrow>
        (case rpartition ''|'' base of Some (parent, _) \<Rightarrow> parent | None \<Rightarrow> []) @ ''|batch_'' @ batch)"

subsection \<open>Versions\<close>

definition tool_version_for_context :: "json \<Rightarrow> string \<Rightarrow> string \<Rightarrow> string" where
  "tool_version_for_context plugin_versions graph name =
    (let v = (if is_obj plugin_versions then dget (obj_of plugin_versions) name else JNull)
     in if is_str v \<and> str_of v \<noteq> [] then str_of v else graph)"

definition named_id :: "json \<Rightarrow> bool" where
  "named_id v \<longleftrightarrow> is_str v \<and> str_of v \<noteq> []"

text \<open>The inputs a plugin call selects; none where its arguments name none.\<close>

definition selected_inputs :: "json \<Rightarrow> id list" where
  "selected_inputs args =
    (let one = (if is_obj args then dget (obj_of args) ''input_id'' else JNull);
         many = blocks_of (if is_obj args then dget (obj_of args) ''input_ids'' else JNull)
     in if named_id one then [str_of one]
        else if list_all named_id many then map str_of many else [])"

definition input_binding :: "id \<Rightarrow> db \<Rightarrow> id \<Rightarrow> json option" where
  "input_binding run d i =
    (case get_artifact i d of
       None \<Rightarrow> None
     | Some a \<Rightarrow>
        if a_run a \<noteq> run \<or> a_storage a \<noteq> ''blob'' then None
        else Some (JObj [(''id'', JStr i), (''media_type'', JStr (a_content_type a)),
                         (''size_bytes'', JInt (int (a_bytes a))), (''sha256'', JStr (a_sha a))]))"

definition tool_version_for_invocation ::
    "(string \<Rightarrow> string) \<Rightarrow> json \<Rightarrow> string \<Rightarrow> id \<Rightarrow> string \<Rightarrow> json \<Rightarrow> db \<Rightarrow> string" where
  "tool_version_for_invocation sha plugin_versions graph run name args d =
    (let base = tool_version_for_context plugin_versions graph name
     in if \<not> is_obj plugin_versions \<or> \<not> has_key (obj_of plugin_versions) name \<or> run = [] then base
        else (let bindings = concat (map (\<lambda>i. case input_binding run d i of None \<Rightarrow> [] | Some b \<Rightarrow> [b]) (selected_inputs args))
              in if bindings = [] then base
                 else base @ '':artifact-input:sha256:'' @
                      sha (json_dumps '','' '':'' (encode_payload (JList bindings)))))"

subsection \<open>Operation ids\<close>

definition operation_text :: "id \<Rightarrow> string \<Rightarrow> string \<Rightarrow> string \<Rightarrow> string \<Rightarrow> string \<Rightarrow> string" where
  "operation_text run namespace call name version args_hash =
     join_with [CHR 0x00] [run, namespace, call, name, version, args_hash]"

definition arguments_text :: "json \<Rightarrow> string" where
  "arguments_text args = json_dumps '','' '':'' (encode_payload args)"

definition tool_operation_identity ::
    "(string \<Rightarrow> string) \<Rightarrow> id \<Rightarrow> string \<Rightarrow> string \<Rightarrow> json \<Rightarrow> string \<Rightarrow> string \<Rightarrow> id \<times> string \<times> json" where
  "tool_operation_identity sha run call name args version namespace =
    (let args_hash = sha (arguments_text args)
     in (''toolop_'' @ take 32 (sha (operation_text run namespace call name version args_hash)),
         args_hash, encode_payload args))"

text \<open>A text without NUL is recovered from the joined text.\<close>

lemma split_at_nul:
  assumes "a @ CHR 0x00 # x = b @ CHR 0x00 # y" "CHR 0x00 \<notin> set a" "CHR 0x00 \<notin> set b"
  shows "a = b \<and> x = y"
  using assms
proof (induction a arbitrary: b)
  case Nil
  then show ?case by (cases b) auto
next
  case (Cons c a)
  then show ?case by (cases b) auto
qed

lemma operation_text_inj:
  assumes "operation_text a1 a2 a3 a4 a5 a6 = operation_text b1 b2 b3 b4 b5 b6"
    and "\<forall>s\<in>{a1, a2, a3, a4, a5, b1, b2, b3, b4, b5}. CHR 0x00 \<notin> set s"
  shows "a1 = b1 \<and> a2 = b2 \<and> a3 = b3 \<and> a4 = b4 \<and> a5 = b5 \<and> a6 = b6"
proof -
  have "a1 @ CHR 0x00 # (a2 @ CHR 0x00 # (a3 @ CHR 0x00 # (a4 @ CHR 0x00 # (a5 @ CHR 0x00 # a6)))) =
      b1 @ CHR 0x00 # (b2 @ CHR 0x00 # (b3 @ CHR 0x00 # (b4 @ CHR 0x00 # (b5 @ CHR 0x00 # b6))))"
    using assms(1) by (simp add: operation_text_def)
  from split_at_nul [OF this] have 1: "a1 = b1"
    "a2 @ CHR 0x00 # (a3 @ CHR 0x00 # (a4 @ CHR 0x00 # (a5 @ CHR 0x00 # a6))) =
      b2 @ CHR 0x00 # (b3 @ CHR 0x00 # (b4 @ CHR 0x00 # (b5 @ CHR 0x00 # b6)))"
    using assms(2) by auto
  from split_at_nul [OF 1(2)] have 2: "a2 = b2"
    "a3 @ CHR 0x00 # (a4 @ CHR 0x00 # (a5 @ CHR 0x00 # a6)) = b3 @ CHR 0x00 # (b4 @ CHR 0x00 # (b5 @ CHR 0x00 # b6))"
    using assms(2) by auto
  from split_at_nul [OF 2(2)] have 3: "a3 = b3"
    "a4 @ CHR 0x00 # (a5 @ CHR 0x00 # a6) = b4 @ CHR 0x00 # (b5 @ CHR 0x00 # b6)"
    using assms(2) by auto
  from split_at_nul [OF 3(2)] have 4: "a4 = b4" "a5 @ CHR 0x00 # a6 = b5 @ CHR 0x00 # b6"
    using assms(2) by auto
  from split_at_nul [OF 4(2)] show ?thesis using 1 2 3 4 assms(2) by auto
qed

subsection \<open>The position in a batch\<close>

definition call_field :: "string \<Rightarrow> json \<Rightarrow> string" where
  "call_field k call = text_or (dget (obj_of call) k) []"

definition ordered_calls :: "json list \<Rightarrow> json list" where
  "ordered_calls calls = filter (\<lambda>c. is_obj c \<and> tool_risk (call_field ''name'' c) \<noteq> ''control_flow'') calls"

fun position_of :: "string \<Rightarrow> nat \<Rightarrow> json list \<Rightarrow> nat option" where
  "position_of i n [] = None"
| "position_of i n (c # cs) = (if call_field ''id'' c = i then Some n else position_of i (n + 1) cs)"

definition answered_ids :: "nat \<Rightarrow> scope_message list \<Rightarrow> string list" where
  "answered_ids i ms = concat (map (\<lambda>m. case sm_answers m of
      None \<Rightarrow> [] | Some c \<Rightarrow> if c = [] then [] else [c]) (drop (i + 1) ms))"

definition completed_prefix :: "string list \<Rightarrow> json list \<Rightarrow> nat" where
  "completed_prefix answered calls = length (takeWhile (\<lambda>c. call_field ''id'' c \<in> set answered) calls)"

definition ordered_batch_position ::
    "scope_message list option \<Rightarrow> string \<Rightarrow> string \<Rightarrow> (string \<times> nat \<times> nat) option" where
  "ordered_batch_position messages call scope =
    (case messages of
       None \<Rightarrow> None
     | Some ms \<Rightarrow>
        (case last_asking ms of
           None \<Rightarrow> None
         | Some i \<Rightarrow>
            (let calls = ordered_calls (sm_calls (ms ! i))
             in if \<not> list_ex (\<lambda>c. tool_risk (call_field ''name'' c) \<noteq> ''read_only'') calls then None
                else map_option (\<lambda>n. (canonical_tool_execution_scope scope, n,
                       completed_prefix (answered_ids i ms) calls)) (position_of call 0 calls))))"

lemma position_of_bounds:
  assumes "position_of i n cs = Some k"
  shows "n \<le> k \<and> k < n + length cs \<and> call_field ''id'' (cs ! (k - n)) = i"
  using assms
proof (induction i n cs rule: position_of.induct)
  case (2 i n c cs)
  show ?case
  proof (cases "call_field ''id'' c = i")
    case False
    then have k: "n + 1 \<le> k \<and> k < n + 1 + length cs \<and> call_field ''id'' (cs ! (k - (n + 1))) = i" using 2 by simp
    then have "k - n = Suc (k - (n + 1))" by linarith
    then show ?thesis using k by simp
  qed (use 2 in simp)
qed simp

text \<open>The prefix of answered calls stops before a call that is not answered.\<close>

lemma completed_prefix_le:
  assumes "position_of i 0 cs = Some k" "i \<notin> set answered"
  shows "completed_prefix answered cs \<le> k"
proof (rule ccontr)
  assume "\<not> completed_prefix answered cs \<le> k"
  then have "k < length (takeWhile (\<lambda>c. call_field ''id'' c \<in> set answered) cs)" by (simp add: completed_prefix_def)
  then have "call_field ''id'' (cs ! k) \<in> set answered"
    by (metis (no_types, lifting) nth_mem set_takeWhileD takeWhile_nth)
  then show False using position_of_bounds [OF assms(1)] assms(2) by simp
qed

text \<open>Two calls of a batch with different ids have different positions.\<close>

lemma position_of_inj: "position_of i 0 cs = Some k \<Longrightarrow> position_of j 0 cs = Some k \<Longrightarrow> i = j"
  using position_of_bounds by (metis add.commute add_0 diff_zero)

subsection \<open>Properties\<close>

text \<open>C: an operation id identifies the call. Two executions that differ in run, namespace, call
  id, tool, version or arguments have different operation ids, unless the digest collides on the
  very texts they are made from.\<close>

theorem operation_id_identifies_the_call:
  assumes "fst (tool_operation_identity sha run call name args version ns) =
      fst (tool_operation_identity sha run' call' name' args' version' ns')"
    and "\<forall>s\<in>{run, ns, call, name, version, run', ns', call', name', version'}. CHR 0x00 \<notin> set s"
    and "inj_on sha {arguments_text args, arguments_text args'}"
    and "inj_on (\<lambda>s. take 32 (sha s))
      {operation_text run ns call name version (sha (arguments_text args)),
       operation_text run' ns' call' name' version' (sha (arguments_text args'))}"
  shows "run = run' \<and> ns = ns' \<and> call = call' \<and> name = name' \<and> version = version' \<and>
    arguments_text args = arguments_text args'"
proof -
  have "operation_text run ns call name version (sha (arguments_text args)) =
      operation_text run' ns' call' name' version' (sha (arguments_text args'))"
    by (rule inj_onD [OF assms(4)]) (use assms(1) in \<open>simp_all add: tool_operation_identity_def Let_def\<close>)
  note same = operation_text_inj [OF this assms(2)]
  have "arguments_text args = arguments_text args'"
    by (rule inj_onD [OF assms(3)]) (use same in simp_all)
  then show ?thesis using same by blast
qed

theorem operation_id_identifies_the_call_witness:
  "fst (tool_operation_identity rev ''run_1'' ''call_1'' ''ls'' (JObj []) ''1'' ''main'') \<noteq>
   fst (tool_operation_identity rev ''run_1'' ''call_2'' ''ls'' (JObj []) ''1'' ''main'')"
proof
  assume same: "fst (tool_operation_identity rev ''run_1'' ''call_1'' ''ls'' (JObj []) ''1'' ''main'') =
   fst (tool_operation_identity rev ''run_1'' ''call_2'' ''ls'' (JObj []) ''1'' ''main'')"
  have "inj_on (\<lambda>s. take 32 (rev s))
      {operation_text ''run_1'' ''main'' ''call_1'' ''ls'' ''1'' (rev (arguments_text (JObj []))),
       operation_text ''run_1'' ''main'' ''call_2'' ''ls'' ''1'' (rev (arguments_text (JObj [])))}"
    by code_simp
  moreover have "\<forall>s\<in>{''run_1'', ''main'', ''call_1'', ''ls'', ''1'', ''run_1'', ''main'', ''call_2'', ''ls'', ''1''}. CHR 0x00 \<notin> set s"
    by code_simp
  ultimately have "''call_1'' = ''call_2''"
    using operation_id_identifies_the_call [OF same] by (simp only: inj_on_insert) blast
  then show False by simp
qed

end
