(* ===== verification/Settlement.thy ===== *)
theory Settlement
  imports Collaboration Failure_Policy
begin

text \<open>
  How an execution settles (runs/settlement.py): the views of a run's children
  (store/collaboration/projection.py), the completion policy over their states
  (runs/collaboration.py), the loop that waits for them and cancels those that are not needed,
  and the checks on the durable records that stand between an outcome and the result of the
  run. Shown: the policy decides exactly when no child is left to wait for, its verdict is
  never revised by what the children do later, the loop ends once the children do and says what
  the declarative policy says of their final states, and a run settles as completed only with
  its calls and tools settled and an answer in its draft.
\<close>

subsection \<open>Views of child runs (projection.py)\<close>

record child_view =
  v_id :: id
  v_parent :: "id option"
  v_root :: "id option"
  v_goal :: string
  v_status :: run_status
  v_agent_id :: string
  v_agent_version :: string
  v_depth :: int
  v_policy :: dict
  v_spawn_op :: "id option"
  v_graph_thread :: id
  v_checkpoint :: "id option"
  v_created :: time
  v_updated :: time
  v_completed :: "time option"
  v_mode :: completion_mode
  v_group :: "string option"
  v_required :: "int option"
  v_depends :: "id list"
  v_claims :: "string list"
  v_result :: "string option"
  v_error :: json
  v_error_type :: json
  v_retryable :: json
  v_in :: int
  v_out :: int
  v_calls :: int
  v_events :: nat

definition result_event_types :: "string list" where
  "result_event_types = [''run.waiting'', ''run.completed'', ''run.failed'', ''run.canceled'', ''run.cleanup_required'']"

definition last_result_payload :: "id \<Rightarrow> db \<Rightarrow> dict" where
  "last_result_payload run d =
    (case rev (select_by e_seq (\<lambda>e. e_run e = run \<and> e_type e \<in> set result_event_types) (db_events d)) of
       [] \<Rightarrow> [] | e # _ \<Rightarrow> json_payload (Some (e_payload e)))"

text \<open>\<open>int(payload.get(k) or 0)\<close>, for the integers the Runtime writes there.\<close>

definition count_field :: "dict \<Rightarrow> string \<Rightarrow> int" where
  "count_field p k = int_of (py_or (dget p k) (JInt 0))"

definition completed_text :: "run_row \<Rightarrow> db \<Rightarrow> string option" where
  "completed_text r d =
    (if r_status r = RunCompleted then map_option d_content (get_assistant_draft (r_id r) d) else None)"

definition child_view_of :: "db \<Rightarrow> run_row \<Rightarrow> child_view" where
  "child_view_of d r =
    (let co = find (\<lambda>x. co_child x = r_id r) (db_coords d); p = last_result_payload (r_id r) d
     in \<lparr>v_id = r_id r, v_parent = r_parent r, v_root = r_root r, v_goal = r_goal r, v_status = r_status r,
         v_agent_id = r_agent_id r, v_agent_version = r_agent_version r, v_depth = r_depth r,
         v_policy = json_payload (Some (r_policy r)), v_spawn_op = r_spawn_op r,
         v_graph_thread = r_graph_thread r, v_checkpoint = r_checkpoint r, v_created = r_created r,
         v_updated = r_updated r, v_completed = r_completed r,
         v_mode = (case co of None \<Rightarrow> ModeRequired | Some x \<Rightarrow> co_mode x),
         v_group = (case co of None \<Rightarrow> None | Some x \<Rightarrow> co_group x),
         v_required = (case co of None \<Rightarrow> None | Some x \<Rightarrow> co_required x),
         v_depends = sort (map dp_on (filter (\<lambda>x. dp_child x = r_id r) (db_deps d))),
         v_claims = sort (map cl_key (filter (\<lambda>x. cl_owner x = r_id r) (db_claims d))),
         v_result = completed_text r d,
         v_error = dget p ''error'', v_error_type = dget p ''type'', v_retryable = dget p ''retryable'',
         v_in = count_field p ''input_tokens'', v_out = count_field p ''output_tokens'',
         v_calls = count_field p ''model_calls'',
         v_events = count_where (\<lambda>e. e_run e = r_id r) (db_events d)\<rparr>)"

definition list_child_runs_for_run :: "id \<Rightarrow> db \<Rightarrow> child_view list" where
  "list_child_runs_for_run run d =
    map (child_view_of d) (select_by (\<lambda>r. (r_created r, r_id r)) (child_of run) (db_runs d))"

definition child_run_for_spawn_operation :: "id \<Rightarrow> id \<Rightarrow> db \<Rightarrow> child_view option" where
  "child_run_for_spawn_operation parent oper d =
    map_option (child_view_of d) (find (\<lambda>r. child_of parent r \<and> r_spawn_op r = Some oper) (db_runs d))"

text \<open>\<open>list(dict.fromkeys(...))\<close> without the empty ids.\<close>

definition wanted_ids :: "id list \<Rightarrow> id list" where
  "wanted_ids ids = rev (remdups (rev (filter (\<lambda>i. i \<noteq> []) ids)))"

definition list_child_runs_for_runs :: "id list \<Rightarrow> db \<Rightarrow> child_view list" where
  "list_child_runs_for_runs parents d =
    map (child_view_of d) (select_by (\<lambda>r. (opt_or (r_parent r) [], r_created r, r_id r))
      (\<lambda>r. list_ex (\<lambda>p. child_of p r) (wanted_ids parents)) (db_runs d))"

definition child_runs_for_parent :: "id \<Rightarrow> id list \<Rightarrow> db \<Rightarrow> child_view list res" where
  "child_runs_for_parent parent ids d =
    each_res (\<lambda>i. case find (\<lambda>r. child_of parent r \<and> r_id r = i) (db_runs d) of
        None \<Rightarrow> Inl PyKeyError | Some r \<Rightarrow> Inr (child_view_of d r)) (wanted_ids ids)"

subsection \<open>Resource owners\<close>

definition assert_workspace_resource_owner ::
    "(string \<Rightarrow> string list) \<Rightarrow> id \<Rightarrow> string \<Rightarrow> db \<Rightarrow> unit res" where
  "assert_workspace_resource_owner resolve run requested d =
    (case get_run_row d run of
       None \<Rightarrow> Inl PyKeyError
     | Some r \<Rightarrow>
        (let root_run = opt_or (r_root r) run
         in if \<not> list_ex (\<lambda>x. cl_root x = root_run) (db_claims d) then Inr ()
            else bindr (normalize_resource_key resolve (r_workspace r) requested) (\<lambda>key.
              case find (\<lambda>x. cl_root x = root_run \<and> cl_key x = key) (db_claims d) of
                None \<Rightarrow> Inr ()
              | Some x \<Rightarrow> if cl_owner x = run then Inr ()
                          else Inl (RunAdmissionError ''collaboration_resource_not_owned''))))"

definition has_foreign_workspace_resource_claims :: "id \<Rightarrow> db \<Rightarrow> bool" where
  "has_foreign_workspace_resource_claims run d \<longleftrightarrow>
    list_ex (\<lambda>x. cl_owner x \<noteq> run \<and> list_ex (\<lambda>r. r_id r = run \<and> r_root r = Some (cl_root x)) (db_runs d)) (db_claims d)"

subsection \<open>The completion policy (runs/collaboration.py)\<close>

definition child_done :: "child_view \<Rightarrow> bool" where
  "child_done c \<longleftrightarrow> v_status c \<in> {RunCompleted, RunFailed, RunCanceled, RunCleanupRequired}"

definition child_succeeded :: "child_view \<Rightarrow> bool" where
  "child_succeeded c \<longleftrightarrow> v_status c = RunCompleted"

definition child_lost :: "child_view \<Rightarrow> bool" where
  "child_lost c \<longleftrightarrow> child_done c \<and> \<not> child_succeeded c"

definition active_ids :: "child_view list \<Rightarrow> id list" where
  "active_ids cs = map v_id (filter (\<lambda>c. \<not> child_done c) cs)"

definition child_wait_satisfied :: "child_view list \<Rightarrow> bool \<Rightarrow> bool" where
  "child_wait_satisfied cs all_of = (if all_of then list_all child_done cs else list_ex child_done cs)"

definition group_key :: "child_view \<Rightarrow> string" where
  "group_key c = opt_or (v_group c) []"

definition required_of :: "child_view \<Rightarrow> int" where
  "required_of c = (case v_required c of None \<Rightarrow> 0 | Some n \<Rightarrow> n)"

record group_summary =
  gs_group :: string
  gs_required :: int
  gs_completed :: nat
  gs_active :: nat
  gs_failed :: nat
  gs_satisfied :: bool
  gs_impossible :: bool

text \<open>A group whose members disagree on the number counts as one that requires none.\<close>

definition agreed_count :: "child_view list \<Rightarrow> int" where
  "agreed_count ms = (case remdups (map required_of ms) of [n] \<Rightarrow> n | _ \<Rightarrow> 0)"

definition summarize_group :: "string \<Rightarrow> child_view list \<Rightarrow> group_summary" where
  "summarize_group g ms =
    (let needed = agreed_count ms; completed = count_where child_succeeded ms;
         active = count_where (\<lambda>c. \<not> child_done c) ms
     in \<lparr>gs_group = g, gs_required = needed, gs_completed = completed, gs_active = active,
         gs_failed = count_where child_lost ms,
         gs_satisfied = (0 < needed \<and> needed \<le> int completed),
         gs_impossible = (needed \<le> 0 \<or> int (length ms) < needed \<or> int (completed + active) < needed)\<rparr>)"

definition mode_children :: "completion_mode \<Rightarrow> child_view list \<Rightarrow> child_view list" where
  "mode_children m cs = filter (\<lambda>c. v_mode c = m) cs"

definition group_members :: "child_view list \<Rightarrow> string \<Rightarrow> child_view list" where
  "group_members cs g = filter (\<lambda>c. group_key c = g) (mode_children ModeQuorum cs)"

definition quorum_groups :: "child_view list \<Rightarrow> (group_summary \<times> child_view list) list" where
  "quorum_groups cs = map (\<lambda>g. (summarize_group g (group_members cs g), group_members cs g))
     (sort (remdups (map group_key (mode_children ModeQuorum cs))))"

definition group_settled :: "group_summary \<Rightarrow> bool" where
  "group_settled s \<longleftrightarrow> gs_satisfied s \<or> gs_impossible s"

record completion =
  cs_satisfied :: bool
  cs_impossible :: bool
  cs_total :: nat
  cs_completed :: nat
  cs_failed :: "id list"
  cs_active :: nat
  cs_groups :: "group_summary list"
  cs_best_effort :: nat
  cs_wait_for :: "id list"
  cs_cancel :: "id list"

text \<open>\<open>list(dict.fromkeys(xs))\<close>\<close>

definition unique_ids :: "id list \<Rightarrow> id list" where
  "unique_ids xs = rev (remdups (rev xs))"

definition required_failed :: "child_view list \<Rightarrow> id list" where
  "required_failed cs = map v_id (filter child_lost (mode_children ModeRequired cs))"

definition impossible :: "child_view list \<Rightarrow> bool" where
  "impossible cs \<longleftrightarrow> required_failed cs \<noteq> [] \<or> list_ex (\<lambda>(s, _). gs_impossible s) (quorum_groups cs)"

definition satisfied :: "child_view list \<Rightarrow> bool" where
  "satisfied cs \<longleftrightarrow> required_failed cs = [] \<and> active_ids (mode_children ModeRequired cs) = [] \<and>
     list_all (\<lambda>(s, _). gs_satisfied s) (quorum_groups cs) \<and> \<not> impossible cs"

definition quorum_waiting :: "child_view list \<Rightarrow> id list" where
  "quorum_waiting cs = concat (map (\<lambda>(s, ms). if group_settled s then [] else active_ids ms) (quorum_groups cs))"

definition quorum_cancel :: "child_view list \<Rightarrow> id list" where
  "quorum_cancel cs = concat (map (\<lambda>(s, ms). if group_settled s then active_ids ms else []) (quorum_groups cs))"

definition completion_summary :: "child_view list \<Rightarrow> completion" where
  "completion_summary cs =
    (let required = mode_children ModeRequired cs; best_effort = active_ids (mode_children ModeBestEffort cs)
     in \<lparr>cs_satisfied = satisfied cs, cs_impossible = impossible cs,
         cs_total = length required, cs_completed = count_where child_succeeded required,
         cs_failed = required_failed cs, cs_active = length (active_ids required),
         cs_groups = map fst (quorum_groups cs), cs_best_effort = length best_effort,
         cs_wait_for = (if impossible cs then [] else unique_ids (active_ids required @ quorum_waiting cs)),
         cs_cancel = unique_ids (if impossible cs then active_ids cs else best_effort @ quorum_cancel cs)\<rparr>)"

subsection \<open>The coordination loop (runs/settlement.py)\<close>

datatype verdict_kind = KeepOutcome | RequiredChildLost | NoContinuation

record coordination_result =
  cr_verdict :: verdict_kind
  cr_summary :: completion
  cr_reads :: nat
  cr_canceled :: "id list list"

text \<open>
  \<open>obs n\<close> is what the \<open>n\<close>-th read of the children returns. Each cancellation waits until the
  canceled runs are over, each status wait until one of those waited for has changed, and both
  are followed by a new read. The fuel bounds the turns of the \<open>while True\<close>.
\<close>

fun coordinate :: "(nat \<Rightarrow> child_view list) \<Rightarrow> nat \<Rightarrow> nat \<Rightarrow> id list list \<Rightarrow> coordination_result option" where
  "coordinate obs 0 n canceled = None"
| "coordinate obs (Suc fuel) n canceled =
    (let first = completion_summary (obs n);
         n1 = (if cs_cancel first = [] then n else Suc n);
         canceled1 = (if cs_cancel first = [] then canceled else canceled @ [cs_cancel first]);
         summary = completion_summary (obs n1)
     in if cs_impossible summary then
          (let active = active_ids (obs n1); n2 = (if active = [] then n1 else Suc n1)
           in Some \<lparr>cr_verdict = RequiredChildLost, cr_summary = completion_summary (obs n2), cr_reads = n2,
                    cr_canceled = (if active = [] then canceled1 else canceled1 @ [active])\<rparr>)
        else if cs_satisfied summary then
          Some \<lparr>cr_verdict = KeepOutcome, cr_summary = summary, cr_reads = n1, cr_canceled = canceled1\<rparr>
        else if cs_wait_for summary = [] then
          Some \<lparr>cr_verdict = NoContinuation, cr_summary = summary, cr_reads = n1, cr_canceled = canceled1\<rparr>
        else coordinate obs fuel (Suc n1) canceled1)"

datatype outcome_status = OutCompleted | OutFailed | OutCanceled | OutSuspended run_status

record run_outcome =
  ro_status :: outcome_status
  ro_event :: string
  ro_payload :: dict

definition failed_outcome :: "string \<Rightarrow> string \<Rightarrow> run_outcome" where
  "failed_outcome message type_name =
     \<lparr>ro_status = OutFailed, ro_event = ''run.failed'',
      ro_payload = run_failed_payload [] (PlainFailure message type_name None None)\<rparr>"

definition settle_child_coordination ::
    "(nat \<Rightarrow> child_view list) \<Rightarrow> nat \<Rightarrow> run_outcome \<Rightarrow> (run_outcome \<times> completion \<times> nat) option" where
  "settle_child_coordination obs fuel out =
    (case ro_status out of
       OutSuspended _ \<Rightarrow> Some (out, completion_summary (obs 0), 0)
     | OutCompleted \<Rightarrow>
        if obs 0 = [] then Some (out, completion_summary (obs 0), 0)
        else (case coordinate obs fuel 0 [] of
                None \<Rightarrow> None
              | Some r \<Rightarrow> Some (case cr_verdict r of
                    KeepOutcome \<Rightarrow> out
                  | RequiredChildLost \<Rightarrow> failed_outcome ''Required child work failed or could not satisfy its quorum.'' ''ChildCoordinationError''
                  | NoContinuation \<Rightarrow> failed_outcome ''Child completion policy has no satisfiable continuation.'' ''ChildCoordinationError'',
                  cr_summary r, cr_reads r))
     | _ \<Rightarrow>
        (let n = (if active_ids (obs 0) = [] then 0 else 1)
         in Some (out, completion_summary (obs n), n)))"

subsection \<open>The snapshot of a collaboration (projection.py)\<close>

record root_view =
  rv_run :: run_row
  rv_result :: "string option"
  rv_error :: json
  rv_error_type :: json
  rv_retryable :: json
  rv_in :: int
  rv_out :: int
  rv_calls :: int

definition root_view_of :: "db \<Rightarrow> run_row \<Rightarrow> root_view" where
  "root_view_of d r =
    (let p = last_result_payload (r_id r) d
     in \<lparr>rv_run = r, rv_result = completed_text r d, rv_error = dget p ''error'', rv_error_type = dget p ''type'',
         rv_retryable = dget p ''retryable'', rv_in = count_field p ''input_tokens'',
         rv_out = count_field p ''output_tokens'', rv_calls = count_field p ''model_calls''\<rparr>)"

record collaboration_view =
  cv_captured :: time
  cv_root :: root_view
  cv_children :: "child_view list"
  cv_messages :: "message_row list"
  cv_waits :: "wait_row list"
  cv_owners :: "(string \<times> id \<times> time) list"
  cv_dependencies :: "(id \<times> id) list"
  cv_artifacts :: "artifact_row list"
  cv_marks :: "(id \<times> nat) list"
  cv_completion :: completion

definition high_watermark :: "id \<Rightarrow> db \<Rightarrow> nat" where
  "high_watermark run d = fold max (map e_seq (filter (\<lambda>e. e_run e = run) (db_events d))) 0"

text \<open>
  Every part is read in one transaction, so from one database; \<open>completion\<close> is what
  runs/collaboration.py adds.
\<close>

definition collaboration_snapshot :: "ctx \<Rightarrow> id \<Rightarrow> db \<Rightarrow> collaboration_view res" where
  "collaboration_snapshot c root_run d =
    (case get_run_row d root_run of
       None \<Rightarrow> Inl PyKeyError
     | Some r \<Rightarrow>
        if opt_or (r_root r) (r_id r) \<noteq> root_run then Inl (RunAdmissionError ''collaboration_root_required'')
        else
         (let children = list_child_runs_for_run root_run d; ids = root_run # map v_id children
          in Inr \<lparr>cv_captured = x_clock c 1, cv_root = root_view_of d r, cv_children = children,
              cv_messages = select_by (\<lambda>m. (m_created m, m_id m)) (\<lambda>m. m_root m = root_run) (db_messages d),
              cv_waits = select_by (\<lambda>w. (w_created w, w_id w)) (\<lambda>w. w_run w \<in> set ids \<and> w_status w = ''pending'') (db_waits d),
              cv_owners = map (\<lambda>x. (cl_key x, cl_owner x, cl_created x))
                (select_by (\<lambda>x. (cl_key x, cl_owner x)) (\<lambda>x. cl_root x = root_run) (db_claims d)),
              cv_dependencies = map (\<lambda>x. (dp_child x, dp_on x))
                (select_by (\<lambda>x. (dp_child x, dp_on x)) (\<lambda>x. dp_child x \<in> set ids) (db_deps d)),
              cv_artifacts = select_by (\<lambda>a. (a_created a, a_id a)) (\<lambda>a. a_run a \<in> set ids) (db_artifacts d),
              cv_marks = map (\<lambda>i. (i, high_watermark i d)) (unique_ids ids),
              cv_completion = completion_summary children\<rparr>))"

text \<open>\<open>_spawn_child_run\<close>: the admission, then the view of the child as it was read back.\<close>

definition spawn_child_run ::
    "ctx \<Rightarrow> (string \<Rightarrow> string list) \<Rightarrow> id \<Rightarrow> id \<Rightarrow> string \<Rightarrow> dict \<Rightarrow> dict \<Rightarrow> dict option \<Rightarrow> db \<Rightarrow> (child_view \<times> db) res" where
  "spawn_child_run c resolve parent oper goal agent coord policy d =
    bindr (accept_child_run c resolve parent oper goal agent (Some coord) policy d) (\<lambda>((r, _), d1).
    bindr (child_runs_for_parent parent [r_id r] d1) (\<lambda>vs.
    case vs of [] \<Rightarrow> Inl PyKeyError | v # _ \<Rightarrow> Inr (v, d1)))"

subsection \<open>The result of an execution\<close>

definition assistant_ref :: "draft_row option \<Rightarrow> json" where
  "assistant_ref a = (case a of None \<Rightarrow> JNull
     | Some x \<Rightarrow> JObj [(''message_key'', JStr (d_key x)), (''revision'', JInt (int (d_revision x)))])"

definition status_count :: "string \<Rightarrow> (string \<times> nat) list \<Rightarrow> nat" where
  "status_count s xs = (case map_of xs s of None \<Rightarrow> 0 | Some n \<Rightarrow> n)"

definition any_status :: "string list \<Rightarrow> (string \<times> nat) list \<Rightarrow> bool" where
  "any_status ss xs = list_ex (\<lambda>s. status_count s xs \<noteq> 0) ss"

definition draft_violations :: "draft_row option \<Rightarrow> string list" where
  "draft_violations a =
    (case a of
       None \<Rightarrow> [''final assistant draft is missing'']
     | Some x \<Rightarrow>
        if py_strip (d_content x) = [] then [''final assistant draft is missing'']
        else if truthy (d_calls x) then [''final assistant draft still contains tool calls''] else [])"

definition settlement_violations :: "settlement_snapshot \<Rightarrow> outcome_status \<Rightarrow> string list" where
  "settlement_violations s status =
    (if any_status [''reserved'', ''streaming''] (ss_models s) then [''model calls are still active''] else []) @
    (if any_status [''running''] (ss_tools s) then [''tool calls are still active''] else []) @
    (if status \<noteq> OutCompleted then [] else
       draft_violations (ss_assistant s) @
       (if any_status [''prepared'', ''paused'', ''outcome_unknown''] (ss_tools s)
        then [''completed run has unsettled tool receipts''] else []) @
       (if any_status [''outcome_unknown''] (ss_models s)
        then [''completed run has unknown model outcomes''] else []))"

definition usage_fields :: "usage \<Rightarrow> dict" where
  "usage_fields u =
     [(''input_tokens'', JInt (int (u_in u))), (''output_tokens'', JInt (int (u_out u))),
      (''unmetered_calls'', JInt (int (u_unmetered u))), (''outcome_unknown_calls'', JInt (int (u_unknown u))),
      (''model_calls'', JInt (int (u_calls u)))]"

definition statuses_json :: "(string \<times> nat) list \<Rightarrow> json" where
  "statuses_json xs = JObj (map (\<lambda>(s, n). (s, JInt (int n))) xs)"

definition ids_json :: "id list \<Rightarrow> json" where
  "ids_json xs = JList (map JStr xs)"

definition group_json :: "group_summary \<Rightarrow> json" where
  "group_json g = JObj
     [(''group'', JStr (gs_group g)), (''required'', JInt (gs_required g)),
      (''completed'', JInt (int (gs_completed g))), (''active'', JInt (int (gs_active g))),
      (''failed'', JInt (int (gs_failed g))), (''satisfied'', JBool (gs_satisfied g)),
      (''impossible'', JBool (gs_impossible g))]"

definition completion_json :: "completion \<Rightarrow> json" where
  "completion_json c = JObj
     [(''satisfied'', JBool (cs_satisfied c)), (''impossible'', JBool (cs_impossible c)),
      (''required'', JObj [(''total'', JInt (int (cs_total c))), (''completed'', JInt (int (cs_completed c))),
         (''failed'', ids_json (cs_failed c)), (''active'', JInt (int (cs_active c)))]),
      (''quorum_groups'', JList (map group_json (cs_groups c))),
      (''best_effort_active'', JInt (int (cs_best_effort c))),
      (''wait_for'', ids_json (cs_wait_for c)), (''cancel'', ids_json (cs_cancel c))]"

definition artifacts_json :: "settlement_snapshot \<Rightarrow> json" where
  "artifacts_json s = JObj
     [(''count'', JInt (int (ss_artifact_count s))),
      (''items'', JList (map (\<lambda>(i, kind, content_type, n). JObj [(''id'', JStr i), (''kind'', JStr kind),
         (''content_type'', JStr content_type), (''bytes'', JInt (int n))]) (ss_artifacts s))),
      (''truncated'', JBool (ss_truncated s))]"

definition verification_json :: "settlement_snapshot \<Rightarrow> json" where
  "verification_json s = (case ss_verification s of None \<Rightarrow> JNull
     | Some (oper, status, hash) \<Rightarrow> JObj [(''operation_id'', JStr oper),
         (''status'', JStr (receipt_status_text status)), (''result_hash'', json_opt hash)])"

definition execution_json :: "id \<Rightarrow> string \<Rightarrow> run_row option \<Rightarrow> settlement_snapshot \<Rightarrow> completion \<Rightarrow> dict \<Rightarrow> json" where
  "execution_json attempt lease run s c cleanup = JObj
     [(''attempt_id'', JStr attempt), (''lease'', JStr lease),
      (''checkpoint_id'', (case run of None \<Rightarrow> JNull | Some r \<Rightarrow> json_opt (r_checkpoint r))),
      (''assistant'', assistant_ref (ss_assistant s)),
      (''model_calls'', JObj ((''statuses'', statuses_json (ss_models s)) # usage_fields (ss_usage s))),
      (''tool_receipts'', JObj [(''statuses'', statuses_json (ss_tools s))]),
      (''artifacts'', artifacts_json s), (''verification'', verification_json s),
      (''collaboration'', completion_json c), (''cleanup'', JObj cleanup)]"

text \<open>
  \<open>dbs n\<close> is the database at the \<open>n\<close>-th read of the settlement: the reads of the children, then
  the snapshot, then the run.
\<close>

definition settle_execution_outcome ::
    "(nat \<Rightarrow> db) \<Rightarrow> nat \<Rightarrow> id \<Rightarrow> id \<Rightarrow> run_outcome \<Rightarrow> dict \<Rightarrow> string \<Rightarrow> run_outcome option" where
  "settle_execution_outcome dbs fuel run attempt out cleanup lease =
    (case settle_child_coordination (\<lambda>n. list_child_runs_for_run run (dbs n)) fuel out of
       None \<Rightarrow> None
     | Some (out1, collaboration, n) \<Rightarrow>
        (let s = execution_settlement_snapshot run (dbs (n + 1));
             violations = settlement_violations s (ro_status out1);
             out2 = (if violations = [] then out1
                     else failed_outcome (join_with ''; '' violations) ''ExecutionSettlementError'');
             payload = dset ''execution''
               (execution_json attempt lease (get_run_row (dbs (n + 2)) run) s collaboration cleanup) (ro_payload out2)
         in Some (out2\<lparr>ro_payload :=
              (case (ro_status out2, ss_assistant s) of
                 (OutCompleted, Some a) \<Rightarrow>
                   dmerge payload ([(''final_text'', JStr (d_content a)), (''final_answer_ref'', assistant_ref (Some a))] @
                     usage_fields (ss_usage s))
               | _ \<Rightarrow> payload)\<rparr>)))"

subsection \<open>The policy, declaratively\<close>

definition policy_met :: "child_view list \<Rightarrow> bool" where
  "policy_met cs \<longleftrightarrow>
    (\<forall>c\<in>set cs. v_mode c = ModeRequired \<longrightarrow> child_succeeded c) \<and>
    (\<forall>c\<in>set cs. v_mode c = ModeQuorum \<longrightarrow>
       0 < required_of c \<and>
       (\<forall>x\<in>set (group_members cs (group_key c)). required_of x = required_of c) \<and>
       required_of c \<le> int (length (filter child_succeeded (group_members cs (group_key c)))))"

text \<open>What a later read of the same children keeps: who they are, and that a child that ended has ended.\<close>

definition child_kept :: "child_view \<Rightarrow> child_view \<Rightarrow> bool" where
  "child_kept c c' \<longleftrightarrow> v_id c' = v_id c \<and> v_mode c' = v_mode c \<and> v_group c' = v_group c \<and>
     v_required c' = v_required c \<and> (child_succeeded c \<longrightarrow> child_succeeded c') \<and> (child_lost c \<longrightarrow> child_lost c')"

lemma succeeded_done: "child_succeeded c \<Longrightarrow> child_done c"
  by (simp add: child_succeeded_def child_done_def)

lemma done_cases: "child_done c \<longleftrightarrow> child_succeeded c \<or> child_lost c"
  using succeeded_done by (auto simp: child_lost_def)

lemma agreed_count_pos: "0 < agreed_count ms \<Longrightarrow> x \<in> set ms \<Longrightarrow> required_of x = agreed_count ms"
proof -
  assume a: "0 < agreed_count ms" "x \<in> set ms"
  obtain n where r: "remdups (map required_of ms) = [n]" "agreed_count ms = n"
    using a(1) by (auto simp: agreed_count_def split: list.splits)
  have "required_of x \<in> set (remdups (map required_of ms))" using a(2) by simp
  then show ?thesis using r by simp
qed

lemma agreed_count_all:
  assumes "ms \<noteq> []" "\<And>x. x \<in> set ms \<Longrightarrow> required_of x = n"
  shows "agreed_count ms = n"
proof -
  have "set (remdups (map required_of ms)) = {n}" using assms by (cases ms) force+
  moreover from this have "length (remdups (map required_of ms)) = 1"
    by (metis One_nat_def card.empty card.insert distinct_card distinct_remdups empty_iff finite.emptyI)
  ultimately have "remdups (map required_of ms) = [n]"
    by (metis length_0_conv length_Suc_conv list.set_intros(1) One_nat_def singletonD)
  then show ?thesis by (simp add: agreed_count_def)
qed

lemma lost_or_not: "child_lost c \<longleftrightarrow> child_done c \<and> \<not> child_succeeded c"
  by (simp add: child_lost_def)

lemma counts_partition:
  "count_where child_succeeded ms + count_where (\<lambda>c. \<not> child_done c) ms + count_where child_lost ms = length ms"
  by (induction ms) (auto simp: count_where_def lost_or_not dest: succeeded_done)

lemma quorum_group_in:
  "(s, ms) \<in> set (quorum_groups cs) \<longleftrightarrow>
    (\<exists>c\<in>set cs. v_mode c = ModeQuorum \<and> ms = group_members cs (group_key c) \<and> s = summarize_group (group_key c) ms)"
  by (auto simp: quorum_groups_def mode_children_def)

lemma in_group_members: "x \<in> set (group_members cs g) \<longleftrightarrow> x \<in> set cs \<and> v_mode x = ModeQuorum \<and> group_key x = g"
  by (auto simp: group_members_def mode_children_def)

lemma group_settled_no_active:
  assumes "\<not> group_settled (summarize_group g ms)"
  shows "active_ids ms \<noteq> []"
  using assms counts_partition [of ms]
  by (auto simp: group_settled_def summarize_group_def Let_def active_ids_def count_where_def)

lemma group_not_both: "gs_satisfied (summarize_group g ms) \<Longrightarrow> \<not> gs_impossible (summarize_group g ms)"
  using counts_partition [of ms] by (auto simp: summarize_group_def Let_def)

text \<open>The code's summary says \<open>satisfied\<close> exactly when the policy is met.\<close>

lemma group_satisfied_iff:
  assumes "c \<in> set ms"
  shows "gs_satisfied (summarize_group g ms) \<longleftrightarrow>
    0 < required_of c \<and> (\<forall>x\<in>set ms. required_of x = required_of c) \<and>
    required_of c \<le> int (length (filter child_succeeded ms))"
proof
  assume s: "gs_satisfied (summarize_group g ms)"
  then have p: "0 < agreed_count ms" by (simp add: summarize_group_def Let_def)
  have "required_of x = agreed_count ms" if "x \<in> set ms" for x using agreed_count_pos [OF p that] .
  then show "0 < required_of c \<and> (\<forall>x\<in>set ms. required_of x = required_of c) \<and>
      required_of c \<le> int (length (filter child_succeeded ms))"
    using s p assms by (simp add: summarize_group_def Let_def count_where_def)
next
  assume a: "0 < required_of c \<and> (\<forall>x\<in>set ms. required_of x = required_of c) \<and>
    required_of c \<le> int (length (filter child_succeeded ms))"
  have "agreed_count ms = required_of c"
  proof (rule agreed_count_all)
    show "ms \<noteq> []" using assms by auto
    show "required_of x = required_of c" if "x \<in> set ms" for x using a that by blast
  qed
  then show "gs_satisfied (summarize_group g ms)" using a by (simp add: summarize_group_def Let_def count_where_def)
qed

lemma required_failed_Nil_iff:
  "required_failed cs = [] \<longleftrightarrow> (\<forall>c\<in>set cs. v_mode c = ModeRequired \<longrightarrow> \<not> child_lost c)"
  by (auto simp: required_failed_def mode_children_def filter_empty_conv)

lemma active_required_Nil_iff:
  "active_ids (mode_children m cs) = [] \<longleftrightarrow> (\<forall>c\<in>set cs. v_mode c = m \<longrightarrow> child_done c)"
  by (auto simp: active_ids_def mode_children_def filter_empty_conv)

lemma quorum_groups_satisfied_iff:
  "list_all (\<lambda>(s, _). gs_satisfied s) (quorum_groups cs) \<longleftrightarrow>
    (\<forall>c\<in>set cs. v_mode c = ModeQuorum \<longrightarrow> gs_satisfied (summarize_group (group_key c) (group_members cs (group_key c))))"
  by (fastforce simp: list_all_iff quorum_group_in)

lemma satisfied_iff_policy: "satisfied cs \<longleftrightarrow> policy_met cs"
proof -
  have "\<not> impossible cs"
    if "required_failed cs = []" "list_all (\<lambda>(s, _). gs_satisfied s) (quorum_groups cs)"
    using that group_not_both by (fastforce simp: impossible_def list_ex_iff list_all_iff quorum_group_in)
  then have "satisfied cs \<longleftrightarrow> required_failed cs = [] \<and> active_ids (mode_children ModeRequired cs) = [] \<and>
      list_all (\<lambda>(s, _). gs_satisfied s) (quorum_groups cs)" by (auto simp: satisfied_def)
  also have "\<dots> \<longleftrightarrow> (\<forall>c\<in>set cs. v_mode c = ModeRequired \<longrightarrow> child_succeeded c) \<and>
      list_all (\<lambda>(s, _). gs_satisfied s) (quorum_groups cs)"
    unfolding required_failed_Nil_iff active_required_Nil_iff using succeeded_done by (auto simp: lost_or_not)
  also have "\<dots> \<longleftrightarrow> policy_met cs"
  proof -
    have "gs_satisfied (summarize_group (group_key c) (group_members cs (group_key c))) \<longleftrightarrow>
        0 < required_of c \<and> (\<forall>x\<in>set (group_members cs (group_key c)). required_of x = required_of c) \<and>
        required_of c \<le> int (length (filter child_succeeded (group_members cs (group_key c))))"
      if "c \<in> set cs" "v_mode c = ModeQuorum" for c
      by (rule group_satisfied_iff) (use that in \<open>simp add: in_group_members\<close>)
    then show ?thesis unfolding quorum_groups_satisfied_iff policy_met_def by blast
  qed
  finally show ?thesis .
qed

lemma satisfied_not_impossible: "satisfied cs \<Longrightarrow> \<not> impossible cs"
  by (simp add: satisfied_def)

lemma unique_ids_Nil [simp]: "unique_ids xs = [] \<longleftrightarrow> xs = []"
  by (simp add: unique_ids_def)

lemma set_unique_ids [simp]: "set (unique_ids xs) = set xs"
  by (simp add: unique_ids_def)

text \<open>Nothing is waited for exactly when the policy has decided.\<close>

lemma wait_for_Nil_iff: "cs_wait_for (completion_summary cs) = [] \<longleftrightarrow> satisfied cs \<or> impossible cs"
proof (cases "impossible cs")
  case True
  then show ?thesis by (simp add: completion_summary_def Let_def)
next
  case False
  have "quorum_waiting cs = [] \<longleftrightarrow> list_all (\<lambda>(s, _). gs_satisfied s) (quorum_groups cs)"
  proof -
    have "(if group_settled s then [] else active_ids ms) = [] \<longleftrightarrow> gs_satisfied s"
      if m: "(s, ms) \<in> set (quorum_groups cs)" for s ms
    proof -
      have "\<not> gs_impossible s" using m False by (auto simp: impossible_def list_ex_iff)
      moreover have "\<not> group_settled s \<Longrightarrow> active_ids ms \<noteq> []"
        using m group_settled_no_active by (auto simp: quorum_group_in)
      ultimately show ?thesis by (auto simp: group_settled_def)
    qed
    then show ?thesis by (fastforce simp: quorum_waiting_def list_all_iff)
  qed
  then show ?thesis
    using False by (auto simp: completion_summary_def Let_def satisfied_def impossible_def)
qed

lemma waits_for_active: "i \<in> set (cs_wait_for (completion_summary cs)) \<Longrightarrow> i \<in> set (active_ids cs)"
  by (auto simp: completion_summary_def Let_def quorum_waiting_def quorum_group_in active_ids_def mode_children_def
      in_group_members split: if_splits)

lemma cancels_active: "i \<in> set (cs_cancel (completion_summary cs)) \<Longrightarrow> i \<in> set (active_ids cs)"
  by (auto simp: completion_summary_def Let_def quorum_cancel_def quorum_group_in active_ids_def mode_children_def
      in_group_members split: if_splits)

subsection \<open>Verdicts are final\<close>

lemma list_all2_filter:
  assumes "list_all2 P xs ys" "\<And>x y. P x y \<Longrightarrow> p x \<longleftrightarrow> q y"
  shows "list_all2 P (filter p xs) (filter q ys)"
  using assms by (induction rule: list_all2_induct) auto

lemma count_where_mono2:
  assumes "list_all2 P xs ys" "\<And>x y. P x y \<Longrightarrow> p x \<Longrightarrow> q y"
  shows "count_where p xs \<le> count_where q ys"
  using assms by (induction rule: list_all2_induct) (auto simp: count_where_def)

lemma kept_members: "list_all2 child_kept cs cs' \<Longrightarrow> list_all2 child_kept (group_members cs g) (group_members cs' g)"
  unfolding group_members_def mode_children_def
  by (intro list_all2_filter) (auto simp: child_kept_def group_key_def)

lemma kept_agreed: "list_all2 child_kept ms ms' \<Longrightarrow> agreed_count ms' = agreed_count ms"
proof -
  assume "list_all2 child_kept ms ms'"
  then have "map required_of ms' = map required_of ms"
    by (induction rule: list_all2_induct) (auto simp: child_kept_def required_of_def)
  then show ?thesis by (simp add: agreed_count_def)
qed

lemma kept_group:
  assumes "list_all2 child_kept ms ms'"
  shows "gs_satisfied (summarize_group g ms) \<Longrightarrow> gs_satisfied (summarize_group g ms')"
    and "gs_impossible (summarize_group g ms) \<Longrightarrow> gs_impossible (summarize_group g ms')"
proof -
  have c: "count_where child_succeeded ms \<le> count_where child_succeeded ms'"
    and l: "count_where child_lost ms \<le> count_where child_lost ms'"
    by (rule count_where_mono2 [OF assms]; simp add: child_kept_def)+
  show "gs_satisfied (summarize_group g ms) \<Longrightarrow> gs_satisfied (summarize_group g ms')"
    using c kept_agreed [OF assms] by (auto simp: summarize_group_def Let_def)
  show "gs_impossible (summarize_group g ms) \<Longrightarrow> gs_impossible (summarize_group g ms')"
    using l kept_agreed [OF assms] list_all2_lengthD [OF assms] counts_partition [of ms] counts_partition [of ms']
    by (auto simp: summarize_group_def Let_def)
qed

lemma kept_later:
  assumes "list_all2 child_kept cs cs'" "c \<in> set cs"
  obtains c' where "c' \<in> set cs'" "child_kept c c'"
  using assms by (metis in_set_conv_nth list_all2_conv_all_nth)

lemma kept_earlier:
  assumes "list_all2 child_kept cs cs'" "c' \<in> set cs'"
  obtains c where "c \<in> set cs" "child_kept c c'"
  using assms by (force simp: list_all2_conv_all_nth in_set_conv_nth)

lemma kept_group_key: "child_kept c c' \<Longrightarrow> group_key c' = group_key c \<and> v_mode c' = v_mode c"
  by (simp add: child_kept_def group_key_def)

lemma satisfied_stays:
  assumes "list_all2 child_kept cs cs'" "satisfied cs"
  shows "satisfied cs'"
proof -
  have req: "child_succeeded c'" if c': "c' \<in> set cs'" "v_mode c' = ModeRequired" for c'
  proof -
    obtain c where c: "c \<in> set cs" "child_kept c c'" using kept_earlier [OF assms(1) c'(1)] .
    then have "child_succeeded c"
      using assms(2) c'(2) by (auto simp: satisfied_iff_policy policy_met_def child_kept_def)
    then show ?thesis using c(2) by (simp add: child_kept_def)
  qed
  have quo: "gs_satisfied (summarize_group (group_key c') (group_members cs' (group_key c')))"
    if c': "c' \<in> set cs'" "v_mode c' = ModeQuorum" for c'
  proof -
    obtain c where c: "c \<in> set cs" "child_kept c c'" using kept_earlier [OF assms(1) c'(1)] .
    then have "gs_satisfied (summarize_group (group_key c) (group_members cs (group_key c)))"
      using assms(2) c'(2) by (auto simp: satisfied_def quorum_groups_satisfied_iff child_kept_def)
    then show ?thesis
      using kept_group(1) [OF kept_members [OF assms(1)]] kept_group_key [OF c(2)] by simp
  qed
  have "required_of c' > 0 \<and> (\<forall>x\<in>set (group_members cs' (group_key c')). required_of x = required_of c') \<and>
      required_of c' \<le> int (length (filter child_succeeded (group_members cs' (group_key c'))))"
    if c': "c' \<in> set cs'" "v_mode c' = ModeQuorum" for c'
  proof -
    have "c' \<in> set (group_members cs' (group_key c'))" using c' by (simp add: in_group_members)
    then show ?thesis using group_satisfied_iff quo [OF c'] by blast
  qed
  then show ?thesis using req by (simp add: satisfied_iff_policy policy_met_def)
qed

lemma impossible_stays:
  assumes "list_all2 child_kept cs cs'" "impossible cs"
  shows "impossible cs'"
proof (cases "required_failed cs = []")
  case False
  then obtain c where c: "c \<in> set cs" "v_mode c = ModeRequired" "child_lost c"
    by (auto simp: required_failed_Nil_iff)
  obtain c' where "c' \<in> set cs'" "child_kept c c'" using kept_later [OF assms(1) c(1)] .
  then have "required_failed cs' \<noteq> []" using c by (auto simp: required_failed_Nil_iff child_kept_def)
  then show ?thesis by (simp add: impossible_def)
next
  case True
  then obtain c where c: "c \<in> set cs" "v_mode c = ModeQuorum"
    "gs_impossible (summarize_group (group_key c) (group_members cs (group_key c)))"
    using assms(2) by (auto simp: impossible_def list_ex_iff quorum_group_in)
  obtain c' where c': "c' \<in> set cs'" "child_kept c c'" using kept_later [OF assms(1) c(1)] .
  have "gs_impossible (summarize_group (group_key c') (group_members cs' (group_key c')))"
    using kept_group(2) [OF kept_members [OF assms(1)] c(3)] kept_group_key [OF c'(2)] by simp
  moreover have "v_mode c' = ModeQuorum" using kept_group_key [OF c'(2)] c(2) by simp
  ultimately show ?thesis using c'(1) by (fastforce simp: impossible_def list_ex_iff quorum_group_in)
qed

lemma stays_forever:
  assumes "\<And>n. list_all2 child_kept (obs n) (obs (Suc n))" "m \<le> n"
    and "\<And>cs cs'. list_all2 child_kept cs cs' \<Longrightarrow> P cs \<Longrightarrow> P cs'" "P (obs m)"
  shows "P (obs n)"
  using assms(2,4) by (induction n rule: dec_induct) (use assms(1,3) in blast)+

subsection \<open>The loop\<close>

lemma done_no_active: "list_all child_done cs \<longleftrightarrow> active_ids cs = []"
  by (auto simp: active_ids_def list_all_iff filter_empty_conv)

lemma done_decided: "list_all child_done cs \<Longrightarrow> satisfied cs \<or> impossible cs"
  using waits_for_active [of _ cs] wait_for_Nil_iff [of cs]
  by (cases "cs_wait_for (completion_summary cs)") (auto simp: done_no_active)

lemma done_no_cancel: "list_all child_done cs \<Longrightarrow> cs_cancel (completion_summary cs) = []"
  using cancels_active [of _ cs] by (cases "cs_cancel (completion_summary cs)") (auto simp: done_no_active)

lemma summary_flags [simp]:
  "cs_satisfied (completion_summary cs) = satisfied cs" "cs_impossible (completion_summary cs) = impossible cs"
  by (simp_all add: completion_summary_def Let_def)

text \<open>The read a turn of the loop decides on.\<close>

definition turn_read :: "(nat \<Rightarrow> child_view list) \<Rightarrow> nat \<Rightarrow> nat" where
  "turn_read obs n = (if cs_cancel (completion_summary (obs n)) = [] then n else Suc n)"

definition turn_canceled :: "(nat \<Rightarrow> child_view list) \<Rightarrow> nat \<Rightarrow> id list list \<Rightarrow> id list list" where
  "turn_canceled obs n canceled =
    (let c = cs_cancel (completion_summary (obs n)) in if c = [] then canceled else canceled @ [c])"

lemma coordinate_turn:
  "coordinate obs (Suc fuel) n canceled =
    (let n1 = turn_read obs n; canceled1 = turn_canceled obs n canceled; active = active_ids (obs n1);
         n2 = (if active = [] then n1 else Suc n1)
     in if impossible (obs n1) then
          Some \<lparr>cr_verdict = RequiredChildLost, cr_summary = completion_summary (obs n2), cr_reads = n2,
                cr_canceled = (if active = [] then canceled1 else canceled1 @ [active])\<rparr>
        else if satisfied (obs n1) then
          Some \<lparr>cr_verdict = KeepOutcome, cr_summary = completion_summary (obs n1), cr_reads = n1, cr_canceled = canceled1\<rparr>
        else coordinate obs fuel (Suc n1) canceled1)"
  using wait_for_Nil_iff [of "obs (turn_read obs n)"]
  by (simp add: Let_def turn_read_def turn_canceled_def)

declare coordinate.simps(2) [simp del]

lemma coordinate_ends:
  assumes "\<And>n. N \<le> n \<Longrightarrow> list_all child_done (obs n)" "n \<le> N" "N - n < fuel"
  shows "\<exists>r. coordinate obs fuel n canceled = Some r \<and> cr_reads r \<le> N \<and> cr_verdict r \<noteq> NoContinuation \<and>
    (if cr_verdict r = KeepOutcome then satisfied (obs (cr_reads r)) else \<exists>k\<le>N. impossible (obs k))"
  using assms(2,3)
proof (induction fuel arbitrary: n canceled)
  case 0
  then show ?case by simp
next
  case (Suc fuel)
  let ?n1 = "turn_read obs n"
  have le: "?n1 \<le> N" "n \<le> ?n1"
    using Suc.prems(1) done_no_cancel [OF assms(1), of N] by (cases "n = N"; simp add: turn_read_def)+
  have step: "active_ids (obs ?n1) \<noteq> [] \<Longrightarrow> ?n1 < N"
    using assms(1) [of ?n1] le(1) by (cases "?n1 = N") (auto simp: done_no_active)
  consider "impossible (obs ?n1)" | "\<not> impossible (obs ?n1)" "satisfied (obs ?n1)"
    | "\<not> impossible (obs ?n1)" "\<not> satisfied (obs ?n1)" by blast
  then show ?case
  proof cases
    case 1
    then show ?thesis using le step by (auto simp: coordinate_turn Let_def)
  next
    case 2
    then show ?thesis using le by (auto simp: coordinate_turn Let_def)
  next
    case 3
    then have "active_ids (obs ?n1) \<noteq> []" using done_decided [of "obs ?n1"] by (auto simp: done_no_active)
    then have "Suc ?n1 \<le> N" "N - Suc ?n1 < fuel" using step le(2) Suc.prems by auto
    then show ?thesis using 3 Suc.IH by (simp add: coordinate_turn Let_def)
  qed
qed

text \<open>While the policy can still be met only children it does not need are canceled.\<close>

definition spare :: "(nat \<Rightarrow> child_view list) \<Rightarrow> id list list \<Rightarrow> bool" where
  "spare obs canceled \<longleftrightarrow> (\<forall>i\<in>set (concat canceled). \<exists>k. \<exists>c\<in>set (obs k). v_id c = i \<and> v_mode c \<noteq> ModeRequired)"

lemma cancel_spares:
  assumes "\<not> impossible cs" "i \<in> set (cs_cancel (completion_summary cs))"
  shows "\<exists>c\<in>set cs. v_id c = i \<and> v_mode c \<noteq> ModeRequired"
  using assms
  by (auto simp: completion_summary_def Let_def quorum_cancel_def quorum_group_in active_ids_def mode_children_def
      in_group_members split: if_splits; force)

lemma coordinate_spares:
  assumes "\<And>n. list_all2 child_kept (obs n) (obs (Suc n))"
    and "coordinate obs fuel n canceled = Some r" "cr_verdict r = KeepOutcome" "spare obs canceled"
  shows "spare obs (cr_canceled r)"
  using assms(2-4)
proof (induction fuel arbitrary: n canceled)
  case 0
  then show ?case by simp
next
  case (Suc fuel)
  let ?n1 = "turn_read obs n"
  have ok: "\<not> impossible (obs ?n1)"
    using Suc.prems(1,2) by (auto simp: coordinate_turn Let_def)
  have "\<not> impossible (obs n)"
    using ok impossible_stays [OF assms(1), of n] by (auto simp: turn_read_def split: if_splits)
  then have s: "spare obs (turn_canceled obs n canceled)"
    using Suc.prems(3) cancel_spares [of "obs n"] by (fastforce simp: spare_def turn_canceled_def Let_def)
  show ?case
  proof (cases "satisfied (obs ?n1)")
    case True
    then show ?thesis using Suc.prems(1) ok s by (auto simp: coordinate_turn Let_def)
  next
    case False
    then have "coordinate obs fuel (Suc ?n1) (turn_canceled obs n canceled) = Some r"
      using Suc.prems(1) ok by (simp add: coordinate_turn Let_def)
    then show ?thesis using Suc.IH Suc.prems(2) s by blast
  qed
qed

text \<open>
  Two reads between which a group reaches its quorum while a best-effort child is being
  canceled: the turn acts on the cancel list of the first read only, so the parent completes
  and the last member of the group goes on.
\<close>

definition demo_child :: "id \<Rightarrow> completion_mode \<Rightarrow> run_status \<Rightarrow> child_view" where
  "demo_child i m s = (child_view_of empty_db (blank_run i s))
     \<lparr>v_mode := m, v_group := (if m = ModeQuorum then Some ''g'' else None),
      v_required := (if m = ModeQuorum then Some 1 else None)\<rparr>"

definition demo_reads :: "nat \<Rightarrow> child_view list" where
  "demo_reads n =
    (if n = 0 then [demo_child ''b'' ModeBestEffort RunRunning, demo_child ''m1'' ModeQuorum RunRunning,
                    demo_child ''m2'' ModeQuorum RunRunning]
     else [demo_child ''b'' ModeBestEffort RunCanceled, demo_child ''m1'' ModeQuorum RunCompleted,
           demo_child ''m2'' ModeQuorum (if n = 1 then RunRunning else RunCanceled)])"

lemma parent_completes_before_child:
  "\<exists>r. coordinate demo_reads 3 0 [] = Some r \<and> cr_verdict r = KeepOutcome \<and> cr_canceled r = [[''b'']] \<and>
    active_ids (demo_reads (cr_reads r)) = [''m2''] \<and> cs_cancel (cr_summary r) = [''m2'']"
proof -
  have "case coordinate demo_reads 3 0 [] of None \<Rightarrow> False | Some r \<Rightarrow>
     cr_verdict r = KeepOutcome \<and> cr_canceled r = [[''b'']] \<and>
     active_ids (demo_reads (cr_reads r)) = [''m2''] \<and> cs_cancel (cr_summary r) = [''m2'']"
    by code_simp
  then show ?thesis by (cases "coordinate demo_reads 3 0 []") auto
qed

subsection \<open>The checks on the durable records\<close>

lemma status_count_count_by: "status_count s (count_by k xs) = count_where (\<lambda>x. k x = s) xs"
proof -
  have "map_of (map (\<lambda>s. (s, f s)) ys) s = (if s \<in> set ys then Some (f s) else None)" for f :: "string \<Rightarrow> nat" and ys
    by (induction ys) auto
  moreover have "s \<notin> k ` set xs \<Longrightarrow> count_where (\<lambda>x. k x = s) xs = 0"
    by (auto simp: count_where_def filter_empty_conv)
  ultimately show ?thesis by (auto simp: status_count_def count_by_def)
qed

lemma any_status_count_by: "any_status ss (count_by k xs) \<longleftrightarrow> (\<exists>x\<in>set xs. k x \<in> set ss)"
  by (auto simp: any_status_def list_ex_iff status_count_count_by count_where_def filter_empty_conv)

text \<open>What the records of a run must show before it may settle as completed.\<close>

definition settled_records :: "id \<Rightarrow> db \<Rightarrow> bool" where
  "settled_records run d \<longleftrightarrow>
    (\<forall>c\<in>set (db_calls d). c_run c = run \<longrightarrow> c_status c \<notin> {CallReserved, CallStreaming, CallOutcomeUnknown}) \<and>
    (\<forall>t\<in>set (db_receipts d). t_run t = run \<longrightarrow>
       t_status t \<notin> {ToolRunning, ToolPrepared, ToolPaused, ToolOutcomeUnknown}) \<and>
    (\<exists>a. get_assistant_draft run d = Some a \<and> py_strip (d_content a) \<noteq> [] \<and> \<not> truthy (d_calls a))"

lemma call_text_in:
  "call_status_text s \<in> {''reserved'', ''streaming''} \<longleftrightarrow> s \<in> {CallReserved, CallStreaming}"
  "call_status_text s \<in> {''outcome_unknown''} \<longleftrightarrow> s = CallOutcomeUnknown"
  by (cases s; simp)+

lemma receipt_text_in:
  "receipt_status_text s \<in> {''running''} \<longleftrightarrow> s = ToolRunning"
  "receipt_status_text s \<in> {''prepared'', ''paused'', ''outcome_unknown''} \<longleftrightarrow> s \<in> {ToolPrepared, ToolPaused, ToolOutcomeUnknown}"
  by (cases s; simp)+

lemma draft_violations_Nil_iff:
  "draft_violations a = [] \<longleftrightarrow> (\<exists>x. a = Some x \<and> py_strip (d_content x) \<noteq> [] \<and> \<not> truthy (d_calls x))"
  by (auto simp: draft_violations_def split: option.splits)

lemma no_violations_iff:
  "settlement_violations (execution_settlement_snapshot run d) OutCompleted = [] \<longleftrightarrow> settled_records run d"
proof -
  let ?s = "execution_settlement_snapshot run d"
  have calls: "any_status ss (ss_models ?s) \<longleftrightarrow> (\<exists>x\<in>set (db_calls d). c_run x = run \<and> call_status_text (c_status x) \<in> set ss)" for ss
    by (auto simp: execution_settlement_snapshot_def Let_def any_status_count_by run_calls_def)
  have tools: "any_status ss (ss_tools ?s) \<longleftrightarrow> (\<exists>x\<in>set (db_receipts d). t_run x = run \<and> receipt_status_text (t_status x) \<in> set ss)" for ss
    by (auto simp: execution_settlement_snapshot_def Let_def any_status_count_by)
  have draft: "ss_assistant ?s = get_assistant_draft run d"
    by (simp add: execution_settlement_snapshot_def Let_def)
  have sets: "set [''reserved'', ''streaming''] = {''reserved'', ''streaming''}" "set [''outcome_unknown''] = {''outcome_unknown''}"
    "set [''running''] = {''running''}" "set [''prepared'', ''paused'', ''outcome_unknown''] = {''prepared'', ''paused'', ''outcome_unknown''}"
    by simp_all
  show ?thesis
    unfolding settlement_violations_def calls tools draft sets call_text_in receipt_text_in settled_records_def
    using draft_violations_Nil_iff [of "get_assistant_draft run d"] by auto
qed

lemma failed_outcome_status [simp]:
  "ro_status (failed_outcome m t) = OutFailed" "ro_event (failed_outcome m t) = ''run.failed''"
  by (simp_all add: failed_outcome_def)

lemma coordinate_kept_satisfied:
  "coordinate obs fuel n canceled = Some r \<Longrightarrow> cr_verdict r = KeepOutcome \<Longrightarrow> satisfied (obs (cr_reads r))"
proof (induction fuel arbitrary: n canceled)
  case 0
  then show ?case by simp
next
  case (Suc fuel)
  let ?n1 = "turn_read obs n"
  show ?case
  proof (cases "impossible (obs ?n1) \<or> satisfied (obs ?n1)")
    case True
    then show ?thesis using Suc.prems by (auto simp: coordinate_turn Let_def split: if_splits)
  next
    case False
    then have "coordinate obs fuel (Suc ?n1) (turn_canceled obs n canceled) = Some r"
      using Suc.prems(1) by (simp add: coordinate_turn Let_def)
    then show ?thesis using Suc.IH Suc.prems(2) by blast
  qed
qed

lemma settled_completed:
  assumes "settle_child_coordination obs fuel out = Some (out1, c, n)" "ro_status out1 = OutCompleted"
  shows "out1 = out \<and> policy_met (obs n)"
proof -
  have oc: "ro_status out = OutCompleted"
    using assms by (auto simp: settle_child_coordination_def Let_def split: outcome_status.splits if_splits option.splits verdict_kind.splits)
  show ?thesis
  proof (cases "obs 0 = []")
    case True
    then show ?thesis using assms(1) oc by (auto simp: settle_child_coordination_def policy_met_def)
  next
    case False
    then obtain r where r: "coordinate obs fuel 0 [] = Some r" "n = cr_reads r"
      using assms(1) oc by (auto simp: settle_child_coordination_def split: option.splits)
    have "cr_verdict r = KeepOutcome \<and> out1 = out"
      using assms oc False r(1) by (cases "cr_verdict r") (auto simp: settle_child_coordination_def)
    then show ?thesis using coordinate_kept_satisfied [OF r(1)] r(2) by (simp add: satisfied_iff_policy)
  qed
qed

lemma settled_otherwise:
  assumes "settle_child_coordination obs fuel out = Some (out1, c, n)" "ro_status out = OutCompleted"
  shows "ro_status out1 = OutCompleted \<or> ro_status out1 = OutFailed"
  using assms by (auto simp: settle_child_coordination_def Let_def split: if_splits option.splits verdict_kind.splits)

subsection \<open>Properties\<close>

text \<open>C23: The coordination loop implements the completion policy. When the children end some time
  and an ended child stays ended, the loop ends, without the \<open>no continuation\<close> error, and its
  verdict, taken as early as the states allow, is the one of the declarative policy on the final
  states of the children, whatever they do after it; while it keeps the outcome it never
  canceled a required child.
\<close>

theorem coordination_refines_policy:
  assumes kept: "\<And>n. list_all2 child_kept (obs n) (obs (Suc n))"
    and ends: "\<And>n. N \<le> n \<Longrightarrow> list_all child_done (obs n)"
  shows "\<exists>r. coordinate obs (Suc N) 0 [] = Some r \<and> cr_verdict r \<noteq> NoContinuation \<and>
    (\<forall>n\<ge>N. cr_verdict r = KeepOutcome \<longleftrightarrow> policy_met (obs n)) \<and>
    (cr_verdict r = KeepOutcome \<longrightarrow> spare obs (cr_canceled r))"
proof -
  obtain r where r: "coordinate obs (Suc N) 0 [] = Some r" "cr_reads r \<le> N" "cr_verdict r \<noteq> NoContinuation"
    "if cr_verdict r = KeepOutcome then satisfied (obs (cr_reads r)) else \<exists>k\<le>N. impossible (obs k)"
    using coordinate_ends [where obs = obs and N = N and n = 0 and fuel = "Suc N" and canceled = "[]", OF ends] by auto
  have "cr_verdict r = KeepOutcome \<longleftrightarrow> policy_met (obs n)" if "N \<le> n" for n
  proof (cases "cr_verdict r = KeepOutcome")
    case True
    then have "satisfied (obs n)"
      using stays_forever [where P = satisfied and obs = obs, OF kept, of "cr_reads r" n] satisfied_stays r(2,4) that by auto
    then show ?thesis using True by (simp add: satisfied_iff_policy)
  next
    case False
    then obtain k where k: "k \<le> N" "impossible (obs k)" using r(4) by auto
    then have "impossible (obs n)"
      using stays_forever [where P = impossible and obs = obs, OF kept, of k n] impossible_stays that by auto
    then show ?thesis using False satisfied_not_impossible satisfied_iff_policy by blast
  qed
  then show ?thesis
    using r coordinate_spares [OF kept r(1)] by (auto simp: spare_def)
qed

lemma coordination_refines_policy_witness:
  "(\<exists>r. coordinate demo_reads 3 0 [] = Some r \<and> cr_verdict r = KeepOutcome) \<and> policy_met (demo_reads 2)"
proof -
  have first: "list_all2 child_kept (demo_reads 0) (demo_reads 1)" "list_all2 child_kept (demo_reads 1) (demo_reads 2)"
    by code_simp+
  have later: "demo_reads n = demo_reads 2" if "2 \<le> n" for n using that by (simp add: demo_reads_def)
  have same: "list_all2 child_kept (demo_reads 2) (demo_reads 2)" by code_simp
  have kept: "list_all2 child_kept (demo_reads n) (demo_reads (Suc n))" for n
  proof -
    consider "n = 0" | "n = 1" | "2 \<le> n" by linarith
    then show ?thesis
    proof cases
      case 3
      then show ?thesis using later [of n] later [of "Suc n"] same by simp
    qed (use first in \<open>simp_all add: numeral_2_eq_2\<close>)
  qed
  have "list_all child_done (demo_reads 2)" by code_simp
  then have ends: "list_all child_done (demo_reads n)" if "2 \<le> n" for n using later [OF that] by simp
  have met: "policy_met (demo_reads 2)" unfolding satisfied_iff_policy [symmetric] by code_simp
  show ?thesis
    using coordination_refines_policy [where obs = demo_reads and N = 2, OF kept ends] met
    by (metis Suc_numeral add_One order_refl semiring_norm(2,5))
qed

text \<open>C24: A run settles as completed only when its execution was completed, the completion policy
  was met by its children, and the records read after that show every model call and tool call
  of the run settled with a known outcome and an answer in its draft, which is the text
  published; a completed execution that misses any of this settles as failed.
\<close>

theorem completed_run_is_settled:
  assumes "settle_execution_outcome dbs fuel run attempt out cleanup lease = Some res"
  shows "(ro_status res = OutCompleted \<longrightarrow> ro_status out = OutCompleted \<and>
      (\<exists>n. policy_met (list_child_runs_for_run run (dbs n)) \<and> settled_records run (dbs (n + 1)) \<and>
        (\<exists>a. get_assistant_draft run (dbs (n + 1)) = Some a \<and> dget (ro_payload res) ''final_text'' = JStr (d_content a)))) \<and>
    (ro_status out = OutCompleted \<and> ro_status res \<noteq> OutCompleted \<longrightarrow> ro_status res = OutFailed)"
proof -
  obtain out1 c n where s: "settle_child_coordination (\<lambda>n. list_child_runs_for_run run (dbs n)) fuel out = Some (out1, c, n)"
    using assms by (auto simp: settle_execution_outcome_def split: option.splits)
  let ?s = "execution_settlement_snapshot run (dbs (n + 1))"
  let ?v = "settlement_violations ?s (ro_status out1)"
  let ?out2 = "if ?v = [] then out1 else failed_outcome (join_with ''; '' ?v) ''ExecutionSettlementError''"
  have st: "ro_status res = ro_status ?out2"
    using assms s by (auto simp: settle_execution_outcome_def Let_def)
  have payload: "dget (ro_payload res) ''final_text'' = JStr (d_content a)"
    if "ro_status ?out2 = OutCompleted" "ss_assistant ?s = Some a" for a
    using assms s that by (auto simp: settle_execution_outcome_def Let_def dget_dmerge usage_fields_def)
  have draft: "ss_assistant ?s = get_assistant_draft run (dbs (n + 1))"
    by (simp add: execution_settlement_snapshot_def Let_def)
  show ?thesis
  proof (intro conjI impI)
    assume c: "ro_status res = OutCompleted"
    then have v: "?v = []" "ro_status out1 = OutCompleted" using st by (auto split: if_splits)
    then have rec: "settled_records run (dbs (n + 1))" using no_violations_iff by simp
    then obtain a where a: "get_assistant_draft run (dbs (n + 1)) = Some a" by (auto simp: settled_records_def)
    note p = settled_completed [OF s v(2)]
    show "ro_status out = OutCompleted" using p v(2) by simp
    show "\<exists>n. policy_met (list_child_runs_for_run run (dbs n)) \<and> settled_records run (dbs (n + 1)) \<and>
        (\<exists>a. get_assistant_draft run (dbs (n + 1)) = Some a \<and> dget (ro_payload res) ''final_text'' = JStr (d_content a))"
      using p rec a payload [of a] draft v by (intro exI [of _ n]) simp
  next
    assume "ro_status out = OutCompleted \<and> ro_status res \<noteq> OutCompleted"
    then show "ro_status res = OutFailed"
      using settled_otherwise [OF s] st by (auto split: if_splits)
  qed
qed

definition settle_db :: db where
  "settle_db = demo_db\<lparr>db_receipts := [blank_receipt ''op_1'' ''run_1'' ''file.read'' ToolCompleted],
     db_drafts := [\<lparr>d_run = ''run_1'', d_revision = 1, d_key = ''m'', d_content = ''done'', d_calls = JList [],
                    d_created = 1, d_updated = 1\<rparr>]\<rparr>"

definition demo_outcome :: run_outcome where
  "demo_outcome = \<lparr>ro_status = OutCompleted, ro_event = ''run.completed'', ro_payload = []\<rparr>"

definition settle_demo :: "run_outcome option" where
  "settle_demo = settle_execution_outcome (\<lambda>_. settle_db) 1 ''run_1'' ''job_1:1'' demo_outcome [] ''current''"

lemma settle_demo_runs: "settle_demo \<noteq> None \<and> ro_status (the settle_demo) = OutCompleted"
  by code_simp

lemma completed_run_is_settled_witness:
  "\<exists>res. settle_demo = Some res \<and> ro_status res = OutCompleted \<and> settled_records ''run_1'' settle_db"
proof -
  obtain res where r: "settle_demo = Some res" "ro_status res = OutCompleted"
    using settle_demo_runs by (metis option.collapse)
  then show ?thesis using completed_run_is_settled [OF r(1) [unfolded settle_demo_def]] by auto
qed

end
