(* ===== verification/Tool_Execution.thy ===== *)
theory Tool_Execution
  imports Tool_Identity Settlement Threads
begin

text \<open>
  The durable boundary around one tool call (middleware/tool_execution.py,
  middleware/tool_receipt_recovery.py): the receipt is prepared, an unknown outcome is recovered or
  put before the user, a settled receipt is replayed, and only then the tool runs, once, between
  \<open>begin_tool_receipt\<close> and a settlement that records what came of it. The tool itself is a
  parameter, a step on the database that returns, pauses or fails; so is what other tasks of the
  Runtime do to the database at each point where the call waits. Shown: a call that has been
  answered is answered the same again without running, one whose outcome is unknown does not run
  again unasked, and every way a run of the tool can end is recorded as what it was.
\<close>

subsection \<open>Faults\<close>

text \<open>\<open>RaisedError\<close> stands for any other exception: its class, whether it is a KeyError, and its text.\<close>

datatype tool_fault =
    CanceledError
  | WorkspaceRequiredError
  | ResourceOwnershipError
  | StoreFault store_error
  | RaisedError string bool string

fun store_fault_type :: "store_error \<Rightarrow> string" where
  "store_fault_type (RunAdmissionError code) = ''RunAdmissionError''"
| "store_fault_type PyKeyError = ''KeyError''"
| "store_fault_type PyValueError = ''ValueError''"
| "store_fault_type PyRuntimeError = ''RuntimeError''"
| "store_fault_type PyAssertionError = ''AssertionError''"
| "store_fault_type PyOverflowError = ''OverflowError''"
| "store_fault_type SqlIntegrityError = ''IntegrityError''"
| "store_fault_type LeaseFenceError = ''LeaseFenceError''"
| "store_fault_type RunResultConflictError = ''RunResultConflictError''"
| "store_fault_type CommandConflictError = ''CommandConflictError''"
| "store_fault_type WorkspaceAdmissionError = ''WorkspaceAdmissionError''"
| "store_fault_type ParentRunAdmissionError = ''ParentRunAdmissionError''"
| "store_fault_type ThreadAdmissionError = ''ThreadAdmissionError''"
| "store_fault_type RunInputSnapshotError = ''RunInputSnapshotError''"
| "store_fault_type RunInputQuotaError = ''RunInputQuotaError''"
| "store_fault_type ArtifactQuotaError = ''ArtifactQuotaError''"
| "store_fault_type ArtifactConflictError = ''ArtifactConflictError''"
| "store_fault_type GraphHeadConflictError = ''GraphHeadConflictError''"
| "store_fault_type GraphDefinitionMismatchError = ''GraphDefinitionMismatchError''"
| "store_fault_type ModelCallBudgetExceeded = ''ModelCallBudgetExceeded''"
| "store_fault_type ToolReceiptConflictError = ''ToolReceiptConflictError''"
| "store_fault_type ToolReceiptStateError = ''ToolReceiptStateError''"
| "store_fault_type ToolOutcomeUnknownError = ''ToolOutcomeUnknownError''"
| "store_fault_type PermissionDecisionConflictError = ''PermissionDecisionConflictError''"
| "store_fault_type PermissionScopeNotAllowedError = ''PermissionScopeNotAllowedError''"
| "store_fault_type WaitDecisionConflictError = ''WaitDecisionConflictError''"

fun fault_type :: "tool_fault \<Rightarrow> string" where
  "fault_type CanceledError = ''CancelledError''"
| "fault_type WorkspaceRequiredError = ''WorkspaceRequiredError''"
| "fault_type ResourceOwnershipError = ''WorkspaceResourceOwnershipError''"
| "fault_type (StoreFault e) = store_fault_type e"
| "fault_type (RaisedError ty key text) = ty"

definition tool_error_status :: "string \<Rightarrow> string \<Rightarrow> tool_fault \<Rightarrow> receipt_status" where
  "tool_error_status risk name f =
    (if name = ''task'' \<and> f = CanceledError then ToolCanceled
     else if risk = ''read_only'' \<or> risk = ''plugin_action'' \<or> name = ''task'' \<or> starts_with ''child.'' name \<or>
       f = WorkspaceRequiredError \<or> f = ResourceOwnershipError then ToolFailed
     else ToolOutcomeUnknown)"

subsection \<open>The surroundings of a call\<close>

datatype handler_end = Returned call_result | Bubbled | Failed tool_fault

type_synonym tool_handler = "db \<Rightarrow> handler_end \<times> db"

record recon_request =
  rc_op :: id
  rc_prior :: "id option"
  rc_tool :: string
  rc_hash :: string
  rc_risk :: string
  rc_version :: "string option"
  rc_prior_version :: "string option"

datatype tool_end = Answer call_result | Paused | Asked recon_request | Fault tool_fault

text \<open>
  \<open>te_ctx k\<close> is the lease and the clock of the \<open>k\<close>th store call, \<open>te_others k\<close> what other tasks do
  before it; \<open>te_resumed\<close> tells whether \<open>interrupt\<close> returns a decision instead of raising.
\<close>

record tool_env =
  te_ctx :: "nat \<Rightarrow> ctx"
  te_others :: "nat \<Rightarrow> db \<Rightarrow> db"
  te_resumed :: bool
  te_results :: result_env
  te_resolve :: "string \<Rightarrow> string list"
  te_workspace :: bool
  te_subagents :: bool
  te_run :: id
  te_attempt :: string
  te_namespace :: string
  te_plugins :: json
  te_graph :: string
  te_parent :: "id option"

definition call_arguments :: "tool_call \<Rightarrow> json" where
  "call_arguments call = py_or (tl_args call) (JObj [])"

definition receipt_request_of :: "tool_env \<Rightarrow> tool_call \<Rightarrow> db \<Rightarrow> receipt_request" where
  "receipt_request_of e call d =
    (let sha = re_sha (te_results e); args = call_arguments call;
         version = tool_version_for_invocation sha (te_plugins e) (te_graph e) (te_run e) (tl_name call) args d;
         (oper, args_hash, stored) =
           tool_operation_identity sha (te_run e) (tl_id call) (tl_name call) args version (te_namespace e)
     in \<lparr>rq_op = oper, rq_run = te_run e, rq_attempt = te_attempt e, rq_call = tl_id call,
         rq_name = tl_name call, rq_args_hash = args_hash, rq_args = stored, rq_risk = tool_risk (tl_name call),
         rq_version = version, rq_namespace = te_namespace e, rq_parent = te_parent e\<rparr>)"

definition ask_user :: "receipt_request \<Rightarrow> string \<Rightarrow> receipt_row option \<Rightarrow> recon_request" where
  "ask_user q args_hash prior =
     \<lparr>rc_op = rq_op q, rc_prior = map_option t_op prior, rc_tool = rq_name q, rc_hash = args_hash,
      rc_risk = rq_risk q, rc_version = map_option (\<lambda>_. rq_version q) prior,
      rc_prior_version = map_option t_version prior\<rparr>"

subsection \<open>Replay and recovery (tool\_receipt\_recovery.py)\<close>

definition receipt_result :: "message_codec \<Rightarrow> receipt_row \<Rightarrow> tool_fault + call_result option" where
  "receipt_result c t =
    (if t_status t = ToolOutcomeUnknown then Inl (StoreFault ToolOutcomeUnknownError)
     else if t_status t = ToolCanceled then Inl CanceledError
     else if t_status t \<in> {ToolCompleted, ToolFailed, ToolRejected} then
       (case t_result t of
          None \<Rightarrow> Inl (StoreFault ToolReceiptStateError)
        | Some j \<Rightarrow> (case deserialize_tool_result c j of Inl err \<Rightarrow> Inl (StoreFault err) | Inr r \<Rightarrow> Inr (Some r)))
     else Inr None)"

definition hash_of :: "tool_env \<Rightarrow> json \<Rightarrow> string" where
  "hash_of e j = re_sha (te_results e) (json_dumps '','' '':'' (encode_payload j))"

definition child_view_json :: "child_view \<Rightarrow> json" where
  "child_view_json v = JObj
     [(''id'', JStr (v_id v)), (''parent_run_id'', json_opt (v_parent v)), (''root_run_id'', json_opt (v_root v)),
      (''run_kind'', JStr ''child''), (''goal'', JStr (v_goal v)), (''status'', JStr (run_status_text (v_status v))),
      (''agent_definition_id'', JStr (v_agent_id v)), (''agent_definition_version'', JStr (v_agent_version v)),
      (''collaboration_depth'', JInt (v_depth v)), (''spawn_operation_id'', json_opt (v_spawn_op v)),
      (''graph_thread_id'', JStr (v_graph_thread v)), (''graph_checkpoint_id'', json_opt (v_checkpoint v)),
      (''created_at'', json_time (v_created v)), (''updated_at'', json_time (v_updated v)),
      (''completed_at'', json_time_opt (v_completed v)),
      (''completion_mode'', JStr (completion_mode_text (v_mode v))), (''quorum_group'', json_opt (v_group v)),
      (''quorum_required'', (case v_required v of None \<Rightarrow> JNull | Some n \<Rightarrow> JInt n)),
      (''events_count'', JInt (int (v_events v))), (''collaboration_policy'', JObj (v_policy v)),
      (''depends_on'', JList (map JStr (v_depends v))), (''resource_claims'', JList (map JStr (v_claims v))),
      (''result'', json_opt (v_result v)), (''error'', v_error v), (''error_type'', v_error_type v),
      (''retryable'', v_retryable v), (''input_tokens'', JInt (v_in v)), (''output_tokens'', JInt (v_out v)),
      (''model_calls'', JInt (v_calls v))]"

text \<open>The one internal side effect whose outcome the Runtime itself can look up.\<close>

definition recover_child_spawn ::
    "tool_env \<Rightarrow> receipt_request \<Rightarrow> tool_call \<Rightarrow> receipt_row \<Rightarrow> db \<Rightarrow> receipt_row res \<times> db" where
  "recover_child_spawn e q call t d =
    (let d1 = te_others e 1 d; d2 = te_others e 2 d1
     in case (case child_run_for_spawn_operation (rq_run q) (t_op t) d1 of
                None \<Rightarrow> reconcile_tool_receipt (te_ctx e 2) (t_op t) (rq_run q) ''retry_not_executed'' None None d2
              | Some v \<Rightarrow>
                  bindr (serialize_tool_result (re_codec (te_results e)) (Message
                    \<lparr>tm_content = JStr (json_dumps '', '' '': '' (child_view_json v)), tm_name = tl_name call,
                     tm_call = tl_id call, tm_error = False, tm_extra = []\<rparr>))
                  (\<lambda>j. reconcile_tool_receipt (te_ctx e 2) (t_op t) (rq_run q) ''confirmed_completed''
                     (Some j) (Some (hash_of e j)) d2)) of
          Inl err \<Rightarrow> (Inl err, d2)
        | Inr (t', d3) \<Rightarrow> (Inr t', d3))"

text \<open>Every mailbox operation is idempotent on its operation id: running it again reconciles it.\<close>

definition recover_mailbox :: "tool_env \<Rightarrow> receipt_request \<Rightarrow> db \<Rightarrow> receipt_row res \<times> db" where
  "recover_mailbox e q d =
    (let d1 = te_others e 3 d
     in case reconcile_tool_receipt (te_ctx e 3) (rq_op q) (rq_run q) ''retry_not_executed'' None None d1 of
          Inl err \<Rightarrow> (Inl err, d1)
        | Inr (t, d2) \<Rightarrow> (Inr t, d2))"

definition recover_receipt ::
    "tool_env \<Rightarrow> receipt_request \<Rightarrow> tool_call \<Rightarrow> receipt_row \<Rightarrow> db \<Rightarrow> receipt_row res \<times> db" where
  "recover_receipt e q call t d =
    (case (if t_status t = ToolOutcomeUnknown \<and> tl_name call = ''child.spawn''
           then recover_child_spawn e q call t d else (Inr t, d)) of
       (Inl err, d1) \<Rightarrow> (Inl err, d1)
     | (Inr t1, d1) \<Rightarrow>
         if t_status t1 = ToolOutcomeUnknown \<and> starts_with ''mailbox.'' (tl_name call)
         then recover_mailbox e q d1 else (Inr t1, d1))"

definition settle_call ::
    "tool_env \<Rightarrow> nat \<Rightarrow> bool \<Rightarrow> receipt_request \<Rightarrow> receipt_status \<Rightarrow> json option \<Rightarrow> string option \<Rightarrow>
     string option \<Rightarrow> db \<Rightarrow> tool_fault option \<times> db" where
  "settle_call e k task q status result result_hash error d =
    (let d1 = te_others e k d
     in case (if task then settle_task_receipt (te_ctx e k) (rq_op q) (rq_run q) status result result_hash error d1
              else settle_tool_receipt (te_ctx e k) (rq_op q) (rq_run q) status result result_hash error d1) of
          Inl err \<Rightarrow> (Some (StoreFault err), d1)
        | Inr (t, d2) \<Rightarrow> (None, d2))"

text \<open>\<open>_cancel_before_tool_start\<close>: nothing, or the exception that stops the call.\<close>

definition cancel_before_tool_start ::
    "tool_env \<Rightarrow> nat \<Rightarrow> receipt_request \<Rightarrow> db \<Rightarrow> tool_fault option \<times> db" where
  "cancel_before_tool_start e k q d =
    (let d1 = te_others e k d
     in case tool_execution_cancel_requested (te_ctx e k) (rq_run q) d1 of
          Inl err \<Rightarrow> (Some (StoreFault err), d1)
        | Inr False \<Rightarrow> (None, d1)
        | Inr True \<Rightarrow>
           (let d2 = te_others e (k + 1) d1
            in case get_receipt_row d2 (rq_op q) of
                 None \<Rightarrow> (Some CanceledError, d2)
               | Some t \<Rightarrow>
                   if unstarted t then
                    (case settle_call e (k + 2) (t_name t = ''task'') q ToolCanceled None None
                            (Some ''RunCanceledBeforeToolStart'') d2 of
                       (Some f, d3) \<Rightarrow> (Some f, d3)
                     | (None, d3) \<Rightarrow> (Some CanceledError, d3))
                   else (Some CanceledError, d2)))"

subsection \<open>One execution (\<open>_execute_once\<close>)\<close>

definition requested_path :: "tool_call \<Rightarrow> json" where
  "requested_path call =
    (let args = call_arguments call
     in if is_obj args then py_or (dget (obj_of args) ''file_path'') (dget (obj_of args) ''path'') else JNull)"

definition guard_resources :: "tool_env \<Rightarrow> receipt_request \<Rightarrow> tool_call \<Rightarrow> db \<Rightarrow> tool_fault option" where
  "guard_resources e q call d =
    (if rq_risk q = ''workspace_write'' then
       if \<not> te_workspace e then Some WorkspaceRequiredError
       else if named_id (requested_path call) then
         (case assert_workspace_resource_owner (te_resolve e) (rq_run q) (str_of (requested_path call)) d of
            Inr _ \<Rightarrow> None
          | Inl err \<Rightarrow> (case err of RunAdmissionError _ \<Rightarrow> Some ResourceOwnershipError | _ \<Rightarrow> Some (StoreFault err)))
       else None
     else if rq_risk q = ''sandboxed_command'' \<and> has_foreign_workspace_resource_claims (rq_run q) d
       then Some ResourceOwnershipError
     else None)"

definition run_tool ::
    "tool_env \<Rightarrow> receipt_request \<Rightarrow> tool_call \<Rightarrow> tool_handler \<Rightarrow> db \<Rightarrow> handler_end \<times> db" where
  "run_tool e q call h d =
    (let d1 = te_others e 11 d
     in case guard_resources e q call d1 of Some f \<Rightarrow> (Failed f, d1) | None \<Rightarrow> h (te_others e 12 d1))"

text \<open>\<open>str(exc).strip("'")\<close>\<close>

definition strip_quotes :: "string \<Rightarrow> string" where
  "strip_quotes s = rev (dropWhile (\<lambda>c. c = CHR 0x27) (rev (dropWhile (\<lambda>c. c = CHR 0x27) s)))"

text \<open>Failures the model is told about instead of failing the run.\<close>

definition contained_content :: "string \<Rightarrow> tool_fault \<Rightarrow> string option" where
  "contained_content name f =
    (case f of
       RaisedError ty key text \<Rightarrow>
         if name = ''task'' then Some (''Subagent failed: '' @ ty @ '': '' @ take 2000 text)
         else if starts_with ''child.'' name \<and> key \<and> starts_with ''child run not found:'' (strip_quotes text)
         then Some (json_dumps '','' '':'' (JObj [(''ok'', JBool False), (''error_code'', JStr ''child_run_not_found''),
                (''message'', JStr ''child run not found''), (''retryable'', JBool False)]))
         else None
     | CanceledError \<Rightarrow> None
     | _ \<Rightarrow> if name = ''task'' then Some (''Subagent failed: '' @ fault_type f @ '': '') else None)"

definition error_message :: "tool_call \<Rightarrow> string \<Rightarrow> tool_msg" where
  "error_message call content =
     \<lparr>tm_content = JStr content, tm_name = tl_name call, tm_call = tl_id call, tm_error = True, tm_extra = []\<rparr>"

definition after_settlement :: "tool_fault option \<times> db \<Rightarrow> tool_end \<Rightarrow> tool_end \<times> db" where
  "after_settlement r x = (case r of (Some f, d) \<Rightarrow> (Fault f, d) | (None, d) \<Rightarrow> (x, d))"

text \<open>An outcome nobody knows is put before the user; anything else is raised on.\<close>

definition report_fault :: "tool_env \<Rightarrow> receipt_request \<Rightarrow> receipt_row \<Rightarrow> receipt_status \<Rightarrow> tool_fault \<Rightarrow> tool_end" where
  "report_fault e q t status f =
    (if status = ToolOutcomeUnknown \<and> f \<noteq> CanceledError \<and> \<not> te_resumed e
     then Asked (ask_user q (t_args_hash t) None) else Fault f)"

definition settle_failure ::
    "tool_env \<Rightarrow> receipt_request \<Rightarrow> tool_call \<Rightarrow> receipt_row \<Rightarrow> tool_fault \<Rightarrow> db \<Rightarrow> tool_end \<times> db" where
  "settle_failure e q call t f d =
    (let status = tool_error_status (rq_risk q) (tl_name call) f
     in case contained_content (tl_name call) f of
          Some content \<Rightarrow>
           (let r = Message (error_message call content)
            in case serialize_tool_result (re_codec (te_results e)) r of
                 Inl err \<Rightarrow> (Fault (StoreFault err), d)
               | Inr j \<Rightarrow>
                   after_settlement (settle_call e 13 (tl_name call = ''task'') q ToolFailed (Some j)
                     (Some (hash_of e j)) (Some (fault_type f)) d) (Answer r))
        | None \<Rightarrow>
            after_settlement (settle_call e 13 (tl_name call = ''task'' \<and> status = ToolCanceled) q status None None
              (Some (fault_type f)) d) (report_fault e q t status f))"

definition measured :: "message_codec \<Rightarrow> call_result \<Rightarrow> (call_result \<times> json) res" where
  "measured c r = (case serialize_tool_result c r of
      Inl err \<Rightarrow> Inl err
    | Inr j \<Rightarrow> if int (result_bytes j) > max_model_tool_result_bytes then Inl ToolReceiptStateError else Inr (r, j))"

definition finished_status :: "call_result \<Rightarrow> receipt_status" where
  "finished_status r = (case r of Message m \<Rightarrow> if tm_error m then ToolFailed else ToolCompleted | Command _ \<Rightarrow> ToolCompleted)"

definition settle_result ::
    "tool_env \<Rightarrow> receipt_request \<Rightarrow> tool_call \<Rightarrow> receipt_row \<Rightarrow> call_result \<Rightarrow> db \<Rightarrow> tool_end \<times> db" where
  "settle_result e q call t r d =
    (case bound_tool_result (te_ctx e 14) (te_results e) (rq_op q) (rq_run q) call
            (provider_safe (te_results e) call (judged (te_results e) r)) (te_others e 14 d) of
       (bounded, d1) \<Rightarrow>
        (case bindr bounded (measured (re_codec (te_results e))) of
           Inl err \<Rightarrow>
            (let status = tool_error_status (rq_risk q) (tl_name call) (StoreFault err)
             in after_settlement (settle_call e 15 False q status None None (Some (store_fault_type err)) d1)
                  (report_fault e q t status (StoreFault err)))
         | Inr (r1, j) \<Rightarrow>
             after_settlement (settle_call e 16 (tl_name call = ''task'') q (finished_status r1) (Some j)
               (Some (hash_of e j)) None d1) (Answer r1)))"

definition settle_ending ::
    "tool_env \<Rightarrow> receipt_request \<Rightarrow> tool_call \<Rightarrow> receipt_row \<Rightarrow> handler_end \<times> db \<Rightarrow> tool_end \<times> db" where
  "settle_ending e q call t x =
    (case x of
       (Bubbled, d) \<Rightarrow> after_settlement (settle_call e 13 False q ToolPaused None None None d) Paused
     | (Failed f, d) \<Rightarrow> settle_failure e q call t f d
     | (Returned r, d) \<Rightarrow> settle_result e q call t r d)"

definition execute_once ::
    "tool_env \<Rightarrow> receipt_request \<Rightarrow> tool_call \<Rightarrow> tool_handler \<Rightarrow> db \<Rightarrow> tool_end \<times> db" where
  "execute_once e q call h d =
    (let d1 = te_others e 10 d
     in case begin_tool_receipt (te_ctx e 10) (rq_op q) (rq_run q) (rq_attempt q) d1 of
          Inl err \<Rightarrow> (Fault (StoreFault err), d1)
        | Inr (t, d2) \<Rightarrow>
           (case receipt_result (re_codec (te_results e)) t of
              Inl f \<Rightarrow> (Fault f, d2)
            | Inr (Some r) \<Rightarrow> (Answer (provider_safe (te_results e) call r), d2)
            | Inr None \<Rightarrow> settle_ending e q call t (run_tool e q call h d2)))"

definition execute_with_gate ::
    "tool_env \<Rightarrow> receipt_request \<Rightarrow> tool_call \<Rightarrow> tool_handler \<Rightarrow> db \<Rightarrow> tool_end \<times> db" where
  "execute_with_gate e q call h d =
    (if rq_risk q = ''control_flow'' then execute_once e q call h d
     else (case cancel_before_tool_start e 7 q d of
             (Some f, d1) \<Rightarrow> (Fault f, d1)
           | (None, d1) \<Rightarrow> execute_once e q call h d1))"

subsection \<open>The whole call (\<open>awrap_tool_call\<close>)\<close>

text \<open>What is decided once the receipt is in hand.\<close>

definition decide_call ::
    "tool_env \<Rightarrow> receipt_request \<Rightarrow> tool_call \<Rightarrow> tool_handler \<Rightarrow> receipt_row \<Rightarrow> db \<Rightarrow> tool_end \<times> db" where
  "decide_call e q call h t d =
    (if t_status t = ToolOutcomeUnknown then
       (if te_resumed e then Fault (StoreFault ToolReceiptStateError)
        else Asked (ask_user q (rq_args_hash q) None), d)
     else
      (let d1 = (if t_status t = ToolPrepared then te_others e 17 d else d);
           prior = (if t_status t = ToolPrepared then
               find_outcome_unknown_tool_receipt_in_lineage (rq_run q) (rq_name q) (rq_args_hash q) (rq_risk q) d1
             else None)
       in if prior \<noteq> None then
            (if te_resumed e then Fault (StoreFault ToolReceiptStateError)
             else Asked (ask_user q (rq_args_hash q) prior), d1)
          else
           (case receipt_result (re_codec (te_results e)) t of
              Inl f \<Rightarrow> (Fault f, d1)
            | Inr (Some r) \<Rightarrow> (Answer (provider_safe (te_results e) call r), d1)
            | Inr None \<Rightarrow>
               (case cancel_before_tool_start e 4 q d1 of
                  (Some f, d2) \<Rightarrow> (Fault f, d2)
                | (None, d2) \<Rightarrow> execute_with_gate e q call h d2))))"

definition execute_tool ::
    "tool_env \<Rightarrow> tool_call \<Rightarrow> tool_handler \<Rightarrow> db \<Rightarrow> tool_end \<times> db" where
  "execute_tool e call h d =
    (if te_run e = [] \<or> te_attempt e = [] \<or> tl_id call = [] \<or> tl_name call = []
     then (Fault (StoreFault ToolReceiptStateError), d)
     else if tl_name call = ''task'' \<and> \<not> te_subagents e
     then (Answer (Message (error_message call ''Subagent dispatch is disabled for this Run.'')), d)
     else
      (let q = receipt_request_of e call d; d1 = te_others e 0 d
       in case prepare_tool_receipt (te_ctx e 0) q d1 of
            Inl err \<Rightarrow> (Fault (StoreFault err), d1)
          | Inr (t, d2) \<Rightarrow>
             (case recover_receipt e q call t d2 of
                (Inl err, d3) \<Rightarrow> (Fault (StoreFault err), d3)
              | (Inr t1, d3) \<Rightarrow> decide_call e q call h t1 d3)))"


subsection \<open>What a settlement leaves\<close>

lemma updated_row:
  assumes "op_distinct d" "count_where p (db_receipts d) = 1" "\<And>t. p t \<Longrightarrow> t_op t = oper" "\<And>t. t_op (f t) = t_op t"
    and "get_receipt_row (d\<lparr>db_receipts := update_where p f (db_receipts d)\<rparr>) oper = Some t'"
  shows "\<exists>r. p r \<and> t' = f r"
proof -
  obtain r where r: "r \<in> set (db_receipts d)" "p r"
    using assms(2) by (auto simp: count_where_def length_Suc_conv filter_eq_Cons_iff) (metis in_set_conv_decomp)
  have t': "t' \<in> set (update_where p f (db_receipts d))" "t_op t' = oper"
    using get_receipt_rowD [OF assms(5)] by auto
  then obtain s where s: "s \<in> set (db_receipts d)" "t' = (if p s then f s else s)" by (elim in_update_whereE)
  then have "t_op s = oper" using t'(2) assms(4) by (cases "p s") auto
  then have "s = r" using op_distinct_same_row [OF assms(1) s(1) r(1)] assms(3) [OF r(2)] by simp
  then show ?thesis using r(2) s(2) by auto
qed

lemma event_row:
  "append_subagent_receipt_event t d = Inr d' \<Longrightarrow> get_receipt_row d' oper = get_receipt_row d oper"
  using append_subagent_receipt_event_receipts [of t d d'] by (simp add: get_receipt_row_def)

lemma settle_tool_receipt_row:
  assumes "settle_tool_receipt c oper run st res rh err d = Inr (t', d')" "op_distinct d"
  shows "get_receipt_row d' oper = Some t' \<and> t_status t' = st \<and> t_result t' = res"
proof -
  let ?p = "\<lambda>t. t_op t = oper \<and> t_run t = run \<and> (t_status t = ToolRunning \<or>
      (st \<in> {ToolRejected, ToolFailed} \<and> t_status t = ToolPrepared) \<or> (st = ToolCanceled \<and> unstarted t))"
  define f :: "receipt_row \<Rightarrow> receipt_row" where
    "f = (\<lambda>t. t\<lparr>t_status := st, t_result := res, t_result_hash := rh, t_error := err,
      t_updated := x_clock c 1,
      t_completed := (if st = ToolPaused then t_completed t else Some (x_clock c 1))\<rparr>)"
  define d1 where "d1 = d\<lparr>db_receipts := update_where ?p f (db_receipts d)\<rparr>"
  have body: "count_where ?p (db_receipts d) = 1" "get_receipt_row d1 oper = Some t'"
    "append_subagent_receipt_event t' d1 = Inr d'"
    using assms
    unfolding settle_tool_receipt_def Let_def run_write_transaction_eq f_def [symmetric] d1_def [symmetric]
    by (auto simp: bindr_Inr_iff split: if_splits option.splits)
  have "\<exists>r. ?p r \<and> t' = f r"
    by (rule updated_row [OF assms(2) body(1) _ _ body(2) [unfolded d1_def]]) (auto simp: f_def)
  then show ?thesis using event_row [OF body(3)] body(2) by (auto simp: f_def)
qed

lemma settle_task_receipt_row:
  assumes "settle_task_receipt c oper run st res rh err d = Inr (t', d')" "op_distinct d"
  shows "get_receipt_row d' oper = Some t' \<and> t_status t' = st \<and> t_result t' = res"
proof -
  let ?p = "\<lambda>t. t_op t = oper \<and> t_run t = run \<and> (t_status t = ToolRunning \<or> (st = ToolCanceled \<and> unstarted t))"
  define f :: "receipt_row \<Rightarrow> receipt_row" where
    "f = (\<lambda>t. t\<lparr>t_status := st, t_result := res, t_result_hash := rh, t_error := err,
      t_updated := x_clock c 1, t_completed := Some (x_clock c 1)\<rparr>)"
  obtain d1 where d1: "settle_task_descendants run oper st (x_clock c 1) d = Inr d1"
    and body: "count_where ?p (db_receipts d1) = 1"
      "get_receipt_row (d1\<lparr>db_receipts := update_where ?p f (db_receipts d1)\<rparr>) oper = Some t'"
      "append_subagent_receipt_event t' (d1\<lparr>db_receipts := update_where ?p f (db_receipts d1)\<rparr>) = Inr d'"
    using assms(1)
    unfolding settle_task_receipt_def Let_def run_write_transaction_eq f_def [symmetric]
    by (auto simp: bindr_Inr_iff split: if_splits option.splits)
  have od: "op_distinct d1"
    using settle_task_descendants_fences(2) [OF d1 assms(2) task_descendants_in] assms(2)
    by (simp add: receipt_effect_def)
  have "\<exists>r. ?p r \<and> t' = f r"
    by (rule updated_row [OF od body(1) _ _ body(2)]) (auto simp: f_def)
  then show ?thesis using event_row [OF body(3)] body(2) by (auto simp: f_def)
qed

text \<open>The other tasks and the tool keep operation ids apart, as the primary key makes them.\<close>

definition others_keep_ids :: "tool_env \<Rightarrow> bool" where
  "others_keep_ids e \<longleftrightarrow> (\<forall>k d. op_distinct d \<longrightarrow> op_distinct (te_others e k d))"

definition keeps_ids :: "tool_env \<Rightarrow> tool_handler \<Rightarrow> bool" where
  "keeps_ids e h \<longleftrightarrow> others_keep_ids e \<and> (\<forall>d. op_distinct d \<longrightarrow> op_distinct (snd (h d)))"

lemma settle_call_distinct:
  assumes "op_distinct d" "others_keep_ids e"
  shows "op_distinct (snd (settle_call e k task q st res rh err d))"
proof -
  have od: "op_distinct (te_others e k d)" using assms by (simp add: others_keep_ids_def)
  show ?thesis
    using od settle_tool_receipt_effect settle_task_receipt_effect [OF _ od]
    by (fastforce simp: settle_call_def Let_def receipt_effect_def split: sum.splits)
qed

lemma settle_call_row:
  assumes "settle_call e k task q st res rh err d = (None, d')" "op_distinct d" "keeps_ids e h"
  shows "op_distinct d' \<and> (\<exists>t. get_receipt_row d' (rq_op q) = Some t \<and> t_status t = st \<and> t_result t = res)"
proof -
  have od: "op_distinct (te_others e k d)" using assms(2,3) by (simp add: keeps_ids_def others_keep_ids_def)
  have "op_distinct d'"
    using settle_call_distinct [OF assms(2), of e k task q st res rh err] assms(1,3) by (simp add: keeps_ids_def)
  then show ?thesis
    using assms(1) settle_tool_receipt_row [OF _ od] settle_task_receipt_row [OF _ od]
    by (auto simp: settle_call_def Let_def split: sum.splits if_splits)
qed

lemma settle_call_fault: "settle_call e k task q st res rh err d = (Some f, d') \<Longrightarrow> \<exists>err. f = StoreFault err"
  by (auto simp: settle_call_def Let_def split: sum.splits prod.splits)

lemma create_artifact_receipts:
  assumes "create_artifact c h p content d = Inr (x, d')"
  shows "db_receipts d' = db_receipts d"
proof -
  obtain i d1 where i: "artifact_identity (ap_id p) d = (i, d1)" by fastforce
  have "db_receipts d1 = db_receipts d"
    using i by (auto simp: artifact_identity_def new_id_def split: option.splits if_splits)
  moreover obtain a where "create_artifact_record c a (ap_id p \<noteq> None) d1 = Inr (x, d')"
    using assms i by (auto simp: create_artifact_def Let_def split: if_splits)
  then have "db_receipts d' = db_receipts d1" by (cases rule: create_artifact_record_cases) simp_all
  ultimately show ?thesis by simp
qed

lemma bound_tool_result_receipts:
  "bound_tool_result c e oper run call r d = (b, d') \<Longrightarrow> db_receipts d' = db_receipts d"
  using create_artifact_receipts
  by (fastforce simp: bound_tool_result_def Let_def split: sum.splits option.splits)

lemma run_tool_distinct:
  assumes "op_distinct d" "keeps_ids e h"
  shows "op_distinct (snd (run_tool e q call h d))"
  using assms by (auto simp: run_tool_def keeps_ids_def others_keep_ids_def Let_def split: option.splits)

subsection \<open>How an execution ends\<close>

text \<open>The status the receipt must have for an end other than a failure of the store.\<close>

definition recorded_as :: "receipt_request \<Rightarrow> tool_call \<Rightarrow> tool_end \<Rightarrow> receipt_status" where
  "recorded_as q call x = (case x of
      Answer r \<Rightarrow> finished_status r
    | Paused \<Rightarrow> ToolPaused
    | Asked _ \<Rightarrow> ToolOutcomeUnknown
    | Fault f \<Rightarrow> tool_error_status (rq_risk q) (tl_name call) f)"

text \<open>What an answer leaves behind: the result itself, in a form that needs no further change.\<close>

definition answer_kept :: "tool_env \<Rightarrow> tool_call \<Rightarrow> tool_end \<Rightarrow> json option \<Rightarrow> bool" where
  "answer_kept e call x stored \<longleftrightarrow> (case x of
      Answer r \<Rightarrow> provider_safe (te_results e) call r = r \<and>
        (\<exists>j. stored = Some j \<and> serialize_tool_result (re_codec (te_results e)) r = Inr j)
    | _ \<Rightarrow> True)"

definition accounted :: "tool_env \<Rightarrow> receipt_request \<Rightarrow> tool_call \<Rightarrow> tool_end \<times> db \<Rightarrow> bool" where
  "accounted e q call x \<longleftrightarrow> (\<exists>err. fst x = Fault (StoreFault err)) \<or>
     op_distinct (snd x) \<and> (\<exists>t. get_receipt_row (snd x) (rq_op q) = Some t \<and> t_status t = recorded_as q call (fst x) \<and>
       answer_kept e call (fst x) (t_result t))"

lemma after_settlement_accounted:
  assumes "op_distinct d" "keeps_ids e h" "st = recorded_as q call x" "answer_kept e call x res"
  shows "accounted e q call (after_settlement (settle_call e k task q st res rh err d) x)"
proof (cases "settle_call e k task q st res rh err d")
  case (Pair f d')
  show ?thesis
  proof (cases f)
    case None
    then show ?thesis
      using settle_call_row [of e k task q st res rh err d d' h] assms Pair
      by (auto simp: after_settlement_def accounted_def)
  next
    case (Some g)
    then show ?thesis
      using settle_call_fault [of e k task q st res rh err d g d'] Pair
      by (auto simp: after_settlement_def accounted_def)
  qed
qed

lemma report_fault_recorded:
  "recorded_as q call (report_fault e q t (tool_error_status (rq_risk q) (tl_name call) f) f) =
     tool_error_status (rq_risk q) (tl_name call) f"
  "answer_kept e call (report_fault e q t st f) res"
  by (simp_all add: report_fault_def recorded_as_def answer_kept_def)

lemma error_message_kept:
  assumes "serialize_tool_result (re_codec (te_results e)) (Message (error_message call content)) = Inr j"
  shows "answer_kept e call (Answer (Message (error_message call content))) (Some j)"
    "recorded_as q call (Answer (Message (error_message call content))) = ToolFailed"
  using assms
  by (simp_all add: answer_kept_def recorded_as_def finished_status_def provider_safe_def error_message_def
      blocks_of_JStr_content)

lemma settle_failure_accounted:
  assumes "op_distinct d" "keeps_ids e h"
  shows "accounted e q call (settle_failure e q call t f d)"
proof (cases "contained_content (tl_name call) f")
  case None
  then show ?thesis
    unfolding settle_failure_def Let_def
    by (simp, intro after_settlement_accounted [OF assms]) (simp_all add: report_fault_recorded)
next
  case (Some content)
  then show ?thesis
  proof (cases "serialize_tool_result (re_codec (te_results e)) (Message (error_message call content))")
    case (Inr j)
    show ?thesis
      unfolding settle_failure_def Let_def
      by (simp add: Some Inr, intro after_settlement_accounted [OF assms])
        (simp_all add: error_message_kept [OF Inr])
  qed (simp add: settle_failure_def Let_def accounted_def)
qed

lemma measured_Inr: "measured c r = Inr x \<Longrightarrow> \<exists>j. x = (r, j) \<and> serialize_tool_result c r = Inr j"
  by (cases "serialize_tool_result c r") (auto simp: measured_def split: if_splits)

lemma settle_result_accounted:
  assumes "op_distinct d" "keeps_ids e h"
  shows "accounted e q call (settle_result e q call t r d)"
proof -
  let ?safe = "provider_safe (te_results e) call (judged (te_results e) r)"
  obtain b d1 where b: "bound_tool_result (te_ctx e 14) (te_results e) (rq_op q) (rq_run q) call ?safe (te_others e 14 d) = (b, d1)"
    by fastforce
  have od: "op_distinct d1"
    using bound_tool_result_receipts [OF b] assms by (simp add: keeps_ids_def others_keep_ids_def op_distinct_def)
  show ?thesis
  proof (cases "bindr b (measured (re_codec (te_results e)))")
    case (Inl err)
    show ?thesis
      unfolding settle_result_def Let_def b
      by (simp add: Inl, intro after_settlement_accounted [OF od assms(2)]) (simp_all add: report_fault_recorded)
  next
    case (Inr x)
    then obtain r1 j where x: "x = (r1, j)" "b = Inr r1" "serialize_tool_result (re_codec (te_results e)) r1 = Inr j"
      by (auto simp: bindr_Inr_iff dest: measured_Inr)
    have "provider_safe (te_results e) call r1 = r1"
      using bound_tool_result_safe [OF b [unfolded x(2)] provider_safe_idem] .
    then show ?thesis
      unfolding settle_result_def Let_def b
      by (simp add: Inr x(1), intro after_settlement_accounted [OF od assms(2)])
        (simp_all add: recorded_as_def answer_kept_def x)
  qed
qed

lemma settle_ending_accounted:
  assumes "op_distinct (snd x)" "keeps_ids e h"
  shows "accounted e q call (settle_ending e q call t x)"
proof -
  obtain y d where x: "x = (y, d)" by fastforce
  then have od: "op_distinct d" using assms(1) by simp
  show ?thesis
  proof (cases y)
    case Bubbled
    then show ?thesis
      using after_settlement_accounted [OF od assms(2), of ToolPaused q call Paused None]
      by (simp add: x settle_ending_def recorded_as_def answer_kept_def)
  qed (simp_all add: x settle_ending_def settle_failure_accounted [OF od assms(2)] settle_result_accounted [OF od assms(2)])
qed

lemma execute_once_runs:
  assumes "begin_tool_receipt (te_ctx e 10) (rq_op q) (rq_run q) (rq_attempt q) (te_others e 10 d) = Inr (t, d1)"
    and "t_status t = ToolRunning"
  shows "execute_once e q call h d = settle_ending e q call t (run_tool e q call h d1)"
  using assms by (simp add: execute_once_def Let_def receipt_result_def)

lemma execute_once_accounted:
  assumes "begin_tool_receipt (te_ctx e 10) (rq_op q) (rq_run q) (rq_attempt q) (te_others e 10 d) = Inr (t, d1)"
    and "t_status t = ToolRunning" "op_distinct d" "keeps_ids e h"
  shows "accounted e q call (execute_once e q call h d)"
proof -
  have "op_distinct (te_others e 10 d)" using assms(3,4) by (simp add: keeps_ids_def others_keep_ids_def)
  then have "op_distinct d1"
    using begin_tool_receipt_effect [OF assms(1)] by (simp add: receipt_effect_def)
  then show ?thesis
    unfolding execute_once_runs [OF assms(1,2)]
    using settle_ending_accounted [OF run_tool_distinct [OF _ assms(4)] assms(4)] by blast
qed


subsection \<open>Replay\<close>

text \<open>A prepared receipt that is settled with a stored result is answered from it.\<close>

lemma settled_receipt_answers:
  assumes "settled_receipt (t_status t)" "t_status t \<noteq> ToolCanceled" "t_result t = Some j"
    and "deserialize_tool_result (re_codec (te_results e)) j = Inr r"
  shows "decide_call e q call h t d = (Answer (provider_safe (te_results e) call r), d)"
proof -
  have st: "t_status t \<in> {ToolCompleted, ToolFailed, ToolRejected}"
    using assms(1,2) by (auto simp: settled_receipt_def)
  then have "receipt_result (re_codec (te_results e)) t = Inr (Some r)"
    using assms(3,4) by (auto simp: receipt_result_def)
  then show ?thesis using st by (auto simp: decide_call_def)
qed

lemma recover_settled: "t_status t \<noteq> ToolOutcomeUnknown \<Longrightarrow> recover_receipt e q call t d = (Inr t, d)"
  by (simp add: recover_receipt_def)

text \<open>A call the boundary lets through: it names its run, its attempt and itself.\<close>

definition proper_call :: "tool_env \<Rightarrow> tool_call \<Rightarrow> bool" where
  "proper_call e call \<longleftrightarrow> te_run e \<noteq> [] \<and> te_attempt e \<noteq> [] \<and> tl_id call \<noteq> [] \<and> tl_name call \<noteq> [] \<and>
     (tl_name call = ''task'' \<longrightarrow> te_subagents e)"

lemma execute_prepared:
  assumes "proper_call e call"
    and "prepare_tool_receipt (te_ctx e 0) (receipt_request_of e call d) (te_others e 0 d) = Inr (t, d1)"
    and "t_status t \<noteq> ToolOutcomeUnknown"
  shows "execute_tool e call h d = decide_call e (receipt_request_of e call d) call h t d1"
  using assms recover_settled [OF assms(3)]
  by (auto simp: execute_tool_def proper_call_def Let_def)

lemma provider_safe_as_read:
  "provider_safe env call r = r \<Longrightarrow> provider_safe env call (result_as_read r) = result_as_read r"
  by (cases r) (simp_all add: provider_safe_def result_as_read_def)

lemma finished_is_settled:
  "settled_receipt (finished_status r)" "finished_status r \<noteq> ToolCanceled" "finished_status r \<noteq> ToolOutcomeUnknown"
  by (cases r; simp add: finished_status_def settled_receipt_def)+

subsection \<open>When the tool runs\<close>

lemma reconcile_distinct:
  "reconcile_tool_receipt c oper run dec res rh d = Inr (t, d') \<Longrightarrow> op_distinct d \<Longrightarrow> op_distinct d'"
  using reconcile_tool_receipt_effect by (fastforce simp: receipt_effect_def)

lemma recover_receipt_distinct:
  assumes "recover_receipt e q call t d = (x, d')" "op_distinct d" "others_keep_ids e"
  shows "op_distinct d'"
proof -
  have o: "op_distinct (te_others e k a)" if "op_distinct a" for k a using assms(3) that by (simp add: others_keep_ids_def)
  have child: "op_distinct b" if "recover_child_spawn e q call t a = (y, b)" "op_distinct a" for a b y
    using that(1) o [OF o [OF that(2)]] reconcile_distinct
    by (auto simp: recover_child_spawn_def Let_def bindr_Inr_iff split: sum.splits option.splits prod.splits)
  have mailbox: "op_distinct b" if "recover_mailbox e q a = (y, b)" "op_distinct a" for a b y
    using that(1) o [OF that(2)] reconcile_distinct
    by (auto simp: recover_mailbox_def Let_def split: sum.splits prod.splits)
  show ?thesis
    using assms(1,2) child mailbox unfolding recover_receipt_def
    by (auto split: if_splits prod.splits sum.splits)
qed

lemma cancel_before_tool_start_distinct:
  assumes "cancel_before_tool_start e k q d = (x, d')" "op_distinct d" "others_keep_ids e"
  shows "op_distinct d'"
proof -
  have o: "op_distinct (te_others e i a)" if "op_distinct a" for i a using assms(3) that by (simp add: others_keep_ids_def)
  have s: "op_distinct b" if "settle_call e i task q st res rh err a = (y, b)" "op_distinct a" for i task st res rh err a y b
    using settle_call_distinct [OF that(2) assms(3), of i task q st res rh err] that(1) by simp
  show ?thesis
    using assms(1) o [OF assms(2)] o [OF o [OF assms(2)]] s
    unfolding cancel_before_tool_start_def Let_def
    by (auto split: sum.splits bool.splits option.splits if_splits prod.splits)
qed

text \<open>The receipt was waiting to start, no cancellation was asked for, and this call started it.\<close>

definition started_by :: "tool_env \<Rightarrow> receipt_request \<Rightarrow> db \<Rightarrow> bool" where
  "started_by e q d \<longleftrightarrow> (\<exists>t0 t d1. receipt_in_run d (rq_op q) (rq_run q) = Some t0 \<and> unstarted t0 \<and>
     begin_tool_receipt (te_ctx e 10) (rq_op q) (rq_run q) (rq_attempt q) d = Inr (t, d1) \<and>
     t_status t = ToolRunning \<and> t_attempts t = t_attempts t0 + 1 \<and> t_attempt t = rq_attempt q \<and>
     (\<forall>l j. x_lease (te_ctx e 10) = Some l \<longrightarrow> lease_job_row l (rq_run q) d = Some j \<longrightarrow> j_cancel j = None))"

lemma execute_once_started:
  assumes "execute_once e q call h d \<noteq> execute_once e q call h' d" "op_distinct (te_others e 10 d)"
  shows "started_by e q (te_others e 10 d)"
proof -
  let ?d = "te_others e 10 d"
  obtain t d1 where b: "begin_tool_receipt (te_ctx e 10) (rq_op q) (rq_run q) (rq_attempt q) ?d = Inr (t, d1)"
    and r: "receipt_result (re_codec (te_results e)) t = Inr None"
    using assms(1) by (auto simp: execute_once_def Let_def split: sum.splits option.splits)
  obtain t0 where t0: "receipt_in_run ?d (rq_op q) (rq_run q) = Some t0"
    using b by (auto simp: begin_tool_receipt_def run_write_transaction_Inr split: option.splits)
  have "t_status t \<notin> {ToolCompleted, ToolFailed, ToolRejected, ToolCanceled}"
    using r by (auto simp: receipt_result_def split: option.splits sum.splits)
  then show ?thesis
    using begin_tool_receipt_cases [OF b assms(2) t0] b t0
    by (auto simp: started_by_def settled_receipt_def)
qed

lemma execute_tool_started:
  assumes "execute_tool e call h d \<noteq> execute_tool e call h' d" "op_distinct d" "others_keep_ids e"
  shows "\<exists>d0. op_distinct d0 \<and> started_by e (receipt_request_of e call d) d0"
proof -
  let ?q = "receipt_request_of e call d"
  have o: "op_distinct (te_others e i a)" if "op_distinct a" for i a using assms(3) that by (simp add: others_keep_ids_def)
  have once: "\<exists>d0. op_distinct d0 \<and> started_by e ?q d0"
    if "execute_once e ?q call h a \<noteq> execute_once e ?q call h' a" "op_distinct a" for a
    using execute_once_started [OF that(1) o [OF that(2)]] o [OF that(2)] by blast
  have gate: "\<exists>d0. op_distinct d0 \<and> started_by e ?q d0"
    if "execute_with_gate e ?q call h a \<noteq> execute_with_gate e ?q call h' a" "op_distinct a" for a
    using that once cancel_before_tool_start_distinct [OF _ that(2) assms(3)]
    by (auto simp: execute_with_gate_def split: if_splits prod.splits option.splits)
  have decide: "\<exists>d0. op_distinct d0 \<and> started_by e ?q d0"
    if "decide_call e ?q call h t a \<noteq> decide_call e ?q call h' t a" "op_distinct a" for t a
  proof -
    define a' where "a' = (if t_status t = ToolPrepared then te_others e 17 a else a)"
    have od: "op_distinct a'" using that(2) o by (simp add: a'_def)
    obtain x b where x: "cancel_before_tool_start e 4 ?q a' = (x, b)" by fastforce
    have "x = None \<and> execute_with_gate e ?q call h b \<noteq> execute_with_gate e ?q call h' b"
      using that(1) unfolding decide_call_def Let_def a'_def [symmetric] x
      by (auto split: if_splits sum.splits option.splits)
    then have "cancel_before_tool_start e 4 ?q a' = (None, b)"
      "execute_with_gate e ?q call h b \<noteq> execute_with_gate e ?q call h' b" using x by simp_all
    then show ?thesis using gate cancel_before_tool_start_distinct [OF _ od assms(3)] by blast
  qed
  obtain t d1 where p: "prepare_tool_receipt (te_ctx e 0) ?q (te_others e 0 d) = Inr (t, d1)"
    "\<exists>t1 d2. recover_receipt e ?q call t d1 = (Inr t1, d2) \<and> decide_call e ?q call h t1 d2 \<noteq> decide_call e ?q call h' t1 d2"
    using assms(1) by (auto simp: execute_tool_def Let_def split: if_splits sum.splits prod.splits)
  have "op_distinct d1"
    using prepare_tool_receipt_effect [OF p(1)] o [OF assms(2)] by (simp add: receipt_effect_def)
  then show ?thesis using p(2) decide recover_receipt_distinct [OF _ _ assms(3)] by blast
qed

subsection \<open>Properties\<close>

text \<open>An answered call is answered the same again, without running. After the tool ran and its
  answer was recorded, whatever the receipt operations of all callers do afterwards, another
  execution of the same operation that can prepare it returns the recorded answer, whatever the
  tool would do now: the result is replayed and the database stays as the preparation left it.\<close>

theorem answered_call_is_replayed:
  assumes "execute_once e q call h d = (Answer r, d1)"
    and "begin_tool_receipt (te_ctx e 10) (rq_op q) (rq_run q) (rq_attempt q) (te_others e 10 d) = Inr (t, d2)"
      "t_status t = ToolRunning"
    and "op_distinct d" "keeps_ids e h" "storable (re_codec (te_results e)) r"
    and "receipt_history d1 (te_others e' 0 d')"
    and "proper_call e' call" "te_results e' = te_results e" "rq_op (receipt_request_of e' call d') = rq_op q"
    and "prepare_tool_receipt (te_ctx e' 0) (receipt_request_of e' call d') (te_others e' 0 d') = Inr (t', d3)"
  shows "execute_tool e' call h' d' = (Answer (result_as_read r), d3)"
proof -
  let ?q = "receipt_request_of e' call d'"
  obtain s j where s: "get_receipt_row d1 (rq_op q) = Some s" "t_status s = finished_status r"
    "provider_safe (te_results e) call r = r" "t_result s = Some j"
    "serialize_tool_result (re_codec (te_results e)) r = Inr j" and od: "op_distinct d1"
    using execute_once_accounted [OF assms(2-5), of call] assms(1)
    by (auto simp: accounted_def recorded_as_def answer_kept_def)
  have mem: "s \<in> set (db_receipts d1)" "t_op s = rq_op q" using get_receipt_rowD [OF s(1)] by auto
  have found: "t' \<in> set (db_receipts d3)" "t_op t' = rq_op q"
    using prepare_tool_receipt_found(1,2) [OF assms(11)] assms(10)
    by (auto simp: same_operation_def dest: find_SomeD)
  have "receipt_history d1 d3"
    unfolding receipt_history_def
    by (rule rtranclp.rtrancl_into_rtrancl [OF assms(7) [unfolded receipt_history_def]])
      (use op_prepare [OF assms(11)] in blast)
  then have same: "t_status t' = t_status s" "t_result t' = Some j"
    using settled_receipt_kept [OF _ od mem(1) _ found(1)] found(2) mem(2) s(2,4) finished_is_settled
    by (auto simp: t_outcome_def)
  have "execute_tool e' call h' d' = decide_call e' ?q call h' t' d3"
    by (rule execute_prepared [OF assms(8,11)]) (use same(1) s(2) finished_is_settled in \<open>auto simp: settled_receipt_def\<close>)
  also have "\<dots> = (Answer (provider_safe (te_results e') call (result_as_read r)), d3)"
    by (rule settled_receipt_answers [OF _ _ same(2)])
      (use same(1) s(2) finished_is_settled deserialize_serialize [OF s(5) assms(6)] assms(9) in auto)
  finally show ?thesis using provider_safe_as_read [OF s(3)] assms(9) by simp
qed

text \<open>Every end of a run of the tool is accounted for. Once the receipt was begun, and unless the
  store itself fails, it is left with the status of what happened: completed or failed with the very
  answer that is returned, paused when the graph pauses, outcome unknown when the user is asked, and
  failed, canceled or unknown by the kind of the exception when one is raised on. It is never left
  running.\<close>

theorem execution_is_accounted_for:
  assumes "execute_once e q call h d = (x, d1)"
    and "begin_tool_receipt (te_ctx e 10) (rq_op q) (rq_run q) (rq_attempt q) (te_others e 10 d) = Inr (t, d2)"
      "t_status t = ToolRunning"
    and "op_distinct d" "keeps_ids e h"
  shows "(\<exists>err. x = Fault (StoreFault err)) \<or>
    (\<exists>t'. get_receipt_row d1 (rq_op q) = Some t' \<and> t_status t' \<notin> {ToolPrepared, ToolRunning} \<and>
      (case x of
         Answer r \<Rightarrow> t_status t' = finished_status r \<and>
           (\<exists>j. t_result t' = Some j \<and> serialize_tool_result (re_codec (te_results e)) r = Inr j)
       | Paused \<Rightarrow> t_status t' = ToolPaused
       | Asked _ \<Rightarrow> t_status t' = ToolOutcomeUnknown
       | Fault f \<Rightarrow> t_status t' = tool_error_status (rq_risk q) (tl_name call) f))"
proof -
  have "recorded_as q call x \<notin> {ToolPrepared, ToolRunning}"
    by (auto simp: recorded_as_def finished_status_def tool_error_status_def split: tool_end.splits call_result.splits)
  moreover have "accounted e q call (x, d1)"
    using execute_once_accounted [OF assms(2-5), of call] assms(1) by simp
  ultimately show ?thesis
    by (auto simp: accounted_def recorded_as_def answer_kept_def split: tool_end.splits)
qed

text \<open>An unknown outcome is not repeated unasked. When the receipt of the call is of unknown
  outcome and the Runtime cannot find out itself, or an earlier run of the lineage left the same
  call in that state, the user is asked, naming that call, and nothing is run or written.\<close>

theorem unknown_outcome_is_asked:
  assumes "proper_call e call" "\<not> te_resumed e"
    and "tl_name call \<noteq> ''child.spawn''" "\<not> starts_with ''mailbox.'' (tl_name call)"
    and "prepare_tool_receipt (te_ctx e 0) (receipt_request_of e call d) (te_others e 0 d) = Inr (t, d1)"
    and "t_status t = ToolOutcomeUnknown \<and> prior = None \<and> d2 = d1 \<or>
      t_status t = ToolPrepared \<and> prior \<noteq> None \<and> d2 = te_others e 17 d1 \<and>
      find_outcome_unknown_tool_receipt_in_lineage (rq_run (receipt_request_of e call d)) (tl_name call)
        (rq_args_hash (receipt_request_of e call d)) (tool_risk (tl_name call)) d2 = prior"
  shows "execute_tool e call h d =
    (Asked (ask_user (receipt_request_of e call d) (rq_args_hash (receipt_request_of e call d)) prior), d2)"
proof -
  let ?q = "receipt_request_of e call d"
  have q: "rq_name ?q = tl_name call" "rq_risk ?q = tool_risk (tl_name call)"
    by (simp_all add: receipt_request_of_def Let_def case_prod_unfold)
  have "recover_receipt e ?q call t d1 = (Inr t, d1)"
    using assms(3,4) by (simp add: recover_receipt_def)
  then have "execute_tool e call h d = decide_call e ?q call h t d1"
    using assms(1,5) by (auto simp: execute_tool_def proper_call_def Let_def)
  then show ?thesis using assms(2,6) q by (auto simp: decide_call_def Let_def)
qed


text \<open>The tool runs only in a call that started its receipt. If what a call returns depends on the
  tool at all, then in this very call the receipt, which was prepared or paused, was marked running
  under this attempt and counted once more, with no cancellation asked for: in every other case the
  tool is not executed.\<close>

theorem tool_runs_only_when_started:
  assumes "execute_tool e call h d \<noteq> execute_tool e call h' d" "op_distinct d" "others_keep_ids e"
  shows "\<exists>d0 t0 t d1. receipt_in_run d0 (rq_op (receipt_request_of e call d)) (te_run e) = Some t0 \<and> unstarted t0 \<and>
    begin_tool_receipt (te_ctx e 10) (rq_op (receipt_request_of e call d)) (te_run e) (te_attempt e) d0 = Inr (t, d1) \<and>
    t_status t = ToolRunning \<and> t_attempts t = t_attempts t0 + 1 \<and> t_attempt t = te_attempt e \<and>
    (\<forall>l j. x_lease (te_ctx e 10) = Some l \<longrightarrow> lease_job_row l (te_run e) d0 = Some j \<longrightarrow> j_cancel j = None)"
proof -
  have q: "rq_run (receipt_request_of e call d) = te_run e" "rq_attempt (receipt_request_of e call d) = te_attempt e"
    by (simp_all add: receipt_request_of_def Let_def case_prod_unfold)
  show ?thesis using execute_tool_started [OF assms] unfolding started_by_def q by blast
qed

subsection \<open>One call, concretely\<close>

text \<open>A read tool is called in the demo run, answers, and is called again with another answer ready.\<close>

definition plain_codec :: message_codec where
  "plain_codec = \<lparr>to_dict = (\<lambda>m. case m of
       OfTool t \<Rightarrow> JObj [(''content'', tm_content t), (''name'', JStr (tm_name t)), (''call'', JStr (tm_call t)),
         (''error'', JBool (tm_error t)), (''extra'', JObj (tm_extra t))]
     | OtherMessage ty j \<Rightarrow> j),
     from_dict = (\<lambda>j. Some (OfTool \<lparr>tm_content = dget (obj_of j) ''content'', tm_name = str_of (dget (obj_of j) ''name''),
       tm_call = str_of (dget (obj_of j) ''call''), tm_error = (dget (obj_of j) ''error'' = JBool True),
       tm_extra = obj_of (dget (obj_of j) ''extra'')\<rparr>))\<rparr>"

definition demo_tool_env :: tool_env where
  "demo_tool_env = \<lparr>te_ctx = (\<lambda>_. demo_ctx), te_others = (\<lambda>_ d. d), te_resumed = False,
     te_results = \<lparr>re_codec = plain_codec, re_profile = JNull, re_attachments = [], re_loads = (\<lambda>_. None),
       re_sha = (\<lambda>_. ''h''), re_decode = (\<lambda>s. s)\<rparr>,
     te_resolve = (\<lambda>_. []), te_workspace = True, te_subagents = True, te_run = ''run_1'', te_attempt = ''job_1:1'',
     te_namespace = ''root'', te_plugins = JNull, te_graph = ''1'', te_parent = None\<rparr>"

definition demo_call :: tool_call where
  "demo_call = \<lparr>tl_id = ''c'', tl_name = ''ls'', tl_args = JObj []\<rparr>"

definition answering :: "string \<Rightarrow> tool_handler" where
  "answering s d = (Returned (Message \<lparr>tm_content = JStr s, tm_name = ''ls'', tm_call = ''c'', tm_error = False,
     tm_extra = []\<rparr>), d)"

definition content_of :: "tool_end \<Rightarrow> string" where
  "content_of x = (case x of Answer (Message m) \<Rightarrow> str_of (tm_content m) | _ \<Rightarrow> [])"

lemma called_twice:
  "(case execute_tool demo_tool_env demo_call (answering ''a'') demo_db of (x, d) \<Rightarrow>
      content_of x = ''a'' \<and> map t_status (db_receipts d) = [ToolCompleted] \<and>
      content_of (fst (execute_tool demo_tool_env demo_call (answering ''b'') d)) = ''a'')"
  by code_simp

text \<open>A writing tool that fails leaves an unknown outcome, which the next call puts before the user.\<close>

definition posting :: tool_call where
  "posting = \<lparr>tl_id = ''c'', tl_name = ''web.post'', tl_args = JObj []\<rparr>"

definition crashing :: tool_handler where
  "crashing d = (Failed (RaisedError ''OSError'' False []), d)"

definition asks_and_keeps :: "tool_end \<times> db \<Rightarrow> bool" where
  "asks_and_keeps x = (case x of (Asked r, d) \<Rightarrow> map t_status (db_receipts d) = [ToolOutcomeUnknown] | _ \<Rightarrow> False)"

lemma failed_write_is_asked:
  "(case execute_tool demo_tool_env posting crashing demo_db of (x, d) \<Rightarrow>
      asks_and_keeps (x, d) \<and> asks_and_keeps (execute_tool demo_tool_env posting (answering ''b'') d))"
  by code_simp

end
