(* ===== verification/Spec2Isabelle.thy ===== *)
theory Spec2Isabelle
  imports Team_Graph Schedules Tool_Gate Tool_Execution
begin

text \<open>
  Verification of the local Runtime of Jiandanly (src/runtime/src/shejane\_runtime): the Python
  service that runs agent conversations on a user's machine and keeps everything that must survive
  a crash in one SQLite database. The theories model the store, the policies that decide over it
  and the boundary between the store and the tools an agent calls. File names below are relative
  to that directory; each theory opens with what it holds.

  \<^bold>\<open>The program and its parts.\<close> A client's start becomes a run with a job in one transaction
  (admission); a worker claims the job under a lease with a generation and an expiry (jobs); every
  later write of that worker goes through a transaction that checks the lease (the fence). While the
  run executes, each model call is reserved in a ledger, each tool call has a receipt, questions and
  permissions are waits the run pauses on, children of the run coordinate over dependencies,
  claims and a mailbox. At the end one commit settles the run, its event, its thread projection,
  its receipts and its job (run state); a lost lease is quarantined until its own owner confirms
  the cleanup. Threads and their change feed are what clients read. Everything that happened is in
  an event log per run.

  \<^bold>\<open>State.\<close> \<open>Store_Schema.db\<close> is the record of all tables, each a list of rows in the order of
  insertion, a row a record with the columns the code reads. The plugin registry
  (\<open>Plugins.plugins\<close>), the blob directory (\<open>Artifacts\<close>) and the gate of tool calls
  (\<open>Tool_Gate.gate\<close>) are states of their own. An operation takes the state and returns
  \<open>Inl error\<close>, with the rollback implied, or \<open>Inr (result, state)\<close>; \<open>Database\<close> has the error
  type, the lease and the write transaction. \<open>ctx\<close> holds the lease a task is bound to and the
  successive readings of the clock. Times are microseconds (nat), integers of Python are \<open>int\<close>,
  texts are lists of characters below code point 256, and JSON is the datatype
  \<open>Python_Values.json\<close> with its encoder. The texts of error messages are left out.

  \<^bold>\<open>Theories, in the order of their imports, and what their lemmas show.\<close>

  \<^item> \<open>Prelude\<close>, \<open>Python_Values\<close>, \<open>Fixtures\<close>: tables as lists (select, update, count), results,
    the locales \<open>status_machine\<close> and \<open>lifecycle_table\<close> (rows that move along a step relation and
    stay once settled), Python's values and text methods, and the small database of the witnesses.
  \<^item> \<open>Store_Schema\<close> (store/schema.py), \<open>Database\<close> (store/database.py, errors.py, ids.py; locale
    \<open>lease_fence\<close>), \<open>Event_Log\<close> (store/run\_state, events.py; locale \<open>append_log\<close>): sequence
    numbers are gapless, older events stay, the change feed is ordered.
  \<^item> \<open>Tool_Receipts\<close> (store/tool\_receipts): the life of a receipt, fencing of a lost attempt,
    reconciliation; a settled receipt is final, and what \<open>begin_tool_receipt\<close> can return.
  \<^item> \<open>Model_Calls\<close> (store/model\_calls.py): budgets, gapless numbering, settled calls, drafts.
  \<^item> \<open>Run_State\<close> (store/run\_state, records.py): runs, the branch head, steering and the commit of
    a result; a result is committed once, under any later writes. \<open>store_effect\<close> collects what
    every operation keeps, and the later theories prove it of theirs.
  \<^item> \<open>Run_Control\<close> (store/run\_commands/receipts.py, control.py; locale \<open>recorded_command\<close>):
    command idempotency, cancelation of a tree of runs.
  \<^item> \<open>Run_Jobs\<close> (store/run\_jobs): the queue, leases and quarantine.
  \<^item> \<open>Team_Plan\<close>, \<open>Team_Graph\<close> (agent/team\_plan.py, agent/team\_graph.py): the plan check is
    exact, a team run finishes, findings are durable.
  \<^item> \<open>Artifacts\<close> (store/artifacts.py): byte limits of every reachable store, round trip of files.
  \<^item> \<open>Permission_Policy\<close>, \<open>Waits\<close>, \<open>Wait_Commands\<close> (permission\_policy.py, store/waits,
    store/run\_commands/waits.py): decisions are final and resume a run once.
  \<^item> \<open>Agent_Messages\<close>, \<open>Collaboration\<close>, \<open>Settlement\<close> (store/agent\_messages.py,
    store/collaboration, runs/collaboration.py, runs/settlement.py): the bounded mailbox, limits of
    families of runs, and the completion policy with the loop that refines it.
  \<^item> \<open>Failure_Policy\<close> (failure\_policy.py, runs/failure\_projection.py,
    middleware/tool\_result\_retry.py): classification, redaction of secrets, the retry loop.
  \<^item> \<open>Plugins\<close> (store/plugins; locale \<open>registry_body\<close>): the registry invariant and the bindings
    of a run.
  \<^item> \<open>Threads\<close>, \<open>Run_Admission\<close>, \<open>Run_Configuration\<close>, \<open>Run_Service\<close>, \<open>Schedules\<close>
    (store/threads.py, store/workspaces.py, store/run\_commands, run\_configuration.py, config.py,
    runs/admission.py, runs/inputs.py, store/schedules.py, scheduler.py): paging and the change
    feed, admission as one step, frozen settings and policies, accepted starts, schedules.
  \<^item> \<open>Tool_Results\<close>, \<open>Tool_Gate\<close>, \<open>Tool_Identity\<close>, \<open>Tool_Execution\<close>
    (middleware/tool\_result\_codec.py, agent/tool\_execution\_gate.py,
    middleware/tool\_execution\_identity.py, middleware/tool\_execution.py,
    middleware/tool\_receipt\_recovery.py): the codec round trip, exclusion and order at the gate,
    and one tool call as a whole: it runs only when its receipt was started in this call, every end
    of it is recorded as what it was, an answered call is replayed and an unknown outcome asked.

  The interfaces are the locales named above; each is interpreted on the tables and commands of the
  model in the theory that provides them (\<open>receipts\<close>, \<open>calls\<close>, \<open>jobs\<close>, \<open>waits\<close>, \<open>mail\<close>,
  \<open>fates\<close>, \<open>fence\<close>, \<open>run_log\<close>, \<open>call_ledger\<close>, \<open>talk\<close>, the recorded commands and the registry
  commands), and the properties rest on those facts.

  \<^bold>\<open>Loops and their bounds.\<close> Recursions end by structure or by a measure proved in place.
  \<open>Settlement.coordinate\<close> has fuel for its turns: every turn takes a new read of the children, and
  where they have ended by the \<open>N\<close>th read, fuel \<open>N + 1\<close> is shown to be enough; \<open>Threads\<close> collects older pages with
  any fuel above the number of items; \<open>Team_Graph.team_loop\<close> has the round limit of the code, and a
  valid plan finishes under any limit above its number of assignments; \<open>Run_Control.run_levels\<close> is
  bounded by the number of runs, beyond which no level is inhabited; the descendants of a task and
  the lineage of a run are cut at depth 64 as in the code; the walk over checkpoints ends because
  each step visits a stored checkpoint for the first time.

  \<^bold>\<open>Parameters.\<close> What is not in the repository or not in Python's language is an argument: SHA-256
  (\<open>sha\<close>), the reading of JSON texts of third parties (\<open>loads\<close>), path resolution (\<open>resolve\<close>) and
  whether a path is still there (\<open>gone\<close>), the regular expressions that tell a complex goal, the
  dictionaries of LangChain messages (\<open>message_codec\<close>), the decoding of cut UTF-8, the models,
  connections and skills of the service environment, the tool a call runs (\<open>tool_handler\<close>), the
  answers of team members (\<open>te_invoke\<close>), and what other tasks do between two store calls of one
  task (\<open>te_others\<close>, or a separate database for a read outside a transaction). Where a statement
  needs something of a parameter it is a hypothesis of that statement.

  \<^bold>\<open>Coarser than the code.\<close> A file that vanished while its blob is promoted is the error of a
  conflicting one; the version of a model connection is compared as it is stored, without
  \<open>int()\<close>; a plugin manifest without actions counts as one with none instead of failing; the start
  of a schedule's run and the binding are one step, and an exception in its stream afterwards is
  the same guarded update as its completion; LangGraph's supersteps are written out as rounds of
  the team graph. No property rests on these.

  \<^bold>\<open>Not modelled.\<close> The asynchronous drivers of a run (runs/job\_execution.py, graph\_driver.py and
  others), agent construction, the hooks of the agent loop and the model providers sequence the
  modelled operations around third-party graphs and network calls; the HTTP routes, A2A gateway,
  diagnostics and presentation are input and output; migrations, the checkpointer, credentials,
  plugin workers and sandboxes rest on SQL, operating-system and third-party code. The manifest
  lists every part with its reason. Task cancelation in the middle of a store call is rolled back
  by the transaction and not a step of its own, except for the waiters of the gate.
\<close>

end
